(* ===== verification/JsNumber.thy ===== *)
theory JsNumber
  imports Prelude
begin

text \<open>
  JavaScript numbers holding whole values. Such a number is a double: whole values below $2^{53}$
  are held exactly, larger ones are rounded to 53 significant bits, ties to even. A component's
  amounts are \<^typ>\<open>int\<close>; every addition, subtraction and multiplication that can
  leave the exact range is written \<open>js_add\<close>, \<open>js_sub\<close>, \<open>js_mul\<close>, which round as the double
  does. Division, remainder and comparison of safe integers are exact. (Overflow to infinity,
  beyond $2^{1024}$, is not modelled: \<open>isSafeInteger\<close> is false there as well.)
\<close>

type_synonym number = int

definition MAX_SAFE_INTEGER :: number where
  "MAX_SAFE_INTEGER = 9007199254740991"

definition isSafeInteger :: "number \<Rightarrow> bool" where
  "isSafeInteger n \<longleftrightarrow> \<bar>n\<bar> \<le> MAX_SAFE_INTEGER"

section \<open>Rounding to a double\<close>

text \<open>The spacing of the doubles around \<open>m\<close>, and rounding to it, ties to even.\<close>

function spacing :: "int \<Rightarrow> int" where
  "spacing m = (if m < 9007199254740992 then 1 else 2 * spacing (m div 2))"
  by pat_completeness auto
termination
  by (relation "measure nat") auto

declare spacing.simps [simp del]

text \<open>The equations a closed term is evaluated with: the test is decided before the recursion.\<close>

definition spacing_when :: "bool \<Rightarrow> int \<Rightarrow> int" where
  "spacing_when small m = (if small then 1 else 2 * spacing (m div 2))"

lemma spacing_code [code]:
  "spacing m = spacing_when (m < 9007199254740992) m"
  "spacing_when True m = 1"
  "spacing_when False m = 2 * spacing (m div 2)"
  by (simp_all add: spacing_when_def spacing.simps [of m])

definition round_even :: "int \<Rightarrow> int \<Rightarrow> int" where
  "round_even m u =
     (let q = m div u; r = m mod u
      in if 2 * r < u \<or> (2 * r = u \<and> even q) then q * u else (q + 1) * u)"

definition to_double :: "int \<Rightarrow> number" where
  "to_double n = sgn n * round_even \<bar>n\<bar> (spacing \<bar>n\<bar>)"

definition js_add :: "number \<Rightarrow> number \<Rightarrow> number" where
  "js_add a b = to_double (a + b)"

definition js_sub :: "number \<Rightarrow> number \<Rightarrow> number" where
  "js_sub a b = to_double (a - b)"

definition js_mul :: "number \<Rightarrow> number \<Rightarrow> number" where
  "js_mul a b = to_double (a * b)"

section \<open>Exactness in the safe range\<close>

lemma spacing_large: "9007199254740992 \<le> m \<Longrightarrow> 2 \<le> spacing m \<and> 4503599627370496 \<le> m div spacing m"
proof (induction m rule: spacing.induct)
  case (1 m)
  have unfold: "spacing m = 2 * spacing (m div 2)"
    using "1.prems" by (simp add: spacing.simps [of m])
  show ?case
  proof (cases "m div 2 < 9007199254740992")
    case True
    then have "spacing (m div 2) = 1" by (simp add: spacing.simps [of "m div 2"])
    with unfold "1.prems" show ?thesis by simp
  next
    case False
    then have "2 \<le> spacing (m div 2) \<and> 4503599627370496 \<le> m div 2 div spacing (m div 2)"
      using "1.IH" "1.prems" by simp
    then show ?thesis by (simp add: unfold zdiv_zmult2_eq)
  qed
qed

lemma round_even_one [simp]: "round_even m 1 = m"
  by (simp add: round_even_def)

lemma round_even_ge: "0 < u \<Longrightarrow> m div u * u \<le> round_even m u"
  by (simp add: round_even_def Let_def)

lemma to_double_safe [simp]: "isSafeInteger n \<Longrightarrow> to_double n = n"
proof -
  assume "isSafeInteger n"
  then have "\<bar>n\<bar> < 9007199254740992" by (simp add: isSafeInteger_def MAX_SAFE_INTEGER_def)
  then have "spacing \<bar>n\<bar> = 1" by (simp add: spacing.simps [of "\<bar>n\<bar>"])
  then show ?thesis by (simp add: to_double_def sgn_mult_abs)
qed

lemma to_double_unsafe: "9007199254740992 \<le> \<bar>n\<bar> \<Longrightarrow> 9007199254740992 \<le> \<bar>to_double n\<bar>"
proof -
  assume n: "9007199254740992 \<le> \<bar>n\<bar>"
  let ?m = "\<bar>n\<bar>"
  from spacing_large [OF n] have "4503599627370496 * 2 \<le> ?m div spacing ?m * spacing ?m"
    by (intro mult_mono) auto
  also have "\<dots> \<le> round_even ?m (spacing ?m)" using spacing_large [OF n] by (intro round_even_ge) simp
  finally have "9007199254740992 \<le> round_even ?m (spacing ?m)" by simp
  moreover from n have "\<bar>sgn n\<bar> = 1" by (simp add: abs_sgn_eq)
  ultimately show ?thesis by (simp add: to_double_def abs_mult)
qed

lemma spacing_pos: "0 < spacing m"
  by (cases "m < 9007199254740992") (use spacing_large [of m] in \<open>auto simp: spacing.simps [of m]\<close>)

lemma to_double_nonneg: "0 \<le> n \<Longrightarrow> 0 \<le> to_double n"
proof -
  assume n: "0 \<le> n"
  have "0 \<le> \<bar>n\<bar> div spacing \<bar>n\<bar> * spacing \<bar>n\<bar>"
    using spacing_pos [of "\<bar>n\<bar>"] by (simp add: pos_imp_zdiv_nonneg_iff)
  also have "\<dots> \<le> round_even \<bar>n\<bar> (spacing \<bar>n\<bar>)" by (rule round_even_ge [OF spacing_pos])
  finally show ?thesis using n by (simp add: to_double_def sgn_if)
qed

lemma not_safe_iff: "\<not> isSafeInteger n \<longleftrightarrow> 9007199254740992 \<le> \<bar>n\<bar>"
  by (auto simp: isSafeInteger_def MAX_SAFE_INTEGER_def)

text \<open>The check after the operation is the check on the exact value.\<close>

lemma isSafeInteger_to_double [simp]: "isSafeInteger (to_double n) \<longleftrightarrow> isSafeInteger n"
  using to_double_unsafe [of n] not_safe_iff [of n] not_safe_iff [of "to_double n"] to_double_safe [of n]
  by (cases "isSafeInteger n") (simp_all only: simp_thms)

lemma to_double_exact: "isSafeInteger (to_double n) \<Longrightarrow> to_double n = n"
  by simp

lemma js_safe_iff [simp]:
  "isSafeInteger (js_add a b) \<longleftrightarrow> isSafeInteger (a + b)"
  "isSafeInteger (js_sub a b) \<longleftrightarrow> isSafeInteger (a - b)"
  "isSafeInteger (js_mul a b) \<longleftrightarrow> isSafeInteger (a * b)"
  by (simp_all add: js_add_def js_sub_def js_mul_def)

lemma js_exact [exact]:
  "isSafeInteger (a + b) \<Longrightarrow> js_add a b = a + b"
  "isSafeInteger (a - b) \<Longrightarrow> js_sub a b = a - b"
  "isSafeInteger (a * b) \<Longrightarrow> js_mul a b = a * b"
  by (simp_all add: js_add_def js_sub_def js_mul_def)

lemma isSafeInteger_abs_le: "\<bar>a\<bar> \<le> \<bar>b\<bar> \<Longrightarrow> isSafeInteger b \<Longrightarrow> isSafeInteger a"
  by (simp add: isSafeInteger_def)

lemma isSafeInteger_between: "0 \<le> a \<Longrightarrow> a \<le> b \<Longrightarrow> isSafeInteger b \<Longrightarrow> isSafeInteger a"
  by (simp add: isSafeInteger_def)

lemma isSafeInteger_uminus [simp]: "isSafeInteger (- a) \<longleftrightarrow> isSafeInteger a"
  by (simp add: isSafeInteger_def)

lemma isSafeInteger_0 [simp]: "isSafeInteger 0"
  by (simp add: isSafeInteger_def MAX_SAFE_INTEGER_def)

lemma isSafeInteger_numeral [simp]:
  "isSafeInteger (numeral k) \<longleftrightarrow> numeral k \<le> (9007199254740991 :: int)"
  "isSafeInteger 1"
  by (simp_all add: isSafeInteger_def MAX_SAFE_INTEGER_def)

lemma isSafeInteger_diff_nonneg:
  "0 \<le> a \<Longrightarrow> 0 \<le> b \<Longrightarrow> isSafeInteger a \<Longrightarrow> isSafeInteger b \<Longrightarrow> isSafeInteger (a - b)"
  by (simp add: isSafeInteger_def)

section \<open>Running totals\<close>

text \<open>\<open>total += x\<close> over a list, starting at \<open>t\<close>.\<close>

fun js_total :: "number \<Rightarrow> number list \<Rightarrow> number" where
  "js_total t [] = t"
| "js_total t (x # xs) = js_total (js_add t x) xs"

text \<open>
  Of non-negative numbers the running total never comes back into the safe range once it has
  left it, so a final total that is safe is exact.
\<close>

lemma js_total_unsafe:
  "9007199254740992 \<le> t \<Longrightarrow> (\<And>x. x \<in> set xs \<Longrightarrow> 0 \<le> x) \<Longrightarrow> 9007199254740992 \<le> js_total t xs"
proof (induction xs arbitrary: t)
  case Nil
  then show ?case by simp
next
  case (Cons x xs)
  have "0 \<le> x" using Cons.prems(2) by simp
  then have "9007199254740992 \<le> t + x" using Cons.prems(1) by simp
  then have "9007199254740992 \<le> js_add t x"
    using to_double_unsafe [of "t + x"] to_double_nonneg [of "t + x"] by (simp add: js_add_def)
  with Cons show ?case by simp
qed

lemma js_add_nonneg: "0 \<le> a \<Longrightarrow> 0 \<le> b \<Longrightarrow> 0 \<le> js_add a b"
  by (simp add: js_add_def to_double_nonneg)

lemma js_total_nonneg: "0 \<le> t \<Longrightarrow> (\<And>x. x \<in> set xs \<Longrightarrow> 0 \<le> x) \<Longrightarrow> 0 \<le> js_total t xs"
  by (induction xs arbitrary: t) (auto intro: js_add_nonneg)

lemma js_total_exact [exact]:
  assumes "0 \<le> t" "\<And>x. x \<in> set xs \<Longrightarrow> 0 \<le> x" "isSafeInteger (js_total t xs)"
  shows "js_total t xs = t + sum_list xs"
  using assms
proof (induction xs arbitrary: t)
  case Nil
  then show ?case by simp
next
  case (Cons x xs)
  have safe: "isSafeInteger (t + x)"
  proof (rule ccontr)
    assume "\<not> isSafeInteger (t + x)"
    then have "9007199254740992 \<le> js_add t x"
      using Cons.prems to_double_unsafe [of "t + x"] to_double_nonneg [of "t + x"]
      by (simp add: js_add_def not_safe_iff)
    then have "9007199254740992 \<le> js_total (js_add t x) xs"
      using Cons.prems by (intro js_total_unsafe) auto
    with Cons.prems(3) show False by (simp add: isSafeInteger_def MAX_SAFE_INTEGER_def)
  qed
  then have "js_add t x = t + x" by (rule js_exact)
  moreover have "js_total (t + x) xs = (t + x) + sum_list xs"
    using Cons.prems \<open>js_add t x = t + x\<close> by (intro Cons.IH) auto
  ultimately show ?case by simp
qed

lemma js_total_safe:
  assumes "0 \<le> t" "\<And>x. x \<in> set xs \<Longrightarrow> 0 \<le> x" "isSafeInteger (t + sum_list xs)"
  shows "js_total t xs = t + sum_list xs"
  using assms
proof (induction xs arbitrary: t)
  case Nil
  then show ?case by simp
next
  case (Cons x xs)
  have "0 \<le> sum_list xs" using Cons.prems by (intro sum_list_nonneg_int) auto
  then have "isSafeInteger (t + x)"
    using Cons.prems isSafeInteger_between [of "t + x" "t + sum_list (x # xs)"] by auto
  then have "js_add t x = t + x" by (rule js_exact)
  with Cons show ?case by (simp add: add.assoc)
qed

lemma js_total_abs:
  "isSafeInteger (\<bar>t\<bar> + sum_list (map abs xs)) \<Longrightarrow> js_total t xs = t + sum_list xs"
proof (induction xs arbitrary: t)
  case Nil
  then show ?case by simp
next
  case (Cons x xs)
  have rest: "0 \<le> sum_list (map abs xs)" by (rule sum_list_map_nonneg) simp
  have safe: "isSafeInteger (t + x)"
    by (rule isSafeInteger_abs_le [OF _ Cons.prems]) (use rest in simp)
  have "isSafeInteger (\<bar>t + x\<bar> + sum_list (map abs xs))"
    by (rule isSafeInteger_abs_le [OF _ Cons.prems]) (use rest in simp)
  then show ?case using Cons.IH safe by (simp add: exact)
qed

end
