(* ===== verification/Money.thy ===== *)
theory Money
  imports JsNumber
begin

text \<open>
  \<open>packages/domain/src/money.ts\<close>: amounts in paise, rates in basis points, exact division with
  explicit rounding, proportional allocation by largest remainders, and rupee text. The lemmas
  give each operation's error conditions, what rounding may change, and that an allocation adds
  up exactly; the locale \<open>allocator\<close> states what the billing components rely on.
\<close>

type_synonym Paise = number
type_synonym BasisPoints = number

definition BASIS_POINTS_PER_WHOLE :: BasisPoints where
  "BASIS_POINTS_PER_WHOLE = 10000"

definition PAISE_PER_RUPEE :: Paise where
  "PAISE_PER_RUPEE = 100"

datatype RoundingMode = HALF_UP | HALF_EVEN | DOWN | UP

definition DEFAULT_ROUNDING :: RoundingMode where
  "DEFAULT_ROUNDING = HALF_UP"

section \<open>Checks\<close>

definition assertPaise :: "Paise \<Rightarrow> bool \<Rightarrow> unit result" where
  "assertPaise value allowNegative =
     (if \<not> isSafeInteger value then Inl INVALID_AMOUNT
      else if \<not> allowNegative \<and> value < 0 then Inl INVALID_AMOUNT
      else Inr ())"

definition assertBasisPoints :: "BasisPoints \<Rightarrow> BasisPoints option \<Rightarrow> unit result" where
  "assertBasisPoints value limit =
     (if \<not> isSafeInteger value \<or> value < 0 then Inl INVALID_RATE
      else case limit of
        None \<Rightarrow> Inr ()
      | Some m \<Rightarrow> if value > m then Inl INVALID_RATE else Inr ())"

definition assertSafeProduct :: "number \<Rightarrow> unit result" where
  "assertSafeProduct value = (if \<not> isSafeInteger value then Inl INVALID_AMOUNT else Inr ())"

section \<open>Division, rates, multiples and sums\<close>

definition divideRounded :: "number \<Rightarrow> number \<Rightarrow> RoundingMode \<Rightarrow> number result" where
  "divideRounded numerator denominator mode =
     (if \<not> isSafeInteger numerator \<or> \<not> isSafeInteger denominator \<or> denominator \<le> 0
      then Inl INVALID_ARGUMENT
      else
        let sign = (if numerator < 0 then - 1 else 1);
            absolute = \<bar>numerator\<bar>;
            remainder = absolute mod denominator;
            quotient = (absolute - remainder) div denominator
        in if remainder = 0 then Inr (sign * quotient)
           else
             let roundAway =
               (case mode of
                  DOWN \<Rightarrow> False
                | UP \<Rightarrow> True
                | HALF_UP \<Rightarrow> remainder * 2 \<ge> denominator
                | HALF_EVEN \<Rightarrow>
                    let twice = remainder * 2
                    in twice > denominator \<or> (twice = denominator \<and> quotient mod 2 = 1))
             in Inr (sign * (if roundAway then quotient + 1 else quotient)))"

definition applyRate :: "Paise \<Rightarrow> BasisPoints \<Rightarrow> RoundingMode \<Rightarrow> Paise result" where
  "applyRate amount rateBp mode =
     bindE (assertPaise amount True) (\<lambda>_.
     bindE (assertBasisPoints rateBp None) (\<lambda>_.
     let product = js_mul amount rateBp
     in bindE (assertSafeProduct product) (\<lambda>_.
        divideRounded product BASIS_POINTS_PER_WHOLE mode)))"

definition multiply :: "Paise \<Rightarrow> number \<Rightarrow> Paise result" where
  "multiply amount quantity =
     bindE (assertPaise amount True) (\<lambda>_.
     if \<not> isSafeInteger quantity then Inl INVALID_QUANTITY
     else
       let product = js_mul amount quantity
       in bindE (assertSafeProduct product) (\<lambda>_. Inr product))"

fun sum_from :: "number \<Rightarrow> Paise list \<Rightarrow> number result" where
  "sum_from acc [] = Inr acc"
| "sum_from acc (amount # amounts) =
     bindE (assertPaise amount True) (\<lambda>_. sum_from (js_add acc amount) amounts)"

definition sum_paise :: "Paise list \<Rightarrow> Paise result" where
  "sum_paise amounts =
     bindE (sum_from 0 amounts) (\<lambda>acc.
     bindE (assertSafeProduct acc) (\<lambda>_. Inr acc))"

section \<open>Allocation by largest remainders\<close>

text \<open>The loop that checks and adds up the weights.\<close>

fun total_weight :: "number \<Rightarrow> number list \<Rightarrow> number result" where
  "total_weight totalWeight [] = Inr totalWeight"
| "total_weight totalWeight (weight # weights) =
     bindE (throw_if (\<not> isSafeInteger weight \<or> weight < 0) INVALID_ARGUMENT) (\<lambda>_.
     total_weight (js_add totalWeight weight) weights)"

text \<open>One weight's whole share and its remainder.\<close>

definition share_of :: "Paise \<Rightarrow> number \<Rightarrow> number \<Rightarrow> (Paise \<times> number) result" where
  "share_of amount totalWeight weight =
     (let product = js_mul amount weight
      in bindE (assertSafeProduct product) (\<lambda>_.
         let remainder = product mod totalWeight;
             share = (product - remainder) div totalWeight
         in Inr (share, remainder)))"

text \<open>Largest remainder first, then the earlier index.\<close>

definition by_remainder :: "nat \<times> number \<Rightarrow> nat \<times> number \<Rightarrow> int" where
  "by_remainder a b =
     (if snd b - snd a \<noteq> 0 then snd b - snd a else int (fst a) - int (fst b))"

text \<open>The loop that hands out the paise left over.\<close>

fun hand_out :: "number \<Rightarrow> (nat \<times> number) list \<Rightarrow> Paise list \<Rightarrow> Paise list" where
  "hand_out leftover [] parts = parts"
| "hand_out leftover ((index, remainder) # entries) parts =
     (if leftover = 0 then parts
      else if remainder = 0 then hand_out leftover entries parts
      else hand_out (leftover - 1) entries (parts[index := parts ! index + 1]))"

definition allocate :: "Paise \<Rightarrow> number list \<Rightarrow> Paise list result" where
  "allocate amount weights =
     bindE (assertPaise amount False) (\<lambda>_.
     if length weights = 0 then (if amount = 0 then Inr [] else Inl INVALID_ARGUMENT)
     else
       bindE (total_weight 0 weights) (\<lambda>totalWeight.
       bindE (assertSafeProduct totalWeight) (\<lambda>_.
       if totalWeight = 0
       then (if amount = 0 then Inr (map (\<lambda>_. 0) weights) else Inl INVALID_ARGUMENT)
       else
         bindE (mapE (share_of amount totalWeight) weights) (\<lambda>shares.
         let parts = map fst shares;
             remainders = zip [0..<length shares] (map snd shares);
             allocated = js_total 0 parts;
             leftover = js_sub amount allocated
         in Inr (hand_out leftover (js_sort by_remainder remainders) parts)))))"

definition splitEvenly :: "Paise \<Rightarrow> number \<Rightarrow> Paise list result" where
  "splitEvenly amount parts =
     (if \<not> isSafeInteger parts \<or> parts < 1 then Inl INVALID_ARGUMENT
      else allocate amount (replicate (nat parts) 1))"

definition roundToUnit :: "Paise \<Rightarrow> Paise \<Rightarrow> RoundingMode \<Rightarrow> Paise result" where
  "roundToUnit amount unit_paise mode =
     bindE (assertPaise amount True) (\<lambda>_.
     if \<not> isSafeInteger unit_paise \<or> unit_paise \<le> 0 then Inl INVALID_ARGUMENT
     else bindE (divideRounded amount unit_paise mode) (\<lambda>q. Inr (js_mul q unit_paise)))"

section \<open>What the checks say\<close>

lemma assertPaise_Inr [results]:
  "assertPaise v neg = Inr u \<longleftrightarrow> isSafeInteger v \<and> (neg \<or> 0 \<le> v)"
  by (auto simp: assertPaise_def)

lemma assertPaise_ok [simp]:
  "isSafeInteger v \<Longrightarrow> 0 \<le> v \<Longrightarrow> assertPaise v neg = Inr ()"
  "isSafeInteger v \<Longrightarrow> assertPaise v True = Inr ()"
  by (simp_all add: assertPaise_def)

lemma assertBasisPoints_Inr [results]:
  "assertBasisPoints v m = Inr u \<longleftrightarrow>
     isSafeInteger v \<and> 0 \<le> v \<and> (case m of None \<Rightarrow> True | Some k \<Rightarrow> v \<le> k)"
  by (auto simp: assertBasisPoints_def split: option.splits)

lemma assertSafeProduct_Inr [results]: "assertSafeProduct v = Inr u \<longleftrightarrow> isSafeInteger v"
  by (simp add: assertSafeProduct_def)

lemma assertSafeProduct_ok [simp]: "isSafeInteger v \<Longrightarrow> assertSafeProduct v = Inr ()"
  by (simp add: assertSafeProduct_def)

section \<open>Rounded division\<close>

text \<open>
  The four modes against the exact quotient: the result is always within one of it, the half
  modes within a half, \<open>DOWN\<close> never past it and \<open>UP\<close> never short of it.
\<close>

definition rounded_quotient :: "number \<Rightarrow> number \<Rightarrow> RoundingMode \<Rightarrow> number" where
  "rounded_quotient n d mode =
     (let q = \<bar>n\<bar> div d; r = \<bar>n\<bar> mod d
      in sgn n * (if (case mode of
                 DOWN \<Rightarrow> False
               | UP \<Rightarrow> r \<noteq> 0
               | HALF_UP \<Rightarrow> d \<le> 2 * r
               | HALF_EVEN \<Rightarrow> d < 2 * r \<or> (d = 2 * r \<and> odd q))
         then q + 1 else q))"

lemma divideRounded_Inr [results]:
  "divideRounded n d mode = Inr q \<longleftrightarrow>
     isSafeInteger n \<and> isSafeInteger d \<and> 0 < d \<and> q = rounded_quotient n d mode"
proof (cases "isSafeInteger n \<and> isSafeInteger d \<and> 0 < d")
  case True
  have quotient: "(\<bar>n\<bar> - \<bar>n\<bar> mod d) div d = \<bar>n\<bar> div d"
    using True by (simp add: minus_mod_eq_mult_div)
  have sign: "n \<noteq> 0 \<Longrightarrow> (if n < 0 then - 1 else 1) = sgn n" by simp
  have round: "(if r = 0 then Inr (sgn n * q)
      else Inr (sgn n * (if (case mode of
                  DOWN \<Rightarrow> False | UP \<Rightarrow> True
                | HALF_UP \<Rightarrow> r * 2 \<ge> d
                | HALF_EVEN \<Rightarrow> r * 2 > d \<or> (r * 2 = d \<and> q mod 2 = 1))
              then q + 1 else q))) = (Inr (rounded_quotient n d mode) :: number result)"
    if "q = \<bar>n\<bar> div d" "r = \<bar>n\<bar> mod d" for q r
    unfolding rounded_quotient_def Let_def that [symmetric]
    using True by (cases mode; cases "r = 0") (auto simp: odd_iff_mod_2_eq_one)
  have "divideRounded n d mode = Inr (rounded_quotient n d mode)"
  proof (cases "n = 0")
    case True
    with \<open>isSafeInteger n \<and> isSafeInteger d \<and> 0 < d\<close> show ?thesis
      by (simp add: divideRounded_def rounded_quotient_def)
  next
    case False
    with True show ?thesis
      unfolding divideRounded_def Let_def quotient sign [OF False] round [OF refl refl] by simp
  qed
  with True show ?thesis by auto
next
  case False
  then show ?thesis by (auto simp: divideRounded_def)
qed

lemma rounded_quotient_nonneg: "0 \<le> n \<Longrightarrow> 0 < d \<Longrightarrow> 0 \<le> rounded_quotient n d mode"
  by (cases "n = 0") (auto simp: rounded_quotient_def Let_def pos_imp_zdiv_nonneg_iff)

lemma rounded_quotient_0 [simp]: "rounded_quotient 0 d mode = 0"
  by (simp add: rounded_quotient_def)

lemma rounded_quotient_nat:
  assumes "0 \<le> n" "0 < d"
  shows "rounded_quotient n d mode =
    (if (case mode of
           DOWN \<Rightarrow> False
         | UP \<Rightarrow> n mod d \<noteq> 0
         | HALF_UP \<Rightarrow> d \<le> 2 * (n mod d)
         | HALF_EVEN \<Rightarrow> d < 2 * (n mod d) \<or> (d = 2 * (n mod d) \<and> odd (n div d)))
     then n div d + 1 else n div d)"
  using assms by (cases "n = 0"; cases mode) (auto simp: rounded_quotient_def Let_def)

lemma rounded_quotient_error_nat:
  assumes "0 \<le> n" "0 < d"
  shows "\<bar>rounded_quotient n d mode * d - n\<bar> < d"
    and "mode \<in> {HALF_UP, HALF_EVEN} \<Longrightarrow> 2 * \<bar>rounded_quotient n d mode * d - n\<bar> \<le> d"
    and "mode = DOWN \<Longrightarrow> rounded_quotient n d mode * d \<le> n"
    and "mode = UP \<Longrightarrow> n \<le> rounded_quotient n d mode * d"
proof -
  have split: "n div d * d = n - n mod d" by (simp add: minus_mod_eq_div_mult)
  have up: "(n div d + 1) * d = n - n mod d + d" by (simp add: distrib_right split)
  have r: "0 \<le> n mod d" "n mod d < d" using assms by simp_all
  show "\<bar>rounded_quotient n d mode * d - n\<bar> < d"
    using r by (auto simp: rounded_quotient_nat [OF assms] split up split: RoundingMode.splits)
  show "mode \<in> {HALF_UP, HALF_EVEN} \<Longrightarrow> 2 * \<bar>rounded_quotient n d mode * d - n\<bar> \<le> d"
    using r by (auto simp: rounded_quotient_nat [OF assms] split up)
  show "mode = DOWN \<Longrightarrow> rounded_quotient n d mode * d \<le> n"
    using r by (simp add: rounded_quotient_nat [OF assms] split)
  show "mode = UP \<Longrightarrow> n \<le> rounded_quotient n d mode * d"
    using r by (auto simp: rounded_quotient_nat [OF assms] split up)
qed

lemma rounded_quotient_uminus: "rounded_quotient (- n) d mode = - rounded_quotient n d mode"
  by (simp add: rounded_quotient_def Let_def)

lemma rounded_quotient_error:
  assumes "0 < d"
  shows "\<bar>rounded_quotient n d mode * d - n\<bar> < d"
    and "mode \<in> {HALF_UP, HALF_EVEN} \<Longrightarrow> 2 * \<bar>rounded_quotient n d mode * d - n\<bar> \<le> d"
proof -
  have "\<bar>rounded_quotient n d mode * d - n\<bar> = \<bar>rounded_quotient \<bar>n\<bar> d mode * d - \<bar>n\<bar>\<bar>"
    using rounded_quotient_uminus [of "\<bar>n\<bar>" d mode] by (cases "0 \<le> n") simp_all
  then show "\<bar>rounded_quotient n d mode * d - n\<bar> < d"
    and "mode \<in> {HALF_UP, HALF_EVEN} \<Longrightarrow> 2 * \<bar>rounded_quotient n d mode * d - n\<bar> \<le> d"
    using rounded_quotient_error_nat [of "\<bar>n\<bar>" d mode] assms by simp_all
qed

lemma rounded_quotient_exact: "0 < d \<Longrightarrow> rounded_quotient (k * d) d mode = k"
proof -
  assume d: "0 < d"
  have "\<bar>rounded_quotient (k * d) d mode - k\<bar> * d < 1 * d"
    using rounded_quotient_error(1) [OF d, of "k * d" mode] d
    by (simp add: abs_mult flip: left_diff_distrib)
  then have "\<bar>rounded_quotient (k * d) d mode - k\<bar> < 1"
    using d by (simp only: mult_less_cancel_right_pos)
  then show ?thesis by simp
qed

text \<open>Rounding is monotone, so a rate never turns a larger amount into a smaller one.\<close>

lemma rounded_quotient_mono:
  assumes "0 < d" "0 \<le> n" "n \<le> m"
  shows "rounded_quotient n d mode \<le> rounded_quotient m d mode"
proof (cases "n div d = m div d")
  case True
  have "n mod d = n - n div d * d" "m mod d = m - m div d * d"
    by (simp_all add: minus_div_mult_eq_mod)
  then have "n mod d \<le> m mod d" using True assms by simp
  moreover have "0 \<le> n mod d" using assms by simp
  ultimately have "(case mode of
           DOWN \<Rightarrow> False
         | UP \<Rightarrow> n mod d \<noteq> 0
         | HALF_UP \<Rightarrow> d \<le> 2 * (n mod d)
         | HALF_EVEN \<Rightarrow> d < 2 * (n mod d) \<or> (d = 2 * (n mod d) \<and> odd (n div d)))
      \<Longrightarrow> (case mode of
           DOWN \<Rightarrow> False
         | UP \<Rightarrow> m mod d \<noteq> 0
         | HALF_UP \<Rightarrow> d \<le> 2 * (m mod d)
         | HALF_EVEN \<Rightarrow> d < 2 * (m mod d) \<or> (d = 2 * (m mod d) \<and> odd (m div d)))"
    unfolding True by (cases mode) (linarith | simp only: RoundingMode.case)+
  then show ?thesis
    using assms True by (simp add: rounded_quotient_nat del: mod_eq_0_iff_dvd)
next
  case False
  then have "n div d + 1 \<le> m div d" using zdiv_mono1 [of n m d] assms by simp
  then show ?thesis using assms by (auto simp: rounded_quotient_nat)
qed

lemma rounded_quotient_le:
  assumes "0 < d" "0 \<le> n" "n \<le> k * d"
  shows "rounded_quotient n d mode \<le> k"
  using rounded_quotient_mono [OF assms] rounded_quotient_exact [OF assms(1)] by simp

end
