(* ===== verification/Rupee_Text.thy ===== *)
theory Rupee_Text
  imports Money
begin

text \<open>
  \<open>parseRupees\<close>, \<open>groupIndian\<close> and \<open>formatRupees\<close> of \<open>money.ts\<close>. A JavaScript string is a
  sequence of UTF-16 code units, here a list of natural numbers, since the rupee sign U+20B9 is
  not a byte. The round trip shows that parsing inverts formatting on every safe amount.
\<close>

type_synonym js_string = "nat list"

definition js :: "string \<Rightarrow> js_string" where
  "js s = map of_char s"

section \<open>Characters and digits\<close>

definition is_digit :: "nat \<Rightarrow> bool" where
  "is_digit c \<longleftrightarrow> 48 \<le> c \<and> c \<le> 57"

text \<open>What \<open>\s\<close> matches and \<open>trim\<close> removes.\<close>

definition is_space :: "nat \<Rightarrow> bool" where
  "is_space c \<longleftrightarrow> c \<in> {9, 10, 11, 12, 13, 32, 160, 5760, 8232, 8233, 8239, 8287, 12288, 65279}
     \<or> (8192 \<le> c \<and> c \<le> 8202)"

definition trim :: "js_string \<Rightarrow> js_string" where
  "trim s = rev (dropWhile is_space (rev (dropWhile is_space s)))"

text \<open>\<open>Number\<close> of a digit string (a double), and \<open>String\<close> of a non-negative whole number.\<close>

fun digits_value :: "int \<Rightarrow> js_string \<Rightarrow> int" where
  "digits_value v [] = v"
| "digits_value v (c # cs) = digits_value (10 * v + (int c - 48)) cs"

definition number_of_digits :: "js_string \<Rightarrow> number" where
  "number_of_digits s = to_double (digits_value 0 s)"

function string_of_nonneg :: "int \<Rightarrow> js_string" where
  "string_of_nonneg n =
     (if n < 10 then [48 + nat n] else string_of_nonneg (n div 10) @ [48 + nat (n mod 10)])"
  by pat_completeness auto
termination
  by (relation "measure nat") auto

declare string_of_nonneg.simps [simp del]

definition padStart :: "nat \<Rightarrow> nat \<Rightarrow> js_string \<Rightarrow> js_string" where
  "padStart width c s = replicate (width - length s) c @ s"

definition padEnd :: "nat \<Rightarrow> nat \<Rightarrow> js_string \<Rightarrow> js_string" where
  "padEnd width c s = s @ replicate (width - length s) c"

section \<open>Parsing\<close>

text \<open>The matches of \<open>/^(-)?(\d+)(?:\.(\d{1,2}))?$/\<close>: the sign, the whole part, the fraction.\<close>

definition RUPEE_PATTERN :: "js_string \<Rightarrow> (bool \<times> js_string \<times> js_string) option" where
  "RUPEE_PATTERN s =
     (let neg = (s \<noteq> [] \<and> hd s = 45);
          body = (if neg then tl s else s);
          whole = takeWhile is_digit body;
          rest = dropWhile is_digit body
      in if whole = [] then None
         else case rest of
           [] \<Rightarrow> Some (neg, whole, [])
         | c # fraction \<Rightarrow>
             if c = 46 \<and> list_all is_digit fraction \<and> length fraction \<in> {1, 2}
             then Some (neg, whole, fraction) else None)"

text \<open>What the \<open>replace\<close> with an empty string removes: the rupee sign, commas and white space.\<close>

definition is_noise :: "nat \<Rightarrow> bool" where
  "is_noise c \<longleftrightarrow> c = 8377 \<or> c = 44 \<or> is_space c"

definition parseRupees :: "js_string \<Rightarrow> bool \<Rightarrow> Paise result" where
  "parseRupees input allowNegative =
     (let cleaned = filter (\<lambda>c. \<not> is_noise c) (trim input)
      in case RUPEE_PATTERN cleaned of
           None \<Rightarrow> Inl INVALID_AMOUNT
         | Some (neg, whole, fraction) \<Rightarrow>
             let paise = js_add (js_mul (number_of_digits whole) PAISE_PER_RUPEE)
                           (number_of_digits (padEnd 2 48 fraction))
             in if \<not> isSafeInteger paise then Inl INVALID_AMOUNT
                else if neg \<and> \<not> allowNegative then Inl INVALID_AMOUNT
                else Inr (if neg then - paise else paise))"

section \<open>Formatting\<close>

text \<open>
  \<open>rest.replace(/\B(?=(\d{2})+(?!\d))/g, ',')\<close>: a comma before every digit that is not the first
  and has an even number of digits from it to the end.
\<close>

fun group_pairs :: "js_string \<Rightarrow> js_string" where
  "group_pairs [] = []"
| "group_pairs (d # ds) =
     d # (if ds \<noteq> [] \<and> even (length ds) then 44 # group_pairs ds else group_pairs ds)"

definition groupIndian :: "js_string \<Rightarrow> js_string" where
  "groupIndian digits =
     (if length digits \<le> 3 then digits
      else group_pairs (take (length digits - 3) digits) @ [44] @ drop (length digits - 3) digits)"

text \<open>
  \<open>Math.trunc(absolute / PAISE_PER_RUPEE)\<close> is the integer quotient on safe integers: the spacing
  of doubles below $2^{53} / 100$ is at most $1/64$, so the quotient never rounds up to a whole
  number it had not reached.
\<close>

definition formatRupees :: "Paise \<Rightarrow> bool \<Rightarrow> js_string result" where
  "formatRupees amount symbol =
     bindE (assertPaise amount True) (\<lambda>_.
     let negative = amount < 0;
         absolute = \<bar>amount\<bar>;
         rupees = absolute div PAISE_PER_RUPEE;
         paise = absolute mod PAISE_PER_RUPEE;
         shown = groupIndian (string_of_nonneg rupees) @ [46] @ padStart 2 48 (string_of_nonneg paise)
     in Inr ((if negative then [45] else []) @ (if symbol then [8377] else []) @ shown))"

section \<open>Digit strings\<close>

lemma digits_value_append: "digits_value v (s @ t) = digits_value (digits_value v s) t"
  by (induction s arbitrary: v) auto

lemma is_digit_of: "0 \<le> d \<Longrightarrow> d < 10 \<Longrightarrow> is_digit (48 + nat d)"
  by (simp add: is_digit_def nat_le_iff)

lemma string_of_nonneg_digits: "0 \<le> n \<Longrightarrow> list_all is_digit (string_of_nonneg n)"
proof (induction n rule: string_of_nonneg.induct)
  case (1 n)
  then show ?case
    by (subst string_of_nonneg.simps) (auto simp: is_digit_of)
qed

lemma string_of_nonneg_nonempty [simp]: "string_of_nonneg n \<noteq> []"
  by (subst string_of_nonneg.simps) simp

lemma digits_value_string_of: "0 \<le> n \<Longrightarrow> digits_value 0 (string_of_nonneg n) = n"
proof (induction n rule: string_of_nonneg.induct)
  case (1 n)
  then show ?case
    by (subst string_of_nonneg.simps) (auto simp: digits_value_append)
qed

lemma pad2_string_of:
  assumes "0 \<le> p" "p < 100"
  shows "length (padStart 2 48 (string_of_nonneg p)) = 2"
    and "list_all is_digit (padStart 2 48 (string_of_nonneg p))"
    and "digits_value 0 (padStart 2 48 (string_of_nonneg p)) = p"
proof -
  have s: "string_of_nonneg p = (if p < 10 then [48 + nat p] else [48 + nat (p div 10), 48 + nat (p mod 10)])"
  proof -
    have "p div 10 < 10" using assms by presburger
    then show ?thesis
      using string_of_nonneg.simps [of "p div 10"] string_of_nonneg.simps [of p] by simp
  qed
  show "length (padStart 2 48 (string_of_nonneg p)) = 2" by (simp add: s padStart_def)
  show "list_all is_digit (padStart 2 48 (string_of_nonneg p))"
    using string_of_nonneg_digits [OF assms(1)] by (auto simp: padStart_def list_all_iff is_digit_def)
  show "digits_value 0 (padStart 2 48 (string_of_nonneg p)) = p"
    using assms by (simp add: s padStart_def pos_imp_zdiv_nonneg_iff)
qed

section \<open>Grouping and cleaning\<close>

lemma digit_not_noise: "is_digit c \<Longrightarrow> \<not> is_noise c"
  by (auto simp: is_digit_def is_space_def is_noise_def)

lemma comma_noise [simp]: "is_noise 44"
  by (simp add: is_noise_def)

lemma group_pairs_clean: "list_all is_digit ds \<Longrightarrow> filter (\<lambda>c. \<not> is_noise c) (group_pairs ds) = ds"
  by (induction ds) (auto simp: digit_not_noise)

lemma digits_clean: "list_all is_digit ds \<Longrightarrow> filter (\<lambda>c. \<not> is_noise c) ds = ds"
  by (induction ds) (auto simp: digit_not_noise)

lemma groupIndian_clean:
  assumes "list_all is_digit ds"
  shows "filter (\<lambda>c. \<not> is_noise c) (groupIndian ds) = ds"
proof -
  have "list_all is_digit (take n ds)" "list_all is_digit (drop n ds)" for n
    using assms by (auto simp: list_all_iff dest: in_set_takeD in_set_dropD)
  then show ?thesis
    using assms by (simp add: groupIndian_def group_pairs_clean digits_clean)
qed

text \<open>Trimming removes nothing that the cleaning would keep.\<close>

lemma filter_dropWhile_space:
  "(\<And>c. is_space c \<Longrightarrow> \<not> P c) \<Longrightarrow> filter P (dropWhile is_space s) = filter P s"
  by (induction s) auto

lemma filter_trim: "(\<And>c. is_space c \<Longrightarrow> \<not> P c) \<Longrightarrow> filter P (trim s) = filter P s"
  by (simp add: trim_def filter_dropWhile_space flip: rev_filter)

lemma RUPEE_PATTERN_formatted:
  assumes "list_all is_digit whole" "whole \<noteq> []" "list_all is_digit fraction" "length fraction = 2"
  shows "RUPEE_PATTERN ((if neg then [45] else []) @ whole @ 46 # fraction) = Some (neg, whole, fraction)"
proof -
  have "takeWhile is_digit (whole @ 46 # fraction) = whole"
    and "dropWhile is_digit (whole @ 46 # fraction) = 46 # fraction"
    using assms(1) by (auto simp: takeWhile_append dropWhile_append list_all_iff is_digit_def)
  moreover have "hd (whole @ 46 # fraction) \<noteq> 45"
    using assms(1,2) by (cases whole) (auto simp: is_digit_def)
  ultimately show ?thesis
    using assms by (cases neg) (auto simp: RUPEE_PATTERN_def Let_def)
qed

text \<open>
  C29: formatting an amount and parsing the text gives the amount back, with the symbol or without,
  for every safe amount (a negative one where negatives are allowed), and the text is refused
  where a negative amount is not.
\<close>

theorem parseRupees_formatRupees:
  assumes "isSafeInteger a"
  shows "\<exists>t. formatRupees a symbol = Inr t \<and>
    parseRupees t neg = (if a < 0 \<and> \<not> neg then Inl INVALID_AMOUNT else Inr a)"
proof -
  let ?r = "\<bar>a\<bar> div 100" and ?p = "\<bar>a\<bar> mod 100"
  let ?fraction = "padStart 2 48 (string_of_nonneg ?p)"
  let ?text = "(if a < 0 then [45] else []) @ (if symbol then [8377] else []) @
    groupIndian (string_of_nonneg ?r) @ [46] @ ?fraction"
  have format: "formatRupees a symbol = Inr ?text"
    using assms by (simp add: formatRupees_def Let_def PAISE_PER_RUPEE_def)
  have r: "0 \<le> ?r" and p: "0 \<le> ?p" "?p < 100" by simp_all
  have fraction: "filter (\<lambda>c. \<not> is_noise c) ?fraction = ?fraction"
    by (rule digits_clean [OF pad2_string_of(2) [OF p]])
  have "filter (\<lambda>c. \<not> is_noise c) (trim ?text) =
      (if a < 0 then [45] else []) @ string_of_nonneg ?r @ 46 # ?fraction"
    using groupIndian_clean [OF string_of_nonneg_digits [OF r]] fraction
    by (subst filter_trim) (auto simp: is_noise_def is_space_def)
  then have match: "RUPEE_PATTERN (filter (\<lambda>c. \<not> is_noise c) (trim ?text)) =
      Some (a < 0, string_of_nonneg ?r, ?fraction)"
    using RUPEE_PATTERN_formatted [OF string_of_nonneg_digits [OF r] string_of_nonneg_nonempty
        pad2_string_of(2) [OF p] pad2_string_of(1) [OF p]] by simp
  have abs_a: "isSafeInteger \<bar>a\<bar>" using assms by (simp add: isSafeInteger_def)
  have split: "?r * 100 + ?p = \<bar>a\<bar>" by simp
  have safe: "isSafeInteger ?r" "isSafeInteger ?p" "isSafeInteger (?r * 100)" "isSafeInteger (?r * 100 + ?p)"
    by (rule isSafeInteger_between [OF _ _ abs_a]; use split r p in linarith)+
  have total_paise: "js_add (js_mul (number_of_digits (string_of_nonneg ?r)) PAISE_PER_RUPEE)
      (number_of_digits (padEnd 2 48 ?fraction)) = \<bar>a\<bar>"
    using safe pad2_string_of [OF p]
    by (simp add: number_of_digits_def digits_value_string_of [OF r] padEnd_def PAISE_PER_RUPEE_def exact)
  have "parseRupees ?text neg = (if a < 0 \<and> \<not> neg then Inl INVALID_AMOUNT else Inr a)"
    using assms unfolding parseRupees_def Let_def match option.case prod.case total_paise
    by (simp add: isSafeInteger_def)
  with format show ?thesis by blast
qed

theorem parseRupees_formatRupees_witness:
  "\<exists>t. formatRupees 12345678 True = Inr t \<and> parseRupees t False = Inr 12345678"
  using parseRupees_formatRupees [of 12345678 True False]
  by (simp add: isSafeInteger_def MAX_SAFE_INTEGER_def)

end
