(* ===== verification/Text.thy ===== *)
theory Text
  imports Prelude
begin

text \<open>
  What the components use of JavaScript strings, over \<^typ>\<open>string\<close> (each character one code
  unit below 256): decimal numbers, padding, trimming, and the order of \<open><\<close> on strings. Identifiers,
  dates, times, versions and codes are such strings; the rupee sign, which is not, has its own
  theory.
\<close>

section \<open>Characters\<close>

abbreviation code :: "char \<Rightarrow> nat" where
  "code c \<equiv> of_char c"

definition is_digit_char :: "char \<Rightarrow> bool" where
  "is_digit_char c \<longleftrightarrow> 48 \<le> code c \<and> code c \<le> 57"

definition is_upper_char :: "char \<Rightarrow> bool" where
  "is_upper_char c \<longleftrightarrow> 65 \<le> code c \<and> code c \<le> 90"

definition is_lower_char :: "char \<Rightarrow> bool" where
  "is_lower_char c \<longleftrightarrow> 97 \<le> code c \<and> code c \<le> 122"

definition is_ws_char :: "char \<Rightarrow> bool" where
  "is_ws_char c \<longleftrightarrow> (9 \<le> code c \<and> code c \<le> 13) \<or> code c = 32 \<or> code c = 160"

definition digit_char :: "int \<Rightarrow> char" where
  "digit_char d = char_of (48 + nat d)"

definition trim_ws :: "string \<Rightarrow> string" where
  "trim_ws s = rev (dropWhile is_ws_char (rev (dropWhile is_ws_char s)))"

lemma code_digit_char: "0 \<le> d \<Longrightarrow> d < 10 \<Longrightarrow> code (digit_char d) = 48 + nat d"
  by (simp add: digit_char_def)

lemma is_digit_digit_char [simp]: "0 \<le> d \<Longrightarrow> d < 10 \<Longrightarrow> is_digit_char (digit_char d)"
  by (simp add: is_digit_char_def code_digit_char nat_le_iff)

lemma code_eq_iff: "code c = code d \<longleftrightarrow> c = d"
  by simp

section \<open>Decimal numbers\<close>

text \<open>\<open>String(n)\<close> of a non-negative whole number, and \<open>Number(s)\<close> of a digit string.\<close>

function dec :: "int \<Rightarrow> string" where
  "dec n = (if n < 10 then [digit_char n] else dec (n div 10) @ [digit_char (n mod 10)])"
  by pat_completeness auto
termination
  by (relation "measure nat") auto

declare dec.simps [simp del]

text \<open>The equations a closed term is evaluated with.\<close>

definition dec_when :: "bool \<Rightarrow> int \<Rightarrow> string" where
  "dec_when small n = (if small then [digit_char n] else dec (n div 10) @ [digit_char (n mod 10)])"

lemma dec_code [code]:
  "dec n = dec_when (n < 10) n"
  "dec_when True n = [digit_char n]"
  "dec_when False n = dec (n div 10) @ [digit_char (n mod 10)]"
  by (simp_all add: dec_when_def dec.simps [of n])

definition dec_digit :: "char \<Rightarrow> int" where
  "dec_digit c = int (code c) - 48"

definition dec_value :: "string \<Rightarrow> int" where
  "dec_value s = foldl (\<lambda>v c. 10 * v + dec_digit c) 0 s"

definition pad_start :: "nat \<Rightarrow> 'a \<Rightarrow> 'a list \<Rightarrow> 'a list" where
  "pad_start width c s = replicate (width - length s) c @ s"

lemma dec_digit_digit_char [simp]: "0 \<le> d \<Longrightarrow> d < 10 \<Longrightarrow> dec_digit (digit_char d) = d"
  by (simp add: dec_digit_def code_digit_char)

lemma dec_digit_bounds: "is_digit_char c \<Longrightarrow> 0 \<le> dec_digit c \<and> dec_digit c < 10"
  by (simp add: dec_digit_def is_digit_char_def)

lemma dec_nonempty [simp]: "dec n \<noteq> []"
  by (subst dec.simps) simp

lemma dec_digits: "0 \<le> n \<Longrightarrow> list_all is_digit_char (dec n)"
proof (induction n rule: dec.induct)
  case (1 n)
  then show ?case by (subst dec.simps) auto
qed

lemma foldl_dec_value: "foldl (\<lambda>v c. 10 * v + dec_digit c) v s = v * 10 ^ length s + dec_value s"
proof (induction s arbitrary: v)
  case Nil
  then show ?case by (simp add: dec_value_def)
next
  case (Cons c s)
  have "dec_value (c # s) = dec_digit c * 10 ^ length s + dec_value s"
    using Cons [of "dec_digit c"] by (simp add: dec_value_def)
  then show ?case using Cons [of "10 * v + dec_digit c"] by (simp add: algebra_simps)
qed

lemma dec_value_Nil [simp]: "dec_value [] = 0"
  by (simp add: dec_value_def)

lemma dec_value_Cons: "dec_value (c # s) = dec_digit c * 10 ^ length s + dec_value s"
  using foldl_dec_value [of "dec_digit c" s] by (simp add: dec_value_def)

lemma dec_value_append: "dec_value (s @ t) = dec_value s * 10 ^ length t + dec_value t"
  by (induction s) (simp_all add: dec_value_Cons power_add algebra_simps)

lemma dec_value_dec [simp]: "0 \<le> n \<Longrightarrow> dec_value (dec n) = n"
proof (induction n rule: dec.induct)
  case (1 n)
  then show ?case by (subst dec.simps) (auto simp: dec_value_append dec_value_Cons)
qed

lemma dec_inj: "0 \<le> m \<Longrightarrow> 0 \<le> n \<Longrightarrow> dec m = dec n \<Longrightarrow> m = n"
  by (metis dec_value_dec)

lemma dec_value_bounds: "list_all is_digit_char s \<Longrightarrow> 0 \<le> dec_value s \<and> dec_value s < 10 ^ length s"
proof (induction s)
  case Nil
  then show ?case by simp
next
  case (Cons c s)
  then have d: "0 \<le> dec_digit c" "dec_digit c \<le> 9" using dec_digit_bounds [of c] by auto
  define k :: int where "k = 10 ^ length s"
  have k: "0 \<le> k" by (simp add: k_def)
  have "dec_digit c * k \<le> 9 * k" "0 \<le> dec_digit c * k" using d k by (auto intro: mult_right_mono)
  moreover have "0 \<le> dec_value s" "dec_value s < k" using Cons by (simp_all add: k_def)
  ultimately have "0 \<le> dec_digit c * k + dec_value s" "dec_digit c * k + dec_value s < 10 * k"
    by linarith+
  then show ?case by (simp add: dec_value_Cons flip: k_def)
qed

lemma div_ten_less: "(n :: int) < 10 * p \<Longrightarrow> n div 10 < p"
  by presburger

lemma length_dec_le: "0 \<le> n \<Longrightarrow> n < 10 ^ k \<Longrightarrow> 0 < k \<Longrightarrow> length (dec n) \<le> k"
proof (induction n arbitrary: k rule: dec.induct)
  case (1 n)
  show ?case
  proof (cases "n < 10")
    case True
    with "1.prems" show ?thesis by (simp add: dec.simps [of n])
  next
    case False
    then obtain j where k: "k = Suc j" "0 < j"
      using "1.prems" by (cases k; cases "k - 1") auto
    have "n div 10 < 10 ^ j" using "1.prems" k by (intro div_ten_less) simp
    then have "length (dec (n div 10)) \<le> j" using "1.IH" False "1.prems" k by simp
    then show ?thesis using False k by (simp add: dec.simps [of n])
  qed
qed

lemma length_dec_ge: "10 ^ k \<le> n \<Longrightarrow> k < length (dec n)"
proof -
  assume n: "10 ^ k \<le> n"
  then have pos: "0 \<le> n" by (rule order_trans [rotated]) simp
  have "n < 10 ^ length (dec n)" using dec_value_bounds [OF dec_digits [OF pos]] pos by simp
  with n have "(10::int) ^ k < 10 ^ length (dec n)" by linarith
  then show ?thesis by (simp add: power_less_imp_less_exp)
qed

lemma length_pad_start: "length (pad_start w c s) = max w (length s)"
  by (simp add: pad_start_def)

lemma pad_start_digits: "list_all is_digit_char s \<Longrightarrow> list_all is_digit_char (pad_start w CHR ''0'' s)"
  by (auto simp: pad_start_def list_all_iff is_digit_char_def)

lemma dec_value_pad_start [simp]: "dec_value (pad_start w CHR ''0'' s) = dec_value s"
proof -
  have "dec_value (replicate k CHR ''0'' @ s) = dec_value s" for k
    by (induction k) (auto simp: dec_value_Cons dec_digit_def)
  then show ?thesis by (simp add: pad_start_def)
qed

lemma length_pad_dec:
  assumes "0 \<le> n" "n < 10 ^ w" "0 < w"
  shows "length (pad_start w CHR ''0'' (dec n)) = w"
  using length_dec_le [OF assms] by (simp add: length_pad_start)

lemma digit_strings_eq:
  assumes "list_all is_digit_char s" "list_all is_digit_char t" "length s = length t"
    and "dec_value s = dec_value t"
  shows "s = t"
  using assms(3,1,2,4)
proof (induction s t rule: list_induct2)
  case Nil
  then show ?case by simp
next
  case (Cons c s d t)
  let ?k = "(10 :: int) ^ length t"
  have b: "0 \<le> dec_value s" "dec_value s < ?k" "0 \<le> dec_value t" "dec_value t < ?k"
    using dec_value_bounds [of s] dec_value_bounds [of t] Cons.prems Cons.hyps by auto
  have eq: "dec_digit c * ?k + dec_value s = dec_digit d * ?k + dec_value t"
    using Cons.prems(3) Cons.hyps by (simp add: dec_value_Cons)
  have "(dec_digit c * ?k + dec_value s) div ?k = dec_digit c"
    and "(dec_digit d * ?k + dec_value t) div ?k = dec_digit d"
    using b by simp_all
  then have "dec_digit c = dec_digit d" using eq by simp
  moreover from this have "dec_value s = dec_value t" using eq by simp
  ultimately show ?case using Cons by (simp add: dec_digit_def)
qed

text \<open>\<open>String(n)\<close> of a whole number.\<close>

definition num_text :: "int \<Rightarrow> string" where
  "num_text n = (if n < 0 then CHR ''-'' # dec (- n) else dec n)"

lemma num_text_nonneg [simp]: "0 \<le> n \<Longrightarrow> num_text n = dec n"
  by (simp add: num_text_def)

text \<open>\<open>toUpperCase()\<close>, the sharp s becoming two letters; the micro sign and the y with diaeresis,
  whose capitals lie outside Latin-1, stay.\<close>

definition upper_char :: "char \<Rightarrow> string" where
  "upper_char c =
     (if is_lower_char c then [char_of (code c - 32)]
      else if code c = 223 then ''SS''
      else if 224 \<le> code c \<and> code c \<le> 254 \<and> code c \<noteq> 247 then [char_of (code c - 32)]
      else [c])"

definition toUpperCase :: "string \<Rightarrow> string" where
  "toUpperCase s = concat (map upper_char s)"

text \<open>\<open>s.split(c)\<close> at a single character.\<close>

fun split_on :: "char \<Rightarrow> string \<Rightarrow> string list" where
  "split_on c [] = [[]]"
| "split_on c (d # s) =
     (if d = c then [] # split_on c s
      else (case split_on c s of [] \<Rightarrow> [[d]] | w # ws \<Rightarrow> (d # w) # ws))"

text \<open>\<open>0|[1-9]\d*\<close>: a number without leading zeros.\<close>

definition plain_number :: "string \<Rightarrow> bool" where
  "plain_number s \<longleftrightarrow> s \<noteq> [] \<and> list_all is_digit_char s \<and> (hd s = CHR ''0'' \<longrightarrow> s = ''0'')"

lemma split_on_append: "c \<notin> set a \<Longrightarrow> split_on c (a @ c # s) = a # split_on c s"
  by (induction a) auto

lemma split_on_none: "c \<notin> set s \<Longrightarrow> split_on c s = [s]"
  by (induction s) auto

lemma hd_dec: "0 < n \<Longrightarrow> hd (dec n) \<noteq> CHR ''0''"
proof (induction n rule: dec.induct)
  case (1 n)
  show ?case
  proof (cases "n < 10")
    case True
    then have "dec_digit (digit_char n) \<noteq> dec_digit CHR ''0''" using "1.prems" by (simp add: dec_digit_def [of "CHR ''0''"])
    then have "digit_char n \<noteq> CHR ''0''" by metis
    then show ?thesis using True "1.prems" by (subst dec.simps) simp
  next
    case False
    then have "hd (dec (n div 10)) \<noteq> CHR ''0''" using 1 by simp
    then show ?thesis using False by (subst dec.simps) simp
  qed
qed

lemma plain_number_dec: "0 \<le> n \<Longrightarrow> plain_number (dec n)"
  using hd_dec [of n] dec_digits [of n] by (cases "n = 0") (auto simp: plain_number_def dec.simps digit_char_def)

lemma digits_no_char: "list_all is_digit_char s \<Longrightarrow> \<not> is_digit_char c \<Longrightarrow> c \<notin> set s"
  by (auto simp: list_all_iff)

lemma not_digit_punctuation [simp]:
  "\<not> is_digit_char CHR ''.''" "\<not> is_digit_char CHR ''-''" "\<not> is_digit_char CHR ''/''" "\<not> is_digit_char CHR '' ''"
  "\<not> is_digit_char CHR '':''"
  by (simp_all add: is_digit_char_def)

section \<open>The order of strings\<close>

fun js_less :: "string \<Rightarrow> string \<Rightarrow> bool" where
  "js_less s [] = False"
| "js_less [] (d # t) = True"
| "js_less (c # s) (d # t) = (if c = d then js_less s t else code c < code d)"

abbreviation js_le :: "string \<Rightarrow> string \<Rightarrow> bool" where
  "js_le s t \<equiv> \<not> js_less t s"

lemma js_less_irrefl [simp]: "\<not> js_less s s"
  by (induction s) auto

lemma js_less_trans: "js_less s t \<Longrightarrow> js_less t u \<Longrightarrow> js_less s u"
proof (induction s t arbitrary: u rule: js_less.induct)
  case (3 c s d t)
  then show ?case by (cases u) (auto split: if_splits)
qed (auto elim: js_less.elims)

lemma js_less_total: "s \<noteq> t \<Longrightarrow> js_less s t \<or> js_less t s"
proof (induction s t rule: js_less.induct)
  case (3 c s d t)
  have "c \<noteq> d \<Longrightarrow> code c < code d \<or> code d < code c" by (metis code_eq_iff linorder_neqE_nat)
  with 3 show ?case by (cases "c = d") auto
qed (auto simp: neq_Nil_conv)

lemma js_less_asym: "js_less s t \<Longrightarrow> \<not> js_less t s"
  using js_less_trans js_less_irrefl by blast

text \<open>On digit strings of one length the order of strings is the order of their values.\<close>

lemma js_less_digits:
  assumes "length s = length t" "list_all is_digit_char s" "list_all is_digit_char t"
  shows "js_less s t \<longleftrightarrow> dec_value s < dec_value t"
  using assms
proof (induction s t rule: list_induct2)
  case Nil
  then show ?case by simp
next
  case (Cons c s d t)
  have b: "0 \<le> dec_value s" "dec_value s < 10 ^ length t" "0 \<le> dec_value t" "dec_value t < 10 ^ length t"
    using dec_value_bounds [of s] dec_value_bounds [of t] Cons.prems Cons.hyps by auto
  show ?case
  proof (cases "c = d")
    case True
    with Cons show ?thesis by (simp add: dec_value_Cons)
  next
    case False
    have less: "dec_digit x * 10 ^ length t + v < dec_digit y * 10 ^ length t + w"
      if "code x < code y" "v < 10 ^ length t" "0 \<le> w" for x y v w
    proof -
      have "dec_digit x + 1 \<le> dec_digit y" using that(1) by (simp add: dec_digit_def)
      then have "(dec_digit x + 1) * 10 ^ length t \<le> dec_digit y * 10 ^ length t" by simp
      with that show ?thesis by (simp add: distrib_right)
    qed
    have "code c < code d \<or> code d < code c" using False code_eq_iff [of c d] by linarith
    then show ?thesis
      using False b less [of c d "dec_value s" "dec_value t"] less [of d c "dec_value t" "dec_value s"]
        Cons.hyps
      by (auto simp: dec_value_Cons)
  qed
qed

lemma js_less_append_same: "js_less (p @ s) (p @ t) \<longleftrightarrow> js_less s t"
  by (induction p) auto

lemma num_text_chars: "c \<in> set (num_text n) \<Longrightarrow> is_digit_char c \<or> c = CHR ''-''"
  using dec_digits [of n] dec_digits [of "- n"] by (auto simp: num_text_def list_all_iff split: if_splits)

lemma num_text_inj:
  assumes "num_text n = num_text m"
  shows "n = m"
proof -
  have dec_inj: "a = b" if "dec a = dec b" "0 \<le> a" "0 \<le> b" for a b
    using arg_cong [OF that(1), of dec_value] that(2,3) by simp
  have no_minus: "dec a \<noteq> CHR ''-'' # s" if "0 \<le> a" for a s
    using dec_digits [OF that] by auto
  show ?thesis
  proof (cases "n < 0"; cases "m < 0")
    assume "n < 0" "m < 0"
    then show ?thesis using assms dec_inj [of "- n" "- m"] by (simp add: num_text_def)
  next
    assume "n < 0" "\<not> m < 0"
    then show ?thesis using assms no_minus [of m "dec (- n)"] by (simp add: num_text_def)
  next
    assume "\<not> n < 0" "m < 0"
    then show ?thesis using assms no_minus [of n "dec (- m)"] by (simp add: num_text_def)
  next
    assume "\<not> n < 0" "\<not> m < 0"
    then show ?thesis using assms dec_inj [of n m] by (simp add: num_text_def)
  qed
qed

end
