(* ===== verification/Permissions.thy ===== *)
theory Permissions
  imports Text
begin

text \<open>
  \<open>packages/domain/src/permissions.ts\<close>: the role matrix of BRD section 4.2, custom roles on top of
  a base role, and the decision for one action. The lemmas show that a stored custom role can
  never add more than its rules allow, and exactly when an action is allowed.
\<close>

datatype Role = OWNER | MANAGER | CASHIER | WAITER | KITCHEN

definition ROLES :: "Role list" where
  "ROLES = [OWNER, MANAGER, CASHIER, WAITER, KITCHEN]"

datatype Grant = ALLOW | OWN | OVERRIDE | DENY

datatype Capability =
    ORDER_CREATE
  | ORDER_APPROVE_CUSTOMER
  | ITEM_CANCEL_BEFORE_PREP
  | ITEM_VOID_AFTER_PREP
  | ITEM_MARK_PREPARING_READY
  | ITEM_MARK_PICKED_UP
  | ITEM_MARK_SERVED
  | STOCK_MANAGE
  | TABLE_MOVE_MERGE
  | CAP_BILL_REQUEST
  | BILL_PRINT_AND_PAYMENT
  | DISCOUNT_WITHIN_LIMIT
  | DISCOUNT_ABOVE_LIMIT
  | SERVICE_CHARGE_REMOVE
  | BILL_REPRINT
  | BILL_EDIT_AFTER_PRINT
  | INVOICE_VOID
  | CASH_MOVEMENT_AND_SHIFT_CLOSE
  | DAY_END_CLOSE
  | MENU_MANAGE
  | STAFF_MANAGE
  | DEVICE_PAIR
  | OPERATIONS_CONFIGURE
  | TAX_AND_INVOICE_SETTINGS
  | REPORTS_VIEW_EXPORT
  | AUDIT_VIEW
  | DATA_ADMIN
  | LICENSE_VIEW
  | LICENSE_MANAGE
  | UPDATE_INSTALL_NOW

definition CAPABILITIES :: "Capability list" where
  "CAPABILITIES =
     [ORDER_CREATE, ORDER_APPROVE_CUSTOMER, ITEM_CANCEL_BEFORE_PREP, ITEM_VOID_AFTER_PREP,
      ITEM_MARK_PREPARING_READY, ITEM_MARK_PICKED_UP, ITEM_MARK_SERVED, STOCK_MANAGE,
      TABLE_MOVE_MERGE, CAP_BILL_REQUEST, BILL_PRINT_AND_PAYMENT, DISCOUNT_WITHIN_LIMIT,
      DISCOUNT_ABOVE_LIMIT, SERVICE_CHARGE_REMOVE, BILL_REPRINT, BILL_EDIT_AFTER_PRINT,
      INVOICE_VOID, CASH_MOVEMENT_AND_SHIFT_CLOSE, DAY_END_CLOSE, MENU_MANAGE, STAFF_MANAGE,
      DEVICE_PAIR, OPERATIONS_CONFIGURE, TAX_AND_INVOICE_SETTINGS, REPORTS_VIEW_EXPORT, AUDIT_VIEW,
      DATA_ADMIN, LICENSE_VIEW, LICENSE_MANAGE, UPDATE_INSTALL_NOW]"

text \<open>The text a capability is stored as.\<close>

fun capability_text :: "Capability \<Rightarrow> string" where
  "capability_text ORDER_CREATE = ''ORDER_CREATE''"
| "capability_text ORDER_APPROVE_CUSTOMER = ''ORDER_APPROVE_CUSTOMER''"
| "capability_text ITEM_CANCEL_BEFORE_PREP = ''ITEM_CANCEL_BEFORE_PREP''"
| "capability_text ITEM_VOID_AFTER_PREP = ''ITEM_VOID_AFTER_PREP''"
| "capability_text ITEM_MARK_PREPARING_READY = ''ITEM_MARK_PREPARING_READY''"
| "capability_text ITEM_MARK_PICKED_UP = ''ITEM_MARK_PICKED_UP''"
| "capability_text ITEM_MARK_SERVED = ''ITEM_MARK_SERVED''"
| "capability_text STOCK_MANAGE = ''STOCK_MANAGE''"
| "capability_text TABLE_MOVE_MERGE = ''TABLE_MOVE_MERGE''"
| "capability_text CAP_BILL_REQUEST = ''BILL_REQUEST''"
| "capability_text BILL_PRINT_AND_PAYMENT = ''BILL_PRINT_AND_PAYMENT''"
| "capability_text DISCOUNT_WITHIN_LIMIT = ''DISCOUNT_WITHIN_LIMIT''"
| "capability_text DISCOUNT_ABOVE_LIMIT = ''DISCOUNT_ABOVE_LIMIT''"
| "capability_text SERVICE_CHARGE_REMOVE = ''SERVICE_CHARGE_REMOVE''"
| "capability_text BILL_REPRINT = ''BILL_REPRINT''"
| "capability_text BILL_EDIT_AFTER_PRINT = ''BILL_EDIT_AFTER_PRINT''"
| "capability_text INVOICE_VOID = ''INVOICE_VOID''"
| "capability_text CASH_MOVEMENT_AND_SHIFT_CLOSE = ''CASH_MOVEMENT_AND_SHIFT_CLOSE''"
| "capability_text DAY_END_CLOSE = ''DAY_END_CLOSE''"
| "capability_text MENU_MANAGE = ''MENU_MANAGE''"
| "capability_text STAFF_MANAGE = ''STAFF_MANAGE''"
| "capability_text DEVICE_PAIR = ''DEVICE_PAIR''"
| "capability_text OPERATIONS_CONFIGURE = ''OPERATIONS_CONFIGURE''"
| "capability_text TAX_AND_INVOICE_SETTINGS = ''TAX_AND_INVOICE_SETTINGS''"
| "capability_text REPORTS_VIEW_EXPORT = ''REPORTS_VIEW_EXPORT''"
| "capability_text AUDIT_VIEW = ''AUDIT_VIEW''"
| "capability_text DATA_ADMIN = ''DATA_ADMIN''"
| "capability_text LICENSE_VIEW = ''LICENSE_VIEW''"
| "capability_text LICENSE_MANAGE = ''LICENSE_MANAGE''"
| "capability_text UPDATE_INSTALL_NOW = ''UPDATE_INSTALL_NOW''"

section \<open>The matrix\<close>

fun row :: "Grant \<Rightarrow> Grant \<Rightarrow> Grant \<Rightarrow> Grant \<Rightarrow> Grant \<Rightarrow> Role \<Rightarrow> Grant" where
  "row ow ma ca wa ki OWNER = ow"
| "row ow ma ca wa ki MANAGER = ma"
| "row ow ma ca wa ki CASHIER = ca"
| "row ow ma ca wa ki WAITER = wa"
| "row ow ma ca wa ki KITCHEN = ki"

type_synonym PermissionMatrix = "Capability \<Rightarrow> Role \<Rightarrow> Grant"

fun DEFAULT_PERMISSION_MATRIX :: PermissionMatrix where
  "DEFAULT_PERMISSION_MATRIX ORDER_CREATE = row ALLOW ALLOW ALLOW ALLOW DENY"
| "DEFAULT_PERMISSION_MATRIX ORDER_APPROVE_CUSTOMER = row ALLOW ALLOW ALLOW OWN DENY"
| "DEFAULT_PERMISSION_MATRIX ITEM_CANCEL_BEFORE_PREP = row ALLOW ALLOW ALLOW OWN DENY"
| "DEFAULT_PERMISSION_MATRIX ITEM_VOID_AFTER_PREP = row ALLOW ALLOW OVERRIDE OVERRIDE DENY"
| "DEFAULT_PERMISSION_MATRIX ITEM_MARK_PREPARING_READY = row ALLOW ALLOW DENY DENY ALLOW"
| "DEFAULT_PERMISSION_MATRIX ITEM_MARK_PICKED_UP = row ALLOW ALLOW ALLOW ALLOW ALLOW"
| "DEFAULT_PERMISSION_MATRIX ITEM_MARK_SERVED = row ALLOW ALLOW ALLOW ALLOW DENY"
| "DEFAULT_PERMISSION_MATRIX STOCK_MANAGE = row ALLOW ALLOW ALLOW DENY ALLOW"
| "DEFAULT_PERMISSION_MATRIX TABLE_MOVE_MERGE = row ALLOW ALLOW ALLOW OWN DENY"
| "DEFAULT_PERMISSION_MATRIX CAP_BILL_REQUEST = row ALLOW ALLOW ALLOW ALLOW DENY"
| "DEFAULT_PERMISSION_MATRIX BILL_PRINT_AND_PAYMENT = row ALLOW ALLOW ALLOW DENY DENY"
| "DEFAULT_PERMISSION_MATRIX DISCOUNT_WITHIN_LIMIT = row ALLOW ALLOW ALLOW DENY DENY"
| "DEFAULT_PERMISSION_MATRIX DISCOUNT_ABOVE_LIMIT = row ALLOW ALLOW OVERRIDE DENY DENY"
| "DEFAULT_PERMISSION_MATRIX SERVICE_CHARGE_REMOVE = row ALLOW ALLOW ALLOW DENY DENY"
| "DEFAULT_PERMISSION_MATRIX BILL_REPRINT = row ALLOW ALLOW ALLOW DENY DENY"
| "DEFAULT_PERMISSION_MATRIX BILL_EDIT_AFTER_PRINT = row ALLOW ALLOW OVERRIDE DENY DENY"
| "DEFAULT_PERMISSION_MATRIX INVOICE_VOID = row ALLOW ALLOW OVERRIDE DENY DENY"
| "DEFAULT_PERMISSION_MATRIX CASH_MOVEMENT_AND_SHIFT_CLOSE = row ALLOW ALLOW OWN DENY DENY"
| "DEFAULT_PERMISSION_MATRIX DAY_END_CLOSE = row ALLOW ALLOW DENY DENY DENY"
| "DEFAULT_PERMISSION_MATRIX MENU_MANAGE = row ALLOW ALLOW DENY DENY DENY"
| "DEFAULT_PERMISSION_MATRIX STAFF_MANAGE = row ALLOW ALLOW DENY DENY DENY"
| "DEFAULT_PERMISSION_MATRIX DEVICE_PAIR = row ALLOW ALLOW DENY DENY DENY"
| "DEFAULT_PERMISSION_MATRIX OPERATIONS_CONFIGURE = row ALLOW ALLOW DENY DENY DENY"
| "DEFAULT_PERMISSION_MATRIX TAX_AND_INVOICE_SETTINGS = row ALLOW DENY DENY DENY DENY"
| "DEFAULT_PERMISSION_MATRIX REPORTS_VIEW_EXPORT = row ALLOW ALLOW OWN DENY DENY"
| "DEFAULT_PERMISSION_MATRIX AUDIT_VIEW = row ALLOW ALLOW DENY DENY DENY"
| "DEFAULT_PERMISSION_MATRIX DATA_ADMIN = row ALLOW DENY DENY DENY DENY"
| "DEFAULT_PERMISSION_MATRIX LICENSE_VIEW = row ALLOW ALLOW DENY DENY DENY"
| "DEFAULT_PERMISSION_MATRIX LICENSE_MANAGE = row ALLOW DENY DENY DENY DENY"
| "DEFAULT_PERMISSION_MATRIX UPDATE_INSTALL_NOW = row ALLOW ALLOW DENY DENY DENY"

definition OWNER_SECOND_FACTOR_CAPABILITIES :: "Capability list" where
  "OWNER_SECOND_FACTOR_CAPABILITIES = [DATA_ADMIN, LICENSE_MANAGE, TAX_AND_INVOICE_SETTINGS]"

definition OVERRIDE_APPROVER_ROLES :: "Role list" where
  "OVERRIDE_APPROVER_ROLES = [OWNER, MANAGER]"

fun OVERRIDE_RECORD_TYPES :: "Capability \<Rightarrow> string option" where
  "OVERRIDE_RECORD_TYPES ITEM_VOID_AFTER_PREP = Some ''order_item''"
| "OVERRIDE_RECORD_TYPES DISCOUNT_ABOVE_LIMIT = Some ''bill''"
| "OVERRIDE_RECORD_TYPES BILL_EDIT_AFTER_PRINT = Some ''invoice''"
| "OVERRIDE_RECORD_TYPES INVOICE_VOID = Some ''invoice''"
| "OVERRIDE_RECORD_TYPES c = None"

definition CUSTOM_ROLE_BASES :: "Role list" where
  "CUSTOM_ROLE_BASES = [CASHIER, WAITER, KITCHEN]"

definition CUSTOM_ROLE_GRANTABLE :: "Capability list" where
  "CUSTOM_ROLE_GRANTABLE =
     filter (\<lambda>capability.
       DEFAULT_PERMISSION_MATRIX capability MANAGER = ALLOW \<and>
       capability \<noteq> STAFF_MANAGE \<and>
       capability \<notin> set OWNER_SECOND_FACTOR_CAPABILITIES) CAPABILITIES"

section \<open>Actors, custom roles and decisions\<close>

record Actor =
  actor_role :: Role
  actor_extraCapabilities :: "Capability list option"

definition grantFor :: "Role \<Rightarrow> Capability \<Rightarrow> PermissionMatrix \<Rightarrow> Grant" where
  "grantFor role capability matrix = matrix capability role"

definition extraCapabilitiesOf :: "Role \<Rightarrow> string list \<Rightarrow> Capability list" where
  "extraCapabilitiesOf baseRole stored =
     filter (\<lambda>capability.
       capability_text capability \<in> set stored \<and>
       grantFor baseRole capability DEFAULT_PERMISSION_MATRIX \<noteq> ALLOW) CUSTOM_ROLE_GRANTABLE"

definition actorGrant :: "Actor \<Rightarrow> Capability \<Rightarrow> PermissionMatrix \<Rightarrow> Grant" where
  "actorGrant actor capability matrix =
     (if capability \<in> set CUSTOM_ROLE_GRANTABLE \<and>
         (case actor_extraCapabilities actor of None \<Rightarrow> False | Some extra \<Rightarrow> capability \<in> set extra)
      then ALLOW
      else grantFor (actor_role actor) capability matrix)"

record CustomRoleDraft =
  draft_name :: string
  draft_baseRole :: Role
  draft_capabilities :: "string list"

datatype CustomRoleProblem =
  NAME_REQUIRED | NAME_TAKEN | BASE_ROLE_INVALID | CAPABILITY_NOT_GRANTABLE | NOTHING_ADDED

text \<open>\<open>toLowerCase\<close> on the letters A to Z; other letters are kept.\<close>

definition lower_char :: "char \<Rightarrow> char" where
  "lower_char c = (if is_upper_char c then char_of (code c + 32) else c)"

definition normal_name :: "string \<Rightarrow> string" where
  "normal_name s = map lower_char (trim_ws s)"

definition checkCustomRole :: "CustomRoleDraft \<Rightarrow> string list \<Rightarrow> CustomRoleProblem list" where
  "checkCustomRole draft otherNames =
     (let name = normal_name (draft_name draft);
          name_problems =
            (if name = [] then [NAME_REQUIRED]
             else if \<exists>other \<in> set otherNames. normal_name other = name then [NAME_TAKEN]
             else [])
      in if draft_baseRole draft \<notin> set CUSTOM_ROLE_BASES then name_problems @ [BASE_ROLE_INVALID]
         else if \<exists>capability \<in> set (draft_capabilities draft).
                   capability \<notin> capability_text ` set CUSTOM_ROLE_GRANTABLE
              then name_problems @ [CAPABILITY_NOT_GRANTABLE]
         else if length (extraCapabilitiesOf (draft_baseRole draft) (draft_capabilities draft)) = 0
              then name_problems @ [NOTHING_ADDED]
         else name_problems)"

record PermissionContext =
  ctx_extraCapabilities :: "Capability list option"
  ctx_isOwn :: "bool option"
  ctx_overrideApproverRole :: "Role option"

datatype DenyReason = DENIED | NOT_OWN | NEEDS_OVERRIDE

datatype PermissionDecision = Allowed bool | Denied DenyReason

definition canApproveOverride :: "Role \<Rightarrow> bool" where
  "canApproveOverride role \<longleftrightarrow> role \<in> set OVERRIDE_APPROVER_ROLES"

definition evaluatePermission ::
  "Role \<Rightarrow> Capability \<Rightarrow> PermissionContext \<Rightarrow> PermissionMatrix \<Rightarrow> PermissionDecision" where
  "evaluatePermission role capability ctx matrix =
     (case actorGrant \<lparr>actor_role = role, actor_extraCapabilities = ctx_extraCapabilities ctx\<rparr>
             capability matrix of
        ALLOW \<Rightarrow> Allowed False
      | OWN \<Rightarrow> if ctx_isOwn ctx = Some True then Allowed False else Denied NOT_OWN
      | OVERRIDE \<Rightarrow>
          (case ctx_overrideApproverRole ctx of
             Some approver \<Rightarrow>
               if canApproveOverride approver then Allowed True else Denied NEEDS_OVERRIDE
           | None \<Rightarrow> Denied NEEDS_OVERRIDE)
      | DENY \<Rightarrow> Denied DENIED)"

section \<open>What custom roles can add\<close>

lemma CAPABILITIES_all: "c \<in> set CAPABILITIES"
  by (cases c) (simp_all add: CAPABILITIES_def)

lemma grantable_iff:
  "c \<in> set CUSTOM_ROLE_GRANTABLE \<longleftrightarrow>
     DEFAULT_PERMISSION_MATRIX c MANAGER = ALLOW \<and> c \<noteq> STAFF_MANAGE \<and>
     c \<notin> set OWNER_SECOND_FACTOR_CAPABILITIES"
  by (simp add: CUSTOM_ROLE_GRANTABLE_def CAPABILITIES_all)

lemma distinct_CAPABILITIES: "distinct CAPABILITIES"
  by (simp add: CAPABILITIES_def)

lemma canApproveOverride_iff: "canApproveOverride r \<longleftrightarrow> r = OWNER \<or> r = MANAGER"
  by (auto simp: canApproveOverride_def OVERRIDE_APPROVER_ROLES_def)

text \<open>
  Whatever a custom role has stored, the capabilities it really adds are each listed once, were
  stored, are ones a manager has by default, are not staff management or an Owner-only action, and
  are not already allowed by the base role.
\<close>

lemma extraCapabilitiesOf_bounded:
  "distinct (extraCapabilitiesOf base stored) \<and>
   (\<forall>c \<in> set (extraCapabilitiesOf base stored).
      capability_text c \<in> set stored \<and>
      DEFAULT_PERMISSION_MATRIX c MANAGER = ALLOW \<and> c \<noteq> STAFF_MANAGE \<and>
      c \<notin> {DATA_ADMIN, LICENSE_MANAGE, TAX_AND_INVOICE_SETTINGS} \<and>
      DEFAULT_PERMISSION_MATRIX c base \<noteq> ALLOW)"
  by (auto simp: extraCapabilitiesOf_def grantable_iff grantFor_def CUSTOM_ROLE_GRANTABLE_def
      OWNER_SECOND_FACTOR_CAPABILITIES_def distinct_CAPABILITIES)

lemma extraCapabilitiesOf_bounded_witness:
  "MENU_MANAGE \<in> set (extraCapabilitiesOf WAITER [''MENU_MANAGE'', ''DATA_ADMIN'']) \<and>
   MENU_MANAGE \<noteq> STAFF_MANAGE"
proof -
  have mem: "MENU_MANAGE \<in> set (extraCapabilitiesOf WAITER [''MENU_MANAGE'', ''DATA_ADMIN''])"
    by (simp add: extraCapabilitiesOf_def grantable_iff grantFor_def OWNER_SECOND_FACTOR_CAPABILITIES_def)
  show ?thesis
    using mem extraCapabilitiesOf_bounded [of WAITER "[''MENU_MANAGE'', ''DATA_ADMIN'']"] by blast
qed

text \<open>
  C19: the decision is deny by default. An action is allowed without an override exactly when the
  role's grant is \<open>ALLOW\<close>, or \<open>OWN\<close> on the person's own record, or a grantable capability was added by
  the custom role; it is allowed through an override exactly when the grant is \<open>OVERRIDE\<close>, no custom
  role adds it, and an Owner or manager approved. The Owner-only capabilities are never allowed to
  anyone else, whatever the context.
\<close>

theorem evaluatePermission_iff:
  defines "m \<equiv> DEFAULT_PERMISSION_MATRIX"
  shows "(evaluatePermission r c x m = Allowed False \<longleftrightarrow>
      m c r = ALLOW \<or> (m c r = OWN \<and> ctx_isOwn x = Some True) \<or>
      (\<exists>extra. ctx_extraCapabilities x = Some extra \<and> c \<in> set extra \<and> c \<in> set CUSTOM_ROLE_GRANTABLE)) \<and>
    (evaluatePermission r c x m = Allowed True \<longleftrightarrow>
      m c r = OVERRIDE \<and> ctx_overrideApproverRole x \<in> {Some OWNER, Some MANAGER} \<and>
      \<not> (\<exists>extra. ctx_extraCapabilities x = Some extra \<and> c \<in> set extra \<and> c \<in> set CUSTOM_ROLE_GRANTABLE)) \<and>
    (if c \<in> {DATA_ADMIN, LICENSE_MANAGE, TAX_AND_INVOICE_SETTINGS} \<and> r \<noteq> OWNER
     then evaluatePermission r c x m = Denied DENIED else True)"
proof -
  have owner_only: "m c r = DENY" "c \<notin> set CUSTOM_ROLE_GRANTABLE"
    if "c \<in> {DATA_ADMIN, LICENSE_MANAGE, TAX_AND_INVOICE_SETTINGS}" "r \<noteq> OWNER"
    using that by (cases r; auto simp: m_def grantable_iff OWNER_SECOND_FACTOR_CAPABILITIES_def)+
  show ?thesis
    using owner_only
    by (auto simp: evaluatePermission_def actorGrant_def grantFor_def canApproveOverride_iff
        split: Grant.splits option.splits if_splits)
qed

end
