(* ===== verification/Staff.thy ===== *)
theory Staff
  imports Permissions
begin

text \<open>
  \<open>packages/domain/src/staff.ts\<close>: who may add, change, deactivate and reactivate whom, the roles
  a person is offered, and what a PIN must look like. The lemmas follow any sequence of allowed
  changes through a staff list: the Owner's record keeps its role and stays active, and nobody but
  the Owner with a fresh second factor makes or removes a manager.
\<close>

section \<open>Changes and decisions\<close>

definition ASSIGNABLE_ROLES :: "Role list" where
  "ASSIGNABLE_ROLES = [MANAGER, CASHIER, WAITER, KITCHEN]"

definition isAssignableRole :: "Role \<Rightarrow> bool" where
  "isAssignableRole role \<longleftrightarrow> role \<in> set ASSIGNABLE_ROLES"

datatype StaffChange =
    CREATE Role
  | EDIT
  | CHANGE_ROLE Role
  | SET_PIN
  | UNLOCK
  | DEACTIVATE
  | REACTIVATE

record StaffActor =
  sa_staffId :: string
  sa_role :: Role
  sa_secondFactorFresh :: bool

record StaffTarget =
  st_staffId :: string
  st_role :: Role
  st_active :: bool

datatype StaffRefusal =
    REFUSED_DENIED
  | OWNER_RECORD
  | OWN_RECORD
  | OWNER_ONLY
  | SECOND_FACTOR_REQUIRED
  | ALREADY_ACTIVE
  | ALREADY_INACTIVE

datatype StaffDecision = Staff_Allowed | Refuse StaffRefusal

fun changesManagers :: "StaffChange \<Rightarrow> StaffTarget option \<Rightarrow> bool" where
  "changesManagers (CREATE role) target \<longleftrightarrow> role = MANAGER"
| "changesManagers (CHANGE_ROLE role) target \<longleftrightarrow>
     (case target of
        None \<Rightarrow> False
      | Some t \<Rightarrow> st_role t \<noteq> role \<and> (st_role t = MANAGER \<or> role = MANAGER))"
| "changesManagers DEACTIVATE target \<longleftrightarrow>
     (case target of None \<Rightarrow> False | Some t \<Rightarrow> st_role t = MANAGER)"
| "changesManagers REACTIVATE target \<longleftrightarrow>
     (case target of None \<Rightarrow> False | Some t \<Rightarrow> st_role t = MANAGER)"
| "changesManagers EDIT target \<longleftrightarrow> False"
| "changesManagers SET_PIN target \<longleftrightarrow> False"
| "changesManagers UNLOCK target \<longleftrightarrow> False"

fun is_CHANGE_ROLE :: "StaffChange \<Rightarrow> bool" where
  "is_CHANGE_ROLE (CHANGE_ROLE r) = True"
| "is_CHANGE_ROLE c = False"

definition decideStaffChange ::
  "StaffActor \<Rightarrow> StaffTarget option \<Rightarrow> StaffChange \<Rightarrow> StaffDecision" where
  "decideStaffChange actor target change =
     (if grantFor (sa_role actor) STAFF_MANAGE DEFAULT_PERMISSION_MATRIX \<noteq> ALLOW
      then Refuse REFUSED_DENIED
      else
        let self = (case target of None \<Rightarrow> False | Some t \<Rightarrow> st_staffId t = sa_staffId actor);
            structural = (is_CHANGE_ROLE change \<or> change = DEACTIVATE);
            target_role = map_option st_role target;
            target_active = map_option st_active target
        in if target_role = Some OWNER then
             (if structural \<or> change = REACTIVATE then Refuse OWNER_RECORD
              else if sa_role actor \<noteq> OWNER then Refuse OWNER_ONLY
              else Staff_Allowed)
           else if self \<and> structural then Refuse OWN_RECORD
           else if changesManagers change target \<and> sa_role actor \<noteq> OWNER then Refuse OWNER_ONLY
           else if changesManagers change target \<and> \<not> sa_secondFactorFresh actor
             then Refuse SECOND_FACTOR_REQUIRED
           else if \<not> changesManagers change target \<and>
                   target_role = Some MANAGER \<and> sa_role actor \<noteq> OWNER \<and> \<not> self
             then Refuse OWNER_ONLY
           else if change = DEACTIVATE \<and> target_active = Some False then Refuse ALREADY_INACTIVE
           else if change = REACTIVATE \<and> target_active = Some True then Refuse ALREADY_ACTIVE
           else Staff_Allowed)"

definition rolesOffered :: "string \<Rightarrow> Role \<Rightarrow> StaffTarget option \<Rightarrow> Role list" where
  "rolesOffered staffId role target =
     (let confirmed = \<lparr>sa_staffId = staffId, sa_role = role, sa_secondFactorFresh = True\<rparr>
      in filter (\<lambda>r.
           case target of
             None \<Rightarrow> decideStaffChange confirmed None (CREATE r) = Staff_Allowed
           | Some t \<Rightarrow>
               if r = st_role t then True
               else decideStaffChange confirmed target (CHANGE_ROLE r) = Staff_Allowed)
           ASSIGNABLE_ROLES)"

section \<open>PINs\<close>

text \<open>\<open>/^\d+$/\<close>.\<close>

definition all_digits :: "string \<Rightarrow> bool" where
  "all_digits s \<longleftrightarrow> s \<noteq> [] \<and> list_all is_digit_char s"

definition isValidPin :: "string \<Rightarrow> int \<Rightarrow> bool" where
  "isValidPin pin len \<longleftrightarrow> int (length pin) = len \<and> all_digits pin"

definition COMMON_PINS :: "string list" where
  "COMMON_PINS =
     [''2580'', ''0852'', ''1004'', ''147258'', ''258369'', ''159753'', ''951753'', ''741852'', ''963852'']"

text \<open>The pin is its first \<open>block\<close> characters, repeated.\<close>

definition repeats :: "string \<Rightarrow> nat \<Rightarrow> bool" where
  "repeats pin block \<longleftrightarrow>
     length pin mod block = 0 \<and> concat (replicate (length pin div block) (take block pin)) = pin"

definition pin_steps :: "int list \<Rightarrow> int list" where
  "pin_steps digits = map2 (\<lambda>digit prev. (digit - prev + 10) mod 10) (tl digits) digits"

definition in_pairs :: "int list \<Rightarrow> bool" where
  "in_pairs digits \<longleftrightarrow> list_all (\<lambda>i. digits ! i = digits ! (i - i mod 2)) [0..<length digits]"

definition isEasilyGuessedPin :: "string \<Rightarrow> bool" where
  "isEasilyGuessedPin pin =
     (if \<not> all_digits pin then False
      else
        let digits = map dec_digit pin;
            steps = pin_steps digits
        in if list_ex (repeats pin) [1..<length pin] then True
           else if list_all (\<lambda>step. step = 1) steps \<or> list_all (\<lambda>step. step = 9) steps then True
           else if length pin mod 2 = 0 \<and> in_pairs digits then True
           else if length pin = 4 \<and> (take 2 pin = ''19'' \<or> take 2 pin = ''20'') then True
           else pin \<in> set COMMON_PINS)"

section \<open>Sequences of changes\<close>

text \<open>
  The staff list as the server keeps it: each person's base role and whether they are active. A
  step is one allowed change by some actor; names, PINs and locks are not part of the list.
\<close>

type_synonym directory = "string \<rightharpoonup> Role \<times> bool"

fun staff_effect :: "StaffChange \<Rightarrow> Role \<times> bool \<Rightarrow> Role \<times> bool" where
  "staff_effect (CHANGE_ROLE r) (role, active) = (r, active)"
| "staff_effect DEACTIVATE (role, active) = (role, False)"
| "staff_effect REACTIVATE (role, active) = (role, True)"
| "staff_effect c p = p"

inductive staff_step :: "StaffActor \<Rightarrow> directory \<Rightarrow> directory \<Rightarrow> bool" where
  create: "dir i = None \<Longrightarrow> isAssignableRole r \<Longrightarrow>
     decideStaffChange actor None (CREATE r) = Staff_Allowed \<Longrightarrow>
     staff_step actor dir (dir(i \<mapsto> (r, True)))"
| update: "dir i = Some (role, active) \<Longrightarrow> (\<And>r. c \<noteq> CREATE r) \<Longrightarrow>
     (\<And>r. c = CHANGE_ROLE r \<Longrightarrow> isAssignableRole r) \<Longrightarrow>
     decideStaffChange actor (Some \<lparr>st_staffId = i, st_role = role, st_active = active\<rparr>) c = Staff_Allowed \<Longrightarrow>
     staff_step actor dir (dir(i \<mapsto> staff_effect c (role, active)))"

inductive staff_run :: "StaffActor list \<Rightarrow> directory \<Rightarrow> directory \<Rightarrow> bool" where
  no_change: "staff_run [] dir dir"
| change: "staff_step actor dir dir' \<Longrightarrow> staff_run actors dir' dir'' \<Longrightarrow> staff_run (actor # actors) dir dir''"

inductive_cases staff_run_Cons: "staff_run (actor # actors) dir dir''"

definition holders :: "Role \<Rightarrow> directory \<Rightarrow> (string \<times> bool) set" where
  "holders role dir = {(i, active). dir i = Some (role, active)}"

definition confirmed_owner :: "StaffActor \<Rightarrow> bool" where
  "confirmed_owner actor \<longleftrightarrow> sa_role actor = OWNER \<and> sa_secondFactorFresh actor"

lemma isAssignableRole_iff: "isAssignableRole r \<longleftrightarrow> r \<noteq> OWNER"
  by (cases r) (simp_all add: isAssignableRole_def ASSIGNABLE_ROLES_def)

lemma holders_upd_same:
  "dir i = Some p \<Longrightarrow> (fst p = role \<longleftrightarrow> fst q = role) \<Longrightarrow> (fst p = role \<Longrightarrow> q = p) \<Longrightarrow>
     holders role (dir(i \<mapsto> q)) = holders role dir"
  by (cases p; cases q) (auto simp: holders_def split: if_splits)

lemma holders_new: "dir i = None \<Longrightarrow> r \<noteq> role \<Longrightarrow> holders role (dir(i \<mapsto> (r, b))) = holders role dir"
  by (auto simp: holders_def split: if_splits)

lemma staff_step_owners: "staff_step actor dir dir' \<Longrightarrow> holders OWNER dir' = holders OWNER dir"
proof (induction rule: staff_step.induct)
  case (create dir i r actor)
  then show ?case by (intro holders_new) (simp_all add: isAssignableRole_iff)
next
  case (update dir i role active c actor)
  then have "(role = OWNER \<longleftrightarrow> fst (staff_effect c (role, active)) = OWNER) \<and>
      (role = OWNER \<longrightarrow> staff_effect c (role, active) = (role, active))"
    by (cases c) (auto simp: isAssignableRole_iff decideStaffChange_def Let_def split: if_splits)
  then show ?case by (intro holders_upd_same [of dir i "(role, active)"] update(1)) auto
qed

lemma staff_step_managers:
  "staff_step actor dir dir' \<Longrightarrow> \<not> confirmed_owner actor \<Longrightarrow> holders MANAGER dir' = holders MANAGER dir"
proof (induction rule: staff_step.induct)
  case (create dir i r actor)
  then show ?case
    by (intro holders_new) (auto simp: confirmed_owner_def decideStaffChange_def Let_def split: if_splits)
next
  case (update dir i role active c actor)
  then have "(role = MANAGER \<longleftrightarrow> fst (staff_effect c (role, active)) = MANAGER) \<and>
      (role = MANAGER \<longrightarrow> staff_effect c (role, active) = (role, active))"
    by (cases c) (auto simp: confirmed_owner_def decideStaffChange_def Let_def split: if_splits)
  then show ?case by (intro holders_upd_same [of dir i "(role, active)"] update(1)) auto
qed

text \<open>
  C28: through any sequence of changes the rules allow, the Owners keep their role and stay as
  active as they were, whoever makes the changes; and unless one of the changes is made by the Owner
  with a fresh second factor, the managers and which of them are active stay the same too.
\<close>

theorem staff_run_keeps_owners_and_managers:
  assumes "staff_run actors dir dir'"
  shows "holders OWNER dir' = holders OWNER dir \<and>
    (holders MANAGER dir' = holders MANAGER dir \<or> (\<exists>actor \<in> set actors. confirmed_owner actor))"
  using assms
proof (induction rule: staff_run.induct)
  case (no_change dir)
  then show ?case by simp
next
  case (change actor dir dir' actors dir'')
  then show ?case using staff_step_owners staff_step_managers by fastforce
qed

text \<open>A manager adds a cashier, who is then made a waiter.\<close>

definition sample_manager :: StaffActor where
  "sample_manager = \<lparr>sa_staffId = ''m'', sa_role = MANAGER, sa_secondFactorFresh = False\<rparr>"

theorem staff_run_keeps_owners_and_managers_witness:
  "holders MANAGER [''m'' \<mapsto> (MANAGER, True), ''c'' \<mapsto> (WAITER, True)] = holders MANAGER [''m'' \<mapsto> (MANAGER, True)]"
proof -
  let ?d0 = "[''m'' \<mapsto> (MANAGER, True)]"
  have s1: "staff_step sample_manager ?d0 (?d0(''c'' \<mapsto> (CASHIER, True)))"
    by (rule staff_step.create)
      (simp_all add: sample_manager_def isAssignableRole_iff decideStaffChange_def grantFor_def)
  have s2: "staff_step sample_manager (?d0(''c'' \<mapsto> (CASHIER, True)))
      ((?d0(''c'' \<mapsto> (CASHIER, True)))(''c'' \<mapsto> staff_effect (CHANGE_ROLE WAITER) (CASHIER, True)))"
    by (rule staff_step.update)
      (auto simp: sample_manager_def isAssignableRole_iff decideStaffChange_def grantFor_def Let_def)
  have run: "staff_run [sample_manager, sample_manager] ?d0 (?d0(''c'' \<mapsto> (WAITER, True)))"
    using staff_run.change [OF s1 staff_run.change [OF s2 staff_run.no_change]] by simp
  show ?thesis
    using staff_run_keeps_owners_and_managers [OF run]
    by (simp add: confirmed_owner_def sample_manager_def)
qed

section \<open>What is offered is allowed\<close>

text \<open>A manager is never offered the manager role for somebody who is not one already.\<close>

lemma manager_not_offered:
  "map_option st_role target \<noteq> Some MANAGER \<Longrightarrow> MANAGER \<notin> set (rolesOffered i MANAGER target)"
  by (auto simp: rolesOffered_def decideStaffChange_def Let_def split: option.splits if_splits)

section \<open>Easily guessed PINs\<close>

text \<open>One digit repeated is refused, whatever the length.\<close>

lemma one_digit_refused:
  "is_digit_char c \<Longrightarrow> 0 < n \<Longrightarrow> isEasilyGuessedPin (replicate (Suc n) c)"
proof -
  assume c: "is_digit_char c" and n: "0 < n"
  have "concat (replicate k [c]) = replicate k c" for k by (induction k) auto
  then have "repeats (replicate (Suc n) c) 1" by (simp add: repeats_def)
  then have "list_ex (repeats (replicate (Suc n) c)) [1..<length (replicate (Suc n) c)]"
    using n unfolding list_ex_iff by (intro bexI [of _ 1]) auto
  moreover have "all_digits (replicate (Suc n) c)" using c by (simp add: all_digits_def list_all_iff)
  ultimately show ?thesis by (simp add: isEasilyGuessedPin_def Let_def del: replicate_Suc)
qed

end
