(* ===== verification/Allocation.thy ===== *)
theory Allocation
  imports Money
begin

text \<open>
  Sums and proportional allocation (\<open>sum\<close>, \<open>allocate\<close>, \<open>splitEvenly\<close>, \<open>roundToUnit\<close> of
  \<open>money.ts\<close>): the loops are opened up into closed forms, and \<open>allocate\<close> is shown to
  implement the \<open>allocator\<close> interface that bills, splits, taxes and reports rely on.
\<close>

section \<open>Sums\<close>

lemma sum_from_Inr:
  "sum_from t xs = Inr s \<Longrightarrow> s = js_total t xs \<and> (\<forall>x \<in> set xs. isSafeInteger x)"
  by (induction xs arbitrary: t) (auto simp: results)

lemma sum_from_ok: "\<forall>x \<in> set xs. isSafeInteger x \<Longrightarrow> sum_from t xs = Inr (js_total t xs)"
  by (induction xs arbitrary: t) auto

text \<open>Of non-negative amounts \<open>sum\<close> is the exact sum, and it returns exactly when that is safe.\<close>

lemma sum_paise_nonneg:
  assumes "\<And>x. x \<in> set xs \<Longrightarrow> 0 \<le> x"
  shows "sum_paise xs = Inr s \<longleftrightarrow> s = sum_list xs \<and> isSafeInteger s"
proof
  assume "sum_paise xs = Inr s"
  then have "s = js_total 0 xs" "isSafeInteger s"
    by (auto simp: sum_paise_def results dest: sum_from_Inr)
  then show "s = sum_list xs \<and> isSafeInteger s" using js_total_exact [of 0 xs] assms by simp
next
  assume s: "s = sum_list xs \<and> isSafeInteger s"
  have "\<forall>x \<in> set xs. isSafeInteger x"
    using s assms member_le_sum_list_int [OF assms] isSafeInteger_between by blast
  then show "sum_paise xs = Inr s"
    using s js_total_safe [of 0 xs, OF _ assms] by (auto simp: sum_paise_def sum_from_ok)
qed

lemma sum_paise_all:
  "\<forall>x \<in> set xs. 0 \<le> x \<Longrightarrow> sum_paise xs = Inr s \<longleftrightarrow> s = sum_list xs \<and> isSafeInteger s"
  by (rule sum_paise_nonneg) blast

lemma sum_paise_safe: "sum_paise xs = Inr s \<Longrightarrow> isSafeInteger s"
  by (auto simp: sum_paise_def results dest: sum_from_Inr)

section \<open>The allocation loops\<close>

lemma total_weight_Inr:
  "total_weight t ws = Inr s \<longleftrightarrow>
     s = js_total t ws \<and> (\<forall>w \<in> set ws. isSafeInteger w \<and> 0 \<le> w)"
  by (induction ws arbitrary: t) (auto simp: results)

lemma share_of_Inr:
  "share_of a W w = Inr p \<longleftrightarrow>
     isSafeInteger (a * w) \<and> p = ((a * w - a * w mod W) div W, a * w mod W)"
  by (auto simp: share_of_def Let_def results exact)

text \<open>
  \<open>hand_out\<close> adds one to each of the first \<open>leftover\<close> entries that have a remainder.
\<close>

abbreviation with_remainder :: "(nat \<times> number) list \<Rightarrow> (nat \<times> number) list" where
  "with_remainder es \<equiv> filter (\<lambda>e. snd e \<noteq> 0) es"

lemma hand_out_take:
  "0 \<le> L \<Longrightarrow> hand_out L es ps =
     foldl (\<lambda>ps e. ps[fst e := ps ! fst e + 1]) ps (take (nat L) (with_remainder es))"
proof (induction L es ps rule: hand_out.induct)
  case (1 L ps)
  then show ?case by simp
next
  case (2 L i r es ps)
  show ?case
  proof (cases "L = 0")
    case True
    then show ?thesis by simp
  next
    case False
    with "2.prems" have "nat L = Suc (nat (L - 1))" by linarith
    with False "2.IH" "2.prems" show ?thesis by (cases "r = 0") auto
  qed
qed

lemma foldl_bump_nth:
  assumes "distinct (map fst es)" "\<forall>e \<in> set es. fst e < length ps" "j < length ps"
  shows "foldl (\<lambda>ps e. ps[fst e := ps ! fst e + 1]) ps es ! j =
    ps ! j + (if j \<in> fst ` set es then 1 else (0 :: int))"
  using assms
proof (induction es arbitrary: ps)
  case Nil
  then show ?case by simp
next
  case (Cons e es)
  then show ?case by (auto simp: nth_list_update image_iff)
qed

lemma foldl_bump_length [simp]:
  "length (foldl (\<lambda>ps e. ps[f e := g ps e]) ps es) = length ps"
  by (induction es arbitrary: ps) auto

lemma foldl_bump_sum:
  assumes "\<forall>e \<in> set es. fst e < length ps"
  shows "sum_list (foldl (\<lambda>ps e. ps[fst e := ps ! fst e + 1]) ps es) =
    sum_list ps + int (length es)"
  using assms
proof (induction es arbitrary: ps)
  case Nil
  then show ?case by simp
next
  case (Cons e es)
  then show ?case by (simp add: sum_list_update_add)
qed

lemma sum_list_bounded_count:
  fixes W :: int
  shows "\<forall>r \<in> set rs. 0 \<le> r \<and> r < W \<Longrightarrow> sum_list rs \<le> W * int (length (filter (\<lambda>r. r \<noteq> 0) rs))"
  by (induction rs) (auto simp: distrib_left)

interpretation by_remainder: comparator_order by_remainder
  by unfold_locales (auto simp: by_remainder_def split: if_splits)

section \<open>What an allocation returns\<close>

text \<open>
  The closed form: whole shares, and one more paisa for the \<open>leftover\<close> entries first in
  \<open>by_remainder\<close> order.
\<close>

definition bonus_entries :: "Paise \<Rightarrow> number list \<Rightarrow> (nat \<times> number) list" where
  "bonus_entries a ws =
     (let W = sum_list ws;
          L = a - sum_list (map (\<lambda>w. a * w div W) ws);
          es = zip [0..<length ws] (map (\<lambda>w. a * w mod W) ws)
      in take (nat L) (with_remainder (js_sort by_remainder es)))"

text \<open>Weights that can be allocated over: none negative, and some positive.\<close>

definition weighable :: "number list \<Rightarrow> bool" where
  "weighable ws \<longleftrightarrow> (\<forall>w \<in> set ws. 0 \<le> w) \<and> 0 < sum_list ws"

lemma shares_total: "sum_list (map (\<lambda>w. a * w div W) us) * W =
    a * sum_list us - sum_list (map (\<lambda>w. a * w mod (W :: int)) us)"
proof (induction us)
  case Nil
  then show ?case by simp
next
  case (Cons u us)
  have "a * u div W * W = a * u - a * u mod W" by (simp add: minus_mod_eq_div_mult)
  with Cons show ?case by (simp add: distrib_left distrib_right)
qed

lemma leftover_bounds:
  assumes "0 \<le> a" "weighable ws"
  shows "0 \<le> a - sum_list (map (\<lambda>w. a * w div sum_list ws) ws)"
    and "a - sum_list (map (\<lambda>w. a * w div sum_list ws) ws)
     \<le> int (length (filter (\<lambda>r. r \<noteq> 0) (map (\<lambda>w. a * w mod sum_list ws) ws)))"
proof -
  let ?W = "sum_list ws" and ?rs = "map (\<lambda>w. a * w mod sum_list ws) ws"
  let ?L = "a - sum_list (map (\<lambda>w. a * w div sum_list ws) ws)"
  have W: "0 < ?W" using assms by (simp add: weighable_def)
  have L: "?L * ?W = sum_list ?rs"
    using shares_total [of a ?W ws] by (simp add: left_diff_distrib)
  have r: "\<forall>r \<in> set ?rs. 0 \<le> r \<and> r < ?W" using W by auto
  then have "0 \<le> sum_list ?rs" by (intro sum_list_nonneg_int) auto
  then have "0 \<le> ?L * ?W" using L by simp
  then show "0 \<le> ?L" using W by (simp add: zero_le_mult_iff)
  have "?L * ?W \<le> int (length (filter (\<lambda>r. r \<noteq> 0) ?rs)) * ?W"
    using L sum_list_bounded_count [OF r] by (simp add: mult.commute)
  then show "?L \<le> int (length (filter (\<lambda>r. r \<noteq> 0) ?rs))" using W by simp
qed

text \<open>The parts as a function of the amount and the weights.\<close>

definition allocation :: "Paise \<Rightarrow> number list \<Rightarrow> Paise list" where
  "allocation a ws =
     map (\<lambda>i. a * ws ! i div sum_list ws + (if i \<in> fst ` set (bonus_entries a ws) then 1 else 0))
       [0..<length ws]"

lemma length_allocation [simp]: "length (allocation a ws) = length ws"
  by (simp add: allocation_def)

lemma allocation_nth:
  "i < length ws \<Longrightarrow> allocation a ws ! i =
     a * ws ! i div sum_list ws + (if i \<in> fst ` set (bonus_entries a ws) then 1 else 0)"
  by (simp add: allocation_def)

lemma map_fst_entries: "map fst (zip [0..<length ws] (map f ws)) = [0..<length ws]"
  by (simp add: map_fst_zip)

lemma bonus_entries_props:
  shows "distinct (map fst (bonus_entries a ws))"
    and "e \<in> set (bonus_entries a ws) \<Longrightarrow>
      fst e < length ws \<and> snd e = a * ws ! fst e mod sum_list ws \<and> snd e \<noteq> 0"
proof -
  let ?es = "zip [0..<length ws] (map (\<lambda>w. a * w mod sum_list ws) ws)"
  have "distinct (map fst (js_sort by_remainder ?es))" by (simp add: map_fst_entries)
  then show "distinct (map fst (bonus_entries a ws))"
    unfolding bonus_entries_def Let_def
    by (metis distinct_map_filter distinct_take take_map)
  assume "e \<in> set (bonus_entries a ws)"
  then have "e \<in> set ?es" "snd e \<noteq> 0"
    unfolding bonus_entries_def Let_def by (auto dest: in_set_takeD)
  then show "fst e < length ws \<and> snd e = a * ws ! fst e mod sum_list ws \<and> snd e \<noteq> 0"
    by (auto simp: in_set_zip)
qed

lemma length_bonus_entries:
  assumes "0 \<le> a" "weighable ws"
  shows "int (length (bonus_entries a ws)) = a - sum_list (map (\<lambda>w. a * w div sum_list ws) ws)"
proof -
  let ?rs = "map (\<lambda>w. a * w mod sum_list ws) ws"
  have "length (with_remainder (zip [0..<length ws] ?rs)) = length (filter (\<lambda>r. r \<noteq> 0) ?rs)"
    by (rule length_filter_zip_snd) simp
  then have "length (bonus_entries a ws) = min (length (filter (\<lambda>r. r \<noteq> 0) ?rs))
      (nat (a - sum_list (map (\<lambda>w. a * w div sum_list ws) ws)))"
    by (simp add: bonus_entries_def Let_def del: filter_map)
  then show ?thesis using leftover_bounds [OF assms] by linarith
qed

lemma sum_allocation:
  assumes "0 \<le> a" "weighable ws"
  shows "sum_list (allocation a ws) = a"
proof -
  let ?W = "sum_list ws" and ?B = "fst ` set (bonus_entries a ws)"
  have B: "?B \<subseteq> {..<length ws}" using bonus_entries_props(2) by auto
  have "card ?B = length (bonus_entries a ws)"
    by (metis bonus_entries_props(1) distinct_card length_map list.set_map)
  moreover have "(\<Sum>i<length ws. if i \<in> ?B then 1 else (0::int)) = int (card ?B)"
    using B by (simp add: sum.If_cases Int_absorb1)
  moreover have "sum_list (allocation a ws) =
      (\<Sum>i<length ws. a * ws ! i div ?W) + (\<Sum>i<length ws. if i \<in> ?B then 1 else (0::int))"
    unfolding allocation_def
    by (simp only: sum_list_nth_eq length_upt minus_nat.diff_0 sum.distrib [symmetric])
      (rule sum.cong, auto)
  ultimately show ?thesis
    using length_bonus_entries [OF assms] by (simp add: sum_list_nth_eq)
qed

section \<open>\<open>allocate\<close> computes it\<close>

lemma mapE_share_of_Inr:
  "mapE (share_of a W) ws = Inr shares \<longleftrightarrow>
     (\<forall>w \<in> set ws. isSafeInteger (a * w)) \<and> shares = map (\<lambda>w. (a * w div W, a * w mod W)) ws"
proof -
  have whole: "(x - x mod W) div W = x div W" for x :: int
    by (simp add: minus_mod_eq_mult_div)
  show ?thesis
    by (induction ws arbitrary: shares) (auto simp: results share_of_Inr whole)
qed

lemma shares_exact:
  assumes "0 \<le> a" "weighable ws" "isSafeInteger a"
  shows "js_total 0 (map (\<lambda>w. a * w div sum_list ws) ws) = sum_list (map (\<lambda>w. a * w div sum_list ws) ws)"
    and "js_sub a (sum_list (map (\<lambda>w. a * w div sum_list ws) ws)) =
      a - sum_list (map (\<lambda>w. a * w div sum_list ws) ws)"
proof -
  let ?qs = "map (\<lambda>w. a * w div sum_list ws) ws"
  have q: "0 \<le> q" if "q \<in> set ?qs" for q
  proof -
    from that obtain w where "w \<in> set ws" "q = a * w div sum_list ws" by auto
    with assms show ?thesis by (simp add: weighable_def pos_imp_zdiv_nonneg_iff)
  qed
  have "sum_list ?qs \<le> a" using leftover_bounds(1) [OF assms(1,2)] by simp
  moreover have "0 \<le> sum_list ?qs" using q by (rule sum_list_nonneg_int)
  ultimately have "isSafeInteger (sum_list ?qs)" "isSafeInteger (a - sum_list ?qs)"
    using isSafeInteger_between [OF _ _ assms(3)] by simp_all
  then show "js_total 0 ?qs = sum_list ?qs" "js_sub a (sum_list ?qs) = a - sum_list ?qs"
    using js_total_safe [of 0 ?qs, OF _ q] js_exact(2) by simp_all
qed

lemma hand_out_allocation:
  assumes "0 \<le> a" "weighable ws"
  shows "hand_out (a - sum_list (map (\<lambda>w. a * w div sum_list ws) ws))
      (js_sort by_remainder (zip [0..<length ws] (map (\<lambda>w. a * w mod sum_list ws) ws)))
      (map (\<lambda>w. a * w div sum_list ws) ws) = allocation a ws"
proof (rule nth_equalityI)
  let ?qs = "map (\<lambda>w. a * w div sum_list ws) ws"
  let ?bump = "\<lambda>ps e. ps[fst e := ps ! fst e + (1::int)]"
  have closed: "hand_out (a - sum_list ?qs)
      (js_sort by_remainder (zip [0..<length ws] (map (\<lambda>w. a * w mod sum_list ws) ws))) ?qs =
      foldl ?bump ?qs (bonus_entries a ws)"
    using hand_out_take leftover_bounds(1) [OF assms]
    by (simp add: bonus_entries_def Let_def)
  show "length (hand_out (a - sum_list ?qs)
      (js_sort by_remainder (zip [0..<length ws] (map (\<lambda>w. a * w mod sum_list ws) ws))) ?qs) =
      length (allocation a ws)"
    by (simp add: closed)
  fix i
  assume "i < length (hand_out (a - sum_list ?qs)
      (js_sort by_remainder (zip [0..<length ws] (map (\<lambda>w. a * w mod sum_list ws) ws))) ?qs)"
  then have i: "i < length ws" by (simp add: closed)
  have "\<forall>e \<in> set (bonus_entries a ws). fst e < length ?qs"
    using bonus_entries_props(2) by auto
  from foldl_bump_nth [OF bonus_entries_props(1) this] i
  show "hand_out (a - sum_list ?qs)
      (js_sort by_remainder (zip [0..<length ws] (map (\<lambda>w. a * w mod sum_list ws) ws))) ?qs ! i =
      allocation a ws ! i"
    by (simp add: closed allocation_nth)
qed

text \<open>
  \<open>allocate\<close> returns exactly for a safe non-negative amount, safe non-negative weights with a
  safe total, and safe products (or nothing to allocate), and then returns \<^term>\<open>allocation\<close>.
\<close>

lemma allocate_Inr:
  "allocate a ws = Inr ps \<longleftrightarrow>
     isSafeInteger a \<and> 0 \<le> a \<and> (\<forall>w \<in> set ws. isSafeInteger w \<and> 0 \<le> w) \<and>
     isSafeInteger (sum_list ws) \<and>
     (if sum_list ws = 0 then a = 0 \<and> ps = map (\<lambda>_. 0) ws
      else (\<forall>w \<in> set ws. isSafeInteger (a * w)) \<and> ps = allocation a ws)"
proof (cases "ws = []")
  case True
  then show ?thesis by (auto simp: allocate_def results)
next
  case False
  have total: "total_weight 0 ws = Inr W \<and> isSafeInteger W \<longleftrightarrow>
      W = sum_list ws \<and> isSafeInteger (sum_list ws) \<and> (\<forall>w \<in> set ws. isSafeInteger w \<and> 0 \<le> w)" for W
    using js_total_exact [of 0 ws] js_total_safe [of 0 ws] by (auto simp: total_weight_Inr)
  have body: "(let parts = map fst shares;
             remainders = zip [0..<length shares] (map snd shares);
             allocated = js_total 0 parts;
             leftover = js_sub a allocated
         in Inr (hand_out leftover (js_sort by_remainder remainders) parts)) = (Inr ps :: Paise list result)
      \<longleftrightarrow> ps = allocation a ws"
    if "shares = map (\<lambda>w. (a * w div sum_list ws, a * w mod sum_list ws)) ws"
      "0 \<le> a" "isSafeInteger a" "weighable ws" for shares
    using that shares_exact [OF that(2,4,3)] hand_out_allocation [OF that(2,4)]
    by (auto simp: o_def)
  have pos: "0 < sum_list ws" if "\<forall>w \<in> set ws. 0 \<le> w" "sum_list ws \<noteq> 0"
    using that sum_list_nonneg_int [of ws] by force
  have "allocate a ws = Inr ps \<longleftrightarrow>
    isSafeInteger a \<and> 0 \<le> a \<and>
    (\<exists>W. (total_weight 0 ws = Inr W \<and> isSafeInteger W) \<and>
      (if W = 0 then a = 0 \<and> ps = map (\<lambda>_. 0) ws
       else \<exists>shares. mapE (share_of a W) ws = Inr shares \<and>
        (let parts = map fst shares;
             remainders = zip [0..<length shares] (map snd shares);
             allocated = js_total 0 parts;
             leftover = js_sub a allocated
         in Inr (hand_out leftover (js_sort by_remainder remainders) parts)) = (Inr ps :: Paise list result)))"
    using False unfolding allocate_def by (auto simp: results)
  then show ?thesis
    using body pos unfolding total mapE_share_of_Inr by (auto simp: weighable_def)
qed

section \<open>The interface the billing components use\<close>

text \<open>
  What a client of an allocation relies on: the parts line up with the weights, add up to the
  amount, are never negative, give nothing for no weight, and stay within the weights when the
  amount does.
\<close>

locale allocator =
  fixes alloc :: "number \<Rightarrow> number list \<Rightarrow> number list result"
  assumes alloc_length: "alloc a ws = Inr ps \<Longrightarrow> length ps = length ws"
    and alloc_sum: "alloc a ws = Inr ps \<Longrightarrow> sum_list ps = a"
    and alloc_nonneg: "alloc a ws = Inr ps \<Longrightarrow> p \<in> set ps \<Longrightarrow> 0 \<le> p"
    and alloc_zero: "alloc a ws = Inr ps \<Longrightarrow> i < length ws \<Longrightarrow> ws ! i = 0 \<Longrightarrow> ps ! i = 0"
    and alloc_capped: "alloc a ws = Inr ps \<Longrightarrow> a \<le> sum_list ws \<Longrightarrow> i < length ws \<Longrightarrow> ps ! i \<le> ws ! i"
begin

lemma alloc_amount_nonneg: "alloc a ws = Inr ps \<Longrightarrow> 0 \<le> a"
  using alloc_sum alloc_nonneg sum_list_nonneg_int by metis

lemma alloc_part_le: "alloc a ws = Inr ps \<Longrightarrow> p \<in> set ps \<Longrightarrow> p \<le> a"
  using alloc_sum alloc_nonneg member_le_sum_list_int by metis

text \<open>What is left of each weight after an amount within their total is taken off them.\<close>

lemma alloc_rest:
  assumes "alloc a ws = Inr ps" "a \<le> sum_list ws"
  shows "sum_list (map2 (-) ws ps) = sum_list ws - a"
    and "\<And>x. x \<in> set (map2 (-) ws ps) \<Longrightarrow> 0 \<le> x"
proof -
  have len: "length ws = length ps" using alloc_length [OF assms(1)] by simp
  have "sum_list (map2 (-) ws ps) = sum_list ws - sum_list ps"
    using len by (induction ws ps rule: list_induct2) auto
  then show "sum_list (map2 (-) ws ps) = sum_list ws - a" using alloc_sum [OF assms(1)] by simp
  show "\<And>x. x \<in> set (map2 (-) ws ps) \<Longrightarrow> 0 \<le> x"
    using alloc_capped [OF assms] len by (auto simp: set_zip)
qed

text \<open>
  Amounts allocated row by row over the same parts: the columns add up to the amounts.
\<close>

lemma alloc_columns:
  assumes "\<And>r. r \<in> set rows \<Longrightarrow> alloc (f r) (weights r) = Inr (parts r) \<and> length (weights r) = n"
  shows "(\<Sum>p<n. sum_list (map (\<lambda>r. parts r ! p) rows)) = sum_list (map f rows)"
  using assms
proof (induction rows)
  case Nil
  then show ?case by simp
next
  case (Cons r rows)
  have "length (parts r) = n" "sum_list (parts r) = f r"
    using Cons.prems [of r] alloc_length alloc_sum by auto
  then have "(\<Sum>p<n. parts r ! p) = f r" using sum_list_nth_eq [of "\<lambda>x. x" "parts r"] by simp
  then show ?case using Cons by (simp add: sum.distrib)
qed

end

lemma allocate_nth_bounds:
  assumes "allocate a ws = Inr ps" "i < length ws" "0 < sum_list ws"
  shows "a * ws ! i div sum_list ws \<le> ps ! i" "ps ! i \<le> a * ws ! i div sum_list ws + 1"
    and "a * ws ! i mod sum_list ws = 0 \<Longrightarrow> ps ! i = a * ws ! i div sum_list ws"
proof -
  have p: "ps ! i = a * ws ! i div sum_list ws + (if i \<in> fst ` set (bonus_entries a ws) then 1 else 0)"
    using assms by (simp add: allocate_Inr allocation_nth)
  show "a * ws ! i div sum_list ws \<le> ps ! i" "ps ! i \<le> a * ws ! i div sum_list ws + 1"
    by (simp_all add: p)
  show "ps ! i = a * ws ! i div sum_list ws" if "a * ws ! i mod sum_list ws = 0"
    using that bonus_entries_props(2) [of _ a ws] by (fastforce simp: p)
qed

interpretation allocate: allocator allocate
proof
  fix a ws ps i p
  assume ps: "allocate a ws = Inr ps"
  then have a: "0 \<le> a" and w: "\<forall>w \<in> set ws. 0 \<le> w" by (auto simp: allocate_Inr)
  then have W: "0 \<le> sum_list ws" using sum_list_nonneg_int by blast
  show len: "length ps = length ws" using ps by (auto simp: allocate_Inr split: if_splits)
  show "sum_list ps = a"
    using ps a w W sum_allocation [of a ws]
    by (auto simp: allocate_Inr weighable_def sum_list_replicate map_replicate_const split: if_splits)
  have bounds: "(sum_list ws = 0 \<and> ps ! i = 0) \<or> (0 < sum_list ws \<and>
      0 \<le> a * ws ! i div sum_list ws \<and> a * ws ! i div sum_list ws \<le> ps ! i)" if "i < length ws" for i
    using ps that a w W allocate_nth_bounds [OF ps that]
    by (cases "sum_list ws = 0") (auto simp: allocate_Inr pos_imp_zdiv_nonneg_iff)
  then show "p \<in> set ps \<Longrightarrow> 0 \<le> p" by (fastforce simp: in_set_conv_nth len)
  show "i < length ws \<Longrightarrow> ws ! i = 0 \<Longrightarrow> ps ! i = 0"
    using bounds [of i] allocate_nth_bounds(3) [OF ps, of i] by auto
  show "ps ! i \<le> ws ! i" if "a \<le> sum_list ws" "i < length ws"
  proof (cases "sum_list ws = 0")
    case True
    then show ?thesis using bounds [OF that(2)] w that(2) by auto
  next
    case False
    with W have pos: "0 < sum_list ws" by simp
    have wi: "0 \<le> ws ! i" using w that(2) by simp
    have le: "a * ws ! i \<le> ws ! i * sum_list ws"
      using mult_left_mono [OF that(1) wi] by (simp add: mult.commute)
    then have q: "a * ws ! i div sum_list ws \<le> ws ! i"
      using zdiv_mono1 [OF le pos] pos by simp
    show ?thesis
    proof (cases "a * ws ! i mod sum_list ws = 0")
      case True
      then show ?thesis using allocate_nth_bounds(3) [OF ps that(2) pos] q by simp
    next
      case False
      have "a * ws ! i div sum_list ws \<noteq> ws ! i"
      proof
        assume "a * ws ! i div sum_list ws = ws ! i"
        then have "a * ws ! i mod sum_list ws = a * ws ! i - ws ! i * sum_list ws"
          by (simp add: minus_div_mult_eq_mod [symmetric])
        with le False pos_mod_sign [OF pos, of "a * ws ! i"] show False by simp
      qed
      then show ?thesis using allocate_nth_bounds(2) [OF ps that(2) pos] q by simp
    qed
  qed
qed

section \<open>Largest remainders first\<close>

lemma bonus_priority:
  assumes "i \<in> fst ` set (bonus_entries a ws)" "j < length ws" "j \<notin> fst ` set (bonus_entries a ws)"
    and "0 < sum_list ws"
  shows "a * ws ! j mod sum_list ws < a * ws ! i mod sum_list ws \<or>
    (a * ws ! j mod sum_list ws = a * ws ! i mod sum_list ws \<and> i < j)"
proof -
  let ?W = "sum_list ws"
  let ?es = "js_sort by_remainder (zip [0..<length ws] (map (\<lambda>w. a * w mod ?W) ws))"
  obtain n where n: "bonus_entries a ws = take n (with_remainder ?es)"
    by (auto simp: bonus_entries_def Let_def)
  obtain r where i: "(i, r) \<in> set (bonus_entries a ws)" "r = a * ws ! i mod ?W" "r \<noteq> 0"
    using assms(1) bonus_entries_props(2) [of _ a ws] by fastforce
  show ?thesis
  proof (cases "a * ws ! j mod ?W = 0")
    case True
    then show ?thesis using i pos_mod_sign [OF assms(4), of "a * ws ! i"] by simp
  next
    case False
    have "(j, a * ws ! j mod ?W) \<in> set ?es"
      using assms(2) by (auto simp: set_zip intro!: exI [of _ j])
    with False have "(j, a * ws ! j mod ?W) \<in> set (with_remainder ?es)" by simp
    moreover have "(j, a * ws ! j mod ?W) \<notin> set (take n (with_remainder ?es))"
      using assms(3) unfolding n [symmetric] by force
    ultimately have "(j, a * ws ! j mod ?W) \<in> set (drop n (with_remainder ?es))"
      by (metis Un_iff append_take_drop_id set_append)
    moreover have "sorted_wrt (\<lambda>x y. by_remainder x y \<le> 0) (with_remainder ?es)"
      by (intro sorted_wrt_filter by_remainder.js_sort_sorted)
    then have "sorted_wrt (\<lambda>x y. by_remainder x y \<le> 0)
        (take n (with_remainder ?es) @ drop n (with_remainder ?es))" by simp
    ultimately have "by_remainder (i, r) (j, a * ws ! j mod ?W) \<le> 0"
      using i(1) unfolding n sorted_wrt_append by blast
    moreover have "i \<noteq> j" using assms(1,3) by auto
    ultimately show ?thesis using i(2) by (auto simp: by_remainder_def split: if_splits)
  qed
qed

text \<open>
  C9: \<open>allocate\<close> splits an amount exactly. The parts line up with the weights, none is negative
  and they add up to the amount; each is within one paisa of its exact proportional share; and the
  paise left over go to the largest remainders, the earlier index first on a tie.
\<close>

theorem allocate_exact:
  assumes "allocate a ws = Inr ps"
  shows "length ps = length ws \<and> sum_list ps = a \<and> (\<forall>p \<in> set ps. 0 \<le> p) \<and>
    (\<forall>i < length ws. sum_list ws = 0 \<or> \<bar>ps ! i * sum_list ws - a * ws ! i\<bar> < sum_list ws) \<and>
    (\<forall>i < length ws. \<forall>j < length ws.
       ps ! i * sum_list ws > a * ws ! i \<and> ps ! j * sum_list ws < a * ws ! j \<longrightarrow>
       a * ws ! j mod sum_list ws < a * ws ! i mod sum_list ws \<or>
       (a * ws ! j mod sum_list ws = a * ws ! i mod sum_list ws \<and> i < j))"
proof -
  let ?W = "sum_list ws"
  have W: "?W = 0 \<or> (0 < ?W \<and> ps = allocation a ws)"
    using assms sum_list_nonneg_int [of ws] by (fastforce simp: allocate_Inr split: if_splits)
  have part: "ps ! i * ?W - a * ws ! i =
      (if i \<in> fst ` set (bonus_entries a ws) then ?W else 0) - a * ws ! i mod ?W"
    if "0 < ?W" "i < length ws" for i
    using that W by (auto simp: allocation_nth distrib_right minus_mod_eq_div_mult [symmetric])
  have within: "?W = 0 \<or> \<bar>ps ! i * ?W - a * ws ! i\<bar> < ?W" if "i < length ws" for i
  proof (cases "?W = 0")
    case False
    with W have pos: "0 < ?W" by simp
    have "a * ws ! i mod ?W \<noteq> 0" if "i \<in> fst ` set (bonus_entries a ws)"
      using that bonus_entries_props(2) [of _ a ws] by fastforce
    then have "\<bar>(if i \<in> fst ` set (bonus_entries a ws) then ?W else 0) - a * ws ! i mod ?W\<bar> < ?W"
      using pos_mod_bound [OF pos, of "a * ws ! i"] pos_mod_sign [OF pos, of "a * ws ! i"]
      by (cases "i \<in> fst ` set (bonus_entries a ws)") simp_all
    then show ?thesis using part [OF pos that] by simp
  qed simp
  have first: "a * ws ! j mod ?W < a * ws ! i mod ?W \<or> (a * ws ! j mod ?W = a * ws ! i mod ?W \<and> i < j)"
    if "i < length ws" "j < length ws" "ps ! i * ?W > a * ws ! i" "ps ! j * ?W < a * ws ! j" for i j
  proof -
    have pos: "0 < ?W"
      using W that(3,4) assms that(1,2) by (auto simp: allocate_Inr)
    have i: "i \<in> fst ` set (bonus_entries a ws)"
    proof (rule ccontr)
      assume "i \<notin> fst ` set (bonus_entries a ws)"
      then have "ps ! i * ?W - a * ws ! i = - (a * ws ! i mod ?W)" using part [OF pos that(1)] by simp
      with that(3) pos_mod_sign [OF pos, of "a * ws ! i"] show False by linarith
    qed
    have j: "j \<notin> fst ` set (bonus_entries a ws)"
    proof
      assume "j \<in> fst ` set (bonus_entries a ws)"
      then have "ps ! j * ?W - a * ws ! j = ?W - a * ws ! j mod ?W" using part [OF pos that(2)] by simp
      with that(4) pos_mod_bound [OF pos, of "a * ws ! j"] show False by linarith
    qed
    show ?thesis using bonus_priority [OF i that(2) j pos] .
  qed
  show ?thesis
    by (intro conjI ballI allI impI allocate.alloc_length [OF assms] allocate.alloc_sum [OF assms]
        allocate.alloc_nonneg [OF assms] within; assumption?; elim conjE; rule first)
qed

theorem allocate_exact_witness:
  "allocate 100 [1, 2, 3] = Inr [17, 33, 50] \<and> sum_list [17, 33, 50] = (100 :: Paise)"
proof -
  have run: "allocate 100 [1, 2, 3] = Inr [17, 33, 50]" by code_simp
  show ?thesis using run allocate_exact [OF run] by simp
qed

section \<open>Even splits and rounding to a unit\<close>

lemma sum_list_replicate_one [simp]: "sum_list (replicate n (1 :: int)) = int n"
  by (simp add: sum_list_replicate)

text \<open>
  \<open>splitEvenly\<close> gives every part the whole share and the first parts one more paisa each until
  the amount is used up; it returns exactly for a safe non-negative amount and at least one part.
\<close>

lemma splitEvenly_closed_form:
  "splitEvenly a n = Inr ps \<longleftrightarrow>
     isSafeInteger a \<and> 0 \<le> a \<and> isSafeInteger n \<and> 1 \<le> n \<and>
     ps = replicate (nat (a mod n)) (a div n + 1) @ replicate (nat (n - a mod n)) (a div n)"
proof (cases "isSafeInteger n \<and> 1 \<le> n")
  case False
  then show ?thesis by (auto simp: splitEvenly_def)
next
  case True
  let ?ws = "replicate (nat n) (1 :: int)"
  have W: "sum_list ?ws = n" using True by simp
  have "map (\<lambda>w. a * w mod n) ?ws = replicate (nat n) (a mod n)" by simp
  have rem: "0 \<le> a mod n" "a mod n < n" using True by simp_all
  have sorted: "js_sort by_remainder (zip [0..<nat n] (replicate (nat n) r)) =
      zip [0..<nat n] (replicate (nat n) r)" for r :: int
    by (rule js_sort_id) (auto simp: sorted_wrt_iff_nth_less by_remainder_def)
  have left: "a - sum_list (map (\<lambda>w. a * w div n) ?ws) = a mod n"
    using True by (simp add: sum_list_replicate minus_mult_div_eq_mod)
  have B: "fst ` set (bonus_entries a ?ws) = {..<nat (a mod n)}"
  proof (cases "a mod n = 0")
    case True
    then show ?thesis using left W by (auto simp: bonus_entries_def Let_def)
  next
    case False
    have "with_remainder (zip [0..<nat n] (replicate (nat n) (a mod n))) =
        zip [0..<nat n] (replicate (nat n) (a mod n))"
      using False by (auto simp: filter_id_conv dest: set_zip_rightD)
    then have "map fst (bonus_entries a ?ws) = take (nat (a mod n)) [0..<nat n]"
      using left W by (simp add: bonus_entries_def Let_def sorted take_map flip: take_zip)
        (metis length_replicate length_upt map_fst_zip minus_nat.diff_0 take_map)
    then have "set (map fst (bonus_entries a ?ws)) = set (take (nat (a mod n)) [0..<nat n])" by simp
    then show ?thesis using rem by (auto simp: take_upt)
  qed
  have closed: "allocation a ?ws =
      replicate (nat (a mod n)) (a div n + 1) @ replicate (nat (n - a mod n)) (a div n)"
    using rem B W by (intro nth_equalityI) (auto simp: allocation_nth nth_append nat_diff_distrib)
  show ?thesis
    using True W closed by (auto simp: splitEvenly_def allocate_Inr isSafeInteger_def MAX_SAFE_INTEGER_def)
qed

text \<open>
  \<open>divideRounded\<close> is exact division with the stated rounding: it returns for safe operands and
  a positive denominator, always within one of the exact quotient and within a half for the two
  half modes; \<open>DOWN\<close> never passes it and \<open>UP\<close> never falls short; a tie goes away from zero under
  \<open>HALF_UP\<close> and to the even quotient under \<open>HALF_EVEN\<close>.
\<close>

lemma divideRounded_spec:
  assumes "divideRounded n d mode = Inr q"
  shows "0 < d \<and> \<bar>q * d - n\<bar> < d \<and>
    (mode \<in> {HALF_UP, HALF_EVEN} \<longrightarrow> 2 * \<bar>q * d - n\<bar> \<le> d) \<and>
    (mode = DOWN \<longrightarrow> \<bar>q * d\<bar> \<le> \<bar>n\<bar>) \<and>
    (mode = UP \<longrightarrow> \<bar>n\<bar> \<le> \<bar>q * d\<bar>) \<and>
    (mode = HALF_UP \<and> 2 * \<bar>q * d - n\<bar> = d \<longrightarrow> \<bar>n\<bar> < \<bar>q * d\<bar>) \<and>
    (mode = HALF_EVEN \<and> 2 * \<bar>q * d - n\<bar> = d \<longrightarrow> even q)"
proof -
  have d: "0 < d" and q: "q = rounded_quotient n d mode" using assms by (simp_all add: results)
  let ?m = "\<bar>n\<bar>" and ?k = "rounded_quotient \<bar>n\<bar> d mode"
  have k: "0 \<le> ?k" using rounded_quotient_nonneg [of ?m d mode] d by simp
  have flip: "q = ?k \<or> q = - ?k" using rounded_quotient_uminus [of n d mode] q by (cases "0 \<le> n") auto
  have abs_q: "\<bar>q * d\<bar> = ?k * d" using flip k d by (auto simp: abs_mult)
  have dist: "\<bar>q * d - n\<bar> = \<bar>?k * d - ?m\<bar>"
    using rounded_quotient_uminus [of n d mode] q by (cases "0 \<le> n") auto
  have parity: "even q = even ?k" using flip by auto
  have eq: "?m = ?m div d * d + ?m mod d" by simp
  have tie_up: "?m < ?k * d" if "mode = HALF_UP" "2 * \<bar>?k * d - ?m\<bar> = d"
  proof (cases "d \<le> 2 * (?m mod d)")
    case True
    then have "?k * d = ?m - ?m mod d + d"
      using that(1) d by (simp add: rounded_quotient_nat distrib_right minus_mod_eq_div_mult)
    then show ?thesis using pos_mod_bound [OF d, of ?m] by linarith
  next
    case False
    then have "?k * d = ?m - ?m mod d"
      using that(1) d by (simp add: rounded_quotient_nat minus_mod_eq_div_mult)
    then show ?thesis using that(2) False pos_mod_sign [OF d, of ?m] by simp
  qed
  have tie_even: "even ?k" if "mode = HALF_EVEN" "2 * \<bar>?k * d - ?m\<bar> = d"
  proof (rule ccontr)
    assume odd: "odd ?k"
    have "?k = ?m div d \<or> ?k = ?m div d + 1" using d by (simp add: rounded_quotient_nat)
    then have "?k * d = ?m - ?m mod d \<or> ?k * d = ?m - ?m mod d + d"
      by (auto simp: distrib_right minus_mod_eq_div_mult)
    then have "2 * (?m mod d) = d"
      using that(2) pos_mod_sign [OF d, of ?m] pos_mod_bound [OF d, of ?m]
      by (elim disjE) (simp_all add: abs_if split: if_splits)
    then show False using odd that(1) d by (simp add: rounded_quotient_nat split: if_splits)
  qed
  show ?thesis
    using d rounded_quotient_error_nat [of ?m d mode] tie_up tie_even
    unfolding abs_q dist parity by (intro conjI impI) (simp_all only: simp_thms, blast+)
qed

theorem divideRounded_spec_witness:
  "divideRounded (-5) 2 HALF_EVEN = Inr (-2) \<and> even (-2 :: int)"
proof -
  have run: "divideRounded (-5) 2 HALF_EVEN = Inr (-2)" by code_simp
  show ?thesis using run divideRounded_spec [OF run] by simp
qed

lemma roundToUnit_Inr:
  "roundToUnit a u mode = Inr r \<longleftrightarrow>
     isSafeInteger a \<and> isSafeInteger u \<and> 0 < u \<and> r = js_mul (rounded_quotient a u mode) u"
  by (auto simp: roundToUnit_def results)

lemma roundToUnit_safe:
  assumes "roundToUnit a u mode = Inr r" "isSafeInteger r"
  shows "r = rounded_quotient a u mode * u"
  using assms by (simp add: roundToUnit_Inr exact)

end
