(* ===== verification/Discount.thy ===== *)
theory Discount
  imports Allocation Permissions
begin

text \<open>
  \<open>packages/domain/src/discount.ts\<close>: percentage and flat discounts, the percentage a discount
  amounts to, and who may give it. The lemmas bound a discount by its base and show that a flat
  discount a cashier is allowed is within the cashier's percentage limit of the base.
\<close>

datatype DiscountValue = PERCENT BasisPoints | FLAT Paise

definition discountAmount :: "Paise \<Rightarrow> DiscountValue \<Rightarrow> RoundingMode \<Rightarrow> Paise result" where
  "discountAmount base discount rounding =
     bindE (assertPaise base False) (\<lambda>_.
     case discount of
       PERCENT rateBp \<Rightarrow>
         bindE (assertBasisPoints rateBp (Some BASIS_POINTS_PER_WHOLE)) (\<lambda>_.
         applyRate base rateBp rounding)
     | FLAT amount \<Rightarrow>
         bindE (assertPaise amount False) (\<lambda>_.
         if amount > base then Inl DISCOUNT_EXCEEDS_AMOUNT else Inr amount))"

definition effectiveDiscountRateBp :: "Paise \<Rightarrow> DiscountValue \<Rightarrow> BasisPoints result" where
  "effectiveDiscountRateBp base discount =
     (case discount of
        PERCENT rateBp \<Rightarrow> Inr rateBp
      | FLAT amount \<Rightarrow>
          if base = 0 then Inr (if amount = 0 then 0 else BASIS_POINTS_PER_WHOLE)
          else bindE (discountAmount base discount DEFAULT_ROUNDING) (\<lambda>a.
            divideRounded (js_mul a BASIS_POINTS_PER_WHOLE) base UP))"

type_synonym DiscountLimits = "Role \<rightharpoonup> BasisPoints"

definition DEFAULT_DISCOUNT_LIMITS :: DiscountLimits where
  "DEFAULT_DISCOUNT_LIMITS = [CASHIER \<mapsto> 1000]"

datatype DiscountDecision = DISCOUNT_ALLOWED | REQUIRES_MANAGER_OVERRIDE | DISCOUNT_DENIED

definition decideDiscount :: "Role \<Rightarrow> BasisPoints \<Rightarrow> DiscountLimits \<Rightarrow> DiscountDecision result" where
  "decideDiscount role requestedRateBp limits =
     bindE (assertBasisPoints requestedRateBp (Some BASIS_POINTS_PER_WHOLE)) (\<lambda>_.
     Inr (case role of
        OWNER \<Rightarrow> DISCOUNT_ALLOWED
      | MANAGER \<Rightarrow> DISCOUNT_ALLOWED
      | CASHIER \<Rightarrow>
          let limit = (case limits CASHIER of None \<Rightarrow> 0 | Some l \<Rightarrow> l);
              complimentary = requestedRateBp \<ge> BASIS_POINTS_PER_WHOLE
          in if \<not> complimentary \<and> requestedRateBp \<le> limit then DISCOUNT_ALLOWED
             else REQUIRES_MANAGER_OVERRIDE
      | WAITER \<Rightarrow> DISCOUNT_DENIED
      | KITCHEN \<Rightarrow> DISCOUNT_DENIED))"

section \<open>A rate of an amount\<close>

lemma applyRate_Inr:
  "applyRate a r mode = Inr x \<longleftrightarrow>
     isSafeInteger a \<and> isSafeInteger r \<and> 0 \<le> r \<and> isSafeInteger (a * r) \<and>
     x = rounded_quotient (a * r) BASIS_POINTS_PER_WHOLE mode"
  by (auto simp: applyRate_def results Let_def exact BASIS_POINTS_PER_WHOLE_def)

lemma applyRate_nonneg: "applyRate a r mode = Inr x \<Longrightarrow> 0 \<le> a \<Longrightarrow> 0 \<le> x"
  by (auto simp: applyRate_Inr BASIS_POINTS_PER_WHOLE_def intro!: rounded_quotient_nonneg)

lemma applyRate_le: "applyRate a r mode = Inr x \<Longrightarrow> 0 \<le> a \<Longrightarrow> r \<le> BASIS_POINTS_PER_WHOLE \<Longrightarrow> x \<le> a"
  by (auto simp: applyRate_Inr BASIS_POINTS_PER_WHOLE_def intro!: rounded_quotient_le mult_left_mono)

section \<open>Bounds\<close>

lemma discountAmount_between:
  assumes "discountAmount base d mode = Inr x"
  shows "0 \<le> x" "x \<le> base" "0 \<le> base" "isSafeInteger base"
  using assms
  by (auto simp: discountAmount_def results split: DiscountValue.splits if_splits
      dest: applyRate_nonneg applyRate_le)

lemma discountAmount_safe: "discountAmount base d mode = Inr x \<Longrightarrow> isSafeInteger x"
  using discountAmount_between isSafeInteger_between by blast

text \<open>
  A discount is never negative and never more than its base; a full percentage is the whole
  base, a flat discount is taken as it stands; and one percentage of a larger amount is never
  less than of a smaller one.
\<close>

lemma discountAmount_bounds:
  assumes "discountAmount base d mode = Inr x"
  shows "0 \<le> x \<and> x \<le> base \<and> (d = PERCENT 10000 \<longrightarrow> x = base) \<and> (\<forall>a. d = FLAT a \<longrightarrow> x = a) \<and>
    (\<forall>r base' y. d = PERCENT r \<and> base \<le> base' \<and> discountAmount base' d mode = Inr y \<longrightarrow> x \<le> y)"
proof -
  have full: "x = base" if "d = PERCENT 10000"
    using assms that rounded_quotient_exact [of 10000 base mode]
    by (auto simp: discountAmount_def results applyRate_Inr BASIS_POINTS_PER_WHOLE_def)
  have flat: "x = a" if "d = FLAT a" for a
    using assms that by (auto simp: discountAmount_def results split: if_splits)
  have mono: "x \<le> y" if "d = PERCENT r" "base \<le> base'" "discountAmount base' d mode = Inr y" for r base' y
    using assms that
    by (auto simp: discountAmount_def results applyRate_Inr BASIS_POINTS_PER_WHOLE_def
        intro!: rounded_quotient_mono mult_right_mono)
  show ?thesis using discountAmount_between [OF assms] full flat mono by blast
qed

lemma discountAmount_bounds_witness:
  "discountAmount 999 (PERCENT 1250) HALF_UP = Inr 125 \<and> 125 \<le> (999 :: Paise)"
proof -
  have run: "discountAmount 999 (PERCENT 1250) HALF_UP = Inr 125" by code_simp
  show ?thesis using run discountAmount_bounds [OF run] by simp
qed

section \<open>A flat discount cannot slip under the limit\<close>

lemma rounded_quotient_up:
  assumes "0 < d" "0 \<le> n"
  shows "n \<le> rounded_quotient n d UP * d" "(rounded_quotient n d UP - 1) * d < n"
proof -
  show "n \<le> rounded_quotient n d UP * d" by (rule rounded_quotient_error_nat(4)) (use assms in auto)
  have "\<bar>rounded_quotient n d UP * d - n\<bar> < d" by (rule rounded_quotient_error_nat(1)) (use assms in auto)
  then have "rounded_quotient n d UP * d - d < n" by linarith
  then show "(rounded_quotient n d UP - 1) * d < n" by (simp add: left_diff_distrib)
qed

lemma effectiveRate_flat:
  assumes "effectiveDiscountRateBp base (FLAT a) = Inr r" "0 < base"
  shows "0 \<le> a" "a \<le> base" "r = rounded_quotient (a * 10000) base UP"
proof -
  obtain x where x: "discountAmount base (FLAT a) DEFAULT_ROUNDING = Inr x"
    and r: "divideRounded (js_mul x 10000) base UP = Inr r"
    using assms by (auto simp: effectiveDiscountRateBp_def results BASIS_POINTS_PER_WHOLE_def)
  have "x = a" using x by (auto simp: discountAmount_def results split: if_splits)
  moreover have "isSafeInteger (js_mul x 10000)" "r = rounded_quotient (js_mul x 10000) base UP"
    using r by (simp_all only: divideRounded_Inr)
  ultimately show "r = rounded_quotient (a * 10000) base UP" by (simp add: exact)
  show "0 \<le> a" "a \<le> base" using discountAmount_between [OF x] \<open>x = a\<close> by simp_all
qed

text \<open>
  The percentage a flat discount amounts to is the least whole number of basis points that
  covers it, so a flat discount the rules allow a cashier is at most the cashier's limit of the
  base, and never the whole of it.
\<close>

lemma flat_discount_within_limit:
  assumes "effectiveDiscountRateBp base (FLAT a) = Inr r" "0 < base"
  shows "a * 10000 \<le> r * base \<and> (r - 1) * base < a * 10000 \<and>
    (decideDiscount CASHIER r limits = Inr DISCOUNT_ALLOWED \<longrightarrow>
       a < base \<and> a * 10000 \<le> (case limits CASHIER of None \<Rightarrow> 0 | Some l \<Rightarrow> l) * base)"
proof -
  note r = effectiveRate_flat [OF assms]
  note up = rounded_quotient_up [OF assms(2), of "a * 10000", folded r(3)]
  have least: "a * 10000 \<le> r * base" "(r - 1) * base < a * 10000" using up r by auto
  have "a < base \<and> a * 10000 \<le> l * base"
    if "l = (case limits CASHIER of None \<Rightarrow> 0 | Some l \<Rightarrow> l)" "decideDiscount CASHIER r limits = Inr DISCOUNT_ALLOWED" for l
  proof -
    have rl: "r < 10000" "r \<le> l"
      using that by (auto simp: decideDiscount_def results Let_def BASIS_POINTS_PER_WHOLE_def split: if_splits)
    have "r * base < 10000 * base" using rl assms by simp
    moreover have "r * base \<le> l * base" using rl assms by simp
    ultimately show ?thesis using least by linarith
  qed
  with least show ?thesis by blast
qed

theorem flat_discount_within_limit_witness:
  "effectiveDiscountRateBp 999 (FLAT 99) = Inr 991 \<and>
   decideDiscount CASHIER 991 DEFAULT_DISCOUNT_LIMITS = Inr DISCOUNT_ALLOWED \<and> 99 * 10000 \<le> 1000 * (999 :: Paise)"
proof -
  have run: "effectiveDiscountRateBp 999 (FLAT 99) = Inr 991" by code_simp
  have ok: "decideDiscount CASHIER 991 DEFAULT_DISCOUNT_LIMITS = Inr DISCOUNT_ALLOWED" by code_simp
  show ?thesis
    using run ok flat_discount_within_limit [OF run, of DEFAULT_DISCOUNT_LIMITS]
    by (simp add: DEFAULT_DISCOUNT_LIMITS_def)
qed

end
