(* ===== verification/Tax.thy ===== *)
theory Tax
  imports Allocation Discount Text
begin

text \<open>
  \<open>packages/domain/src/tax.ts\<close>: tax groups, their validation, and the tax of one group's amount
  when prices exclude or include tax. The lemmas show that whatever is returned adds up exactly
  and how far the rounded taxable value may be from the exact one.
\<close>

record TaxComponent =
  tc_code :: string
  tc_rateBp :: BasisPoints

record TaxGroup =
  tg_id :: string
  tg_name :: string
  tg_components :: "TaxComponent list"

datatype PriceMode = TAX_EXCLUSIVE | TAX_INCLUSIVE

record TaxComponentAmount =
  tca_code :: string
  tca_rateBp :: BasisPoints
  tca_amount :: Paise

record GroupTaxResult =
  gt_taxableValue :: Paise
  gt_components :: "TaxComponentAmount list"
  gt_taxTotal :: Paise
  gt_grossTotal :: Paise

definition totalRateBp :: "TaxGroup \<Rightarrow> BasisPoints" where
  "totalRateBp tg = js_total 0 (map tc_rateBp (tg_components tg))"

section \<open>Validation\<close>

text \<open>The texts of \<open>problems\<close>, with the component's code where the text has it.\<close>

datatype TaxGroupProblem =
    TAX_GROUP_ID_REQUIRED
  | TAX_GROUP_NAME_REQUIRED
  | TAX_COMPONENT_CODE_REQUIRED
  | DUPLICATE_TAX_COMPONENT_CODE string
  | TAX_RATE_NOT_A_NON_NEGATIVE_INTEGER string
  | TAX_RATE_ABOVE_WHOLE string

text \<open>The loop over the components, with the codes \<open>seen\<close> so far.\<close>

fun component_problems :: "string list \<Rightarrow> TaxComponent list \<Rightarrow> TaxGroupProblem list" where
  "component_problems seen [] = []"
| "component_problems seen (component # components) =
     (if trim_ws (tc_code component) = [] then [TAX_COMPONENT_CODE_REQUIRED] else []) @
     (if tc_code component \<in> set seen then [DUPLICATE_TAX_COMPONENT_CODE (tc_code component)] else []) @
     (if \<not> isSafeInteger (tc_rateBp component) \<or> tc_rateBp component < 0
      then [TAX_RATE_NOT_A_NON_NEGATIVE_INTEGER (tc_code component)]
      else if tc_rateBp component > BASIS_POINTS_PER_WHOLE
      then [TAX_RATE_ABOVE_WHOLE (tc_code component)]
      else []) @
     component_problems (tc_code component # seen) components"

definition validateTaxGroup :: "TaxGroup \<Rightarrow> TaxGroupProblem list" where
  "validateTaxGroup tg =
     (if trim_ws (tg_id tg) = [] then [TAX_GROUP_ID_REQUIRED] else []) @
     (if trim_ws (tg_name tg) = [] then [TAX_GROUP_NAME_REQUIRED] else []) @
     component_problems [] (tg_components tg)"

definition assertValidTaxGroup :: "TaxGroup \<Rightarrow> unit result" where
  "assertValidTaxGroup tg =
     throw_if (length (validateTaxGroup tg) > 0) INVALID_TAX_GROUP"

section \<open>The tax of a group's amount\<close>

definition component_amount :: "TaxComponent \<Rightarrow> Paise \<Rightarrow> TaxComponentAmount" where
  "component_amount component amount =
     \<lparr>tca_code = tc_code component, tca_rateBp = tc_rateBp component, tca_amount = amount\<rparr>"

text \<open>The branch that adds each component, rounded on its own, on top of the amount.\<close>

definition exclusive_tax :: "Paise \<Rightarrow> TaxGroup \<Rightarrow> RoundingMode \<Rightarrow> GroupTaxResult result" where
  "exclusive_tax amount tg rounding =
     bindE (mapE (\<lambda>component.
         bindE (applyRate amount (tc_rateBp component) rounding) (\<lambda>a.
         Inr (component_amount component a))) (tg_components tg)) (\<lambda>components.
     let taxTotal = js_total 0 (map tca_amount components)
     in Inr \<lparr>gt_taxableValue = amount, gt_components = components, gt_taxTotal = taxTotal,
             gt_grossTotal = js_add amount taxTotal\<rparr>)"

text \<open>The components with \<open>shares[index] ?? 0\<close>.\<close>

definition with_shares :: "TaxComponent list \<Rightarrow> Paise list \<Rightarrow> TaxComponentAmount list" where
  "with_shares components shares =
     map (\<lambda>(component, index).
       component_amount component (nth_or shares index 0))
       (zip components [0..<length components])"

text \<open>The branch that backs the taxable value out of the amount and shares the difference.\<close>

definition inclusive_tax :: "Paise \<Rightarrow> TaxGroup \<Rightarrow> RoundingMode \<Rightarrow> GroupTaxResult result" where
  "inclusive_tax amount tg rounding =
     (let rate = totalRateBp tg
      in bindE (if rate = 0 then Inr amount
                else divideRounded (js_mul amount BASIS_POINTS_PER_WHOLE)
                       (js_add BASIS_POINTS_PER_WHOLE rate) rounding) (\<lambda>taxableValue.
         let taxTotal = js_sub amount taxableValue
         in bindE (if rate = 0 then Inr (map (\<lambda>_. 0) (tg_components tg))
                   else allocate taxTotal (map tc_rateBp (tg_components tg))) (\<lambda>shares.
            Inr \<lparr>gt_taxableValue = taxableValue, gt_components = with_shares (tg_components tg) shares,
                 gt_taxTotal = taxTotal, gt_grossTotal = amount\<rparr>)))"

definition computeGroupTax ::
  "Paise \<Rightarrow> TaxGroup \<Rightarrow> PriceMode \<Rightarrow> RoundingMode \<Rightarrow> GroupTaxResult result" where
  "computeGroupTax amount tg priceMode rounding =
     bindE (assertPaise amount False) (\<lambda>_.
     bindE (assertValidTaxGroup tg) (\<lambda>_.
     bindE (mapE (\<lambda>component. assertBasisPoints (tc_rateBp component) None) (tg_components tg)) (\<lambda>_.
     case priceMode of
       TAX_EXCLUSIVE \<Rightarrow> exclusive_tax amount tg rounding
     | TAX_INCLUSIVE \<Rightarrow> inclusive_tax amount tg rounding)))"

section \<open>What validation says\<close>

lemma component_problems_Nil:
  "component_problems seen cs = [] \<longleftrightarrow>
     distinct (map tc_code cs) \<and> set (map tc_code cs) \<inter> set seen = {} \<and>
     (\<forall>c \<in> set cs. trim_ws (tc_code c) \<noteq> [] \<and> 0 \<le> tc_rateBp c \<and> tc_rateBp c \<le> 10000)"
proof (induction cs arbitrary: seen)
  case Nil
  then show ?case by simp
next
  case (Cons c cs)
  have "isSafeInteger (tc_rateBp c)" if "0 \<le> tc_rateBp c" "tc_rateBp c \<le> 10000"
    by (rule isSafeInteger_between [OF that]) simp
  then show ?case using Cons by (auto simp: BASIS_POINTS_PER_WHOLE_def)
qed

lemma validateTaxGroup_Nil:
  "validateTaxGroup g = [] \<longleftrightarrow>
     trim_ws (tg_id g) \<noteq> [] \<and> trim_ws (tg_name g) \<noteq> [] \<and> distinct (map tc_code (tg_components g)) \<and>
     (\<forall>c \<in> set (tg_components g). trim_ws (tc_code c) \<noteq> [] \<and> 0 \<le> tc_rateBp c \<and> tc_rateBp c \<le> 10000)"
  by (simp add: validateTaxGroup_def component_problems_Nil)

lemma assertValidTaxGroup_Inr [results]: "assertValidTaxGroup g = Inr u \<longleftrightarrow> validateTaxGroup g = []"
  by (simp add: assertValidTaxGroup_def results)

section \<open>What the tax adds up to\<close>

lemma component_amount_sel [simp]:
  "tca_code (component_amount c a) = tc_code c" "tca_rateBp (component_amount c a) = tc_rateBp c"
  "tca_amount (component_amount c a) = a"
  by (simp_all add: component_amount_def)

lemma with_shares_sel:
  assumes "length shares = length cs"
  shows "map tca_amount (with_shares cs shares) = shares"
    and "map tca_code (with_shares cs shares) = map tc_code cs"
    and "map tca_rateBp (with_shares cs shares) = map tc_rateBp cs"
  using assms by (auto simp: with_shares_def intro: nth_equalityI)

lemma with_shares_amount:
  "length shares = length cs \<Longrightarrow> x \<in> set (with_shares cs shares) \<Longrightarrow> tca_amount x \<in> set shares"
  using with_shares_sel(1) [of shares cs] by (metis image_eqI set_map)

lemma with_shares_zero: "x \<in> set (with_shares cs (replicate (length cs) 0)) \<Longrightarrow> tca_amount x = 0"
  using with_shares_amount [of "replicate (length cs) 0" cs x] by auto

lemma exclusive_components:
  assumes "mapE (\<lambda>component.
      bindE (applyRate amount (tc_rateBp component) rounding) (\<lambda>a. Inr (component_amount component a))) cs = Inr comps"
  shows "comps = map (\<lambda>c. component_amount c (rounded_quotient (amount * tc_rateBp c) 10000 rounding)) cs"
  using assms
  by (rule mapE_Inr_map) (auto simp: results applyRate_Inr BASIS_POINTS_PER_WHOLE_def)

lemma totalRateBp_exact:
  assumes "validateTaxGroup g = []" "isSafeInteger (totalRateBp g)"
  shows "totalRateBp g = sum_list (map tc_rateBp (tg_components g))"
  using assms js_total_exact [of 0 "map tc_rateBp (tg_components g)"]
  by (auto simp: totalRateBp_def validateTaxGroup_Nil)

lemma totalRateBp_nonneg:
  assumes "validateTaxGroup g = []"
  shows "0 \<le> totalRateBp g"
  using assms by (auto simp: totalRateBp_def validateTaxGroup_Nil intro!: js_total_nonneg)

lemma inclusive_taxable:
  assumes "0 \<le> a" "0 < R"
  shows "0 \<le> rounded_quotient (a * 10000) (10000 + R) mode"
    and "rounded_quotient (a * 10000) (10000 + R) mode \<le> a"
proof -
  show "0 \<le> rounded_quotient (a * 10000) (10000 + R) mode"
    using assms by (intro rounded_quotient_nonneg) auto
  have "a * 10000 \<le> a * (10000 + R)" using assms by (intro mult_left_mono) auto
  then show "rounded_quotient (a * 10000) (10000 + R) mode \<le> a"
    using assms by (intro rounded_quotient_le) auto
qed

lemma exclusive_tax_Inr:
  assumes "exclusive_tax a g mode = Inr t"
  shows "gt_components t =
      map (\<lambda>c. component_amount c (rounded_quotient (a * tc_rateBp c) 10000 mode)) (tg_components g)"
    and "gt_taxableValue t = a" "gt_taxTotal t = js_total 0 (map tca_amount (gt_components t))"
    and "gt_grossTotal t = js_add a (gt_taxTotal t)"
  using assms by (auto simp: exclusive_tax_def results Let_def dest!: exclusive_components)

lemma inclusive_tax_Inr:
  assumes "inclusive_tax a g mode = Inr t" "validateTaxGroup g = []" "0 \<le> a" "isSafeInteger a"
  defines "R \<equiv> sum_list (map tc_rateBp (tg_components g))"
  shows "gt_grossTotal t = a" "0 \<le> gt_taxableValue t" "0 \<le> gt_taxTotal t"
    and "gt_taxableValue t + gt_taxTotal t = a"
    and "sum_list (map tca_amount (gt_components t)) = gt_taxTotal t"
    and "\<And>x. x \<in> set (map tca_amount (gt_components t)) \<Longrightarrow> 0 \<le> x"
    and "map tca_code (gt_components t) = map tc_code (tg_components g)"
    and "map tca_rateBp (gt_components t) = map tc_rateBp (tg_components g)"
    and "gt_taxableValue t = rounded_quotient (a * 10000) (10000 + R) mode"
proof -
  have R: "0 \<le> R" using assms(2) unfolding R_def validateTaxGroup_Nil by (intro sum_list_nonneg_int) auto
  have "gt_grossTotal t = a \<and> 0 \<le> gt_taxableValue t \<and> 0 \<le> gt_taxTotal t \<and>
    gt_taxableValue t + gt_taxTotal t = a \<and> sum_list (map tca_amount (gt_components t)) = gt_taxTotal t \<and>
    (\<forall>x \<in> set (map tca_amount (gt_components t)). 0 \<le> x) \<and>
    map tca_code (gt_components t) = map tc_code (tg_components g) \<and>
    map tca_rateBp (gt_components t) = map tc_rateBp (tg_components g) \<and>
    gt_taxableValue t = rounded_quotient (a * 10000) (10000 + R) mode"
  proof (cases "totalRateBp g = 0")
    case True
    then have "R = 0" using totalRateBp_exact [OF assms(2)] by (simp add: R_def)
    then show ?thesis
      using assms(1,3,4) True rounded_quotient_exact [of 10000 a mode]
      by (auto simp: inclusive_tax_def Let_def with_shares_sel js_sub_def map_replicate_const
          sum_list_replicate with_shares_zero)
  next
    case False
    obtain tv shares where tv: "divideRounded (js_mul a 10000) (js_add 10000 (totalRateBp g)) mode = Inr tv"
      and shares: "allocate (js_sub a tv) (map tc_rateBp (tg_components g)) = Inr shares"
      and t: "t = \<lparr>gt_taxableValue = tv, gt_components = with_shares (tg_components g) shares,
                 gt_taxTotal = js_sub a tv, gt_grossTotal = a\<rparr>"
      using assms(1) False by (auto simp: inclusive_tax_def Let_def results BASIS_POINTS_PER_WHOLE_def)
    have safe: "isSafeInteger (js_mul a 10000)" "isSafeInteger (js_add 10000 (totalRateBp g))"
      and tv': "tv = rounded_quotient (js_mul a 10000) (js_add 10000 (totalRateBp g)) mode"
      using tv by (simp_all only: divideRounded_Inr)
    have rate0: "0 \<le> totalRateBp g" by (rule totalRateBp_nonneg [OF assms(2)])
    then have "isSafeInteger (totalRateBp g)"
      using safe(2) isSafeInteger_between [of "totalRateBp g" "10000 + totalRateBp g"] by simp
    then have rate: "totalRateBp g = R" using totalRateBp_exact [OF assms(2)] by (simp add: R_def)
    have tv_eq: "tv = rounded_quotient (a * 10000) (10000 + R) mode" using tv' safe rate by (simp add: exact)
    have le: "0 \<le> tv" "tv \<le> a" using inclusive_taxable [OF assms(3), of R mode] False rate rate0 tv_eq by auto
    have sub: "js_sub a tv = a - tv"
      using le assms(3,4) isSafeInteger_between [of "a - tv" a] by (simp add: exact)
    have len: "length shares = length (tg_components g)" using allocate.alloc_length [OF shares] by simp
    show ?thesis
      using t len le sub tv_eq allocate.alloc_sum [OF shares] allocate.alloc_nonneg [OF shares]
      by (simp add: with_shares_sel)
  qed
  then show "gt_grossTotal t = a" "0 \<le> gt_taxableValue t" "0 \<le> gt_taxTotal t"
    and "gt_taxableValue t + gt_taxTotal t = a"
    and "sum_list (map tca_amount (gt_components t)) = gt_taxTotal t"
    and "\<And>x. x \<in> set (map tca_amount (gt_components t)) \<Longrightarrow> 0 \<le> x"
    and "map tca_code (gt_components t) = map tc_code (tg_components g)"
    and "map tca_rateBp (gt_components t) = map tc_rateBp (tg_components g)"
    and "gt_taxableValue t = rounded_quotient (a * 10000) (10000 + R) mode"
    by blast+
qed

text \<open>Everything the billing code needs of a group's tax, in either price mode.\<close>

lemma computeGroupTax_Inr:
  assumes "computeGroupTax a g pm mode = Inr t"
  shows "validateTaxGroup g = []" "isSafeInteger a" "0 \<le> a"
    and "pm = TAX_EXCLUSIVE \<Longrightarrow> exclusive_tax a g mode = Inr t"
    and "pm = TAX_INCLUSIVE \<Longrightarrow> inclusive_tax a g mode = Inr t"
  using assms by (auto simp: computeGroupTax_def results)

lemma group_tax_nonneg:
  assumes "computeGroupTax a g pm mode = Inr t"
  shows "0 \<le> gt_taxableValue t" "0 \<le> gt_taxTotal t" "0 \<le> gt_grossTotal t"
    and "x \<in> set (map tca_amount (gt_components t)) \<Longrightarrow> 0 \<le> x"
proof -
  note c = computeGroupTax_Inr [OF assms]
  have "0 \<le> gt_taxableValue t \<and> 0 \<le> gt_taxTotal t \<and> 0 \<le> gt_grossTotal t \<and>
    (\<forall>x \<in> set (map tca_amount (gt_components t)). 0 \<le> x)"
  proof (cases pm)
    case TAX_EXCLUSIVE
    note e = exclusive_tax_Inr [OF c(4) [OF TAX_EXCLUSIVE]]
    have comps: "\<forall>x \<in> set (map tca_amount (gt_components t)). 0 \<le> x"
      using c(1,3) by (auto simp: e(1) validateTaxGroup_Nil intro!: rounded_quotient_nonneg)
    then have "0 \<le> gt_taxTotal t" unfolding e(3) by (intro js_total_nonneg) auto
    with comps c(3) show ?thesis by (auto simp: e(2,4) intro: js_add_nonneg)
  next
    case TAX_INCLUSIVE
    with inclusive_tax_Inr [OF c(5) c(1) c(3) c(2)] c(3) show ?thesis by auto
  qed
  then show "0 \<le> gt_taxableValue t" "0 \<le> gt_taxTotal t" "0 \<le> gt_grossTotal t"
    and "x \<in> set (map tca_amount (gt_components t)) \<Longrightarrow> 0 \<le> x"
    by blast+
qed

lemma group_tax_adds_up:
  assumes "computeGroupTax a g pm mode = Inr t" "isSafeInteger (gt_grossTotal t)"
  shows "gt_taxableValue t + gt_taxTotal t = gt_grossTotal t"
    and "sum_list (map tca_amount (gt_components t)) = gt_taxTotal t"
proof -
  note c = computeGroupTax_Inr [OF assms(1)]
  have "gt_taxableValue t + gt_taxTotal t = gt_grossTotal t \<and>
    sum_list (map tca_amount (gt_components t)) = gt_taxTotal t"
  proof (cases pm)
    case TAX_EXCLUSIVE
    note e = exclusive_tax_Inr [OF c(4) [OF TAX_EXCLUSIVE]]
    have "isSafeInteger (a + gt_taxTotal t)" using assms(2) by (simp add: e(4))
    moreover from this have "isSafeInteger (gt_taxTotal t)"
      using group_tax_nonneg(2) [OF assms(1)] c(3) isSafeInteger_between [of "gt_taxTotal t" "a + gt_taxTotal t"]
      by simp
    ultimately show ?thesis
      using js_total_exact [of 0 "map tca_amount (gt_components t)"] group_tax_nonneg(4) [OF assms(1)]
      by (simp add: e exact)
  next
    case TAX_INCLUSIVE
    with inclusive_tax_Inr [OF c(5) c(1) c(3) c(2)] show ?thesis by auto
  qed
  then show "gt_taxableValue t + gt_taxTotal t = gt_grossTotal t"
    and "sum_list (map tca_amount (gt_components t)) = gt_taxTotal t" by auto
qed

text \<open>
  The tax of a group adds up. The components, in the group's order and at its rates, total the
  tax, and taxable value and tax total the gross (when the gross is a safe integer, as every amount
  the bill then uses must be); nothing is negative. With prices excluding tax the whole amount is
  taxable and each component is the amount at its own rate, rounded on its own; with prices
  including tax the gross is the amount itself, and the taxable value is less than one paisa from
  the exact quotient.
\<close>

lemma computeGroupTax_adds_up:
  assumes "computeGroupTax a g pm mode = Inr t" "isSafeInteger (gt_grossTotal t)"
  shows "gt_taxableValue t + gt_taxTotal t = gt_grossTotal t \<and>
    sum_list (map tca_amount (gt_components t)) = gt_taxTotal t \<and>
    map (\<lambda>c. (tca_code c, tca_rateBp c)) (gt_components t) =
      map (\<lambda>c. (tc_code c, tc_rateBp c)) (tg_components g) \<and>
    0 \<le> gt_taxableValue t \<and> (\<forall>c \<in> set (gt_components t). 0 \<le> tca_amount c) \<and>
    (case pm of
       TAX_EXCLUSIVE \<Rightarrow> gt_taxableValue t = a \<and>
         map tca_amount (gt_components t) = map (\<lambda>c. rounded_quotient (a * tc_rateBp c) 10000 mode) (tg_components g)
     | TAX_INCLUSIVE \<Rightarrow> gt_grossTotal t = a \<and>
         (let W = 10000 + sum_list (map tc_rateBp (tg_components g))
          in \<bar>gt_taxableValue t * W - a * 10000\<bar> < W))"
proof -
  note c = computeGroupTax_Inr [OF assms(1)]
  have pairs: "map (\<lambda>c. (tca_code c, tca_rateBp c)) xs = map (\<lambda>c. (tc_code c, tc_rateBp c)) ys"
    if "map tca_code xs = map tc_code ys" "map tca_rateBp xs = map tc_rateBp ys" for xs ys
    using that by (induction xs arbitrary: ys) (auto simp: Cons_eq_map_conv)
  have rates: "0 \<le> sum_list (map tc_rateBp (tg_components g))"
    using c(1) unfolding validateTaxGroup_Nil by (intro sum_list_nonneg_int) auto
  have "(case pm of
       TAX_EXCLUSIVE \<Rightarrow> gt_taxableValue t = a \<and>
         map tca_amount (gt_components t) = map (\<lambda>c. rounded_quotient (a * tc_rateBp c) 10000 mode) (tg_components g)
     | TAX_INCLUSIVE \<Rightarrow> gt_grossTotal t = a \<and>
         (let W = 10000 + sum_list (map tc_rateBp (tg_components g))
          in \<bar>gt_taxableValue t * W - a * 10000\<bar> < W)) \<and>
     map tca_code (gt_components t) = map tc_code (tg_components g) \<and>
     map tca_rateBp (gt_components t) = map tc_rateBp (tg_components g)"
  proof (cases pm)
    case TAX_EXCLUSIVE
    with exclusive_tax_Inr [OF c(4) [OF TAX_EXCLUSIVE]] show ?thesis by (simp add: o_def)
  next
    case TAX_INCLUSIVE
    with inclusive_tax_Inr [OF c(5) c(1) c(3) c(2)] rates show ?thesis
      by (simp add: Let_def rounded_quotient_error(1))
  qed
  then show ?thesis
    using group_tax_adds_up [OF assms] group_tax_nonneg [OF assms(1)]
      pairs [of "gt_components t" "tg_components g"] by auto
qed

definition gst_5 :: TaxGroup where
  "gst_5 = \<lparr>tg_id = ''g5'', tg_name = ''GST 5'', tg_components =
     [\<lparr>tc_code = ''CGST'', tc_rateBp = 250\<rparr>, \<lparr>tc_code = ''SGST'', tc_rateBp = 250\<rparr>]\<rparr>"

theorem computeGroupTax_adds_up_witness:
  "\<exists>t. computeGroupTax 9999 gst_5 TAX_INCLUSIVE HALF_UP = Inr t \<and>
     gt_taxableValue t + gt_taxTotal t = 9999 \<and> map tca_amount (gt_components t) = [238, 238]"
proof -
  have run: "computeGroupTax 9999 gst_5 TAX_INCLUSIVE HALF_UP =
      Inr \<lparr>gt_taxableValue = 9523, gt_components =
        [\<lparr>tca_code = ''CGST'', tca_rateBp = 250, tca_amount = 238\<rparr>,
         \<lparr>tca_code = ''SGST'', tca_rateBp = 250, tca_amount = 238\<rparr>],
        gt_taxTotal = 476, gt_grossTotal = 9999\<rparr>"
    by code_simp
  show ?thesis using run computeGroupTax_adds_up [OF run] by simp
qed

end
