(* ===== verification/Bill.thy ===== *)
theory Bill
  imports Tax
begin

text \<open>
  \<open>packages/domain/src/bill.ts\<close>: the complete bill, from lines to grand total: item discounts,
  the bill discount allocated over the lines, tax once per tax group, service charge, round-off.
  The lemmas follow the loop over the tax groups and show that every total of the bill is the exact
  sum of what it is made of.
\<close>

section \<open>Input and result\<close>

record BillLineInput =
  bli_id :: string
  bli_unitPrice :: Paise
  bli_quantity :: number
  bli_taxGroupId :: string
  bli_discount :: "DiscountValue option"
  bli_complimentary :: "bool option"

record ServiceChargeInput =
  sc_rateBp :: BasisPoints
  sc_taxGroupId :: string

datatype RoundOffRule = NO_ROUND_OFF | NEAREST Paise "RoundingMode option"

record BillInput =
  bi_priceMode :: PriceMode
  bi_lines :: "BillLineInput list"
  bi_taxGroups :: "TaxGroup list"
  bi_billDiscount :: "DiscountValue option"
  bi_serviceCharge :: "ServiceChargeInput option"
  bi_roundOff :: RoundOffRule
  bi_rounding :: "RoundingMode option"

record BillLineResult =
  bl_id :: string
  bl_quantity :: number
  bl_unitPrice :: Paise
  bl_grossAmount :: Paise
  bl_itemDiscount :: Paise
  bl_billDiscountShare :: Paise
  bl_netAmount :: Paise
  bl_taxableValue :: Paise
  bl_taxGroupId :: string

datatype TaxSource = ITEMS | SERVICE_CHARGE

record TaxLineResult =
  tl_taxGroupId :: string
  tl_taxGroupName :: string
  tl_source :: TaxSource
  tl_taxableValue :: Paise
  tl_components :: "TaxComponentAmount list"
  tl_taxTotal :: Paise

record BillResult =
  br_priceMode :: PriceMode
  br_lines :: "BillLineResult list"
  br_subtotal :: Paise
  br_itemDiscountTotal :: Paise
  br_billDiscountTotal :: Paise
  br_discountTotal :: Paise
  br_serviceCharge :: Paise
  br_taxableValueTotal :: Paise
  br_taxLines :: "TaxLineResult list"
  br_taxTotal :: Paise
  br_totalBeforeRoundOff :: Paise
  br_roundOff :: Paise
  br_grandTotal :: Paise

section \<open>Validation\<close>

type_synonym tax_groups = "(string \<times> TaxGroup) list"

definition group_map :: "TaxGroup list \<Rightarrow> tax_groups" where
  "group_map gs = foldl (\<lambda>m g. map_set (tg_id g) g m) [] gs"

fun validate_lines :: "string list \<Rightarrow> BillLineInput list \<Rightarrow> tax_groups \<Rightarrow> unit result" where
  "validate_lines ids [] groups = Inr ()"
| "validate_lines ids (line # lines) groups =
     bindE (throw_if (bli_id line \<in> set ids) INVALID_ARGUMENT) (\<lambda>_.
     bindE (assertPaise (bli_unitPrice line) False) (\<lambda>_.
     bindE (throw_if (\<not> isSafeInteger (bli_quantity line) \<or> bli_quantity line < 1) INVALID_QUANTITY) (\<lambda>_.
     bindE (throw_if (map_of groups (bli_taxGroupId line) = None) UNKNOWN_TAX_GROUP) (\<lambda>_.
     validate_lines (bli_id line # ids) lines groups))))"

definition validateInput :: "BillInput \<Rightarrow> tax_groups \<Rightarrow> unit result" where
  "validateInput input groups =
     bindE (validate_lines [] (bi_lines input) groups) (\<lambda>_.
     case bi_serviceCharge input of
       None \<Rightarrow> Inr ()
     | Some charge \<Rightarrow>
         bindE (assertBasisPoints (sc_rateBp charge) None) (\<lambda>_.
         throw_if (map_of groups (sc_taxGroupId charge) = None) UNKNOWN_TAX_GROUP))"

definition requireGroup :: "tax_groups \<Rightarrow> string \<Rightarrow> TaxGroup result" where
  "requireGroup groups i =
     (case map_of groups i of None \<Rightarrow> Inl UNKNOWN_TAX_GROUP | Some g \<Rightarrow> Inr g)"

section \<open>Discounts\<close>

definition item_discount :: "RoundingMode \<Rightarrow> BillLineInput \<times> Paise \<Rightarrow> Paise result" where
  "item_discount rounding p =
     (case p of (line, base) \<Rightarrow>
        if bli_complimentary line = Some True then Inr base
        else case bli_discount line of
          None \<Rightarrow> Inr 0
        | Some discount \<Rightarrow> discountAmount base discount rounding)"

section \<open>Tax per group\<close>

text \<open>\<open>groupOrder\<close> and \<open>groupLineIndexes\<close>: the lines of each group, groups in first-appearance order.\<close>

fun group_lines :: "nat \<Rightarrow> BillLineInput list \<Rightarrow> (string \<times> nat list) list \<Rightarrow> (string \<times> nat list) list" where
  "group_lines index [] m = m"
| "group_lines index (line # lines) m =
     (let indexes = (case map_of m (bli_taxGroupId line) of None \<Rightarrow> [] | Some is \<Rightarrow> is)
      in group_lines (Suc index) lines (map_set (bli_taxGroupId line) (indexes @ [index]) m))"

text \<open>\<open>indexes.forEach((lineIndex, position) => lineTaxable[lineIndex] = shares[position] ?? 0)\<close>.\<close>

fun put_shares :: "Paise list \<Rightarrow> nat list \<Rightarrow> Paise list \<Rightarrow> Paise list" where
  "put_shares lineTaxable [] shares = lineTaxable"
| "put_shares lineTaxable (lineIndex # indexes) shares =
     put_shares (lineTaxable[lineIndex := nth_or shares 0 0]) indexes (tl shares)"

definition tax_line :: "TaxGroup \<Rightarrow> TaxSource \<Rightarrow> GroupTaxResult \<Rightarrow> TaxLineResult" where
  "tax_line g source r =
     \<lparr>tl_taxGroupId = tg_id g, tl_taxGroupName = tg_name g, tl_source = source,
      tl_taxableValue = gt_taxableValue r, tl_components = gt_components r,
      tl_taxTotal = gt_taxTotal r\<rparr>"

text \<open>What the loop over the groups changes.\<close>

record group_state =
  gs_lineTaxable :: "Paise list"
  gs_taxLines :: "TaxLineResult list"
  gs_itemsGross :: number
  gs_itemsTaxable :: number

fun tax_each_group ::
  "PriceMode \<Rightarrow> RoundingMode \<Rightarrow> tax_groups \<Rightarrow> Paise list \<Rightarrow> (string \<times> nat list) list \<Rightarrow>
   group_state \<Rightarrow> group_state result" where
  "tax_each_group priceMode rounding groups net [] st = Inr st"
| "tax_each_group priceMode rounding groups net ((groupId, indexes) # order) st =
     bindE (requireGroup groups groupId) (\<lambda>g.
     let lineWeights = map (\<lambda>i. nth_or net i 0) indexes
     in bindE (sum_paise lineWeights) (\<lambda>groupNet.
        bindE (computeGroupTax groupNet g priceMode rounding) (\<lambda>result.
        bindE (if groupNet = 0 then Inr (map (\<lambda>_. 0) lineWeights)
               else allocate (gt_taxableValue result) lineWeights) (\<lambda>shares.
        tax_each_group priceMode rounding groups net order
          \<lparr>gs_lineTaxable = put_shares (gs_lineTaxable st) indexes shares,
           gs_taxLines = gs_taxLines st @ [tax_line g ITEMS result],
           gs_itemsGross = js_add (gs_itemsGross st) (gt_grossTotal result),
           gs_itemsTaxable = js_add (gs_itemsTaxable st) (gt_taxableValue result)\<rparr>))))"

section \<open>The bill\<close>

text \<open>The service charge, its gross and its tax line.\<close>

definition service_charge ::
  "ServiceChargeInput option \<Rightarrow> tax_groups \<Rightarrow> Paise \<Rightarrow> RoundingMode \<Rightarrow> (Paise \<times> Paise \<times> TaxLineResult list) result" where
  "service_charge charge groups itemsTaxable rounding =
     (case charge of
        None \<Rightarrow> Inr (0, 0, [])
      | Some c \<Rightarrow>
          bindE (applyRate itemsTaxable (sc_rateBp c) rounding) (\<lambda>serviceCharge.
          bindE (requireGroup groups (sc_taxGroupId c)) (\<lambda>g.
          bindE (computeGroupTax serviceCharge g TAX_EXCLUSIVE rounding) (\<lambda>result.
          Inr (serviceCharge, gt_grossTotal result, [tax_line g SERVICE_CHARGE result])))))"

definition round_off_total :: "RoundOffRule \<Rightarrow> Paise \<Rightarrow> Paise result" where
  "round_off_total rule totalBeforeRoundOff =
     (case rule of
        NO_ROUND_OFF \<Rightarrow> Inr totalBeforeRoundOff
      | NEAREST u mode \<Rightarrow>
          roundToUnit totalBeforeRoundOff u (case mode of None \<Rightarrow> HALF_UP | Some m \<Rightarrow> m))"

definition line_result ::
  "Paise list \<Rightarrow> Paise list \<Rightarrow> Paise list \<Rightarrow> Paise list \<Rightarrow> Paise list \<Rightarrow> BillLineInput \<times> nat \<Rightarrow> BillLineResult" where
  "line_result gross itemDiscounts billShares net lineTaxable p =
     (case p of (line, index) \<Rightarrow>
        \<lparr>bl_id = bli_id line, bl_quantity = bli_quantity line, bl_unitPrice = bli_unitPrice line,
         bl_grossAmount = nth_or gross index 0, bl_itemDiscount = nth_or itemDiscounts index 0,
         bl_billDiscountShare = nth_or billShares index 0, bl_netAmount = nth_or net index 0,
         bl_taxableValue = nth_or lineTaxable index 0, bl_taxGroupId = bli_taxGroupId line\<rparr>)"

definition computeBill :: "BillInput \<Rightarrow> BillResult result" where
  "computeBill input =
     (let rounding = (case bi_rounding input of None \<Rightarrow> DEFAULT_ROUNDING | Some m \<Rightarrow> m);
          groups = group_map (bi_taxGroups input);
          lines = bi_lines input
      in bindE (validateInput input groups) (\<lambda>_.
         bindE (mapE (\<lambda>line. multiply (bli_unitPrice line) (bli_quantity line)) lines) (\<lambda>gross.
         bindE (mapE (item_discount rounding) (zip lines gross)) (\<lambda>itemDiscounts.
         let afterItem = map2 js_sub gross itemDiscounts
         in bindE (sum_paise afterItem) (\<lambda>afterItemTotal.
         bindE (case bi_billDiscount input of
                  None \<Rightarrow> Inr 0
                | Some discount \<Rightarrow> discountAmount afterItemTotal discount rounding) (\<lambda>billDiscountTotal.
         bindE (if afterItemTotal = 0 then Inr (map (\<lambda>_. 0) afterItem)
                else allocate billDiscountTotal afterItem) (\<lambda>billShares.
         let net = map2 js_sub afterItem billShares
         in bindE (tax_each_group (bi_priceMode input) rounding groups net (group_lines 0 lines [])
                \<lparr>gs_lineTaxable = replicate (length lines) 0, gs_taxLines = [],
                 gs_itemsGross = 0, gs_itemsTaxable = 0\<rparr>) (\<lambda>st.
         bindE (service_charge (bi_serviceCharge input) groups (gs_itemsTaxable st) rounding)
           (\<lambda>(serviceCharge, serviceChargeGross, chargeLines).
         let taxLines = gs_taxLines st @ chargeLines;
             totalBeforeRoundOff = js_add (gs_itemsGross st) serviceChargeGross
         in bindE (round_off_total (bi_roundOff input) totalBeforeRoundOff) (\<lambda>grandTotal.
         bindE (sum_paise itemDiscounts) (\<lambda>itemDiscountTotal.
         bindE (sum_paise gross) (\<lambda>subtotal.
         bindE (sum_paise (map tl_taxTotal taxLines)) (\<lambda>taxTotal.
         Inr \<lparr>br_priceMode = bi_priceMode input,
              br_lines = map (line_result gross itemDiscounts billShares net (gs_lineTaxable st))
                           (zip lines [0..<length lines]),
              br_subtotal = subtotal,
              br_itemDiscountTotal = itemDiscountTotal,
              br_billDiscountTotal = billDiscountTotal,
              br_discountTotal = js_add itemDiscountTotal billDiscountTotal,
              br_serviceCharge = serviceCharge,
              br_taxableValueTotal = js_add (gs_itemsTaxable st) serviceCharge,
              br_taxLines = taxLines,
              br_taxTotal = taxTotal,
              br_totalBeforeRoundOff = totalBeforeRoundOff,
              br_roundOff = js_sub grandTotal totalBeforeRoundOff,
              br_grandTotal = grandTotal\<rparr>)))))))))))))"

text \<open>Totals per component code.\<close>

definition taxTotalsByComponent :: "TaxLineResult list \<Rightarrow> (string \<times> Paise) list" where
  "taxTotalsByComponent taxLines =
     foldl (\<lambda>totals line.
       foldl (\<lambda>totals component.
         map_set (tca_code component)
           (js_add (case map_of totals (tca_code component) of None \<Rightarrow> 0 | Some t \<Rightarrow> t) (tca_amount component))
           totals) totals (tl_components line)) [] taxLines"

end
