(* ===== verification/Bill_Totals.thy ===== *)
theory Bill_Totals
  imports Bill
begin

text \<open>
  What a computed bill adds up to. First the grouping of the lines and the loop over the tax groups,
  then the totals: discounts over the lines, taxes over the groups, and the grand total.
\<close>

section \<open>Grouping the lines\<close>

lemma mset_concat_map_set:
  "mset (concat (map snd (map_set g ((case map_of m g of None \<Rightarrow> [] | Some is \<Rightarrow> is) @ [k]) m))) =
     add_mset k (mset (concat (map snd m)))"
  by (induction m) (auto split: option.splits)

lemma group_lines_mset:
  "mset (concat (map snd (group_lines k ls m))) = mset (concat (map snd m)) + mset [k..<k + length ls]"
proof (induction ls arbitrary: k m)
  case Nil
  then show ?case by simp
next
  case (Cons l ls)
  have up: "[k..<k + length (l # ls)] = k # [Suc k..<Suc k + length ls]"
    by (simp add: upt_conv_Cons del: upt_Suc)
  show ?case
    unfolding up group_lines.simps Let_def Cons.IH mset_concat_map_set by (simp del: mset_upt upt_Suc)
qed

lemma group_lines_indexes:
  "distinct (concat (map snd (group_lines 0 ls [])))"
  "set (concat (map snd (group_lines 0 ls []))) = {..<length ls}"
proof -
  have eq: "mset (concat (map snd (group_lines 0 ls []))) = mset [0..<length ls]"
    using group_lines_mset [of 0 ls "[]"] by simp
  show "distinct (concat (map snd (group_lines 0 ls [])))"
    using mset_eq_imp_distinct_iff [OF eq] by simp
  show "set (concat (map snd (group_lines 0 ls []))) = {..<length ls}"
    using mset_eq_setD [OF eq] by (simp add: atLeast0LessThan)
qed

lemma group_lines_keys: "distinct (map fst m) \<Longrightarrow> distinct (map fst (group_lines k ls m))"
  by (induction ls arbitrary: k m) (simp_all add: Let_def distinct_map_set)

lemma group_lines_group:
  assumes "\<forall>(g, is) \<in> set m. \<forall>i \<in> set is. i < length pre \<and> bli_taxGroupId (pre ! i) = g"
    and "(g, is) \<in> set (group_lines (length pre) ls m)" "i \<in> set is"
  shows "i < length (pre @ ls) \<and> bli_taxGroupId ((pre @ ls) ! i) = g"
  using assms
proof (induction ls arbitrary: pre m)
  case Nil
  then show ?case by auto
next
  case (Cons l ls)
  have member: "p \<in> set (map_set k v m) \<Longrightarrow> p = (k, v) \<or> p \<in> set m" for p :: "string \<times> nat list" and k v
    by (induction m) (auto split: if_splits)
  let ?m = "map_set (bli_taxGroupId l) ((case map_of m (bli_taxGroupId l) of None \<Rightarrow> [] | Some is \<Rightarrow> is) @ [length pre]) m"
  have "i < length (pre @ [l]) \<and> bli_taxGroupId ((pre @ [l]) ! i) = g"
    if new: "(g, is) \<in> set ?m" and i: "i \<in> set is" for g "is" i
  proof (cases "(g, is) \<in> set m")
    case True
    then have "i < length pre" "bli_taxGroupId (pre ! i) = g" using Cons.prems(1) i by auto
    then show ?thesis by (simp add: nth_append)
  next
    case False
    then have g: "g = bli_taxGroupId l"
      and js: "is = (case map_of m (bli_taxGroupId l) of None \<Rightarrow> [] | Some is \<Rightarrow> is) @ [length pre]"
      using member [OF new] by auto
    show ?thesis
    proof (cases "i = length pre")
      case True
      then show ?thesis by (simp add: g)
    next
      case False
      then obtain js where "map_of m (bli_taxGroupId l) = Some js" "i \<in> set js"
        using js i by (auto split: option.splits)
      then have "i < length pre" "bli_taxGroupId (pre ! i) = g"
        using Cons.prems(1) g by (auto dest!: map_of_SomeD)
      then show ?thesis by (simp add: nth_append)
    qed
  qed
  then have "\<forall>(g, is) \<in> set ?m. \<forall>i \<in> set is. i < length (pre @ [l]) \<and> bli_taxGroupId ((pre @ [l]) ! i) = g"
    by blast
  then show ?case
    using Cons.IH [of ?m "pre @ [l]"] Cons.prems(2,3) by (simp add: Let_def)
qed

section \<open>Writing the shares of one group\<close>

text \<open>The total over the positions that satisfy \<open>P\<close>.\<close>

definition total_at :: "(nat \<Rightarrow> bool) \<Rightarrow> number list \<Rightarrow> number" where
  "total_at P xs = (\<Sum>i<length xs. if P i then xs ! i else 0)"

lemma total_at_all: "total_at (\<lambda>_. True) xs = sum_list xs"
  by (simp add: total_at_def sum_list_sum_nth atLeast0LessThan)

lemma total_at_update:
  "i < length xs \<Longrightarrow> xs ! i = 0 \<Longrightarrow> total_at P (xs[i := v]) = total_at P xs + (if P i then v else 0)"
proof -
  assume i: "i < length xs" and z: "xs ! i = 0"
  have "total_at P (xs[i := v]) = (\<Sum>j<length xs. (if P j then xs ! j else 0) + (if j = i then (if P i then v else 0) else 0))"
    unfolding total_at_def using i z by (intro sum.cong) (auto simp: nth_list_update)
  then show ?thesis using i by (simp add: sum.distrib total_at_def)
qed

lemma length_put_shares [simp]: "length (put_shares lt is ss) = length lt"
  by (induction lt "is" ss rule: put_shares.induct) auto

lemma put_shares_other: "i \<notin> set is \<Longrightarrow> put_shares lt is ss ! i = lt ! i"
  by (induction lt "is" ss rule: put_shares.induct) auto

lemma put_shares_total:
  assumes "distinct is" "\<forall>i \<in> set is. i < length lt \<and> lt ! i = 0 \<and> P i = b" "length ss = length is"
  shows "total_at P (put_shares lt is ss) = total_at P lt + (if b then sum_list ss else 0)"
  using assms
proof (induction lt "is" ss rule: put_shares.induct)
  case (1 lt ss)
  then show ?case by simp
next
  case (2 lt i "is" ss)
  then obtain s ss' where ss: "ss = s # ss'" by (cases ss) auto
  have "total_at P (put_shares (lt[i := s]) is ss') = total_at P (lt[i := s]) + (if b then sum_list ss' else 0)"
    using 2 ss by (auto simp: nth_list_update)
  moreover have "total_at P (lt[i := s]) = total_at P lt + (if b then s else 0)"
    using 2 by (simp add: total_at_update)
  ultimately show ?case using ss by auto
qed

lemma put_shares_nonneg:
  assumes "\<forall>x \<in> set lt. 0 \<le> x" "\<forall>s \<in> set ss. 0 \<le> s" "x \<in> set (put_shares lt is ss)"
  shows "(0 :: int) \<le> x"
  using assms
proof (induction lt "is" ss arbitrary: x rule: put_shares.induct)
  case (1 lt ss)
  then show ?case by simp
next
  case (2 lt i "is" ss)
  have "0 \<le> nth_or ss 0 0" using 2(3) by (cases ss) auto
  then have "\<forall>x \<in> set (lt[i := nth_or ss 0 0]). 0 \<le> x"
    using 2(2) by (auto dest: set_update_subset_insert [THEN subsetD])
  moreover have "\<forall>s \<in> set (tl ss). 0 \<le> s" using 2(3) by (cases ss) auto
  ultimately show ?case using 2(1) 2(4) by simp
qed

section \<open>The loop over the groups\<close>

lemma group_tax_zero: "computeGroupTax 0 g pm mode = Inr t \<Longrightarrow> gt_taxableValue t = 0"
proof -
  assume run: "computeGroupTax 0 g pm mode = Inr t"
  note c = computeGroupTax_Inr [OF run]
  show ?thesis
  proof (cases pm)
    case TAX_EXCLUSIVE
    then show ?thesis using exclusive_tax_Inr(2) [OF c(4)] by simp
  next
    case TAX_INCLUSIVE
    then show ?thesis using inclusive_tax_Inr(2,3,4) [OF c(5) c(1)] by fastforce
  qed
qed

text \<open>One group's step: the tax of its lines' net total, and shares of its taxable value.\<close>

lemma group_step:
  assumes "requireGroup groups gid = Inr g"
    and "sum_paise ws = Inr n" "computeGroupTax n g pm mode = Inr r"
    and "(if n = 0 then Inr (map (\<lambda>_. 0) ws) else allocate (gt_taxableValue r) ws) = Inr shares"
    and "\<forall>w \<in> set ws. 0 \<le> w"
  shows "map_of groups gid = Some g" "n = sum_list ws" "length shares = length ws"
    and "sum_list shares = gt_taxableValue r" "\<forall>s \<in> set shares. 0 \<le> s"
proof -
  show "map_of groups gid = Some g" using assms(1) by (simp add: requireGroup_def split: option.splits)
  show n: "n = sum_list ws" using assms(2,5) sum_paise_nonneg [of ws n] by blast
  have "length shares = length ws \<and> sum_list shares = gt_taxableValue r \<and> (\<forall>s \<in> set shares. 0 \<le> s)"
  proof (cases "n = 0")
    case True
    then show ?thesis
      using assms(3,4) group_tax_zero by (auto simp: map_replicate_const sum_list_replicate)
  next
    case False
    then show ?thesis
      using assms(4) allocate.alloc_length allocate.alloc_sum allocate.alloc_nonneg by auto
  qed
  then show "length shares = length ws" "sum_list shares = gt_taxableValue r" "\<forall>s \<in> set shares. 0 \<le> s"
    by auto
qed

text \<open>What the loop leaves: one result per group, and the state it adds up to.\<close>

definition group_results ::
  "PriceMode \<Rightarrow> RoundingMode \<Rightarrow> tax_groups \<Rightarrow> Paise list \<Rightarrow> (string \<times> nat list) list \<Rightarrow>
   (TaxGroup \<times> GroupTaxResult) list \<Rightarrow> bool" where
  "group_results pm mode groups net order rs \<longleftrightarrow>
     list_all2 (\<lambda>(gid, is) (g, r).
       map_of groups gid = Some g \<and>
       computeGroupTax (sum_list (map (\<lambda>i. nth_or net i 0) is)) g pm mode = Inr r) order rs"

lemma nth_or_nonneg: "\<forall>x \<in> set xs. 0 \<le> x \<Longrightarrow> (0 :: int) \<le> nth_or xs i 0"
  by (simp add: nth_or_def)

definition loop_post ::
  "PriceMode \<Rightarrow> RoundingMode \<Rightarrow> tax_groups \<Rightarrow> Paise list \<Rightarrow> (string \<times> nat list) list \<Rightarrow>
   group_state \<Rightarrow> group_state \<Rightarrow> (TaxGroup \<times> GroupTaxResult) list \<Rightarrow> bool" where
  "loop_post pm mode groups net order st st' rs \<longleftrightarrow>
     group_results pm mode groups net order rs \<and>
     gs_taxLines st' = gs_taxLines st @ map (\<lambda>(g, r). tax_line g ITEMS r) rs \<and>
     gs_itemsGross st' = js_total (gs_itemsGross st) (map (gt_grossTotal \<circ> snd) rs) \<and>
     gs_itemsTaxable st' = js_total (gs_itemsTaxable st) (map (gt_taxableValue \<circ> snd) rs) \<and>
     length (gs_lineTaxable st') = length (gs_lineTaxable st) \<and> (\<forall>x \<in> set (gs_lineTaxable st'). 0 \<le> x) \<and>
     (\<forall>P Q. (\<forall>(g, is) \<in> set order. \<forall>i \<in> set is. P i = Q g) \<longrightarrow>
       total_at P (gs_lineTaxable st') = total_at P (gs_lineTaxable st) +
         sum_list (map2 (\<lambda>(g, is) (_, r). if Q g then gt_taxableValue r else 0) order rs))"

lemma loop_post_total:
  "loop_post pm mode groups net order st st' rs \<Longrightarrow> (\<forall>(g, is) \<in> set order. \<forall>i \<in> set is. P i = Q g) \<Longrightarrow>
     total_at P (gs_lineTaxable st') = total_at P (gs_lineTaxable st) +
         sum_list (map2 (\<lambda>(g, is) (_, r). if Q g then gt_taxableValue r else 0) order rs)"
  unfolding loop_post_def by blast

lemma loop_post_Cons:
  assumes post: "loop_post pm mode groups net order
      \<lparr>gs_lineTaxable = put_shares lt is shares, gs_taxLines = tls @ [tax_line g ITEMS r],
       gs_itemsGross = js_add ig (gt_grossTotal r), gs_itemsTaxable = js_add it (gt_taxableValue r)\<rparr> st' rs"
    and g: "map_of groups gid = Some g"
      "computeGroupTax (sum_list (map (\<lambda>i. nth_or net i 0) is)) g pm mode = Inr r"
    and shares: "length shares = length is" "sum_list shares = gt_taxableValue r"
    and fresh: "distinct is" "\<forall>i \<in> set is. i < length lt \<and> lt ! i = 0"
  shows "loop_post pm mode groups net ((gid, is) # order)
      \<lparr>gs_lineTaxable = lt, gs_taxLines = tls, gs_itemsGross = ig, gs_itemsTaxable = it\<rparr> st' ((g, r) # rs)"
proof -
  have "total_at P (gs_lineTaxable st') = total_at P lt +
      sum_list (map2 (\<lambda>(g, is) (_, r). if Q g then gt_taxableValue r else 0) ((gid, is) # order) ((g, r) # rs))"
    if PQ: "\<forall>(g, is) \<in> set ((gid, is) # order). \<forall>i \<in> set is. P i = Q g" for P Q
  proof -
    have "total_at P (gs_lineTaxable st') = total_at P (put_shares lt is shares) +
        sum_list (map2 (\<lambda>(g, is) (_, r). if Q g then gt_taxableValue r else 0) order rs)"
      using loop_post_total [OF post, of P Q] PQ by simp
    moreover have "total_at P (put_shares lt is shares) = total_at P lt + (if Q gid then gt_taxableValue r else 0)"
      using put_shares_total [of "is" lt P "Q gid" shares] PQ fresh shares by simp
    ultimately show ?thesis by simp
  qed
  then show ?thesis using post g unfolding loop_post_def group_results_def by simp
qed

lemma tax_each_group_Inr:
  assumes "tax_each_group pm mode groups net order st = Inr st'"
    and "\<forall>x \<in> set net. 0 \<le> x" "\<forall>x \<in> set (gs_lineTaxable st). 0 \<le> x"
    and "distinct (concat (map snd order))"
    and "\<forall>(g, is) \<in> set order. \<forall>i \<in> set is. i < length (gs_lineTaxable st) \<and> gs_lineTaxable st ! i = 0"
  shows "\<exists>rs. loop_post pm mode groups net order st st' rs"
  using assms
proof (induction pm mode groups net order st arbitrary: st' rule: tax_each_group.induct)
  case (1 pm mode groups net st)
  then show ?case by (auto simp: loop_post_def group_results_def)
next
  case (2 pm mode groups net gid "is" order st)
  let ?ws = "map (\<lambda>i. nth_or net i 0) is" and ?lt = "gs_lineTaxable st"
  obtain g n r shares where step: "requireGroup groups gid = Inr g"
      "sum_paise ?ws = Inr n" "computeGroupTax n g pm mode = Inr r"
      "(if n = 0 then Inr (map (\<lambda>_. 0) ?ws) else allocate (gt_taxableValue r) ?ws) = Inr shares"
    and rest: "tax_each_group pm mode groups net order
          \<lparr>gs_lineTaxable = put_shares ?lt is shares, gs_taxLines = gs_taxLines st @ [tax_line g ITEMS r],
           gs_itemsGross = js_add (gs_itemsGross st) (gt_grossTotal r),
           gs_itemsTaxable = js_add (gs_itemsTaxable st) (gt_taxableValue r)\<rparr> = Inr st'"
    using "2.prems"(1) by (auto simp: bindE_Inr_iff Let_def)
  have ws: "\<forall>w \<in> set ?ws. 0 \<le> w" using "2.prems"(2) by (auto intro: nth_or_nonneg)
  note g = group_step [OF step ws]
  have fresh: "i \<notin> set is" if "(g, js) \<in> set order" "i \<in> set js" for g js i
    using "2.prems"(4) that by fastforce
  have zero: "i < length ?lt \<and> put_shares ?lt is shares ! i = 0" if "(g, js) \<in> set order" "i \<in> set js" for g js i
    using "2.prems"(5) that by (auto simp: put_shares_other fresh [OF that])
  then have zeros: "\<forall>(g, js) \<in> set order. \<forall>i \<in> set js. i < length ?lt \<and> put_shares ?lt is shares ! i = 0"
    by blast
  have "\<forall>x \<in> set (put_shares ?lt is shares). 0 \<le> x"
    using put_shares_nonneg "2.prems"(3) g(5) by blast
  then obtain rs where "loop_post pm mode groups net order
          \<lparr>gs_lineTaxable = put_shares ?lt is shares, gs_taxLines = gs_taxLines st @ [tax_line g ITEMS r],
           gs_itemsGross = js_add (gs_itemsGross st) (gt_grossTotal r),
           gs_itemsTaxable = js_add (gs_itemsTaxable st) (gt_taxableValue r)\<rparr> st' rs"
    using "2.IH" [OF step(1) refl step(2) step(3) step(4) rest "2.prems"(2)] "2.prems"(4) zeros by simp blast
  from loop_post_Cons [OF this g(1) _ _ g(4)]
  have "loop_post pm mode groups net ((gid, is) # order)
      \<lparr>gs_lineTaxable = ?lt, gs_taxLines = gs_taxLines st, gs_itemsGross = gs_itemsGross st,
       gs_itemsTaxable = gs_itemsTaxable st\<rparr> st' ((g, r) # rs)"
    using g step(3) "2.prems"(4,5) by auto
  then show ?case by (cases st) auto
qed

section \<open>The steps of a bill\<close>

text \<open>The intermediate values of a bill that was computed.\<close>

record bill_steps =
  bs_gross :: "Paise list"
  bs_itemDiscounts :: "Paise list"
  bs_afterItemTotal :: Paise
  bs_billShares :: "Paise list"
  bs_state :: group_state
  bs_serviceChargeGross :: Paise
  bs_chargeLines :: "TaxLineResult list"

definition bill_rounding :: "BillInput \<Rightarrow> RoundingMode" where
  "bill_rounding input = (case bi_rounding input of None \<Rightarrow> DEFAULT_ROUNDING | Some m \<Rightarrow> m)"

definition bs_afterItem :: "bill_steps \<Rightarrow> Paise list" where
  "bs_afterItem s = map2 js_sub (bs_gross s) (bs_itemDiscounts s)"

definition bs_net :: "bill_steps \<Rightarrow> Paise list" where
  "bs_net s = map2 js_sub (bs_afterItem s) (bs_billShares s)"

definition initial_state :: "BillInput \<Rightarrow> group_state" where
  "initial_state input =
     \<lparr>gs_lineTaxable = replicate (length (bi_lines input)) 0, gs_taxLines = [], gs_itemsGross = 0, gs_itemsTaxable = 0\<rparr>"

text \<open>The amounts of the lines.\<close>

definition discount_steps :: "BillInput \<Rightarrow> BillResult \<Rightarrow> bill_steps \<Rightarrow> bool" where
  "discount_steps input b s \<longleftrightarrow>
     validate_lines [] (bi_lines input) (group_map (bi_taxGroups input)) = Inr () \<and>
     mapE (\<lambda>line. multiply (bli_unitPrice line) (bli_quantity line)) (bi_lines input) = Inr (bs_gross s) \<and>
     mapE (item_discount (bill_rounding input)) (zip (bi_lines input) (bs_gross s)) = Inr (bs_itemDiscounts s) \<and>
     sum_paise (bs_afterItem s) = Inr (bs_afterItemTotal s) \<and>
     (case bi_billDiscount input of
        None \<Rightarrow> Inr 0
      | Some discount \<Rightarrow> discountAmount (bs_afterItemTotal s) discount (bill_rounding input)) = Inr (br_billDiscountTotal b) \<and>
     (if bs_afterItemTotal s = 0 then Inr (map (\<lambda>_. 0) (bs_afterItem s))
      else allocate (br_billDiscountTotal b) (bs_afterItem s)) = Inr (bs_billShares s) \<and>
     sum_paise (bs_itemDiscounts s) = Inr (br_itemDiscountTotal b) \<and>
     sum_paise (bs_gross s) = Inr (br_subtotal b) \<and>
     br_discountTotal b = js_add (br_itemDiscountTotal b) (br_billDiscountTotal b) \<and>
     br_lines b = map (line_result (bs_gross s) (bs_itemDiscounts s) (bs_billShares s) (bs_net s) (gs_lineTaxable (bs_state s)))
       (zip (bi_lines input) [0..<length (bi_lines input)])"

text \<open>The taxes and the total.\<close>

definition tax_steps :: "BillInput \<Rightarrow> BillResult \<Rightarrow> bill_steps \<Rightarrow> bool" where
  "tax_steps input b s \<longleftrightarrow>
     tax_each_group (bi_priceMode input) (bill_rounding input) (group_map (bi_taxGroups input)) (bs_net s)
       (group_lines 0 (bi_lines input) []) (initial_state input) = Inr (bs_state s) \<and>
     service_charge (bi_serviceCharge input) (group_map (bi_taxGroups input)) (gs_itemsTaxable (bs_state s))
       (bill_rounding input) = Inr (br_serviceCharge b, bs_serviceChargeGross s, bs_chargeLines s) \<and>
     br_taxLines b = gs_taxLines (bs_state s) @ bs_chargeLines s \<and>
     br_taxableValueTotal b = js_add (gs_itemsTaxable (bs_state s)) (br_serviceCharge b) \<and>
     sum_paise (map tl_taxTotal (br_taxLines b)) = Inr (br_taxTotal b) \<and>
     br_totalBeforeRoundOff b = js_add (gs_itemsGross (bs_state s)) (bs_serviceChargeGross s) \<and>
     round_off_total (bi_roundOff input) (br_totalBeforeRoundOff b) = Inr (br_grandTotal b) \<and>
     br_roundOff b = js_sub (br_grandTotal b) (br_totalBeforeRoundOff b)"

lemma computeBill_steps:
  assumes "computeBill input = Inr b"
  shows "\<exists>s. discount_steps input b s \<and> tax_steps input b s"
proof -
  let ?gm = "group_map (bi_taxGroups input)" and ?r = "bill_rounding input"
  obtain u gross ids total bd shares st sc scg scl gt idt sub tt where
    d: "validateInput input ?gm = Inr u"
      "mapE (\<lambda>line. multiply (bli_unitPrice line) (bli_quantity line)) (bi_lines input) = Inr gross"
      "mapE (item_discount ?r) (zip (bi_lines input) gross) = Inr ids"
      "sum_paise (map2 js_sub gross ids) = Inr total"
      "(case bi_billDiscount input of None \<Rightarrow> Inr 0 | Some discount \<Rightarrow> discountAmount total discount ?r) = Inr bd"
      "(if total = 0 then Inr (map (\<lambda>_. 0) (map2 js_sub gross ids)) else allocate bd (map2 js_sub gross ids)) = Inr shares"
    and r: "tax_each_group (bi_priceMode input) ?r ?gm (map2 js_sub (map2 js_sub gross ids) shares)
        (group_lines 0 (bi_lines input) []) (initial_state input) = Inr st"
      "service_charge (bi_serviceCharge input) ?gm (gs_itemsTaxable st) ?r = Inr (sc, scg, scl)"
      "round_off_total (bi_roundOff input) (js_add (gs_itemsGross st) scg) = Inr gt"
      "sum_paise ids = Inr idt" "sum_paise gross = Inr sub"
      "sum_paise (map tl_taxTotal (gs_taxLines st @ scl)) = Inr tt"
    and b: "b = \<lparr>br_priceMode = bi_priceMode input,
              br_lines = map (line_result gross ids shares (map2 js_sub (map2 js_sub gross ids) shares) (gs_lineTaxable st))
                           (zip (bi_lines input) [0..<length (bi_lines input)]),
              br_subtotal = sub, br_itemDiscountTotal = idt, br_billDiscountTotal = bd,
              br_discountTotal = js_add idt bd, br_serviceCharge = sc,
              br_taxableValueTotal = js_add (gs_itemsTaxable st) sc, br_taxLines = gs_taxLines st @ scl,
              br_taxTotal = tt, br_totalBeforeRoundOff = js_add (gs_itemsGross st) scg,
              br_roundOff = js_sub gt (js_add (gs_itemsGross st) scg), br_grandTotal = gt\<rparr>"
    using assms
    unfolding computeBill_def Let_def bill_rounding_def [symmetric] initial_state_def [symmetric]
    by (auto simp only: bindE_Inr_iff sum.inject)
  define s where "s = \<lparr>bs_gross = gross, bs_itemDiscounts = ids, bs_afterItemTotal = total,
    bs_billShares = shares, bs_state = st, bs_serviceChargeGross = scg, bs_chargeLines = scl\<rparr>"
  have lines: "validate_lines [] (bi_lines input) ?gm = Inr ()"
    using d(1) by (auto simp: validateInput_def bindE_Inr_iff)
  have sel: "bs_gross s = gross" "bs_itemDiscounts s = ids" "bs_afterItemTotal s = total"
    "bs_billShares s = shares" "bs_state s = st" "bs_serviceChargeGross s = scg" "bs_chargeLines s = scl"
    by (simp_all add: s_def)
  have "discount_steps input b s"
    unfolding discount_steps_def bs_afterItem_def bs_net_def sel unfolding b BillResult.select_convs
    using lines d(2-6) r(4,5) by (intro conjI refl)
  moreover have "tax_steps input b s"
    unfolding tax_steps_def bs_afterItem_def bs_net_def sel unfolding b BillResult.select_convs
    using r by (intro conjI refl)
  ultimately show ?thesis by blast
qed

section \<open>Discounts over the lines\<close>

lemma multiply_Inr:
  "multiply a q = Inr x \<longleftrightarrow> isSafeInteger a \<and> isSafeInteger q \<and> isSafeInteger (a * q) \<and> x = a * q"
  by (auto simp: multiply_def results Let_def exact)

lemma validate_lines_Inr:
  "validate_lines ids ls groups = Inr u \<Longrightarrow>
     distinct (map bli_id ls) \<and> set (map bli_id ls) \<inter> set ids = {} \<and>
     (\<forall>l \<in> set ls. 0 \<le> bli_unitPrice l \<and> 1 \<le> bli_quantity l)"
proof (induction ls arbitrary: ids)
  case Nil
  then show ?case by simp
next
  case (Cons l ls)
  then have "validate_lines (bli_id l # ids) ls groups = Inr u" "bli_id l \<notin> set ids"
    "0 \<le> bli_unitPrice l" "1 \<le> bli_quantity l"
    by (auto simp: results)
  with Cons.IH [of "bli_id l # ids"] show ?case by auto
qed

lemma item_discount_Inr:
  assumes "item_discount mode (l, base) = Inr x" "0 \<le> base" "isSafeInteger base"
  shows "0 \<le> x" "x \<le> base" "bli_complimentary l = Some True \<Longrightarrow> x = base"
  using assms discountAmount_between [of base _ mode x]
  by (auto simp: item_discount_def split: if_splits option.splits)

text \<open>The amounts of line \<open>i\<close>.\<close>

lemma line_gross:
  assumes "discount_steps input b s"
  shows "length (bs_gross s) = length (bi_lines input)"
    and "i < length (bi_lines input) \<Longrightarrow>
      bs_gross s ! i = bli_unitPrice (bi_lines input ! i) * bli_quantity (bi_lines input ! i) \<and>
      0 \<le> bs_gross s ! i \<and> isSafeInteger (bs_gross s ! i)"
proof -
  have run: "mapE (\<lambda>line. multiply (bli_unitPrice line) (bli_quantity line)) (bi_lines input) = Inr (bs_gross s)"
    using assms by (simp add: discount_steps_def)
  show "length (bs_gross s) = length (bi_lines input)" by (rule mapE_length [OF run])
  assume i: "i < length (bi_lines input)"
  have "validate_lines [] (bi_lines input) (group_map (bi_taxGroups input)) = Inr ()"
    using assms by (simp add: discount_steps_def)
  then have "0 \<le> bli_unitPrice (bi_lines input ! i)" "1 \<le> bli_quantity (bi_lines input ! i)"
    using validate_lines_Inr i by (metis nth_mem)+
  with mapE_nth [OF run i] show "bs_gross s ! i = bli_unitPrice (bi_lines input ! i) * bli_quantity (bi_lines input ! i) \<and>
      0 \<le> bs_gross s ! i \<and> isSafeInteger (bs_gross s ! i)"
    by (simp add: multiply_Inr)
qed

lemma line_item_discount:
  assumes "discount_steps input b s"
  shows "length (bs_itemDiscounts s) = length (bi_lines input)"
    and "i < length (bi_lines input) \<Longrightarrow>
      0 \<le> bs_itemDiscounts s ! i \<and> bs_itemDiscounts s ! i \<le> bs_gross s ! i \<and>
      (bli_complimentary (bi_lines input ! i) = Some True \<longrightarrow> bs_itemDiscounts s ! i = bs_gross s ! i)"
    and "i < length (bi_lines input) \<Longrightarrow> bs_afterItem s ! i = bs_gross s ! i - bs_itemDiscounts s ! i"
    and "length (bs_afterItem s) = length (bi_lines input)"
proof -
  have run: "mapE (item_discount (bill_rounding input)) (zip (bi_lines input) (bs_gross s)) = Inr (bs_itemDiscounts s)"
    using assms by (simp add: discount_steps_def)
  show len: "length (bs_itemDiscounts s) = length (bi_lines input)"
    using mapE_length [OF run] line_gross(1) [OF assms] by simp
  show "length (bs_afterItem s) = length (bi_lines input)"
    using len line_gross(1) [OF assms] by (simp add: bs_afterItem_def)
  show d: "0 \<le> bs_itemDiscounts s ! i \<and> bs_itemDiscounts s ! i \<le> bs_gross s ! i \<and>
      (bli_complimentary (bi_lines input ! i) = Some True \<longrightarrow> bs_itemDiscounts s ! i = bs_gross s ! i)"
    if "i < length (bi_lines input)" for i
  proof -
    have "item_discount (bill_rounding input) (bi_lines input ! i, bs_gross s ! i) = Inr (bs_itemDiscounts s ! i)"
      using mapE_nth [OF run, of i] that line_gross(1) [OF assms] by simp
    from item_discount_Inr [OF this] show ?thesis using line_gross(2) [OF assms that] by blast
  qed
  show "bs_afterItem s ! i = bs_gross s ! i - bs_itemDiscounts s ! i" if "i < length (bi_lines input)"
  proof -
    have "0 \<le> bs_gross s ! i - bs_itemDiscounts s ! i" "bs_gross s ! i - bs_itemDiscounts s ! i \<le> bs_gross s ! i"
      using d [OF that] by auto
    then have "isSafeInteger (bs_gross s ! i - bs_itemDiscounts s ! i)"
      using isSafeInteger_between line_gross(2) [OF assms that] by blast
    then show ?thesis using that len line_gross(1) [OF assms] by (simp add: bs_afterItem_def exact)
  qed
qed

lemma line_bill_discount:
  assumes "discount_steps input b s"
  shows "length (bs_billShares s) = length (bi_lines input)"
    and "i < length (bi_lines input) \<Longrightarrow>
      0 \<le> bs_billShares s ! i \<and> bs_billShares s ! i \<le> bs_afterItem s ! i"
    and "i < length (bi_lines input) \<Longrightarrow> bs_net s ! i = bs_afterItem s ! i - bs_billShares s ! i"
    and "length (bs_net s) = length (bi_lines input)"
    and "sum_list (bs_billShares s) = br_billDiscountTotal b"
    and "0 \<le> br_billDiscountTotal b" "br_billDiscountTotal b \<le> sum_list (bs_afterItem s)"
    and "isSafeInteger (sum_list (bs_afterItem s))"
proof -
  have after: "0 \<le> bs_afterItem s ! i" "isSafeInteger (bs_afterItem s ! i)" if "i < length (bi_lines input)" for i
    using line_item_discount(2,3) [OF assms that] line_gross(2) [OF assms that]
      isSafeInteger_between [of "bs_afterItem s ! i" "bs_gross s ! i"] by auto
  have nonneg: "\<And>x. x \<in> set (bs_afterItem s) \<Longrightarrow> 0 \<le> x"
    using after line_item_discount(4) [OF assms] by (metis in_set_conv_nth)
  have "sum_paise (bs_afterItem s) = Inr (bs_afterItemTotal s)" using assms by (simp add: discount_steps_def)
  then have total: "bs_afterItemTotal s = sum_list (bs_afterItem s)" "isSafeInteger (bs_afterItemTotal s)"
    using sum_paise_nonneg [of "bs_afterItem s"] nonneg by auto
  then show "isSafeInteger (sum_list (bs_afterItem s))" by simp
  have pos: "0 \<le> bs_afterItemTotal s" unfolding total(1) by (rule sum_list_nonneg_int [OF nonneg])
  have "(case bi_billDiscount input of None \<Rightarrow> Inr 0
      | Some discount \<Rightarrow> discountAmount (bs_afterItemTotal s) discount (bill_rounding input)) = Inr (br_billDiscountTotal b)"
    using assms by (simp add: discount_steps_def)
  then have bd: "0 \<le> br_billDiscountTotal b" "br_billDiscountTotal b \<le> bs_afterItemTotal s"
    using pos by (auto split: option.splits dest: discountAmount_between)
  then show "0 \<le> br_billDiscountTotal b" "br_billDiscountTotal b \<le> sum_list (bs_afterItem s)"
    by (simp_all add: total)
  have shares: "(if bs_afterItemTotal s = 0 then Inr (map (\<lambda>_. 0) (bs_afterItem s))
      else allocate (br_billDiscountTotal b) (bs_afterItem s)) = Inr (bs_billShares s)"
    using assms by (simp add: discount_steps_def)
  have "length (bs_billShares s) = length (bs_afterItem s) \<and> sum_list (bs_billShares s) = br_billDiscountTotal b \<and>
    (\<forall>i < length (bs_afterItem s). 0 \<le> bs_billShares s ! i \<and> bs_billShares s ! i \<le> bs_afterItem s ! i)"
  proof (cases "bs_afterItemTotal s = 0")
    case True
    then have "bs_billShares s = replicate (length (bi_lines input)) 0" "br_billDiscountTotal b = 0"
      using shares bd line_item_discount(4) [OF assms] by (auto simp: map_replicate_const)
    then show ?thesis
      using after line_item_discount(4) [OF assms] by (simp add: sum_list_replicate)
  next
    case False
    then have run: "allocate (br_billDiscountTotal b) (bs_afterItem s) = Inr (bs_billShares s)"
      using shares by simp
    show ?thesis
      using allocate.alloc_length [OF run] allocate.alloc_sum [OF run] allocate.alloc_nonneg [OF run]
        allocate.alloc_capped [OF run] bd by (simp add: total)
  qed
  then show len: "length (bs_billShares s) = length (bi_lines input)"
    and sum: "sum_list (bs_billShares s) = br_billDiscountTotal b"
    and part: "\<And>i. i < length (bi_lines input) \<Longrightarrow>
      0 \<le> bs_billShares s ! i \<and> bs_billShares s ! i \<le> bs_afterItem s ! i"
    by (simp_all add: line_item_discount(4) [OF assms])
  show "length (bs_net s) = length (bi_lines input)"
    using len line_item_discount(4) [OF assms] by (simp add: bs_net_def)
  show "bs_net s ! i = bs_afterItem s ! i - bs_billShares s ! i" if "i < length (bi_lines input)"
  proof -
    have "0 \<le> bs_afterItem s ! i - bs_billShares s ! i" "bs_afterItem s ! i - bs_billShares s ! i \<le> bs_afterItem s ! i"
      using part [OF that] by auto
    then have "isSafeInteger (bs_afterItem s ! i - bs_billShares s ! i)"
      using isSafeInteger_between after(2) [OF that] by blast
    then show ?thesis using that len line_item_discount(4) [OF assms] by (simp add: bs_net_def exact)
  qed
qed

lemma net_nonneg:
  assumes "discount_steps input b s"
  shows "\<forall>x \<in> set (bs_net s). 0 \<le> x"
  using line_bill_discount(2,3,4) [OF assms] by (auto simp: in_set_conv_nth)

text \<open>A result line's selectors.\<close>

lemma result_line:
  assumes "discount_steps input b s" "i < length (bi_lines input)" "length (gs_lineTaxable (bs_state s)) = length (bi_lines input)"
  shows "bl_id (br_lines b ! i) = bli_id (bi_lines input ! i)"
    "bl_quantity (br_lines b ! i) = bli_quantity (bi_lines input ! i)"
    "bl_unitPrice (br_lines b ! i) = bli_unitPrice (bi_lines input ! i)"
    "bl_taxGroupId (br_lines b ! i) = bli_taxGroupId (bi_lines input ! i)"
    "bl_grossAmount (br_lines b ! i) = bs_gross s ! i"
    "bl_itemDiscount (br_lines b ! i) = bs_itemDiscounts s ! i"
    "bl_billDiscountShare (br_lines b ! i) = bs_billShares s ! i"
    "bl_netAmount (br_lines b ! i) = bs_net s ! i"
    "bl_taxableValue (br_lines b ! i) = gs_lineTaxable (bs_state s) ! i"
proof -
  have "br_lines b ! i = line_result (bs_gross s) (bs_itemDiscounts s) (bs_billShares s) (bs_net s)
      (gs_lineTaxable (bs_state s)) (bi_lines input ! i, i)"
    using assms(1,2) by (simp add: discount_steps_def)
  then show "bl_id (br_lines b ! i) = bli_id (bi_lines input ! i)"
    "bl_quantity (br_lines b ! i) = bli_quantity (bi_lines input ! i)"
    "bl_unitPrice (br_lines b ! i) = bli_unitPrice (bi_lines input ! i)"
    "bl_taxGroupId (br_lines b ! i) = bli_taxGroupId (bi_lines input ! i)"
    "bl_grossAmount (br_lines b ! i) = bs_gross s ! i"
    "bl_itemDiscount (br_lines b ! i) = bs_itemDiscounts s ! i"
    "bl_billDiscountShare (br_lines b ! i) = bs_billShares s ! i"
    "bl_netAmount (br_lines b ! i) = bs_net s ! i"
    "bl_taxableValue (br_lines b ! i) = gs_lineTaxable (bs_state s) ! i"
    using assms line_gross(1) line_item_discount(1) line_bill_discount(1,4)
    by (simp_all add: line_result_def)
qed

lemma length_br_lines: "discount_steps input b s \<Longrightarrow> length (br_lines b) = length (bi_lines input)"
  by (simp add: discount_steps_def)

lemma bill_state_lines:
  assumes "discount_steps input b s" "tax_steps input b s"
  shows "\<exists>rs. loop_post (bi_priceMode input) (bill_rounding input) (group_map (bi_taxGroups input)) (bs_net s)
       (group_lines 0 (bi_lines input) []) (initial_state input) (bs_state s) rs"
proof (rule tax_each_group_Inr)
  show "tax_each_group (bi_priceMode input) (bill_rounding input) (group_map (bi_taxGroups input)) (bs_net s)
       (group_lines 0 (bi_lines input) []) (initial_state input) = Inr (bs_state s)"
    using assms(2) by (simp add: tax_steps_def)
  show "\<forall>x \<in> set (bs_net s). 0 \<le> x" by (rule net_nonneg [OF assms(1)])
  show "\<forall>x \<in> set (gs_lineTaxable (initial_state input)). 0 \<le> x" by (simp add: initial_state_def)
  show "distinct (concat (map snd (group_lines 0 (bi_lines input) [])))" by (rule group_lines_indexes)
  have "i < length (bi_lines input)" if "(g, is) \<in> set (group_lines 0 (bi_lines input) [])" "i \<in> set is" for g "is" i
    using that group_lines_indexes(2) [of "bi_lines input"] by force
  then show "\<forall>(g, is) \<in> set (group_lines 0 (bi_lines input) []).
      \<forall>i \<in> set is. i < length (gs_lineTaxable (initial_state input)) \<and> gs_lineTaxable (initial_state input) ! i = 0"
    by (auto simp: initial_state_def)
qed

lemma length_lineTaxable:
  assumes "discount_steps input b s" "tax_steps input b s"
  shows "length (gs_lineTaxable (bs_state s)) = length (bi_lines input)"
  using bill_state_lines [OF assms] by (auto simp: loop_post_def initial_state_def)

text \<open>A total over the result lines is the sum of the list it was taken from.\<close>

lemma line_totals:
  assumes "discount_steps input b s" "tax_steps input b s"
  shows "map bl_grossAmount (br_lines b) = bs_gross s"
    and "map bl_itemDiscount (br_lines b) = bs_itemDiscounts s"
    and "map bl_billDiscountShare (br_lines b) = bs_billShares s"
    and "map bl_netAmount (br_lines b) = bs_net s"
    and "map bl_taxableValue (br_lines b) = gs_lineTaxable (bs_state s)"
    and "map bl_id (br_lines b) = map bli_id (bi_lines input)"
  using result_line [OF assms(1) _ length_lineTaxable [OF assms]] length_br_lines [OF assms(1)]
    line_gross(1) [OF assms(1)] line_item_discount(1) [OF assms(1)] line_bill_discount(1,4) [OF assms(1)]
    length_lineTaxable [OF assms]
  by (auto intro!: nth_equalityI)

lemma computed_discounts:
  assumes "computeBill input = Inr b"
  shows "list_all2 (\<lambda>line l. bl_id l = bli_id line \<and> bl_taxGroupId l = bli_taxGroupId line \<and>
        bl_grossAmount l = bli_unitPrice line * bli_quantity line \<and>
        0 \<le> bl_itemDiscount l \<and> 0 \<le> bl_billDiscountShare l \<and> 0 \<le> bl_netAmount l \<and>
        bl_netAmount l = bl_grossAmount l - bl_itemDiscount l - bl_billDiscountShare l \<and>
        (bli_complimentary line = Some True \<longrightarrow> bl_netAmount l = 0)) (bi_lines input) (br_lines b) \<and>
    br_subtotal b = sum_list (map bl_grossAmount (br_lines b)) \<and>
    br_itemDiscountTotal b = sum_list (map bl_itemDiscount (br_lines b)) \<and>
    br_billDiscountTotal b = sum_list (map bl_billDiscountShare (br_lines b)) \<and>
    br_discountTotal b = br_itemDiscountTotal b + br_billDiscountTotal b \<and>
    sum_list (map bl_netAmount (br_lines b)) = br_subtotal b - br_discountTotal b"
proof -
  obtain s where d: "discount_steps input b s" and t: "tax_steps input b s"
    using computeBill_steps [OF assms] by blast
  note lines = line_gross [OF d] line_item_discount [OF d] line_bill_discount [OF d]
  note sel = result_line [OF d _ length_lineTaxable [OF d t]]
  have each: "list_all2 (\<lambda>line l. bl_id l = bli_id line \<and> bl_taxGroupId l = bli_taxGroupId line \<and>
        bl_grossAmount l = bli_unitPrice line * bli_quantity line \<and>
        0 \<le> bl_itemDiscount l \<and> 0 \<le> bl_billDiscountShare l \<and> 0 \<le> bl_netAmount l \<and>
        bl_netAmount l = bl_grossAmount l - bl_itemDiscount l - bl_billDiscountShare l \<and>
        (bli_complimentary line = Some True \<longrightarrow> bl_netAmount l = 0)) (bi_lines input) (br_lines b)"
  proof (intro list_all2_all_nthI)
    fix i
    assume i: "i < length (bi_lines input)"
    have "bs_net s ! i = bs_gross s ! i - bs_itemDiscounts s ! i - bs_billShares s ! i"
      using lines(5,9) [OF i] by simp
    then show "bl_id (br_lines b ! i) = bli_id (bi_lines input ! i) \<and>
        bl_taxGroupId (br_lines b ! i) = bli_taxGroupId (bi_lines input ! i) \<and>
        bl_grossAmount (br_lines b ! i) = bli_unitPrice (bi_lines input ! i) * bli_quantity (bi_lines input ! i) \<and>
        0 \<le> bl_itemDiscount (br_lines b ! i) \<and> 0 \<le> bl_billDiscountShare (br_lines b ! i) \<and>
        0 \<le> bl_netAmount (br_lines b ! i) \<and>
        bl_netAmount (br_lines b ! i) = bl_grossAmount (br_lines b ! i) - bl_itemDiscount (br_lines b ! i)
          - bl_billDiscountShare (br_lines b ! i) \<and>
        (bli_complimentary (bi_lines input ! i) = Some True \<longrightarrow> bl_netAmount (br_lines b ! i) = 0)"
      using lines(2) [OF i] lines(4) [OF i] lines(5) [OF i] lines(8) [OF i] by (auto simp: sel [OF i])
  qed (simp add: length_br_lines [OF d])
  have nonneg: "\<And>x. x \<in> set (bs_gross s) \<Longrightarrow> 0 \<le> x" "\<And>x. x \<in> set (bs_itemDiscounts s) \<Longrightarrow> 0 \<le> x"
    using lines(1-4) by (auto simp: in_set_conv_nth)
  have sums: "br_subtotal b = sum_list (bs_gross s)" "isSafeInteger (br_subtotal b)"
      "br_itemDiscountTotal b = sum_list (bs_itemDiscounts s)"
    using d sum_paise_nonneg [OF nonneg(1)] sum_paise_nonneg [OF nonneg(2)]
    by (auto simp: discount_steps_def)
  have diff: "sum_list zs = sum_list xs - sum_list ys"
    if "length xs = length ys" "length zs = length ys" "\<And>i. i < length ys \<Longrightarrow> zs ! i = xs ! i - ys ! i"
    for xs ys zs :: "int list"
    using that by (simp add: sum_list_sum_nth sum_subtractf)
  have after: "sum_list (bs_afterItem s) = br_subtotal b - br_itemDiscountTotal b"
    using diff [of "bs_gross s" "bs_itemDiscounts s" "bs_afterItem s"] lines(1,3,5,6) sums by simp
  have net: "sum_list (bs_net s) = sum_list (bs_afterItem s) - br_billDiscountTotal b"
    using diff [of "bs_afterItem s" "bs_billShares s" "bs_net s"] lines(6,7,9,10,11) by simp
  have "0 \<le> br_itemDiscountTotal b" unfolding sums by (rule sum_list_nonneg_int [OF nonneg(2)])
  then have "0 \<le> br_itemDiscountTotal b + br_billDiscountTotal b"
      "br_itemDiscountTotal b + br_billDiscountTotal b \<le> br_subtotal b"
    using lines(12,13) after by linarith+
  then have "isSafeInteger (br_itemDiscountTotal b + br_billDiscountTotal b)"
    by (rule isSafeInteger_between [OF _ _ sums(2)])
  then have total: "br_discountTotal b = br_itemDiscountTotal b + br_billDiscountTotal b"
    using d by (simp add: discount_steps_def exact)
  show ?thesis
    unfolding line_totals [OF d t]
    by (intro conjI each) (use total net after sums lines(11) in linarith)+
qed

text \<open>
  C8: the discounts of a computed bill. Every result line is its input line, in order, with the
  gross \<open>unitPrice * quantity\<close>, non-negative discounts and a net amount that is the gross less its
  item discount and its share of the bill discount, never negative (and zero on a complimentary
  line). The subtotal and both discount totals are exactly the sums over the lines, and the nets add
  up to the subtotal less all discounts.
\<close>

theorem computeBill_discounts:
  assumes "computeBill input = Inr b"
  shows "list_all2 (\<lambda>line l. bl_id l = bli_id line \<and> bl_taxGroupId l = bli_taxGroupId line \<and>
        bl_grossAmount l = bli_unitPrice line * bli_quantity line \<and>
        0 \<le> bl_itemDiscount l \<and> 0 \<le> bl_billDiscountShare l \<and> 0 \<le> bl_netAmount l \<and>
        bl_netAmount l = bl_grossAmount l - bl_itemDiscount l - bl_billDiscountShare l \<and>
        (bli_complimentary line = Some True \<longrightarrow> bl_netAmount l = 0)) (bi_lines input) (br_lines b) \<and>
    br_subtotal b = sum_list (map bl_grossAmount (br_lines b)) \<and>
    br_itemDiscountTotal b = sum_list (map bl_itemDiscount (br_lines b)) \<and>
    br_billDiscountTotal b = sum_list (map bl_billDiscountShare (br_lines b)) \<and>
    br_discountTotal b = br_itemDiscountTotal b + br_billDiscountTotal b \<and>
    sum_list (map bl_netAmount (br_lines b)) = br_subtotal b - br_discountTotal b"
  by (rule computed_discounts [OF assms])

text \<open>Two groups, a bill discount and a service charge.\<close>

definition gst_18 :: TaxGroup where
  "gst_18 = \<lparr>tg_id = ''g18'', tg_name = ''GST 18'', tg_components =
     [\<lparr>tc_code = ''CGST'', tc_rateBp = 900\<rparr>, \<lparr>tc_code = ''SGST'', tc_rateBp = 900\<rparr>]\<rparr>"

definition sample_line :: "string \<Rightarrow> Paise \<Rightarrow> number \<Rightarrow> string \<Rightarrow> BillLineInput" where
  "sample_line i price quantity tg =
     \<lparr>bli_id = i, bli_unitPrice = price, bli_quantity = quantity, bli_taxGroupId = tg,
      bli_discount = None, bli_complimentary = None\<rparr>"

definition sample_bill :: BillInput where
  "sample_bill =
     \<lparr>bi_priceMode = TAX_EXCLUSIVE,
      bi_lines = [sample_line ''a'' 12345 2 ''g5'', sample_line ''b'' 9999 1 ''g18'', sample_line ''c'' 500 3 ''g5''],
      bi_taxGroups = [gst_5, gst_18], bi_billDiscount = Some (PERCENT 1000),
      bi_serviceCharge = Some \<lparr>sc_rateBp = 500, sc_taxGroupId = ''g18''\<rparr>,
      bi_roundOff = NEAREST 100 None, bi_rounding = None\<rparr>"

text \<open>The bill that was computed, or nothing.\<close>

definition bill_of :: "BillInput \<Rightarrow> BillResult option" where
  "bill_of input = (case computeBill input of Inl _ \<Rightarrow> None | Inr b \<Rightarrow> Some b)"

lemma bill_of_Some: "map_option f (bill_of input) = Some x \<Longrightarrow> \<exists>b. computeBill input = Inr b \<and> f b = x"
  by (auto simp: bill_of_def split: sum.splits)

lemma sample_bill_totals:
  "\<exists>b. computeBill sample_bill = Inr b \<and> br_subtotal b = 36189 \<and> br_totalBeforeRoundOff b = 37291 \<and>
     br_grandTotal b = 37300"
proof -
  have "map_option (\<lambda>b. (br_subtotal b, br_totalBeforeRoundOff b, br_grandTotal b)) (bill_of sample_bill) =
      Some (36189, 37291, 37300)"
    by code_simp
  from bill_of_Some [OF this] show ?thesis by auto
qed

theorem computeBill_discounts_witness:
  "\<exists>b. computeBill sample_bill = Inr b \<and> sum_list (map bl_netAmount (br_lines b)) = 36189 - br_discountTotal b"
proof -
  obtain b where run: "computeBill sample_bill = Inr b" and sub: "br_subtotal b = 36189"
    using sample_bill_totals by blast
  show ?thesis using run sub computeBill_discounts [OF run] by auto
qed

end
