(* ===== verification/Bill_Taxes.thy ===== *)
theory Bill_Taxes
  imports Bill_Totals
begin

text \<open>
  The taxes and the grand total of a computed bill: the tax lines add up, the lines' taxable values
  add up to them group by group, and the total before round-off is exactly taxable value plus tax.
\<close>

section \<open>The results behind the tax lines\<close>

lemma service_charge_Inr:
  assumes "service_charge charge groups it mode = Inr (sc, scg, scl)" "0 \<le> it"
  shows "\<exists>cs. scl = map (\<lambda>(g, r). tax_line g SERVICE_CHARGE r) cs \<and> scg = sum_list (map (gt_grossTotal \<circ> snd) cs) \<and>
    sc = sum_list (map (gt_taxableValue \<circ> snd) cs) \<and> 0 \<le> sc \<and> (charge = None \<longrightarrow> cs = []) \<and>
    (\<forall>(g, r) \<in> set cs. \<exists>a pm. computeGroupTax a g pm mode = Inr r)"
proof (cases charge)
  case None
  with assms(1) show ?thesis by (intro exI [of _ "[]"]) (simp add: service_charge_def)
next
  case (Some c)
  then obtain g r where sc: "applyRate it (sc_rateBp c) mode = Inr sc"
    and r: "computeGroupTax sc g TAX_EXCLUSIVE mode = Inr r"
    and eq: "scg = gt_grossTotal r" "scl = [tax_line g SERVICE_CHARGE r]"
    using assms(1) by (auto simp: service_charge_def results)
  have "gt_taxableValue r = sc" using exclusive_tax_Inr(2) computeGroupTax_Inr(4) [OF r] by blast
  then show ?thesis
    using eq r Some applyRate_nonneg [OF sc assms(2)] by (intro exI [of _ "[(g, r)]"]) auto
qed

lemma group_map_id: "map_of (group_map gs) i = Some g \<Longrightarrow> tg_id g = i \<and> g \<in> set gs"
proof (induction gs arbitrary: g rule: rev_induct)
  case Nil
  then show ?case by (simp add: group_map_def)
next
  case (snoc g' gs)
  have "map_of (group_map (gs @ [g'])) i = (if i = tg_id g' then Some g' else map_of (group_map gs) i)"
    by (simp add: group_map_def)
  with snoc show ?case by (cases "i = tg_id g'") simp_all
qed

lemma group_results_each:
  "group_results pm mode groups net order rs \<Longrightarrow> (g, r) \<in> set rs \<Longrightarrow> \<exists>a. computeGroupTax a g pm mode = Inr r"
  unfolding group_results_def
  by (induction order rs rule: list_all2_induct) auto

text \<open>Running totals of non-negative parts below a safe whole are exact.\<close>

lemma js_total_part:
  assumes "\<And>x. x \<in> set xs \<Longrightarrow> 0 \<le> f x" "sum_list (map f xs) \<le> whole" "isSafeInteger whole"
  shows "js_total 0 (map f xs) = sum_list (map f xs)" "isSafeInteger (sum_list (map f xs))"
proof -
  have "0 \<le> sum_list (map f xs)" using assms(1) by (intro sum_list_nonneg_int) auto
  then show safe: "isSafeInteger (sum_list (map f xs))" using isSafeInteger_between assms(2,3) by blast
  show "js_total 0 (map f xs) = sum_list (map f xs)"
    using js_total_safe [of 0 "map f xs"] assms(1) safe by auto
qed

text \<open>The amounts of the items' and the service charge's tax results, all of them exact.\<close>

definition tax_results ::
  "BillInput \<Rightarrow> BillResult \<Rightarrow> (TaxGroup \<times> GroupTaxResult) list \<Rightarrow> (TaxGroup \<times> GroupTaxResult) list \<Rightarrow> bool" where
  "tax_results input b rs cs \<longleftrightarrow>
     br_taxLines b = map (\<lambda>(g, r). tax_line g ITEMS r) rs @ map (\<lambda>(g, r). tax_line g SERVICE_CHARGE r) cs \<and>
     (\<forall>p \<in> set (rs @ cs). 0 \<le> gt_taxableValue (snd p) \<and> 0 \<le> gt_taxTotal (snd p) \<and>
        (\<forall>c \<in> set (gt_components (snd p)). 0 \<le> tca_amount c) \<and>
        gt_taxableValue (snd p) + gt_taxTotal (snd p) = gt_grossTotal (snd p) \<and>
        sum_list (map tca_amount (gt_components (snd p))) = gt_taxTotal (snd p)) \<and>
     br_totalBeforeRoundOff b = sum_list (map (gt_grossTotal \<circ> snd) (rs @ cs)) \<and>
     br_taxableValueTotal b = sum_list (map (gt_taxableValue \<circ> snd) (rs @ cs)) \<and>
     br_serviceCharge b = sum_list (map (gt_taxableValue \<circ> snd) cs) \<and>
     br_taxTotal b = sum_list (map (gt_taxTotal \<circ> snd) (rs @ cs)) \<and>
     (bi_serviceCharge input = None \<longrightarrow> cs = [])"

lemma bill_tax_results:
  assumes d: "discount_steps input b s" and t: "tax_steps input b s" and safe: "isSafeInteger (br_totalBeforeRoundOff b)"
    and post: "loop_post (bi_priceMode input) (bill_rounding input) (group_map (bi_taxGroups input)) (bs_net s)
       (group_lines 0 (bi_lines input) []) (initial_state input) (bs_state s) rs"
  shows "\<exists>cs. tax_results input b rs cs"
proof -
  let ?gross = "gt_grossTotal \<circ> snd" and ?taxable = "gt_taxableValue \<circ> snd" and ?tax = "gt_taxTotal \<circ> snd"
  have st: "gs_taxLines (bs_state s) = map (\<lambda>(g, r). tax_line g ITEMS r) rs"
    "gs_itemsGross (bs_state s) = js_total 0 (map ?gross rs)"
    "gs_itemsTaxable (bs_state s) = js_total 0 (map ?taxable rs)"
    and results: "group_results (bi_priceMode input) (bill_rounding input) (group_map (bi_taxGroups input)) (bs_net s)
       (group_lines 0 (bi_lines input) []) rs"
    using post by (simp_all add: loop_post_def initial_state_def)
  have run: "\<exists>a pm. computeGroupTax a (fst p) pm (bill_rounding input) = Inr (snd p)" if "p \<in> set rs" for p
    using group_results_each [OF results, of "fst p" "snd p"] that by auto
  have pos: "0 \<le> ?gross p" "0 \<le> ?taxable p" "0 \<le> ?tax p" if "p \<in> set rs" for p
    using run [OF that] group_tax_nonneg by auto
  have it0: "0 \<le> gs_itemsTaxable (bs_state s)" unfolding st using pos by (intro js_total_nonneg) auto
  have sc: "service_charge (bi_serviceCharge input) (group_map (bi_taxGroups input)) (gs_itemsTaxable (bs_state s))
       (bill_rounding input) = Inr (br_serviceCharge b, bs_serviceChargeGross s, bs_chargeLines s)"
    using t by (simp add: tax_steps_def)
  from service_charge_Inr [OF sc it0] obtain cs where cs: "bs_chargeLines s = map (\<lambda>(g, r). tax_line g SERVICE_CHARGE r) cs"
    "bs_serviceChargeGross s = sum_list (map ?gross cs)" "br_serviceCharge b = sum_list (map ?taxable cs)"
    "bi_serviceCharge input = None \<longrightarrow> cs = []"
    and run_cs: "\<forall>(g, r) \<in> set cs. \<exists>a pm. computeGroupTax a g pm (bill_rounding input) = Inr r"
    by (elim exE conjE) (rule that)
  have runs: "\<exists>a pm. computeGroupTax a (fst p) pm (bill_rounding input) = Inr (snd p)" if "p \<in> set (rs @ cs)" for p
    using run run_cs that by (cases p) auto
  have nonneg: "0 \<le> ?gross p" "0 \<le> ?taxable p" "0 \<le> ?tax p" if "p \<in> set (rs @ cs)" for p
    using runs [OF that] group_tax_nonneg by auto
  let ?G = "sum_list (map ?gross (rs @ cs))"
  have whole: "isSafeInteger (gs_itemsGross (bs_state s) + bs_serviceChargeGross s)"
    using safe t by (simp add: tax_steps_def)
  have cs0: "0 \<le> bs_serviceChargeGross s" unfolding cs using nonneg by (intro sum_list_nonneg_int) auto
  have "0 \<le> gs_itemsGross (bs_state s)" unfolding st using pos by (intro js_total_nonneg) auto
  then have ig_safe: "isSafeInteger (gs_itemsGross (bs_state s))"
    using isSafeInteger_between [OF _ _ whole] cs0 by simp
  have "js_total 0 (map ?gross rs) = 0 + sum_list (map ?gross rs)"
    by (rule js_total_exact) (use pos(1) ig_safe st in auto)
  then have ig: "gs_itemsGross (bs_state s) = sum_list (map ?gross rs)" by (simp add: st)
  have G: "isSafeInteger ?G" using whole by (simp add: ig cs(2))
  then have before: "br_totalBeforeRoundOff b = ?G" using t by (simp add: tax_steps_def ig cs(2) exact)
  have adds: "?taxable p + ?tax p = ?gross p" "sum_list (map tca_amount (gt_components (snd p))) = ?tax p"
    if p: "p \<in> set (rs @ cs)" for p
  proof -
    have "isSafeInteger (?gross p)"
      using isSafeInteger_between [OF nonneg(1) [OF p] _ G] sum_list_remove_in [OF p, of ?gross] nonneg(1) by blast
    then show "?taxable p + ?tax p = ?gross p" "sum_list (map tca_amount (gt_components (snd p))) = ?tax p"
      using runs [OF p] group_tax_adds_up by auto
  qed
  have "map ?gross (rs @ cs) = map (\<lambda>p. ?taxable p + ?tax p) (rs @ cs)" using adds(1) by simp
  then have split: "sum_list (map ?taxable (rs @ cs)) + sum_list (map ?tax (rs @ cs)) = ?G"
    by (simp only: sum_list_addf)
  have le: "sum_list (map ?taxable (rs @ cs)) \<le> ?G" "sum_list (map ?tax (rs @ cs)) \<le> ?G"
  proof -
    have "0 \<le> sum_list (map ?tax (rs @ cs))" "0 \<le> sum_list (map ?taxable (rs @ cs))"
      by (rule sum_list_map_nonneg [OF nonneg(3)], assumption) (rule sum_list_map_nonneg [OF nonneg(2)], assumption)
    with split show "sum_list (map ?taxable (rs @ cs)) \<le> ?G" "sum_list (map ?tax (rs @ cs)) \<le> ?G"
      by linarith+
  qed
  have T: "isSafeInteger (sum_list (map ?taxable (rs @ cs)))"
    using js_total_part(2) [of "rs @ cs" ?taxable, OF nonneg(2) le(1) G] by blast
  have "0 \<le> sum_list (map ?taxable cs)" using nonneg by (intro sum_list_nonneg_int) auto
  then have part: "sum_list (map ?taxable rs) \<le> sum_list (map ?taxable (rs @ cs))" by simp
  have it: "gs_itemsTaxable (bs_state s) = sum_list (map ?taxable rs)"
    unfolding st by (rule js_total_part(1) [OF pos(2) part T])
  have tv: "br_taxableValueTotal b = sum_list (map ?taxable (rs @ cs))"
    using t T by (simp add: tax_steps_def it cs(3) exact)
  have lines: "br_taxLines b = map (\<lambda>(g, r). tax_line g ITEMS r) rs @ map (\<lambda>(g, r). tax_line g SERVICE_CHARGE r) cs"
    using t st(1) cs(1) by (simp add: tax_steps_def)
  have taxes: "map tl_taxTotal (br_taxLines b) = map ?tax (rs @ cs)"
    unfolding lines by (simp add: tax_line_def case_prod_beta o_def)
  have "sum_paise (map ?tax (rs @ cs)) = Inr (br_taxTotal b)" using t taxes by (simp add: tax_steps_def)
  then have tt: "br_taxTotal b = sum_list (map ?tax (rs @ cs))"
    using sum_paise_nonneg [of "map ?tax (rs @ cs)" "br_taxTotal b"] nonneg(3) unfolding set_map by blast
  have comps: "\<forall>c \<in> set (gt_components (snd p)). 0 \<le> tca_amount c" if "p \<in> set (rs @ cs)" for p
    using runs [OF that] group_tax_nonneg(4) by fastforce
  have each: "\<forall>p \<in> set (rs @ cs). 0 \<le> gt_taxableValue (snd p) \<and> 0 \<le> gt_taxTotal (snd p) \<and>
        (\<forall>c \<in> set (gt_components (snd p)). 0 \<le> tca_amount c) \<and>
        gt_taxableValue (snd p) + gt_taxTotal (snd p) = gt_grossTotal (snd p) \<and>
        sum_list (map tca_amount (gt_components (snd p))) = gt_taxTotal (snd p)"
    using nonneg(2,3) comps adds unfolding o_apply by blast
  show ?thesis
    unfolding tax_results_def by (intro exI [of _ cs] conjI lines each before tv cs tt)
qed

lemma computeBill_tax_results:
  assumes "computeBill input = Inr b" "isSafeInteger (br_totalBeforeRoundOff b)"
  shows "\<exists>s rs cs. discount_steps input b s \<and> tax_steps input b s \<and> tax_results input b rs cs \<and>
    loop_post (bi_priceMode input) (bill_rounding input) (group_map (bi_taxGroups input)) (bs_net s)
      (group_lines 0 (bi_lines input) []) (initial_state input) (bs_state s) rs"
  using computeBill_steps [OF assms(1)] bill_state_lines bill_tax_results assms(2) by blast

section \<open>Tax lines and line taxable values\<close>

text \<open>The taxable values of one group's lines against the tax lines of that group.\<close>

lemma group_results_ids:
  "group_results pm mode (group_map gs) net order rs \<Longrightarrow> list_all2 (\<lambda>p q. tg_id (fst q) = fst p) order rs"
  unfolding group_results_def by (rule list_all2_mono, assumption) (auto dest: group_map_id)

lemma sum_selected:
  assumes "list_all2 (\<lambda>p q. tg_id (fst q) = fst p) order rs"
  shows "sum_list (map2 (\<lambda>(gid, is) (_, r). if gid = k then gt_taxableValue r else 0) order rs) =
    sum_list (map tl_taxableValue (filter (\<lambda>l. tl_taxGroupId l = k) (map (\<lambda>(g, r). tax_line g ITEMS r) rs)))"
  using assms by (induction order rs rule: list_all2_induct) (auto simp: tax_line_def)

lemma sum_all:
  assumes "list_all2 (\<lambda>p q. tg_id (fst q) = fst p) order rs"
  shows "sum_list (map2 (\<lambda>(gid, is) (_, r). gt_taxableValue r) order rs) = sum_list (map (gt_taxableValue \<circ> snd) rs)"
  using assms by (induction order rs rule: list_all2_induct) auto

lemma sum_filter_total_at:
  assumes "length xs = length ys"
  shows "sum_list (map snd (filter (\<lambda>p. P (fst p)) (zip xs ys))) = total_at (\<lambda>i. P (xs ! i)) ys"
  using assms
proof (induction xs ys rule: rev_induct2)
  case (4 x xs y ys)
  then have IH: "sum_list (map snd (filter (\<lambda>p. P (fst p)) (zip xs ys))) = total_at (\<lambda>i. P (xs ! i)) ys" by simp
  have "(\<Sum>i<length ys. if P ((xs @ [x]) ! i) then (ys @ [y]) ! i else 0) = total_at (\<lambda>i. P (xs ! i)) ys"
    unfolding total_at_def using 4 by (intro sum.cong) (auto simp: nth_append)
  then have "total_at (\<lambda>i. P ((xs @ [x]) ! i)) (ys @ [y]) = total_at (\<lambda>i. P (xs ! i)) ys + (if P x then y else 0)"
    using 4 by (simp add: total_at_def [of _ "ys @ [y]"] nth_append)
  with IH 4 show ?case by simp
qed (simp_all add: total_at_def)

lemma filter_lines:
  "sum_list (map bl_taxableValue (filter (\<lambda>l. bl_taxGroupId l = k) ls)) =
   sum_list (map snd (filter (\<lambda>p. fst p = k) (zip (map bl_taxGroupId ls) (map bl_taxableValue ls))))"
  by (induction ls) auto

lemma computed_taxes:
  assumes "computeBill input = Inr b" "isSafeInteger (br_totalBeforeRoundOff b)"
  shows "(\<forall>k. sum_list (map bl_taxableValue (filter (\<lambda>l. bl_taxGroupId l = k) (br_lines b))) =
      sum_list (map tl_taxableValue (filter (\<lambda>l. tl_source l = ITEMS \<and> tl_taxGroupId l = k) (br_taxLines b)))) \<and>
    (\<forall>l \<in> set (br_lines b). 0 \<le> bl_taxableValue l) \<and>
    (\<forall>l \<in> set (br_taxLines b). sum_list (map tca_amount (tl_components l)) = tl_taxTotal l) \<and>
    br_taxableValueTotal b = sum_list (map tl_taxableValue (br_taxLines b)) \<and>
    br_taxTotal b = sum_list (map tl_taxTotal (br_taxLines b)) \<and>
    br_taxableValueTotal b = sum_list (map bl_taxableValue (br_lines b)) + br_serviceCharge b"
proof -
  obtain s rs cs where d: "discount_steps input b s" and t: "tax_steps input b s" and r: "tax_results input b rs cs"
    and post: "loop_post (bi_priceMode input) (bill_rounding input) (group_map (bi_taxGroups input)) (bs_net s)
      (group_lines 0 (bi_lines input) []) (initial_state input) (bs_state s) rs"
    using computeBill_tax_results [OF assms] by blast
  let ?order = "group_lines 0 (bi_lines input) []" and ?lt = "gs_lineTaxable (bs_state s)"
  have lt: "length ?lt = length (bi_lines input)" "\<forall>x \<in> set ?lt. 0 \<le> x"
    using post by (simp_all add: loop_post_def initial_state_def)
  have lines: "br_taxLines b = map (\<lambda>(g, r). tax_line g ITEMS r) rs @ map (\<lambda>(g, r). tax_line g SERVICE_CHARGE r) cs"
    using r by (simp add: tax_results_def)
  have ids: "list_all2 (\<lambda>p q. tg_id (fst q) = fst p) ?order rs"
    using post group_results_ids by (auto simp: loop_post_def)
  have zero: "total_at P (replicate n 0) = 0" for P n by (auto simp: total_at_def intro!: sum.neutral)
  have sel: "total_at P ?lt = sum_list (map2 (\<lambda>(gid, is) (_, r). if Q gid then gt_taxableValue r else 0) ?order rs)"
    if "\<And>g is i. (g, is) \<in> set ?order \<Longrightarrow> i \<in> set is \<Longrightarrow> P i = Q g" for P Q
    using loop_post_total [OF post, of P Q] that zero by (auto simp: initial_state_def)
  have groups: "map bl_taxGroupId (br_lines b) = map bli_taxGroupId (bi_lines input)"
    using result_line(4) [OF d _ lt(1)] length_br_lines [OF d] by (intro nth_equalityI) auto
  have member: "bli_taxGroupId (bi_lines input ! i) = g" if "(g, is) \<in> set ?order" "i \<in> set is" for g "is" i
    using group_lines_group [of "[]" "[]" g "is" "bi_lines input" i] that by simp
  have items: "filter (\<lambda>l. tl_source l = ITEMS \<and> tl_taxGroupId l = k) (br_taxLines b) =
      filter (\<lambda>l. tl_taxGroupId l = k) (map (\<lambda>(g, r). tax_line g ITEMS r) rs)" for k
    unfolding lines by (auto simp: tax_line_def filter_map o_def case_prod_beta filter_empty_conv)
  have by_group: "sum_list (map bl_taxableValue (filter (\<lambda>l. bl_taxGroupId l = k) (br_lines b))) =
      sum_list (map tl_taxableValue (filter (\<lambda>l. tl_source l = ITEMS \<and> tl_taxGroupId l = k) (br_taxLines b)))" for k
  proof -
    have "sum_list (map bl_taxableValue (filter (\<lambda>l. bl_taxGroupId l = k) (br_lines b))) =
        total_at (\<lambda>i. map bli_taxGroupId (bi_lines input) ! i = k) ?lt"
      unfolding filter_lines groups line_totals(5) [OF d t] using lt(1) by (intro sum_filter_total_at) simp
    also have "\<dots> = total_at (\<lambda>i. i < length (bi_lines input) \<and> bli_taxGroupId (bi_lines input ! i) = k) ?lt"
      unfolding total_at_def using lt(1) by (intro sum.cong) auto
    also have "\<dots> = sum_list (map2 (\<lambda>(gid, is) (_, r). if gid = k then gt_taxableValue r else 0) ?order rs)"
    proof (rule sel)
      fix g "is" i
      assume i: "(g, is) \<in> set ?order" "i \<in> set is"
      then have "i < length (bi_lines input)" using group_lines_indexes(2) [of "bi_lines input"] by force
      with member [OF i] show "(i < length (bi_lines input) \<and> bli_taxGroupId (bi_lines input ! i) = k) = (g = k)"
        by simp
    qed
    finally show ?thesis unfolding items sum_selected [OF ids] .
  qed
  have "total_at (\<lambda>_. True) ?lt = sum_list (map2 (\<lambda>(gid, is) (_, r). gt_taxableValue r) ?order rs)"
    using sel [of "\<lambda>_. True" "\<lambda>_. True"] by simp
  also have "\<dots> = sum_list (map (gt_taxableValue \<circ> snd) rs)"
    by (rule sum_all [OF ids])
  finally have all: "sum_list (map bl_taxableValue (br_lines b)) = sum_list (map (gt_taxableValue \<circ> snd) rs)"
    by (simp add: total_at_all line_totals(5) [OF d t])
  have nonneg: "\<forall>l \<in> set (br_lines b). 0 \<le> bl_taxableValue l"
    using lt(2) line_totals(5) [OF d t] by (metis image_eqI set_map)
  have sums: "map tl_taxableValue (br_taxLines b) = map (gt_taxableValue \<circ> snd) (rs @ cs)"
    "map tl_taxTotal (br_taxLines b) = map (gt_taxTotal \<circ> snd) (rs @ cs)"
    unfolding lines by (simp_all add: tax_line_def case_prod_beta o_def)
  have comps: "\<forall>l \<in> set (br_taxLines b). sum_list (map tca_amount (tl_components l)) = tl_taxTotal l"
  proof -
    have each: "\<forall>p \<in> set (rs @ cs). sum_list (map tca_amount (gt_components (snd p))) = gt_taxTotal (snd p)"
      using r unfolding tax_results_def by blast
    have "sum_list (map tca_amount (gt_components r)) = gt_taxTotal r"
      if "(g, r) \<in> set rs \<or> (g, r) \<in> set cs" for g r
    proof -
      have "(g, r) \<in> set (rs @ cs)" using that by simp
      from bspec [OF each this] show ?thesis by simp
    qed
    then show ?thesis unfolding lines by (auto simp: tax_line_def; blast)
  qed
  have totals: "br_taxableValueTotal b = sum_list (map (gt_taxableValue \<circ> snd) (rs @ cs))"
      "br_serviceCharge b = sum_list (map (gt_taxableValue \<circ> snd) cs)"
      "br_taxTotal b = sum_list (map (gt_taxTotal \<circ> snd) (rs @ cs))"
    using r unfolding tax_results_def by blast+
  show ?thesis
    unfolding sums totals all by (intro conjI allI by_group nonneg comps refl) simp
qed

text \<open>
  C1: the taxes of a computed bill whose total is a safe integer. For every tax group the lines'
  taxable values, none of them negative, add up exactly to the taxable value of the group's tax
  line, so item-wise reports agree with the invoice's tax summary; each tax line's components add up
  to its tax; the bill's taxable value and tax are the sums over the tax lines.
\<close>

theorem computeBill_taxes:
  assumes "computeBill input = Inr b" "isSafeInteger (br_totalBeforeRoundOff b)"
  shows "(\<forall>k. sum_list (map bl_taxableValue (filter (\<lambda>l. bl_taxGroupId l = k) (br_lines b))) =
      sum_list (map tl_taxableValue (filter (\<lambda>l. tl_source l = ITEMS \<and> tl_taxGroupId l = k) (br_taxLines b)))) \<and>
    (\<forall>l \<in> set (br_lines b). 0 \<le> bl_taxableValue l) \<and>
    (\<forall>l \<in> set (br_taxLines b). sum_list (map tca_amount (tl_components l)) = tl_taxTotal l) \<and>
    br_taxableValueTotal b = sum_list (map tl_taxableValue (br_taxLines b)) \<and>
    br_taxTotal b = sum_list (map tl_taxTotal (br_taxLines b)) \<and>
    br_taxableValueTotal b = sum_list (map bl_taxableValue (br_lines b)) + br_serviceCharge b"
  by (rule computed_taxes [OF assms])

theorem computeBill_taxes_witness:
  "\<exists>b. computeBill sample_bill = Inr b \<and> isSafeInteger (br_totalBeforeRoundOff b) \<and>
     br_taxTotal b = sum_list (map tl_taxTotal (br_taxLines b))"
proof -
  obtain b where run: "computeBill sample_bill = Inr b" and "br_totalBeforeRoundOff b = 37291"
    using sample_bill_totals by blast
  then have safe: "isSafeInteger (br_totalBeforeRoundOff b)" by simp
  show ?thesis using run safe computeBill_taxes [OF run safe] by blast
qed

section \<open>The grand total\<close>

lemma round_off_bounds:
  assumes "round_off_total (NEAREST u m) x = Inr y" "isSafeInteger y"
  shows "u dvd y" "\<bar>y - x\<bar> < u"
    and "m \<in> {None, Some HALF_UP, Some HALF_EVEN} \<Longrightarrow> 2 * \<bar>y - x\<bar> \<le> u"
proof -
  let ?mode = "case m of None \<Rightarrow> HALF_UP | Some k \<Rightarrow> k"
  have run: "roundToUnit x u ?mode = Inr y" using assms(1) by (simp add: round_off_total_def)
  have y: "y = rounded_quotient x u ?mode * u" by (rule roundToUnit_safe [OF run assms(2)])
  have u: "0 < u" using run by (simp add: roundToUnit_Inr)
  show "u dvd y" by (simp add: y)
  show "\<bar>y - x\<bar> < u" unfolding y by (rule rounded_quotient_error(1) [OF u])
  show "2 * \<bar>y - x\<bar> \<le> u" if "m \<in> {None, Some HALF_UP, Some HALF_EVEN}"
    unfolding y by (rule rounded_quotient_error(2) [OF u]) (use that in auto)
qed

lemma sum_concat: "sum_list (concat xss) = (sum_list (map sum_list xss) :: int)"
  by (induction xss) auto

text \<open>The items' gross: the net total with prices including tax, and its taxable value without.\<close>

lemma items_total:
  assumes d: "discount_steps input b s"
    and post: "loop_post pm mode groups (bs_net s) (group_lines 0 (bi_lines input) []) st st' rs"
  shows "pm = TAX_INCLUSIVE \<Longrightarrow> sum_list (map (gt_grossTotal \<circ> snd) rs) = sum_list (bs_net s)"
    and "pm = TAX_EXCLUSIVE \<Longrightarrow> sum_list (map (gt_taxableValue \<circ> snd) rs) = sum_list (bs_net s)"
proof -
  let ?order = "group_lines 0 (bi_lines input) []"
  have results: "group_results pm mode groups (bs_net s) ?order rs" using post by (simp add: loop_post_def)
  have len: "length (bs_net s) = length (bi_lines input)" by (rule line_bill_discount(4) [OF d])
  have "mset (concat (map snd ?order)) = mset [0..<length (bs_net s)]"
    using group_lines_mset [of 0 "bi_lines input" "[]"] len by simp
  then have "sum_list (map (\<lambda>i. nth_or (bs_net s) i 0) (concat (map snd ?order))) =
      sum_list (map (\<lambda>i. nth_or (bs_net s) i 0) [0..<length (bs_net s)])"
    by (metis mset_map sum_mset_sum_list)
  also have "map (\<lambda>i. nth_or (bs_net s) i 0) [0..<length (bs_net s)] = bs_net s"
    by (auto intro: nth_equalityI)
  finally have total: "sum_list (map (\<lambda>p. sum_list (map (\<lambda>i. nth_or (bs_net s) i 0) (snd p))) ?order) = sum_list (bs_net s)"
    by (simp add: map_concat sum_concat o_def)
  have each: "list_all2 (\<lambda>p q. computeGroupTax (sum_list (map (\<lambda>i. nth_or (bs_net s) i 0) (snd p))) (fst q) pm mode = Inr (snd q)) ?order rs"
    using results unfolding group_results_def by (rule list_all2_mono) auto
  have sums: "sum_list (map f rs) = sum_list (map (\<lambda>p. sum_list (map (\<lambda>i. nth_or (bs_net s) i 0) (snd p))) ?order)"
    if f: "\<And>a q. computeGroupTax a (fst q) pm mode = Inr (snd q) \<Longrightarrow> f q = a" for f
    using each by (induction rule: list_all2_induct) (auto dest: f)
  show "sum_list (map (gt_grossTotal \<circ> snd) rs) = sum_list (bs_net s)" if pm: "pm = TAX_INCLUSIVE"
    unfolding total [symmetric]
    by (rule sums) (use inclusive_tax_Inr(1) computeGroupTax_Inr pm in \<open>metis o_apply\<close>)
  show "sum_list (map (gt_taxableValue \<circ> snd) rs) = sum_list (bs_net s)" if pm: "pm = TAX_EXCLUSIVE"
    unfolding total [symmetric]
    by (rule sums) (use exclusive_tax_Inr(2) computeGroupTax_Inr(4) pm in \<open>metis o_apply\<close>)
qed

lemma computed_total:
  assumes "computeBill input = Inr b"
    and "isSafeInteger (br_totalBeforeRoundOff b)" "isSafeInteger (br_grandTotal b)"
  shows "br_totalBeforeRoundOff b = br_taxableValueTotal b + br_taxTotal b \<and>
    0 \<le> br_totalBeforeRoundOff b \<and>
    (bi_serviceCharge input = None \<longrightarrow>
       (case bi_priceMode input of
          TAX_INCLUSIVE \<Rightarrow> br_totalBeforeRoundOff b = sum_list (map bl_netAmount (br_lines b))
        | TAX_EXCLUSIVE \<Rightarrow> br_taxableValueTotal b = sum_list (map bl_netAmount (br_lines b)))) \<and>
    br_grandTotal b = br_totalBeforeRoundOff b + br_roundOff b \<and>
    (case bi_roundOff input of
       NO_ROUND_OFF \<Rightarrow> br_roundOff b = 0
     | NEAREST u m \<Rightarrow> u dvd br_grandTotal b \<and> \<bar>br_roundOff b\<bar> < u \<and>
         (m \<in> {None, Some HALF_UP, Some HALF_EVEN} \<longrightarrow> 2 * \<bar>br_roundOff b\<bar> \<le> u))"
proof -
  obtain s rs cs where d: "discount_steps input b s" and t: "tax_steps input b s" and r: "tax_results input b rs cs"
    and post: "loop_post (bi_priceMode input) (bill_rounding input) (group_map (bi_taxGroups input)) (bs_net s)
      (group_lines 0 (bi_lines input) []) (initial_state input) (bs_state s) rs"
    using computeBill_tax_results [OF assms(1,2)] by blast
  have adds: "\<forall>p \<in> set (rs @ cs). gt_taxableValue (snd p) + gt_taxTotal (snd p) = gt_grossTotal (snd p)"
    and pos: "\<forall>p \<in> set (rs @ cs). 0 \<le> gt_taxableValue (snd p) \<and> 0 \<le> gt_taxTotal (snd p)"
    and totals: "br_totalBeforeRoundOff b = sum_list (map (gt_grossTotal \<circ> snd) (rs @ cs))"
      "br_taxableValueTotal b = sum_list (map (gt_taxableValue \<circ> snd) (rs @ cs))"
      "br_taxTotal b = sum_list (map (gt_taxTotal \<circ> snd) (rs @ cs))"
      "bi_serviceCharge input = None \<longrightarrow> cs = []"
    using r unfolding tax_results_def by blast+
  have "map (gt_grossTotal \<circ> snd) (rs @ cs) = map (\<lambda>p. (gt_taxableValue \<circ> snd) p + (gt_taxTotal \<circ> snd) p) (rs @ cs)"
    using adds by (intro map_cong) auto
  then have whole: "br_totalBeforeRoundOff b = br_taxableValueTotal b + br_taxTotal b"
    unfolding totals(1-3) by (simp only: sum_list_addf)
  have nonneg: "0 \<le> br_taxableValueTotal b" "0 \<le> br_taxTotal b"
    unfolding totals by (rule sum_list_map_nonneg; use pos in simp)+
  have plain: "case bi_priceMode input of
        TAX_INCLUSIVE \<Rightarrow> br_totalBeforeRoundOff b = sum_list (map bl_netAmount (br_lines b))
      | TAX_EXCLUSIVE \<Rightarrow> br_taxableValueTotal b = sum_list (map bl_netAmount (br_lines b))"
    if "bi_serviceCharge input = None"
    using items_total [OF d post] totals that by (simp add: line_totals(4) [OF d t] split: PriceMode.split)
  have run: "round_off_total (bi_roundOff input) (br_totalBeforeRoundOff b) = Inr (br_grandTotal b)"
    and off: "br_roundOff b = js_sub (br_grandTotal b) (br_totalBeforeRoundOff b)"
    using t unfolding tax_steps_def by blast+
  have grand: "0 \<le> br_grandTotal b"
  proof (cases "bi_roundOff input")
    case NO_ROUND_OFF
    with run whole nonneg show ?thesis by (simp add: round_off_total_def)
  next
    case (NEAREST u m)
    with run have go: "roundToUnit (br_totalBeforeRoundOff b) u (case m of None \<Rightarrow> HALF_UP | Some k \<Rightarrow> k) = Inr (br_grandTotal b)"
      by (simp add: round_off_total_def)
    then have "0 < u" by (simp add: roundToUnit_Inr)
    then show ?thesis
      using roundToUnit_safe [OF go assms(3)] whole nonneg by (simp add: rounded_quotient_nonneg)
  qed
  have "isSafeInteger (br_grandTotal b - br_totalBeforeRoundOff b)"
    using isSafeInteger_diff_nonneg [OF grand _ assms(3,2)] whole nonneg by simp
  then have roundOff: "br_roundOff b = br_grandTotal b - br_totalBeforeRoundOff b" using off by (simp add: exact)
  have rule: "case bi_roundOff input of
       NO_ROUND_OFF \<Rightarrow> br_roundOff b = 0
     | NEAREST u m \<Rightarrow> u dvd br_grandTotal b \<and> \<bar>br_roundOff b\<bar> < u \<and>
         (m \<in> {None, Some HALF_UP, Some HALF_EVEN} \<longrightarrow> 2 * \<bar>br_roundOff b\<bar> \<le> u)"
  proof (cases "bi_roundOff input")
    case NO_ROUND_OFF
    with run roundOff show ?thesis by (simp add: round_off_total_def)
  next
    case (NEAREST u m)
    with run have "round_off_total (NEAREST u m) (br_totalBeforeRoundOff b) = Inr (br_grandTotal b)" by simp
    from round_off_bounds [OF this assms(3)] show ?thesis unfolding roundOff NEAREST by simp
  qed
  show ?thesis using whole nonneg plain roundOff rule by simp
qed

text \<open>
  C2: the total of a computed bill whose totals are safe integers. Before round-off it is exactly
  taxable value plus tax; without a service charge the discounted subtotal is the total before
  round-off when prices include tax, and the taxable value when they do not. The grand total is that
  total plus the round-off, which is zero without a rule, and otherwise reaches a multiple of the
  rule's unit, less than a unit away (at most half of one for the nearest modes).
\<close>

theorem computeBill_total:
  assumes "computeBill input = Inr b"
    and "isSafeInteger (br_totalBeforeRoundOff b)" "isSafeInteger (br_grandTotal b)"
  shows "br_totalBeforeRoundOff b = br_taxableValueTotal b + br_taxTotal b \<and>
    0 \<le> br_totalBeforeRoundOff b \<and>
    (bi_serviceCharge input = None \<longrightarrow>
       (case bi_priceMode input of
          TAX_INCLUSIVE \<Rightarrow> br_totalBeforeRoundOff b = sum_list (map bl_netAmount (br_lines b))
        | TAX_EXCLUSIVE \<Rightarrow> br_taxableValueTotal b = sum_list (map bl_netAmount (br_lines b)))) \<and>
    br_grandTotal b = br_totalBeforeRoundOff b + br_roundOff b \<and>
    (case bi_roundOff input of
       NO_ROUND_OFF \<Rightarrow> br_roundOff b = 0
     | NEAREST u m \<Rightarrow> u dvd br_grandTotal b \<and> \<bar>br_roundOff b\<bar> < u \<and>
         (m \<in> {None, Some HALF_UP, Some HALF_EVEN} \<longrightarrow> 2 * \<bar>br_roundOff b\<bar> \<le> u))"
  by (rule computed_total [OF assms])

theorem computeBill_total_witness:
  "\<exists>b. computeBill sample_bill = Inr b \<and> br_grandTotal b = 37300 \<and> br_grandTotal b = br_totalBeforeRoundOff b + br_roundOff b"
proof -
  obtain b where run: "computeBill sample_bill = Inr b" and b: "br_totalBeforeRoundOff b = 37291" "br_grandTotal b = 37300"
    using sample_bill_totals by blast
  then have safe: "isSafeInteger (br_totalBeforeRoundOff b)" "isSafeInteger (br_grandTotal b)" by simp_all
  show ?thesis using run b computeBill_total [OF run safe] by blast
qed

lemma computed_grand_nonneg:
  assumes "computeBill input = Inr b"
    and "isSafeInteger (br_totalBeforeRoundOff b)" "isSafeInteger (br_grandTotal b)"
  shows "0 \<le> br_grandTotal b"
proof -
  note c = computed_total [OF assms]
  obtain s where "tax_steps input b s" using computeBill_steps [OF assms(1)] by blast
  then have run: "round_off_total (bi_roundOff input) (br_totalBeforeRoundOff b) = Inr (br_grandTotal b)"
    unfolding tax_steps_def by blast
  show ?thesis
  proof (cases "bi_roundOff input")
    case NO_ROUND_OFF
    with c show ?thesis by simp
  next
    case (NEAREST u m)
    with run have go: "roundToUnit (br_totalBeforeRoundOff b) u (case m of None \<Rightarrow> HALF_UP | Some k \<Rightarrow> k) = Inr (br_grandTotal b)"
      by (simp add: round_off_total_def)
    then have "0 < u" by (simp add: roundToUnit_Inr)
    then show ?thesis using roundToUnit_safe [OF go assms(3)] c by (simp add: rounded_quotient_nonneg)
  qed
qed

section \<open>One tax line per group\<close>

lemma filter_same_key: "distinct (map f xs) \<Longrightarrow> x \<in> set xs \<Longrightarrow> filter (\<lambda>y. f y = f x) xs = [x]"
proof (induction xs)
  case Nil
  then show ?case by simp
next
  case (Cons y ys)
  show ?case
  proof (cases "x = y")
    case True
    have "f y \<notin> f ` set ys" using Cons.prems(1) by simp
    then have "filter (\<lambda>z. f z = f y) ys = []" unfolding filter_empty_conv by (metis image_eqI)
    with True show ?thesis by simp
  next
    case False
    then have "x \<in> set ys" "f y \<noteq> f x" using Cons.prems by auto
    with Cons show ?thesis by simp
  qed
qed

lemma item_tax_lines:
  assumes "computeBill input = Inr b" "isSafeInteger (br_totalBeforeRoundOff b)"
  shows "distinct (map tl_taxGroupId (filter (\<lambda>l. tl_source l = ITEMS) (br_taxLines b)))"
proof -
  obtain s rs cs where r: "tax_results input b rs cs"
    and post: "loop_post (bi_priceMode input) (bill_rounding input) (group_map (bi_taxGroups input)) (bs_net s)
      (group_lines 0 (bi_lines input) []) (initial_state input) (bs_state s) rs"
    using computeBill_tax_results [OF assms] by blast
  have ids: "list_all2 (\<lambda>p q. tg_id (fst q) = fst p) (group_lines 0 (bi_lines input) []) rs"
    using post group_results_ids by (auto simp: loop_post_def)
  have keys: "map (\<lambda>q. tg_id (fst q)) rs = map fst order" if "list_all2 (\<lambda>p q. tg_id (fst q) = fst p) order rs" for order
    using that by (induction rule: list_all2_induct) auto
  have "br_taxLines b = map (\<lambda>(g, r). tax_line g ITEMS r) rs @ map (\<lambda>(g, r). tax_line g SERVICE_CHARGE r) cs"
    using r by (simp add: tax_results_def)
  moreover have "filter (\<lambda>l. tl_source l = ITEMS) (map (\<lambda>(g, r). tax_line g ITEMS r) rs) = map (\<lambda>(g, r). tax_line g ITEMS r) rs"
    by (induction rs) (auto simp: tax_line_def)
  moreover have "filter (\<lambda>l. tl_source l = ITEMS) (map (\<lambda>(g, r). tax_line g SERVICE_CHARGE r) cs) = []"
    by (induction cs) (auto simp: tax_line_def)
  ultimately have "filter (\<lambda>l. tl_source l = ITEMS) (br_taxLines b) = map (\<lambda>(g, r). tax_line g ITEMS r) rs"
    by simp
  then have "map tl_taxGroupId (filter (\<lambda>l. tl_source l = ITEMS) (br_taxLines b)) = map (\<lambda>q. tg_id (fst q)) rs"
    by (simp add: tax_line_def case_prod_beta)
  then show ?thesis using group_lines_keys [of "[]" 0 "bi_lines input"] keys [OF ids] by simp
qed

end
