(* ===== verification/Bill_Split_Totals.thy ===== *)
theory Bill_Split_Totals
  imports Bill_Split
begin

text \<open>
  The parts of a split bill add up to the bill. A list of parts is a list of columns; \<open>grid f\<close> totals
  \<open>f\<close> over all entries of all columns, and each loop adds exactly the bill's amount to it.
\<close>

section \<open>Columns\<close>

definition grid :: "('a \<Rightarrow> int) \<Rightarrow> 'a list list \<Rightarrow> int" where
  "grid f parts = sum_list (map (\<lambda>xs. sum_list (map f xs)) parts)"

definition entry_total :: "('a \<Rightarrow> int) \<Rightarrow> 'a option list \<Rightarrow> int" where
  "entry_total f es = sum_list (map (\<lambda>e. case e of None \<Rightarrow> 0 | Some x \<Rightarrow> f x) es)"

lemma length_push_each [simp]: "length (push_each parts es) = min (length parts) (length es)"
  by (simp add: push_each_def)

lemma grid_push_each:
  assumes "length es = length parts"
  shows "grid f (push_each parts es) = grid f parts + entry_total f es"
  using assms
  by (induction es parts rule: list_induct2)
    (auto simp: push_each_def grid_def entry_total_def split: option.splits)

lemma push_each_all:
  assumes "\<forall>xs \<in> set parts. \<forall>x \<in> set xs. P x" "\<forall>e \<in> set es. \<forall>x. e = Some x \<longrightarrow> P x"
  shows "\<forall>xs \<in> set (push_each parts es). \<forall>x \<in> set xs. P x"
  using assms by (auto simp: push_each_def set_zip split: option.splits)

lemma grid_empty [simp]: "grid f (map (\<lambda>_. []) xs) = 0"
  by (induction xs) (simp_all add: grid_def)

lemma sum_upt_nth: "n = length xs \<Longrightarrow> sum_list (map (\<lambda>p. nth_or xs p 0) [0..<n]) = (sum_list xs :: int)"
  by (simp add: sum_list_sum_nth atLeast0LessThan)

section \<open>Spreading\<close>

lemma spread_Inr:
  assumes "spread a ws fb = Inr ps" "length fb = length ws"
  shows "length ps = length ws" "sum_list ps = a" "\<forall>p \<in> set ps. 0 \<le> p"
proof -
  have "length ps = length ws \<and> sum_list ps = a \<and> (\<forall>p \<in> set ps. 0 \<le> p)"
  proof (cases "a = 0")
    case True
    with assms show ?thesis by (auto simp: spread_def map_replicate_const sum_list_replicate)
  next
    case False
    with assms obtain us where "allocate a us = Inr ps" "length us = length ws"
      by (auto simp: spread_def results)
    then show ?thesis using allocate.alloc_length allocate.alloc_sum allocate.alloc_nonneg by metis
  qed
  then show "length ps = length ws" "sum_list ps = a" "\<forall>p \<in> set ps. 0 \<le> p" by blast+
qed

lemma spreadSigned_Inr:
  assumes "spreadSigned a ws fb = Inr ps" "length fb = length ws"
  shows "length ps = length ws" "sum_list ps = a" "p \<in> set ps \<Longrightarrow> (0 \<le> a \<and> 0 \<le> p \<and> p \<le> a) \<or> (p \<le> 0 \<and> a \<le> p)"
proof -
  obtain qs where qs: "spread \<bar>a\<bar> ws fb = Inr qs" and ps: "ps = (if a < 0 then map (\<lambda>part. - part) qs else qs)"
    using assms(1) by (auto simp: spreadSigned_def results)
  note q = spread_Inr [OF qs assms(2)]
  have neg: "sum_list (map (\<lambda>part. - part) qs) = - sum_list qs" by (induction qs) auto
  show "length ps = length ws" "sum_list ps = a" using ps q neg by auto
  have le: "x \<le> \<bar>a\<bar>" if "x \<in> set qs" for x
    using member_le_sum_list_int [of qs x] that q by auto
  show "(0 \<le> a \<and> 0 \<le> p \<and> p \<le> a) \<or> (p \<le> 0 \<and> a \<le> p)" if "p \<in> set ps"
    using that ps q(3) le by (cases "a < 0") fastforce+
qed

lemma length_positive_or: "length xs = n \<Longrightarrow> length ys = n \<Longrightarrow> length (positive_or xs ys) = n"
  by (simp add: positive_or_def)

section \<open>The lines\<close>

text \<open>Leaving out the parts of no weight loses nothing of an allocated amount.\<close>

lemma allocated_entries:
  assumes "allocate a ws = Inr ps"
  shows "sum_list (map (\<lambda>(w, p). if w = 0 then 0 else nth_or ps p 0) (zip ws [0..<length ws])) = a"
proof -
  have len: "length ps = length ws" by (rule allocate.alloc_length [OF assms])
  have "map (\<lambda>(w, p). if w = 0 then 0 else nth_or ps p 0) (zip ws [0..<length ws]) = ps"
    using len allocate.alloc_zero [OF assms] by (intro nth_equalityI) auto
  then show ?thesis using allocate.alloc_sum [OF assms] by simp
qed

lemma sum_list_zeros [simp]: "sum_list (map (\<lambda>(a, b). 0) xs) = (0 :: int)"
  by (induction xs) auto

lemma split_line_Inr:
  assumes "split_line line ws = Inr es"
  shows "length es = length ws"
    and "entry_total sl_grossAmount es = bl_grossAmount line"
    and "entry_total sl_discount es = js_add (bl_itemDiscount line) (bl_billDiscountShare line)"
    and "entry_total (\<lambda>x. if sl_taxGroupId x = k then sl_taxableValue x else 0) es =
      (if bl_taxGroupId line = k then bl_taxableValue line else 0)"
    and "\<forall>e \<in> set es. \<forall>x. e = Some x \<longrightarrow> 0 \<le> sl_grossAmount x \<and> 0 \<le> sl_discount x \<and> 0 \<le> sl_taxableValue x"
proof -
  obtain gross discount taxable where
    g: "allocate (bl_grossAmount line) ws = Inr gross"
    and d: "allocate (js_add (bl_itemDiscount line) (bl_billDiscountShare line)) ws = Inr discount"
    and t: "allocate (bl_taxableValue line) ws = Inr taxable"
    and es: "es = map (\<lambda>(weight, part).
       if weight = 0 then None
       else Some \<lparr>sl_lineId = bl_id line, sl_share = weight, sl_grossAmount = nth_or gross part 0,
                  sl_discount = nth_or discount part 0, sl_taxableValue = nth_or taxable part 0,
                  sl_taxGroupId = bl_taxGroupId line\<rparr>) (zip ws [0..<length ws])"
    using assms by (auto simp: split_line_def results)
  show "length es = length ws" by (simp add: es)
  have total: "entry_total f es = sum_list (map (\<lambda>(w, p). if w = 0 then 0 else f \<lparr>sl_lineId = bl_id line, sl_share = w,
        sl_grossAmount = nth_or gross p 0, sl_discount = nth_or discount p 0,
        sl_taxableValue = nth_or taxable p 0, sl_taxGroupId = bl_taxGroupId line\<rparr>) (zip ws [0..<length ws]))" for f
    unfolding entry_total_def es map_map by (intro arg_cong [where f = sum_list] map_cong) auto
  show "entry_total sl_grossAmount es = bl_grossAmount line"
    using allocated_entries [OF g] by (simp only: total SplitLine.select_convs)
  show "entry_total sl_discount es = js_add (bl_itemDiscount line) (bl_billDiscountShare line)"
    using allocated_entries [OF d] by (simp only: total SplitLine.select_convs)
  show "entry_total (\<lambda>x. if sl_taxGroupId x = k then sl_taxableValue x else 0) es =
      (if bl_taxGroupId line = k then bl_taxableValue line else 0)"
    using allocated_entries [OF t]
    by (cases "bl_taxGroupId line = k") (simp_all add: total case_prod_beta cong: if_cong)
  have nn: "0 \<le> nth_or gross p 0" "0 \<le> nth_or discount p 0" "0 \<le> nth_or taxable p 0" for p
    using allocate.alloc_nonneg [OF g] allocate.alloc_nonneg [OF d] allocate.alloc_nonneg [OF t]
    by (auto intro!: nth_or_nonneg)
  show "\<forall>e \<in> set es. \<forall>x. e = Some x \<longrightarrow> 0 \<le> sl_grossAmount x \<and> 0 \<le> sl_discount x \<and> 0 \<le> sl_taxableValue x"
    using nn by (auto simp: es split: if_splits)
qed

definition lines_nonneg :: "SplitLine list list \<Rightarrow> bool" where
  "lines_nonneg parts \<longleftrightarrow>
     (\<forall>xs \<in> set parts. \<forall>x \<in> set xs. 0 \<le> sl_grossAmount x \<and> 0 \<le> sl_discount x \<and> 0 \<le> sl_taxableValue x)"

lemma split_lines_Inr:
  assumes "split_lines shares i lines pl = Inr pl'" "length pl = length shares" "lines_nonneg pl"
  shows "length pl' = length shares \<and> lines_nonneg pl' \<and>
    grid sl_grossAmount pl' = grid sl_grossAmount pl + sum_list (map bl_grossAmount lines) \<and>
    grid sl_discount pl' = grid sl_discount pl +
      sum_list (map (\<lambda>l. js_add (bl_itemDiscount l) (bl_billDiscountShare l)) lines) \<and>
    (\<forall>k. grid (\<lambda>x. if sl_taxGroupId x = k then sl_taxableValue x else 0) pl' =
       grid (\<lambda>x. if sl_taxGroupId x = k then sl_taxableValue x else 0) pl +
       sum_list (map bl_taxableValue (filter (\<lambda>l. bl_taxGroupId l = k) lines)))"
  using assms
proof (induction shares i lines pl rule: split_lines.induct)
  case (1 shares i pl)
  then show ?case by simp
next
  case (2 shares i line lines pl)
  obtain es where es: "split_line line (map (\<lambda>part. nth_or part i 0) shares) = Inr es"
    and rest: "split_lines shares (Suc i) lines (push_each pl es) = Inr pl'"
    using "2.prems"(1) by (auto simp: results)
  note e = split_line_Inr [OF es]
  have len: "length es = length pl" using e(1) "2.prems"(2) by simp
  have "lines_nonneg (push_each pl es)"
    using "2.prems"(3) e(5) unfolding lines_nonneg_def by (intro push_each_all) auto
  with "2.IH" [OF es rest] len "2.prems"(2) show ?case
    by (simp add: grid_push_each e(2-4))
qed

lemma columns_sum:
  assumes "mapE (\<lambda>xs. sum_paise (map f xs)) parts = Inr ys" "\<forall>xs \<in> set parts. \<forall>x \<in> set xs. 0 \<le> f x"
  shows "length ys = length parts" "sum_list ys = grid f parts" "\<forall>y \<in> set ys. 0 \<le> y"
    and "ys = map (\<lambda>xs. sum_list (map f xs)) parts"
proof -
  show ys: "ys = map (\<lambda>xs. sum_list (map f xs)) parts"
    using assms(1)
  proof (rule mapE_Inr_map)
    fix xs y
    assume "xs \<in> set parts" "sum_paise (map f xs) = Inr y"
    with assms(2) sum_paise_nonneg [of "map f xs" y] show "y = sum_list (map f xs)" by auto
  qed
  show "length ys = length parts" "sum_list ys = grid f parts" by (simp_all add: ys grid_def)
  show "\<forall>y \<in> set ys. 0 \<le> y" using assms(2) by (auto simp: ys intro!: sum_list_map_nonneg)
qed

lemma sum_filter_if: "sum_list (map f (filter P xs)) = sum_list (map (\<lambda>x. if P x then f x else 0) xs)"
  for f :: "'a \<Rightarrow> int"
  by (induction xs) auto

lemma taxableIn_columns:
  assumes "mapE (taxableIn k) parts = Inr ys" "lines_nonneg parts"
  shows "length ys = length parts" "sum_list ys = grid (\<lambda>x. if sl_taxGroupId x = k then sl_taxableValue x else 0) parts"
    and "\<forall>y \<in> set ys. 0 \<le> y"
proof -
  have ys: "ys = map (\<lambda>xs. sum_list (map (\<lambda>x. if sl_taxGroupId x = k then sl_taxableValue x else 0) xs)) parts"
    using assms(1)
  proof (rule mapE_Inr_map)
    fix xs y
    assume "xs \<in> set parts" and run: "taxableIn k xs = Inr y"
    then have nn: "\<And>x. x \<in> set (map sl_taxableValue (filter (\<lambda>l. sl_taxGroupId l = k) xs)) \<Longrightarrow> 0 \<le> x"
      using assms(2) by (auto simp: lines_nonneg_def)
    have "sum_paise (map sl_taxableValue (filter (\<lambda>l. sl_taxGroupId l = k) xs)) = Inr y"
      using run by (simp add: taxableIn_def)
    then have "y = sum_list (map sl_taxableValue (filter (\<lambda>l. sl_taxGroupId l = k) xs))"
      using sum_paise_nonneg [OF nn] by blast
    then show "y = sum_list (map (\<lambda>x. if sl_taxGroupId x = k then sl_taxableValue x else 0) xs)"
      by (simp add: sum_filter_if)
  qed
  show "length ys = length parts"
    "sum_list ys = grid (\<lambda>x. if sl_taxGroupId x = k then sl_taxableValue x else 0) parts"
    by (simp_all add: ys grid_def)
  show "\<forall>y \<in> set ys. 0 \<le> y" using assms(2) by (auto simp: ys lines_nonneg_def intro!: sum_list_map_nonneg)
qed

section \<open>The tax lines\<close>

text \<open>A tax line's weights line up with the parts, and its taxable values add up.\<close>

lemma tax_line_weights_Inr:
  assumes "tax_line_weights line parts sc it eq = Inr (ws, fb, taxable)"
    and "lines_nonneg parts" "length sc = length parts" "length it = length parts" "length eq = length parts"
  shows "length ws = length parts" "length fb = length parts" "length taxable = length parts" "\<forall>y \<in> set taxable. 0 \<le> y"
    and "tl_source line = SERVICE_CHARGE \<Longrightarrow> sum_list taxable = tl_taxableValue line"
    and "tl_source line = ITEMS \<Longrightarrow>
      sum_list taxable = grid (\<lambda>x. if sl_taxGroupId x = tl_taxGroupId line then sl_taxableValue x else 0) parts"
proof -
  have "length ws = length parts \<and> length fb = length parts \<and> length taxable = length parts \<and>
    (\<forall>y \<in> set taxable. 0 \<le> y) \<and>
    (tl_source line = SERVICE_CHARGE \<longrightarrow> sum_list taxable = tl_taxableValue line) \<and>
    (tl_source line = ITEMS \<longrightarrow>
      sum_list taxable = grid (\<lambda>x. if sl_taxGroupId x = tl_taxGroupId line then sl_taxableValue x else 0) parts)"
  proof (cases "tl_source line")
    case SERVICE_CHARGE
    with assms(1) have "spread (tl_taxableValue line) sc (positive_or it eq) = Inr taxable"
      and eqs: "ws = sc" "fb = positive_or it eq"
      by (auto simp: tax_line_weights_def Let_def results)
    moreover have fb: "length (positive_or it eq) = length sc" using assms by (simp add: length_positive_or)
    ultimately show ?thesis using spread_Inr [of _ sc "positive_or it eq" taxable] assms SERVICE_CHARGE by simp
  next
    case ITEMS
    with assms(1) obtain gross where run: "mapE (taxableIn (tl_taxGroupId line)) parts = Inr taxable"
      and gross: "mapE (grossIn (tl_taxGroupId line)) parts = Inr gross"
      and eqs: "ws = taxable" "fb = positive_or gross eq"
      by (auto simp: tax_line_weights_def results)
    have "length fb = length parts" using mapE_length [OF gross] assms(5) eqs by (simp add: length_positive_or)
    then show ?thesis using taxableIn_columns [OF run assms(2)] eqs ITEMS by simp
  qed
  then show "length ws = length parts" "length fb = length parts" "length taxable = length parts" "\<forall>y \<in> set taxable. 0 \<le> y"
    and "tl_source line = SERVICE_CHARGE \<Longrightarrow> sum_list taxable = tl_taxableValue line"
    and "tl_source line = ITEMS \<Longrightarrow>
      sum_list taxable = grid (\<lambda>x. if sl_taxGroupId x = tl_taxGroupId line then sl_taxableValue x else 0) parts"
    by blast+
qed

text \<open>One tax line's entries: taxable values and taxes, entries of zero left out.\<close>

lemma part_tax_entries:
  assumes run: "mapE (part_tax_line line taxable comps) [0..<n] = Inr es"
    and taxable: "length taxable = n" "\<forall>y \<in> set taxable. 0 \<le> y"
    and comps: "\<forall>(c, as) \<in> set comps. length as = n \<and> sum_list as = tca_amount c \<and> (\<forall>a \<in> set as. 0 \<le> a)"
  shows "length es = n"
    and "entry_total stl_taxableValue es = sum_list taxable"
    and "entry_total stl_taxTotal es = sum_list (map (\<lambda>(c, as). tca_amount c) comps)"
    and "\<forall>e \<in> set es. \<forall>x. e = Some x \<longrightarrow> 0 \<le> stl_taxableValue x \<and> 0 \<le> stl_taxTotal x \<and>
      sum_list (map tca_amount (stl_components x)) = stl_taxTotal x"
proof -
  let ?tax = "\<lambda>p. sum_list (map (\<lambda>(c, as). nth_or as p 0) comps)"
  let ?comps = "\<lambda>p. map (\<lambda>(c, as). \<lparr>tca_code = tca_code c, tca_rateBp = tca_rateBp c, tca_amount = nth_or as p 0\<rparr>) comps"
  have amounts: "map tca_amount (?comps p) = map (\<lambda>(c, as). nth_or as p 0) comps" for p by auto
  have nn: "0 \<le> x" if "x \<in> set (map (\<lambda>(c, as). nth_or as p 0) comps)" for p x
    using that comps by (auto intro!: nth_or_nonneg)
  have tax: "sum_paise (map (\<lambda>(c, as). nth_or as p 0) comps) = Inr t \<Longrightarrow> t = ?tax p" for p t
    using sum_paise_nonneg [of "map (\<lambda>(c, as). nth_or as p 0) comps" t] nn [of _ p] by blast
  have es: "es = map (\<lambda>p. if nth_or taxable p 0 = 0 \<and> ?tax p = 0 then None
      else Some \<lparr>stl_taxGroupId = tl_taxGroupId line, stl_source = tl_source line, stl_taxableValue = nth_or taxable p 0,
                 stl_components = ?comps p, stl_taxTotal = ?tax p\<rparr>) [0..<n]"
    using run
  proof (rule mapE_Inr_map)
    fix p e
    assume "part_tax_line line taxable comps p = Inr e"
    then obtain t where "sum_paise (map tca_amount (?comps p)) = Inr t"
      and e: "e = (if nth_or taxable p 0 = 0 \<and> t = 0 then None
        else Some \<lparr>stl_taxGroupId = tl_taxGroupId line, stl_source = tl_source line, stl_taxableValue = nth_or taxable p 0,
                 stl_components = ?comps p, stl_taxTotal = t\<rparr>)"
      by (auto simp: part_tax_line_def Let_def results)
    then have "t = ?tax p" unfolding amounts by (intro tax)
    with e show "e = (if nth_or taxable p 0 = 0 \<and> ?tax p = 0 then None
      else Some \<lparr>stl_taxGroupId = tl_taxGroupId line, stl_source = tl_source line, stl_taxableValue = nth_or taxable p 0,
                 stl_components = ?comps p, stl_taxTotal = ?tax p\<rparr>)" by (simp only:)
  qed
  show "length es = n" by (simp add: es)
  have "entry_total stl_taxableValue es = sum_list (map (\<lambda>p. nth_or taxable p 0) [0..<n])"
    unfolding entry_total_def es map_map by (intro arg_cong [where f = sum_list] map_cong) auto
  then show "entry_total stl_taxableValue es = sum_list taxable" using taxable sum_upt_nth [of n taxable] by simp
  have "entry_total stl_taxTotal es = sum_list (map ?tax [0..<n])"
    unfolding entry_total_def es map_map by (intro arg_cong [where f = sum_list] map_cong) auto
  also have "\<dots> = sum_list (map (\<lambda>q. sum_list (map (\<lambda>p. nth_or (snd q) p 0) [0..<n])) comps)"
    unfolding case_prod_beta by (rule sum_list_swap)
  also have "map (\<lambda>q. sum_list (map (\<lambda>p. nth_or (snd q) p 0) [0..<n])) comps = map (\<lambda>(c, as). tca_amount c) comps"
    using comps by (intro map_cong) (auto simp: sum_upt_nth)
  finally show "entry_total stl_taxTotal es = sum_list (map (\<lambda>(c, as). tca_amount c) comps)" .
  have pos: "0 \<le> nth_or taxable p 0" "0 \<le> ?tax p" for p
    using nth_or_nonneg [OF taxable(2)] sum_list_nonneg_int [of "map (\<lambda>(c, as). nth_or as p 0) comps"] nn [of _ p]
    by blast+
  show "\<forall>e \<in> set es. \<forall>x. e = Some x \<longrightarrow> 0 \<le> stl_taxableValue x \<and> 0 \<le> stl_taxTotal x \<and>
      sum_list (map tca_amount (stl_components x)) = stl_taxTotal x"
    using pos unfolding es by (auto simp: amounts simp del: map_map split: if_splits)
qed

definition tax_lines_nonneg :: "SplitTaxLine list list \<Rightarrow> bool" where
  "tax_lines_nonneg parts \<longleftrightarrow>
     (\<forall>xs \<in> set parts. \<forall>x \<in> set xs. 0 \<le> stl_taxableValue x \<and> 0 \<le> stl_taxTotal x \<and>
        sum_list (map tca_amount (stl_components x)) = stl_taxTotal x)"

text \<open>What one tax line's parts total: its own taxable value, or the lines' in its group.\<close>

definition spread_taxable :: "SplitLine list list \<Rightarrow> TaxLineResult \<Rightarrow> Paise" where
  "spread_taxable parts line =
     (case tl_source line of
        SERVICE_CHARGE \<Rightarrow> tl_taxableValue line
      | ITEMS \<Rightarrow> grid (\<lambda>x. if sl_taxGroupId x = tl_taxGroupId line then sl_taxableValue x else 0) parts)"

lemma split_tax_lines_Inr:
  assumes "split_tax_lines parts sc it eq lines ptl = Inr ptl'"
    and "lines_nonneg parts" "length sc = length parts" "length it = length parts" "length eq = length parts"
    and "length ptl = length parts" "tax_lines_nonneg ptl"
  shows "length ptl' = length parts \<and> tax_lines_nonneg ptl' \<and>
    grid stl_taxableValue ptl' = grid stl_taxableValue ptl + sum_list (map (spread_taxable parts) lines) \<and>
    grid stl_taxTotal ptl' = grid stl_taxTotal ptl +
      sum_list (map (\<lambda>l. sum_list (map tca_amount (tl_components l))) lines)"
  using assms
proof (induction parts sc it eq lines ptl rule: split_tax_lines.induct)
  case (1 parts sc it eq ptl)
  then show ?case by simp
next
  case (2 parts sc it eq line lines ptl)
  obtain ws fb taxable comps es where
    w: "tax_line_weights line parts sc it eq = Inr (ws, fb, taxable)"
    and comps: "mapE (\<lambda>component. bindE (spread (tca_amount component) ws fb) (\<lambda>amounts. Inr (component, amounts)))
        (tl_components line) = Inr comps"
    and es: "mapE (part_tax_line line taxable comps) [0..<length ptl] = Inr es"
    and rest: "split_tax_lines parts sc it eq lines (push_each ptl es) = Inr ptl'"
    using "2.prems"(1) by (auto simp: results)
  note W = tax_line_weights_Inr [OF w "2.prems"(2-5)]
  have each: "list_all2 (\<lambda>c q. fst q = c \<and> spread (tca_amount c) ws fb = Inr (snd q)) (tl_components line) comps"
    using comps unfolding mapE_Inr_iff by (rule list_all2_mono) (auto simp: results)
  have fsts: "map fst comps = tl_components line"
    using each by (induction rule: list_all2_induct) auto
  have ok: "length as = length ptl \<and> sum_list as = tca_amount c \<and> (\<forall>a \<in> set as. 0 \<le> a)" if "(c, as) \<in> set comps" for c as
  proof -
    from that obtain i where "i < length comps" "comps ! i = (c, as)" by (auto simp: in_set_conv_nth)
    then have "spread (tca_amount c) ws fb = Inr as" using list_all2_nthD2 [OF each] by fastforce
    from spread_Inr [OF this] show ?thesis using W(1,2) "2.prems"(6) by simp
  qed
  have taxable: "length taxable = length ptl" using W(3) "2.prems"(6) by simp
  have all_ok: "\<forall>(c, as) \<in> set comps. length as = length ptl \<and> sum_list as = tca_amount c \<and> (\<forall>a \<in> set as. 0 \<le> a)"
    using ok by blast
  note E = part_tax_entries [OF es taxable W(4) all_ok]
  have "map (\<lambda>(c, as). tca_amount c) comps = map tca_amount (tl_components line)"
    unfolding fsts [symmetric] by auto
  then have tax: "entry_total stl_taxTotal es = sum_list (map tca_amount (tl_components line))" using E(3) by simp
  have tv: "entry_total stl_taxableValue es = spread_taxable parts line"
    using E(2) W(5,6) by (simp add: spread_taxable_def split: TaxSource.split)
  have "tax_lines_nonneg (push_each ptl es)"
    using "2.prems"(7) E(4) unfolding tax_lines_nonneg_def by (intro push_each_all)
  with "2.IH" [OF w refl refl comps es rest "2.prems"(2-5)] E(1) "2.prems"(6) show ?case
    by (simp add: grid_push_each tax tv)
qed

section \<open>The parts\<close>

text \<open>What a computed bill gives its split.\<close>

lemma bill_line_discounts:
  assumes "computeBill input = Inr b" "isSafeInteger (br_subtotal b)"
  shows "sum_list (map (\<lambda>l. js_add (bl_itemDiscount l) (bl_billDiscountShare l)) (br_lines b)) = br_discountTotal b"
proof -
  note c = computed_discounts [OF assms(1)]
  have line: "0 \<le> bl_itemDiscount l \<and> 0 \<le> bl_billDiscountShare l \<and> 0 \<le> bl_netAmount l \<and>
      bl_netAmount l = bl_grossAmount l - bl_itemDiscount l - bl_billDiscountShare l" if l: "l \<in> set (br_lines b)" for l
  proof -
    obtain i where "i < length (br_lines b)" "br_lines b ! i = l" using l by (auto simp: in_set_conv_nth)
    with c show ?thesis by (auto dest: list_all2_nthD2)
  qed
  have gross: "0 \<le> bl_grossAmount l" if "l \<in> set (br_lines b)" for l using line [OF that] by linarith
  have "js_add (bl_itemDiscount l) (bl_billDiscountShare l) = bl_itemDiscount l + bl_billDiscountShare l"
    if l: "l \<in> set (br_lines b)" for l
  proof -
    have "bl_itemDiscount l + bl_billDiscountShare l \<le> bl_grossAmount l" using line [OF l] by linarith
    also have "\<dots> \<le> br_subtotal b" using sum_list_remove_in [OF l, of bl_grossAmount] gross c by simp
    finally have "bl_itemDiscount l + bl_billDiscountShare l \<le> br_subtotal b" .
    then have "isSafeInteger (bl_itemDiscount l + bl_billDiscountShare l)"
      using line [OF l] isSafeInteger_between [OF _ _ assms(2)] by simp
    then show ?thesis by (rule js_exact)
  qed
  then have "map (\<lambda>l. js_add (bl_itemDiscount l) (bl_billDiscountShare l)) (br_lines b) =
      map (\<lambda>l. bl_itemDiscount l + bl_billDiscountShare l) (br_lines b)" by simp
  then have "sum_list (map (\<lambda>l. js_add (bl_itemDiscount l) (bl_billDiscountShare l)) (br_lines b)) =
      sum_list (map bl_itemDiscount (br_lines b)) + sum_list (map bl_billDiscountShare (br_lines b))"
    by (simp only: sum_list_addf)
  then show ?thesis using c by simp
qed

lemma bill_subtotal_safe: "computeBill input = Inr b \<Longrightarrow> isSafeInteger (br_subtotal b)"
proof -
  assume "computeBill input = Inr b"
  then obtain s where "discount_steps input b s" using computeBill_steps by blast
  then have "sum_paise (bs_gross s) = Inr (br_subtotal b)" by (simp add: discount_steps_def)
  then show ?thesis by (rule sum_paise_safe)
qed

text \<open>The tax lines of a computed bill keep their taxable values when they are split.\<close>

lemma spread_taxable_bill:
  assumes "computeBill input = Inr b" "isSafeInteger (br_totalBeforeRoundOff b)"
    and grid: "\<And>k. grid (\<lambda>x. if sl_taxGroupId x = k then sl_taxableValue x else 0) parts =
      sum_list (map bl_taxableValue (filter (\<lambda>l. bl_taxGroupId l = k) (br_lines b)))"
  shows "map (spread_taxable parts) (br_taxLines b) = map tl_taxableValue (br_taxLines b)"
proof (intro map_cong refl)
  fix line
  assume l: "line \<in> set (br_taxLines b)"
  let ?items = "filter (\<lambda>l. tl_source l = ITEMS) (br_taxLines b)"
  show "spread_taxable parts line = tl_taxableValue line"
  proof (cases "tl_source line")
    case SERVICE_CHARGE
    then show ?thesis by (simp add: spread_taxable_def)
  next
    case ITEMS
    have "filter (\<lambda>x. tl_source x = ITEMS \<and> tl_taxGroupId x = tl_taxGroupId line) (br_taxLines b) =
        filter (\<lambda>x. tl_taxGroupId x = tl_taxGroupId line) ?items"
      by (simp add: conj_commute)
    also have "\<dots> = [line]"
      using filter_same_key [OF item_tax_lines [OF assms(1,2)]] l ITEMS by simp
    finally show ?thesis
      using computed_taxes [OF assms(1,2)] grid ITEMS by (simp add: spread_taxable_def)
  qed
qed

text \<open>The fields of the parts, column by column.\<close>

lemma split_part_Inr:
  assumes "mapE (split_part pl ptl sc before ro) [0..<n] = Inr parts"
    and "length pl = n" "length ptl = n" "length sc = n" "length before = n" "length ro = n"
    and "lines_nonneg pl" "tax_lines_nonneg ptl"
  shows "length parts = n" "sum_list (map sp_subtotal parts) = grid sl_grossAmount pl"
    and "sum_list (map sp_discountTotal parts) = grid sl_discount pl"
    and "sum_list (map sp_taxTotal parts) = grid stl_taxTotal ptl"
    and "map sp_serviceCharge parts = sc" "map sp_totalBeforeRoundOff parts = before" "map sp_roundOff parts = ro"
    and "map sp_taxLines parts = ptl"
    and "map sp_grandTotal parts = map2 js_add before ro"
proof -
  show len: "length parts = n" using mapE_length [OF assms(1)] by simp
  have each: "sp_lines (parts ! p) = pl ! p \<and> sp_taxLines (parts ! p) = ptl ! p \<and>
      sp_subtotal (parts ! p) = sum_list (map sl_grossAmount (pl ! p)) \<and>
      sp_discountTotal (parts ! p) = sum_list (map sl_discount (pl ! p)) \<and>
      sp_taxTotal (parts ! p) = sum_list (map stl_taxTotal (ptl ! p)) \<and>
      sp_serviceCharge (parts ! p) = sc ! p \<and> sp_totalBeforeRoundOff (parts ! p) = before ! p \<and>
      sp_roundOff (parts ! p) = ro ! p \<and> sp_grandTotal (parts ! p) = js_add (before ! p) (ro ! p)"
    if p: "p < n" for p
  proof -
    have run: "split_part pl ptl sc before ro p = Inr (parts ! p)" using mapE_nth [OF assms(1), of p] p by simp
    have "pl ! p \<in> set pl" "ptl ! p \<in> set ptl" using p assms(2,3) by simp_all
    then have nn: "\<And>x. x \<in> set (map sl_grossAmount (pl ! p)) \<Longrightarrow> 0 \<le> x" "\<And>x. x \<in> set (map sl_discount (pl ! p)) \<Longrightarrow> 0 \<le> x"
        "\<And>x. x \<in> set (map stl_taxTotal (ptl ! p)) \<Longrightarrow> 0 \<le> x"
      using assms(7,8) by (auto simp: lines_nonneg_def tax_lines_nonneg_def)
    obtain x y z where sums: "sum_paise (map sl_grossAmount (pl ! p)) = Inr x" "sum_paise (map sl_discount (pl ! p)) = Inr y"
        "sum_paise (map stl_taxTotal (ptl ! p)) = Inr z"
      and part: "parts ! p = \<lparr>sp_lines = pl ! p, sp_taxLines = ptl ! p, sp_subtotal = x, sp_discountTotal = y,
        sp_serviceCharge = sc ! p, sp_taxTotal = z, sp_totalBeforeRoundOff = before ! p, sp_roundOff = ro ! p,
        sp_grandTotal = js_add (before ! p) (ro ! p)\<rparr>"
      using run p assms(2-6) by (auto simp: split_part_def Let_def bindE_Inr_iff)
    have "x = sum_list (map sl_grossAmount (pl ! p))" "y = sum_list (map sl_discount (pl ! p))"
        "z = sum_list (map stl_taxTotal (ptl ! p))"
      using sums sum_paise_nonneg [OF nn(1)] sum_paise_nonneg [OF nn(2)] sum_paise_nonneg [OF nn(3)] by blast+
    then show ?thesis by (simp add: part)
  qed
  show "map sp_serviceCharge parts = sc" "map sp_totalBeforeRoundOff parts = before" "map sp_roundOff parts = ro"
    "map sp_taxLines parts = ptl" "map sp_grandTotal parts = map2 js_add before ro"
    using each len assms(2-6) by (auto intro!: nth_equalityI)
  have "map sp_subtotal parts = map (\<lambda>xs. sum_list (map sl_grossAmount xs)) pl"
    "map sp_discountTotal parts = map (\<lambda>xs. sum_list (map sl_discount xs)) pl"
    "map sp_taxTotal parts = map (\<lambda>xs. sum_list (map stl_taxTotal xs)) ptl"
    using each len assms(2,3) by (auto intro!: nth_equalityI)
  then show "sum_list (map sp_subtotal parts) = grid sl_grossAmount pl"
    "sum_list (map sp_discountTotal parts) = grid sl_discount pl"
    "sum_list (map sp_taxTotal parts) = grid stl_taxTotal ptl"
    by (simp_all add: grid_def)
qed

text \<open>Before round-off each part is its taxable values and taxes, checked to be safe.\<close>

lemma before_columns:
  assumes "mapE (\<lambda>taxLines. sum_paise (map (\<lambda>line. js_add (stl_taxableValue line) (stl_taxTotal line)) taxLines)) ptl = Inr before"
    and "tax_lines_nonneg ptl"
  shows "before = map (\<lambda>xs. sum_list (map (\<lambda>x. stl_taxableValue x + stl_taxTotal x) xs)) ptl"
    and "sum_list before = grid stl_taxableValue ptl + grid stl_taxTotal ptl"
proof -
  show eq: "before = map (\<lambda>xs. sum_list (map (\<lambda>x. stl_taxableValue x + stl_taxTotal x) xs)) ptl"
    using assms(1)
  proof (rule mapE_Inr_map)
    fix xs y
    assume xs: "xs \<in> set ptl" and run: "sum_paise (map (\<lambda>line. js_add (stl_taxableValue line) (stl_taxTotal line)) xs) = Inr y"
    have nn: "\<And>v. v \<in> set (map (\<lambda>line. js_add (stl_taxableValue line) (stl_taxTotal line)) xs) \<Longrightarrow> 0 \<le> v"
      using assms(2) xs by (auto simp: tax_lines_nonneg_def intro!: js_add_nonneg)
    have "\<forall>v \<in> set (map (\<lambda>line. js_add (stl_taxableValue line) (stl_taxTotal line)) xs). isSafeInteger v"
      using run by (auto simp: sum_paise_def results dest!: sum_from_Inr)
    then have "map (\<lambda>line. js_add (stl_taxableValue line) (stl_taxTotal line)) xs = map (\<lambda>x. stl_taxableValue x + stl_taxTotal x) xs"
      by (auto simp: exact)
    then show "y = sum_list (map (\<lambda>x. stl_taxableValue x + stl_taxTotal x) xs)"
      using run sum_paise_nonneg [OF nn] by metis
  qed
  show "sum_list before = grid stl_taxableValue ptl + grid stl_taxTotal ptl"
    by (simp add: eq grid_def sum_list_addf)
qed

lemma splitBill_steps:
  assumes "splitBill b shares = Inr parts"
  obtains pl it ig sc ptl before ro where
    "2 \<le> length shares"
    "split_lines shares 0 (br_lines b) (map (\<lambda>_. []) shares) = Inr pl"
    "mapE (\<lambda>lines. sum_paise (map sl_taxableValue lines)) pl = Inr it"
    "mapE (\<lambda>lines. sum_paise (map sl_grossAmount lines)) pl = Inr ig"
    "spread (br_serviceCharge b) it (positive_or ig (replicate (length shares) 1)) = Inr sc"
    "split_tax_lines pl sc it (replicate (length shares) 1) (br_taxLines b) (map (\<lambda>_. []) shares) = Inr ptl"
    "mapE (\<lambda>taxLines. sum_paise (map (\<lambda>line. js_add (stl_taxableValue line) (stl_taxTotal line)) taxLines)) ptl = Inr before"
    "spreadSigned (br_roundOff b) before (replicate (length shares) 1) = Inr ro"
    "mapE (split_part pl ptl sc before ro) [0..<length shares] = Inr parts"
  using assms unfolding splitBill_def Let_def by (auto simp: bindE_Inr_iff throw_if_Inr_iff)

text \<open>A part's grand total is exact: it lies within the bill's.\<close>

lemma part_total_safe:
  fixes x y :: int
  assumes "0 \<le> x" "x \<le> whole" "isSafeInteger whole" "isSafeInteger (whole + d)" "0 \<le> whole + d"
    and "(0 \<le> d \<and> 0 \<le> y \<and> y \<le> d) \<or> (y \<le> 0 \<and> d \<le> y)"
  shows "js_add x y = x + y"
proof -
  have "isSafeInteger (x + y)"
    using assms unfolding isSafeInteger_def by linarith
  then show ?thesis by (rule js_exact)
qed

text \<open>
  C4: splitting a computed bill loses and adds nothing. Over the parts, one per row of shares, the
  subtotals, discounts, service charges, taxes, totals before round-off, round-offs and grand totals
  each add up exactly to the bill's; every part's total before round-off is the taxable values and
  taxes of its own tax lines, whose components add up to their tax, and its grand total is that plus
  its round-off.
\<close>

theorem splitBill_adds_up:
  assumes "computeBill input = Inr b" "isSafeInteger (br_totalBeforeRoundOff b)" "isSafeInteger (br_grandTotal b)"
    and "splitBill b shares = Inr parts"
  shows "length parts = length shares \<and>
    sum_list (map sp_subtotal parts) = br_subtotal b \<and>
    sum_list (map sp_discountTotal parts) = br_discountTotal b \<and>
    sum_list (map sp_serviceCharge parts) = br_serviceCharge b \<and>
    sum_list (map sp_taxTotal parts) = br_taxTotal b \<and>
    sum_list (map sp_totalBeforeRoundOff parts) = br_totalBeforeRoundOff b \<and>
    sum_list (map sp_roundOff parts) = br_roundOff b \<and>
    sum_list (map sp_grandTotal parts) = br_grandTotal b \<and>
    (\<forall>part \<in> set parts.
       sp_totalBeforeRoundOff part = sum_list (map (\<lambda>l. stl_taxableValue l + stl_taxTotal l) (sp_taxLines part)) \<and>
       (\<forall>l \<in> set (sp_taxLines part). sum_list (map tca_amount (stl_components l)) = stl_taxTotal l) \<and>
       sp_grandTotal part = sp_totalBeforeRoundOff part + sp_roundOff part)"
proof -
  let ?n = "length shares"
  let ?eq = "replicate ?n (1 :: int)"
  note taxes = computed_taxes [OF assms(1,2)] and total = computed_total [OF assms(1-3)]
    and discounts = computed_discounts [OF assms(1)]
  obtain pl it ig sc ptl before ro where
    lines: "split_lines shares 0 (br_lines b) (map (\<lambda>_. []) shares) = Inr pl"
    and it: "mapE (\<lambda>lines. sum_paise (map sl_taxableValue lines)) pl = Inr it"
    and ig: "mapE (\<lambda>lines. sum_paise (map sl_grossAmount lines)) pl = Inr ig"
    and sc: "spread (br_serviceCharge b) it (positive_or ig ?eq) = Inr sc"
    and tax_lines: "split_tax_lines pl sc it ?eq (br_taxLines b) (map (\<lambda>_. []) shares) = Inr ptl"
    and before: "mapE (\<lambda>taxLines. sum_paise (map (\<lambda>line. js_add (stl_taxableValue line) (stl_taxTotal line)) taxLines)) ptl = Inr before"
    and ro: "spreadSigned (br_roundOff b) before ?eq = Inr ro"
    and parts: "mapE (split_part pl ptl sc before ro) [0..<?n] = Inr parts"
    by (rule splitBill_steps [OF assms(4)])
  have "lines_nonneg (map (\<lambda>_. []) shares)" "tax_lines_nonneg (map (\<lambda>_. []) shares)"
    by (simp_all add: lines_nonneg_def tax_lines_nonneg_def)
  with split_lines_Inr [OF lines] have pl: "length pl = ?n" "lines_nonneg pl"
    "grid sl_grossAmount pl = sum_list (map bl_grossAmount (br_lines b))"
    "grid sl_discount pl = sum_list (map (\<lambda>l. js_add (bl_itemDiscount l) (bl_billDiscountShare l)) (br_lines b))"
    "\<And>k. grid (\<lambda>x. if sl_taxGroupId x = k then sl_taxableValue x else 0) pl =
      sum_list (map bl_taxableValue (filter (\<lambda>l. bl_taxGroupId l = k) (br_lines b)))"
    by simp_all
  have len: "length it = ?n" "length ig = ?n" using mapE_length [OF it] mapE_length [OF ig] pl(1) by simp_all
  have "length (positive_or ig ?eq) = length it" using len by (simp add: length_positive_or)
  note SC = spread_Inr [OF sc this]
  have ptl: "length ptl = ?n" "tax_lines_nonneg ptl"
    "grid stl_taxableValue ptl = sum_list (map (spread_taxable pl) (br_taxLines b))"
    "grid stl_taxTotal ptl = sum_list (map (\<lambda>l. sum_list (map tca_amount (tl_components l))) (br_taxLines b))"
    using split_tax_lines_Inr [OF tax_lines pl(2)] SC(1) len pl(1) \<open>tax_lines_nonneg (map (\<lambda>_. []) shares)\<close> by simp_all
  have tv: "grid stl_taxableValue ptl = br_taxableValueTotal b"
    unfolding ptl(3) spread_taxable_bill [OF assms(1,2) pl(5)] using taxes by linarith
  have "map (\<lambda>l. sum_list (map tca_amount (tl_components l))) (br_taxLines b) = map tl_taxTotal (br_taxLines b)"
    using taxes by simp
  then have tt: "grid stl_taxTotal ptl = br_taxTotal b" using taxes by (simp only: ptl(4))
  note B = before_columns [OF before ptl(2)]
  have blen: "length before = ?n" by (simp add: B(1) ptl(1))
  have bsum: "sum_list before = br_totalBeforeRoundOff b" using B(2) tv tt total by simp
  have "length ?eq = length before" by (simp add: blen)
  note RO = spreadSigned_Inr [OF ro this]
  note P = split_part_Inr [OF parts pl(1) ptl(1) _ blen _ pl(2) ptl(2)]
  have lens: "length sc = ?n" "length ro = ?n" using SC(1) RO(1) len blen by simp_all
  note P = P [OF lens]
  have bnn: "\<And>x. x \<in> set before \<Longrightarrow> 0 \<le> x"
    using ptl(2) by (auto simp: B(1) tax_lines_nonneg_def intro!: sum_list_map_nonneg)
  have grand: "0 \<le> br_grandTotal b" "br_grandTotal b = br_totalBeforeRoundOff b + br_roundOff b"
    using total computed_grand_nonneg [OF assms(1-3)] by auto
  have add: "js_add x y = x + y" if "x \<in> set before" "y \<in> set ro" for x y
  proof (rule part_total_safe)
    show "0 \<le> x" by (rule bnn [OF that(1)])
    show "x \<le> br_totalBeforeRoundOff b" using member_le_sum_list_int [OF bnn that(1)] bsum by simp
    show "isSafeInteger (br_totalBeforeRoundOff b + br_roundOff b)" "0 \<le> br_totalBeforeRoundOff b + br_roundOff b"
      using grand assms(3) by simp_all
    show "(0 \<le> br_roundOff b \<and> 0 \<le> y \<and> y \<le> br_roundOff b) \<or> (y \<le> 0 \<and> br_roundOff b \<le> y)"
      by (rule RO(3) [OF that(2)])
  qed (rule assms(2))
  have "map2 js_add before ro = map2 (+) before ro"
    using add by (auto intro!: map_cong dest: set_zip_leftD set_zip_rightD)
  then have grands: "map sp_grandTotal parts = map2 (+) before ro" using P(9) by simp
  have "sum_list (map2 (+) xs ys) = sum_list xs + sum_list ys" if "length xs = length ys" for xs ys :: "int list"
    using that by (induction xs ys rule: list_induct2) auto
  then have gsum: "sum_list (map sp_grandTotal parts) = br_grandTotal b"
    using blen lens bsum RO(2) grand by (simp add: grands)
  have each: "sp_totalBeforeRoundOff part = sum_list (map (\<lambda>l. stl_taxableValue l + stl_taxTotal l) (sp_taxLines part)) \<and>
       (\<forall>l \<in> set (sp_taxLines part). sum_list (map tca_amount (stl_components l)) = stl_taxTotal l) \<and>
       sp_grandTotal part = sp_totalBeforeRoundOff part + sp_roundOff part" if part: "part \<in> set parts" for part
  proof -
    obtain p where p: "p < ?n" "parts ! p = part" using part P(1) by (auto simp: in_set_conv_nth)
    have sel: "sp_totalBeforeRoundOff part = before ! p" "sp_roundOff part = ro ! p" "sp_taxLines part = ptl ! p"
      "sp_grandTotal part = before ! p + ro ! p"
      using p P(1) arg_cong [OF P(6), of "\<lambda>xs. xs ! p"] arg_cong [OF P(7), of "\<lambda>xs. xs ! p"]
        arg_cong [OF P(8), of "\<lambda>xs. xs ! p"] arg_cong [OF grands, of "\<lambda>xs. xs ! p"] blen lens by simp_all
    have "ptl ! p \<in> set ptl" using p ptl(1) by simp
    then have "\<forall>l \<in> set (ptl ! p). sum_list (map tca_amount (stl_components l)) = stl_taxTotal l"
      using ptl(2) unfolding tax_lines_nonneg_def by blast
    then show ?thesis using ptl(1) p by (simp add: sel B(1))
  qed
  show ?thesis
  proof (intro conjI ballI)
    show "sum_list (map sp_subtotal parts) = br_subtotal b" using P(2) pl(3) discounts by simp
    show "sum_list (map sp_discountTotal parts) = br_discountTotal b"
      using P(3) pl(4) bill_line_discounts [OF assms(1) bill_subtotal_safe [OF assms(1)]] by simp
  qed (use P(1) P(4) tt P(5) SC(2) P(6) bsum P(7) RO(2) gsum each in simp_all)
qed

theorem splitBill_adds_up_witness:
  "\<exists>b parts. computeBill sample_bill = Inr b \<and> splitBill b [[1, 0, 3], [1, 1, 0]] = Inr parts \<and>
     sum_list (map sp_grandTotal parts) = 37300"
proof -
  obtain b where run: "computeBill sample_bill = Inr b" and b: "br_totalBeforeRoundOff b = 37291" "br_grandTotal b = 37300"
    using sample_bill_totals by blast
  then have safe: "isSafeInteger (br_totalBeforeRoundOff b)" "isSafeInteger (br_grandTotal b)" by simp_all
  have "map_option (\<lambda>b. isl (splitBill b [[1, 0, 3], [1, 1, 0]])) (bill_of sample_bill) = Some False" by code_simp
  then have "\<not> isl (splitBill b [[1, 0, 3], [1, 1, 0]])" by (simp add: bill_of_def run)
  then obtain parts where parts: "splitBill b [[1, 0, 3], [1, 1, 0]] = Inr parts"
    by (cases "splitBill b [[1, 0, 3], [1, 1, 0]]") auto
  show ?thesis using run parts b splitBill_adds_up [OF run safe parts] by auto
qed

end
