(* ===== verification/Payments.thy ===== *)
theory Payments
  imports Allocation Rupee_Text
begin

text \<open>
  \<open>packages/domain/src/payments.ts\<close>: payments against a bill, the cash of a shift and the counting
  of notes. The lemmas show that paying in steps is the same as paying at once, that a bill is never
  overpaid, and that change comes out of the cash tendered.
\<close>

datatype PaymentMode = CASH | CARD | UPI | OTHER

record PaymentInput =
  pi_mode :: PaymentMode
  pi_amount :: Paise
  pi_tendered :: "Paise option"

record RecordedPayment =
  rp_mode :: PaymentMode
  rp_amount :: Paise
  rp_tendered :: "Paise option"
  rp_change :: "Paise option"

record PaymentOutcome =
  po_payments :: "RecordedPayment list"
  po_paid :: Paise
  po_remaining :: Paise
  po_settled :: bool

text \<open>One payment of the list.\<close>

definition record_payment :: "PaymentInput \<Rightarrow> RecordedPayment result" where
  "record_payment payment =
     bindE (assertPaise (pi_amount payment) False) (\<lambda>_.
     if pi_amount payment = 0 then Inl INVALID_PAYMENT
     else if pi_mode payment \<noteq> CASH then
       (if pi_tendered payment \<noteq> None then Inl INVALID_PAYMENT
        else Inr \<lparr>rp_mode = pi_mode payment, rp_amount = pi_amount payment, rp_tendered = None, rp_change = None\<rparr>)
     else
       let tendered = (case pi_tendered payment of None \<Rightarrow> pi_amount payment | Some t \<Rightarrow> t)
       in bindE (assertPaise tendered False) (\<lambda>_.
          if tendered < pi_amount payment then Inl INVALID_PAYMENT
          else Inr \<lparr>rp_mode = CASH, rp_amount = pi_amount payment, rp_tendered = Some tendered,
                    rp_change = Some (js_sub tendered (pi_amount payment))\<rparr>))"

definition applyPayments :: "Paise \<Rightarrow> Paise \<Rightarrow> PaymentInput list \<Rightarrow> PaymentOutcome result" where
  "applyPayments bill_total alreadyPaid payments =
     bindE (assertPaise bill_total False) (\<lambda>_.
     bindE (assertPaise alreadyPaid False) (\<lambda>_.
     bindE (mapE record_payment payments) (\<lambda>recorded.
     bindE (sum_paise (map rp_amount recorded)) (\<lambda>s.
     let paid = js_add alreadyPaid s
     in if paid > bill_total then Inl OVERPAYMENT
        else Inr \<lparr>po_payments = recorded, po_paid = paid, po_remaining = js_sub bill_total paid,
                  po_settled = (paid = bill_total)\<rparr>))))"

section \<open>Shift cash\<close>

record ShiftCash =
  sh_openingFloat :: Paise
  sh_cashPayments :: Paise
  sh_cashIn :: Paise
  sh_cashOut :: Paise

definition expectedCash :: "ShiftCash \<Rightarrow> number" where
  "expectedCash shift =
     js_sub (js_add (js_add (sh_openingFloat shift) (sh_cashPayments shift)) (sh_cashIn shift)) (sh_cashOut shift)"

definition cashVariance :: "Paise \<Rightarrow> number \<Rightarrow> number result" where
  "cashVariance counted expected =
     bindE (assertPaise counted False) (\<lambda>_. Inr (js_sub counted expected))"

text \<open>The loop over the notes: each note's text in rupees, with its count.\<close>

fun count_notes :: "Paise \<Rightarrow> (js_string \<times> number) list \<Rightarrow> Paise result" where
  "count_notes acc [] = Inr acc"
| "count_notes acc ((note, cnt) # notes) =
     (let paise = (case parseRupees note False of Inl _ \<Rightarrow> 0 | Inr p \<Rightarrow> p)
      in bindE (throw_if (paise \<le> 0 \<or> \<not> isSafeInteger cnt \<or> cnt < 0) INVALID_ARGUMENT) (\<lambda>_.
         count_notes (js_add acc (js_mul paise cnt)) notes))"

definition countDenominations :: "(js_string \<times> number) list \<Rightarrow> Paise result" where
  "countDenominations denominations = count_notes 0 denominations"

section \<open>Paying in steps\<close>

lemma record_payment_Inr:
  assumes "record_payment p = Inr r"
  shows "0 < pi_amount p" "rp_amount r = pi_amount p" "rp_mode r = pi_mode p" "isSafeInteger (pi_amount p)"
    and "rp_mode r = CASH \<Longrightarrow> \<exists>t c. rp_tendered r = Some t \<and> rp_change r = Some c \<and> 0 \<le> c \<and> t = rp_amount r + c"
    and "rp_mode r \<noteq> CASH \<Longrightarrow> rp_tendered r = None \<and> rp_change r = None"
proof -
  have sub: "js_sub t a = t - a" if "isSafeInteger t" "a \<le> t" "0 < a" for t a
    using that isSafeInteger_between [of "t - a" t] by (simp add: exact)
  show "0 < pi_amount p" "rp_amount r = pi_amount p" "rp_mode r = pi_mode p" "isSafeInteger (pi_amount p)"
    "rp_mode r \<noteq> CASH \<Longrightarrow> rp_tendered r = None \<and> rp_change r = None"
    using assms by (auto simp: record_payment_def Let_def results split: if_splits)
  show "rp_mode r = CASH \<Longrightarrow> \<exists>t c. rp_tendered r = Some t \<and> rp_change r = Some c \<and> 0 \<le> c \<and> t = rp_amount r + c"
    using assms sub by (auto simp: record_payment_def Let_def results split: if_splits)
qed

lemma recorded_amounts:
  assumes "mapE record_payment ps = Inr rs"
  shows "map rp_amount rs = map pi_amount ps" "\<forall>p \<in> set ps. 0 < pi_amount p"
  using assms record_payment_Inr
  by (induction ps arbitrary: rs) (auto simp: bindE_Inr_iff)

lemma js_add_le_iff:
  assumes "0 \<le> a" "0 \<le> b" "isSafeInteger c"
  shows "js_add a b \<le> c \<longleftrightarrow> a + b \<le> c"
proof (cases "isSafeInteger (a + b)")
  case True
  then show ?thesis by (simp add: exact)
next
  case False
  then have big: "9007199254740992 \<le> a + b" using assms by (simp add: not_safe_iff)
  then have "9007199254740992 \<le> js_add a b"
    using to_double_unsafe [of "a + b"] js_add_nonneg [OF assms(1,2)] by (simp add: js_add_def)
  moreover have "c \<le> 9007199254740991" using assms(3) by (simp add: isSafeInteger_def MAX_SAFE_INTEGER_def)
  ultimately show ?thesis using big by linarith
qed

lemma applyPayments_Inr:
  "applyPayments T paid ps = Inr out \<longleftrightarrow>
     (\<exists>rs. isSafeInteger T \<and> 0 \<le> T \<and> 0 \<le> paid \<and> mapE record_payment ps = Inr rs \<and>
       paid + sum_list (map pi_amount ps) \<le> T \<and>
       out = \<lparr>po_payments = rs, po_paid = paid + sum_list (map pi_amount ps),
              po_remaining = T - (paid + sum_list (map pi_amount ps)),
              po_settled = (paid + sum_list (map pi_amount ps) = T)\<rparr>)" (is "?L \<longleftrightarrow> ?R")
proof -
  let ?s = "sum_list (map pi_amount ps)"
  have amounts: "sum_paise (map rp_amount rs) = Inr s \<longleftrightarrow> s = ?s \<and> isSafeInteger ?s" "0 \<le> ?s"
    if "mapE record_payment ps = Inr rs" for rs s
  proof -
    have nn: "\<forall>x \<in> set (map pi_amount ps). 0 \<le> x" using recorded_amounts(2) [OF that] by fastforce
    show "sum_paise (map rp_amount rs) = Inr s \<longleftrightarrow> s = ?s \<and> isSafeInteger ?s" "0 \<le> ?s"
      using sum_paise_all [OF nn] sum_list_all_nonneg [OF nn] recorded_amounts(1) [OF that] by auto
  qed
  have add: "js_add paid s = paid + s" if "0 \<le> paid" "0 \<le> s" "paid + s \<le> T" "isSafeInteger T" for s
    using that isSafeInteger_between [of "paid + s" T] by (simp add: exact)
  have sub: "js_sub T x = T - x" if "0 \<le> x" "x \<le> T" "isSafeInteger T" for x
    using that isSafeInteger_between [of "T - x" T] by (simp add: exact)
  show ?thesis
  proof
    assume ?L
    then obtain rs s where rs: "isSafeInteger T" "0 \<le> T" "0 \<le> paid" "mapE record_payment ps = Inr rs"
        "sum_paise (map rp_amount rs) = Inr s" "\<not> js_add paid s > T"
      and out: "out = \<lparr>po_payments = rs, po_paid = js_add paid s, po_remaining = js_sub T (js_add paid s),
                  po_settled = (js_add paid s = T)\<rparr>"
      by (auto simp: applyPayments_def results Let_def split: if_splits)
    have "s = ?s" "0 \<le> ?s" using amounts [OF rs(4)] rs(5) by auto
    moreover from this have "paid + ?s \<le> T" using js_add_le_iff [OF rs(3) _ rs(1), of ?s] rs(6) by simp
    ultimately show ?R using rs out add sub by auto
  next
    assume ?R
    then obtain rs where rs: "isSafeInteger T" "0 \<le> T" "0 \<le> paid" "mapE record_payment ps = Inr rs" "paid + ?s \<le> T"
      and out: "out = \<lparr>po_payments = rs, po_paid = paid + ?s, po_remaining = T - (paid + ?s), po_settled = (paid + ?s = T)\<rparr>"
      by blast
    have s: "0 \<le> ?s" by (rule amounts(2) [OF rs(4)])
    have safe: "isSafeInteger paid" "isSafeInteger ?s"
      using rs s isSafeInteger_between [of paid T] isSafeInteger_between [of ?s T] by auto
    have "sum_paise (map rp_amount rs) = Inr ?s" using amounts(1) [OF rs(4)] safe by simp
    then show ?L
      using rs out safe s add [OF rs(3) s rs(5,1)] sub [of "paid + ?s"]
      by (simp add: applyPayments_def Let_def)
  qed
qed

lemma mapE_append:
  "mapE f (xs @ ys) = Inr zs \<longleftrightarrow> (\<exists>us vs. mapE f xs = Inr us \<and> mapE f ys = Inr vs \<and> zs = us @ vs)"
  by (induction xs arbitrary: zs) (auto simp: bindE_Inr_iff Cons_eq_append_conv)

text \<open>
  C7: paying in steps is paying at once. A list of payments is accepted exactly when its first part
  is accepted and the rest is accepted on top of what that paid, with the same payments recorded,
  the same amount paid and remaining and the same settlement; what is paid never exceeds the bill,
  and it is settled exactly when nothing remains.
\<close>

theorem applyPayments_in_steps:
  "(applyPayments T paid (ps @ qs) = Inr out \<longleftrightarrow>
     (\<exists>first rest. applyPayments T paid ps = Inr first \<and> applyPayments T (po_paid first) qs = Inr rest \<and>
        out = rest\<lparr>po_payments := po_payments first @ po_payments rest\<rparr>)) \<and>
   (case applyPayments T paid ps of
      Inl e \<Rightarrow> True
    | Inr out \<Rightarrow>
        po_paid out = paid + sum_list (map rp_amount (po_payments out)) \<and> po_paid out \<le> T \<and>
        po_remaining out = T - po_paid out \<and> po_settled out = (po_remaining out = 0))"
proof -
  have pos: "0 \<le> sum_list (map pi_amount ps)" if "mapE record_payment ps = Inr rs" for ps rs
    using recorded_amounts(2) [OF that] by (intro sum_list_map_nonneg) fastforce
  show ?thesis
  proof (intro conjI iffI)
    assume "applyPayments T paid (ps @ qs) = Inr out"
    then show "\<exists>first rest. applyPayments T paid ps = Inr first \<and> applyPayments T (po_paid first) qs = Inr rest \<and>
        out = rest\<lparr>po_payments := po_payments first @ po_payments rest\<rparr>"
      using pos by (fastforce simp: applyPayments_Inr mapE_append add.assoc)
  next
    assume "\<exists>first rest. applyPayments T paid ps = Inr first \<and> applyPayments T (po_paid first) qs = Inr rest \<and>
        out = rest\<lparr>po_payments := po_payments first @ po_payments rest\<rparr>"
    then show "applyPayments T paid (ps @ qs) = Inr out"
      by (auto simp: applyPayments_Inr mapE_append add.assoc)
  next
    show "case applyPayments T paid ps of
        Inl e \<Rightarrow> True
      | Inr out \<Rightarrow>
          po_paid out = paid + sum_list (map rp_amount (po_payments out)) \<and> po_paid out \<le> T \<and>
          po_remaining out = T - po_paid out \<and> po_settled out = (po_remaining out = 0)"
      by (auto simp: applyPayments_Inr dest: recorded_amounts(1) split: sum.splits)
  qed
qed

end
