(* ===== verification/Tally.thy ===== *)
theory Tally
  imports JsNumber
begin

text \<open>
  The pattern of the reports: a \<open>Map\<close> keyed by a text, an entry created for a new key and updated
  with every item of that key. The lemmas say what the entries total, whatever the keys are, and
  what the entry of a key is.
\<close>

fun tally :: "('i \<Rightarrow> 'k) \<Rightarrow> ('i \<Rightarrow> 'e) \<Rightarrow> ('i \<Rightarrow> 'e \<Rightarrow> 'e) \<Rightarrow> 'i list \<Rightarrow> ('k \<times> 'e) list \<Rightarrow> ('k \<times> 'e) list" where
  "tally key init upd [] m = m"
| "tally key init upd (x # xs) m =
     (let entry = (case map_of m (key x) of None \<Rightarrow> init x | Some e \<Rightarrow> e)
      in tally key init upd xs (map_set (key x) (upd x entry) m))"

definition entries_total :: "('e \<Rightarrow> int) \<Rightarrow> ('k \<times> 'e) list \<Rightarrow> int" where
  "entries_total f m = sum_list (map (\<lambda>p. f (snd p)) m)"

lemma entries_total_map_set:
  assumes "0 = f e0"
  shows "entries_total f (map_set k e m) =
    entries_total f m + f e - f (case map_of m k of None \<Rightarrow> e0 | Some e' \<Rightarrow> e')"
  using assms by (induction m) (auto simp: entries_total_def split: option.splits)

lemma entries_total_nonneg: "\<forall>p \<in> set m. 0 \<le> f (snd p) \<Longrightarrow> 0 \<le> entries_total f m"
  unfolding entries_total_def by (rule sum_list_map_nonneg) blast

lemma entry_le_total:
  assumes "\<forall>p \<in> set m. 0 \<le> f (snd p)" "map_of m k = Some e"
  shows "0 \<le> f e" "f e \<le> entries_total f m"
proof -
  have p: "(k, e) \<in> set m" using assms(2) by (rule map_of_SomeD)
  show "0 \<le> f e" using bspec [OF assms(1) p] by simp
  show "f e \<le> entries_total f m"
    using sum_list_remove_in [OF p, of "\<lambda>p. f (snd p)"] assms(1) by (simp add: entries_total_def)
qed

lemma set_map_set: "p \<in> set (map_set k e m) \<Longrightarrow> p = (k, e) \<or> p \<in> set m"
  by (induction m) (auto split: if_splits)

text \<open>
  A running total kept in the entries adds up over all entries, as long as the whole total is a
  safe integer.
\<close>

lemma tally_total:
  assumes "\<And>x e. f (upd x e) = js_add (f e) (g x)" "\<And>x. f (init x) = 0"
    and "\<forall>x \<in> set xs. 0 \<le> g x" "\<forall>p \<in> set m. 0 \<le> f (snd p)"
    and "isSafeInteger (entries_total f m + sum_list (map g xs))"
  shows "entries_total f (tally key init upd xs m) = entries_total f m + sum_list (map g xs) \<and>
    (\<forall>p \<in> set (tally key init upd xs m). 0 \<le> f (snd p))"
  using assms(3-5)
proof (induction xs arbitrary: m)
  case Nil
  then show ?case by simp
next
  case (Cons x xs)
  let ?e = "case map_of m (key x) of None \<Rightarrow> init x | Some e \<Rightarrow> e"
  let ?m = "map_set (key x) (upd x ?e) m"
  have rest: "0 \<le> sum_list (map g xs)" using Cons.prems(1) by (intro sum_list_map_nonneg) simp
  have e: "0 \<le> f ?e" "f ?e \<le> entries_total f m"
    using entry_le_total [OF Cons.prems(2)] entries_total_nonneg [OF Cons.prems(2)] assms(2)
    by (auto split: option.splits)
  have gx: "0 \<le> g x" using Cons.prems(1) by simp
  have "isSafeInteger (f ?e + g x)"
    using isSafeInteger_between [OF _ _ Cons.prems(3)] e gx rest by simp
  then have up: "f (upd x ?e) = f ?e + g x" by (simp add: assms(1) exact)
  have total: "entries_total f ?m = entries_total f m + g x"
    using entries_total_map_set [of f "init x" "key x" "upd x ?e" m] up assms(2) by simp
  have "\<forall>p \<in> set ?m. 0 \<le> f (snd p)" using Cons.prems(2) e gx up by (auto dest!: set_map_set)
  with Cons.IH [of ?m] Cons.prems total show ?case by (simp add: Let_def add.assoc)
qed

lemma tally_total_empty:
  assumes "\<And>x e. f (upd x e) = js_add (f e) (g x)" "\<And>x. f (init x) = 0"
    and "\<forall>x \<in> set xs. 0 \<le> g x" "isSafeInteger (sum_list (map g xs))"
  shows "entries_total f (tally key init upd xs []) = sum_list (map g xs)"
  using tally_total [of f upd g init xs "[]" key] assms by (simp add: entries_total_def)

text \<open>The entries of some keys are the tally of their items.\<close>

lemma filter_map_set:
  "filter (\<lambda>p. R (fst p)) (map_set k v m) = (if R k then map_set k v (filter (\<lambda>p. R (fst p)) m) else filter (\<lambda>p. R (fst p)) m)"
  by (induction m) auto

lemma map_of_filter_key: "R k \<Longrightarrow> map_of (filter (\<lambda>p. R (fst p)) m) k = map_of m k"
  by (induction m) auto

lemma tally_filter:
  "filter (\<lambda>p. R (fst p)) (tally key init upd xs m) = tally key init upd (filter (\<lambda>x. R (key x)) xs) (filter (\<lambda>p. R (fst p)) m)"
  by (induction xs arbitrary: m) (simp_all add: Let_def filter_map_set map_of_filter_key)

text \<open>The items of a class, when the key of an item and of an entry says whether it belongs to it.\<close>

lemma tally_class:
  assumes "\<And>x e. f (upd x e) = js_add (f e) (g x)" "\<And>x. f (init x) = 0"
    and "\<forall>x \<in> set xs. 0 \<le> g x" "isSafeInteger (sum_list (map g xs))"
    and "\<forall>x \<in> set xs. Q x \<longleftrightarrow> R (key x)" "\<forall>(k, e) \<in> set (tally key init upd xs []). P e \<longleftrightarrow> R k"
  shows "sum_list (map f (filter P (map snd (tally key init upd xs [])))) = sum_list (map g (filter Q xs))"
proof -
  let ?m = "tally key init upd xs []"
  have le: "sum_list (map g (filter Q xs)) \<le> sum_list (map g xs) \<and> 0 \<le> sum_list (map g (filter Q xs))"
    using assms(3) by (induction xs) auto
  have q: "filter (\<lambda>x. R (key x)) xs = filter Q xs" using assms(5) by (intro filter_cong) auto
  have "filter P (map snd ?m) = map snd (filter (\<lambda>p. R (fst p)) ?m)"
    unfolding filter_map comp_def using assms(6) by (intro arg_cong [of _ _ "map snd"] filter_cong) auto
  then have "sum_list (map f (filter P (map snd ?m))) = entries_total f (filter (\<lambda>p. R (fst p)) ?m)"
    by (simp add: entries_total_def comp_def)
  also have "\<dots> = entries_total f (tally key init upd (filter Q xs) [])" by (simp only: tally_filter q filter.simps)
  also have "\<dots> = sum_list (map g (filter Q xs))"
    by (rule tally_total_empty [OF assms(1,2)]) (use assms(3) isSafeInteger_between [OF _ _ assms(4)] le in auto)
  finally show ?thesis .
qed

lemma tally_keys: "distinct (map fst m) \<Longrightarrow> distinct (map fst (tally key init upd xs m))"
  by (induction xs arbitrary: m) (simp_all add: Let_def distinct_map_set)

text \<open>A property that creating and updating entries keeps holds of every entry.\<close>

lemma tally_all:
  assumes "\<And>x. x \<in> set xs \<Longrightarrow> P (key x) (upd x (init x))" "\<And>x e. x \<in> set xs \<Longrightarrow> P (key x) e \<Longrightarrow> P (key x) (upd x e)"
    and "\<forall>(k, e) \<in> set m. P k e" "(k, e) \<in> set (tally key init upd xs m)"
  shows "P k e"
  using assms
proof (induction xs arbitrary: m)
  case Nil
  then show ?case by auto
next
  case (Cons x xs)
  let ?e = "case map_of m (key x) of None \<Rightarrow> init x | Some e \<Rightarrow> e"
  have "P (key x) (upd x ?e)"
    using Cons.prems(1,2) [of x] Cons.prems(3) by (auto dest!: map_of_SomeD split: option.splits)
  then have "\<forall>(k, e) \<in> set (map_set (key x) (upd x ?e) m). P k e"
    using Cons.prems(3) by (auto dest!: set_map_set)
  then show ?case using Cons.IH [of "map_set (key x) (upd x ?e) m"] Cons.prems by (simp add: Let_def)
qed

end
