(* ===== verification/Reports.thy ===== *)
theory Reports
  imports Tally Payments Text
begin

text \<open>
  \<open>packages/domain/src/z-report.ts\<close> and \<open>reports.ts\<close>: the day-end report, tax per invoice line and
  the GST summary. \<open>localeCompare\<close> is a parameter. A record indexed by component code is an
  association list, so codes that name a property every object has (such as \<open>constructor\<close>) are
  outside the model. The lemmas show that grouping loses no money.
\<close>

section \<open>The Z-report\<close>

datatype InvoiceStatus = ISSUED | SETTLED | VOIDED

record ZInvoice =
  zi_invoiceNumber :: string
  zi_status :: InvoiceStatus
  zi_subtotal :: Paise
  zi_discountTotal :: Paise
  zi_serviceCharge :: Paise
  zi_taxTotal :: Paise
  zi_roundOff :: number
  zi_grandTotal :: Paise

record ZTaxLine =
  zt_code :: string
  zt_rateBp :: number
  zt_taxableValue :: Paise
  zt_amount :: Paise

record ZPayment =
  zp_mode :: PaymentMode
  zp_label :: "string option"
  zp_amount :: Paise

record ZShift =
  zs_shiftId :: string
  zs_staffId :: string
  zs_openingFloat :: Paise
  zs_expectedCash :: number
  zs_countedCash :: "Paise option"
  zs_variance :: "number option"

record ZReportInput =
  zr_businessDate :: string
  zr_invoices :: "ZInvoice list"
  zr_taxLines :: "ZTaxLine list"
  zr_payments :: "ZPayment list"
  zr_shifts :: "ZShift list"
  zr_cashIn :: Paise
  zr_cashOut :: Paise
  zr_orders :: number

record ZPaymentTotal =
  zpt_mode :: PaymentMode
  zpt_label :: "string option"
  zpt_count :: number
  zpt_amount :: Paise

record ZReport =
  z_businessDate :: string
  z_orders :: number
  z_count :: nat
  z_settled :: nat
  z_unsettled :: nat
  z_voided :: "string list"
  z_numbers :: "string list"
  z_grossSales :: Paise
  z_discounts :: Paise
  z_serviceCharge :: Paise
  z_taxTotal :: Paise
  z_roundOff :: number
  z_netSales :: Paise
  z_settledSales :: Paise
  z_taxes :: "ZTaxLine list"
  z_payments :: "ZPaymentTotal list"
  z_paymentsTotal :: Paise
  z_cashIn :: Paise
  z_cashOut :: Paise
  z_shifts :: "ZShift list"
  z_totalVariance :: number

definition tax_key :: "ZTaxLine \<Rightarrow> string" where
  "tax_key line = zt_code line @ ''|'' @ num_text (zt_rateBp line)"

text \<open>The two totals per code and rate.\<close>

definition tax_tally :: "ZTaxLine list \<Rightarrow> (string \<times> ZTaxLine) list" where
  "tax_tally taxLines =
     tally tax_key
       (\<lambda>line. \<lparr>zt_code = zt_code line, zt_rateBp = zt_rateBp line, zt_taxableValue = 0, zt_amount = 0\<rparr>)
       (\<lambda>line entry. entry\<lparr>zt_taxableValue := js_add (zt_taxableValue entry) (zt_taxableValue line),
                          zt_amount := js_add (zt_amount entry) (zt_amount line)\<rparr>) taxLines []"

fun mode_text :: "PaymentMode \<Rightarrow> string" where
  "mode_text CASH = ''CASH''"
| "mode_text CARD = ''CARD''"
| "mode_text UPI = ''UPI''"
| "mode_text OTHER = ''OTHER''"

definition payment_key :: "ZPayment \<Rightarrow> string" where
  "payment_key payment =
     mode_text (zp_mode payment) @ ''|'' @ (case zp_label payment of None \<Rightarrow> [] | Some l \<Rightarrow> l)"

text \<open>The count and total per mode and label.\<close>

definition payment_tally :: "ZPayment list \<Rightarrow> (string \<times> ZPaymentTotal) list" where
  "payment_tally payments =
     tally payment_key
       (\<lambda>payment. \<lparr>zpt_mode = zp_mode payment, zpt_label = zp_label payment, zpt_count = 0, zpt_amount = 0\<rparr>)
       (\<lambda>payment entry. entry\<lparr>zpt_count := js_add (zpt_count entry) 1,
                             zpt_amount := js_add (zpt_amount entry) (zp_amount payment)\<rparr>) payments []"

definition by_rate :: "(string \<Rightarrow> string \<Rightarrow> int) \<Rightarrow> ZTaxLine \<Rightarrow> ZTaxLine \<Rightarrow> int" where
  "by_rate localeCompare a b =
     (if zt_rateBp a - zt_rateBp b \<noteq> 0 then zt_rateBp a - zt_rateBp b
      else localeCompare (zt_code a) (zt_code b))"

definition buildZReport :: "(string \<Rightarrow> string \<Rightarrow> int) \<Rightarrow> ZReportInput \<Rightarrow> ZReport result" where
  "buildZReport localeCompare input =
     (let live = filter (\<lambda>invoice. zi_status invoice \<noteq> VOIDED) (zr_invoices input);
          total_of = (\<lambda>pick. sum_paise (map pick live))
      in bindE (total_of zi_subtotal) (\<lambda>grossSales.
         bindE (total_of zi_discountTotal) (\<lambda>discounts.
         bindE (total_of zi_serviceCharge) (\<lambda>serviceCharge.
         bindE (total_of zi_taxTotal) (\<lambda>taxTotal.
         bindE (total_of zi_roundOff) (\<lambda>roundOff.
         bindE (total_of zi_grandTotal) (\<lambda>netSales.
         bindE (sum_paise (map zi_grandTotal (filter (\<lambda>invoice. zi_status invoice = SETTLED) live))) (\<lambda>settledSales.
         bindE (sum_paise (map zp_amount (zr_payments input))) (\<lambda>paymentsTotal.
         Inr \<lparr>z_businessDate = zr_businessDate input, z_orders = zr_orders input,
              z_count = length live,
              z_settled = length (filter (\<lambda>invoice. zi_status invoice = SETTLED) live),
              z_unsettled = length (filter (\<lambda>invoice. zi_status invoice = ISSUED) live),
              z_voided = map zi_invoiceNumber (filter (\<lambda>invoice. zi_status invoice = VOIDED) (zr_invoices input)),
              z_numbers = map zi_invoiceNumber (zr_invoices input),
              z_grossSales = grossSales, z_discounts = discounts, z_serviceCharge = serviceCharge,
              z_taxTotal = taxTotal, z_roundOff = roundOff, z_netSales = netSales,
              z_settledSales = settledSales,
              z_taxes = js_sort (by_rate localeCompare) (map snd (tax_tally (zr_taxLines input))),
              z_payments = map snd (payment_tally (zr_payments input)),
              z_paymentsTotal = paymentsTotal,
              z_cashIn = zr_cashIn input, z_cashOut = zr_cashOut input,
              z_shifts = zr_shifts input,
              z_totalVariance =
                js_total 0 (map (\<lambda>shift. case zs_variance shift of None \<Rightarrow> 0 | Some v \<Rightarrow> v) (zr_shifts input))\<rparr>)))))))))"

section \<open>Tax per line\<close>

record ReportLine =
  rl_lineId :: string
  rl_taxGroupId :: "string option"
  rl_taxableValue :: Paise

record ReportTaxLine =
  rt_taxGroupId :: string
  rt_amount :: Paise

text \<open>The lines of each group, in order.\<close>

fun report_groups :: "ReportLine list \<Rightarrow> (string \<times> ReportLine list) list \<Rightarrow> (string \<times> ReportLine list) list" where
  "report_groups [] m = m"
| "report_groups (line # lines) m =
     report_groups lines
       (case rl_taxGroupId line of
          None \<Rightarrow> m
        | Some g \<Rightarrow> map_set g ((case map_of m g of None \<Rightarrow> [] | Some ls \<Rightarrow> ls) @ [line]) m)"

fun set_each :: "string list \<Rightarrow> Paise list \<Rightarrow> (string \<times> Paise) list \<Rightarrow> (string \<times> Paise) list" where
  "set_each (i # is) (v # vs) m = set_each is vs (map_set i v m)"
| "set_each is vs m = m"

fun share_groups ::
  "ReportTaxLine list \<Rightarrow> (string \<times> ReportLine list) list \<Rightarrow> (string \<times> Paise) list \<Rightarrow> (string \<times> Paise) list result" where
  "share_groups taxLines [] shares = Inr shares"
| "share_groups taxLines ((groupId, groupLines) # groups) shares =
     bindE (sum_paise (map rt_amount (filter (\<lambda>line. rt_taxGroupId line = groupId) taxLines))) (\<lambda>tax.
     let weights = map rl_taxableValue groupLines
     in if tax = 0 then share_groups taxLines groups shares
        else bindE (sum_paise weights) (\<lambda>whole.
          if whole = 0 then share_groups taxLines groups shares
          else bindE (allocate tax weights) (\<lambda>parts.
            share_groups taxLines groups (set_each (map rl_lineId groupLines) parts shares))))"

definition lineTaxShares :: "ReportLine list \<Rightarrow> ReportTaxLine list \<Rightarrow> (string \<times> Paise) list result" where
  "lineTaxShares lines taxLines =
     share_groups taxLines (report_groups lines []) (foldl (\<lambda>m line. map_set (rl_lineId line) 0 m) [] lines)"

section \<open>The GST summary\<close>

record GstComponent =
  gc_code :: string
  gc_rateBp :: number
  gc_amount :: Paise

record GstCluster =
  gl_sacCode :: "string option"
  gl_taxableValue :: Paise
  gl_components :: "GstComponent list"

record GstRow =
  gr_sacCode :: "string option"
  gr_rateBp :: number
  gr_taxableValue :: Paise
  gr_components :: "(string \<times> Paise) list"

record GstSummaryRow =
  gs_row :: GstRow
  gs_taxTotal :: Paise

definition sac_text :: "string option \<Rightarrow> string" where
  "sac_text sac = (case sac of None \<Rightarrow> [] | Some s \<Rightarrow> s)"

text \<open>\<open>row.components[code] = (row.components[code] ?? 0) + amount\<close> for each component.\<close>

definition add_components :: "GstComponent list \<Rightarrow> (string \<times> Paise) list \<Rightarrow> (string \<times> Paise) list" where
  "add_components components m =
     tally gc_code (\<lambda>_. 0) (\<lambda>component amount. js_add amount (gc_amount component)) components m"

fun gst_rows :: "GstCluster list \<Rightarrow> (string \<times> GstRow) list \<Rightarrow> (string \<times> GstRow) list result" where
  "gst_rows [] rows = Inr rows"
| "gst_rows (cluster # clusters) rows =
     bindE (sum_paise (map gc_rateBp (gl_components cluster))) (\<lambda>rateBp.
     let key = sac_text (gl_sacCode cluster) @ ''|'' @ num_text rateBp;
         r = (case map_of rows key of
                None \<Rightarrow> \<lparr>gr_sacCode = gl_sacCode cluster, gr_rateBp = rateBp, gr_taxableValue = 0, gr_components = []\<rparr>
              | Some r \<Rightarrow> r)
     in gst_rows clusters
          (map_set key
            (r\<lparr>gr_taxableValue := js_add (gr_taxableValue r) (gl_taxableValue cluster),
               gr_components := add_components (gl_components cluster) (gr_components r)\<rparr>) rows))"

definition by_sac :: "(string \<Rightarrow> string \<Rightarrow> int) \<Rightarrow> GstRow \<Rightarrow> GstRow \<Rightarrow> int" where
  "by_sac localeCompare a b =
     (let c = localeCompare (sac_text (gr_sacCode a)) (sac_text (gr_sacCode b))
      in if c \<noteq> 0 then c else gr_rateBp a - gr_rateBp b)"

definition gstSummary :: "(string \<Rightarrow> string \<Rightarrow> int) \<Rightarrow> GstCluster list \<Rightarrow> GstSummaryRow list result" where
  "gstSummary localeCompare clusters =
     bindE (gst_rows clusters []) (\<lambda>rows.
     mapE (\<lambda>r. bindE (sum_paise (map snd (gr_components r))) (\<lambda>taxTotal.
       Inr \<lparr>gs_row = r, gs_taxTotal = taxTotal\<rparr>)) (js_sort (by_sac localeCompare) (map snd rows)))"

section \<open>Nothing is lost in the Z-report\<close>

text \<open>The part of a sum that a condition picks.\<close>

definition sum_where :: "('a \<Rightarrow> bool) \<Rightarrow> ('a \<Rightarrow> int) \<Rightarrow> 'a list \<Rightarrow> int" where
  "sum_where P f xs = sum_list (map (\<lambda>x. if P x then f x else 0) xs)"

lemma sum_where_filter: "sum_where P f xs = sum_list (map f (filter P xs))"
  by (induction xs) (simp_all add: sum_where_def)

lemma sum_where_mset: "mset xs = mset ys \<Longrightarrow> sum_where P f xs = sum_where P f ys"
  by (simp add: sum_where_def flip: sum_mset_sum_list)

lemma sum_paise_live:
  "sum_paise (map f (filter P xs)) = Inr s \<Longrightarrow> \<forall>x \<in> set xs. 0 \<le> f x \<Longrightarrow> s = sum_where P f xs"
  using sum_paise_all [of "map f (filter P xs)" s] by (simp add: sum_where_filter)

lemma sum_paise_signed:
  assumes "sum_paise xs = Inr s" "isSafeInteger (sum_list (map abs xs))"
  shows "s = sum_list xs"
proof -
  have "s = js_total 0 xs" using assms(1) by (auto simp: sum_paise_def results dest: sum_from_Inr)
  then show ?thesis using js_total_abs [of 0 xs] assms(2) by simp
qed

lemma abs_where_le: "sum_list (map abs (map f (filter P xs))) \<le> sum_list (map (\<lambda>x. \<bar>f x\<bar>) xs)"
  "0 \<le> sum_list (map abs (map f (filter P xs)))" for f :: "'a \<Rightarrow> int"
  by (induction xs) auto

lemma bar_split:
  assumes "c @ ''|'' @ num_text r = c' @ ''|'' @ num_text r'"
  shows "c = c' \<and> r = r'"
proof -
  let ?after_bar = "\<lambda>s. rev (takeWhile (\<lambda>x. x \<noteq> CHR ''|'') (rev s))"
  have no: "\<forall>x \<in> set (num_text n). x \<noteq> CHR ''|''" for n using num_text_chars [of "CHR ''|''" n] by (auto simp: is_digit_char_def)
  have tail: "?after_bar (c @ ''|'' @ num_text n) = num_text n" for c n
    using no [of n] takeWhile_append2 [of "rev (num_text n)" "\<lambda>x. x \<noteq> CHR ''|''" "CHR ''|'' # rev c"] by simp
  have "num_text r = num_text r'" using arg_cong [OF assms, of ?after_bar] unfolding tail .
  then show ?thesis using assms num_text_inj by auto
qed

lemma tax_key_eq: "tax_key a = tax_key b \<longleftrightarrow> zt_code a = zt_code b \<and> zt_rateBp a = zt_rateBp b"
  using bar_split [of "zt_code a" "zt_rateBp a" "zt_code b" "zt_rateBp b"] by (auto simp: tax_key_def)

definition label_text :: "string option \<Rightarrow> string" where
  "label_text label = (case label of None \<Rightarrow> [] | Some l \<Rightarrow> l)"

lemma payment_text_eq:
  "mode_text m @ ''|'' @ l = mode_text m' @ ''|'' @ l' \<longleftrightarrow> m = m' \<and> l = l'"
  by (cases m; cases m') simp_all

lemma tax_entries: "\<forall>(k, e) \<in> set (tax_tally lines). k = tax_key e"
proof -
  have "k = tax_key e" if "(k, e) \<in> set (tax_tally lines)" for k e
    using tally_all [of lines "\<lambda>k e. k = tax_key e" tax_key _ _ "[]" k e, OF _ _ _ that [unfolded tax_tally_def]] by (simp add: tax_key_def)
  then show ?thesis by blast
qed

lemma payment_entries: "\<forall>(k, e) \<in> set (payment_tally payments). k = mode_text (zpt_mode e) @ ''|'' @ label_text (zpt_label e)"
proof -
  have "k = mode_text (zpt_mode e) @ ''|'' @ label_text (zpt_label e)" if "(k, e) \<in> set (payment_tally payments)" for k e
    using tally_all [of payments "\<lambda>k e. k = mode_text (zpt_mode e) @ ''|'' @ label_text (zpt_label e)" payment_key _ _ "[]" k e,
        OF _ _ _ that [unfolded payment_tally_def]] by (simp add: payment_key_def payment_text_eq label_text_def)
  then show ?thesis by blast
qed

lemma zreport_sales:
  assumes "buildZReport lc input = Inr z"
    and "\<forall>i \<in> set (zr_invoices input). 0 \<le> zi_subtotal i \<and> 0 \<le> zi_discountTotal i \<and> 0 \<le> zi_serviceCharge i \<and> 0 \<le> zi_taxTotal i \<and> 0 \<le> zi_grandTotal i"
    and "isSafeInteger (sum_list (map (\<lambda>i. \<bar>zi_roundOff i\<bar>) (zr_invoices input)))"
  shows "z_grossSales z = sum_where (\<lambda>i. zi_status i \<noteq> VOIDED) zi_subtotal (zr_invoices input) \<and>
    z_discounts z = sum_where (\<lambda>i. zi_status i \<noteq> VOIDED) zi_discountTotal (zr_invoices input) \<and>
    z_serviceCharge z = sum_where (\<lambda>i. zi_status i \<noteq> VOIDED) zi_serviceCharge (zr_invoices input) \<and>
    z_taxTotal z = sum_where (\<lambda>i. zi_status i \<noteq> VOIDED) zi_taxTotal (zr_invoices input) \<and>
    z_roundOff z = sum_where (\<lambda>i. zi_status i \<noteq> VOIDED) zi_roundOff (zr_invoices input) \<and>
    z_netSales z = sum_where (\<lambda>i. zi_status i \<noteq> VOIDED) zi_grandTotal (zr_invoices input) \<and>
    z_settledSales z = sum_where (\<lambda>i. zi_status i = SETTLED) zi_grandTotal (zr_invoices input)"
proof -
  let ?live = "\<lambda>i. zi_status i \<noteq> VOIDED" and ?is = "zr_invoices input"
  have run: "sum_paise (map zi_subtotal (filter ?live ?is)) = Inr (z_grossSales z)"
    "sum_paise (map zi_discountTotal (filter ?live ?is)) = Inr (z_discounts z)"
    "sum_paise (map zi_serviceCharge (filter ?live ?is)) = Inr (z_serviceCharge z)"
    "sum_paise (map zi_taxTotal (filter ?live ?is)) = Inr (z_taxTotal z)"
    "sum_paise (map zi_roundOff (filter ?live ?is)) = Inr (z_roundOff z)"
    "sum_paise (map zi_grandTotal (filter ?live ?is)) = Inr (z_netSales z)"
    "sum_paise (map zi_grandTotal (filter (\<lambda>i. zi_status i = SETTLED) (filter ?live ?is))) = Inr (z_settledSales z)"
    using assms(1) by (auto simp: buildZReport_def Let_def bindE_Inr_iff)
  have settled: "filter (\<lambda>i. zi_status i = SETTLED) (filter ?live ?is) = filter (\<lambda>i. zi_status i = SETTLED) ?is"
    by (auto intro: filter_cong)
  have "isSafeInteger (sum_list (map abs (map zi_roundOff (filter ?live ?is))))"
    using isSafeInteger_between [OF _ _ assms(3)] abs_where_le by blast
  then have "z_roundOff z = sum_where ?live zi_roundOff ?is"
    using sum_paise_signed [OF run(5)] by (simp add: sum_where_filter)
  then show ?thesis
    using assms(2) sum_paise_live [OF run(1)] sum_paise_live [OF run(2)] sum_paise_live [OF run(3)] sum_paise_live [OF run(4)]
      sum_paise_live [OF run(6)] sum_paise_live [OF run(7) [unfolded settled]] by simp
qed

lemma zreport_register:
  assumes "buildZReport lc input = Inr z"
  shows "z_settled z = count_list (map zi_status (zr_invoices input)) SETTLED \<and>
    z_unsettled z = count_list (map zi_status (zr_invoices input)) ISSUED \<and> z_count z = z_settled z + z_unsettled z \<and>
    z_numbers z = map zi_invoiceNumber (zr_invoices input) \<and>
    z_voided z = concat (map (\<lambda>i. if zi_status i = VOIDED then [zi_invoiceNumber i] else []) (zr_invoices input))"
proof -
  have counts: "length (filter (\<lambda>i. zi_status i = SETTLED) (filter (\<lambda>i. zi_status i \<noteq> VOIDED) is)) = count_list (map zi_status is) SETTLED"
    "length (filter (\<lambda>i. zi_status i = ISSUED) (filter (\<lambda>i. zi_status i \<noteq> VOIDED) is)) = count_list (map zi_status is) ISSUED"
    "length (filter (\<lambda>i. zi_status i \<noteq> VOIDED) is) = count_list (map zi_status is) SETTLED + count_list (map zi_status is) ISSUED"
    "map zi_invoiceNumber (filter (\<lambda>i. zi_status i = VOIDED) is) = concat (map (\<lambda>i. if zi_status i = VOIDED then [zi_invoiceNumber i] else []) is)"
    for "is" :: "ZInvoice list"
    by (induction "is") (auto, (metis InvoiceStatus.exhaust)+)
  show ?thesis using assms counts [of "zr_invoices input"] by (auto simp: buildZReport_def Let_def bindE_Inr_iff)
qed

lemma zreport_taxes:
  assumes "buildZReport lc input = Inr z"
    and "\<forall>t \<in> set (zr_taxLines input). 0 \<le> zt_taxableValue t \<and> 0 \<le> zt_amount t"
    and "isSafeInteger (sum_list (map zt_taxableValue (zr_taxLines input)))"
    and "isSafeInteger (sum_list (map zt_amount (zr_taxLines input)))"
  shows "distinct (map (\<lambda>t. (zt_code t, zt_rateBp t)) (z_taxes z)) \<and>
    (\<forall>c r. sum_where (\<lambda>t. zt_code t = c \<and> zt_rateBp t = r) zt_amount (z_taxes z) =
        sum_where (\<lambda>t. zt_code t = c \<and> zt_rateBp t = r) zt_amount (zr_taxLines input) \<and>
      sum_where (\<lambda>t. zt_code t = c \<and> zt_rateBp t = r) zt_taxableValue (z_taxes z) =
        sum_where (\<lambda>t. zt_code t = c \<and> zt_rateBp t = r) zt_taxableValue (zr_taxLines input))"
proof -
  let ?lines = "zr_taxLines input"
  have z: "mset (z_taxes z) = mset (map snd (tax_tally ?lines))"
    using assms(1) by (auto simp: buildZReport_def Let_def bindE_Inr_iff)
  have keys: "map fst (tax_tally ?lines) = map tax_key (map snd (tax_tally ?lines))"
    using tax_entries [of ?lines] by (auto intro!: map_cong)
  have "distinct (map fst (tax_tally ?lines))" unfolding tax_tally_def by (rule tally_keys) simp
  then have "distinct (map (\<lambda>t. (zt_code t, zt_rateBp t)) (map snd (tax_tally ?lines)))"
    unfolding keys by (auto simp: distinct_map inj_on_def tax_key_eq)
  then have once: "distinct (map (\<lambda>t. (zt_code t, zt_rateBp t)) (z_taxes z))" using z by (metis mset_map mset_eq_imp_distinct_iff)
  have part: "sum_where (\<lambda>t. zt_code t = c \<and> zt_rateBp t = r) f (z_taxes z) =
      sum_where (\<lambda>t. zt_code t = c \<and> zt_rateBp t = r) f ?lines"
    if f: "\<And>x e. f (e\<lparr>zt_taxableValue := js_add (zt_taxableValue e) (zt_taxableValue x), zt_amount := js_add (zt_amount e) (zt_amount x)\<rparr>) =
        js_add (f e) (f x)" "\<And>x :: ZTaxLine. f \<lparr>zt_code = zt_code x, zt_rateBp = zt_rateBp x, zt_taxableValue = 0, zt_amount = 0\<rparr> = 0"
      "\<forall>x \<in> set ?lines. 0 \<le> f x" "isSafeInteger (sum_list (map f ?lines))" for f c r
  proof -
    let ?key = "c @ ''|'' @ num_text r"
    have key: "tax_key t = ?key \<longleftrightarrow> zt_code t = c \<and> zt_rateBp t = r" for t
      using bar_split [of "zt_code t" "zt_rateBp t" c r] by (auto simp: tax_key_def)
    have "sum_list (map f (filter (\<lambda>t. zt_code t = c \<and> zt_rateBp t = r) (map snd (tax_tally ?lines)))) =
        sum_list (map f (filter (\<lambda>t. zt_code t = c \<and> zt_rateBp t = r) ?lines))"
      unfolding tax_tally_def
    proof (rule tally_class [where R = "\<lambda>k. k = ?key" and g = f])
      show "\<forall>x \<in> set ?lines. (zt_code x = c \<and> zt_rateBp x = r) = (tax_key x = ?key)" using key by blast
      show "\<forall>(k, e) \<in> set (tally tax_key (\<lambda>line. \<lparr>zt_code = zt_code line, zt_rateBp = zt_rateBp line, zt_taxableValue = 0, zt_amount = 0\<rparr>)
          (\<lambda>line entry. entry\<lparr>zt_taxableValue := js_add (zt_taxableValue entry) (zt_taxableValue line),
            zt_amount := js_add (zt_amount entry) (zt_amount line)\<rparr>) ?lines []). (zt_code e = c \<and> zt_rateBp e = r) = (k = ?key)"
        using tax_entries [of ?lines] key unfolding tax_tally_def by fastforce
    qed (fact f)+
    then show ?thesis using sum_where_mset [OF z] by (simp add: sum_where_filter)
  qed
  have "sum_where (\<lambda>t. zt_code t = c \<and> zt_rateBp t = r) zt_amount (z_taxes z) =
      sum_where (\<lambda>t. zt_code t = c \<and> zt_rateBp t = r) zt_amount ?lines" for c r
    by (rule part) (use assms(2,4) in auto)
  moreover have "sum_where (\<lambda>t. zt_code t = c \<and> zt_rateBp t = r) zt_taxableValue (z_taxes z) =
      sum_where (\<lambda>t. zt_code t = c \<and> zt_rateBp t = r) zt_taxableValue ?lines" for c r
    by (rule part) (use assms(2,3) in auto)
  ultimately show ?thesis using once by blast
qed

lemma zreport_payments:
  assumes "buildZReport lc input = Inr z"
    and "\<forall>p \<in> set (zr_payments input). 0 \<le> zp_amount p" "isSafeInteger (int (length (zr_payments input)))"
  shows "distinct (map (\<lambda>p. (zpt_mode p, label_text (zpt_label p))) (z_payments z)) \<and>
    (\<forall>m l. sum_where (\<lambda>p. zpt_mode p = m \<and> label_text (zpt_label p) = l) zpt_amount (z_payments z) =
        sum_where (\<lambda>p. zp_mode p = m \<and> label_text (zp_label p) = l) zp_amount (zr_payments input) \<and>
      sum_where (\<lambda>p. zpt_mode p = m \<and> label_text (zpt_label p) = l) zpt_count (z_payments z) =
        sum_where (\<lambda>p. zp_mode p = m \<and> label_text (zp_label p) = l) (\<lambda>_. 1) (zr_payments input)) \<and>
    z_paymentsTotal z = sum_list (map zp_amount (zr_payments input))"
proof -
  let ?ps = "zr_payments input"
  let ?text = "\<lambda>e. mode_text (zpt_mode e) @ ''|'' @ label_text (zpt_label e)"
  have z: "z_payments z = map snd (payment_tally ?ps)" and total: "sum_paise (map zp_amount ?ps) = Inr (z_paymentsTotal z)"
    using assms(1) by (auto simp: buildZReport_def Let_def bindE_Inr_iff)
  have paid: "z_paymentsTotal z = sum_list (map zp_amount ?ps)" "isSafeInteger (sum_list (map zp_amount ?ps))"
    using sum_paise_all [of "map zp_amount ?ps"] total assms(2) by auto
  have keys: "map fst (payment_tally ?ps) = map ?text (z_payments z)"
    unfolding z using payment_entries [of ?ps] by (auto intro!: map_cong)
  have "distinct (map fst (payment_tally ?ps))" unfolding payment_tally_def by (rule tally_keys) simp
  then have once: "distinct (map (\<lambda>p. (zpt_mode p, label_text (zpt_label p))) (z_payments z))"
    unfolding keys by (auto simp: distinct_map inj_on_def)
  have part: "sum_where (\<lambda>p. zpt_mode p = m \<and> label_text (zpt_label p) = l) f (z_payments z) =
      sum_where (\<lambda>p. zp_mode p = m \<and> label_text (zp_label p) = l) g ?ps"
    if f: "\<And>x e. f (e\<lparr>zpt_count := js_add (zpt_count e) 1, zpt_amount := js_add (zpt_amount e) (zp_amount x)\<rparr>) = js_add (f e) (g x)"
      "\<And>x :: ZPayment. f \<lparr>zpt_mode = zp_mode x, zpt_label = zp_label x, zpt_count = 0, zpt_amount = 0\<rparr> = 0"
      "\<forall>x \<in> set ?ps. 0 \<le> g x" "isSafeInteger (sum_list (map g ?ps))" for f g m l
  proof -
    let ?key = "mode_text m @ ''|'' @ l"
    have "sum_list (map f (filter (\<lambda>p. zpt_mode p = m \<and> label_text (zpt_label p) = l) (map snd (payment_tally ?ps)))) =
        sum_list (map g (filter (\<lambda>p. zp_mode p = m \<and> label_text (zp_label p) = l) ?ps))"
      unfolding payment_tally_def
    proof (rule tally_class [where R = "\<lambda>k. k = ?key" and g = g])
      show "\<forall>x \<in> set ?ps. (zp_mode x = m \<and> label_text (zp_label x) = l) = (payment_key x = ?key)"
        using payment_text_eq unfolding payment_key_def label_text_def by blast
      show "\<forall>(k, e) \<in> set (tally payment_key (\<lambda>payment. \<lparr>zpt_mode = zp_mode payment, zpt_label = zp_label payment, zpt_count = 0, zpt_amount = 0\<rparr>)
          (\<lambda>payment entry. entry\<lparr>zpt_count := js_add (zpt_count entry) 1, zpt_amount := js_add (zpt_amount entry) (zp_amount payment)\<rparr>) ?ps []).
          (zpt_mode e = m \<and> label_text (zpt_label e) = l) = (k = ?key)"
        using payment_entries [of ?ps] payment_text_eq unfolding payment_tally_def by auto
    qed (fact f)+
    then show ?thesis by (simp add: z sum_where_filter)
  qed
  have one: "sum_list (map (\<lambda>_. 1) xs) = int (length xs)" for xs :: "'z list" by (induction xs) auto
  have "sum_where (\<lambda>p. zpt_mode p = m \<and> label_text (zpt_label p) = l) zpt_amount (z_payments z) =
      sum_where (\<lambda>p. zp_mode p = m \<and> label_text (zp_label p) = l) zp_amount ?ps" for m l
    by (rule part) (use assms(2) paid in auto)
  moreover have "sum_where (\<lambda>p. zpt_mode p = m \<and> label_text (zpt_label p) = l) zpt_count (z_payments z) =
      sum_where (\<lambda>p. zp_mode p = m \<and> label_text (zp_label p) = l) (\<lambda>_. 1) ?ps" for m l
    by (rule part) (use assms(3) one [of ?ps] in auto)
  ultimately show ?thesis using once paid by blast
qed

text \<open>
  C24: the Z-report loses no money and invents none. Every sales total is the sum over the invoices that are not voided (settled sales
  over the settled ones); every number issued is in the register in its order, the voided ones are listed and count in no
  total, and the others are counted as settled or not. Sorted or grouped, there is one tax row per code and rate, with the
  taxable value and the tax of exactly the lines of that code and rate, and one payment row per mode and label, with the number and
  the amount of exactly the payments of that mode and label; the payments' total is their sum, and the variance that of the shifts.
  Amounts are not negative, but for round-off and variance, and the sums are safe integers.
\<close>

theorem buildZReport_totals:
  assumes "buildZReport lc input = Inr z"
    and "\<forall>i \<in> set (zr_invoices input). 0 \<le> zi_subtotal i \<and> 0 \<le> zi_discountTotal i \<and> 0 \<le> zi_serviceCharge i \<and> 0 \<le> zi_taxTotal i \<and> 0 \<le> zi_grandTotal i"
    and "isSafeInteger (sum_list (map (\<lambda>i. \<bar>zi_roundOff i\<bar>) (zr_invoices input)))"
    and "\<forall>p \<in> set (zr_payments input). 0 \<le> zp_amount p" "isSafeInteger (int (length (zr_payments input)))"
    and "\<forall>t \<in> set (zr_taxLines input). 0 \<le> zt_taxableValue t \<and> 0 \<le> zt_amount t"
    and "isSafeInteger (sum_list (map zt_taxableValue (zr_taxLines input)))"
    and "isSafeInteger (sum_list (map zt_amount (zr_taxLines input)))"
    and "isSafeInteger (sum_list (map (\<lambda>s. \<bar>case zs_variance s of None \<Rightarrow> 0 | Some v \<Rightarrow> v\<bar>) (zr_shifts input)))"
  shows "(z_businessDate z = zr_businessDate input \<and> z_orders z = zr_orders input \<and>
      z_cashIn z = zr_cashIn input \<and> z_cashOut z = zr_cashOut input \<and> z_shifts z = zr_shifts input) \<and>
    (z_grossSales z = sum_where (\<lambda>i. zi_status i \<noteq> VOIDED) zi_subtotal (zr_invoices input) \<and>
      z_discounts z = sum_where (\<lambda>i. zi_status i \<noteq> VOIDED) zi_discountTotal (zr_invoices input) \<and>
      z_serviceCharge z = sum_where (\<lambda>i. zi_status i \<noteq> VOIDED) zi_serviceCharge (zr_invoices input) \<and>
      z_taxTotal z = sum_where (\<lambda>i. zi_status i \<noteq> VOIDED) zi_taxTotal (zr_invoices input) \<and>
      z_roundOff z = sum_where (\<lambda>i. zi_status i \<noteq> VOIDED) zi_roundOff (zr_invoices input) \<and>
      z_netSales z = sum_where (\<lambda>i. zi_status i \<noteq> VOIDED) zi_grandTotal (zr_invoices input) \<and>
      z_settledSales z = sum_where (\<lambda>i. zi_status i = SETTLED) zi_grandTotal (zr_invoices input)) \<and>
    (z_settled z = count_list (map zi_status (zr_invoices input)) SETTLED \<and>
      z_unsettled z = count_list (map zi_status (zr_invoices input)) ISSUED \<and> z_count z = z_settled z + z_unsettled z \<and>
      z_numbers z = map zi_invoiceNumber (zr_invoices input) \<and>
      z_voided z = concat (map (\<lambda>i. if zi_status i = VOIDED then [zi_invoiceNumber i] else []) (zr_invoices input))) \<and>
    (distinct (map (\<lambda>t. (zt_code t, zt_rateBp t)) (z_taxes z)) \<and>
      (\<forall>c r. sum_where (\<lambda>t. zt_code t = c \<and> zt_rateBp t = r) zt_amount (z_taxes z) =
          sum_where (\<lambda>t. zt_code t = c \<and> zt_rateBp t = r) zt_amount (zr_taxLines input) \<and>
        sum_where (\<lambda>t. zt_code t = c \<and> zt_rateBp t = r) zt_taxableValue (z_taxes z) =
          sum_where (\<lambda>t. zt_code t = c \<and> zt_rateBp t = r) zt_taxableValue (zr_taxLines input))) \<and>
    (distinct (map (\<lambda>p. (zpt_mode p, label_text (zpt_label p))) (z_payments z)) \<and>
      (\<forall>m l. sum_where (\<lambda>p. zpt_mode p = m \<and> label_text (zpt_label p) = l) zpt_amount (z_payments z) =
          sum_where (\<lambda>p. zp_mode p = m \<and> label_text (zp_label p) = l) zp_amount (zr_payments input) \<and>
        sum_where (\<lambda>p. zpt_mode p = m \<and> label_text (zpt_label p) = l) zpt_count (z_payments z) =
          sum_where (\<lambda>p. zp_mode p = m \<and> label_text (zp_label p) = l) (\<lambda>_. 1) (zr_payments input))) \<and>
    z_paymentsTotal z = sum_list (map zp_amount (zr_payments input)) \<and>
    z_totalVariance z = sum_list (map (\<lambda>s. case zs_variance s of None \<Rightarrow> 0 | Some v \<Rightarrow> v) (zr_shifts input))"
proof -
  have passed: "z_businessDate z = zr_businessDate input \<and> z_orders z = zr_orders input \<and>
      z_cashIn z = zr_cashIn input \<and> z_cashOut z = zr_cashOut input \<and> z_shifts z = zr_shifts input"
    and "z_totalVariance z = js_total 0 (map (\<lambda>s. case zs_variance s of None \<Rightarrow> 0 | Some v \<Rightarrow> v) (zr_shifts input))"
    using assms(1) by (auto simp: buildZReport_def Let_def bindE_Inr_iff)
  then have "z_totalVariance z = sum_list (map (\<lambda>s. case zs_variance s of None \<Rightarrow> 0 | Some v \<Rightarrow> v) (zr_shifts input))"
    using js_total_abs [of 0 "map (\<lambda>s. case zs_variance s of None \<Rightarrow> 0 | Some v \<Rightarrow> v) (zr_shifts input)"] assms(9) by (simp add: comp_def)
  then show ?thesis
    using passed zreport_sales [OF assms(1-3)] zreport_register [OF assms(1)] zreport_taxes [OF assms(1,6-8)]
      zreport_payments [OF assms(1,4,5)] by (intro conjI) blast+
qed

definition sample_z :: ZReportInput where
  "sample_z = \<lparr>zr_businessDate = ''2026-03-31'',
     zr_invoices = [
       \<lparr>zi_invoiceNumber = ''1'', zi_status = SETTLED, zi_subtotal = 480, zi_discountTotal = 0, zi_serviceCharge = 0, zi_taxTotal = 24,
        zi_roundOff = - 4, zi_grandTotal = 500\<rparr>,
       \<lparr>zi_invoiceNumber = ''2'', zi_status = VOIDED, zi_subtotal = 900, zi_discountTotal = 0, zi_serviceCharge = 0, zi_taxTotal = 45,
        zi_roundOff = 55, zi_grandTotal = 1000\<rparr>,
       \<lparr>zi_invoiceNumber = ''3'', zi_status = ISSUED, zi_subtotal = 200, zi_discountTotal = 0, zi_serviceCharge = 0, zi_taxTotal = 10,
        zi_roundOff = - 10, zi_grandTotal = 200\<rparr>],
     zr_taxLines = [\<lparr>zt_code = ''CGST'', zt_rateBp = 250, zt_taxableValue = 480, zt_amount = 12\<rparr>,
       \<lparr>zt_code = ''SGST'', zt_rateBp = 250, zt_taxableValue = 480, zt_amount = 12\<rparr>,
       \<lparr>zt_code = ''CGST'', zt_rateBp = 250, zt_taxableValue = 200, zt_amount = 5\<rparr>,
       \<lparr>zt_code = ''SGST'', zt_rateBp = 250, zt_taxableValue = 200, zt_amount = 5\<rparr>],
     zr_payments = [\<lparr>zp_mode = CASH, zp_label = None, zp_amount = 300\<rparr>,
       \<lparr>zp_mode = UPI, zp_label = None, zp_amount = 150\<rparr>, \<lparr>zp_mode = CASH, zp_label = None, zp_amount = 50\<rparr>],
     zr_shifts = [\<lparr>zs_shiftId = ''s'', zs_staffId = ''asha'', zs_openingFloat = 100, zs_expectedCash = 450, zs_countedCash = Some 440,
       zs_variance = Some (- 10)\<rparr>], zr_cashIn = 0, zr_cashOut = 0, zr_orders = 3\<rparr>"

theorem buildZReport_totals_witness:
  "\<exists>z. buildZReport (\<lambda>a b. 0) sample_z = Inr z \<and> z_netSales z = 700 \<and> z_settledSales z = 500 \<and> z_voided z = [''2''] \<and>
     z_settled z = 1 \<and> z_unsettled z = 1 \<and> z_paymentsTotal z = 500 \<and> z_totalVariance z = - 10 \<and>
     sum_where (\<lambda>t. zt_code t = ''CGST'' \<and> zt_rateBp t = 250) zt_amount (z_taxes z) = 17 \<and>
     sum_where (\<lambda>p. zpt_mode p = CASH \<and> label_text (zpt_label p) = []) zpt_count (z_payments z) = 2"
proof -
  have "\<not> isl (buildZReport (\<lambda>a b. 0) sample_z)" by code_simp
  then obtain z where run: "buildZReport (\<lambda>a b. 0) sample_z = Inr z" by (cases "buildZReport (\<lambda>a b. 0) sample_z") auto
  note facts = buildZReport_totals [OF run]
  have "sum_where (\<lambda>t. zt_code t = ''CGST'' \<and> zt_rateBp t = 250) zt_amount (z_taxes z) =
      sum_where (\<lambda>t. zt_code t = ''CGST'' \<and> zt_rateBp t = 250) zt_amount (zr_taxLines sample_z)"
    "sum_where (\<lambda>p. zpt_mode p = CASH \<and> label_text (zpt_label p) = []) zpt_count (z_payments z) =
      sum_where (\<lambda>p. zp_mode p = CASH \<and> label_text (zp_label p) = []) (\<lambda>_. 1) (zr_payments sample_z)"
    using facts by (simp_all add: sample_z_def)
  moreover have "z_netSales z = 700" "z_settledSales z = 500" "z_voided z = [''2'']" "z_settled z = 1" "z_unsettled z = 1"
    "z_paymentsTotal z = 500" "z_totalVariance z = - 10"
    using facts by (simp_all add: sample_z_def sum_where_def)
  ultimately show ?thesis using run by (simp add: sample_z_def sum_where_def label_text_def)
qed

section \<open>Each group's lines carry its tax\<close>

definition lines_of :: "string \<Rightarrow> ReportLine list \<Rightarrow> ReportLine list" where
  "lines_of k lines = filter (\<lambda>l. rl_taxGroupId l = Some k) lines"

lemma report_groups_lookup:
  "map_of (report_groups ls m) k =
     (if lines_of k ls = [] then map_of m k
      else Some ((case map_of m k of None \<Rightarrow> [] | Some xs \<Rightarrow> xs) @ lines_of k ls))"
proof (induction ls arbitrary: m)
  case Nil
  then show ?case by (simp add: lines_of_def)
next
  case (Cons l ls)
  show ?case
  proof (cases "rl_taxGroupId l")
    case None
    then have "lines_of k (l # ls) = lines_of k ls" by (simp add: lines_of_def)
    with Cons None show ?thesis by simp
  next
    case (Some g)
    then have "lines_of k (l # ls) = (if g = k then l # lines_of k ls else lines_of k ls)" by (simp add: lines_of_def)
    with Cons Some show ?thesis by auto
  qed
qed

lemma report_groups_keys: "distinct (map fst m) \<Longrightarrow> distinct (map fst (report_groups ls m))"
  by (induction ls arbitrary: m) (auto simp: distinct_map_set split: option.splits)

lemma report_groups_member:
  assumes "(k, xs) \<in> set (report_groups ls [])"
  shows "xs = lines_of k ls"
proof -
  have "map_of (report_groups ls []) k = Some xs" using assms report_groups_keys [of "[]" ls] by simp
  then show ?thesis by (simp add: report_groups_lookup split: if_splits)
qed

definition share_at :: "(string \<times> Paise) list \<Rightarrow> string \<Rightarrow> Paise" where
  "share_at m i = (case map_of m i of None \<Rightarrow> 0 | Some v \<Rightarrow> v)"

lemma share_at_map_set [simp]: "share_at (map_set i v m) j = (if j = i then v else share_at m j)"
  by (simp add: share_at_def)

lemma share_at_set_each_other: "j \<notin> set is \<Longrightarrow> share_at (set_each is vs m) j = share_at m j"
  by (induction "is" vs m rule: set_each.induct) auto

lemma share_at_set_each:
  "distinct is \<Longrightarrow> length vs = length is \<Longrightarrow> map (share_at (set_each is vs m)) is = vs"
  by (induction "is" vs m rule: set_each.induct) (auto simp: share_at_set_each_other)

text \<open>What a group's lines must add up to: nothing without a taxable value, else the group's tax.\<close>

definition group_tax :: "ReportTaxLine list \<Rightarrow> string \<Rightarrow> ReportLine list \<Rightarrow> Paise" where
  "group_tax tls k ls =
     (if sum_list (map rl_taxableValue ls) = 0 then 0
      else sum_list (map rt_amount (filter (\<lambda>t. rt_taxGroupId t = k) tls)))"

lemma share_groups_Inr:
  assumes "share_groups tls groups m = Inr m'"
    and "\<forall>t \<in> set tls. 0 \<le> rt_amount t"
    and "\<forall>(k, ls) \<in> set groups. \<forall>l \<in> set ls. 0 \<le> rl_taxableValue l \<and> share_at m (rl_lineId l) = 0"
    and "distinct (concat (map (\<lambda>p. map rl_lineId (snd p)) groups))"
  shows "(\<forall>(k, ls) \<in> set groups. sum_list (map (share_at m') (map rl_lineId ls)) = group_tax tls k ls \<and>
      (\<forall>l \<in> set ls. 0 \<le> share_at m' (rl_lineId l))) \<and>
    (\<forall>i. i \<notin> set (concat (map (\<lambda>p. map rl_lineId (snd p)) groups)) \<longrightarrow> share_at m' i = share_at m i)"
  using assms
proof (induction tls groups m rule: share_groups.induct)
  case (1 tls m)
  then show ?case by simp
next
  case (2 tls k ls groups m)
  let ?ids = "map rl_lineId ls" and ?later = "concat (map (\<lambda>p. map rl_lineId (snd p)) groups)"
  let ?tax = "sum_list (map rt_amount (filter (\<lambda>t. rt_taxGroupId t = k) tls))"
  let ?whole = "sum_list (map rl_taxableValue ls)"
  have nn: "\<forall>x \<in> set (map rt_amount (filter (\<lambda>t. rt_taxGroupId t = k) tls)). 0 \<le> x"
    "\<forall>x \<in> set (map rl_taxableValue ls). 0 \<le> x"
    using "2.prems"(2,3) by auto
  have tax: "sum_paise (map rt_amount (filter (\<lambda>t. rt_taxGroupId t = k) tls)) = Inr ?tax"
    using "2.prems"(1) sum_paise_all [OF nn(1)] by (auto simp: bindE_Inr_iff)
  have disj: "distinct ?ids" "set ?ids \<inter> set ?later = {}" "distinct ?later" using "2.prems"(4) by auto
  have zero: "share_at m i = 0" if "i \<in> set ?ids" for i using "2.prems"(3) that by auto
  have concl: ?case
    if rest: "(\<forall>(k, ls) \<in> set groups. sum_list (map (share_at m') (map rl_lineId ls)) = group_tax tls k ls \<and>
          (\<forall>l \<in> set ls. 0 \<le> share_at m' (rl_lineId l))) \<and> (\<forall>i. i \<notin> set ?later \<longrightarrow> share_at m' i = share_at n i)"
      and n: "sum_list (map (share_at n) ?ids) = group_tax tls k ls" "\<forall>i \<in> set ?ids. 0 \<le> share_at n i"
        "\<forall>i. i \<notin> set ?ids \<longrightarrow> share_at n i = share_at m i" for n
  proof -
    have keep: "share_at m' i = share_at n i" if "i \<in> set ?ids" for i using rest disj(2) that by blast
    then have eq: "map (share_at m') ?ids = map (share_at n) ?ids" by (intro map_cong) auto
    have "sum_list (map (share_at m') ?ids) = group_tax tls k ls" unfolding eq by (rule n(1))
    moreover have "\<forall>l \<in> set ls. 0 \<le> share_at m' (rl_lineId l)" using n(2) keep by simp
    moreover have "\<forall>i. i \<notin> set (concat (map (\<lambda>p. map rl_lineId (snd p)) ((k, ls) # groups))) \<longrightarrow> share_at m' i = share_at m i"
      using rest n(3) by simp
    ultimately show ?thesis using rest by simp
  qed
  have skip: ?case if "share_groups tls groups m = Inr m'" "group_tax tls k ls = 0"
    "share_groups tls groups m = Inr m' \<Longrightarrow> (\<forall>(k, ls) \<in> set groups. sum_list (map (share_at m') (map rl_lineId ls)) = group_tax tls k ls \<and>
          (\<forall>l \<in> set ls. 0 \<le> share_at m' (rl_lineId l))) \<and> (\<forall>i. i \<notin> set ?later \<longrightarrow> share_at m' i = share_at m i)"
  proof (rule concl [of m])
    have "map (share_at m) ?ids = map (\<lambda>_. 0) ?ids" using zero by (intro map_cong) auto
    then show "sum_list (map (share_at m) ?ids) = group_tax tls k ls"
      by (simp add: that(2) map_replicate_const sum_list_replicate)
  qed (use that zero in auto)
  have prems: "\<forall>(k, ls) \<in> set groups. \<forall>l \<in> set ls. 0 \<le> rl_taxableValue l \<and> share_at m (rl_lineId l) = 0"
    using "2.prems"(3) by auto
  show ?case
  proof (cases "?tax = 0")
    case True
    with "2.prems"(1) tax have run: "share_groups tls groups m = Inr m'" by simp
    show ?thesis
      by (rule skip [OF run]) (use True "2.IH"(1) [OF tax refl _ _ "2.prems"(2) prems disj(3)] in \<open>auto simp: group_tax_def\<close>)
  next
    case False
    with "2.prems"(1) tax obtain w where w: "sum_paise (map rl_taxableValue ls) = Inr w" by (auto simp: bindE_Inr_iff Let_def)
    then have whole: "w = ?whole" using sum_paise_all [OF nn(2)] by auto
    show ?thesis
    proof (cases "w = 0")
      case True
      with "2.prems"(1) tax False w have run: "share_groups tls groups m = Inr m'" by simp
      show ?thesis
        by (rule skip [OF run])
          (use True whole "2.IH"(2) [OF tax refl False w True _ "2.prems"(2) prems disj(3)] in \<open>auto simp: group_tax_def\<close>)
    next
      case nonzero: False
      with "2.prems"(1) tax False w obtain parts where parts: "allocate ?tax (map rl_taxableValue ls) = Inr parts"
        and run: "share_groups tls groups (set_each ?ids parts m) = Inr m'" by (auto simp: bindE_Inr_iff Let_def)
      have len: "length parts = length ?ids" using allocate.alloc_length [OF parts] by simp
      have shares: "map (share_at (set_each ?ids parts m)) ?ids = parts" by (rule share_at_set_each [OF disj(1) len])
      have mem: "share_at (set_each ?ids parts m) i \<in> set parts" if "i \<in> set ?ids" for i
        using that arg_cong [OF shares, of set] by (metis image_eqI set_map)
      have fresh: "\<forall>(k, ls) \<in> set groups. \<forall>l \<in> set ls. 0 \<le> rl_taxableValue l \<and>
          share_at (set_each ?ids parts m) (rl_lineId l) = 0"
      proof (intro ballI, clarify)
        fix j js l
        assume j: "(j, js) \<in> set groups" "l \<in> set js"
        then have "rl_lineId l \<in> set ?later" by force
        then have "rl_lineId l \<notin> set ?ids" using disj(2) by blast
        then show "0 \<le> rl_taxableValue l \<and> share_at (set_each ?ids parts m) (rl_lineId l) = 0"
          using prems j by (auto simp: share_at_set_each_other)
      qed
      show ?thesis
      proof (rule concl [of "set_each ?ids parts m"])
        show "sum_list (map (share_at (set_each ?ids parts m)) ?ids) = group_tax tls k ls"
          unfolding shares using allocate.alloc_sum [OF parts] nonzero whole by (simp add: group_tax_def)
        show "\<forall>i \<in> set ?ids. 0 \<le> share_at (set_each ?ids parts m) i"
          using mem allocate.alloc_nonneg [OF parts] by blast
        show "\<forall>i. i \<notin> set ?ids \<longrightarrow> share_at (set_each ?ids parts m) i = share_at m i"
          by (simp add: share_at_set_each_other)
      qed (use "2.IH"(3) [OF tax refl False w nonzero parts run "2.prems"(2) fresh disj(3)] in blast)
    qed
  qed
qed

lemma distinct_concat_map:
  assumes "distinct keys" "\<forall>k. distinct (f k)" "\<forall>k j. k \<noteq> j \<longrightarrow> set (f k) \<inter> set (f j) = {}"
  shows "distinct (concat (map f keys))"
  using assms(1)
proof (induction keys)
  case Nil
  then show ?case by simp
next
  case (Cons k keys)
  have "set (f k) \<inter> set (f j) = {}" if "j \<in> set keys" for j
  proof -
    have "k \<noteq> j" using Cons.prems that by auto
    then show ?thesis using assms(3) by blast
  qed
  then have "set (f k) \<inter> set (concat (map f keys)) = {}" by auto
  moreover have "distinct (concat (map f keys))" using Cons by simp
  ultimately show ?case using assms(2) by simp
qed

lemma lines_of_disjoint:
  assumes "distinct (map rl_lineId lines)" "k \<noteq> j"
  shows "set (map rl_lineId (lines_of k lines)) \<inter> set (map rl_lineId (lines_of j lines)) = {}"
proof (rule equals0I)
  fix i
  assume "i \<in> set (map rl_lineId (lines_of k lines)) \<inter> set (map rl_lineId (lines_of j lines))"
  then obtain l l' where l: "l \<in> set lines" "rl_lineId l = i" "rl_taxGroupId l = Some k"
    and l': "l' \<in> set lines" "rl_lineId l' = i" "rl_taxGroupId l' = Some j" by (auto simp: lines_of_def)
  have "inj_on rl_lineId (set lines)" using assms(1) by (simp add: distinct_map)
  then have "l = l'" using l(1,2) l'(1,2) by (simp add: inj_on_def)
  then show False using l(3) l'(3) assms(2) by simp
qed

lemma report_groups_ids:
  assumes "distinct (map rl_lineId lines)" "distinct (map fst groups)"
    and "\<forall>(k, ls) \<in> set groups. ls = lines_of k lines"
  shows "distinct (concat (map (\<lambda>p. map rl_lineId (snd p)) groups))"
proof -
  let ?f = "\<lambda>k. map rl_lineId (lines_of k lines)"
  have same: "map (\<lambda>p. map rl_lineId (snd p)) groups = map ?f (map fst groups)"
    using assms(3) by (auto simp: case_prod_beta)
  have "distinct (concat (map ?f (map fst groups)))"
  proof (rule distinct_concat_map [OF assms(2)])
    show "\<forall>k. distinct (?f k)"
      using assms(1) by (simp add: lines_of_def distinct_map_filter)
    show "\<forall>k j. k \<noteq> j \<longrightarrow> set (?f k) \<inter> set (?f j) = {}"
      using lines_of_disjoint [OF assms(1)] by blast
  qed
  then show ?thesis unfolding same .
qed

lemma zero_shares: "share_at m i = 0 \<Longrightarrow> share_at (foldl (\<lambda>m l. map_set (rl_lineId l) 0 m) m ls) i = 0"
  by (induction ls arbitrary: m) simp_all

text \<open>
  Item-wise tax agrees with the invoice. When every line has its own id and no amount is negative,
  the lines of each tax group carry exactly that group's tax (nothing, when the group has no taxable
  value to spread it by), and no line's share is negative.
\<close>

lemma lineTaxShares_by_group:
  assumes "lineTaxShares lines tls = Inr m" "distinct (map rl_lineId lines)"
    and "\<forall>l \<in> set lines. 0 \<le> rl_taxableValue l" "\<forall>t \<in> set tls. 0 \<le> rt_amount t"
  shows "sum_list (map (\<lambda>l. share_at m (rl_lineId l)) (lines_of k lines)) = group_tax tls k (lines_of k lines) \<and>
    (\<forall>l \<in> set (lines_of k lines). 0 \<le> share_at m (rl_lineId l))"
proof (cases "lines_of k lines = []")
  case True
  then show ?thesis by (simp add: group_tax_def)
next
  case False
  let ?m = "foldl (\<lambda>m l. map_set (rl_lineId l) 0 m) [] lines" and ?groups = "report_groups lines []"
  have zero: "share_at ?m i = 0" for i by (rule zero_shares) (simp add: share_at_def)
  have groups: "\<forall>(k, ls) \<in> set ?groups. ls = lines_of k lines" using report_groups_member by blast
  have run: "share_groups tls ?groups ?m = Inr m" using assms(1) by (simp add: lineTaxShares_def)
  have "\<forall>(k, ls) \<in> set ?groups. \<forall>l \<in> set ls. 0 \<le> rl_taxableValue l \<and> share_at ?m (rl_lineId l) = 0"
    using groups assms(3) zero by (auto simp: lines_of_def)
  from share_groups_Inr [OF run assms(4) this report_groups_ids [OF assms(2) report_groups_keys groups]]
  have all: "\<forall>(k, ls) \<in> set ?groups. sum_list (map (share_at m) (map rl_lineId ls)) = group_tax tls k ls \<and>
      (\<forall>l \<in> set ls. 0 \<le> share_at m (rl_lineId l))" by simp
  have "map_of ?groups k = Some (lines_of k lines)" using False by (simp add: report_groups_lookup)
  then have "(k, lines_of k lines) \<in> set ?groups" by (rule map_of_SomeD)
  from bspec [OF all this] show ?thesis by (simp add: o_def)
qed

text \<open>
  Tax on a group whose lines have no taxable value is dropped: the lines then do not add up to the tax.
\<close>

lemma lineTaxShares_drops_tax:
  "lineTaxShares [\<lparr>rl_lineId = ''a'', rl_taxGroupId = Some ''g'', rl_taxableValue = 0\<rparr>] [\<lparr>rt_taxGroupId = ''g'', rt_amount = 5\<rparr>] =
   Inr [(''a'', 0)]"
  by code_simp

definition sample_lines :: "ReportLine list" where
  "sample_lines = [\<lparr>rl_lineId = ''a'', rl_taxGroupId = Some ''g5'', rl_taxableValue = 100\<rparr>,
     \<lparr>rl_lineId = ''b'', rl_taxGroupId = None, rl_taxableValue = 50\<rparr>,
     \<lparr>rl_lineId = ''c'', rl_taxGroupId = Some ''g5'', rl_taxableValue = 200\<rparr>]"

theorem lineTaxShares_by_group_witness:
  "lineTaxShares sample_lines [\<lparr>rt_taxGroupId = ''g5'', rt_amount = 10\<rparr>] = Inr [(''a'', 3), (''b'', 0), (''c'', 7)] \<and>
   share_at [(''a'', 3), (''b'', 0), (''c'', 7)] ''a'' + share_at [(''a'', 3), (''b'', 0), (''c'', 7)] ''c'' = (10 :: Paise)"
proof -
  have run: "lineTaxShares sample_lines [\<lparr>rt_taxGroupId = ''g5'', rt_amount = 10\<rparr>] = Inr [(''a'', 3), (''b'', 0), (''c'', 7)]"
    by code_simp
  have "sum_list (map (\<lambda>l. share_at [(''a'', 3), (''b'', 0), (''c'', 7)] (rl_lineId l)) (lines_of ''g5'' sample_lines)) =
      group_tax [\<lparr>rt_taxGroupId = ''g5'', rt_amount = 10\<rparr>] ''g5'' (lines_of ''g5'' sample_lines)"
    by (rule conjunct1 [OF lineTaxShares_by_group [OF run]]) (auto simp: sample_lines_def)
  with run show ?thesis by (simp add: sample_lines_def lines_of_def group_tax_def)
qed

end
