(* ===== verification/State_Machine.thy ===== *)
theory State_Machine
  imports Prelude
begin

text \<open>
  \<open>packages/domain/src/state-machine.ts\<close>: state machines as tables of transitions. States and events
  are the constructors of a datatype instead of texts, an omitted optional flag is \<^term>\<open>False\<close>,
  and the key of the duplicate check is the pair of state and event. The locale states what a
  machine that passed \<open>defineStateMachine\<close> promises its users; runs are the step relation.
\<close>

record ('s, 'e) Transition =
  tr_event :: 'e
  tr_from :: "'s list"
  tr_to :: 's
  tr_requiresReason :: bool
  tr_requiresManagerOverride :: bool

record ('s, 'e) StateMachine =
  sm_name :: string
  sm_states :: "'s list"
  sm_terminal :: "'s list"
  sm_transitions :: "('s, 'e) Transition list"

text \<open>The loop over the source states of one transition; it returns the keys seen so far.\<close>

fun check_sources :: "('s, 'e) StateMachine \<Rightarrow> 'e \<Rightarrow> 's list \<Rightarrow> ('s \<times> 'e) list \<Rightarrow> ('s \<times> 'e) list result" where
  "check_sources machine event [] seen = Inr seen"
| "check_sources machine event (source # sources) seen =
     (if source \<notin> set (sm_states machine) then Inl INVALID_ARGUMENT
      else if source \<in> set (sm_terminal machine) then Inl INVALID_ARGUMENT
      else if (source, event) \<in> set seen then Inl INVALID_ARGUMENT
      else check_sources machine event sources (seen @ [(source, event)]))"

fun check_transitions :: "('s, 'e) StateMachine \<Rightarrow> ('s, 'e) Transition list \<Rightarrow> ('s \<times> 'e) list \<Rightarrow> ('s \<times> 'e) list result" where
  "check_transitions machine [] seen = Inr seen"
| "check_transitions machine (t # ts) seen =
     (if tr_to t \<notin> set (sm_states machine) then Inl INVALID_ARGUMENT
      else bindE (check_sources machine (tr_event t) (tr_from t) seen) (check_transitions machine ts))"

definition defineStateMachine :: "('s, 'e) StateMachine \<Rightarrow> ('s, 'e) StateMachine result" where
  "defineStateMachine machine =
     bindE (check_transitions machine (sm_transitions machine) []) (\<lambda>_. Inr machine)"

definition findTransition :: "('s, 'e) StateMachine \<Rightarrow> 's \<Rightarrow> 'e \<Rightarrow> ('s, 'e) Transition option" where
  "findTransition machine source event =
     find (\<lambda>t. tr_event t = event \<and> source \<in> set (tr_from t)) (sm_transitions machine)"

definition canTransition :: "('s, 'e) StateMachine \<Rightarrow> 's \<Rightarrow> 'e \<Rightarrow> bool" where
  "canTransition machine source event = (findTransition machine source event \<noteq> None)"

definition transition :: "('s, 'e) StateMachine \<Rightarrow> 's \<Rightarrow> 'e \<Rightarrow> ('s, 'e) Transition result" where
  "transition machine source event =
     (case findTransition machine source event of None \<Rightarrow> Inl INVALID_TRANSITION | Some t \<Rightarrow> Inr t)"

definition allowedEvents :: "('s, 'e) StateMachine \<Rightarrow> 's \<Rightarrow> 'e list" where
  "allowedEvents machine source =
     map tr_event (filter (\<lambda>t. source \<in> set (tr_from t)) (sm_transitions machine))"

definition isTerminal :: "('s, 'e) StateMachine \<Rightarrow> 's \<Rightarrow> bool" where
  "isTerminal machine state = (state \<in> set (sm_terminal machine))"

section \<open>What the check establishes\<close>

definition keys_of :: "('s, 'e) Transition list \<Rightarrow> ('s \<times> 'e) list" where
  "keys_of ts = concat (map (\<lambda>t. map (\<lambda>s. (s, tr_event t)) (tr_from t)) ts)"

definition consistent_machine :: "('s, 'e) StateMachine \<Rightarrow> bool" where
  "consistent_machine machine \<longleftrightarrow>
     distinct (keys_of (sm_transitions machine)) \<and>
     (\<forall>t \<in> set (sm_transitions machine). tr_to t \<in> set (sm_states machine) \<and>
        set (tr_from t) \<subseteq> set (sm_states machine) - set (sm_terminal machine))"

lemma keys_of_simps [simp]:
  "keys_of [] = []" "keys_of (t # ts) = map (\<lambda>s. (s, tr_event t)) (tr_from t) @ keys_of ts"
  by (simp_all add: keys_of_def)

lemma keys_of_iff: "(s, e) \<in> set (keys_of ts) \<longleftrightarrow> (\<exists>t \<in> set ts. tr_event t = e \<and> s \<in> set (tr_from t))"
  by (induction ts) auto

lemma check_sources_Inr_iff:
  "distinct seen \<Longrightarrow> check_sources machine event ss seen = Inr seen' \<longleftrightarrow>
     seen' = seen @ map (\<lambda>s. (s, event)) ss \<and> distinct seen' \<and>
     set ss \<subseteq> set (sm_states machine) - set (sm_terminal machine)"
  by (induction ss arbitrary: seen) auto

lemma check_sources_error: "check_sources machine event ss seen = Inl err \<Longrightarrow> err = INVALID_ARGUMENT"
  by (induction ss arbitrary: seen) (auto split: if_splits)

lemma check_transitions_Inr_iff:
  "distinct seen \<Longrightarrow> check_transitions machine ts seen = Inr seen' \<longleftrightarrow>
     seen' = seen @ keys_of ts \<and> distinct seen' \<and>
     (\<forall>t \<in> set ts. tr_to t \<in> set (sm_states machine) \<and>
        set (tr_from t) \<subseteq> set (sm_states machine) - set (sm_terminal machine))"
proof (induction ts arbitrary: seen)
  case Nil
  then show ?case by auto
next
  case (Cons t ts)
  let ?seen = "seen @ map (\<lambda>s. (s, tr_event t)) (tr_from t)"
  have "check_transitions machine (t # ts) seen = Inr seen' \<longleftrightarrow>
      tr_to t \<in> set (sm_states machine) \<and> distinct ?seen \<and>
      set (tr_from t) \<subseteq> set (sm_states machine) - set (sm_terminal machine) \<and>
      check_transitions machine ts ?seen = Inr seen'"
    by (auto simp add: bindE_Inr_iff check_sources_Inr_iff [OF Cons.prems] simp del: distinct_append)
  also have "\<dots> \<longleftrightarrow> tr_to t \<in> set (sm_states machine) \<and> distinct ?seen \<and>
      set (tr_from t) \<subseteq> set (sm_states machine) - set (sm_terminal machine) \<and>
      seen' = ?seen @ keys_of ts \<and> distinct seen' \<and>
      (\<forall>t \<in> set ts. tr_to t \<in> set (sm_states machine) \<and>
        set (tr_from t) \<subseteq> set (sm_states machine) - set (sm_terminal machine))"
    using Cons.IH [of ?seen] by blast
  also have "\<dots> \<longleftrightarrow> seen' = seen @ keys_of (t # ts) \<and> distinct seen' \<and>
      (\<forall>t \<in> set (t # ts). tr_to t \<in> set (sm_states machine) \<and>
        set (tr_from t) \<subseteq> set (sm_states machine) - set (sm_terminal machine))"
  proof -
    have "distinct (seen @ keys_of (t # ts)) \<Longrightarrow> distinct ?seen"
      by (simp only: keys_of_simps append_assoc [symmetric] distinct_append)
    then show ?thesis by (auto simp del: distinct_append)
  qed
  finally show ?case .
qed

lemma check_transitions_error: "check_transitions machine ts seen = Inl err \<Longrightarrow> err = INVALID_ARGUMENT"
  by (induction ts arbitrary: seen) (auto simp: bindE_Inl_iff dest: check_sources_error split: if_splits)

lemma defineStateMachine_consistent: "defineStateMachine machine = Inr m \<longleftrightarrow> m = machine \<and> consistent_machine machine"
  using check_transitions_Inr_iff [of "[]" machine "sm_transitions machine"]
  by (auto simp: defineStateMachine_def bindE_Inr_iff consistent_machine_def)

text \<open>
  The contract of a checked machine: a state and an event lead to one transition only, no event is
  offered twice, terminal states offer none, and every target is a known state.
\<close>

locale checked_machine =
  fixes machine :: "('s, 'e) StateMachine"
  assumes accepted: "defineStateMachine machine = Inr machine"
begin

lemma consistent: "consistent_machine machine"
  using accepted by (simp add: defineStateMachine_consistent)

lemma find_keys:
  "distinct (keys_of ts) \<Longrightarrow> t \<in> set ts \<Longrightarrow> s \<in> set (tr_from t) \<Longrightarrow>
     find (\<lambda>u. tr_event u = tr_event t \<and> s \<in> set (tr_from u)) ts = Some t"
proof (induction ts)
  case Nil
  then show ?case by simp
next
  case (Cons u ts)
  show ?case
  proof (cases "t = u")
    case True
    then show ?thesis using Cons.prems by simp
  next
    case False
    then have t: "t \<in> set ts" using Cons.prems by simp
    then have "(s, tr_event t) \<in> set (keys_of ts)" using Cons.prems(3) by (auto simp: keys_of_iff)
    then have "\<not> (tr_event u = tr_event t \<and> s \<in> set (tr_from u))" using Cons.prems(1) by auto
    then show ?thesis using Cons.IH t Cons.prems by (simp only: find.simps if_False) simp
  qed
qed

lemma find_exact:
  "findTransition machine s e = Some t \<longleftrightarrow> t \<in> set (sm_transitions machine) \<and> tr_event t = e \<and> s \<in> set (tr_from t)"
proof
  assume "findTransition machine s e = Some t"
  then show "t \<in> set (sm_transitions machine) \<and> tr_event t = e \<and> s \<in> set (tr_from t)"
    by (auto simp: findTransition_def find_Some_iff)
next
  assume t: "t \<in> set (sm_transitions machine) \<and> tr_event t = e \<and> s \<in> set (tr_from t)"
  have "distinct (keys_of (sm_transitions machine))" using consistent by (simp add: consistent_machine_def)
  from find_keys [OF this] t show "findTransition machine s e = Some t" by (auto simp: findTransition_def)
qed

lemma events_exact: "e \<in> set (allowedEvents machine s) \<longleftrightarrow> canTransition machine s e"
  by (auto simp: allowedEvents_def canTransition_def findTransition_def find_None_iff)

lemma filter_keys:
  "distinct (keys_of ts) \<Longrightarrow> distinct (map tr_event (filter (\<lambda>t. s \<in> set (tr_from t)) ts))"
proof (induction ts)
  case Nil
  then show ?case by simp
next
  case (Cons t ts)
  have "tr_event t \<notin> tr_event ` {u \<in> set ts. s \<in> set (tr_from u)}" if s: "s \<in> set (tr_from t)"
  proof
    assume "tr_event t \<in> tr_event ` {u \<in> set ts. s \<in> set (tr_from u)}"
    then have "(s, tr_event t) \<in> set (keys_of ts)" by (auto simp: keys_of_iff)
    then show False using Cons.prems s by auto
  qed
  then show ?case using Cons by auto
qed

lemma events_distinct: "distinct (allowedEvents machine s)"
  unfolding allowedEvents_def by (rule filter_keys) (use consistent in \<open>simp add: consistent_machine_def\<close>)

lemma terminal_stuck: "isTerminal machine s \<Longrightarrow> findTransition machine s e = None"
  using consistent by (auto simp: findTransition_def find_None_iff isTerminal_def consistent_machine_def)

lemma target_known: "findTransition machine s e = Some t \<Longrightarrow> tr_to t \<in> set (sm_states machine)"
  using consistent by (auto simp: find_exact consistent_machine_def)

end

section \<open>Runs\<close>

text \<open>A sequence of events that the machine allows, one after the other.\<close>

inductive machine_run :: "('s, 'e) StateMachine \<Rightarrow> 's \<Rightarrow> 'e list \<Rightarrow> 's \<Rightarrow> bool" for machine where
  Stay: "machine_run machine s [] s"
| Step: "transition machine s e = Inr t \<Longrightarrow> machine_run machine (tr_to t) es s' \<Longrightarrow> machine_run machine s (e # es) s'"

inductive_simps run_Nil_iff [simp]: "machine_run machine s [] s'"
inductive_simps run_Cons_iff: "machine_run machine s (e # es) s'"

lemma transition_Inr_iff: "transition machine s e = Inr t \<longleftrightarrow> findTransition machine s e = Some t"
  by (auto simp: transition_def split: option.splits)

lemma transition_Inl_iff: "transition machine s e = Inl err \<longleftrightarrow> err = INVALID_TRANSITION \<and> \<not> canTransition machine s e"
  by (auto simp: transition_def canTransition_def split: option.splits)

lemma run_append: "machine_run machine s (es @ fs) s' \<longleftrightarrow> (\<exists>r. machine_run machine s es r \<and> machine_run machine r fs s')"
  by (induction es arbitrary: s) (auto simp: run_Cons_iff)

lemma run_deterministic: "machine_run machine s es r \<Longrightarrow> machine_run machine s es r' \<Longrightarrow> r = r'"
  by (induction rule: machine_run.induct) (auto simp: run_Cons_iff)

text \<open>Where a run ends, computed.\<close>

fun run_events :: "('s, 'e) StateMachine \<Rightarrow> 's \<Rightarrow> 'e list \<Rightarrow> 's option" where
  "run_events machine s [] = Some s"
| "run_events machine s (e # es) =
     (case findTransition machine s e of None \<Rightarrow> None | Some t \<Rightarrow> run_events machine (tr_to t) es)"

lemma run_iff: "machine_run machine s es s' \<longleftrightarrow> run_events machine s es = Some s'"
  by (induction es arbitrary: s) (auto simp: run_Cons_iff transition_Inr_iff split: option.splits)

text \<open>A property of states that every transition keeps holds at the end of every run.\<close>

lemma run_invariant:
  assumes "machine_run machine s es s'" "P s"
    and "\<And>r e t. P r \<Longrightarrow> transition machine r e = Inr t \<Longrightarrow> P (tr_to t)"
  shows "P s'"
  using assms(1,2) by (induction rule: machine_run.induct) (auto dest: assms(3))

text \<open>A rank that falls with every transition bounds every run.\<close>

lemma run_rank:
  assumes "machine_run machine s es s'" "\<And>r e t. transition machine r e = Inr t \<Longrightarrow> rank (tr_to t) < (rank r :: nat)"
  shows "length es + rank s' \<le> rank s"
  using assms(1)
proof (induction rule: machine_run.induct)
  case (Stay s)
  then show ?case by simp
next
  case (Step s e t es s')
  then show ?case using assms(2) [OF Step.hyps(1)] by simp
qed

text \<open>
  C27: a machine definition is accepted exactly when it is consistent, and refused with one error
  otherwise: every state it names is known, no terminal state has a transition and no state has an
  event twice. An accepted machine decides every state and event by the one transition of the table
  that names both, offers exactly the events that are possible, each once, and none in a terminal
  state; anything else is an invalid transition.
\<close>

theorem defineStateMachine_accepts:
  "(defineStateMachine machine = Inr m \<longleftrightarrow> m = machine \<and> consistent_machine machine) \<and>
   (defineStateMachine machine = Inl err \<longleftrightarrow> err = INVALID_ARGUMENT \<and> \<not> consistent_machine machine) \<and>
   (consistent_machine machine \<longrightarrow>
      (transition machine s e = Inr t \<longleftrightarrow> t \<in> set (sm_transitions machine) \<and> tr_event t = e \<and> s \<in> set (tr_from t)) \<and>
      (transition machine s e = Inl err \<longleftrightarrow> err = INVALID_TRANSITION \<and> e \<notin> set (allowedEvents machine s)) \<and>
      distinct (allowedEvents machine s) \<and> (isTerminal machine s \<longrightarrow> allowedEvents machine s = []))"
proof -
  have refused: "defineStateMachine machine = Inl err \<longleftrightarrow> err = INVALID_ARGUMENT \<and> \<not> consistent_machine machine"
  proof (cases "defineStateMachine machine")
    case (Inl err')
    then have "err' = INVALID_ARGUMENT"
      by (auto simp: defineStateMachine_def bindE_Inl_iff dest: check_transitions_error)
    moreover have "\<not> consistent_machine machine"
      using Inl defineStateMachine_consistent [of machine machine] by auto
    ultimately show ?thesis using Inl by auto
  next
    case (Inr m')
    then show ?thesis using defineStateMachine_consistent [of machine m'] by auto
  qed
  have accepted: "(transition machine s e = Inr t \<longleftrightarrow> t \<in> set (sm_transitions machine) \<and> tr_event t = e \<and> s \<in> set (tr_from t)) \<and>
      (transition machine s e = Inl err \<longleftrightarrow> err = INVALID_TRANSITION \<and> e \<notin> set (allowedEvents machine s)) \<and>
      distinct (allowedEvents machine s) \<and> (isTerminal machine s \<longrightarrow> allowedEvents machine s = [])"
    if "consistent_machine machine"
  proof -
    have m: "checked_machine machine" using that by unfold_locales (simp add: defineStateMachine_consistent)
    have "allowedEvents machine s = []" if "isTerminal machine s"
      using checked_machine.terminal_stuck [OF m that] checked_machine.events_exact [OF m]
      by (metis canTransition_def ex_in_conv set_empty)
    then show ?thesis
      by (simp add: transition_Inr_iff transition_Inl_iff checked_machine.find_exact [OF m]
          checked_machine.events_exact [OF m] checked_machine.events_distinct [OF m])
  qed
  show ?thesis using defineStateMachine_consistent [of machine m] refused accepted by blast
qed

definition sample_machine :: "(nat, bool) StateMachine" where
  "sample_machine = \<lparr>sm_name = ''Door'', sm_states = [0, 1], sm_terminal = [1],
     sm_transitions = [\<lparr>tr_event = True, tr_from = [0], tr_to = 1, tr_requiresReason = False, tr_requiresManagerOverride = False\<rparr>]\<rparr>"

theorem defineStateMachine_accepts_witness:
  "consistent_machine sample_machine \<and> allowedEvents sample_machine 1 = [] \<and>
   transition sample_machine 0 False = Inl INVALID_TRANSITION"
proof -
  have ok: "consistent_machine sample_machine" by code_simp
  have "isTerminal sample_machine 1" by code_simp
  then have "allowedEvents sample_machine 1 = []"
    using defineStateMachine_accepts [of sample_machine _ _ 1] ok by blast
  moreover have "False \<notin> set (allowedEvents sample_machine 0)" by code_simp
  then have "transition sample_machine 0 False = Inl INVALID_TRANSITION"
    using defineStateMachine_accepts [of sample_machine _ _ 0 False] ok by blast
  ultimately show ?thesis using ok by blast
qed

end
