(* ===== verification/Table_Machine.thy ===== *)
theory Table_Machine
  imports State_Machine
begin

text \<open>
  \<open>packages/domain/src/machines/table.ts\<close>: the life of a table. The lemmas show that every sitting
  opened is closed in one of the two ways, once.
\<close>

datatype TableState = FREE | OCCUPIED | BILL_REQUESTED | BILL_PRINTED | NEEDS_CLEANING

definition TABLE_STATES :: "TableState list" where
  "TABLE_STATES = [FREE, OCCUPIED, BILL_REQUESTED, BILL_PRINTED, NEEDS_CLEANING]"

datatype TableEvent =
    OPEN
  | REQUEST_BILL
  | PRINT_BILL
  | ADD_ITEMS
  | SETTLE_AND_CLOSE
  | CLOSE_WITHOUT_BILL
  | GUESTS_LEFT
  | CLEANED

definition tableMachine :: "(TableState, TableEvent) StateMachine" where
  "tableMachine =
     \<lparr>sm_name = ''Table'', sm_states = TABLE_STATES, sm_terminal = [],
      sm_transitions =
       [\<lparr>tr_event = OPEN, tr_from = [FREE], tr_to = OCCUPIED,
         tr_requiresReason = False, tr_requiresManagerOverride = False\<rparr>,
        \<lparr>tr_event = REQUEST_BILL, tr_from = [OCCUPIED], tr_to = BILL_REQUESTED,
         tr_requiresReason = False, tr_requiresManagerOverride = False\<rparr>,
        \<lparr>tr_event = PRINT_BILL, tr_from = [OCCUPIED, BILL_REQUESTED], tr_to = BILL_PRINTED,
         tr_requiresReason = False, tr_requiresManagerOverride = False\<rparr>,
        \<lparr>tr_event = ADD_ITEMS, tr_from = [BILL_REQUESTED, BILL_PRINTED], tr_to = OCCUPIED,
         tr_requiresReason = False, tr_requiresManagerOverride = False\<rparr>,
        \<lparr>tr_event = SETTLE_AND_CLOSE, tr_from = [BILL_PRINTED], tr_to = FREE,
         tr_requiresReason = False, tr_requiresManagerOverride = False\<rparr>,
        \<lparr>tr_event = CLOSE_WITHOUT_BILL, tr_from = [OCCUPIED], tr_to = FREE,
         tr_requiresReason = True, tr_requiresManagerOverride = False\<rparr>,
        \<lparr>tr_event = GUESTS_LEFT, tr_from = [FREE], tr_to = NEEDS_CLEANING,
         tr_requiresReason = False, tr_requiresManagerOverride = False\<rparr>,
        \<lparr>tr_event = CLEANED, tr_from = [NEEDS_CLEANING], tr_to = FREE,
         tr_requiresReason = False, tr_requiresManagerOverride = False\<rparr>]\<rparr>"

definition tableAfterGuestsLeft :: "bool \<Rightarrow> TableState" where
  "tableAfterGuestsLeft needsCleaning = (if needsCleaning then NEEDS_CLEANING else FREE)"

interpretation table: checked_machine tableMachine
  by unfold_locales code_simp

lemmas table_tables =
  arg_cong [OF tableMachine_def, of sm_transitions, unfolded StateMachine.select_convs]
  arg_cong [OF tableMachine_def, of sm_terminal, unfolded StateMachine.select_convs]

lemma table_transition:
  "transition tableMachine s e = Inr t \<longleftrightarrow>
     t \<in> set (sm_transitions tableMachine) \<and> tr_event t = e \<and> s \<in> set (tr_from t)"
  by (simp add: transition_Inr_iff table.find_exact)

text \<open>Whether guests sit at the table.\<close>

definition sitting :: "TableState \<Rightarrow> bool" where
  "sitting s \<longleftrightarrow> s \<in> {OCCUPIED, BILL_REQUESTED, BILL_PRINTED}"

definition opened :: "TableEvent list \<Rightarrow> nat" where
  "opened es = length (filter (\<lambda>e. e = OPEN) es)"

definition closed :: "TableEvent list \<Rightarrow> nat" where
  "closed es = length (filter (\<lambda>e. e = SETTLE_AND_CLOSE \<or> e = CLOSE_WITHOUT_BILL) es)"

lemma opened_simps [simp]: "opened [] = 0" "opened (e # es) = (if e = OPEN then Suc (opened es) else opened es)"
  by (simp_all add: opened_def)

lemma closed_simps [simp]:
  "closed [] = 0" "closed (e # es) = (if e = SETTLE_AND_CLOSE \<or> e = CLOSE_WITHOUT_BILL then Suc (closed es) else closed es)"
  by (simp_all add: closed_def)

lemma table_run_balance:
  "machine_run tableMachine s es s' \<Longrightarrow>
     opened es + (if sitting s then 1 else 0) = closed es + (if sitting s' then 1 else 0)"
proof (induction rule: machine_run.induct)
  case (Stay s)
  then show ?case by simp
next
  case (Step s e t es s')
  have "(if e = OPEN then 1 else 0) + (if sitting s then 1 else 0) =
      (if e = SETTLE_AND_CLOSE \<or> e = CLOSE_WITHOUT_BILL then 1 else 0) + (if sitting (tr_to t) then 1 else (0 :: nat))"
    using Step.hyps(1) by (auto simp: table_transition table_tables sitting_def)
  then show ?case using Step.IH by (auto split: if_splits)
qed

lemma leaving_transition:
  "transition tableMachine r e = Inr t \<and> sitting r \<and> \<not> sitting (tr_to t) \<Longrightarrow>
     r = BILL_PRINTED \<and> e = SETTLE_AND_CLOSE \<or> r = OCCUPIED \<and> e = CLOSE_WITHOUT_BILL \<and> tr_requiresReason t"
  by (auto simp: table_transition table_tables sitting_def)

text \<open>
  Every sitting at a table is closed once. Over any run, the sittings opened and the one already
  there are the sittings closed, settled or closed without a bill with a reason, and the one still
  there. Guests leaving puts the table into the state the machine gives, and from every state the
  table can become free again.
\<close>

lemma table_sittings_balance:
  assumes "machine_run tableMachine s es s'"
  shows "opened es + (if sitting s then 1 else 0) = closed es + (if sitting s' then 1 else 0) \<and>
    machine_run tableMachine FREE (if needsCleaning then [GUESTS_LEFT] else []) (tableAfterGuestsLeft needsCleaning) \<and>
    (\<exists>fs. machine_run tableMachine s' fs FREE) \<and>
    (transition tableMachine r e = Inr t \<and> sitting r \<and> \<not> sitting (tr_to t) \<longrightarrow>
       r = BILL_PRINTED \<and> e = SETTLE_AND_CLOSE \<or> r = OCCUPIED \<and> e = CLOSE_WITHOUT_BILL \<and> tr_requiresReason t)"
proof -
  have "run_events tableMachine s'
      (case s' of FREE \<Rightarrow> [] | OCCUPIED \<Rightarrow> [PRINT_BILL, SETTLE_AND_CLOSE] | BILL_REQUESTED \<Rightarrow> [PRINT_BILL, SETTLE_AND_CLOSE]
        | BILL_PRINTED \<Rightarrow> [SETTLE_AND_CLOSE] | NEEDS_CLEANING \<Rightarrow> [CLEANED]) = Some FREE"
    by (cases s'; simp; code_simp)
  moreover have "run_events tableMachine FREE (if needsCleaning then [GUESTS_LEFT] else []) = Some (tableAfterGuestsLeft needsCleaning)"
    by (cases needsCleaning; simp; code_simp)
  ultimately show ?thesis using table_run_balance [OF assms] leaving_transition [of r e t] unfolding run_iff by blast
qed

theorem table_sittings_balance_witness:
  "machine_run tableMachine FREE [OPEN, PRINT_BILL, ADD_ITEMS, PRINT_BILL, SETTLE_AND_CLOSE, OPEN] OCCUPIED \<and>
   opened [OPEN, PRINT_BILL, ADD_ITEMS, PRINT_BILL, SETTLE_AND_CLOSE, OPEN] = 2"
proof -
  let ?es = "[OPEN, PRINT_BILL, ADD_ITEMS, PRINT_BILL, SETTLE_AND_CLOSE, OPEN]"
  have run: "machine_run tableMachine FREE ?es OCCUPIED"
    unfolding run_iff by code_simp
  have "opened ?es = closed ?es + 1" using table_sittings_balance [OF run] by (simp add: sitting_def)
  then show ?thesis using run by simp
qed

end
