(* ===== verification/Order_Item.thy ===== *)
theory Order_Item
  imports State_Machine
begin

text \<open>
  \<open>packages/domain/src/machines/order-item.ts\<close>: the life of an ordered item, as a checked machine.
  The lemmas show that an item moves forward only, that once the kitchen started on it only a void
  under a manager's override with a reason takes it off the bill, and that a customer's item never
  reaches the kitchen without approval.
\<close>

datatype OrderSource = POS | WAITER_APP | TABLE_TABLET | QR

definition isCustomerSource :: "OrderSource \<Rightarrow> bool" where
  "isCustomerSource source = (source = TABLE_TABLET \<or> source = QR)"

datatype OrderItemState =
    PENDING_APPROVAL
  | HELD
  | SENT
  | PREPARING
  | READY
  | PICKED_UP
  | SERVED
  | REJECTED
  | CANCELLED
  | VOIDED

definition ORDER_ITEM_STATES :: "OrderItemState list" where
  "ORDER_ITEM_STATES =
     [PENDING_APPROVAL, HELD, SENT, PREPARING, READY, PICKED_UP, SERVED, REJECTED, CANCELLED, VOIDED]"

datatype OrderItemEvent =
    APPROVE
  | REJECT
  | FIRE
  | START_PREPARING
  | MARK_READY
  | PICK_UP
  | SERVE
  | CANCEL
  | VOID

definition orderItemMachine :: "(OrderItemState, OrderItemEvent) StateMachine" where
  "orderItemMachine =
     \<lparr>sm_name = ''OrderItem'', sm_states = ORDER_ITEM_STATES,
      sm_terminal = [REJECTED, CANCELLED, VOIDED],
      sm_transitions =
       [\<lparr>tr_event = APPROVE, tr_from = [PENDING_APPROVAL], tr_to = SENT,
         tr_requiresReason = False, tr_requiresManagerOverride = False\<rparr>,
        \<lparr>tr_event = REJECT, tr_from = [PENDING_APPROVAL], tr_to = REJECTED,
         tr_requiresReason = True, tr_requiresManagerOverride = False\<rparr>,
        \<lparr>tr_event = FIRE, tr_from = [HELD], tr_to = SENT,
         tr_requiresReason = False, tr_requiresManagerOverride = False\<rparr>,
        \<lparr>tr_event = START_PREPARING, tr_from = [SENT], tr_to = PREPARING,
         tr_requiresReason = False, tr_requiresManagerOverride = False\<rparr>,
        \<lparr>tr_event = MARK_READY, tr_from = [SENT, PREPARING], tr_to = READY,
         tr_requiresReason = False, tr_requiresManagerOverride = False\<rparr>,
        \<lparr>tr_event = PICK_UP, tr_from = [READY], tr_to = PICKED_UP,
         tr_requiresReason = False, tr_requiresManagerOverride = False\<rparr>,
        \<lparr>tr_event = SERVE, tr_from = [READY, PICKED_UP], tr_to = SERVED,
         tr_requiresReason = False, tr_requiresManagerOverride = False\<rparr>,
        \<lparr>tr_event = CANCEL, tr_from = [HELD, SENT], tr_to = CANCELLED,
         tr_requiresReason = True, tr_requiresManagerOverride = False\<rparr>,
        \<lparr>tr_event = VOID, tr_from = [PREPARING, READY, PICKED_UP, SERVED], tr_to = VOIDED,
         tr_requiresReason = True, tr_requiresManagerOverride = True\<rparr>]\<rparr>"

definition initialOrderItemState :: "OrderSource \<Rightarrow> OrderItemState" where
  "initialOrderItemState source = (if isCustomerSource source then PENDING_APPROVAL else SENT)"

definition BILLABLE :: "OrderItemState list" where
  "BILLABLE = [SENT, PREPARING, READY, PICKED_UP, SERVED]"

definition isBillable :: "OrderItemState \<Rightarrow> bool" where
  "isBillable state = (state \<in> set BILLABLE)"

definition isKitchenActive :: "OrderItemState \<Rightarrow> bool" where
  "isKitchenActive state = (state = SENT \<or> state = PREPARING \<or> state = READY)"

section \<open>The machine is checked\<close>

interpretation item: checked_machine orderItemMachine
  by unfold_locales code_simp

lemmas item_tables =
  arg_cong [OF orderItemMachine_def, of sm_transitions, unfolded StateMachine.select_convs]
  arg_cong [OF orderItemMachine_def, of sm_terminal, unfolded StateMachine.select_convs]

lemma item_transition:
  "transition orderItemMachine s e = Inr t \<longleftrightarrow>
     t \<in> set (sm_transitions orderItemMachine) \<and> tr_event t = e \<and> s \<in> set (tr_from t)"
  by (simp add: transition_Inr_iff item.find_exact)

text \<open>How far an item still has to go.\<close>

fun item_rank :: "OrderItemState \<Rightarrow> nat" where
  "item_rank PENDING_APPROVAL = 6"
| "item_rank HELD = 6"
| "item_rank SENT = 5"
| "item_rank PREPARING = 4"
| "item_rank READY = 3"
| "item_rank PICKED_UP = 2"
| "item_rank SERVED = 1"
| "item_rank _ = 0"

lemma item_rank_falls: "transition orderItemMachine s e = Inr t \<Longrightarrow> item_rank (tr_to t) < item_rank s"
  by (auto simp: item_transition item_tables)

lemma item_run_bound: "machine_run orderItemMachine s es s' \<Longrightarrow> length es + item_rank s' \<le> item_rank s"
  by (rule run_rank [where rank = item_rank]) (auto dest: item_rank_falls)

definition in_kitchen_or_after :: "OrderItemState \<Rightarrow> bool" where
  "in_kitchen_or_after s \<longleftrightarrow> s \<in> {PREPARING, READY, PICKED_UP, SERVED}"

lemma prepared_step:
  "in_kitchen_or_after s \<Longrightarrow> transition orderItemMachine s e = Inr t \<Longrightarrow>
     (in_kitchen_or_after (tr_to t) \<and> e \<noteq> VOID) \<or>
     (tr_to t = VOIDED \<and> e = VOID \<and> tr_requiresReason t \<and> tr_requiresManagerOverride t)"
  by (auto simp: item_transition item_tables in_kitchen_or_after_def)

lemma voided_stuck: "machine_run orderItemMachine VOIDED es s' \<longleftrightarrow> es = [] \<and> s' = VOIDED"
proof (cases es)
  case (Cons e es')
  have "findTransition orderItemMachine VOIDED e = None"
    by (rule item.terminal_stuck) (simp add: isTerminal_def item_tables)
  then show ?thesis using Cons by (simp add: run_Cons_iff transition_def)
qed auto

lemma prepared_run:
  "machine_run orderItemMachine s es s' \<Longrightarrow> in_kitchen_or_after s \<Longrightarrow>
     (in_kitchen_or_after s' \<and> VOID \<notin> set es) \<or>
     (s' = VOIDED \<and> (\<exists>fs. es = fs @ [VOID] \<and> VOID \<notin> set fs))"
proof (induction rule: machine_run.induct)
  case (Stay s)
  then show ?case by simp
next
  case (Step s e t es s')
  from prepared_step [OF Step.prems Step.hyps(1)] show ?case
  proof (elim disjE conjE)
    assume "in_kitchen_or_after (tr_to t)" "e \<noteq> VOID"
    then show ?thesis using Step.IH by (metis append_Cons set_ConsD)
  next
    assume "tr_to t = VOIDED" "e = VOID"
    moreover from this have "es = [] \<and> s' = VOIDED" using Step.hyps(2) voided_stuck by simp
    ultimately show ?thesis by (auto intro: exI [of _ "[]"])
  qed
qed

lemma void_transition:
  "transition orderItemMachine r VOID = Inr t \<Longrightarrow>
     r \<in> {PREPARING, READY, PICKED_UP, SERVED} \<and> tr_requiresReason t \<and> tr_requiresManagerOverride t"
  by (auto simp: item_transition item_tables)

text \<open>
  C10: from the moment the kitchen starts on an item it stays on the bill until it is voided. Every
  run from such a state keeps the item billable and never rejects or cancels it, except that its
  last event may be a void; and a void is possible only from such a state, with a reason and a
  manager's override.
\<close>

theorem prepared_item_only_voided:
  assumes "machine_run orderItemMachine s es s'" "s \<in> {PREPARING, READY, PICKED_UP, SERVED}"
  shows "(isBillable s' \<longleftrightarrow> VOID \<notin> set es) \<and> s' \<notin> {PENDING_APPROVAL, HELD, SENT, REJECTED, CANCELLED} \<and>
    (s' = VOIDED \<longleftrightarrow> (\<exists>fs. es = fs @ [VOID] \<and> VOID \<notin> set fs)) \<and>
    (transition orderItemMachine r VOID = Inr t \<longrightarrow>
       r \<in> {PREPARING, READY, PICKED_UP, SERVED} \<and> tr_requiresReason t \<and> tr_requiresManagerOverride t)"
proof -
  have "in_kitchen_or_after s" using assms(2) by (simp add: in_kitchen_or_after_def)
  from prepared_run [OF assms(1) this] show ?thesis
    using void_transition [of r t] by (auto simp: in_kitchen_or_after_def isBillable_def BILLABLE_def)
qed

theorem prepared_item_only_voided_witness:
  "machine_run orderItemMachine PREPARING [MARK_READY, VOID] VOIDED \<and> \<not> isBillable VOIDED"
proof -
  have run: "machine_run orderItemMachine PREPARING [MARK_READY, VOID] VOIDED"
    unfolding run_iff by code_simp
  show ?thesis using prepared_item_only_voided [OF run] run by simp
qed

lemma item_customer_run:
  "machine_run orderItemMachine s es s' \<Longrightarrow> s = PENDING_APPROVAL \<Longrightarrow>
     es = [] \<or> (hd es = REJECT \<and> s' = REJECTED \<and> es = [REJECT]) \<or> hd es = APPROVE"
proof (induction rule: machine_run.induct)
  case (Stay s)
  then show ?case by simp
next
  case (Step s e t es s')
  have "findTransition orderItemMachine REJECTED f = None" for f
    by (rule item.terminal_stuck) (simp add: isTerminal_def item_tables)
  then have rejected: "machine_run orderItemMachine REJECTED es s' \<Longrightarrow> es = [] \<and> s' = REJECTED"
    by (cases es) (auto simp: run_Cons_iff transition_def)
  have "tr_to t = REJECTED \<and> e = REJECT \<or> e = APPROVE"
    using Step.hyps(1) Step.prems by (auto simp: item_transition item_tables)
  then show ?case using rejected Step.hyps(2) by auto
qed

lemma item_serve: "\<not> isTerminal orderItemMachine s \<Longrightarrow> \<exists>es. machine_run orderItemMachine s es SERVED"
proof -
  assume "\<not> isTerminal orderItemMachine s"
  then have "run_events orderItemMachine s
      (case s of PENDING_APPROVAL \<Rightarrow> [APPROVE, MARK_READY, SERVE] | HELD \<Rightarrow> [FIRE, MARK_READY, SERVE]
        | SENT \<Rightarrow> [MARK_READY, SERVE] | PREPARING \<Rightarrow> [MARK_READY, SERVE] | READY \<Rightarrow> [SERVE] | PICKED_UP \<Rightarrow> [SERVE]
        | _ \<Rightarrow> []) = Some SERVED"
    by (cases s; simp add: isTerminal_def item_tables; code_simp)
  then show ?thesis unfolding run_iff by blast
qed

text \<open>
  An item always comes to an end. Every run of an item has at most six events, from every state
  that is not terminal the item can still be served, and a customer's item that left its first
  state was approved first, or rejected and nothing else ever happens to it.
\<close>

lemma order_item_runs_end:
  assumes "machine_run orderItemMachine s es s'"
  shows "length es \<le> 6 \<and> (\<not> isTerminal orderItemMachine s \<longrightarrow> (\<exists>fs. machine_run orderItemMachine s fs SERVED)) \<and>
    (s = initialOrderItemState source \<and> isCustomerSource source \<longrightarrow>
       es = [] \<or> es = [REJECT] \<and> s' = REJECTED \<or> hd es = APPROVE) \<and>
    (isKitchenActive s' \<longrightarrow> isBillable s')"
proof -
  have "item_rank s \<le> 6" by (cases s) auto
  then have "length es \<le> 6" using item_run_bound [OF assms] by simp
  moreover have "es = [] \<or> es = [REJECT] \<and> s' = REJECTED \<or> hd es = APPROVE"
    if "s = initialOrderItemState source" "isCustomerSource source"
    using item_customer_run [OF assms] that by (auto simp: initialOrderItemState_def)
  ultimately show ?thesis
    using item_serve by (auto simp: isKitchenActive_def isBillable_def BILLABLE_def)
qed

theorem order_item_runs_end_witness:
  "machine_run orderItemMachine (initialOrderItemState QR) [APPROVE, START_PREPARING] PREPARING \<and> isBillable PREPARING"
proof -
  have run: "machine_run orderItemMachine (initialOrderItemState QR) [APPROVE, START_PREPARING] PREPARING"
    unfolding run_iff by code_simp
  have "isKitchenActive PREPARING" by (simp add: isKitchenActive_def)
  then show ?thesis using order_item_runs_end [OF run, of QR] run by blast
qed

end
