(* ===== verification/Notifications.thy ===== *)
theory Notifications
  imports Text
begin

text \<open>
  \<open>packages/domain/src/notifications.ts\<close>: which events alert whom and where, what a pager shows, who
  takes an alert, and when it escalates and repeats. Times are milliseconds. Texts are strings of
  one code unit below 256 per character. A JavaScript \<open>Set\<close> is a list without
  repetitions in insertion order. The loop that catches up missed repeats is a partial function.
\<close>

datatype NotificationEvent =
    ORDER_PENDING_APPROVAL
  | ITEM_READY
  | WATER_REQUEST
  | WAITER_REQUEST
  | BILL_REQUEST
  | READY_NOT_COLLECTED
  | MANAGER_NUDGE
  | ORDER_CHANGED
  | WAITER_UNREACHABLE
  | DEVICE_LOW_BATTERY_OR_OFFLINE
  | PRINTER_OFFLINE
  | DISK_OR_BACKUP
  | LICENSE_STATE
  | SUSPICIOUS_ACTIVITY
  | SUPPORT_REQUEST
  | VENDOR_RESTORE_CODE
  | SIGN_IN_LOCKED

datatype RecipientKind =
    RESPONSIBLE_WAITER
  | SECTION_WAITERS
  | ALL_WAITERS
  | MANAGERS_ON_DUTY
  | CASHIER
  | STATION
  | OWNER
  | WEARER
  | SELECTED

datatype NotificationChannel =
    PAGER
  | WAITER_APP
  | POS
  | DASHBOARD
  | KDS
  | TABLET
  | PRINTED_SLIP
  | CONTROL_PLANE

datatype RepeatPolicy =
    UNTIL_ACKED
  | NONE
  | ONCE_PER_STATE
  | UNTIL_RESOLVED
  | DAILY

definition RECIPIENT_KINDS :: "RecipientKind list" where
  "RECIPIENT_KINDS =
     [RESPONSIBLE_WAITER, SECTION_WAITERS, ALL_WAITERS, MANAGERS_ON_DUTY, CASHIER,
      STATION, OWNER, WEARER, SELECTED]"

definition NOTIFICATION_CHANNELS :: "NotificationChannel list" where
  "NOTIFICATION_CHANNELS = [PAGER, WAITER_APP, POS, DASHBOARD, KDS, TABLET, PRINTED_SLIP, CONTROL_PLANE]"

record NotificationRule =
  nr_recipients :: "RecipientKind list"
  nr_channels :: "NotificationChannel list"
  nr_pagerText :: "string option"
  nr_escalate :: bool
  nr_repeat :: RepeatPolicy

definition notification_rule ::
  "RecipientKind list \<Rightarrow> NotificationChannel list \<Rightarrow> string option \<Rightarrow> bool \<Rightarrow> RepeatPolicy \<Rightarrow> NotificationRule" where
  "notification_rule recipients channels pagerText escalate repeat_policy =
     \<lparr>nr_recipients = recipients, nr_channels = channels, nr_pagerText = pagerText,
      nr_escalate = escalate, nr_repeat = repeat_policy\<rparr>"

fun DEFAULT_NOTIFICATION_RULES :: "NotificationEvent \<Rightarrow> NotificationRule" where
  "DEFAULT_NOTIFICATION_RULES ORDER_PENDING_APPROVAL =
     notification_rule [RESPONSIBLE_WAITER] [PAGER, WAITER_APP, POS]
       (Some ''{table} NEW ORDER'') True UNTIL_ACKED"
| "DEFAULT_NOTIFICATION_RULES ITEM_READY =
     notification_rule [RESPONSIBLE_WAITER] [PAGER, WAITER_APP, TABLET]
       (Some ''{table} READY'') True UNTIL_ACKED"
| "DEFAULT_NOTIFICATION_RULES WATER_REQUEST =
     notification_rule [RESPONSIBLE_WAITER] [PAGER, WAITER_APP]
       (Some ''{table} WATER'') True UNTIL_ACKED"
| "DEFAULT_NOTIFICATION_RULES WAITER_REQUEST =
     notification_rule [RESPONSIBLE_WAITER] [PAGER, WAITER_APP]
       (Some ''{table} WAITER'') True UNTIL_ACKED"
| "DEFAULT_NOTIFICATION_RULES BILL_REQUEST =
     notification_rule [RESPONSIBLE_WAITER, CASHIER] [PAGER, WAITER_APP, POS]
       (Some ''{table} BILL'') True UNTIL_ACKED"
| "DEFAULT_NOTIFICATION_RULES READY_NOT_COLLECTED =
     notification_rule [MANAGERS_ON_DUTY] [POS, DASHBOARD, PAGER]
       (Some ''{table} FOOD WAITING'') False UNTIL_ACKED"
| "DEFAULT_NOTIFICATION_RULES MANAGER_NUDGE =
     notification_rule [SELECTED] [PAGER, WAITER_APP]
       (Some ''MGR: {message}'') False UNTIL_ACKED"
| "DEFAULT_NOTIFICATION_RULES ORDER_CHANGED =
     notification_rule [STATION] [KDS, PRINTED_SLIP]
       None False NONE"
| "DEFAULT_NOTIFICATION_RULES WAITER_UNREACHABLE =
     notification_rule [MANAGERS_ON_DUTY] [POS, DASHBOARD]
       None False NONE"
| "DEFAULT_NOTIFICATION_RULES DEVICE_LOW_BATTERY_OR_OFFLINE =
     notification_rule [MANAGERS_ON_DUTY, WEARER] [DASHBOARD, WAITER_APP, PAGER]
       (Some ''LOW BATTERY'') False ONCE_PER_STATE"
| "DEFAULT_NOTIFICATION_RULES PRINTER_OFFLINE =
     notification_rule [MANAGERS_ON_DUTY, CASHIER] [POS, DASHBOARD]
       None False UNTIL_RESOLVED"
| "DEFAULT_NOTIFICATION_RULES DISK_OR_BACKUP =
     notification_rule [OWNER, MANAGERS_ON_DUTY] [POS, DASHBOARD, CONTROL_PLANE]
       None False DAILY"
| "DEFAULT_NOTIFICATION_RULES LICENSE_STATE =
     notification_rule [OWNER, MANAGERS_ON_DUTY] [POS, DASHBOARD]
       None False DAILY"
| "DEFAULT_NOTIFICATION_RULES SUSPICIOUS_ACTIVITY =
     notification_rule [OWNER] [DASHBOARD, CONTROL_PLANE]
       None False NONE"
| "DEFAULT_NOTIFICATION_RULES SUPPORT_REQUEST =
     notification_rule [OWNER, MANAGERS_ON_DUTY] [DASHBOARD]
       None False UNTIL_RESOLVED"
| "DEFAULT_NOTIFICATION_RULES VENDOR_RESTORE_CODE =
     notification_rule [OWNER] [POS, DASHBOARD]
       None False NONE"
| "DEFAULT_NOTIFICATION_RULES SIGN_IN_LOCKED =
     notification_rule [OWNER, MANAGERS_ON_DUTY] [POS, DASHBOARD]
       None False NONE"

text \<open>
  A manager's change to a rule: a field left out is \<^term>\<open>None\<close>, so a pager text set to null is
  \<^term>\<open>Some None\<close>.
\<close>

record NotificationRuleOverride =
  no_recipients :: "RecipientKind list option"
  no_channels :: "NotificationChannel list option"
  no_pagerText :: "string option option"
  no_escalate :: "bool option"
  no_repeat :: "RepeatPolicy option"

definition or_default :: "'a option \<Rightarrow> 'a \<Rightarrow> 'a" where
  "or_default x d = (case x of None \<Rightarrow> d | Some y \<Rightarrow> y)"

definition effectiveRule ::
  "NotificationEvent \<Rightarrow> (NotificationEvent \<Rightarrow> NotificationRuleOverride option) \<Rightarrow> NotificationRule" where
  "effectiveRule event overrides =
     (let r = DEFAULT_NOTIFICATION_RULES event
      in case overrides event of
           None \<Rightarrow> r
         | Some override \<Rightarrow>
             \<lparr>nr_recipients = or_default (no_recipients override) (nr_recipients r),
              nr_channels = or_default (no_channels override) (nr_channels r),
              nr_pagerText = or_default (no_pagerText override) (nr_pagerText r),
              nr_escalate = or_default (no_escalate override) (nr_escalate r),
              nr_repeat = or_default (no_repeat override) (nr_repeat r)\<rparr>)"

definition GENERAL_RECIPIENTS :: "RecipientKind list" where
  "GENERAL_RECIPIENTS = [RESPONSIBLE_WAITER, SECTION_WAITERS, ALL_WAITERS, MANAGERS_ON_DUTY, CASHIER, OWNER]"

definition GENERAL_CHANNELS :: "NotificationChannel list" where
  "GENERAL_CHANNELS = [PAGER, WAITER_APP, POS, DASHBOARD]"

definition recipientChoices :: "NotificationEvent \<Rightarrow> RecipientKind list" where
  "recipientChoices event =
     (let own = nr_recipients (DEFAULT_NOTIFICATION_RULES event)
      in filter (\<lambda>kind. kind \<in> set GENERAL_RECIPIENTS \<or> kind \<in> set own) RECIPIENT_KINDS)"

definition channelChoices :: "NotificationEvent \<Rightarrow> NotificationChannel list" where
  "channelChoices event =
     (let own = nr_channels (DEFAULT_NOTIFICATION_RULES event)
      in filter (\<lambda>channel. channel \<in> set GENERAL_CHANNELS \<or> channel \<in> set own) NOTIFICATION_CHANNELS)"

definition sameSet :: "'a list \<Rightarrow> 'a list \<Rightarrow> bool" where
  "sameSet a b \<longleftrightarrow> length a = length b \<and> (\<forall>x \<in> set a. x \<in> set b)"

definition unless_same :: "bool \<Rightarrow> 'a \<Rightarrow> 'a option" where
  "unless_same same x = (if same then None else Some x)"

definition ruleOverride :: "NotificationEvent \<Rightarrow> NotificationRule \<Rightarrow> NotificationRuleOverride option" where
  "ruleOverride event r =
     (let factory = DEFAULT_NOTIFICATION_RULES event;
          override =
            \<lparr>no_recipients = unless_same (sameSet (nr_recipients r) (nr_recipients factory)) (nr_recipients r),
             no_channels = unless_same (sameSet (nr_channels r) (nr_channels factory)) (nr_channels r),
             no_pagerText = unless_same (nr_pagerText r = nr_pagerText factory) (nr_pagerText r),
             no_escalate = unless_same (nr_escalate r = nr_escalate factory) (nr_escalate r),
             no_repeat = unless_same (nr_repeat r = nr_repeat factory) (nr_repeat r)\<rparr>
      in if override = \<lparr>no_recipients = None, no_channels = None, no_pagerText = None,
                        no_escalate = None, no_repeat = None\<rparr> then None
         else Some override)"

datatype NotificationRuleProblem =
    RECIPIENTS_REQUIRED
  | CHANNELS_REQUIRED
  | PAGER_TEXT_REQUIRED
  | PAGER_TEXT_TOO_LONG

definition PAGER_TEXT_MAX :: nat where
  "PAGER_TEXT_MAX = 20"

definition pager_text_problems :: "string option \<Rightarrow> NotificationRuleProblem list" where
  "pager_text_problems pagerText =
     (case pagerText of
        None \<Rightarrow> [PAGER_TEXT_REQUIRED]
      | Some t \<Rightarrow>
          if trim_ws t = [] then [PAGER_TEXT_REQUIRED]
          else if PAGER_TEXT_MAX < length (trim_ws t) then [PAGER_TEXT_TOO_LONG]
          else [])"

definition checkRule :: "NotificationRule \<Rightarrow> NotificationRuleProblem list" where
  "checkRule r =
     (if nr_recipients r = [] then [RECIPIENTS_REQUIRED] else []) @
     (if nr_channels r = [] then [CHANNELS_REQUIRED] else []) @
     (if PAGER \<in> set (nr_channels r) then pager_text_problems (nr_pagerText r) else [])"

section \<open>Pager texts\<close>

definition tableTag :: "string option \<Rightarrow> string" where
  "tableTag label =
     (case label of
        None \<Rightarrow> []
      | Some l \<Rightarrow> (case l of c # _ \<Rightarrow> if is_digit_char c then CHR ''T'' # l else l | [] \<Rightarrow> l))"

text \<open>
  \<open>String.prototype.replace\<close> of a text: the first occurrence only, and in the replacement a dollar
  sign followed by a dollar sign, an ampersand, a back tick or an apostrophe stands for a dollar
  sign, the text matched, what precedes it and what follows it.
\<close>

fun expand_replacement :: "string \<Rightarrow> string \<Rightarrow> string \<Rightarrow> string \<Rightarrow> string" where
  "expand_replacement matched before after (c # d # r) =
     (if c = CHR 0x24 \<and> d = CHR 0x24 then CHR 0x24 # expand_replacement matched before after r
      else if c = CHR 0x24 \<and> d = CHR 0x26 then matched @ expand_replacement matched before after r
      else if c = CHR 0x24 \<and> d = CHR 0x60 then before @ expand_replacement matched before after r
      else if c = CHR 0x24 \<and> d = CHR 0x27 then after @ expand_replacement matched before after r
      else c # expand_replacement matched before after (d # r))"
| "expand_replacement matched before after r = r"

fun replace_from :: "string \<Rightarrow> string \<Rightarrow> string \<Rightarrow> string \<Rightarrow> string" where
  "replace_from pat replacement before [] =
     (if pat = [] then before @ expand_replacement pat before [] replacement else before)"
| "replace_from pat replacement before (c # s) =
     (if take (length pat) (c # s) = pat
      then before @ expand_replacement pat before (drop (length pat) (c # s)) replacement @ drop (length pat) (c # s)
      else replace_from pat replacement (before @ [c]) s)"

definition js_replace :: "string \<Rightarrow> string \<Rightarrow> string \<Rightarrow> string" where
  "js_replace s pat replacement = replace_from pat replacement [] s"

text \<open>\<open>replace(/\s+/g, ' ')\<close>.\<close>

fun squeeze_ws :: "string \<Rightarrow> string" where
  "squeeze_ws [] = []"
| "squeeze_ws [c] = [if is_ws_char c then CHR '' '' else c]"
| "squeeze_ws (c # d # s) =
     (if is_ws_char c then (if is_ws_char d then squeeze_ws (d # s) else CHR '' '' # squeeze_ws (d # s))
      else c # squeeze_ws (d # s))"

definition includes_text :: "string \<Rightarrow> string \<Rightarrow> bool" where
  "includes_text s pat \<longleftrightarrow> (\<exists>i \<in> set [0..<Suc (length s)]. take (length pat) (drop i s) = pat)"

definition pagerTextFor :: "string option \<Rightarrow> string option \<Rightarrow> string option \<Rightarrow> string option" where
  "pagerTextFor template table message =
     (case template of
        None \<Rightarrow> None
      | Some t \<Rightarrow>
          let filled = trim_ws (squeeze_ws
                (js_replace (js_replace t ''{table}'' (tableTag table)) ''{message}'' (or_default message [])));
              shown = (if includes_text t ''{message}'' then filled else toUpperCase filled)
          in Some (take PAGER_TEXT_MAX shown))"

section \<open>Where an alert shows\<close>

record AlertDelivery =
  ad_recipientIds :: "string list"
  ad_channels :: "string list"
  ad_escalatedTo :: "string list"

definition reachesPagerAndApp :: "AlertDelivery \<Rightarrow> string \<Rightarrow> bool" where
  "reachesPagerAndApp alert staffId =
     (if staffId \<notin> set (ad_recipientIds alert) then False
      else ''PAGER'' \<in> set (ad_channels alert) \<or> ''WAITER_APP'' \<in> set (ad_channels alert) \<or>
           staffId \<in> set (ad_escalatedTo alert))"

definition reachesConsole :: "AlertDelivery \<Rightarrow> string \<Rightarrow> bool" where
  "reachesConsole alert staffId =
     (if staffId \<notin> set (ad_recipientIds alert) then False
      else ''POS'' \<in> set (ad_channels alert) \<or> ''DASHBOARD'' \<in> set (ad_channels alert) \<or>
           staffId \<in> set (ad_escalatedTo alert))"

section \<open>Who takes an alert\<close>

record RecipientContext =
  rc_responsibleWaiterId :: "string option"
  rc_sectionWaiterIds :: "string list"
  rc_allWaiterIds :: "string list"
  rc_managersOnDuty :: "string list"
  rc_cashiersOnDuty :: "string list"
  rc_ownerIds :: "string list"
  rc_selectedIds :: "string list"
  rc_wearerId :: "string option"
  rc_onBreak :: "string list"
  rc_reachable :: "string \<Rightarrow> bool"
  rc_askedById :: "string option"

record ResolvedRecipients =
  rr_staffIds :: "string list"
  rr_stations :: bool
  rr_escalateNow :: bool

definition WAITER_KINDS :: "RecipientKind list" where
  "WAITER_KINDS = [RESPONSIBLE_WAITER, SECTION_WAITERS, ALL_WAITERS, SELECTED]"

text \<open>The local variables of the loop over the recipient kinds.\<close>

record Resolving =
  rv_people :: "string list"
  rv_waiterWanted :: bool
  rv_waiterFound :: bool
  rv_stations :: bool
  rv_escalateNow :: bool

definition set_add :: "'a \<Rightarrow> 'a list \<Rightarrow> 'a list" where
  "set_add x xs = (if x \<in> set xs then xs else xs @ [x])"

definition add_people :: "string list \<Rightarrow> Resolving \<Rightarrow> Resolving" where
  "add_people ids st = st\<lparr>rv_people := foldl (\<lambda>people i. set_add i people) (rv_people st) ids\<rparr>"

definition addWaiters :: "RecipientContext \<Rightarrow> string list \<Rightarrow> Resolving \<Rightarrow> Resolving" where
  "addWaiters context ids st =
     foldl (\<lambda>st i. if i \<in> set (rc_onBreak context) then st
                   else st\<lparr>rv_people := set_add i (rv_people st), rv_waiterFound := True\<rparr>) st ids"

definition add_responsible :: "RecipientContext \<Rightarrow> Resolving \<Rightarrow> Resolving" where
  "add_responsible context st =
     (case rc_responsibleWaiterId context of
        None \<Rightarrow> st\<lparr>rv_escalateNow := True\<rparr>
      | Some waiter \<Rightarrow>
          if rc_askedById context = Some waiter then st\<lparr>rv_waiterFound := True\<rparr>
          else
            let st = (if waiter \<in> set (rc_onBreak context) \<or> \<not> rc_reachable context waiter
                      then st\<lparr>rv_escalateNow := True\<rparr> else st)
            in if waiter \<in> set (rc_onBreak context) then st
               else st\<lparr>rv_people := set_add waiter (rv_people st), rv_waiterFound := True\<rparr>)"

fun resolve_kind :: "RecipientContext \<Rightarrow> RecipientKind \<Rightarrow> Resolving \<Rightarrow> Resolving" where
  "resolve_kind context RESPONSIBLE_WAITER st = add_responsible context st"
| "resolve_kind context SECTION_WAITERS st = addWaiters context (rc_sectionWaiterIds context) st"
| "resolve_kind context ALL_WAITERS st = addWaiters context (rc_allWaiterIds context) st"
| "resolve_kind context SELECTED st = addWaiters context (rc_selectedIds context) st"
| "resolve_kind context MANAGERS_ON_DUTY st = add_people (rc_managersOnDuty context) st"
| "resolve_kind context CASHIER st = add_people (rc_cashiersOnDuty context) st"
| "resolve_kind context OWNER st = add_people (rc_ownerIds context) st"
| "resolve_kind context WEARER st =
     (case rc_wearerId context of None \<Rightarrow> st | Some w \<Rightarrow> add_people [w] st)"
| "resolve_kind context STATION st = st\<lparr>rv_stations := True\<rparr>"

fun resolve_kinds :: "RecipientContext \<Rightarrow> RecipientKind list \<Rightarrow> Resolving \<Rightarrow> Resolving" where
  "resolve_kinds context [] st = st"
| "resolve_kinds context (kind # kinds) st =
     resolve_kinds context kinds
       (resolve_kind context kind
         (if kind \<in> set WAITER_KINDS then st\<lparr>rv_waiterWanted := True\<rparr> else st))"

definition resolveRecipients :: "NotificationRule \<Rightarrow> RecipientContext \<Rightarrow> ResolvedRecipients" where
  "resolveRecipients r context =
     (let st = resolve_kinds context (nr_recipients r)
            \<lparr>rv_people = [], rv_waiterWanted = False, rv_waiterFound = False, rv_stations = False, rv_escalateNow = False\<rparr>;
          people = (case rc_askedById context of
                      None \<Rightarrow> rv_people st
                    | Some asked \<Rightarrow> filter (\<lambda>i. i \<noteq> asked) (rv_people st));
          escalateNow = (if rv_waiterWanted st \<and> \<not> rv_waiterFound st then True else rv_escalateNow st);
          people = (if escalateNow then foldl (\<lambda>people i. set_add i people) people (rc_managersOnDuty context) else people)
      in \<lparr>rr_staffIds = people, rr_stations = rv_stations st, rr_escalateNow = escalateNow\<rparr>)"

section \<open>Escalation and repeats\<close>

record AlertDeadlines =
  dl_escalateAt :: "int option"
  dl_nextRepeatAt :: "int option"

record NotificationTiming =
  nt_escalationSeconds :: int
  nt_repeatSeconds :: int

definition later :: "int \<Rightarrow> int \<Rightarrow> int" where
  "later start seconds = start + seconds * 1000"

definition initialDeadlines :: "NotificationRule \<Rightarrow> int \<Rightarrow> NotificationTiming \<Rightarrow> bool \<Rightarrow> AlertDeadlines" where
  "initialDeadlines r now timing escalatedAlready =
     \<lparr>dl_escalateAt = (if nr_escalate r \<and> \<not> escalatedAlready then Some (later now (nt_escalationSeconds timing)) else None),
      dl_nextRepeatAt =
        (if nr_repeat r = UNTIL_ACKED \<or> nr_repeat r = UNTIL_RESOLVED
         then Some (later now (nt_repeatSeconds timing))
         else if nr_repeat r = DAILY then Some (later now (24 * 60 * 60))
         else None)\<rparr>"

datatype DueAction = ESCALATE AlertDeadlines | REPEAT AlertDeadlines

text \<open>\<open>while (next <= now) next = later(next, step)\<close>; no value when it never ends.\<close>

partial_function (option) catch_up :: "int \<Rightarrow> int \<Rightarrow> int \<Rightarrow> int option" where
  "catch_up step now next_at =
     (if next_at \<le> now then catch_up step now (later next_at step) else Some next_at)"

declare catch_up.simps [code]

definition due_escalation :: "AlertDeadlines \<Rightarrow> int \<Rightarrow> bool" where
  "due_escalation deadlines now =
     (case dl_escalateAt deadlines of None \<Rightarrow> False | Some at \<Rightarrow> at \<le> now)"

definition repeat_step :: "NotificationRule \<Rightarrow> NotificationTiming \<Rightarrow> int" where
  "repeat_step r timing = (if nr_repeat r = DAILY then 24 * 60 * 60 else nt_repeatSeconds timing)"

definition dueActions ::
  "NotificationRule \<Rightarrow> AlertDeadlines \<Rightarrow> int \<Rightarrow> NotificationTiming \<Rightarrow> DueAction list option" where
  "dueActions r deadlines now timing =
     (let escalateAt = (if due_escalation deadlines now then None else dl_escalateAt deadlines);
          actions = (if due_escalation deadlines now
                     then [ESCALATE \<lparr>dl_escalateAt = escalateAt, dl_nextRepeatAt = dl_nextRepeatAt deadlines\<rparr>] else [])
      in case dl_nextRepeatAt deadlines of
           None \<Rightarrow> Some actions
         | Some nextRepeatAt \<Rightarrow>
             if nextRepeatAt \<le> now
             then map_option
                    (\<lambda>n. actions @ [REPEAT \<lparr>dl_escalateAt = escalateAt, dl_nextRepeatAt = Some n\<rparr>])
                    (catch_up (repeat_step r timing) now nextRepeatAt)
             else Some actions)"

end
