(* ===== verification/Service_Request.thy ===== *)
theory Service_Request
  imports State_Machine Notifications
begin

text \<open>
  \<open>packages/domain/src/machines/service-request.ts\<close>: a diner's call for water, a waiter or the bill.
  The lemmas show that the cancel button and the waiter's resolve always lead to a closed request,
  and that at most one request of a type is open at a table.
\<close>

datatype ServiceRequestType = WATER | WAITER | BILL

fun SERVICE_REQUEST_ALERTS :: "ServiceRequestType \<Rightarrow> NotificationEvent" where
  "SERVICE_REQUEST_ALERTS WATER = WATER_REQUEST"
| "SERVICE_REQUEST_ALERTS WAITER = WAITER_REQUEST"
| "SERVICE_REQUEST_ALERTS BILL = BILL_REQUEST"

datatype ServiceRequestState = ACTIVE | ESCALATED | ACKNOWLEDGED | CANCELLED | RESOLVED

definition SERVICE_REQUEST_STATES :: "ServiceRequestState list" where
  "SERVICE_REQUEST_STATES = [ACTIVE, ESCALATED, ACKNOWLEDGED, CANCELLED, RESOLVED]"

datatype ServiceRequestEvent = ESCALATE_REQUEST | ACKNOWLEDGE | CANCEL | RESOLVE

definition serviceRequestMachine :: "(ServiceRequestState, ServiceRequestEvent) StateMachine" where
  "serviceRequestMachine =
     \<lparr>sm_name = ''ServiceRequest'', sm_states = SERVICE_REQUEST_STATES, sm_terminal = [CANCELLED, RESOLVED],
      sm_transitions =
       [\<lparr>tr_event = ESCALATE_REQUEST, tr_from = [ACTIVE], tr_to = ESCALATED,
         tr_requiresReason = False, tr_requiresManagerOverride = False\<rparr>,
        \<lparr>tr_event = ACKNOWLEDGE, tr_from = [ACTIVE, ESCALATED], tr_to = ACKNOWLEDGED,
         tr_requiresReason = False, tr_requiresManagerOverride = False\<rparr>,
        \<lparr>tr_event = CANCEL, tr_from = [ACTIVE, ESCALATED], tr_to = CANCELLED,
         tr_requiresReason = False, tr_requiresManagerOverride = False\<rparr>,
        \<lparr>tr_event = RESOLVE, tr_from = [ACKNOWLEDGED], tr_to = RESOLVED,
         tr_requiresReason = False, tr_requiresManagerOverride = False\<rparr>]\<rparr>"

definition cancelButtonEvent :: "ServiceRequestState \<Rightarrow> ServiceRequestEvent option" where
  "cancelButtonEvent state =
     (if state = ACTIVE \<or> state = ESCALATED then Some CANCEL
      else if state = ACKNOWLEDGED then Some RESOLVE
      else None)"

definition resolveEvents :: "ServiceRequestState \<Rightarrow> ServiceRequestEvent list" where
  "resolveEvents state =
     (if state = ACTIVE \<or> state = ESCALATED then [ACKNOWLEDGE, RESOLVE]
      else if state = ACKNOWLEDGED then [RESOLVE]
      else [])"

definition OPEN_SERVICE_REQUEST_STATES :: "ServiceRequestState list" where
  "OPEN_SERVICE_REQUEST_STATES = [ACTIVE, ESCALATED, ACKNOWLEDGED]"

definition isOpenServiceRequest :: "ServiceRequestState \<Rightarrow> bool" where
  "isOpenServiceRequest state = (state \<in> set OPEN_SERVICE_REQUEST_STATES)"

record OpenRequest =
  or_type :: ServiceRequestType
  or_state :: ServiceRequestState

definition canRaiseServiceRequest :: "ServiceRequestType \<Rightarrow> OpenRequest list \<Rightarrow> bool" where
  "canRaiseServiceRequest request_type openRequests =
     (\<not> (\<exists>r \<in> set openRequests. or_type r = request_type \<and> isOpenServiceRequest (or_state r)))"

interpretation request: checked_machine serviceRequestMachine
  by unfold_locales code_simp

lemmas request_tables =
  arg_cong [OF serviceRequestMachine_def, of sm_transitions, unfolded StateMachine.select_convs]
  arg_cong [OF serviceRequestMachine_def, of sm_terminal, unfolded StateMachine.select_convs]

lemma request_transition:
  "transition serviceRequestMachine s e = Inr t \<longleftrightarrow>
     t \<in> set (sm_transitions serviceRequestMachine) \<and> tr_event t = e \<and> s \<in> set (tr_from t)"
  by (simp add: transition_Inr_iff request.find_exact)

lemma open_not_terminal: "isOpenServiceRequest s \<longleftrightarrow> \<not> isTerminal serviceRequestMachine s"
  by (cases s) (auto simp: isOpenServiceRequest_def OPEN_SERVICE_REQUEST_STATES_def isTerminal_def request_tables)

text \<open>What the table keeps: pressing a button raises a request when that is allowed, and events move one.\<close>

inductive table_requests :: "OpenRequest list \<Rightarrow> bool" where
  No_Requests: "table_requests []"
| Raise: "table_requests rs \<Longrightarrow> canRaiseServiceRequest k rs \<Longrightarrow> table_requests (\<lparr>or_type = k, or_state = ACTIVE\<rparr> # rs)"
| Event: "table_requests (before @ r # after) \<Longrightarrow> transition serviceRequestMachine (or_state r) e = Inr t \<Longrightarrow>
    table_requests (before @ r\<lparr>or_state := tr_to t\<rparr> # after)"

definition open_of :: "ServiceRequestType \<Rightarrow> OpenRequest list \<Rightarrow> nat" where
  "open_of k rs = length (filter (\<lambda>r. or_type r = k \<and> isOpenServiceRequest (or_state r)) rs)"

lemma can_raise_iff: "canRaiseServiceRequest k rs \<longleftrightarrow> open_of k rs = 0"
  by (auto simp: canRaiseServiceRequest_def open_of_def filter_empty_conv)

lemma open_of_Cons: "open_of k (r # rs) = (if or_type r = k \<and> isOpenServiceRequest (or_state r) then 1 else 0) + open_of k rs"
  by (simp add: open_of_def)

lemma open_of_append: "open_of k (rs @ qs) = open_of k rs + open_of k qs"
  by (simp add: open_of_def)

lemma one_open: "table_requests rs \<Longrightarrow> open_of k rs \<le> 1"
proof (induction arbitrary: k rule: table_requests.induct)
  case No_Requests
  then show ?case by (simp add: open_of_def)
next
  case (Raise rs k')
  then show ?case using can_raise_iff [of k' rs] by (auto simp: open_of_Cons)
next
  case (Event before r after e t)
  have "isOpenServiceRequest (or_state r)"
    using Event.hyps(2) by (auto simp: request_transition request_tables isOpenServiceRequest_def OPEN_SERVICE_REQUEST_STATES_def)
  then show ?case using Event.IH [of k] by (auto simp: open_of_append open_of_Cons split: if_splits)
qed

text \<open>
  A table never has two open requests of one type, whatever the diner presses and however the
  staff react, and a new one is refused exactly while one is open.
\<close>

lemma one_open_request_per_type:
  assumes "table_requests rs"
  shows "open_of k rs \<le> 1 \<and> (canRaiseServiceRequest k rs \<longleftrightarrow> open_of k rs = 0)"
  using one_open [OF assms] can_raise_iff by blast

theorem one_open_request_per_type_witness:
  "table_requests [\<lparr>or_type = BILL, or_state = ACTIVE\<rparr>, \<lparr>or_type = WATER, or_state = ACTIVE\<rparr>] \<and>
   \<not> canRaiseServiceRequest WATER [\<lparr>or_type = BILL, or_state = ACTIVE\<rparr>, \<lparr>or_type = WATER, or_state = ACTIVE\<rparr>]"
proof -
  have "canRaiseServiceRequest WATER []" "canRaiseServiceRequest BILL [\<lparr>or_type = WATER, or_state = ACTIVE\<rparr>]" by code_simp+
  then have rs: "table_requests [\<lparr>or_type = BILL, or_state = ACTIVE\<rparr>, \<lparr>or_type = WATER, or_state = ACTIVE\<rparr>]"
    using table_requests.intros(1,2) by blast
  have "open_of WATER [\<lparr>or_type = BILL, or_state = ACTIVE\<rparr>, \<lparr>or_type = WATER, or_state = ACTIVE\<rparr>] = 1" by code_simp
  then show ?thesis using one_open_request_per_type [OF rs, of WATER] rs by simp
qed

text \<open>
  Both ways to clear a request work from every state. The event of the cancel button is a
  transition of the machine to a closed state, and there is none exactly when the request is closed;
  the events of the waiter's resolve run to a resolved request, acknowledging it first when needed,
  and do nothing to a closed one. The alert of every request escalates and repeats until acknowledged.
\<close>

lemma service_request_clears:
  "(case cancelButtonEvent s of
      None \<Rightarrow> \<not> isOpenServiceRequest s
    | Some e \<Rightarrow> isOpenServiceRequest s \<and>
        (\<exists>t. transition serviceRequestMachine s e = Inr t \<and> \<not> isOpenServiceRequest (tr_to t))) \<and>
   machine_run serviceRequestMachine s (resolveEvents s) (if isOpenServiceRequest s then RESOLVED else s) \<and>
   nr_escalate (DEFAULT_NOTIFICATION_RULES (SERVICE_REQUEST_ALERTS k)) \<and>
   nr_repeat (DEFAULT_NOTIFICATION_RULES (SERVICE_REQUEST_ALERTS k)) = UNTIL_ACKED"
proof -
  have "nr_escalate (DEFAULT_NOTIFICATION_RULES (SERVICE_REQUEST_ALERTS k))"
    "nr_repeat (DEFAULT_NOTIFICATION_RULES (SERVICE_REQUEST_ALERTS k)) = UNTIL_ACKED"
    by (cases k; simp add: notification_rule_def)+
  moreover have "cancelButtonEvent s = None \<longleftrightarrow> \<not> isOpenServiceRequest s"
    by (cases s) (auto simp: cancelButtonEvent_def isOpenServiceRequest_def OPEN_SERVICE_REQUEST_STATES_def)
  moreover have "\<exists>t. transition serviceRequestMachine s e = Inr t \<and> \<not> isOpenServiceRequest (tr_to t)"
    if "cancelButtonEvent s = Some e" for e
  proof -
    have "isOpenServiceRequest s"
      using that by (auto simp: cancelButtonEvent_def isOpenServiceRequest_def OPEN_SERVICE_REQUEST_STATES_def split: if_splits)
    then have "run_events serviceRequestMachine s [the (cancelButtonEvent s)] = Some (if s = ACKNOWLEDGED then RESOLVED else CANCELLED)"
      by (cases s; simp add: isOpenServiceRequest_def OPEN_SERVICE_REQUEST_STATES_def; code_simp)
    then have "machine_run serviceRequestMachine s [e] (if s = ACKNOWLEDGED then RESOLVED else CANCELLED)"
      by (simp only: run_iff that option.sel)
    then obtain t where "transition serviceRequestMachine s e = Inr t" "tr_to t = (if s = ACKNOWLEDGED then RESOLVED else CANCELLED)"
      by (auto simp: run_Cons_iff)
    then show ?thesis by (auto simp: isOpenServiceRequest_def OPEN_SERVICE_REQUEST_STATES_def split: if_splits)
  qed
  moreover have "run_events serviceRequestMachine s (resolveEvents s) = Some (if isOpenServiceRequest s then RESOLVED else s)"
    by (cases s; simp; code_simp)
  ultimately show ?thesis unfolding run_iff by (cases "cancelButtonEvent s") auto
qed

end
