(* ===== verification/Notification_Rules.thy ===== *)
theory Notification_Rules
  imports Notifications
begin

text \<open>
  What the notification rules promise: an alert always has someone to take it, its escalation and
  repeats come once and never in a burst, and a rule a manager saved is the rule that applies.
\<close>

section \<open>Who takes an alert\<close>

text \<open>The people of each recipient kind who may take an alert now.\<close>

fun takers :: "RecipientContext \<Rightarrow> RecipientKind \<Rightarrow> string set" where
  "takers c RESPONSIBLE_WAITER = {w. rc_responsibleWaiterId c = Some w \<and> w \<notin> set (rc_onBreak c)}"
| "takers c SECTION_WAITERS = set (rc_sectionWaiterIds c) - set (rc_onBreak c)"
| "takers c ALL_WAITERS = set (rc_allWaiterIds c) - set (rc_onBreak c)"
| "takers c SELECTED = set (rc_selectedIds c) - set (rc_onBreak c)"
| "takers c MANAGERS_ON_DUTY = set (rc_managersOnDuty c)"
| "takers c CASHIER = set (rc_cashiersOnDuty c)"
| "takers c OWNER = set (rc_ownerIds c)"
| "takers c WEARER = {w. rc_wearerId c = Some w}"
| "takers c STATION = {}"

definition own_request :: "RecipientContext \<Rightarrow> bool" where
  "own_request c \<longleftrightarrow> rc_responsibleWaiterId c \<noteq> None \<and> rc_askedById c = rc_responsibleWaiterId c"

definition waiter_missing :: "RecipientContext \<Rightarrow> bool" where
  "waiter_missing c \<longleftrightarrow>
     (case rc_responsibleWaiterId c of None \<Rightarrow> True | Some w \<Rightarrow> w \<in> set (rc_onBreak c) \<or> \<not> rc_reachable c w)"

definition found_by :: "RecipientContext \<Rightarrow> RecipientKind \<Rightarrow> bool" where
  "found_by c k \<longleftrightarrow> k \<in> set WAITER_KINDS \<and> (takers c k \<noteq> {} \<or> (k = RESPONSIBLE_WAITER \<and> own_request c))"

lemma set_set_add [simp]: "set (set_add x xs) = insert x (set xs)"
  by (auto simp: set_add_def)

lemma distinct_set_add [simp]: "distinct xs \<Longrightarrow> distinct (set_add x xs)"
  by (simp add: set_add_def)

lemma set_fold_set_add [simp]: "set (foldl (\<lambda>people i. set_add i people) xs ids) = set xs \<union> set ids"
  by (induction ids arbitrary: xs) auto

lemma distinct_fold_set_add [simp]: "distinct xs \<Longrightarrow> distinct (foldl (\<lambda>people i. set_add i people) xs ids)"
  by (induction ids arbitrary: xs) auto

lemma addWaiters_state:
  "rv_waiterWanted (addWaiters c ids st) = rv_waiterWanted st \<and>
   rv_stations (addWaiters c ids st) = rv_stations st \<and>
   rv_escalateNow (addWaiters c ids st) = rv_escalateNow st \<and>
   set (rv_people (addWaiters c ids st)) = set (rv_people st) \<union> (set ids - set (rc_onBreak c)) \<and>
   (distinct (rv_people st) \<longrightarrow> distinct (rv_people (addWaiters c ids st))) \<and>
   (rv_waiterFound (addWaiters c ids st) \<longleftrightarrow> rv_waiterFound st \<or> set ids - set (rc_onBreak c) \<noteq> {})"
  unfolding addWaiters_def
proof (induction ids arbitrary: st)
  case Nil
  then show ?case by simp
next
  case (Cons i ids)
  show ?case
  proof (cases "i \<in> set (rc_onBreak c)")
    case True
    then have "set (i # ids) - set (rc_onBreak c) = set ids - set (rc_onBreak c)" by auto
    with Cons.IH [of st] True show ?thesis by simp
  next
    case False
    with Cons.IH [of "st\<lparr>rv_people := set_add i (rv_people st), rv_waiterFound := True\<rparr>"]
    show ?thesis by auto
  qed
qed

lemma resolve_kind_state [simp]:
  "rv_waiterWanted (resolve_kind c k st) = rv_waiterWanted st"
  "rv_stations (resolve_kind c k st) \<longleftrightarrow> rv_stations st \<or> k = STATION"
  "rv_escalateNow (resolve_kind c k st) \<longleftrightarrow>
     rv_escalateNow st \<or> (k = RESPONSIBLE_WAITER \<and> \<not> own_request c \<and> waiter_missing c)"
  "distinct (rv_people st) \<Longrightarrow> distinct (rv_people (resolve_kind c k st))"
  "rv_waiterFound (resolve_kind c k st) \<longleftrightarrow> rv_waiterFound st \<or> found_by c k"
  by (cases k; auto simp: addWaiters_state add_people_def add_responsible_def own_request_def waiter_missing_def
       found_by_def WAITER_KINDS_def Let_def split: option.splits)+

lemma resolve_kind_people:
  "rc_askedById c \<noteq> Some i \<Longrightarrow>
     i \<in> set (rv_people (resolve_kind c k st)) \<longleftrightarrow> i \<in> set (rv_people st) \<or> i \<in> takers c k"
  by (cases k; auto simp: addWaiters_state add_people_def add_responsible_def Let_def split: option.splits)

lemma resolve_kinds_wanted:
  "rv_waiterWanted (resolve_kinds c ks st) \<longleftrightarrow> rv_waiterWanted st \<or> set ks \<inter> set WAITER_KINDS \<noteq> {}"
  by (induction ks arbitrary: st) auto

lemma resolve_kinds_stations: "rv_stations (resolve_kinds c ks st) \<longleftrightarrow> rv_stations st \<or> STATION \<in> set ks"
  by (induction ks arbitrary: st) auto

lemma resolve_kinds_escalate:
  "rv_escalateNow (resolve_kinds c ks st) \<longleftrightarrow>
     rv_escalateNow st \<or> (RESPONSIBLE_WAITER \<in> set ks \<and> \<not> own_request c \<and> waiter_missing c)"
  by (induction ks arbitrary: st) auto

lemma resolve_kinds_distinct: "distinct (rv_people st) \<Longrightarrow> distinct (rv_people (resolve_kinds c ks st))"
  by (induction ks arbitrary: st) auto

lemma resolve_kinds_found:
  "rv_waiterFound (resolve_kinds c ks st) \<longleftrightarrow> rv_waiterFound st \<or> (\<exists>k \<in> set ks. found_by c k)"
  by (induction ks arbitrary: st) auto

lemma resolve_kinds_people:
  "rc_askedById c \<noteq> Some i \<Longrightarrow>
     i \<in> set (rv_people (resolve_kinds c ks st)) \<longleftrightarrow> i \<in> set (rv_people st) \<or> (\<exists>k \<in> set ks. i \<in> takers c k)"
  by (induction ks arbitrary: st) (auto simp: resolve_kind_people)

lemmas resolve_kinds_state =
  resolve_kinds_wanted resolve_kinds_stations resolve_kinds_escalate resolve_kinds_found

text \<open>
  Who is alerted, exactly. Someone receives the alert when a recipient kind of the rule
  contains them and they did not raise it themselves, waiters on a break excepted; the managers on
  duty all receive it at once when the responsible waiter is missing, on a break or out of reach
  (unless it is their own request), or when the rule asks for a waiter and none is there to take it.
  Nobody is listed twice, and the stations are alerted exactly when the rule names them.
\<close>

lemma resolveRecipients_exact:
  "(i \<in> set (rr_staffIds (resolveRecipients r c)) \<longleftrightarrow>
     (rc_askedById c \<noteq> Some i \<and> (\<exists>k \<in> set (nr_recipients r). i \<in> takers c k)) \<or>
     (rr_escalateNow (resolveRecipients r c) \<and> i \<in> set (rc_managersOnDuty c))) \<and>
   (rr_escalateNow (resolveRecipients r c) \<longleftrightarrow>
     (RESPONSIBLE_WAITER \<in> set (nr_recipients r) \<and> \<not> own_request c \<and> waiter_missing c) \<or>
     (set (nr_recipients r) \<inter> set WAITER_KINDS \<noteq> {} \<and> \<not> (\<exists>k \<in> set (nr_recipients r). found_by c k))) \<and>
   distinct (rr_staffIds (resolveRecipients r c)) \<and>
   (rr_stations (resolveRecipients r c) \<longleftrightarrow> STATION \<in> set (nr_recipients r))"
proof -
  let ?start = "\<lparr>rv_people = [], rv_waiterWanted = False, rv_waiterFound = False, rv_stations = False, rv_escalateNow = False\<rparr>"
  let ?st = "resolve_kinds c (nr_recipients r) ?start"
  let ?people = "case rc_askedById c of None \<Rightarrow> rv_people ?st | Some asked \<Rightarrow> filter (\<lambda>i. i \<noteq> asked) (rv_people ?st)"
  have "i \<in> set ?people \<longleftrightarrow> rc_askedById c \<noteq> Some i \<and> i \<in> set (rv_people ?st)"
    by (auto split: option.splits)
  then have people: "i \<in> set ?people \<longleftrightarrow> rc_askedById c \<noteq> Some i \<and> (\<exists>k \<in> set (nr_recipients r). i \<in> takers c k)"
    using resolve_kinds_people [of c i "nr_recipients r" ?start] by auto
  have "distinct ?people" using resolve_kinds_distinct [of ?start] by (simp split: option.splits)
  then show ?thesis using people unfolding resolveRecipients_def Let_def by (simp add: resolve_kinds_state)
qed

section \<open>Escalation and repeats\<close>

text \<open>The loop ends exactly when nothing is missed or the step is positive, at the first point of the grid after now.\<close>

lemma catch_up_positive:
  assumes "0 < step"
  shows "\<exists>k. catch_up step now n = Some (n + k * (step * 1000)) \<and> (k = 0 \<longleftrightarrow> now < n) \<and> 0 \<le> k \<and>
    now < n + k * (step * 1000) \<and> (n \<le> now \<longrightarrow> n + k * (step * 1000) \<le> now + step * 1000)"
proof (induction "nat (now + 1 - n)" arbitrary: n rule: less_induct)
  case less
  show ?case
  proof (cases "n \<le> now")
    case False
    then show ?thesis by (intro exI [of _ 0]) (simp add: catch_up.simps)
  next
    case True
    then have "nat (now + 1 - later n step) < nat (now + 1 - n)" using assms by (simp add: later_def)
    from less.hyps [OF this] obtain k where k: "catch_up step now (later n step) = Some (later n step + k * (step * 1000))"
      "k = 0 \<longleftrightarrow> now < later n step" "0 \<le> k" "now < later n step + k * (step * 1000)"
      "later n step \<le> now \<longrightarrow> later n step + k * (step * 1000) \<le> now + step * 1000" by blast
    have grid: "later n step + k * (step * 1000) = n + (k + 1) * (step * 1000)" by (simp add: later_def algebra_simps)
    have "n + (k + 1) * (step * 1000) \<le> now + step * 1000"
    proof (cases "k = 0")
      case True
      then show ?thesis using \<open>n \<le> now\<close> by simp
    next
      case False
      then show ?thesis using k(2,5) grid by simp
    qed
    then show ?thesis
      using k grid True by (intro exI [of _ "k + 1"]) (simp add: catch_up.simps [of step now n])
  qed
qed

lemma catch_up_stuck:
  assumes "catch_up step now n = Some m"
  shows "n \<le> now \<longrightarrow> 0 < step"
proof (rule catch_up.raw_induct [where P = "\<lambda>step now n m. n \<le> now \<longrightarrow> 0 < step", OF _ assms])
  fix loop step now n m
  assume IH: "\<And>step now n m. loop step now n = Some m \<Longrightarrow> n \<le> now \<longrightarrow> 0 < step"
    and body: "(if n \<le> now then loop step now (later n step) else Some n) = Some (m :: int)"
  show "n \<le> now \<longrightarrow> (0 :: int) < step"
  proof
    assume n: "n \<le> now"
    then have "later n step \<le> now \<longrightarrow> 0 < step" using IH [of step now "later n step" m] body by simp
    then show "0 < step" using n by (auto simp: later_def)
  qed
qed

definition deadlines_after :: "AlertDeadlines \<Rightarrow> DueAction list \<Rightarrow> AlertDeadlines" where
  "deadlines_after d actions =
     (if actions = [] then d else (case last actions of ESCALATE n \<Rightarrow> n | REPEAT n \<Rightarrow> n))"

definition escalations :: "DueAction list \<Rightarrow> nat" where
  "escalations actions = length (filter (\<lambda>a. case a of ESCALATE _ \<Rightarrow> True | REPEAT _ \<Rightarrow> False) actions)"

definition repeats :: "DueAction list \<Rightarrow> nat" where
  "repeats actions = length (filter (\<lambda>a. case a of ESCALATE _ \<Rightarrow> False | REPEAT _ \<Rightarrow> True) actions)"

definition due_repeat :: "AlertDeadlines \<Rightarrow> int \<Rightarrow> bool" where
  "due_repeat d now = (case dl_nextRepeatAt d of None \<Rightarrow> False | Some at \<Rightarrow> at \<le> now)"

lemma dueActions_returns: "dueActions r d now timing \<noteq> None \<longleftrightarrow> \<not> (due_repeat d now \<and> repeat_step r timing \<le> 0)"
proof (cases "due_repeat d now")
  case False
  then show ?thesis by (auto simp: dueActions_def due_repeat_def Let_def split: option.splits)
next
  case True
  then obtain n where n: "dl_nextRepeatAt d = Some n" "n \<le> now" by (auto simp: due_repeat_def split: option.splits)
  have "catch_up (repeat_step r timing) now n \<noteq> None \<longleftrightarrow> 0 < repeat_step r timing"
    using catch_up_stuck [of "repeat_step r timing" now n] catch_up_positive [of "repeat_step r timing" now n] n(2) by auto
  then show ?thesis using True n by (auto simp: dueActions_def Let_def)
qed

lemma dueActions_Some:
  assumes "dueActions r d now timing = Some actions"
  shows "escalations actions = (if due_escalation d now then 1 else 0)"
    and "repeats actions = (if due_repeat d now then 1 else 0)"
    and "dl_escalateAt (deadlines_after d actions) = (if due_escalation d now then None else dl_escalateAt d)"
    and "\<not> due_repeat d now \<Longrightarrow> dl_nextRepeatAt (deadlines_after d actions) = dl_nextRepeatAt d"
    and "due_repeat d now \<Longrightarrow> catch_up (repeat_step r timing) now (the (dl_nextRepeatAt d)) = dl_nextRepeatAt (deadlines_after d actions)"
  using assms
  by (auto simp: dueActions_def Let_def escalations_def repeats_def deadlines_after_def due_repeat_def
      split: option.splits if_splits)

text \<open>
  C31: the clock of an alert never hangs and never bursts. The catch-up loop ends exactly when no
  repeat is missed or the repeat interval is positive; then an alert gets at most one escalation
  and one repeat per look, each exactly when it is due, the next repeat lies after now and at most
  one interval away, and looking again at the same time does nothing.
\<close>

theorem dueActions_once:
  "case dueActions r d now timing of
     None \<Rightarrow> due_repeat d now \<and> repeat_step r timing \<le> 0
   | Some actions \<Rightarrow>
       \<not> (due_repeat d now \<and> repeat_step r timing \<le> 0) \<and>
       escalations actions = (if due_escalation d now then 1 else 0) \<and>
       repeats actions = (if due_repeat d now then 1 else 0) \<and>
       dueActions r (deadlines_after d actions) now timing = Some [] \<and>
       (if due_repeat d now
        then \<exists>n. dl_nextRepeatAt (deadlines_after d actions) = Some n \<and> now < n \<and>
               n \<le> now + repeat_step r timing * 1000
        else dl_nextRepeatAt (deadlines_after d actions) = dl_nextRepeatAt d)"
proof (cases "dueActions r d now timing")
  case None
  then show ?thesis using dueActions_returns [of r d now timing] by auto
next
  case (Some actions)
  have "dueActions r (deadlines_after d actions) now timing = Some [] \<and>
      (due_repeat d now \<longrightarrow> (\<exists>n. dl_nextRepeatAt (deadlines_after d actions) = Some n \<and> now < n \<and>
         n \<le> now + repeat_step r timing * 1000))"
  proof -
    note after = dueActions_Some [OF Some]
    have esc: "\<not> due_escalation (deadlines_after d actions) now"
      using after(3) by (simp add: due_escalation_def split: if_splits)
    have rep: "\<exists>n. dl_nextRepeatAt (deadlines_after d actions) = Some n \<and> now < n \<and> n \<le> now + repeat_step r timing * 1000"
      if due: "due_repeat d now"
    proof -
      have "0 < repeat_step r timing" using dueActions_returns [of r d now timing] Some due by simp
      moreover have "the (dl_nextRepeatAt d) \<le> now" using due by (auto simp: due_repeat_def split: option.splits)
      ultimately show ?thesis using catch_up_positive [of "repeat_step r timing" now "the (dl_nextRepeatAt d)"] after(5) [OF due] by auto
    qed
    then have "\<not> due_repeat (deadlines_after d actions) now"
      using after(4) by (cases "due_repeat d now") (auto simp: due_repeat_def)
    then show ?thesis using esc rep
      by (auto simp: dueActions_def due_repeat_def Let_def split: option.splits)
  qed
  then show ?thesis using Some dueActions_returns [of r d now timing] dueActions_Some(1,2,4) [OF Some] by auto
qed

text \<open>The server looks at an open alert again and again and keeps the last action's deadlines.\<close>

fun alert_looks :: "NotificationRule \<Rightarrow> NotificationTiming \<Rightarrow> AlertDeadlines \<Rightarrow> int list \<Rightarrow> DueAction list option" where
  "alert_looks r timing d [] = Some []"
| "alert_looks r timing d (now # looks) =
     (case dueActions r d now timing of
        None \<Rightarrow> None
      | Some actions \<Rightarrow> map_option (\<lambda>rest. actions @ rest) (alert_looks r timing (deadlines_after d actions) looks))"

lemma escalations_append [simp]: "escalations (xs @ ys) = escalations xs + escalations ys"
  by (simp add: escalations_def)

lemma repeats_append [simp]: "repeats (xs @ ys) = repeats xs + repeats ys"
  by (simp add: repeats_def)

lemma alert_looks_total:
  assumes "0 < repeat_step r timing"
  shows "\<exists>actions. alert_looks r timing d looks = Some actions \<and> repeats actions \<le> length looks \<and>
    escalations actions = (if \<exists>now \<in> set looks. due_escalation d now then 1 else 0)"
proof (induction looks arbitrary: d)
  case Nil
  then show ?case by (simp add: escalations_def repeats_def)
next
  case (Cons now looks)
  obtain actions where run: "dueActions r d now timing = Some actions"
    using dueActions_returns [of r d now timing] assms by fastforce
  obtain rest where rest: "alert_looks r timing (deadlines_after d actions) looks = Some rest"
    "repeats rest \<le> length looks"
    "escalations rest = (if \<exists>now \<in> set looks. due_escalation (deadlines_after d actions) now then 1 else 0)"
    using Cons.IH by blast
  note after = dueActions_Some [OF run]
  have next_due: "due_escalation (deadlines_after d actions) t \<longleftrightarrow> \<not> due_escalation d now \<and> due_escalation d t" for t
    using after(3) by (auto simp: due_escalation_def split: if_splits)
  show ?case using run rest after(1,2) next_due by auto
qed

text \<open>
  An alert nobody takes reaches the managers. However often and irregularly the server looks at
  an open alert, it escalates exactly once when its rule escalates, no one escalated it already and
  some look comes after the escalation time, and otherwise never; there is at most one repeat per look.
\<close>

lemma alert_escalates_once:
  assumes "0 < repeat_step r timing"
  shows "\<exists>actions. alert_looks r timing (initialDeadlines r opened timing escalated) looks = Some actions \<and>
    escalations actions =
      (if nr_escalate r \<and> \<not> escalated \<and> (\<exists>now \<in> set looks. opened + nt_escalationSeconds timing * 1000 \<le> now)
       then 1 else 0) \<and>
    repeats actions \<le> length looks"
  using alert_looks_total [OF assms, of "initialDeadlines r opened timing escalated" looks]
  by (auto simp: initialDeadlines_def due_escalation_def later_def)

theorem alert_escalates_once_witness:
  "\<exists>actions. alert_looks (DEFAULT_NOTIFICATION_RULES WATER_REQUEST) \<lparr>nt_escalationSeconds = 60, nt_repeatSeconds = 60\<rparr>
     (initialDeadlines (DEFAULT_NOTIFICATION_RULES WATER_REQUEST) 0 \<lparr>nt_escalationSeconds = 60, nt_repeatSeconds = 60\<rparr> False)
     [5000, 65000, 500000] = Some actions \<and> escalations actions = 1"
proof -
  have "0 < repeat_step (DEFAULT_NOTIFICATION_RULES WATER_REQUEST) \<lparr>nt_escalationSeconds = 60, nt_repeatSeconds = 60\<rparr>"
    by (simp add: repeat_step_def notification_rule_def)
  from alert_escalates_once [OF this, of 0 False "[5000, 65000, 500000]"]
  show ?thesis by (auto simp: notification_rule_def)
qed

section \<open>What a manager saves is what applies\<close>

lemma sameSet_set:
  assumes "distinct a" "sameSet a b"
  shows "set a = set b"
proof -
  have "card (set b) \<le> card (set a)" using assms card_length [of b] distinct_card [of a] by (simp add: sameSet_def)
  moreover have "set a \<subseteq> set b" using assms by (auto simp: sameSet_def)
  ultimately show ?thesis by (intro card_seteq) auto
qed

lemma or_default_unless_same: "or_default (unless_same same x) y = (if same then y else x)"
  by (simp add: or_default_def unless_same_def)

lemma sameSet_refl [simp]: "sameSet xs xs"
  by (simp add: sameSet_def)

lemma effectiveRule_stored:
  "effectiveRule event (\<lambda>_. if ov = \<lparr>no_recipients = None, no_channels = None, no_pagerText = None,
       no_escalate = None, no_repeat = None\<rparr> then None else Some ov) =
   \<lparr>nr_recipients = or_default (no_recipients ov) (nr_recipients (DEFAULT_NOTIFICATION_RULES event)),
    nr_channels = or_default (no_channels ov) (nr_channels (DEFAULT_NOTIFICATION_RULES event)),
    nr_pagerText = or_default (no_pagerText ov) (nr_pagerText (DEFAULT_NOTIFICATION_RULES event)),
    nr_escalate = or_default (no_escalate ov) (nr_escalate (DEFAULT_NOTIFICATION_RULES event)),
    nr_repeat = or_default (no_repeat ov) (nr_repeat (DEFAULT_NOTIFICATION_RULES event))\<rparr>"
  by (cases "DEFAULT_NOTIFICATION_RULES event") (simp add: effectiveRule_def Let_def or_default_def)

lemma effective_override:
  "effectiveRule event (\<lambda>_. ruleOverride event r) =
     \<lparr>nr_recipients = if sameSet (nr_recipients r) (nr_recipients (DEFAULT_NOTIFICATION_RULES event))
        then nr_recipients (DEFAULT_NOTIFICATION_RULES event) else nr_recipients r,
      nr_channels = if sameSet (nr_channels r) (nr_channels (DEFAULT_NOTIFICATION_RULES event))
        then nr_channels (DEFAULT_NOTIFICATION_RULES event) else nr_channels r,
      nr_pagerText = nr_pagerText r, nr_escalate = nr_escalate r, nr_repeat = nr_repeat r\<rparr>"
proof -
  have pick: "(if x = y then y else x) = x" for x y :: 'z by simp
  show ?thesis
    unfolding ruleOverride_def Let_def effectiveRule_stored
    by (simp only: NotificationRuleOverride.select_convs or_default_unless_same pick)
qed

text \<open>
  Saving a rule as its difference from the factory rule loses nothing. With each recipient and
  channel chosen once, the rule in effect afterwards has the same recipients and channels, text,
  escalation and repeats, and the same problems; nothing is stored exactly when the rule is the
  factory one up to the order of its recipients and channels.
\<close>

lemma ruleOverride_effectiveRule:
  fixes event :: NotificationEvent
  assumes "distinct (nr_recipients r)" "distinct (nr_channels r)"
  defines "e \<equiv> effectiveRule event (\<lambda>_. ruleOverride event r)"
  shows "set (nr_recipients e) = set (nr_recipients r) \<and> set (nr_channels e) = set (nr_channels r) \<and>
    nr_pagerText e = nr_pagerText r \<and> nr_escalate e = nr_escalate r \<and> nr_repeat e = nr_repeat r \<and>
    checkRule e = checkRule r \<and>
    (ruleOverride event r = None \<longleftrightarrow> e = DEFAULT_NOTIFICATION_RULES event)"
proof -
  let ?f = "DEFAULT_NOTIFICATION_RULES event"
  have e: "e = \<lparr>nr_recipients = if sameSet (nr_recipients r) (nr_recipients ?f) then nr_recipients ?f else nr_recipients r,
      nr_channels = if sameSet (nr_channels r) (nr_channels ?f) then nr_channels ?f else nr_channels r,
      nr_pagerText = nr_pagerText r, nr_escalate = nr_escalate r, nr_repeat = nr_repeat r\<rparr>"
    by (simp only: e_def effective_override)
  have sets: "set (nr_recipients e) = set (nr_recipients r)" "set (nr_channels e) = set (nr_channels r)"
    using sameSet_set [OF assms(1)] sameSet_set [OF assms(2)] by (auto simp: e)
  moreover have "checkRule e = checkRule r"
    using sets by (auto simp: checkRule_def e)
  moreover have "ruleOverride event r = None \<longleftrightarrow> e = ?f"
  proof -
    have "e = ?f \<longleftrightarrow> sameSet (nr_recipients r) (nr_recipients ?f) \<and> sameSet (nr_channels r) (nr_channels ?f) \<and>
        nr_pagerText r = nr_pagerText ?f \<and> nr_escalate r = nr_escalate ?f \<and> nr_repeat r = nr_repeat ?f"
      by (cases ?f) (auto simp: e)
    then show ?thesis by (auto simp: ruleOverride_def Let_def unless_same_def)
  qed
  ultimately show ?thesis by (simp add: e)
qed

theorem ruleOverride_effectiveRule_witness:
  "checkRule (effectiveRule BILL_REQUEST (\<lambda>_. ruleOverride BILL_REQUEST
     ((DEFAULT_NOTIFICATION_RULES BILL_REQUEST)\<lparr>nr_recipients := [CASHIER, RESPONSIBLE_WAITER], nr_pagerText := None\<rparr>))) =
   [PAGER_TEXT_REQUIRED]"
proof -
  let ?r = "(DEFAULT_NOTIFICATION_RULES BILL_REQUEST)\<lparr>nr_recipients := [CASHIER, RESPONSIBLE_WAITER], nr_pagerText := None\<rparr>"
  have "checkRule (effectiveRule BILL_REQUEST (\<lambda>_. ruleOverride BILL_REQUEST ?r)) = checkRule ?r"
    using ruleOverride_effectiveRule [of ?r BILL_REQUEST] by (simp add: notification_rule_def)
  also have "\<dots> = [PAGER_TEXT_REQUIRED]" by code_simp
  finally show ?thesis .
qed

section \<open>Two corners\<close>

text \<open>A message with a dollar sign is not shown as it was typed: the replacement of the template reads it.\<close>

lemma pagerTextFor_reads_dollars:
  "pagerTextFor (Some ''{message}'') None (Some ''$$50 due'') = Some ''$50 due''"
  "pagerTextFor (Some ''{message}'') None (Some ''$& x'') = Some ''{message} x''"
  by code_simp+

text \<open>A list that repeats a choice counts as the factory's choice when it is as long.\<close>

lemma sameSet_repeats: "sameSet [MANAGERS_ON_DUTY, MANAGERS_ON_DUTY] [MANAGERS_ON_DUTY, OWNER]"
  by (simp add: sameSet_def)

end
