(* ===== verification/Calendar.thy ===== *)
theory Calendar
  imports Main
begin

text \<open>
  The calendar of JavaScript's \<open>Date\<close>, as ECMAScript defines it: days since 1 January 1970 in the
  proleptic Gregorian calendar, \<open>Date.UTC\<close> with its overflowing months and days and its two-digit
  years, and the \<open>getUTC\<close> fields of a day. The lemmas say that dates and day numbers correspond one
  to one and in order.
\<close>

definition leap :: "int \<Rightarrow> bool" where
  "leap y \<longleftrightarrow> y mod 4 = 0 \<and> (y mod 100 \<noteq> 0 \<or> y mod 400 = 0)"

definition year_length :: "int \<Rightarrow> int" where
  "year_length y = (if leap y then 366 else 365)"

text \<open>\<open>DayFromYear\<close>: the number of the first day of a year.\<close>

definition year_start :: "int \<Rightarrow> int" where
  "year_start y = 365 * (y - 1970) + (y - 1969) div 4 - (y - 1901) div 100 + (y - 1601) div 400"

text \<open>\<open>YearFromTime\<close>: the year whose days include the given one.\<close>

definition year_of_day :: "int \<Rightarrow> int" where
  "year_of_day d =
     (let y = 1970 + (400 * d) div 146097
      in if d < year_start y then y - 1 else if year_start (y + 1) \<le> d then y + 1 else y)"

text \<open>Days before the first of a month (0 to 11) within its year, and the month of a day of the year.\<close>

definition month_start :: "bool \<Rightarrow> int \<Rightarrow> int" where
  "month_start is_leap m =
     [0, 31, 59, 90, 120, 151, 181, 212, 243, 273, 304, 334] ! nat m + (if is_leap \<and> 2 \<le> m then 1 else 0)"

definition month_of_yday :: "bool \<Rightarrow> int \<Rightarrow> int" where
  "month_of_yday is_leap n =
     (let l = (if is_leap then 1 else 0)
      in if n < 31 then 0 else if n < 59 + l then 1 else if n < 90 + l then 2 else if n < 120 + l then 3
         else if n < 151 + l then 4 else if n < 181 + l then 5 else if n < 212 + l then 6
         else if n < 243 + l then 7 else if n < 273 + l then 8 else if n < 304 + l then 9
         else if n < 334 + l then 10 else 11)"

definition month_length :: "int \<Rightarrow> int \<Rightarrow> int" where
  "month_length y m =
     (if m = 11 then year_length y else month_start (leap y) (m + 1)) - month_start (leap y) m"

text \<open>\<open>Date.UTC(year, month, day)\<close> in days: the month and the day may overflow, years 0 to 99 mean 1900 to 1999.\<close>

definition utc_day :: "int \<Rightarrow> int \<Rightarrow> int \<Rightarrow> int" where
  "utc_day year month day =
     (let y = (if 0 \<le> year \<and> year \<le> 99 then 1900 + year else year) + month div 12;
          m = month mod 12
      in year_start y + month_start (leap y) m + day - 1)"

definition getUTCFullYear :: "int \<Rightarrow> int" where
  "getUTCFullYear d = year_of_day d"

definition getUTCMonth :: "int \<Rightarrow> int" where
  "getUTCMonth d = month_of_yday (leap (year_of_day d)) (d - year_start (year_of_day d))"

definition getUTCDate :: "int \<Rightarrow> int" where
  "getUTCDate d =
     (let y = year_of_day d; n = d - year_start y
      in n - month_start (leap y) (month_of_yday (leap y) n) + 1)"

section \<open>Years\<close>

lemma div_step: "0 < k \<Longrightarrow> (n + 1) div k - n div k = (if (n + 1) mod k = 0 then 1 else (0 :: int))"
proof -
  assume k: "0 < k"
  show ?thesis
  proof (cases "(n + 1) mod k = 0")
    case True
    then obtain q where "n + 1 = k * q" by auto
    then have n: "n = k * (q - 1) + (k - 1)" by (simp add: algebra_simps)
    have "n div k = q - 1" unfolding n using k by (simp add: div_pos_pos_trivial)
    moreover have "(n + 1) div k = q" using \<open>n + 1 = k * q\<close> k by simp
    ultimately show ?thesis using True by simp
  next
    case False
    have "n + 1 = k * ((n + 1) div k) + (n + 1) mod k" by simp
    then have n: "n = k * ((n + 1) div k) + ((n + 1) mod k - 1)" by linarith
    have "0 \<le> (n + 1) mod k - 1" "(n + 1) mod k - 1 < k"
      using False pos_mod_sign [OF k, of "n + 1"] pos_mod_bound [OF k, of "n + 1"] by linarith+
    then have "n div k = (n + 1) div k" by (subst n) (simp add: div_pos_pos_trivial)
    then show ?thesis using False by simp
  qed
qed

lemma year_start_Suc: "year_start (y + 1) = year_start y + year_length y"
proof -
  have mods: "(y - 1968) mod 4 = y mod 4" "(y - 1900) mod 100 = y mod 100" "(y - 1600) mod 400 = y mod 400"
    using mod_mult_self1 [of y "-492" 4] mod_mult_self1 [of y "-19" 100] mod_mult_self1 [of y "-4" 400] by simp_all
  have shift: "y - 1969 + 1 = y - 1968" "y - 1901 + 1 = y - 1900" "y - 1601 + 1 = y - 1600" by simp_all
  have pos: "0 < (4 :: int)" "0 < (100 :: int)" "0 < (400 :: int)" by simp_all
  note diffs = div_step [OF pos(1), of "y - 1969", unfolded shift mods]
    div_step [OF pos(2), of "y - 1901", unfolded shift mods] div_step [OF pos(3), of "y - 1601", unfolded shift mods]
  have steps: "(y - 1968) div 4 = (y - 1969) div 4 + (if y mod 4 = 0 then 1 else 0)"
    "(y - 1900) div 100 = (y - 1901) div 100 + (if y mod 100 = 0 then 1 else 0)"
    "(y - 1600) div 400 = (y - 1601) div 400 + (if y mod 400 = 0 then 1 else 0)"
    unfolding diffs [symmetric] by (simp_all only: add_diff_cancel_left' diff_add_cancel add.commute [of _ "_ - _"])
  define p4 p100 p400 where "p4 \<longleftrightarrow> y mod 4 = 0" and "p100 \<longleftrightarrow> y mod 100 = 0" and "p400 \<longleftrightarrow> y mod 400 = 0"
  have "p400 \<Longrightarrow> p100" "p100 \<Longrightarrow> p4"
    using mod_mod_cancel [of 100 400 y] mod_mod_cancel [of 4 100 y] by (auto simp: p4_def p100_def p400_def)
  then have len: "year_length y = 365 + (if p4 then 1 else 0) - (if p100 then 1 else 0) + (if p400 then 1 else 0)"
    unfolding year_length_def leap_def p4_def [symmetric] p100_def [symmetric] p400_def [symmetric]
    by (cases p4; cases p100; cases p400) simp_all
  have "year_start (y + 1) =
      365 * (y - 1970) + 365 + (y - 1968) div 4 - (y - 1900) div 100 + (y - 1600) div 400"
    by (simp add: year_start_def)
  then show ?thesis
    unfolding steps len year_start_def p4_def p100_def p400_def by (simp only:)
qed

lemma year_start_bounds:
  "146097 * (y - 1970) - 506 \<le> 400 * year_start y" "400 * year_start y \<le> 146097 * (y - 1970) + 589"
proof -
  define z where "z = y - 1970"
  define a b c where "a = (y - 1969) div 4" and "b = (y - 1901) div 100" and "c = (y - 1601) div 400"
  define ra rb rc where "ra = (y - 1969) mod 4" and "rb = (y - 1901) mod 100" and "rc = (y - 1601) mod 400"
  have "4 * a + ra = y - 1969" "100 * b + rb = y - 1901" "400 * c + rc = y - 1601"
    unfolding a_def b_def c_def ra_def rb_def rc_def by (rule mult_div_mod_eq)+
  then have q: "4 * a + ra = z + 1" "100 * b + rb = z + 69" "400 * c + rc = z + 369" by (simp_all add: z_def)
  have r: "0 \<le> ra" "ra < 4" "0 \<le> rb" "rb < 100" "0 \<le> rc" "rc < 400"
    by (simp_all add: ra_def rb_def rc_def)
  have start: "year_start y = 365 * z + a - b + c" by (simp add: year_start_def z_def a_def b_def c_def)
  show "146097 * (y - 1970) - 506 \<le> 400 * year_start y" "400 * year_start y \<le> 146097 * (y - 1970) + 589"
    unfolding start z_def [symmetric] using q r by (simp_all add: algebra_simps)
qed

lemma year_length_bounds: "365 \<le> year_length y" "year_length y \<le> 366"
  by (simp_all add: year_length_def)

lemma year_start_mono: "x < y \<Longrightarrow> year_start x + year_length x \<le> year_start y"
proof -
  assume "x < y"
  then have "146097 * (x + 1 - 1970) \<le> 146097 * (y - 1970)" by simp
  show ?thesis
  proof (cases "y = x + 1")
    case True
    then show ?thesis by (simp add: year_start_Suc)
  next
    case False
    with \<open>x < y\<close> have "x + 2 \<le> y" by simp
    then have "146097 * (x + 2 - 1970) \<le> 146097 * (y - 1970)" by simp
    then have "400 * year_start (x + 1) \<le> 400 * year_start y"
      using year_start_bounds(2) [of "x + 1"] year_start_bounds(1) [of y] by (simp add: algebra_simps)
    then show ?thesis by (simp add: year_start_Suc)
  qed
qed

lemma year_of_day_bounds: "year_start (year_of_day d) \<le> d \<and> d < year_start (year_of_day d + 1)"
proof -
  define y where "y = 1970 + (400 * d) div 146097"
  have "400 * d = 146097 * ((400 * d) div 146097) + (400 * d) mod 146097" by simp
  moreover have "0 \<le> (400 * d) mod 146097" "(400 * d) mod 146097 < 146097" by simp_all
  ultimately have est: "146097 * (y - 1970) \<le> 400 * d" "400 * d < 146097 * (y - 1970) + 146097"
    by (simp_all add: y_def)
  have "400 * year_start (y - 1) \<le> 400 * d"
    using year_start_bounds(2) [of "y - 1"] est(1) by (simp add: algebra_simps)
  moreover have "400 * d < 400 * year_start (y + 2)"
    using year_start_bounds(1) [of "y + 2"] est(2) by (simp add: algebra_simps)
  ultimately have "year_start (y - 1) \<le> d" "d < year_start (y + 2)" by simp_all
  then show ?thesis
    unfolding year_of_day_def y_def [symmetric] Let_def
    by (auto simp: add.commute)
qed

lemma year_of_day_unique: "year_start y \<le> d \<Longrightarrow> d < year_start (y + 1) \<Longrightarrow> year_of_day d = y"
proof (rule ccontr)
  assume y: "year_start y \<le> d" "d < year_start (y + 1)" "year_of_day d \<noteq> y"
  note b = year_of_day_bounds [of d]
  consider "year_of_day d < y" | "y < year_of_day d" using y(3) by linarith
  then show False
  proof cases
    case 1
    from year_start_mono [OF this] show False using y b by (simp add: year_start_Suc)
  next
    case 2
    from year_start_mono [OF this] show False using y b by (simp add: year_start_Suc)
  qed
qed

section \<open>Months\<close>

lemma month_cases:
  assumes "0 \<le> m" "m \<le> (11 :: int)"
  shows "m = 0 \<or> m = 1 \<or> m = 2 \<or> m = 3 \<or> m = 4 \<or> m = 5 \<or> m = 6 \<or> m = 7 \<or> m = 8 \<or> m = 9 \<or> m = 10 \<or> m = 11"
  using assms by presburger

lemma month_start_values [simp]:
  "month_start l 0 = 0" "month_start l 1 = 31" "month_start l 2 = 59 + (if l then 1 else 0)"
  "month_start l 3 = 90 + (if l then 1 else 0)" "month_start l 4 = 120 + (if l then 1 else 0)"
  "month_start l 5 = 151 + (if l then 1 else 0)" "month_start l 6 = 181 + (if l then 1 else 0)"
  "month_start l 7 = 212 + (if l then 1 else 0)" "month_start l 8 = 243 + (if l then 1 else 0)"
  "month_start l 9 = 273 + (if l then 1 else 0)" "month_start l 10 = 304 + (if l then 1 else 0)"
  "month_start l 11 = 334 + (if l then 1 else 0)"
  by (simp_all add: month_start_def)

lemma month_of_yday_bounds:
  assumes "0 \<le> n"
  shows "0 \<le> month_of_yday l n" "month_of_yday l n \<le> 11" "month_start l (month_of_yday l n) \<le> n"
  using assms by (auto simp: month_of_yday_def Let_def)

lemma month_length_bounds: "0 \<le> m \<Longrightarrow> m \<le> 11 \<Longrightarrow> 28 \<le> month_length y m \<and> month_length y m \<le> 31"
  by (drule (1) month_cases) (elim disjE; simp add: month_length_def year_length_def)

lemma month_of_yday_end:
  assumes "0 \<le> n" "n < year_length y"
  shows "n < month_start (leap y) (month_of_yday (leap y) n) + month_length y (month_of_yday (leap y) n)"
  using assms by (auto simp: month_of_yday_def month_length_def year_length_def Let_def split: if_splits)

lemma month_of_yday_unique:
  assumes "0 \<le> m" "m \<le> 11" "month_start (leap y) m \<le> n" "n < month_start (leap y) m + month_length y m"
  shows "month_of_yday (leap y) n = m"
  using month_cases [OF assms(1,2)]
  by (elim disjE; use assms(3,4) in \<open>auto simp: month_of_yday_def month_length_def year_length_def Let_def split: if_splits\<close>)

section \<open>Dates and day numbers\<close>

text \<open>A calendar date: a month from 1 to 12 and a day that the month has.\<close>

definition real_date :: "int \<Rightarrow> int \<Rightarrow> int \<Rightarrow> bool" where
  "real_date y m d \<longleftrightarrow> 1 \<le> m \<and> m \<le> 12 \<and> 1 \<le> d \<and> d \<le> month_length y (m - 1)"

definition day_number :: "int \<Rightarrow> int \<Rightarrow> int \<Rightarrow> int" where
  "day_number y m d = year_start y + month_start (leap y) (m - 1) + d - 1"

lemma utc_day_number: "1 \<le> m \<Longrightarrow> m \<le> 12 \<Longrightarrow> \<not> (0 \<le> y \<and> y \<le> 99) \<Longrightarrow> utc_day y (m - 1) d = day_number y m d"
  by (auto simp: utc_day_def day_number_def Let_def div_pos_pos_trivial mod_pos_pos_trivial)

lemma month_within_year: "1 \<le> m \<Longrightarrow> m \<le> 12 \<Longrightarrow> month_start (leap y) (m - 1) + month_length y (m - 1) \<le> year_length y"
proof -
  assume "1 \<le> m" "m \<le> 12"
  then have "0 \<le> m - 1" "m - 1 \<le> 11" by simp_all
  from month_cases [OF this] show ?thesis by (elim disjE; simp add: month_length_def year_length_def)
qed

lemma month_start_nonneg: "0 \<le> m \<Longrightarrow> m \<le> 11 \<Longrightarrow> 0 \<le> month_start l m"
  by (drule (1) month_cases) (elim disjE; simp)

lemma day_number_fields:
  assumes "real_date y m d"
  shows "getUTCFullYear (day_number y m d) = y" "getUTCMonth (day_number y m d) = m - 1"
    "getUTCDate (day_number y m d) = d"
proof -
  have m: "1 \<le> m" "m \<le> 12" "1 \<le> d" "d \<le> month_length y (m - 1)" using assms by (auto simp: real_date_def)
  have start: "0 \<le> month_start (leap y) (m - 1)" using m by (intro month_start_nonneg) auto
  have year: "year_of_day (day_number y m d) = y"
    using m month_within_year [OF m(1,2), of y] start
    by (intro year_of_day_unique) (auto simp: day_number_def year_start_Suc)
  have month: "month_of_yday (leap y) (day_number y m d - year_start y) = m - 1"
    using m by (intro month_of_yday_unique) (auto simp: day_number_def)
  show "getUTCFullYear (day_number y m d) = y" "getUTCMonth (day_number y m d) = m - 1"
    "getUTCDate (day_number y m d) = d"
    using year month by (simp_all add: getUTCFullYear_def getUTCMonth_def getUTCDate_def Let_def day_number_def)
qed

lemma fields_real_date: "real_date (getUTCFullYear n) (getUTCMonth n + 1) (getUTCDate n)"
proof -
  let ?y = "year_of_day n"
  have n: "0 \<le> n - year_start ?y" "n - year_start ?y < year_length ?y"
    using year_of_day_bounds [of n] by (simp_all add: year_start_Suc)
  show ?thesis
    using month_of_yday_bounds [OF n(1), of "leap ?y"] month_of_yday_end [OF n]
    by (simp add: real_date_def getUTCFullYear_def getUTCMonth_def getUTCDate_def Let_def)
qed

lemma day_number_of_fields: "day_number (getUTCFullYear n) (getUTCMonth n + 1) (getUTCDate n) = n"
  by (simp add: day_number_def getUTCFullYear_def getUTCMonth_def getUTCDate_def Let_def)

lemma day_number_inject:
  "real_date y m d \<Longrightarrow> real_date y' m' d' \<Longrightarrow> day_number y m d = day_number y' m' d' \<longleftrightarrow> y = y' \<and> m = m' \<and> d = d'"
  using day_number_fields [of y m d] day_number_fields [of y' m' d'] by force

lemma month_start_mono:
  assumes "0 \<le> m" "m < k" "k \<le> 11"
  shows "month_start (leap y) m + month_length y m \<le> month_start (leap y) k"
proof -
  have step: "month_start (leap y) m + month_length y m = month_start (leap y) (m + 1)" using assms by (simp add: month_length_def)
  have up: "month_start (leap y) j \<le> month_start (leap y) (j + 1)" if "0 \<le> j" "j \<le> 10" for j
  proof -
    have "j \<le> 11" using that by simp
    from month_cases [OF that(1) this] show ?thesis using that(2) by (elim disjE; simp)
  qed
  have "k \<le> 11 \<longrightarrow> month_start (leap y) (m + 1) \<le> month_start (leap y) k"
  proof (rule int_ge_induct [of "m + 1" k])
    show "m + 1 \<le> k" using assms(2) by simp
  next
    fix j
    assume "m + 1 \<le> j" "j \<le> 11 \<longrightarrow> month_start (leap y) (m + 1) \<le> month_start (leap y) j"
    then show "j + 1 \<le> 11 \<longrightarrow> month_start (leap y) (m + 1) \<le> month_start (leap y) (j + 1)"
      using up [of j] assms(1) by auto
  qed simp
  then show ?thesis using step assms(3) by simp
qed

text \<open>The order of day numbers is the order of dates.\<close>

lemma day_number_less:
  assumes "real_date y m d" "real_date y' m' d'"
  shows "day_number y m d < day_number y' m' d' \<longleftrightarrow> y < y' \<or> (y = y' \<and> (m < m' \<or> (m = m' \<and> d < d')))"
proof -
  have less: "day_number y m d < day_number y' m' d'"
    if "real_date y m d" "real_date y' m' d'" "y < y' \<or> (y = y' \<and> (m < m' \<or> (m = m' \<and> d < d')))" for y m d y' m' d'
  proof -
    have r: "1 \<le> m" "m \<le> 12" "1 \<le> d" "d \<le> month_length y (m - 1)" "1 \<le> m'" "m' \<le> 12" "1 \<le> d'"
      using that by (auto simp: real_date_def)
    show ?thesis
      using that(3)
    proof (elim disjE conjE)
      assume "y < y'"
      from year_start_mono [OF this] show ?thesis
        using r month_within_year [OF r(1,2), of y] month_start_nonneg [of "m' - 1" "leap y'"]
        by (simp add: day_number_def)
    next
      assume "y = y'" "m < m'"
      then show ?thesis using r month_start_mono [of "m - 1" "m' - 1" y] by (simp add: day_number_def)
    next
      assume "y = y'" "m = m'" "d < d'"
      then show ?thesis by (simp add: day_number_def)
    qed
  qed
  show ?thesis using less [OF assms] less [OF assms(2,1)] day_number_inject [OF assms]
    by (metis linorder_neqE_linordered_idom order_less_asym)
qed

end
