(* ===== verification/Business_Date.thy ===== *)
theory Business_Date
  imports Calendar Text
begin

text \<open>
  \<open>packages/domain/src/business-date.ts\<close>: calendar dates, business dates with their cut-off and the
  Indian financial year. An instant is a number of milliseconds, or \<^term>\<open>None\<close> for an invalid
  \<open>Date\<close>; \<open>formatToParts\<close>, which reads a time zone's clock, is a parameter that returns the type and
  the digits of each part. The cache of formatters is left out: a formatter depends on its zone only.
\<close>

type_synonym IsoDate = string
type_synonym instant = "int option"
type_synonym zone_clock = "string \<Rightarrow> int \<Rightarrow> (string \<times> string) list"

record BusinessDayConfig =
  bd_timeZone :: string
  bd_cutoff :: string

definition DEFAULT_TIME_ZONE :: string where
  "DEFAULT_TIME_ZONE = ''Asia/Kolkata''"

definition DEFAULT_BUSINESS_DAY :: BusinessDayConfig where
  "DEFAULT_BUSINESS_DAY = \<lparr>bd_timeZone = DEFAULT_TIME_ZONE, bd_cutoff = ''04:00''\<rparr>"

text \<open>The patterns of a date and of a 24-hour time.\<close>

definition ISO_DATE :: "string \<Rightarrow> bool" where
  "ISO_DATE s \<longleftrightarrow> length s = 10 \<and> s ! 4 = CHR ''-'' \<and> s ! 7 = CHR ''-'' \<and>
     list_all is_digit_char (take 4 s) \<and> list_all is_digit_char (take 2 (drop 5 s)) \<and>
     list_all is_digit_char (drop 8 s)"

definition HH_MM :: "string \<Rightarrow> bool" where
  "HH_MM s \<longleftrightarrow> length s = 5 \<and> s ! 2 = CHR '':'' \<and>
     list_all is_digit_char (take 2 s) \<and> dec_value (take 2 s) < 24 \<and>
     list_all is_digit_char (drop 3 s) \<and> dec_value (drop 3 s) < 60"

record LocalDateTime =
  ld_year :: int
  ld_month :: int
  ld_day :: int
  ld_hour :: int
  ld_minute :: int
  ld_second :: int

definition assertValidInstant :: "instant \<Rightarrow> unit result" where
  "assertValidInstant t = throw_if (t = None) INVALID_DATE"

text \<open>\<open>parts[part.type] = Number(part.value)\<close> for the parts that are not literals.\<close>

definition collect_parts :: "(string \<times> string) list \<Rightarrow> (string \<times> int) list" where
  "collect_parts parts =
     foldl (\<lambda>m p. if fst p = ''literal'' then m else map_set (fst p) (dec_value (snd p)) m) [] parts"

definition toLocalDateTime :: "zone_clock \<Rightarrow> instant \<Rightarrow> string \<Rightarrow> LocalDateTime result" where
  "toLocalDateTime formatToParts t timeZone =
     bindE (assertValidInstant t) (\<lambda>_.
     let parts = collect_parts (formatToParts timeZone (the t));
         field = (\<lambda>name. case map_of parts name of None \<Rightarrow> 0 | Some n \<Rightarrow> n)
     in Inr \<lparr>ld_year = field ''year'', ld_month = field ''month'', ld_day = field ''day'',
             ld_hour = field ''hour'', ld_minute = field ''minute'', ld_second = field ''second''\<rparr>)"

definition parseCutoff :: "string \<Rightarrow> (int \<times> int) result" where
  "parseCutoff cutoff =
     (if HH_MM cutoff then Inr (dec_value (take 2 cutoff), dec_value (drop 3 cutoff)) else Inl INVALID_TIME)"

definition parseIsoDate :: "IsoDate \<Rightarrow> (int \<times> int \<times> int) result" where
  "parseIsoDate date =
     (if \<not> ISO_DATE date then Inl INVALID_DATE
      else
        let year = dec_value (take 4 date);
            month = dec_value (take 2 (drop 5 date));
            day = dec_value (drop 8 date);
            check = utc_day year (month - 1) day
        in if getUTCFullYear check \<noteq> year \<or> getUTCMonth check \<noteq> month - 1 \<or> getUTCDate check \<noteq> day
           then Inl INVALID_DATE
           else Inr (year, month, day))"

definition pad_num :: "nat \<Rightarrow> int \<Rightarrow> string" where
  "pad_num width n = pad_start width CHR ''0'' (num_text n)"

definition formatIsoDate :: "int \<Rightarrow> int \<Rightarrow> int \<Rightarrow> IsoDate" where
  "formatIsoDate year month day = pad_num 4 year @ ''-'' @ pad_num 2 month @ ''-'' @ pad_num 2 day"

definition formatDisplayDate :: "IsoDate \<Rightarrow> string result" where
  "formatDisplayDate date =
     bindE (parseIsoDate date) (\<lambda>(year, month, day).
     Inr (pad_num 2 day @ ''-'' @ pad_num 2 month @ ''-'' @ num_text year))"

text \<open>\<open>Date\<close> holds a time within a hundred million days of 1970; beyond, its fields are not numbers.\<close>

definition MAX_DAY :: int where
  "MAX_DAY = 100000000"

definition iso_of_day :: "int \<Rightarrow> IsoDate" where
  "iso_of_day n =
     (if \<bar>n\<bar> \<le> MAX_DAY then formatIsoDate (getUTCFullYear n) (getUTCMonth n + 1) (getUTCDate n)
      else ''0NaN-NaN-NaN'')"

definition addDays :: "IsoDate \<Rightarrow> int \<Rightarrow> IsoDate result" where
  "addDays date days =
     bindE (parseIsoDate date) (\<lambda>(year, month, day). Inr (iso_of_day (utc_day year (month - 1) (day + days))))"

definition timeOfDayOf :: "zone_clock \<Rightarrow> instant \<Rightarrow> string \<Rightarrow> string result" where
  "timeOfDayOf formatToParts t timeZone =
     bindE (toLocalDateTime formatToParts t timeZone) (\<lambda>local.
     Inr (pad_num 2 (ld_hour local) @ '':'' @ pad_num 2 (ld_minute local)))"

definition inTimeWindow :: "string \<Rightarrow> string \<Rightarrow> string \<Rightarrow> bool" where
  "inTimeWindow time start end_time =
     (if js_le start end_time then js_le start time \<and> js_less time end_time
      else js_le start time \<or> js_less time end_time)"

definition calendarDateOf :: "zone_clock \<Rightarrow> instant \<Rightarrow> string \<Rightarrow> IsoDate result" where
  "calendarDateOf formatToParts t timeZone =
     bindE (toLocalDateTime formatToParts t timeZone) (\<lambda>local.
     Inr (formatIsoDate (ld_year local) (ld_month local) (ld_day local)))"

definition displayDateTime :: "zone_clock \<Rightarrow> instant \<Rightarrow> string \<Rightarrow> (string \<times> string) result" where
  "displayDateTime formatToParts t timeZone =
     bindE (calendarDateOf formatToParts t timeZone) (\<lambda>date.
     bindE (formatDisplayDate date) (\<lambda>shown.
     bindE (timeOfDayOf formatToParts t timeZone) (\<lambda>time. Inr (shown, time))))"

definition businessDateOf :: "zone_clock \<Rightarrow> instant \<Rightarrow> BusinessDayConfig \<Rightarrow> IsoDate result" where
  "businessDateOf formatToParts t config =
     bindE (parseCutoff (bd_cutoff config)) (\<lambda>(cutoff_hour, cutoff_minute).
     bindE (toLocalDateTime formatToParts t (bd_timeZone config)) (\<lambda>local.
     let date = formatIsoDate (ld_year local) (ld_month local) (ld_day local);
         beforeCutoff = (ld_hour local < cutoff_hour \<or>
           (ld_hour local = cutoff_hour \<and> ld_minute local < cutoff_minute))
     in if beforeCutoff then addDays date (- 1) else Inr date))"

definition cutoffChangeMovesBusinessDate ::
  "zone_clock \<Rightarrow> instant \<Rightarrow> string \<Rightarrow> string \<Rightarrow> string \<Rightarrow> bool result" where
  "cutoffChangeMovesBusinessDate formatToParts t old_cutoff new_cutoff timeZone =
     bindE (businessDateOf formatToParts t \<lparr>bd_timeZone = timeZone, bd_cutoff = old_cutoff\<rparr>) (\<lambda>a.
     bindE (businessDateOf formatToParts t \<lparr>bd_timeZone = timeZone, bd_cutoff = new_cutoff\<rparr>) (\<lambda>b.
     Inr (a \<noteq> b)))"

text \<open>\<open>Date.UTC\<close> with a time of day, and \<open>new Date\<close>, which clips.\<close>

definition utc_ms :: "int \<Rightarrow> int \<Rightarrow> int \<Rightarrow> int \<Rightarrow> int \<Rightarrow> int \<Rightarrow> int" where
  "utc_ms year month day hour minute second =
     ((utc_day year month day * 24 + hour) * 60 + minute) * 60000 + second * 1000"

definition new_date :: "int \<Rightarrow> instant" where
  "new_date ms = (if \<bar>ms\<bar> \<le> MAX_DAY * 86400000 then Some ms else None)"

definition offset_at :: "zone_clock \<Rightarrow> string \<Rightarrow> int \<Rightarrow> int result" where
  "offset_at formatToParts timeZone ms =
     bindE (toLocalDateTime formatToParts (new_date ms) timeZone) (\<lambda>local.
     Inr (utc_ms (ld_year local) (ld_month local - 1) (ld_day local) (ld_hour local) (ld_minute local) (ld_second local)
          - ms))"

definition zonedTimeToUtc :: "zone_clock \<Rightarrow> IsoDate \<Rightarrow> string \<Rightarrow> string \<Rightarrow> instant result" where
  "zonedTimeToUtc formatToParts date time timeZone =
     bindE (parseIsoDate date) (\<lambda>(year, month, day).
     bindE (parseCutoff time) (\<lambda>(hour, minute).
     let wallAsUtc = utc_ms year (month - 1) day hour minute 0
     in bindE (offset_at formatToParts timeZone wallAsUtc) (\<lambda>first_offset.
        bindE (offset_at formatToParts timeZone (wallAsUtc - first_offset)) (\<lambda>offset.
        Inr (new_date (wallAsUtc - offset))))))"

definition businessDayStart :: "zone_clock \<Rightarrow> IsoDate \<Rightarrow> BusinessDayConfig \<Rightarrow> instant result" where
  "businessDayStart formatToParts businessDate config =
     zonedTimeToUtc formatToParts businessDate (bd_cutoff config) (bd_timeZone config)"

definition nextBusinessDayStart :: "zone_clock \<Rightarrow> instant \<Rightarrow> BusinessDayConfig \<Rightarrow> instant result" where
  "nextBusinessDayStart formatToParts t config =
     bindE (businessDateOf formatToParts t config) (\<lambda>date.
     bindE (addDays date 1) (\<lambda>following. businessDayStart formatToParts following config))"

record FinancialYear =
  fy_startYear :: int
  fy_label :: string
  fy_shortLabel :: string
  fy_startDate :: IsoDate
  fy_endDate :: IsoDate

definition financialYearFromStart :: "int \<Rightarrow> FinancialYear result" where
  "financialYearFromStart startYear =
     (if startYear < 2000 \<or> startYear > 2998 then Inl INVALID_DATE
      else
        let endShort = pad_num 2 ((startYear + 1) mod 100)
        in Inr \<lparr>fy_startYear = startYear, fy_label = num_text startYear @ ''-'' @ endShort,
                fy_shortLabel = pad_num 2 (startYear mod 100) @ ''-'' @ endShort,
                fy_startDate = formatIsoDate startYear 4 1, fy_endDate = formatIsoDate (startYear + 1) 3 31\<rparr>)"

definition financialYearOf :: "IsoDate \<Rightarrow> FinancialYear result" where
  "financialYearOf date =
     bindE (parseIsoDate date) (\<lambda>(year, month, _).
     financialYearFromStart (if 4 \<le> month then year else year - 1))"

end
