(* ===== verification/Date_Rules.thy ===== *)
theory Date_Rules
  imports Business_Date
begin

text \<open>
  ISO dates as day numbers: a valid date text and its day number determine each other, \<open>addDays\<close> is
  addition, and the order of the texts is the order of the days. In a zone with a fixed offset, as
  India's, the business days cut time into days of 24 hours that start at the cut-off.
\<close>

section \<open>Date texts\<close>

lemma js_less_append:
  "length s = length t \<Longrightarrow> js_less (s @ u) (t @ v) \<longleftrightarrow> js_less s t \<or> (s = t \<and> js_less u v)"
  by (induction s t rule: list_induct2) auto

lemma pad_num_value [simp]: "0 \<le> n \<Longrightarrow> dec_value (pad_num w n) = n"
  by (simp add: pad_num_def)

lemma pad_num_digits: "0 \<le> n \<Longrightarrow> list_all is_digit_char (pad_num w n)"
  by (simp add: pad_num_def pad_start_digits dec_digits)

lemma pad_num_length: "0 \<le> n \<Longrightarrow> n < 10 ^ w \<Longrightarrow> 0 < w \<Longrightarrow> length (pad_num w n) = w"
  by (simp add: pad_num_def length_pad_dec)

lemma pad_num_of_digits:
  assumes "list_all is_digit_char s" "length s = w" "0 < w"
  shows "pad_num w (dec_value s) = s"
proof (rule digit_strings_eq)
  have v: "0 \<le> dec_value s" "dec_value s < 10 ^ w" using dec_value_bounds [OF assms(1)] assms(2) by auto
  show "list_all is_digit_char (pad_num w (dec_value s))" using v by (rule_tac pad_num_digits)
  show "length (pad_num w (dec_value s)) = length s" using pad_num_length v assms by simp
  show "dec_value (pad_num w (dec_value s)) = dec_value s" using v by simp
qed (rule assms(1))

text \<open>The dates the program accepts.\<close>

definition valid_ymd :: "int \<Rightarrow> int \<Rightarrow> int \<Rightarrow> bool" where
  "valid_ymd y m d \<longleftrightarrow> real_date y m d \<and> 100 \<le> y \<and> y \<le> 9999"

lemma valid_ymd_bounds:
  assumes "valid_ymd y m d"
  shows "100 \<le> y" "y \<le> 9999" "1 \<le> m" "m \<le> 12" "1 \<le> d" "d \<le> 31"
  using assms month_length_bounds [of "m - 1" y] by (auto simp: valid_ymd_def real_date_def)

lemma format_parts:
  assumes "0 \<le> y" "y \<le> 9999" "0 \<le> m" "m \<le> 99" "0 \<le> d" "d \<le> 99"
  shows "ISO_DATE (formatIsoDate y m d)" "take 4 (formatIsoDate y m d) = pad_num 4 y"
    "take 2 (drop 5 (formatIsoDate y m d)) = pad_num 2 m" "drop 8 (formatIsoDate y m d) = pad_num 2 d"
    "length (formatIsoDate y m d) = 10"
proof -
  have len: "length (pad_num 4 y) = 4" "length (pad_num 2 m) = 2" "length (pad_num 2 d) = 2"
    using assms by (simp_all add: pad_num_length)
  show "take 4 (formatIsoDate y m d) = pad_num 4 y" "take 2 (drop 5 (formatIsoDate y m d)) = pad_num 2 m"
    "drop 8 (formatIsoDate y m d) = pad_num 2 d" "length (formatIsoDate y m d) = 10"
    using len by (simp_all add: formatIsoDate_def)
  then show "ISO_DATE (formatIsoDate y m d)"
    unfolding ISO_DATE_def using len assms by (simp add: pad_num_digits) (simp add: formatIsoDate_def nth_append)
qed

lemma iso_split:
  assumes "ISO_DATE s"
  shows "s = take 4 s @ ''-'' @ take 2 (drop 5 s) @ ''-'' @ drop 8 s"
proof -
  obtain a b c d e f g h i j where "s = [a, b, c, d, e, f, g, h, i, j]"
    using assms by (auto simp: ISO_DATE_def length_Suc_conv numeral_eq_Suc)
  then show ?thesis using assms by (simp add: ISO_DATE_def)
qed

lemma parse_valid:
  assumes "valid_ymd y m d"
  shows "parseIsoDate (formatIsoDate y m d) = Inr (y, m, d)"
proof -
  note b = valid_ymd_bounds [OF assms]
  have r: "real_date y m d" using assms by (simp add: valid_ymd_def)
  have "utc_day y (m - 1) d = day_number y m d" using b by (intro utc_day_number) auto
  then show ?thesis
    using b format_parts [of y m d] day_number_fields [OF r] by (simp add: parseIsoDate_def Let_def)
qed

lemma small_year_shifts:
  assumes "0 \<le> y" "y \<le> 99" "0 \<le> m" "0 \<le> d"
  shows "getUTCFullYear (utc_day y (m - 1) d) \<noteq> y"
proof
  let ?n = "utc_day y (m - 1) d" and ?Y = "1900 + y + (m - 1) div 12"
  assume "getUTCFullYear ?n = y"
  then have "?n < year_start (y + 1)" using year_of_day_bounds [of ?n] by (simp add: getUTCFullYear_def)
  moreover have "year_start (y + 1) \<le> year_start 100"
    using year_start_mono [of "y + 1" 100] assms year_length_bounds(1) [of "y + 1"] by (cases "y + 1 = 100") auto
  moreover have "year_start 1899 \<le> year_start ?Y"
  proof -
    have "-1 \<le> (m - 1) div 12" using zdiv_mono1 [of "-1" "m - 1" 12] assms(3) by simp
    then have "1899 \<le> ?Y" using assms(1) by simp
    then consider "?Y = 1899" | "1899 < ?Y" by linarith
    then show ?thesis
    proof cases
      case 1
      then show ?thesis by (simp only:)
    next
      case 2
      from year_start_mono [OF this] show ?thesis using year_length_bounds(1) [of 1899] by linarith
    qed
  qed
  moreover have "year_start ?Y - 1 \<le> ?n"
  proof -
    have "(m - 1) mod 12 \<le> 11" using pos_mod_bound [of 12 "m - 1"] by simp
    then show ?thesis
      using assms month_start_nonneg [of "(m - 1) mod 12" "leap ?Y"] by (simp add: utc_day_def Let_def)
  qed
  moreover have "year_start 100 < year_start 1899 - 1" by code_simp
  ultimately show False by linarith
qed

lemma parse_Inr:
  assumes "parseIsoDate s = Inr (y, m, d)"
  shows "valid_ymd y m d" "s = formatIsoDate y m d"
proof -
  have iso: "ISO_DATE s" and y: "y = dec_value (take 4 s)" and m: "m = dec_value (take 2 (drop 5 s))" and d: "d = dec_value (drop 8 s)"
    and check: "getUTCFullYear (utc_day y (m - 1) d) = y" "getUTCMonth (utc_day y (m - 1) d) = m - 1"
      "getUTCDate (utc_day y (m - 1) d) = d"
    using assms by (auto simp: parseIsoDate_def Let_def split: if_splits)
  have digits: "list_all is_digit_char (take 4 s)" "list_all is_digit_char (take 2 (drop 5 s))" "list_all is_digit_char (drop 8 s)"
    and len: "length (take 4 s) = 4" "length (take 2 (drop 5 s)) = 2" "length (drop 8 s) = 2"
    using iso by (auto simp: ISO_DATE_def)
  have b: "0 \<le> y" "y \<le> 9999" "0 \<le> m" "0 \<le> d"
    using dec_value_bounds [OF digits(1)] dec_value_bounds [OF digits(2)] dec_value_bounds [OF digits(3)] len
    by (auto simp: y m d)
  have "\<not> y \<le> 99" using small_year_shifts [OF b(1) _ b(3,4)] check(1) by blast
  moreover have "real_date y m d"
    using fields_real_date [of "utc_day y (m - 1) d"] check by simp
  ultimately show "valid_ymd y m d" using b(2) by (simp add: valid_ymd_def)
  show "s = formatIsoDate y m d"
    using iso_split [OF iso] pad_num_of_digits [OF digits(1) len(1)] pad_num_of_digits [OF digits(2) len(2)]
      pad_num_of_digits [OF digits(3) len(3)] by (simp add: formatIsoDate_def y m d)
qed

section \<open>Dates as day numbers\<close>

definition valid_date :: "IsoDate \<Rightarrow> bool" where
  "valid_date s \<longleftrightarrow> \<not> isl (parseIsoDate s)"

text \<open>The abstraction: the day number of a date text.\<close>

definition date_day :: "IsoDate \<Rightarrow> int" where
  "date_day s = (case parseIsoDate s of Inl _ \<Rightarrow> 0 | Inr (y, m, d) \<Rightarrow> day_number y m d)"

definition FIRST_DAY :: int where
  "FIRST_DAY = -683003"

definition LAST_DAY :: int where
  "LAST_DAY = 2932896"

lemma valid_dateE:
  assumes "valid_date s"
  obtains y m d where "valid_ymd y m d" "s = formatIsoDate y m d" "parseIsoDate s = Inr (y, m, d)" "date_day s = day_number y m d"
proof -
  obtain r where r: "parseIsoDate s = Inr r" using assms by (cases "parseIsoDate s") (auto simp: valid_date_def)
  obtain y m d where "r = (y, m, d)" by (cases r) auto
  with r parse_Inr that show ?thesis by (simp add: date_day_def)
qed

lemma day_range:
  assumes "FIRST_DAY \<le> n" "n \<le> LAST_DAY"
  shows "valid_ymd (getUTCFullYear n) (getUTCMonth n + 1) (getUTCDate n)"
proof -
  have "year_start 100 = FIRST_DAY" "year_start 10000 = LAST_DAY + 1" by code_simp+
  then have n: "year_start 100 \<le> n" "n < year_start 10000" using assms by simp_all
  note b = year_of_day_bounds [of n]
  have "100 \<le> year_of_day n"
  proof (rule ccontr)
    assume "\<not> ?thesis"
    then show False using year_start_mono [of "year_of_day n" 100] n b by (simp add: year_start_Suc)
  qed
  moreover have "year_of_day n < 10000"
  proof (rule ccontr)
    assume "\<not> ?thesis"
    then show False using year_start_mono [of 10000 "year_of_day n"] n b year_length_bounds(1) [of 10000]
      by (cases "year_of_day n = 10000") auto
  qed
  ultimately show ?thesis using fields_real_date [of n] by (simp add: valid_ymd_def getUTCFullYear_def)
qed

lemma iso_of_day_valid:
  assumes "FIRST_DAY \<le> n" "n \<le> LAST_DAY"
  shows "iso_of_day n = formatIsoDate (getUTCFullYear n) (getUTCMonth n + 1) (getUTCDate n)"
    "parseIsoDate (iso_of_day n) = Inr (getUTCFullYear n, getUTCMonth n + 1, getUTCDate n)"
    "valid_date (iso_of_day n)" "date_day (iso_of_day n) = n"
proof -
  show iso: "iso_of_day n = formatIsoDate (getUTCFullYear n) (getUTCMonth n + 1) (getUTCDate n)"
  proof -
    have "\<bar>n\<bar> \<le> MAX_DAY" using assms unfolding MAX_DAY_def FIRST_DAY_def LAST_DAY_def by (intro abs_leI) linarith+
    then show ?thesis by (simp add: iso_of_day_def)
  qed
  then show parse: "parseIsoDate (iso_of_day n) = Inr (getUTCFullYear n, getUTCMonth n + 1, getUTCDate n)"
    using parse_valid [OF day_range [OF assms]] by simp
  show "valid_date (iso_of_day n)" "date_day (iso_of_day n) = n"
    using parse by (simp_all add: valid_date_def date_day_def day_number_of_fields)
qed

lemma valid_date_range:
  assumes "valid_date s"
  shows "FIRST_DAY \<le> date_day s" "date_day s \<le> LAST_DAY" "iso_of_day (date_day s) = s"
proof -
  obtain y m d where v: "valid_ymd y m d" "s = formatIsoDate y m d" "date_day s = day_number y m d"
    using assms by (rule valid_dateE)
  have r: "real_date y m d" "100 \<le> y" "y \<le> 9999" using v(1) by (auto simp: valid_ymd_def)
  have first: "real_date 100 1 1" "day_number 100 1 1 = FIRST_DAY" by code_simp+
  have last: "real_date 9999 12 31" "day_number 9999 12 31 = LAST_DAY" by code_simp+
  show range: "FIRST_DAY \<le> date_day s" "date_day s \<le> LAST_DAY"
    using day_number_less [OF r(1) first(1)] day_number_less [OF last(1) r(1)] first(2) last(2) r valid_ymd_bounds [OF v(1)] v(3)
    by auto
  show "iso_of_day (date_day s) = s"
    using iso_of_day_valid(1) [OF range] day_number_fields [OF r(1)] v by simp
qed

lemma date_less:
  assumes "valid_date s" "valid_date t"
  shows "js_less s t \<longleftrightarrow> date_day s < date_day t"
proof -
  obtain y m d where v: "valid_ymd y m d" "s = formatIsoDate y m d" "date_day s = day_number y m d"
    using assms(1) by (rule valid_dateE)
  obtain y' m' d' where v': "valid_ymd y' m' d'" "t = formatIsoDate y' m' d'" "date_day t = day_number y' m' d'"
    using assms(2) by (rule valid_dateE)
  note b = valid_ymd_bounds [OF v(1)] and b' = valid_ymd_bounds [OF v'(1)]
  have len: "length (pad_num 4 y) = length (pad_num 4 y')" "length (pad_num 2 m) = length (pad_num 2 m')"
    "length (pad_num 2 d) = length (pad_num 2 d')"
    using b b' by (simp_all add: pad_num_length)
  have less: "js_less (pad_num w a) (pad_num w b) \<longleftrightarrow> a < b" "pad_num w a = pad_num w b \<longleftrightarrow> a = b"
    if "0 \<le> a" "0 \<le> b" "length (pad_num w a) = length (pad_num w b)" for w a b
    using js_less_digits [OF that(3) pad_num_digits [OF that(1)] pad_num_digits [OF that(2)]] that(1,2)
    by (simp_all, metis pad_num_value)
  have "js_less s t \<longleftrightarrow> y < y' \<or> (y = y' \<and> (m < m' \<or> (m = m' \<and> d < d')))"
    unfolding v(2) v'(2) formatIsoDate_def
    using len b b' less by (simp add: js_less_append)
  also have "\<dots> \<longleftrightarrow> date_day s < date_day t"
    using day_number_less [of y m d y' m' d'] v v' by (simp add: valid_ymd_def)
  finally show ?thesis .
qed

lemma addDays_day:
  assumes "valid_date s"
  shows "addDays s n = Inr (iso_of_day (date_day s + n))"
proof -
  obtain y m d where v: "valid_ymd y m d" "parseIsoDate s = Inr (y, m, d)" "date_day s = day_number y m d"
    using assms by (rule valid_dateE)
  have "utc_day y (m - 1) (d + n) = day_number y m d + n"
    using utc_day_number [of m y "d + n"] valid_ymd_bounds [OF v(1)] by (simp add: day_number_def)
  then show ?thesis using v by (simp add: addDays_def)
qed

text \<open>
  C30: dates behave as day numbers. A text is accepted exactly when it is the ISO text of one day of
  the years 100 to 9999; two dates are in order as texts exactly when their days are; adding days
  moves the day number by exactly that much as long as the result is in those years, and undoes.
\<close>

theorem dates_are_days:
  assumes "valid_date s" "valid_date t" "FIRST_DAY \<le> date_day s + n" "date_day s + n \<le> LAST_DAY"
  shows "(js_less s t \<longleftrightarrow> date_day s < date_day t) \<and> (s = t \<longleftrightarrow> date_day s = date_day t) \<and>
    (\<exists>r. addDays s n = Inr r \<and> valid_date r \<and> date_day r = date_day s + n \<and> addDays r (- n) = Inr s)"
proof -
  have r: "valid_date (iso_of_day (date_day s + n))" "date_day (iso_of_day (date_day s + n)) = date_day s + n"
    using iso_of_day_valid(3,4) [OF assms(3,4)] by simp_all
  have "addDays (iso_of_day (date_day s + n)) (- n) = Inr s"
    using addDays_day [OF r(1), of "- n"] valid_date_range(3) [OF assms(1)] by (simp add: r(2))
  moreover have "s = t \<longleftrightarrow> date_day s = date_day t"
    using valid_date_range(3) [OF assms(1)] valid_date_range(3) [OF assms(2)] by metis
  ultimately show ?thesis using date_less [OF assms(1,2)] addDays_day [OF assms(1)] r by blast
qed

theorem dates_are_days_witness:
  "\<exists>r. addDays ''2028-02-28'' 2 = Inr r \<and> addDays r (-2) = Inr ''2028-02-28'' \<and> js_less ''2028-02-28'' ''2028-03-01''"
proof -
  have v: "valid_date ''2028-02-28''" "valid_date ''2028-03-01''" by code_simp+
  have d: "date_day ''2028-02-28'' = 21242" "date_day ''2028-03-01'' = 21244" by code_simp+
  show ?thesis
    using dates_are_days [OF v, of 2] by (simp add: d FIRST_DAY_def LAST_DAY_def) blast
qed

end
