(* ===== verification/Business_Day_Rules.thy ===== *)
theory Business_Day_Rules
  imports Date_Rules
begin

text \<open>
  The business day under a clock with a fixed offset, as India's: business days cut time into days of
  24 hours that start at the cut-off. The financial year of a date is the one whose first and last
  day enclose it.
\<close>

section \<open>A zone with a fixed offset\<close>

definition local_fields :: "int \<Rightarrow> LocalDateTime" where
  "local_fields ms =
     (let n = ms div 86400000
      in \<lparr>ld_year = getUTCFullYear n, ld_month = getUTCMonth n + 1, ld_day = getUTCDate n,
          ld_hour = ms mod 86400000 div 3600000, ld_minute = ms mod 3600000 div 60000,
          ld_second = ms mod 60000 div 1000\<rparr>)"

text \<open>
  What the code relies on in \<open>Intl.DateTimeFormat\<close> for a zone without changes of its clock: the parts
  are the date and time of day at a constant offset from UTC, in whole minutes (from the year 100 on).
\<close>

definition fixed_offset :: "zone_clock \<Rightarrow> string \<Rightarrow> int \<Rightarrow> bool" where
  "fixed_offset formatToParts timeZone off \<longleftrightarrow>
     off mod 60000 = 0 \<and>
     (\<forall>ms. FIRST_DAY \<le> (ms + off) div 86400000 \<longrightarrow>
        toLocalDateTime formatToParts (Some ms) timeZone = Inr (local_fields (ms + off)))"

lemma time_of_day:
  fixes ms :: int
  assumes "0 \<le> h" "h < 24" "0 \<le> m" "m < 60"
  shows "ms mod 86400000 div 3600000 < h \<or> (ms mod 86400000 div 3600000 = h \<and> ms mod 3600000 div 60000 < m) \<longleftrightarrow>
    ms mod 86400000 < (h * 60 + m) * 60000"
proof -
  define t where "t = ms mod 86400000"
  have t: "ms mod 3600000 = t mod 3600000" unfolding t_def by (simp add: mod_mod_cancel)
  define a b c where "a = t div 3600000" and "b = t mod 3600000 div 60000" and "c = t mod 3600000 mod 60000"
  have "t = 3600000 * a + (60000 * b + c)" by (simp add: a_def b_def c_def)
  moreover have "0 \<le> b" "b < 60" "0 \<le> c" "c < 60000"
  proof -
    have "0 \<le> t mod 3600000" "t mod 3600000 < 3600000" by simp_all
    then show "0 \<le> b" "b < 60" by (auto simp: b_def pos_imp_zdiv_nonneg_iff div_less_iff_less_mult)
  qed (simp_all add: c_def)
  ultimately have "t < (h * 60 + m) * 60000 \<longleftrightarrow> a < h \<or> (a = h \<and> b < m)" using assms by auto
  then show ?thesis by (simp only: t t_def [symmetric] a_def b_def)
qed

lemma HH_MM_bounds:
  assumes "parseCutoff c = Inr (h, m)"
  shows "0 \<le> h" "h < 24" "0 \<le> m" "m < 60"
  using assms dec_value_bounds [of "take 2 c"] dec_value_bounds [of "drop 3 c"]
  by (auto simp: parseCutoff_def HH_MM_def split: if_splits)

text \<open>The day a business date stands for: the days of local time shifted by the cut-off.\<close>

definition business_day_of :: "int \<Rightarrow> int \<Rightarrow> int" where
  "business_day_of local_ms cutoff_ms = (local_ms - cutoff_ms) div 86400000"

lemma le_div_day: "a * 86400000 \<le> x \<Longrightarrow> a \<le> x div (86400000 :: int)"
  using zdiv_mono1 [of "a * 86400000" x 86400000] by simp

lemma shifted_day:
  fixes ms :: int
  assumes "0 \<le> k" "k < 86400000"
  shows "(ms - k) div 86400000 = (if ms mod 86400000 < k then ms div 86400000 - 1 else ms div 86400000)"
proof -
  define q r where "q = ms div 86400000" and "r = ms mod 86400000"
  have ms: "ms = 86400000 * q + r" "0 \<le> r" "r < 86400000" by (simp_all add: q_def r_def)
  have "(ms - k) div 86400000 = (if r < k then q - 1 else q)"
  proof (cases "r < k")
    case True
    have e: "ms - k = (86400000 + r - k) + (q - 1) * 86400000" by (simp add: ms(1) algebra_simps)
    have "0 \<le> 86400000 + r - k" "86400000 + r - k < 86400000" using True ms assms by simp_all
    then have "(86400000 + r - k) div 86400000 = 0" by (rule div_pos_pos_trivial)
    then show ?thesis using True by (simp only: e div_mult_self1) simp
  next
    case False
    have e: "ms - k = (r - k) + q * 86400000" by (simp add: ms(1))
    have "0 \<le> r - k" "r - k < 86400000" using False ms assms by simp_all
    then have "(r - k) div 86400000 = 0" by (rule div_pos_pos_trivial)
    then show ?thesis using False by (simp only: e div_mult_self1) simp
  qed
  then show ?thesis by (simp only: q_def r_def)
qed

lemma cutoff_ms_bounds:
  assumes "parseCutoff c = Inr (h, m)"
  shows "0 \<le> (h * 60 + m) * 60000" "(h * 60 + m) * 60000 < 86400000"
  using HH_MM_bounds [OF assms] by simp_all

lemma businessDateOf_day:
  assumes "fixed_offset clock (bd_timeZone config) off" "parseCutoff (bd_cutoff config) = Inr (h, m)"
    and "FIRST_DAY < (t + off) div 86400000" "(t + off) div 86400000 \<le> LAST_DAY"
  shows "businessDateOf clock (Some t) config = Inr (iso_of_day (business_day_of (t + off) ((h * 60 + m) * 60000)))"
    "FIRST_DAY \<le> business_day_of (t + off) ((h * 60 + m) * 60000)"
    "business_day_of (t + off) ((h * 60 + m) * 60000) \<le> LAST_DAY"
proof -
  let ?L = "t + off" and ?cut = "(h * 60 + m) * 60000"
  let ?n = "?L div 86400000"
  note b = HH_MM_bounds [OF assms(2)]
  have day: "business_day_of ?L ?cut = (if ?L mod 86400000 < ?cut then ?n - 1 else ?n)"
    unfolding business_day_of_def by (rule shifted_day [OF cutoff_ms_bounds [OF assms(2)]])
  show range: "FIRST_DAY \<le> business_day_of ?L ?cut" "business_day_of ?L ?cut \<le> LAST_DAY"
    unfolding day using assms(3,4) by (simp_all split: if_splits)
  have n: "FIRST_DAY \<le> ?n" "?n \<le> LAST_DAY" using assms(3,4) by simp_all
  note date = iso_of_day_valid [OF n]
  have "addDays (iso_of_day ?n) (- 1) = Inr (iso_of_day (?n - 1))"
    using addDays_day [OF date(3), of "- 1"] date(4) by simp
  moreover have "toLocalDateTime clock (Some t) (bd_timeZone config) = Inr (local_fields ?L)"
    using assms(1) n(1) by (simp add: fixed_offset_def)
  moreover have "formatIsoDate (ld_year (local_fields ?L)) (ld_month (local_fields ?L)) (ld_day (local_fields ?L)) = iso_of_day ?n"
    by (simp add: local_fields_def Let_def date(1))
  moreover have "ld_hour (local_fields ?L) < h \<or> (ld_hour (local_fields ?L) = h \<and> ld_minute (local_fields ?L) < m) \<longleftrightarrow>
      ?L mod 86400000 < ?cut"
    using time_of_day [OF b, of ?L] by (simp add: local_fields_def Let_def)
  ultimately show "businessDateOf clock (Some t) config = Inr (iso_of_day (business_day_of ?L ?cut))"
    unfolding businessDateOf_def assms(2) Let_def day by (simp only: bindE.simps prod.case split: if_splits) simp
qed

lemma utc_ms_fields:
  assumes "FIRST_DAY \<le> ms div 86400000" "ms mod 1000 = 0"
  shows "utc_ms (ld_year (local_fields ms)) (ld_month (local_fields ms) - 1) (ld_day (local_fields ms))
    (ld_hour (local_fields ms)) (ld_minute (local_fields ms)) (ld_second (local_fields ms)) = ms"
proof -
  let ?n = "ms div 86400000"
  define t u where "t = ms mod 86400000" and "u = ms mod 3600000"
  define v where "v = ms mod 60000"
  have "u = t mod 3600000" "v = u mod 60000" "v mod 1000 = 0"
    using assms(2) unfolding t_def u_def v_def by (simp_all add: mod_mod_cancel)
  then have "t = 3600000 * (t div 3600000) + u" "u = 60000 * (u div 60000) + v" "v = 1000 * (v div 1000)"
    using div_mult_mod_eq [of v 1000] by simp_all
  moreover have "ms = 86400000 * ?n + t" by (simp add: t_def)
  ultimately have time: "((?n * 24 + t div 3600000) * 60 + u div 60000) * 60000 + (v div 1000) * 1000 = ms"
    by (simp add: algebra_simps)
  have "year_start 100 = FIRST_DAY" by code_simp
  then have "100 \<le> getUTCFullYear ?n"
    using assms(1) year_start_mono [of "year_of_day ?n" 100] year_of_day_bounds [of ?n]
    by (cases "year_of_day ?n < 100") (auto simp: getUTCFullYear_def year_start_Suc)
  then have "utc_day (getUTCFullYear ?n) (getUTCMonth ?n) (getUTCDate ?n) = ?n"
    using utc_day_number [of "getUTCMonth ?n + 1" "getUTCFullYear ?n" "getUTCDate ?n"] fields_real_date [of ?n]
      day_number_of_fields [of ?n] by (simp add: real_date_def)
  then show ?thesis
    using time by (simp add: utc_ms_def local_fields_def Let_def t_def u_def v_def)
qed

lemma offset_at_fixed:
  assumes "fixed_offset clock tz off" "FIRST_DAY \<le> (ms + off) div 86400000" "(ms + off) mod 1000 = 0" "new_date ms = Some ms"
  shows "offset_at clock tz ms = Inr off"
  using assms utc_ms_fields [OF assms(2,3)] by (simp add: offset_at_def fixed_offset_def)

lemma new_date_within: "FIRST_DAY * 86400000 \<le> ms + 86400000 \<Longrightarrow> ms \<le> (LAST_DAY + 3) * 86400000 \<Longrightarrow> new_date ms = Some ms"
  by (simp add: new_date_def MAX_DAY_def FIRST_DAY_def LAST_DAY_def)

lemma businessDayStart_day:
  assumes "fixed_offset clock (bd_timeZone config) off" "\<bar>off\<bar> \<le> 86400000" "parseCutoff (bd_cutoff config) = Inr (h, m)"
    and "FIRST_DAY < n" "n \<le> LAST_DAY"
  shows "businessDayStart clock (iso_of_day n) config = Inr (Some (n * 86400000 + (h * 60 + m) * 60000 - off))"
proof -
  define w where "w = n * 86400000 + (h * 60 + m) * 60000"
  have n: "FIRST_DAY \<le> n" using assms(4) by simp
  note date = iso_of_day_valid [OF n assms(5)]
  note cut = cutoff_ms_bounds [OF assms(3)]
  have year: "100 \<le> getUTCFullYear n" "1 \<le> getUTCMonth n + 1" "getUTCMonth n + 1 \<le> 12"
    using valid_ymd_bounds [OF day_range [OF n assms(5)]] by auto
  have "utc_day (getUTCFullYear n) (getUTCMonth n) (getUTCDate n) = n"
    using utc_day_number [of "getUTCMonth n + 1" "getUTCFullYear n" "getUTCDate n"] year day_number_of_fields [of n] by simp
  then have wall: "utc_ms (getUTCFullYear n) (getUTCMonth n) (getUTCDate n) h m 0 = w"
    by (simp add: utc_ms_def w_def algebra_simps)
  have minutes: "off mod 60000 = 0" using assms(1) by (simp add: fixed_offset_def)
  then have "off mod 1000 = 0" using mod_mod_cancel [of 1000 60000 off] by simp
  moreover have "w mod 1000 = 0" by (simp add: w_def mod_0_imp_dvd dvd_imp_mod_0)
  ultimately have sec: "(w + off) mod 1000 = 0" "(w - off + off) mod 1000 = 0" by (simp_all add: mod_add_eq [symmetric])
  have days: "FIRST_DAY \<le> (w + off) div 86400000" "FIRST_DAY \<le> (w - off + off) div 86400000"
    using assms(2,4) cut by (auto intro!: le_div_day simp: w_def algebra_simps)
  have dates: "new_date w = Some w" "new_date (w - off) = Some (w - off)"
    using assms(2,4,5) cut by (auto intro!: new_date_within simp: w_def algebra_simps)
  show ?thesis
    unfolding w_def [symmetric]
    using offset_at_fixed [OF assms(1) days(1) sec(1) dates(1)] offset_at_fixed [OF assms(1) days(2) sec(2) dates(2)]
    by (simp add: businessDayStart_def zonedTimeToUtc_def date(2) assms(3) wall dates(2) Let_def)
qed

text \<open>
  C23: business days cut time into days. In a zone with a fixed offset, as India's, every instant
  belongs to one business date; it lies at or after the start of that business date and before the
  start of the next, which comes exactly 24 hours later. So an instant before the cut-off belongs to
  the previous date and a restriction that waits for the next business day never applies within this one.
\<close>

theorem business_days_partition:
  assumes "fixed_offset clock (bd_timeZone config) off" "\<bar>off\<bar> \<le> 86400000" "parseCutoff (bd_cutoff config) = Inr (h, m)"
    and "FIRST_DAY + 1 < (t + off) div 86400000" "(t + off) div 86400000 < LAST_DAY"
  shows "\<exists>date start. businessDateOf clock (Some t) config = Inr date \<and> valid_date date \<and>
    businessDayStart clock date config = Inr (Some start) \<and>
    nextBusinessDayStart clock (Some t) config = Inr (Some (start + 86400000)) \<and>
    start \<le> t \<and> t < start + 86400000 \<and> (start + off) mod 86400000 = (h * 60 + m) * 60000"
proof -
  let ?cut = "(h * 60 + m) * 60000"
  let ?n = "business_day_of (t + off) ?cut"
  have r: "FIRST_DAY < (t + off) div 86400000" "(t + off) div 86400000 \<le> LAST_DAY" using assms(4,5) by simp_all
  note cut = cutoff_ms_bounds [OF assms(3)]
  note date = businessDateOf_day [OF assms(1,3) r]
  have day: "?n = (if (t + off) mod 86400000 < ?cut then (t + off) div 86400000 - 1 else (t + off) div 86400000)"
    unfolding business_day_of_def by (rule shifted_day [OF cut])
  have n: "FIRST_DAY < ?n" "?n < LAST_DAY" unfolding day using assms(4,5) by (simp_all split: if_splits)
  have start: "businessDayStart clock (iso_of_day ?n) config = Inr (Some (?n * 86400000 + ?cut - off))"
    using businessDayStart_day [OF assms(1-3), of ?n] n by simp
  have "addDays (iso_of_day ?n) 1 = Inr (iso_of_day (?n + 1))"
    using addDays_day [of "iso_of_day ?n" 1] iso_of_day_valid [of ?n] n by simp
  moreover have "businessDayStart clock (iso_of_day (?n + 1)) config = Inr (Some ((?n + 1) * 86400000 + ?cut - off))"
    using businessDayStart_day [OF assms(1-3), of "?n + 1"] n by simp
  ultimately have following: "nextBusinessDayStart clock (Some t) config = Inr (Some (?n * 86400000 + ?cut - off + 86400000))"
    using date(1) by (simp add: nextBusinessDayStart_def algebra_simps)
  have "t + off - ?cut = 86400000 * ?n + (t + off - ?cut) mod 86400000" by (simp add: business_day_of_def)
  moreover have "0 \<le> (t + off - ?cut) mod 86400000" "(t + off - ?cut) mod 86400000 < 86400000" by simp_all
  ultimately have within: "?n * 86400000 + ?cut - off \<le> t" "t < ?n * 86400000 + ?cut - off + 86400000" by linarith+
  have "(?n * 86400000 + ?cut - off + off) mod 86400000 = ?cut" using cut by simp
  with date(1) start following within iso_of_day_valid(3) [of ?n] n show ?thesis by (metis order_less_imp_le)
qed

text \<open>A clock of this kind, for India: the parts at five and a half hours from UTC.\<close>

definition indian_clock :: zone_clock where
  "indian_clock tz ms =
     (let l = local_fields (ms + 19800000)
      in [(''month'', dec (ld_month l)), (''literal'', ''/''), (''day'', dec (ld_day l)), (''literal'', ''/''),
          (''year'', dec (ld_year l)), (''literal'', '', ''), (''hour'', dec (ld_hour l)), (''literal'', '':''),
          (''minute'', dec (ld_minute l)), (''literal'', '':''), (''second'', dec (ld_second l))])"

lemma local_fields_nonneg:
  assumes "FIRST_DAY \<le> ms div 86400000"
  shows "0 \<le> ld_year (local_fields ms)" "0 \<le> ld_month (local_fields ms)" "0 \<le> ld_day (local_fields ms)"
    "0 \<le> ld_hour (local_fields ms)" "0 \<le> ld_minute (local_fields ms)" "0 \<le> ld_second (local_fields ms)"
proof -
  let ?n = "ms div 86400000"
  have "year_start 100 = FIRST_DAY" by code_simp
  then show "0 \<le> ld_year (local_fields ms)"
    using assms year_start_mono [of "year_of_day ?n" 100] year_of_day_bounds [of ?n]
    by (cases "year_of_day ?n < 100") (auto simp: getUTCFullYear_def year_start_Suc local_fields_def Let_def)
  show "0 \<le> ld_month (local_fields ms)" "0 \<le> ld_day (local_fields ms)"
    using fields_real_date [of ?n] by (auto simp: real_date_def local_fields_def Let_def)
  show "0 \<le> ld_hour (local_fields ms)" "0 \<le> ld_minute (local_fields ms)" "0 \<le> ld_second (local_fields ms)"
    by (simp_all add: local_fields_def Let_def pos_imp_zdiv_nonneg_iff)
qed

lemma indian_clock_fixed: "fixed_offset indian_clock tz 19800000"
proof -
  have "toLocalDateTime indian_clock (Some ms) tz = Inr (local_fields (ms + 19800000))"
    if "FIRST_DAY \<le> (ms + 19800000) div 86400000" for ms
    using local_fields_nonneg [OF that]
    by (simp add: toLocalDateTime_def assertValidInstant_def collect_parts_def indian_clock_def Let_def)
  then show ?thesis by (simp add: fixed_offset_def)
qed

theorem business_days_partition_witness:
  "\<exists>date start. businessDateOf indian_clock (Some 1775000000000) DEFAULT_BUSINESS_DAY = Inr date \<and>
     businessDayStart indian_clock date DEFAULT_BUSINESS_DAY = Inr (Some start) \<and>
     start \<le> 1775000000000 \<and> 1775000000000 < start + 86400000"
proof -
  have "parseCutoff (bd_cutoff DEFAULT_BUSINESS_DAY) = Inr (4, 0)" by code_simp
  from business_days_partition [OF indian_clock_fixed _ this, of 1775000000000]
  show ?thesis by (auto simp: FIRST_DAY_def LAST_DAY_def)
qed

section \<open>The financial year\<close>

lemma financialYearFromStart_Inr:
  "financialYearFromStart y = Inr fy \<Longrightarrow> 2000 \<le> y \<and> y \<le> 2998 \<and> fy_startYear fy = y \<and>
     fy_startDate fy = formatIsoDate y 4 1 \<and> fy_endDate fy = formatIsoDate (y + 1) 3 31"
  by (auto simp: financialYearFromStart_def Let_def split: if_splits)

lemma fy_ends_valid:
  assumes "2000 \<le> y" "y \<le> 2998"
  shows "valid_ymd y 4 1" "valid_ymd (y + 1) 3 31"
  using assms by (simp_all add: valid_ymd_def real_date_def month_length_def)

text \<open>
  A date's financial year is the one that encloses it. A financial year, whichever it is, begins
  at or before a date and ends at or after it, compared as texts, exactly when it is the financial
  year the program gives the date.
\<close>

lemma financialYearOf_contains:
  assumes "valid_date date" "financialYearFromStart y = Inr fy"
  shows "(js_le (fy_startDate fy) date \<and> js_le date (fy_endDate fy)) = (financialYearOf date = Inr fy)"
proof -
  obtain Y m d where v: "valid_ymd Y m d" "date = formatIsoDate Y m d" "parseIsoDate date = Inr (Y, m, d)"
    "date_day date = day_number Y m d"
    using assms(1) by (rule valid_dateE)
  have fy: "2000 \<le> y" "y \<le> 2998" "fy_startYear fy = y" "fy_startDate fy = formatIsoDate y 4 1"
    "fy_endDate fy = formatIsoDate (y + 1) 3 31"
    using financialYearFromStart_Inr [OF assms(2)] by auto
  note ends = fy_ends_valid [OF fy(1,2)]
  have valid: "valid_date (formatIsoDate y 4 1)" "valid_date (formatIsoDate (y + 1) 3 31)"
    using parse_valid [OF ends(1)] parse_valid [OF ends(2)] by (simp_all add: valid_date_def)
  have days: "date_day (formatIsoDate y 4 1) = day_number y 4 1" "date_day (formatIsoDate (y + 1) 3 31) = day_number (y + 1) 3 31"
    using parse_valid [OF ends(1)] parse_valid [OF ends(2)] by (simp_all add: date_day_def)
  note r = v(1) [unfolded valid_ymd_def, THEN conjunct1] ends(1) [unfolded valid_ymd_def, THEN conjunct1]
    ends(2) [unfolded valid_ymd_def, THEN conjunct1]
  have "js_le (fy_startDate fy) date \<and> js_le date (fy_endDate fy) \<longleftrightarrow>
      \<not> day_number Y m d < day_number y 4 1 \<and> \<not> day_number (y + 1) 3 31 < day_number Y m d"
    using date_less [OF assms(1) valid(1)] date_less [OF valid(2) assms(1)] fy(4,5) days v(4) by simp
  also have "\<dots> \<longleftrightarrow> (if 4 \<le> m then Y else Y - 1) = y"
    unfolding day_number_less [OF r(1,2)] day_number_less [OF r(3,1)] using valid_ymd_bounds [OF v(1)] by auto
  also have "\<dots> \<longleftrightarrow> financialYearOf date = Inr fy"
    using assms(2) fy(3) financialYearFromStart_Inr [of "if 4 \<le> m then Y else Y - 1" fy]
    by (auto simp: financialYearOf_def v(3))
  finally show ?thesis .
qed

lemma financialYearOf_contains_witness:
  "\<exists>fy. financialYearOf ''2026-03-31'' = Inr fy \<and> fy_startDate fy = ''2025-04-01''"
proof -
  have v: "valid_date ''2026-03-31''" by code_simp
  obtain fy where fy: "financialYearFromStart 2025 = Inr fy"
    by (cases "financialYearFromStart 2025") (auto simp: financialYearFromStart_def Let_def)
  have "fy_startDate fy = ''2025-04-01''" "fy_endDate fy = ''2026-03-31''"
  proof -
    have "formatIsoDate 2025 4 1 = ''2025-04-01''" "formatIsoDate 2026 3 31 = ''2026-03-31''" by code_simp+
    then show "fy_startDate fy = ''2025-04-01''" "fy_endDate fy = ''2026-03-31''"
      using financialYearFromStart_Inr [OF fy] by simp_all
  qed
  moreover have "js_le ''2025-04-01'' ''2026-03-31''" by code_simp
  ultimately show ?thesis using financialYearOf_contains [OF v fy] fy by auto
qed

end
