(* ===== verification/Subscription_Billing.thy ===== *)
theory Subscription_Billing
  imports License Business_Day_Rules
begin

text \<open>
  \<open>packages/domain/src/subscription-billing.ts\<close>: billing periods, how far behind a restaurant is and the
  licence state that follows. The lemmas show that billing only makes moves the licence machine has,
  that it settles on one state for each stage, and that it never undoes a person's decision.
\<close>

text \<open>
  \<open>date.split('-').map(Number)\<close> of a date of the program; the years of accepted dates are above 99, so
  \<open>Date.UTC\<close> takes them as they are. \<open>target.toISOString().slice(0, 10)\<close> is the ISO text of its day for
  years from 0 to 9999.
\<close>

definition split_date :: "IsoDate \<Rightarrow> int \<times> int \<times> int" where
  "split_date date = (dec_value (take 4 date), dec_value (take 2 (drop 5 date)), dec_value (drop 8 date))"

definition addMonths :: "IsoDate \<Rightarrow> int \<Rightarrow> IsoDate" where
  "addMonths date months =
     (case split_date date of (year, month, day) \<Rightarrow>
        let target = utc_day year (month - 1 + months) 1;
            last_day = getUTCDate (utc_day (getUTCFullYear target) (getUTCMonth target + 1) 0);
            moved = target - getUTCDate target + min day last_day
        in formatIsoDate (getUTCFullYear moved) (getUTCMonth moved + 1) (getUTCDate moved))"

text \<open>The difference of two midnights in days, for accepted dates; \<open>Math.round\<close> of a whole number is the number.\<close>

definition daysBetween :: "IsoDate \<Rightarrow> IsoDate \<Rightarrow> int" where
  "daysBetween start end_date = date_day end_date - date_day start"

definition billingPeriod :: "IsoDate \<Rightarrow> int \<Rightarrow> (IsoDate \<times> IsoDate) result" where
  "billingPeriod start months =
     bindE (addDays (addMonths start months) (- 1)) (\<lambda>end_date. Inr (start, end_date))"

datatype OverdueStage = NONE | DUE | GRACE_STAGE

definition overdueStage :: "IsoDate option \<Rightarrow> IsoDate \<Rightarrow> int \<Rightarrow> OverdueStage" where
  "overdueStage oldestUnpaidDueOn today graceAfterDays =
     (case oldestUnpaidDueOn of
        None \<Rightarrow> NONE
      | Some due \<Rightarrow>
          let overdue = daysBetween due today
          in if overdue \<le> 0 then NONE
             else if graceAfterDays < overdue then GRACE_STAGE
             else DUE)"

definition billingLicenceState :: "LicenseState \<Rightarrow> bool \<Rightarrow> OverdueStage \<Rightarrow> bool \<Rightarrow> LicenseState option" where
  "billingLicenceState current setByBilling stage graceOver =
     (if current = TERMINATED then None
      else if stage = NONE then (if setByBilling \<and> current \<noteq> ACTIVE then Some ACTIVE else None)
      else if \<not> setByBilling \<and> current \<noteq> ACTIVE \<and> current \<noteq> PAYMENT_DUE then None
      else if stage = DUE \<and> (current = GRACE \<or> current = RESTRICTED) then Some ACTIVE
      else if current = GRACE then (if graceOver then Some RESTRICTED else None)
      else if current = RESTRICTED then None
      else if stage = GRACE_STAGE then Some GRACE
      else if current = ACTIVE then Some PAYMENT_DUE
      else None)"

section \<open>Months\<close>

lemma month_shift:
  assumes "0 \<le> y \<and> y \<le> 99 \<longrightarrow> False"
  shows "utc_day y k 1 = day_number (y + k div 12) (k mod 12 + 1) 1" "real_date (y + k div 12) (k mod 12 + 1) 1"
proof -
  have "0 \<le> k mod 12" "k mod 12 \<le> 11" using pos_mod_bound [of 12 k] by simp_all
  then show "real_date (y + k div 12) (k mod 12 + 1) 1"
    using month_length_bounds [of "k mod 12" "y + k div 12"] by (simp add: real_date_def)
  show "utc_day y k 1 = day_number (y + k div 12) (k mod 12 + 1) 1"
    using assms by (auto simp: utc_day_def day_number_def Let_def)
qed

lemma last_of_month:
  assumes "100 \<le> y" "0 \<le> m" "m \<le> 11"
  shows "getUTCDate (utc_day y (m + 1) 0) = month_length y m"
proof -
  have r: "real_date y (m + 1) (month_length y m)" using assms month_length_bounds [of m y] by (simp add: real_date_def)
  have "utc_day y (m + 1) 0 = day_number y (m + 1) (month_length y m)"
  proof (cases "m = 11")
    case True
    then show ?thesis using assms(1) by (simp add: utc_day_def day_number_def month_length_def Let_def year_start_Suc)
  next
    case False
    then have "(m + 1) div 12 = 0" "(m + 1) mod 12 = m + 1" using assms by (auto simp: div_pos_pos_trivial mod_pos_pos_trivial)
    then show ?thesis using assms(1) False by (simp add: utc_day_def day_number_def month_length_def Let_def)
  qed
  then show ?thesis using day_number_fields(3) [OF r] by simp
qed

text \<open>
  Adding months keeps the day and clamps it to the month. In the years 100 to 9999 the result is the
  date that many months later whose day is the same, or the last day of the month when the month is
  shorter; and a billing period starts on its start and ends the day before the next one starts.
\<close>

lemma addMonths_clamps:
  assumes "parseIsoDate date = Inr (y, m, d)"
    and k_def: "k = 12 * y + (m - 1) + n"
    and "100 \<le> k div 12" "k div 12 \<le> 9999"
  shows "parseIsoDate (addMonths date n) = Inr (k div 12, k mod 12 + 1, min d (month_length (k div 12) (k mod 12))) \<and>
    (FIRST_DAY < date_day (addMonths date n) \<longrightarrow>
       (\<exists>e. billingPeriod date n = Inr (date, e) \<and> addDays e 1 = Inr (addMonths date n)))"
proof -
  let ?Y = "k div 12" and ?M = "k mod 12"
  let ?d = "min d (month_length ?Y ?M)"
  have v: "valid_ymd y m d" "date = formatIsoDate y m d" using parse_Inr [OF assms(1)] by auto
  note b = valid_ymd_bounds [OF v(1)]
  have split: "split_date date = (y, m, d)" using v(2) b format_parts [of y m d] by (simp add: split_date_def)
  have M: "0 \<le> ?M" "?M \<le> 11" using pos_mod_bound [of 12 k] by simp_all
  have shift: "y + (m - 1 + n) div 12 = ?Y" "(m - 1 + n) mod 12 = ?M"
    unfolding k_def by (simp_all add: add.assoc)
  have target: "utc_day y (m - 1 + n) 1 = day_number ?Y (?M + 1) 1" "real_date ?Y (?M + 1) 1"
    using month_shift [of y "m - 1 + n"] b(1) by (simp_all only: shift) simp_all
  note tf = day_number_fields [OF target(2)]
  have last: "getUTCDate (utc_day ?Y (?M + 1) 0) = month_length ?Y ?M"
    by (rule last_of_month [OF assms(3) M])
  have real: "real_date ?Y (?M + 1) ?d"
    using M b month_length_bounds [OF M, of ?Y] by (simp add: real_date_def)
  have moved: "day_number ?Y (?M + 1) 1 - 1 + ?d = day_number ?Y (?M + 1) ?d" by (simp add: day_number_def)
  note mf = day_number_fields [OF real]
  have shown: "addMonths date n = formatIsoDate ?Y (?M + 1) ?d"
    unfolding addMonths_def split prod.case Let_def target(1) tf
    by (simp only: diff_add_cancel last moved mf)
  have valid: "valid_ymd ?Y (?M + 1) ?d" using real assms(3,4) by (simp add: valid_ymd_def)
  have parse: "parseIsoDate (addMonths date n) = Inr (?Y, ?M + 1, ?d)" unfolding shown by (rule parse_valid [OF valid])
  have a: "valid_date (addMonths date n)" using parse by (simp add: valid_date_def)
  have "\<exists>e. billingPeriod date n = Inr (date, e) \<and> addDays e 1 = Inr (addMonths date n)"
    if "FIRST_DAY < date_day (addMonths date n)"
  proof -
    let ?e = "iso_of_day (date_day (addMonths date n) - 1)"
    have e: "valid_date ?e" "date_day ?e = date_day (addMonths date n) - 1"
      using iso_of_day_valid(3,4) [of "date_day (addMonths date n) - 1"] that valid_date_range(2) [OF a] by simp_all
    have "addDays ?e 1 = Inr (addMonths date n)"
      using addDays_day [OF e(1), of 1] e(2) valid_date_range(3) [OF a] by simp
    moreover have "billingPeriod date n = Inr (date, ?e)"
      using addDays_day [OF a, of "- 1"] by (simp add: billingPeriod_def)
    ultimately show ?thesis by blast
  qed
  with parse show ?thesis by blast
qed

theorem addMonths_clamps_witness:
  "parseIsoDate (addMonths ''2028-01-31'' 1) = Inr (2028, 2, 29)"
proof -
  have p: "parseIsoDate ''2028-01-31'' = Inr (2028, 1, 31)" by code_simp
  have "month_length 2028 1 = 29" by code_simp
  with addMonths_clamps [OF p refl, of 1] show ?thesis by simp
qed

section \<open>Billing and the licence\<close>

text \<open>The event of the licence machine each move of billing stands for.\<close>

fun billing_event :: "LicenseState \<Rightarrow> LicenseEvent" where
  "billing_event ACTIVE = PAYMENT_RECORDED"
| "billing_event PAYMENT_DUE = INVOICE_OVERDUE"
| "billing_event GRACE = START_GRACE"
| "billing_event RESTRICTED = GRACE_ENDED"
| "billing_event TERMINATED = CONTRACT_ENDED"

text \<open>One look of billing: a move marks the state as billing's own.\<close>

fun billing_look :: "OverdueStage \<Rightarrow> bool \<Rightarrow> LicenseState \<times> bool \<Rightarrow> LicenseState \<times> bool" where
  "billing_look stage graceOver (current, own) =
     (case billingLicenceState current own stage graceOver of None \<Rightarrow> (current, own) | Some s \<Rightarrow> (s, True))"

fun settled_state :: "OverdueStage \<Rightarrow> bool \<Rightarrow> LicenseState" where
  "settled_state NONE graceOver = ACTIVE"
| "settled_state DUE graceOver = PAYMENT_DUE"
| "settled_state GRACE_STAGE graceOver = (if graceOver then RESTRICTED else GRACE)"

text \<open>
  C26: billing refines the licence machine. Every move billing makes is a transition of the machine, by
  the event of that move; billing never ends a contract and never leaves one that ended.
\<close>

theorem billing_refines_licence:
  "case billingLicenceState current own stage graceOver of
     None \<Rightarrow> True
   | Some s \<Rightarrow>
       (\<exists>t. transition licenseMachine current (billing_event s) = Inr t \<and> tr_to t = s) \<and>
       s \<noteq> TERMINATED \<and> current \<noteq> TERMINATED \<and> s \<noteq> current"
proof -
  have "run_events licenseMachine current [billing_event s] = Some s \<and> s \<noteq> TERMINATED \<and> current \<noteq> TERMINATED \<and> s \<noteq> current"
    if "billingLicenceState current own stage graceOver = Some s" for s
  proof -
    have "(current, s) \<in> {(ACTIVE, PAYMENT_DUE), (ACTIVE, GRACE), (PAYMENT_DUE, ACTIVE), (PAYMENT_DUE, GRACE), (GRACE, ACTIVE),
        (GRACE, RESTRICTED), (RESTRICTED, ACTIVE)}"
      using that by (cases current; auto simp: billingLicenceState_def split: if_splits)
    then show ?thesis by (elim insertE; simp; code_simp?)
  qed
  then show ?thesis
    by (auto simp: findTransition_def transition_Inr_iff split: option.splits)
qed

text \<open>What billing leaves as it is for good: a decision of a person, and a restriction far behind.\<close>

definition left_alone :: "LicenseState \<Rightarrow> bool \<Rightarrow> OverdueStage \<Rightarrow> bool" where
  "left_alone current own stage \<longleftrightarrow>
     current = TERMINATED \<or> current = RESTRICTED \<and> stage = GRACE_STAGE \<or>
     \<not> own \<and> (current = GRACE \<or> current = RESTRICTED \<or> current = PAYMENT_DUE \<and> stage = NONE)"

text \<open>
  Billing settles. From every state, three or more looks with the same facts end in the state of
  the stage: active when nothing is overdue, payment due, grace, or restricted once the grace is over.
  Only an ended contract, a restriction while the restaurant is far behind, a grace or restriction a
  person set, and a person's payment due with nothing overdue, are left alone, and those for good.
\<close>

lemma billing_settles:
  "fst ((billing_look stage graceOver ^^ (3 + n)) (current, own)) =
     (if left_alone current own stage then current else settled_state stage graceOver)"
proof -
  let ?look = "billing_look stage graceOver"
  have stay: "(f ^^ n) x = x" if "f x = x" for f :: "LicenseState \<times> bool \<Rightarrow> LicenseState \<times> bool" and x n
    using that by (induction n) auto
  have alone: "?look (current, own) = (current, own)" if "left_alone current own stage"
    using that by (auto simp: left_alone_def billingLicenceState_def)
  have settled: "fst ((?look ^^ 3) (current, own)) = settled_state stage graceOver \<and>
      ?look ((?look ^^ 3) (current, own)) = (?look ^^ 3) (current, own)"
    if "\<not> left_alone current own stage"
    using that
    by (cases current; cases stage; cases graceOver; cases own;
        simp add: numeral_3_eq_3 billingLicenceState_def left_alone_def)
  have "(?look ^^ (3 + n)) (current, own) = (?look ^^ 3) (current, own)" if "\<not> left_alone current own stage"
    using stay [of ?look "(?look ^^ 3) (current, own)" n] settled [OF that] by (simp add: add.commute [of 3 n] funpow_add)
  then show ?thesis using settled stay [of ?look "(current, own)" "3 + n"] alone by auto
qed

section \<open>What a restaurant keeps\<close>

text \<open>
  The restaurant's data is never withheld. In every licence state open tables can be billed and
  printed, reports seen, data exported and backed up; only a restricted or ended licence in effect stops new
  tables, orders and tickets. A restriction is in effect only from its time on: before that the
  restaurant has what it had.
\<close>

lemma licence_never_withholds:
  "lc_billOpenTables (licenseCapabilities s) \<and> lc_print (licenseCapabilities s) \<and> lc_viewReports (licenseCapabilities s) \<and>
   lc_exportData (licenseCapabilities s) \<and> lc_backups (licenseCapabilities s) \<and>
   (lc_createOrders (licenseCapabilities s) \<longleftrightarrow> s \<noteq> RESTRICTED \<and> s \<noteq> TERMINATED) \<and>
   lc_openNewTableSessions (licenseCapabilities s) = lc_createOrders (licenseCapabilities s) \<and>
   lc_sendKots (licenseCapabilities s) = lc_createOrders (licenseCapabilities s) \<and>
   (if now < from \<and> lc_createOrders (licenseCapabilities previous)
    then lc_createOrders (licenseCapabilities (effectiveLicenseState recorded previous (Some from) now)) else True)"
  by (cases s; cases recorded; cases previous)
    (auto simp: FULL_CAPABILITIES_def RESTRICTED_CAPABILITIES_def effectiveLicenseState_def)

end
