(* ===== verification/Invoice_Number.thy ===== *)
theory Invoice_Number
  imports Business_Day_Rules JsNumber
begin

text \<open>
  \<open>packages/domain/src/invoice-number.ts\<close>: GST invoice numbers of a series. The lemmas show which
  sequence numbers fit in 16 characters and that no two invoices of a series share a number. The
  texts of the problems are constructors.
\<close>

definition INVOICE_NUMBER_MAX_LENGTH :: int where
  "INVOICE_NUMBER_MAX_LENGTH = 16"

definition is_alnum_char :: "char \<Rightarrow> bool" where
  "is_alnum_char c \<longleftrightarrow> is_upper_char c \<or> is_lower_char c \<or> is_digit_char c"

definition ALLOWED :: "string \<Rightarrow> bool" where
  "ALLOWED s \<longleftrightarrow> s \<noteq> [] \<and> list_all (\<lambda>c. is_alnum_char c \<or> c = CHR ''/'' \<or> c = CHR ''-'') s"

datatype Separator = Slash | Dash

fun separator_text :: "Separator \<Rightarrow> string" where
  "separator_text Slash = ''/''"
| "separator_text Dash = ''-''"

record InvoiceSeriesConfig =
  is_prefix :: string
  is_includeFinancialYear :: bool
  is_separator :: Separator
  is_sequencePadding :: number

definition DEFAULT_INVOICE_SERIES :: InvoiceSeriesConfig where
  "DEFAULT_INVOICE_SERIES =
     \<lparr>is_prefix = ''INV'', is_includeFinancialYear = True, is_separator = Slash, is_sequencePadding = 6\<rparr>"

text \<open>\<open>parts.join(separator)\<close>.\<close>

fun join_with :: "string \<Rightarrow> string list \<Rightarrow> string" where
  "join_with sep [] = []"
| "join_with sep [p] = p"
| "join_with sep (p # q # ps) = p @ sep @ join_with sep (q # ps)"

definition invoice_text :: "InvoiceSeriesConfig \<Rightarrow> string \<Rightarrow> number \<Rightarrow> string" where
  "invoice_text config shortLabel seq_no =
     join_with (separator_text (is_separator config))
       ((if is_prefix config \<noteq> [] then [is_prefix config] else []) @
        (if is_includeFinancialYear config then [shortLabel] else []) @
        [pad_start (nat (is_sequencePadding config)) CHR ''0'' (num_text seq_no)])"

definition formatInvoiceNumber :: "InvoiceSeriesConfig \<Rightarrow> FinancialYear \<Rightarrow> number \<Rightarrow> string result" where
  "formatInvoiceNumber config financialYear seq_no =
     (if \<not> isSafeInteger seq_no \<or> seq_no < 1 then Inl INVALID_ARGUMENT
      else
        let v = invoice_text config (fy_shortLabel financialYear) seq_no
        in if \<not> ALLOWED v then Inl INVALID_INVOICE_SERIES
           else if INVOICE_NUMBER_MAX_LENGTH < int (length v) then Inl INVOICE_NUMBER_TOO_LONG
           else Inr v)"

definition sequenceDigitsAvailable :: "InvoiceSeriesConfig \<Rightarrow> int" where
  "sequenceDigitsAvailable config =
     (let used = (if is_prefix config \<noteq> [] then int (length (is_prefix config)) else 0) +
                 (if is_includeFinancialYear config then 5 else 0);
          segments = 1 + (if is_prefix config \<noteq> [] then 1 else 0) + (if is_includeFinancialYear config then 1 else 0)
      in INVOICE_NUMBER_MAX_LENGTH - (used + (segments - 1)))"

definition maxSequenceFor :: "InvoiceSeriesConfig \<Rightarrow> number" where
  "maxSequenceFor config =
     (let digits = sequenceDigitsAvailable config
      in if digits \<le> 0 then 0 else js_sub (to_double (10 ^ nat digits)) 1)"

datatype SeriesProblem =
    Prefix_Characters
  | Padding_Too_Small
  | Characters_Left int
  | Too_Few_Invoices

definition validateInvoiceSeries :: "InvoiceSeriesConfig \<Rightarrow> SeriesProblem list" where
  "validateInvoiceSeries config =
     (let digits = sequenceDigitsAvailable config
      in (if is_prefix config \<noteq> [] \<and> \<not> list_all is_alnum_char (is_prefix config) then [Prefix_Characters] else []) @
         (if \<not> isSafeInteger (is_sequencePadding config) \<or> is_sequencePadding config < 1 then [Padding_Too_Small] else []) @
         (if digits < is_sequencePadding config then [Characters_Left (max digits 0)] else []) @
         (if digits < 4 then [Too_Few_Invoices] else []))"

section \<open>The text of a number\<close>

definition series_head :: "InvoiceSeriesConfig \<Rightarrow> string \<Rightarrow> string" where
  "series_head config shortLabel =
     (if is_prefix config \<noteq> [] then is_prefix config @ separator_text (is_separator config) else []) @
     (if is_includeFinancialYear config then shortLabel @ separator_text (is_separator config) else [])"

lemma invoice_text_head:
  "invoice_text config shortLabel n =
     series_head config shortLabel @ pad_start (nat (is_sequencePadding config)) CHR ''0'' (num_text n)"
  by (simp add: invoice_text_def series_head_def)

lemma separator_length [simp]: "length (separator_text s) = 1"
  by (cases s) simp_all

lemma series_head_length:
  "length shortLabel = 5 \<Longrightarrow> int (length (series_head config shortLabel)) = INVOICE_NUMBER_MAX_LENGTH - sequenceDigitsAvailable config"
  by (simp add: series_head_def sequenceDigitsAvailable_def Let_def)

lemma short_label:
  assumes "financialYearFromStart y = Inr fy"
  shows "length (fy_shortLabel fy) = 5"
    "list_all (\<lambda>c. is_alnum_char c \<or> c = CHR ''/'' \<or> c = CHR ''-'') (fy_shortLabel fy)"
    "fy_shortLabel fy = pad_num 2 (y mod 100) @ ''-'' @ pad_num 2 ((y + 1) mod 100)"
proof -
  show label: "fy_shortLabel fy = pad_num 2 (y mod 100) @ ''-'' @ pad_num 2 ((y + 1) mod 100)"
    using assms by (auto simp: financialYearFromStart_def Let_def split: if_splits)
  show "length (fy_shortLabel fy) = 5" by (simp add: label pad_num_length)
  have "list_all is_digit_char (pad_num 2 (y mod 100))" "list_all is_digit_char (pad_num 2 ((y + 1) mod 100))"
    by (simp_all add: pad_num_digits)
  then show "list_all (\<lambda>c. is_alnum_char c \<or> c = CHR ''/'' \<or> c = CHR ''-'') (fy_shortLabel fy)"
    by (auto simp: label list_all_iff is_alnum_char_def)
qed

lemma invoice_text_allowed:
  assumes "financialYearFromStart y = Inr fy" "list_all is_alnum_char (is_prefix config)" "1 \<le> n"
  shows "ALLOWED (invoice_text config (fy_shortLabel fy) n)"
proof -
  let ?ok = "\<lambda>c. is_alnum_char c \<or> c = CHR ''/'' \<or> c = CHR ''-''"
  have "list_all ?ok (separator_text (is_separator config))" by (cases "is_separator config") simp_all
  then have head: "list_all ?ok (series_head config (fy_shortLabel fy))"
    using assms(2) short_label(2) [OF assms(1)] by (auto simp: series_head_def list_all_iff)
  have "list_all is_digit_char (pad_start (nat (is_sequencePadding config)) CHR ''0'' (num_text n))"
    using assms(3) by (simp add: pad_start_digits dec_digits)
  then have "list_all ?ok (pad_start (nat (is_sequencePadding config)) CHR ''0'' (num_text n))"
    by (auto simp: list_all_iff is_alnum_char_def)
  moreover have "pad_start (nat (is_sequencePadding config)) CHR ''0'' (num_text n) \<noteq> []"
    using assms(3) by (simp add: pad_start_def)
  ultimately show ?thesis using head by (simp add: ALLOWED_def invoice_text_head)
qed

lemma length_dec_iff:
  assumes "1 \<le> n" "0 < k"
  shows "length (dec n) \<le> k \<longleftrightarrow> n < 10 ^ k"
  using length_dec_le [of n k] length_dec_ge [of k n] assms by fastforce

lemma length_invoice_text:
  assumes "financialYearFromStart y = Inr fy" "1 \<le> n" "0 < sequenceDigitsAvailable config"
    and "is_sequencePadding config \<le> sequenceDigitsAvailable config"
  shows "int (length (invoice_text config (fy_shortLabel fy) n)) \<le> INVOICE_NUMBER_MAX_LENGTH \<longleftrightarrow>
    n < 10 ^ nat (sequenceDigitsAvailable config)"
proof -
  let ?d = "sequenceDigitsAvailable config"
  have "int (length (invoice_text config (fy_shortLabel fy) n)) =
      INVOICE_NUMBER_MAX_LENGTH - ?d + int (max (nat (is_sequencePadding config)) (length (dec n)))"
    using series_head_length [OF short_label(1) [OF assms(1)], of config] assms(2)
    by (simp add: invoice_text_head length_pad_start)
  then have "int (length (invoice_text config (fy_shortLabel fy) n)) \<le> INVOICE_NUMBER_MAX_LENGTH \<longleftrightarrow> length (dec n) \<le> nat ?d"
    using assms(3,4) by (auto simp: max_def split: if_splits)
  then show ?thesis using length_dec_iff [OF assms(2), of "nat ?d"] assms(3) by simp
qed

text \<open>
  A series the setup accepts numbers its invoices up to its last digit. Every sequence number
  with no more digits than the series has room for gives an invoice number of at most 16 allowed
  characters, and every larger one is refused as too long, never with another error; the series has
  room for at least 9,999 invoices in a financial year.
\<close>

lemma formatInvoiceNumber_fits:
  assumes "validateInvoiceSeries config = []" "financialYearFromStart y = Inr fy" "1 \<le> n" "isSafeInteger n"
  shows "formatInvoiceNumber config fy n =
      (if n < 10 ^ nat (sequenceDigitsAvailable config) then Inr (invoice_text config (fy_shortLabel fy) n)
       else Inl INVOICE_NUMBER_TOO_LONG) \<and>
    (n < 10 ^ nat (sequenceDigitsAvailable config) \<longrightarrow> length (invoice_text config (fy_shortLabel fy) n) \<le> 16) \<and>
    9999 < (10 :: int) ^ nat (sequenceDigitsAvailable config)"
proof -
  let ?d = "sequenceDigitsAvailable config"
  have c: "list_all is_alnum_char (is_prefix config)" "is_sequencePadding config \<le> ?d" "4 \<le> ?d"
    using assms(1) by (auto simp: validateInvoiceSeries_def Let_def split: if_splits)
  have "(10 :: int) ^ 4 \<le> 10 ^ nat ?d" using c(3) by (intro power_increasing) auto
  moreover have "length (invoice_text config (fy_shortLabel fy) n) \<le> 16 \<longleftrightarrow> n < 10 ^ nat ?d"
    using length_invoice_text [OF assms(2,3) _ c(2)] c(3) by (simp add: INVOICE_NUMBER_MAX_LENGTH_def)
  moreover have "ALLOWED (invoice_text config (fy_shortLabel fy) n)"
    by (rule invoice_text_allowed [OF assms(2) c(1) assms(3)])
  ultimately show ?thesis
    using assms(3,4) by (auto simp: formatInvoiceNumber_def Let_def INVOICE_NUMBER_MAX_LENGTH_def)
qed

theorem formatInvoiceNumber_fits_witness:
  "\<exists>fy. financialYearFromStart 2026 = Inr fy \<and> formatInvoiceNumber DEFAULT_INVOICE_SERIES fy 1000000 = Inl INVOICE_NUMBER_TOO_LONG"
proof -
  have ok: "validateInvoiceSeries DEFAULT_INVOICE_SERIES = []" by code_simp
  have digits: "sequenceDigitsAvailable DEFAULT_INVOICE_SERIES = 6" by code_simp
  obtain fy where fy: "financialYearFromStart 2026 = Inr fy"
    by (cases "financialYearFromStart 2026") (auto simp: financialYearFromStart_def Let_def)
  from formatInvoiceNumber_fits [OF ok fy, of 1000000] fy show ?thesis by (simp add: digits)
qed

text \<open>
  Invoice numbers are unique. Two invoices of one series whose financial years start in the same
  century never share a number, unless they have the same sequence number and, where the series
  shows the financial year, the same financial year.
\<close>

lemma formatInvoiceNumber_unique:
  assumes "formatInvoiceNumber config fy n = Inr v" "formatInvoiceNumber config fy' n' = Inr v"
    and "financialYearFromStart y = Inr fy" "financialYearFromStart y' = Inr fy'" "y div 100 = y' div 100"
  shows "n = n' \<and> (is_includeFinancialYear config \<longrightarrow> y = y')"
proof -
  have v: "v = invoice_text config (fy_shortLabel fy) n" "v = invoice_text config (fy_shortLabel fy') n'" "1 \<le> n" "1 \<le> n'"
    using assms(1,2) by (auto simp: formatInvoiceNumber_def Let_def split: if_splits)
  have len: "length (series_head config (fy_shortLabel fy)) = length (series_head config (fy_shortLabel fy'))"
    using short_label(1) [OF assms(3)] short_label(1) [OF assms(4)] by (simp add: series_head_def)
  from v(1,2) len have heads: "series_head config (fy_shortLabel fy) = series_head config (fy_shortLabel fy')"
    and tails: "pad_start (nat (is_sequencePadding config)) CHR ''0'' (num_text n) =
      pad_start (nat (is_sequencePadding config)) CHR ''0'' (num_text n')"
    by (auto simp: invoice_text_head)
  have "dec_value (num_text n) = dec_value (num_text n')" using arg_cong [OF tails, of dec_value] by simp
  then have "n = n'" using v(3,4) by simp
  moreover have "y = y'" if "is_includeFinancialYear config"
  proof -
    have "fy_shortLabel fy = fy_shortLabel fy'" using heads that by (auto simp: series_head_def split: if_splits)
    then have "pad_num 2 (y mod 100) @ ''-'' @ pad_num 2 ((y + 1) mod 100) =
        pad_num 2 (y' mod 100) @ ''-'' @ pad_num 2 ((y' + 1) mod 100)"
      unfolding short_label(3) [OF assms(3)] short_label(3) [OF assms(4)] .
    moreover have "length (pad_num 2 (y mod 100)) = length (pad_num 2 (y' mod 100))" by (simp add: pad_num_length)
    ultimately have "pad_num 2 (y mod 100) = pad_num 2 (y' mod 100)" using append_eq_append_conv [THEN iffD1] by blast
    then have "dec_value (pad_num 2 (y mod 100)) = dec_value (pad_num 2 (y' mod 100))" by simp
    then have "y mod 100 = y' mod 100" by simp
    then show "y = y'" using assms(5) by (metis div_mult_mod_eq)
  qed
  ultimately show ?thesis by blast
qed

theorem formatInvoiceNumber_unique_witness:
  "\<exists>fy v. financialYearFromStart 2026 = Inr fy \<and> formatInvoiceNumber DEFAULT_INVOICE_SERIES fy 42 = Inr v \<and>
     v = ''INV/26-27/000042'' \<and> (\<forall>n. formatInvoiceNumber DEFAULT_INVOICE_SERIES fy n = Inr v \<longrightarrow> n = 42)"
proof -
  obtain fy where fy: "financialYearFromStart 2026 = Inr fy"
    by (cases "financialYearFromStart 2026") (auto simp: financialYearFromStart_def Let_def)
  have "pad_num 2 (2026 mod 100) @ ''-'' @ pad_num 2 ((2026 + 1) mod 100) = ''26-27''" by code_simp
  then have "fy_shortLabel fy = ''26-27''" using short_label(3) [OF fy] by simp
  moreover have "invoice_text DEFAULT_INVOICE_SERIES ''26-27'' 42 = ''INV/26-27/000042''" by code_simp
  moreover have "ALLOWED ''INV/26-27/000042''" by code_simp
  ultimately have v: "formatInvoiceNumber DEFAULT_INVOICE_SERIES fy 42 = Inr ''INV/26-27/000042''"
    by (simp add: formatInvoiceNumber_def INVOICE_NUMBER_MAX_LENGTH_def)
  then show ?thesis using formatInvoiceNumber_unique [OF _ v fy fy] fy by blast
qed

text \<open>
  The highest sequence that \<open>maxSequenceFor\<close> reports for a series with no prefix and no financial year
  is one that does not fit: ten to the sixteenth less one is not a double, and rounds up.
\<close>

lemma maxSequenceFor_rounds_up:
  "maxSequenceFor \<lparr>is_prefix = [], is_includeFinancialYear = False, is_separator = Dash, is_sequencePadding = 1\<rparr> = 10 ^ 16"
  by code_simp

end
