(* ===== verification/Kot.thy ===== *)
theory Kot
  imports Tally
begin

text \<open>
  \<open>packages/domain/src/kot.ts\<close>: items are split into one kitchen ticket per station, combos into
  their components. The lemmas show that every unit ordered reaches exactly one ticket, that of its
  station. A property left out of an object is \<^term>\<open>None\<close>.
\<close>

record KotComponentInput =
  kc_itemId :: string
  kc_name :: string
  kc_quantity :: number
  kc_stationId :: string
  kc_variantName :: "string option"
  kc_modifiers :: "string list option"

record KotItemInput =
  ki_orderItemId :: string
  ki_itemId :: string
  ki_name :: string
  ki_quantity :: number
  ki_stationId :: "string option"
  ki_variantName :: "string option"
  ki_modifiers :: "string list option"
  ki_instructions :: "string option"
  ki_comboComponents :: "KotComponentInput list option"

record KotLine =
  kl_orderItemId :: string
  kl_itemId :: string
  kl_name :: string
  kl_quantity :: number
  kl_variantName :: "string option"
  kl_modifiers :: "string list"
  kl_instructions :: "string option"
  kl_comboName :: "string option"

record KotDraft =
  kd_stationId :: string
  kd_lines :: "KotLine list"

definition assertQuantity :: "number \<Rightarrow> unit result" where
  "assertQuantity quantity = throw_if (\<not> isSafeInteger quantity \<or> quantity < 1) INVALID_QUANTITY"

type_synonym by_station = "(string \<times> KotLine list) list"

definition push :: "string \<Rightarrow> KotLine \<Rightarrow> by_station \<Rightarrow> by_station" where
  "push stationId line byStation =
     map_set stationId ((case map_of byStation stationId of None \<Rightarrow> [] | Some lines \<Rightarrow> lines) @ [line]) byStation"

definition component_line :: "KotItemInput \<Rightarrow> KotComponentInput \<Rightarrow> KotLine" where
  "component_line i component =
     \<lparr>kl_orderItemId = ki_orderItemId i, kl_itemId = kc_itemId component, kl_name = kc_name component,
      kl_quantity = js_mul (kc_quantity component) (ki_quantity i), kl_variantName = kc_variantName component,
      kl_modifiers = (case kc_modifiers component of None \<Rightarrow> [] | Some ms \<Rightarrow> ms),
      kl_instructions = ki_instructions i, kl_comboName = Some (ki_name i)\<rparr>"

definition item_line :: "KotItemInput \<Rightarrow> KotLine" where
  "item_line i =
     \<lparr>kl_orderItemId = ki_orderItemId i, kl_itemId = ki_itemId i, kl_name = ki_name i,
      kl_quantity = ki_quantity i, kl_variantName = ki_variantName i,
      kl_modifiers = (case ki_modifiers i of None \<Rightarrow> [] | Some ms \<Rightarrow> ms),
      kl_instructions = ki_instructions i, kl_comboName = None\<rparr>"

fun push_components :: "KotItemInput \<Rightarrow> KotComponentInput list \<Rightarrow> by_station \<Rightarrow> by_station result" where
  "push_components i [] byStation = Inr byStation"
| "push_components i (component # components) byStation =
     bindE (assertQuantity (kc_quantity component)) (\<lambda>_.
     push_components i components (push (kc_stationId component) (component_line i component) byStation))"

definition push_item :: "KotItemInput \<Rightarrow> by_station \<Rightarrow> by_station result" where
  "push_item i byStation =
     bindE (assertQuantity (ki_quantity i)) (\<lambda>_.
     let components = (case ki_comboComponents i of None \<Rightarrow> [] | Some cs \<Rightarrow> cs)
     in if components \<noteq> [] then push_components i components byStation
        else
          (case ki_stationId i of
             None \<Rightarrow> Inl INVALID_ARGUMENT
           | Some station \<Rightarrow>
               if station = [] then Inl INVALID_ARGUMENT
               else Inr (push station (item_line i) byStation)))"

fun push_items :: "KotItemInput list \<Rightarrow> by_station \<Rightarrow> by_station result" where
  "push_items [] byStation = Inr byStation"
| "push_items (i # items) byStation = bindE (push_item i byStation) (push_items items)"

definition splitIntoKots :: "KotItemInput list \<Rightarrow> KotDraft list result" where
  "splitIntoKots items =
     bindE (push_items items []) (\<lambda>byStation.
     Inr (map (\<lambda>(stationId, lines). \<lparr>kd_stationId = stationId, kd_lines = lines\<rparr>) byStation))"

section \<open>Every unit reaches its station\<close>

text \<open>The lines of an item with their stations, in the order of the order.\<close>

definition routed :: "KotItemInput \<Rightarrow> (string \<times> KotLine) list" where
  "routed i =
     (case ki_comboComponents i of
        None \<Rightarrow> [(the (ki_stationId i), item_line i)]
      | Some [] \<Rightarrow> [(the (ki_stationId i), item_line i)]
      | Some cs \<Rightarrow> map (\<lambda>c. (kc_stationId c, component_line i c)) cs)"

definition for_station :: "string \<Rightarrow> (string \<times> KotLine) list \<Rightarrow> KotLine list" where
  "for_station k rs = map snd (filter (\<lambda>r. fst r = k) rs)"

lemma for_station_simps [simp]:
  "for_station k [] = []" "for_station k (r # rs) = (if fst r = k then snd r # for_station k rs else for_station k rs)"
  "for_station k (rs @ qs) = for_station k rs @ for_station k qs"
  by (simp_all add: for_station_def)

definition lines_at :: "string \<Rightarrow> by_station \<Rightarrow> KotLine list" where
  "lines_at k m = (case map_of m k of None \<Rightarrow> [] | Some ls \<Rightarrow> ls)"

lemma lines_at_push: "lines_at k (push s l m) = lines_at k m @ (if s = k then [l] else [])"
  by (simp add: lines_at_def push_def)

lemma push_keys: "map fst (push s l m) = (if s \<in> fst ` set m then map fst m else map fst m @ [s])"
  by (simp add: push_def keys_map_set)

definition no_empty :: "by_station \<Rightarrow> bool" where
  "no_empty m \<longleftrightarrow> (\<forall>p \<in> set m. snd p \<noteq> [])"

lemma no_empty_push: "no_empty m \<Longrightarrow> no_empty (push s l m)"
  by (auto simp: no_empty_def push_def dest!: set_map_set)

text \<open>The stations in order of first appearance.\<close>

definition see :: "string list \<Rightarrow> string list \<Rightarrow> string list" where
  "see seen ks = foldl (\<lambda>seen k. if k \<in> set seen then seen else seen @ [k]) seen ks"

lemma see_simps [simp]: "see seen [] = seen" "see seen (k # ks) = see (if k \<in> set seen then seen else seen @ [k]) ks"
  "see seen (ks @ js) = see (see seen ks) js"
  by (simp_all add: see_def)

lemma distinct_see: "distinct seen \<Longrightarrow> distinct (see seen ks)"
  by (induction ks arbitrary: seen) auto

lemma set_see: "set (see seen ks) = set seen \<union> set ks"
  by (induction ks arbitrary: seen) auto

text \<open>What pushing lines one after the other amounts to.\<close>

definition pushed :: "(string \<times> KotLine) list \<Rightarrow> by_station \<Rightarrow> by_station \<Rightarrow> bool" where
  "pushed rs m m' \<longleftrightarrow>
     (\<forall>k. lines_at k m' = lines_at k m @ for_station k rs) \<and>
     map fst m' = see (map fst m) (map fst rs) \<and> (no_empty m \<longrightarrow> no_empty m')"

lemma pushed_Nil: "pushed [] m m"
  by (simp add: pushed_def)

lemma pushed_push: "pushed [(s, l)] m (push s l m)"
  by (simp add: pushed_def lines_at_push push_keys no_empty_push)

lemma pushed_trans: "pushed rs m m' \<Longrightarrow> pushed qs m' m'' \<Longrightarrow> pushed (rs @ qs) m m''"
  by (simp add: pushed_def)

lemma push_components_Inr:
  "push_components i cs m = Inr m' \<Longrightarrow> pushed (map (\<lambda>c. (kc_stationId c, component_line i c)) cs) m m'"
proof (induction cs arbitrary: m)
  case Nil
  then show ?case by (simp add: pushed_Nil)
next
  case (Cons c cs)
  then have "pushed (map (\<lambda>c. (kc_stationId c, component_line i c)) cs) (push (kc_stationId c) (component_line i c) m) m'"
    by (auto simp: bindE_Inr_iff)
  from pushed_trans [OF pushed_push this] show ?case by simp
qed

lemma push_item_Inr:
  assumes "push_item i m = Inr m'"
  shows "pushed (routed i) m m'"
proof (cases "ki_comboComponents i = None \<or> ki_comboComponents i = Some []")
  case True
  then obtain st where "ki_stationId i = Some st" "m' = push st (item_line i) m"
    using assms by (auto simp: push_item_def Let_def bindE_Inr_iff split: option.splits if_splits)
  then show ?thesis using True pushed_push by (auto simp: routed_def)
next
  case False
  then obtain c cs where cs: "ki_comboComponents i = Some (c # cs)" by (cases "ki_comboComponents i") (auto simp: neq_Nil_conv)
  then have "push_components i (c # cs) m = Inr m'"
    using assms by (simp add: push_item_def Let_def bindE_Inr_iff del: push_components.simps)
  from push_components_Inr [OF this] show ?thesis by (simp add: routed_def cs)
qed

lemma push_items_Inr: "push_items is m = Inr m' \<Longrightarrow> pushed (concat (map routed is)) m m'"
proof (induction "is" arbitrary: m)
  case Nil
  then show ?case by (simp add: pushed_Nil)
next
  case (Cons i "is")
  then show ?case by (auto simp: bindE_Inr_iff intro: pushed_trans push_item_Inr)
qed

definition good_quantity :: "number \<Rightarrow> bool" where
  "good_quantity q \<longleftrightarrow> isSafeInteger q \<and> 1 \<le> q"

definition good_item :: "KotItemInput \<Rightarrow> bool" where
  "good_item i \<longleftrightarrow> good_quantity (ki_quantity i) \<and>
     (case ki_comboComponents i of
        Some (c # cs) \<Rightarrow> \<forall>c \<in> set (c # cs). good_quantity (kc_quantity c)
      | _ \<Rightarrow> ki_stationId i \<noteq> None \<and> ki_stationId i \<noteq> Some [])"

lemma assertQuantity_iff: "assertQuantity q = Inr u \<longleftrightarrow> good_quantity q"
  by (auto simp: assertQuantity_def good_quantity_def throw_if_Inr_iff)

lemma push_components_total: "isl (push_components i cs m) \<longleftrightarrow> \<not> (\<forall>c \<in> set cs. good_quantity (kc_quantity c))"
proof (induction cs arbitrary: m)
  case Nil
  then show ?case by simp
next
  case (Cons c cs)
  have "isl (assertQuantity (kc_quantity c)) \<longleftrightarrow> \<not> good_quantity (kc_quantity c)"
    using assertQuantity_iff [of "kc_quantity c" "()"] by (cases "assertQuantity (kc_quantity c)") auto
  then show ?case using Cons.IH by (cases "assertQuantity (kc_quantity c)") auto
qed

lemma push_item_total: "isl (push_item i m) \<longleftrightarrow> \<not> good_item i"
proof (cases "assertQuantity (ki_quantity i)")
  case (Inl e)
  then have "\<not> good_quantity (ki_quantity i)" using assertQuantity_iff [of "ki_quantity i" "()"] by simp
  with Inl show ?thesis by (simp add: push_item_def good_item_def)
next
  case (Inr u)
  then have "good_quantity (ki_quantity i)" by (simp add: assertQuantity_iff)
  with Inr show ?thesis
    by (auto simp: push_item_def good_item_def Let_def push_components_total split: option.splits list.splits)
qed

lemma push_items_total: "isl (push_items is m) \<longleftrightarrow> \<not> (\<forall>i \<in> set is. good_item i)"
proof (induction "is" arbitrary: m)
  case Nil
  then show ?case by simp
next
  case (Cons i "is")
  then show ?case using push_item_total [of i m] by (cases "push_item i m") auto
qed

text \<open>
  C25: nothing ordered is lost on the way to the kitchen. An order is accepted exactly when every
  quantity is a positive whole number and every item that is not a combo has a station; then each
  station that has something to make gets exactly one ticket, in order of first appearance, and the
  ticket holds exactly that station's lines in order, a combo as its components times the quantity.
\<close>

theorem splitIntoKots_routes:
  "case splitIntoKots items of
     Inl e \<Rightarrow> \<not> list_all good_item items
   | Inr drafts \<Rightarrow>
       list_all good_item items \<and>
       map kd_stationId drafts = see [] (map fst (concat (map routed items))) \<and>
       distinct (map kd_stationId drafts) \<and>
       drafts = map (\<lambda>k. \<lparr>kd_stationId = k, kd_lines = for_station k (concat (map routed items))\<rparr>) (map kd_stationId drafts) \<and>
       list_all (\<lambda>d. kd_lines d \<noteq> []) drafts"
proof (cases "push_items items []")
  case (Inl e)
  then show ?thesis
    using push_items_total [of items "[]"] by (auto simp: splitIntoKots_def list_all_iff)
next
  case (Inr m)
  let ?routed = "concat (map routed items)"
  define drafts where "drafts = map (\<lambda>(stationId, lines). \<lparr>kd_stationId = stationId, kd_lines = lines\<rparr>) m"
  have run: "splitIntoKots items = Inr drafts" by (simp add: splitIntoKots_def Inr drafts_def)
  have pushed: "pushed ?routed [] m" by (rule push_items_Inr [OF Inr])
  have keys: "map kd_stationId drafts = map fst m" by (auto simp: drafts_def)
  have seen: "map fst m = see [] (map fst ?routed)" using pushed by (simp add: pushed_def)
  then have d: "distinct (map fst m)" using distinct_see [of "[]"] by simp
  have lines: "snd p = for_station (fst p) ?routed" if "p \<in> set m" for p
  proof -
    have "map_of m (fst p) = Some (snd p)" using d that by simp
    then have "lines_at (fst p) m = snd p" by (simp add: lines_at_def)
    then show ?thesis using pushed by (simp add: pushed_def lines_at_def)
  qed
  have "drafts = map (\<lambda>k. \<lparr>kd_stationId = k, kd_lines = for_station k ?routed\<rparr>) (map fst m)"
    unfolding drafts_def using lines by (auto simp: case_prod_beta)
  moreover have "no_empty m" using pushed by (simp add: pushed_def no_empty_def)
  then have "list_all (\<lambda>d. kd_lines d \<noteq> []) drafts" by (auto simp: drafts_def no_empty_def list_all_iff case_prod_beta)
  moreover have "list_all good_item items" using push_items_total [of items "[]"] Inr by (auto simp: list_all_iff)
  ultimately show ?thesis using keys seen d by (simp add: run)
qed

end
