(* ===== verification/Menu_Selection.thy ===== *)
theory Menu_Selection
  imports Money
begin

text \<open>
  \<open>packages/domain/src/menu-selection.ts\<close>: the variant and the modifiers chosen for a menu item, what is
  wrong with them and what the unit costs. Messages of issues are dropped. The lemmas show that the
  issues are empty exactly for the selections the menu allows, and what those cost.
\<close>

record VariantDef =
  vd_id :: string
  vd_name :: string
  vd_price :: Paise

record ModifierOptionDef =
  mo_id :: string
  mo_name :: string
  mo_priceDelta :: Paise

record ModifierGroupDef =
  mg_id :: string
  mg_name :: string
  mg_minSelections :: number
  mg_maxSelections :: number
  mg_options :: "ModifierOptionDef list"

record SelectableItemDef =
  si_id :: string
  si_basePrice :: Paise
  si_variants :: "VariantDef list option"
  si_modifierGroups :: "ModifierGroupDef list option"

record ChosenModifiers =
  cm_groupId :: string
  cm_optionIds :: "string list"

record ItemSelection =
  sel_variantId :: "string option"
  sel_modifiers :: "ChosenModifiers list option"

datatype SelectionIssueCode =
    VARIANT_REQUIRED
  | UNKNOWN_VARIANT
  | VARIANT_NOT_APPLICABLE
  | UNKNOWN_MODIFIER_GROUP
  | UNKNOWN_MODIFIER_OPTION
  | DUPLICATE_MODIFIER_OPTION
  | DUPLICATE_MODIFIER_GROUP
  | TOO_FEW_MODIFIERS
  | TOO_MANY_MODIFIERS
  | NEGATIVE_PRICE

record SelectionIssue =
  iss_code :: SelectionIssueCode
  iss_groupId :: "string option"
  iss_optionId :: "string option"

definition issue :: "SelectionIssueCode \<Rightarrow> string option \<Rightarrow> string option \<Rightarrow> SelectionIssue" where
  "issue c g opt = \<lparr>iss_code = c, iss_groupId = g, iss_optionId = opt\<rparr>"

definition list_or_empty :: "'a list option \<Rightarrow> 'a list" where
  "list_or_empty xs = (case xs of None \<Rightarrow> [] | Some ys \<Rightarrow> ys)"

text \<open>The price to start from, with the issues found.\<close>

definition basePriceFor :: "SelectableItemDef \<Rightarrow> ItemSelection \<Rightarrow> Paise \<times> SelectionIssue list" where
  "basePriceFor i selection =
     (let variants = list_or_empty (si_variants i)
      in if variants = [] then
           (si_basePrice i, if sel_variantId selection \<noteq> None then [issue VARIANT_NOT_APPLICABLE None None] else [])
         else
           (case sel_variantId selection of
              None \<Rightarrow> (si_basePrice i, [issue VARIANT_REQUIRED None None])
            | Some v \<Rightarrow>
                (case find (\<lambda>candidate. vd_id candidate = v) variants of
                   None \<Rightarrow> (si_basePrice i, [issue UNKNOWN_VARIANT None None])
                 | Some variant \<Rightarrow> (vd_price variant, []))))"

text \<open>The first loop: what was chosen, by group.\<close>

fun choose_groups ::
  "ModifierGroupDef list \<Rightarrow> ChosenModifiers list \<Rightarrow> (string \<times> string list) list \<Rightarrow> SelectionIssue list \<Rightarrow>
     (string \<times> string list) list \<times> SelectionIssue list" where
  "choose_groups groups [] chosenByGroup issues = (chosenByGroup, issues)"
| "choose_groups groups (entry # entries) chosenByGroup issues =
     (if map_of chosenByGroup (cm_groupId entry) \<noteq> None
      then choose_groups groups entries chosenByGroup (issues @ [issue DUPLICATE_MODIFIER_GROUP (Some (cm_groupId entry)) None])
      else if \<not> list_ex (\<lambda>g. mg_id g = cm_groupId entry) groups
      then choose_groups groups entries chosenByGroup (issues @ [issue UNKNOWN_MODIFIER_GROUP (Some (cm_groupId entry)) None])
      else choose_groups groups entries (map_set (cm_groupId entry) (cm_optionIds entry) chosenByGroup) issues)"

text \<open>The loop over the options of one group; \<open>unique\<close> is the set of the options seen.\<close>

fun choose_options ::
  "ModifierGroupDef \<Rightarrow> string list \<Rightarrow> string list \<Rightarrow> SelectionIssue list \<Rightarrow> number \<Rightarrow> string list \<times> SelectionIssue list \<times> number" where
  "choose_options g [] unique issues unitPrice = (unique, issues, unitPrice)"
| "choose_options g (optionId # optionIds) unique issues unitPrice =
     (if optionId \<in> set unique
      then choose_options g optionIds unique (issues @ [issue DUPLICATE_MODIFIER_OPTION (Some (mg_id g)) (Some optionId)]) unitPrice
      else
        (case find (\<lambda>candidate. mo_id candidate = optionId) (mg_options g) of
           None \<Rightarrow> choose_options g optionIds (unique @ [optionId])
                     (issues @ [issue UNKNOWN_MODIFIER_OPTION (Some (mg_id g)) (Some optionId)]) unitPrice
         | Some opt \<Rightarrow> choose_options g optionIds (unique @ [optionId]) issues (js_add unitPrice (mo_priceDelta opt))))"

fun check_groups ::
  "ModifierGroupDef list \<Rightarrow> (string \<times> string list) list \<Rightarrow> SelectionIssue list \<Rightarrow> number \<Rightarrow> SelectionIssue list \<times> number" where
  "check_groups [] chosenByGroup issues unitPrice = (issues, unitPrice)"
| "check_groups (g # groups) chosenByGroup issues unitPrice =
     (case choose_options g (list_or_empty (map_of chosenByGroup (mg_id g))) [] issues unitPrice of
        (unique, found, price) \<Rightarrow>
          check_groups groups chosenByGroup
            (found @
             (if int (length unique) < mg_minSelections g then [issue TOO_FEW_MODIFIERS (Some (mg_id g)) None] else []) @
             (if mg_maxSelections g < int (length unique) then [issue TOO_MANY_MODIFIERS (Some (mg_id g)) None] else []))
            price)"

definition evaluate :: "SelectableItemDef \<Rightarrow> ItemSelection \<Rightarrow> SelectionIssue list \<times> number" where
  "evaluate i selection =
     (let groups = list_or_empty (si_modifierGroups i);
          (base, issues) = basePriceFor i selection;
          (chosenByGroup, issues) = choose_groups groups (list_or_empty (sel_modifiers selection)) [] issues;
          (issues, unitPrice) = check_groups groups chosenByGroup issues base
      in (if unitPrice < 0 then issues @ [issue NEGATIVE_PRICE None None] else issues, unitPrice))"

definition validateSelection :: "SelectableItemDef \<Rightarrow> ItemSelection \<Rightarrow> SelectionIssue list" where
  "validateSelection i selection = fst (evaluate i selection)"

definition unitPriceOf :: "SelectableItemDef \<Rightarrow> ItemSelection \<Rightarrow> Paise result" where
  "unitPriceOf i selection =
     (case evaluate i selection of
        (issues, unitPrice) \<Rightarrow>
          if issues \<noteq> [] then Inl INVALID_SELECTION
          else bindE (assertPaise unitPrice False) (\<lambda>_. Inr unitPrice))"

section \<open>What the menu allows\<close>

text \<open>The options chosen for a group.\<close>

definition options_of :: "ItemSelection \<Rightarrow> ModifierGroupDef \<Rightarrow> string list" where
  "options_of selection g =
     list_or_empty (map_of (map (\<lambda>c. (cm_groupId c, cm_optionIds c)) (list_or_empty (sel_modifiers selection))) (mg_id g))"

definition variant_ok :: "SelectableItemDef \<Rightarrow> ItemSelection \<Rightarrow> bool" where
  "variant_ok i selection \<longleftrightarrow>
     (if list_or_empty (si_variants i) = [] then sel_variantId selection = None
      else \<exists>v \<in> set (list_or_empty (si_variants i)). sel_variantId selection = Some (vd_id v))"

definition known_option :: "ModifierGroupDef \<Rightarrow> string \<Rightarrow> bool" where
  "known_option g opt \<longleftrightarrow> (\<exists>candidate \<in> set (mg_options g). mo_id candidate = opt)"

definition group_ok :: "ModifierGroupDef \<Rightarrow> string list \<Rightarrow> bool" where
  "group_ok g opts \<longleftrightarrow> distinct opts \<and> (\<forall>opt \<in> set opts. known_option g opt) \<and>
     mg_minSelections g \<le> int (length opts) \<and> int (length opts) \<le> mg_maxSelections g"

definition groups_known :: "SelectableItemDef \<Rightarrow> ItemSelection \<Rightarrow> bool" where
  "groups_known i selection \<longleftrightarrow>
     distinct (map cm_groupId (list_or_empty (sel_modifiers selection))) \<and>
     (\<forall>c \<in> set (list_or_empty (sel_modifiers selection)).
        \<exists>g \<in> set (list_or_empty (si_modifierGroups i)). mg_id g = cm_groupId c)"

definition delta :: "ModifierGroupDef \<Rightarrow> string \<Rightarrow> number" where
  "delta g opt = (case find (\<lambda>candidate. mo_id candidate = opt) (mg_options g) of None \<Rightarrow> 0 | Some x \<Rightarrow> mo_priceDelta x)"

definition deltas :: "SelectableItemDef \<Rightarrow> ItemSelection \<Rightarrow> number list" where
  "deltas i selection =
     concat (map (\<lambda>g. map (delta g) (options_of selection g)) (list_or_empty (si_modifierGroups i)))"

definition price_of_selection :: "SelectableItemDef \<Rightarrow> ItemSelection \<Rightarrow> number" where
  "price_of_selection i selection = js_total (fst (basePriceFor i selection)) (deltas i selection)"

lemma js_total_append: "js_total t (xs @ ys) = js_total (js_total t xs) ys"
  by (induction xs arbitrary: t) simp_all

lemma find_None_known: "find (\<lambda>candidate. mo_id candidate = opt) (mg_options g) = None \<longleftrightarrow> \<not> known_option g opt"
  by (auto simp: find_None_iff known_option_def)

lemma basePriceFor_issues: "snd (basePriceFor i selection) = [] \<longleftrightarrow> variant_ok i selection"
  by (auto simp: basePriceFor_def variant_ok_def Let_def find_None_iff find_Some_iff split: option.splits)

lemma choose_groups_issues:
  "snd (choose_groups groups entries m issues) = [] \<longleftrightarrow>
     issues = [] \<and> distinct (map cm_groupId entries) \<and>
     (\<forall>c \<in> set entries. map_of m (cm_groupId c) = None \<and> (\<exists>g \<in> set groups. mg_id g = cm_groupId c))"
  by (induction entries arbitrary: m issues) (auto simp: list_ex_iff, metis image_eqI)

lemma choose_groups_lookup:
  "snd (choose_groups groups entries m issues) = [] \<Longrightarrow>
     map_of (fst (choose_groups groups entries m issues)) k =
     (case map_of m k of Some v \<Rightarrow> Some v | None \<Rightarrow> map_of (map (\<lambda>c. (cm_groupId c, cm_optionIds c)) entries) k)"
proof (induction entries arbitrary: m issues)
  case Nil
  then show ?case by (simp split: option.splits)
next
  case (Cons c entries)
  from Cons.prems have ok: "map_of m (cm_groupId c) = None" "list_ex (\<lambda>g. mg_id g = cm_groupId c) groups"
    unfolding choose_groups_issues by (auto simp: list_ex_iff)
  then have step: "choose_groups groups (c # entries) m issues =
      choose_groups groups entries (map_set (cm_groupId c) (cm_optionIds c) m) issues" by simp
  show ?case
    using Cons.IH [of "map_set (cm_groupId c) (cm_optionIds c) m" issues] Cons.prems ok(1)
    unfolding step by (auto split: option.splits)
qed

lemma choose_options_spec:
  "fst (snd (choose_options g opts unique issues price)) = [] \<longleftrightarrow>
     issues = [] \<and> distinct opts \<and> set opts \<inter> set unique = {} \<and> (\<forall>opt \<in> set opts. known_option g opt)"
proof (induction opts arbitrary: unique issues price)
  case Nil
  then show ?case by simp
next
  case (Cons opt opts)
  show ?case
  proof (cases "opt \<in> set unique")
    case True
    then show ?thesis using Cons.IH [of unique "issues @ [issue DUPLICATE_MODIFIER_OPTION (Some (mg_id g)) (Some opt)]"] by simp
  next
    case fresh: False
    show ?thesis
    proof (cases "find (\<lambda>candidate. mo_id candidate = opt) (mg_options g)")
      case None
      then show ?thesis using fresh Cons.IH [of "unique @ [opt]" "issues @ [issue UNKNOWN_MODIFIER_OPTION (Some (mg_id g)) (Some opt)]"]
        find_None_known [of opt g] by simp
    next
      case (Some found)
      then have "known_option g opt" using find_None_known [of opt g] by simp
      then show ?thesis using fresh Some Cons.IH [of "unique @ [opt]" issues "js_add price (mo_priceDelta found)"] by auto
    qed
  qed
qed

lemma choose_options_result:
  assumes "distinct opts" "set opts \<inter> set unique = {}" "\<forall>opt \<in> set opts. known_option g opt"
  shows "choose_options g opts unique issues price = (unique @ opts, issues, js_total price (map (delta g) opts))"
  using assms
proof (induction opts arbitrary: unique price)
  case Nil
  then show ?case by simp
next
  case (Cons opt opts)
  then have "find (\<lambda>candidate. mo_id candidate = opt) (mg_options g) \<noteq> None" using find_None_known [of opt g] by simp
  then obtain found where found: "find (\<lambda>candidate. mo_id candidate = opt) (mg_options g) = Some found" by blast
  then show ?case using Cons by (simp add: delta_def)
qed

lemma check_groups_issues:
  "fst (check_groups groups m issues price) = [] \<longleftrightarrow>
     issues = [] \<and> (\<forall>g \<in> set groups. group_ok g (list_or_empty (map_of m (mg_id g))))"
proof (induction groups arbitrary: issues price)
  case Nil
  then show ?case by simp
next
  case (Cons g groups)
  let ?opts = "list_or_empty (map_of m (mg_id g))"
  obtain unique found price' where run: "choose_options g ?opts [] issues price = (unique, found, price')" by (metis prod_cases3)
  have found: "found = [] \<longleftrightarrow> issues = [] \<and> distinct ?opts \<and> (\<forall>opt \<in> set ?opts. known_option g opt)"
    using choose_options_spec [of g ?opts "[]" issues price] run by simp
  have "unique = ?opts" if "found = []"
    using choose_options_result [of ?opts "[]" g issues price] run found that by simp
  then show ?case using Cons.IH run found by (auto simp: group_ok_def)
qed

lemma check_groups_price:
  assumes "\<forall>g \<in> set groups. group_ok g (list_or_empty (map_of m (mg_id g)))"
  shows "snd (check_groups groups m issues price) =
    js_total price (concat (map (\<lambda>g. map (delta g) (list_or_empty (map_of m (mg_id g)))) groups))"
  using assms
proof (induction groups arbitrary: issues price)
  case Nil
  then show ?case by simp
next
  case (Cons g groups)
  then have "group_ok g (list_or_empty (map_of m (mg_id g)))" by simp
  then have "choose_options g (list_or_empty (map_of m (mg_id g))) [] issues price =
      (list_or_empty (map_of m (mg_id g)), issues, js_total price (map (delta g) (list_or_empty (map_of m (mg_id g)))))"
    using choose_options_result [of "list_or_empty (map_of m (mg_id g))" "[]"] by (simp add: group_ok_def)
  then show ?case using Cons by (simp add: js_total_append)
qed

lemma selection_exact:
  "(validateSelection i selection = [] \<longleftrightarrow>
      variant_ok i selection \<and> groups_known i selection \<and>
      list_all (\<lambda>g. group_ok g (options_of selection g)) (list_or_empty (si_modifierGroups i)) \<and>
      0 \<le> price_of_selection i selection) \<and>
   (unitPriceOf i selection = Inr p \<longleftrightarrow>
      validateSelection i selection = [] \<and> p = price_of_selection i selection \<and> isSafeInteger p)"
proof -
  let ?groups = "list_or_empty (si_modifierGroups i)" and ?entries = "list_or_empty (sel_modifiers selection)"
  obtain base issues where base: "basePriceFor i selection = (base, issues)" by fastforce
  obtain m chosen_issues where m: "choose_groups ?groups ?entries [] issues = (m, chosen_issues)" by fastforce
  obtain all_issues price where price: "check_groups ?groups m chosen_issues base = (all_issues, price)" by fastforce
  have run: "evaluate i selection = (if price < 0 then all_issues @ [issue NEGATIVE_PRICE None None] else all_issues, price)"
    by (simp add: evaluate_def Let_def base m price)
  have chosen: "chosen_issues = [] \<longleftrightarrow> variant_ok i selection \<and> groups_known i selection"
    using choose_groups_issues [of ?groups ?entries "[]" issues] basePriceFor_issues [of i selection] m base
    by (auto simp: groups_known_def)
  have opts: "list_or_empty (map_of m (mg_id g)) = options_of selection g" if "chosen_issues = []" for g
    using choose_groups_lookup [of ?groups ?entries "[]" issues "mg_id g"] m that by (simp add: options_of_def)
  have all: "all_issues = [] \<longleftrightarrow> variant_ok i selection \<and> groups_known i selection \<and>
      \<not> (\<exists>g \<in> set ?groups. \<not> group_ok g (options_of selection g))"
    using check_groups_issues [of ?groups m chosen_issues base] price chosen opts by auto
  have unit_price: "price = price_of_selection i selection" if none: "all_issues = []"
  proof -
    have c: "chosen_issues = []" using check_groups_issues [of ?groups m chosen_issues base] price none by simp
    have "\<forall>g \<in> set ?groups. group_ok g (list_or_empty (map_of m (mg_id g)))"
      using check_groups_issues [of ?groups m chosen_issues base] price none by simp
    from check_groups_price [OF this, of chosen_issues base] show ?thesis
      using price opts [OF c] by (simp add: price_of_selection_def deltas_def base)
  qed
  have first: "validateSelection i selection = [] \<longleftrightarrow> all_issues = [] \<and> 0 \<le> price"
    by (auto simp: validateSelection_def run)
  moreover have "unitPriceOf i selection = Inr p \<longleftrightarrow> validateSelection i selection = [] \<and> p = price \<and> isSafeInteger p"
    using first by (auto simp: unitPriceOf_def validateSelection_def run bindE_Inr_iff results)
  ultimately show ?thesis using all unit_price by (auto simp: list_all_iff)
qed

text \<open>
  The checks on a selection are exactly the rules of the menu. There is no issue exactly when the
  variant is one of the item's (and there is none when it has none), every group sent is one of the
  item's and sent once, every group has between its least and most options, each of them its own and
  chosen once, and the price is not negative; the unit price is then the variant's or base price with
  the change of every chosen option, in one order whatever order they were sent in.
\<close>

lemma validateSelection_iff:
  "(validateSelection i selection = [] \<longleftrightarrow>
      variant_ok i selection \<and> groups_known i selection \<and>
      list_all (\<lambda>g. group_ok g (options_of selection g)) (list_or_empty (si_modifierGroups i)) \<and>
      0 \<le> price_of_selection i selection) \<and>
   (unitPriceOf i selection = Inr p \<longleftrightarrow>
      validateSelection i selection = [] \<and> p = price_of_selection i selection \<and> isSafeInteger p)"
  by (rule selection_exact)

end
