(* ===== verification/Lockout.thy ===== *)
theory Lockout
  imports Prelude
begin

text \<open>
  \<open>packages/domain/src/lockout.ts\<close>: counting wrong PINs and passwords. Times are milliseconds, the
  limits whole numbers. The lemmas bound how many secrets can be tried without a lock.
\<close>

record LockoutPolicy =
  lp_maxFailures :: int
  lp_windowMinutes :: int
  lp_lockMinutes :: int

record FailureCount =
  fc_failures :: int
  fc_windowStartedAt :: "int option"

record CountedFailure = FailureCount +
  cf_lockedUntil :: "int option"
  cf_left :: int

definition in_window :: "FailureCount \<Rightarrow> int \<Rightarrow> LockoutPolicy \<Rightarrow> bool" where
  "in_window cnt now policy =
     (case fc_windowStartedAt cnt of None \<Rightarrow> False | Some s \<Rightarrow> now - s < lp_windowMinutes policy * 60000)"

definition countFailure :: "FailureCount \<Rightarrow> int \<Rightarrow> LockoutPolicy \<Rightarrow> CountedFailure" where
  "countFailure cnt now policy =
     (let inWindow = in_window cnt now policy;
          failures = (if inWindow then fc_failures cnt + 1 else 1)
      in if lp_maxFailures policy \<le> failures
         then \<lparr>fc_failures = 0, fc_windowStartedAt = None,
               cf_lockedUntil = Some (now + lp_lockMinutes policy * 60000), cf_left = 0\<rparr>
         else \<lparr>fc_failures = failures, fc_windowStartedAt = (if inWindow then fc_windowStartedAt cnt else Some now),
               cf_lockedUntil = None, cf_left = lp_maxFailures policy - failures\<rparr>)"

definition isLockedAt :: "int option \<Rightarrow> int \<Rightarrow> bool" where
  "isLockedAt lockedUntil now = (case lockedUntil of None \<Rightarrow> False | Some t \<Rightarrow> now < t)"

section \<open>Guessing\<close>

text \<open>The count after wrong secrets at these times, or nothing when one of them locked.\<close>

fun guesses :: "LockoutPolicy \<Rightarrow> FailureCount \<Rightarrow> int list \<Rightarrow> FailureCount option" where
  "guesses policy cnt [] = Some cnt"
| "guesses policy cnt (now # later) =
     (let c = countFailure cnt now policy
      in if cf_lockedUntil c \<noteq> None then None
         else guesses policy \<lparr>fc_failures = fc_failures c, fc_windowStartedAt = fc_windowStartedAt c\<rparr> later)"

lemma guess_step:
  "guesses policy cnt (now # later) =
     (let f = (if in_window cnt now policy then fc_failures cnt + 1 else 1)
      in if lp_maxFailures policy \<le> f then None
         else guesses policy \<lparr>fc_failures = f,
                fc_windowStartedAt = (if in_window cnt now policy then fc_windowStartedAt cnt else Some now)\<rparr> later)"
  by (simp add: countFailure_def Let_def)

lemma guesses_in_window:
  assumes "\<forall>t \<in> set later. t - s < lp_windowMinutes policy * 60000"
  shows "guesses policy \<lparr>fc_failures = f, fc_windowStartedAt = Some s\<rparr> later =
    (if later = [] \<or> f + int (length later) < lp_maxFailures policy
     then Some \<lparr>fc_failures = f + int (length later), fc_windowStartedAt = Some s\<rparr> else None)"
  using assms
proof (induction later arbitrary: f)
  case Nil
  then show ?case by simp
next
  case (Cons t later)
  have "in_window \<lparr>fc_failures = f, fc_windowStartedAt = Some s\<rparr> t policy" using Cons.prems by (simp add: in_window_def)
  then show ?case using Cons.IH [of "f + 1"] Cons.prems
    by (auto simp: guess_step Let_def simp del: guesses.simps(2))
qed

lemma guesses_bound:
  assumes "guesses policy cnt later = Some c" "0 \<le> fc_failures cnt" "fc_failures cnt < lp_maxFailures policy"
    and "sorted later" "\<forall>t \<in> set later. t - hd later < lp_windowMinutes policy * 60000"
  shows "int (length later) \<le> (lp_maxFailures policy - 1 - fc_failures cnt) + (lp_maxFailures policy - 1)"
proof -
  have main: "int (length later) \<le> (lp_maxFailures policy - 1 - fc_failures cnt) + (lp_maxFailures policy - 1)"
    if "guesses policy cnt later = Some c" "0 \<le> fc_failures cnt" "fc_failures cnt < lp_maxFailures policy" "sorted later"
      "\<forall>t \<in> set later. a \<le> t \<and> t - a < lp_windowMinutes policy * 60000" for a
    using that
  proof (induction later arbitrary: cnt)
    case Nil
    then show ?case by simp
  next
    case (Cons t later)
    show ?case
    proof (cases "in_window cnt t policy")
      case True
      then have "guesses policy \<lparr>fc_failures = fc_failures cnt + 1, fc_windowStartedAt = fc_windowStartedAt cnt\<rparr> later = Some c"
        and "fc_failures cnt + 1 < lp_maxFailures policy"
        using Cons.prems(1) by (auto simp: guess_step Let_def split: if_splits simp del: guesses.simps(2))
      from Cons.IH [OF this(1)] this(2) Cons.prems show ?thesis by simp
    next
      case False
      then have run: "guesses policy \<lparr>fc_failures = 1, fc_windowStartedAt = Some t\<rparr> later = Some c"
        and max1: "1 < lp_maxFailures policy"
        using Cons.prems(1) by (auto simp: guess_step Let_def split: if_splits simp del: guesses.simps(2))
      have "\<forall>u \<in> set later. u - t < lp_windowMinutes policy * 60000" using Cons.prems(5) by fastforce
      from guesses_in_window [OF this, of 1] run have "later = [] \<or> 1 + int (length later) < lp_maxFailures policy"
        by (auto split: if_splits)
      then show ?thesis using Cons.prems(3) max1 by auto
    qed
  qed
  have "\<forall>t \<in> set later. hd later \<le> t" using assms(4) by (cases later) auto
  with main [of "hd later"] assms show ?thesis by blast
qed

text \<open>
  C37: guessing is bounded. From a fresh count, as many wrong secrets in one window as the policy
  allows lock, and not before; and whatever the count is, between two locks at most twice one less
  than the limit can be tried within the time of one window.
\<close>

theorem countFailure_bounds_guessing:
  assumes "0 \<le> fc_failures cnt" "fc_failures cnt < lp_maxFailures policy" "sorted attempts" "attempts \<noteq> []"
    and "\<forall>t \<in> set attempts. t - hd attempts < lp_windowMinutes policy * 60000" "0 < lp_windowMinutes policy"
  shows "(guesses policy cnt attempts \<noteq> None \<longrightarrow> int (length attempts) \<le> 2 * (lp_maxFailures policy - 1)) \<and>
    (guesses policy \<lparr>fc_failures = 0, fc_windowStartedAt = None\<rparr> attempts = None \<longleftrightarrow>
       lp_maxFailures policy \<le> int (length attempts))"
proof -
  obtain t later where later: "attempts = t # later" using assms(4) by (cases attempts) auto
  have fresh: "guesses policy \<lparr>fc_failures = 0, fc_windowStartedAt = None\<rparr> attempts =
      (if lp_maxFailures policy \<le> 1 then None else guesses policy \<lparr>fc_failures = 1, fc_windowStartedAt = Some t\<rparr> later)"
    unfolding later by (simp add: guess_step in_window_def Let_def del: guesses.simps(2))
  have within: "\<forall>u \<in> set later. u - t < lp_windowMinutes policy * 60000" using assms(5) later by simp
  have "int (length attempts) \<le> 2 * (lp_maxFailures policy - 1)" if run: "guesses policy cnt attempts \<noteq> None"
  proof -
    obtain c where "guesses policy cnt attempts = Some c" using run by blast
    from guesses_bound [OF this assms(1,2,3,5)] show ?thesis using assms(1) by simp
  qed
  moreover have "guesses policy \<lparr>fc_failures = 0, fc_windowStartedAt = None\<rparr> attempts = None \<longleftrightarrow>
      lp_maxFailures policy \<le> int (length attempts)"
    unfolding fresh guesses_in_window [OF within, of 1] by (auto simp: later)
  ultimately show ?thesis by blast
qed

theorem countFailure_bounds_guessing_witness:
  "guesses \<lparr>lp_maxFailures = 5, lp_windowMinutes = 15, lp_lockMinutes = 15\<rparr> \<lparr>fc_failures = 0, fc_windowStartedAt = None\<rparr>
     [0, 1000, 2000, 3000, 4000] = None"
  using countFailure_bounds_guessing [of "\<lparr>fc_failures = 0, fc_windowStartedAt = None\<rparr>"
      "\<lparr>lp_maxFailures = 5, lp_windowMinutes = 15, lp_lockMinutes = 15\<rparr>" "[0, 1000, 2000, 3000, 4000]"]
  by simp

end
