(* ===== verification/Gstin.thy ===== *)
theory Gstin
  imports Text JsNumber
begin

text \<open>
  \<open>packages/domain/src/gstin.ts\<close>: the format, state code and check character of a GSTIN. The lemmas
  show which typing errors the check character finds.
\<close>

definition CHARACTERS :: string where
  "CHARACTERS = ''0123456789ABCDEFGHIJKLMNOPQRSTUVWXYZ''"

definition GSTIN_PATTERN :: "string \<Rightarrow> bool" where
  "GSTIN_PATTERN s \<longleftrightarrow> length s = 15 \<and> list_all is_digit_char (take 2 s) \<and>
     list_all is_upper_char (take 5 (drop 2 s)) \<and> list_all is_digit_char (take 4 (drop 7 s)) \<and>
     is_upper_char (s ! 11) \<and> ((is_digit_char (s ! 12) \<and> s ! 12 \<noteq> CHR ''0'') \<or> is_upper_char (s ! 12)) \<and>
     s ! 13 = CHR ''Z'' \<and> (is_digit_char (s ! 14) \<or> is_upper_char (s ! 14))"

definition GST_STATE_CODES :: "(string \<times> string) list" where
  "GST_STATE_CODES =
     [(''01'', ''Jammu and Kashmir''),
      (''02'', ''Himachal Pradesh''),
      (''03'', ''Punjab''),
      (''04'', ''Chandigarh''),
      (''05'', ''Uttarakhand''),
      (''06'', ''Haryana''),
      (''07'', ''Delhi''),
      (''08'', ''Rajasthan''),
      (''09'', ''Uttar Pradesh''),
      (''10'', ''Bihar''),
      (''11'', ''Sikkim''),
      (''12'', ''Arunachal Pradesh''),
      (''13'', ''Nagaland''),
      (''14'', ''Manipur''),
      (''15'', ''Mizoram''),
      (''16'', ''Tripura''),
      (''17'', ''Meghalaya''),
      (''18'', ''Assam''),
      (''19'', ''West Bengal''),
      (''20'', ''Jharkhand''),
      (''21'', ''Odisha''),
      (''22'', ''Chhattisgarh''),
      (''23'', ''Madhya Pradesh''),
      (''24'', ''Gujarat''),
      (''25'', ''Daman and Diu (before 2020)''),
      (''26'', ''Dadra and Nagar Haveli and Daman and Diu''),
      (''27'', ''Maharashtra''),
      (''28'', ''Andhra Pradesh (before 2014)''),
      (''29'', ''Karnataka''),
      (''30'', ''Goa''),
      (''31'', ''Lakshadweep''),
      (''32'', ''Kerala''),
      (''33'', ''Tamil Nadu''),
      (''34'', ''Puducherry''),
      (''35'', ''Andaman and Nicobar Islands''),
      (''36'', ''Telangana''),
      (''37'', ''Andhra Pradesh''),
      (''38'', ''Ladakh''),
      (''97'', ''Other Territory'')]"

text \<open>\<open>CHARACTERS.indexOf(c)\<close>; an empty text is found at 0.\<close>

definition index_of :: "char option \<Rightarrow> int" where
  "index_of c =
     (case c of
        None \<Rightarrow> 0
      | Some d \<Rightarrow> if d \<in> set CHARACTERS then int (length (takeWhile (\<lambda>x. x \<noteq> d) CHARACTERS)) else -1)"

definition char_at :: "string \<Rightarrow> nat \<Rightarrow> char option" where
  "char_at s i = (if i < length s then Some (s ! i) else None)"

text \<open>\<open>a % b\<close> takes the sign of \<open>a\<close>.\<close>

definition js_rem :: "int \<Rightarrow> int \<Rightarrow> int" where
  "js_rem a b = (if 0 \<le> a then a mod b else - ((- a) mod b))"

definition check_term :: "string \<Rightarrow> nat \<Rightarrow> int" where
  "check_term first14 i =
     (let product = index_of (char_at first14 i) * (if i mod 2 = 0 then 1 else 2)
      in product div 36 + js_rem product 36)"

definition gstinCheckCharacter :: "string \<Rightarrow> char option" where
  "gstinCheckCharacter first14 =
     (let s = sum_list (map (check_term first14) [0..<14])
      in char_at CHARACTERS (nat (js_rem (36 - js_rem s 36) 36)))"

datatype GstinProblem = FORMAT | STATE_CODE | CHECKSUM

definition gstinProblem :: "string \<Rightarrow> GstinProblem option" where
  "gstinProblem gstin =
     (if \<not> GSTIN_PATTERN gstin then Some FORMAT
      else if map_of GST_STATE_CODES (take 2 gstin) = None then Some STATE_CODE
      else if gstinCheckCharacter (take 14 gstin) \<noteq> char_at gstin 14 then Some CHECKSUM
      else None)"

definition isValidGstin :: "string \<Rightarrow> bool" where
  "isValidGstin gstin = (gstinProblem gstin = None)"

definition normaliseGstin :: "string \<Rightarrow> string" where
  "normaliseGstin input = filter (\<lambda>c. \<not> is_ws_char c) (toUpperCase input)"

section \<open>The check character\<close>

text \<open>The value of a character and what it adds to the sum at an even or an odd place.\<close>

definition char_value :: "char \<Rightarrow> int" where
  "char_value c = index_of (Some c)"

definition weigh :: "nat \<Rightarrow> int \<Rightarrow> int" where
  "weigh i v = (if i mod 2 = 0 then v else (2 * v) div 36 + (2 * v) mod 36)"

lemma index_within: "c \<in> set xs \<Longrightarrow> length (takeWhile (\<lambda>x. x \<noteq> c) xs) < length xs"
  by (induction xs) auto

lemma char_value_bounds: "c \<in> set CHARACTERS \<Longrightarrow> 0 \<le> char_value c \<and> char_value c < 36"
proof -
  assume "c \<in> set CHARACTERS"
  then have "length (takeWhile (\<lambda>x. x \<noteq> c) CHARACTERS) < length CHARACTERS"
    by (rule index_within)
  moreover have "length CHARACTERS = 36" by code_simp
  ultimately show ?thesis using \<open>c \<in> set CHARACTERS\<close> by (simp add: char_value_def index_of_def)
qed

lemma char_value_inj: "c \<in> set CHARACTERS \<Longrightarrow> d \<in> set CHARACTERS \<Longrightarrow> char_value c = char_value d \<Longrightarrow> c = d"
proof -
  assume c: "c \<in> set CHARACTERS" "d \<in> set CHARACTERS" "char_value c = char_value d"
  have nth: "CHARACTERS ! length (takeWhile (\<lambda>x. x \<noteq> e) CHARACTERS) = e" if "e \<in> set CHARACTERS" for e
    using nth_length_takeWhile [OF index_within [OF that]] by blast
  have "length (takeWhile (\<lambda>x. x \<noteq> c) CHARACTERS) = length (takeWhile (\<lambda>x. x \<noteq> d) CHARACTERS)"
    using c by (simp add: char_value_def index_of_def)
  then show "c = d" using nth [OF c(1)] nth [OF c(2)] by metis
qed

lemma check_term_weigh:
  "length s = 14 \<Longrightarrow> i < 14 \<Longrightarrow> set s \<subseteq> set CHARACTERS \<Longrightarrow> check_term s i = weigh i (char_value (s ! i))"
proof -
  assume "length s = 14" "i < 14" "set s \<subseteq> set CHARACTERS"
  then have "char_at s i = Some (s ! i)" "s ! i \<in> set CHARACTERS" by (auto simp: char_at_def)
  moreover note char_value_bounds [OF this(2)]
  ultimately show ?thesis
    by (auto simp: check_term_def weigh_def char_value_def js_rem_def Let_def mult.commute [of _ 2])
qed

lemma weigh_low: "0 \<le> v \<Longrightarrow> v < 18 \<Longrightarrow> (2 * v) div 36 + (2 * v) mod 36 = (2 * v :: int)"
  by (simp add: div_pos_pos_trivial mod_pos_pos_trivial)

lemma weigh_high: "18 \<le> v \<Longrightarrow> v < 36 \<Longrightarrow> (2 * v) div 36 + (2 * v) mod 36 = (2 * v - 35 :: int)"
proof -
  assume v: "18 \<le> v" "v < 36"
  have "(2 * v) div 36 = (2 * v - 36) div 36 + 1" "(2 * v) mod 36 = (2 * v - 36) mod 36"
    using v by (intro div_pos_geq mod_pos_geq; simp)+
  moreover have "(2 * v - 36) div 36 = 0" "(2 * v - 36) mod 36 = 2 * v - 36"
    using v by (intro div_pos_pos_trivial mod_pos_pos_trivial; simp)+
  ultimately show ?thesis by simp
qed

lemma weigh_bounds: "0 \<le> v \<Longrightarrow> v < 36 \<Longrightarrow> 0 \<le> weigh i v \<and> weigh i v < 36"
  using weigh_low [of v] weigh_high [of v] by (cases "v < 18") (auto simp: weigh_def)

lemma weigh_inj:
  assumes "0 \<le> v" "v < 36" "0 \<le> w" "w < 36" "weigh i v = weigh i w"
  shows "v = w"
proof (cases "i mod 2 = 0")
  case True
  then show ?thesis using assms(5) by (simp add: weigh_def)
next
  case False
  have odd: "2 * v \<noteq> 2 * w - 35" "2 * w \<noteq> 2 * v - 35" by presburger+
  show ?thesis
    using False assms odd weigh_low [of v] weigh_high [of v] weigh_low [of w] weigh_high [of w]
    by (cases "v < 18"; cases "w < 18") (auto simp: weigh_def)
qed

lemma small: "36 dvd k \<Longrightarrow> \<bar>k\<bar> < 36 \<Longrightarrow> k = (0 :: int)"
  by (auto dest: dvd_imp_le_int)

text \<open>Swapping two neighbours changes the sum, except for the characters worth 0 and 35.\<close>

lemma weigh_swap:
  assumes "0 \<le> v" "v < 36" "0 \<le> w" "w < 36"
    and "(weigh i v + weigh (Suc i) w) mod 36 = (weigh i w + weigh (Suc i) v) mod 36"
  shows "v = w \<or> (v = 0 \<and> w = 35) \<or> (v = 35 \<and> w = 0)"
proof -
  define g where "g = (\<lambda>x. (2 * x) div 36 + (2 * x) mod (36 :: int))"
  have weigh: "weigh j x = (if j mod 2 = 0 then x else g x)" for j x by (simp only: weigh_def g_def)
  have "(v - g v) mod 36 = (w - g w) mod 36"
  proof (cases "i mod 2 = 0")
    case True
    then have "Suc i mod 2 \<noteq> 0" by (simp add: mod_Suc)
    with True have "(v + g w) mod 36 = (w + g v) mod 36" using assms(5) by (simp only: weigh if_True if_False simp_thms)
    then have "36 dvd (v + g w) - (w + g v)" by (simp add: mod_eq_dvd_iff)
    then show ?thesis by (simp add: mod_eq_dvd_iff algebra_simps)
  next
    case False
    then have "Suc i mod 2 = 0" by (simp add: mod_Suc split: if_splits)
    with False have "(g v + w) mod 36 = (g w + v) mod 36" using assms(5) by (simp only: weigh if_True if_False simp_thms)
    then have "36 dvd (g v + w) - (g w + v)" by (simp add: mod_eq_dvd_iff)
    then have "36 dvd - ((g v + w) - (g w + v))" by (simp only: dvd_minus_iff)
    then show ?thesis by (simp add: mod_eq_dvd_iff algebra_simps)
  qed
  then have d: "36 dvd (v - g v) - (w - g w)" by (simp add: mod_eq_dvd_iff)
  have g_low: "x < 18 \<Longrightarrow> 0 \<le> x \<Longrightarrow> g x = 2 * x" and g_high: "18 \<le> x \<Longrightarrow> x < 36 \<Longrightarrow> g x = 2 * x - 35" for x
    unfolding g_def by (rule weigh_low; assumption) (rule weigh_high; assumption)
  have low: "x < 18 \<Longrightarrow> 0 \<le> x \<Longrightarrow> x - g x = - x" and high: "18 \<le> x \<Longrightarrow> x < 36 \<Longrightarrow> x - g x = 35 - x" for x
    using g_low [of x] g_high [of x] by simp_all
  consider "v < 18" "w < 18" | "v < 18" "18 \<le> w" | "18 \<le> v" "w < 18" | "18 \<le> v" "18 \<le> w" by linarith
  then show ?thesis
  proof cases
    case 1
    then have "36 dvd w - v" using d low assms by simp
    from small [OF this] show ?thesis using 1 assms by (simp add: abs_less_iff)
  next
    case 2
    then have "36 dvd - v - (35 - w)" using d low high assms by simp
    then obtain k where "- v - (35 - w) = 36 * k" by (rule dvdE)
    then have "w - v + 1 = 36 * (k + 1)" by simp
    then have "36 dvd w - v + 1" by simp
    moreover have "0 \<le> w - v + 1" "w - v + 1 \<le> 36" using 2 assms by simp_all
    ultimately show ?thesis using small [of "w - v + 1"] 2 assms by (cases "w - v + 1 = 36") auto
  next
    case 3
    then have "36 dvd (35 - v) + w" using d low high assms by simp
    then obtain k where "(35 - v) + w = 36 * k" by (rule dvdE)
    then have "v - w + 1 = 36 * (1 - k)" by simp
    then have "36 dvd v - w + 1" by simp
    moreover have "0 \<le> v - w + 1" "v - w + 1 \<le> 36" using 3 assms by simp_all
    ultimately show ?thesis using small [of "v - w + 1"] 3 assms by (cases "v - w + 1 = 36") auto
  next
    case 4
    then have "36 dvd w - v" using d high assms by simp
    from small [OF this] show ?thesis using 4 assms by (simp add: abs_less_iff)
  qed
qed

section \<open>Typing errors\<close>

definition check_sum :: "string \<Rightarrow> int" where
  "check_sum s = sum_list (map (\<lambda>i. weigh i (char_value (s ! i))) [0..<14])"

lemma check_sum_terms:
  assumes "length s = 14" "set s \<subseteq> set CHARACTERS"
  shows "sum_list (map (check_term s) [0..<14]) = check_sum s" "0 \<le> check_sum s"
proof -
  show "sum_list (map (check_term s) [0..<14]) = check_sum s"
    unfolding check_sum_def by (rule arg_cong [where f = sum_list], rule map_cong) (auto simp: check_term_weigh [OF assms(1) _ assms(2)])
  have "0 \<le> weigh i (char_value (s ! i))" if "i < 14" for i
    using weigh_bounds char_value_bounds assms that by (metis nth_mem subset_code(1))
  then show "0 \<le> check_sum s" unfolding check_sum_def by (intro sum_list_map_nonneg) auto
qed

lemma check_character_mod:
  assumes "length s = 14" "set s \<subseteq> set CHARACTERS" "length t = 14" "set t \<subseteq> set CHARACTERS"
    and "gstinCheckCharacter s = gstinCheckCharacter t"
  shows "check_sum s mod 36 = check_sum t mod 36"
proof -
  have char: "gstinCheckCharacter u = Some (CHARACTERS ! nat ((36 - check_sum u mod 36) mod 36))"
    if "length u = 14" "set u \<subseteq> set CHARACTERS" for u
  proof -
    have "0 \<le> check_sum u mod 36" "check_sum u mod 36 < 36" by simp_all
    moreover have "length CHARACTERS = 36" by code_simp
    moreover have "nat ((36 - check_sum u mod 36) mod 36) < 36" by (simp add: nat_less_iff)
    ultimately show ?thesis
      using check_sum_terms [OF that] by (simp add: gstinCheckCharacter_def Let_def js_rem_def char_at_def)
  qed
  have d: "distinct CHARACTERS" "length CHARACTERS = 36" by code_simp+
  have b: "nat ((36 - k mod 36) mod 36) < 36" for k :: int by (simp add: nat_less_iff)
  have "CHARACTERS ! nat ((36 - check_sum s mod 36) mod 36) = CHARACTERS ! nat ((36 - check_sum t mod 36) mod 36)"
    using assms(5) char [OF assms(1,2)] char [OF assms(3,4)] by simp
  then have "nat ((36 - check_sum s mod 36) mod 36) = nat ((36 - check_sum t mod 36) mod 36)"
    using nth_eq_iff_index_eq [OF d(1), of "nat ((36 - check_sum s mod 36) mod 36)" "nat ((36 - check_sum t mod 36) mod 36)"]
      b d(2) by simp
  then have "(36 - check_sum s mod 36) mod 36 = (36 - check_sum t mod 36) mod 36" by (simp add: eq_nat_nat_iff)
  then have "36 dvd (36 - check_sum s mod 36) - (36 - check_sum t mod 36)" by (simp only: mod_eq_dvd_iff)
  then have "36 dvd check_sum t mod 36 - check_sum s mod 36" by (simp add: algebra_simps)
  then have "check_sum t mod 36 mod 36 = check_sum s mod 36 mod 36" by (simp only: mod_eq_dvd_iff)
  then show ?thesis by simp
qed

lemma check_sum_update:
  assumes "length s = 14" "i < 14"
  shows "check_sum (s[i := c]) = check_sum s - weigh i (char_value (s ! i)) + weigh i (char_value c)"
proof -
  have terms: "map (\<lambda>j. weigh j (char_value (s[i := c] ! j))) [0..<14] =
      (map (\<lambda>j. weigh j (char_value (s ! j))) [0..<14])[i := weigh i (char_value c)]"
    using assms by (intro nth_equalityI) (auto simp: nth_list_update)
  have "sum_list (xs[k := (v :: int)]) = sum_list xs - xs ! k + v" if "k < length xs" for xs k v
    using sum_list_update_add [OF that, of "v - xs ! k"] by simp
  then show ?thesis unfolding check_sum_def terms using assms(2) by simp
qed

lemma pattern_characters:
  assumes "GSTIN_PATTERN s"
  shows "length (take 14 s) = 14" "set (take 14 s) \<subseteq> set CHARACTERS"
proof -
  show "length (take 14 s) = 14" using assms by (simp add: GSTIN_PATTERN_def)
  have alnum: "c \<in> set CHARACTERS" if "is_digit_char c \<or> is_upper_char c" for c
  proof -
    have "code c \<in> set (map of_char CHARACTERS)"
    proof -
      have "set (map of_char CHARACTERS) = {48..57} \<union> ({65..90} :: nat set)" by code_simp
      then show ?thesis using that by (simp only:) (auto simp: is_digit_char_def is_upper_char_def)
    qed
    then show ?thesis by auto
  qed
  obtain a b c d e f g h i j k l m n p where s: "s = [a, b, c, d, e, f, g, h, i, j, k, l, m, n, p]"
    using assms by (auto simp: GSTIN_PATTERN_def length_Suc_conv numeral_eq_Suc)
  have "is_digit_char x \<or> is_upper_char x" if "x \<in> set (take 14 s)" for x
  proof -
    have "is_upper_char CHR ''Z''" by code_simp
    then show ?thesis using assms that by (auto simp: GSTIN_PATTERN_def s)
  qed
  then show "set (take 14 s) \<subseteq> set CHARACTERS" using alnum by blast
qed

text \<open>
  The check character finds typing errors. Replacing any one of the first 14 characters of a valid
  GSTIN by another, or exchanging two different neighbours among them other than a 0 and a Z, never
  gives a valid GSTIN.
\<close>

lemma gstin_detects_errors:
  assumes "isValidGstin s" "i < 14" "c \<noteq> s ! i" "Suc j < 14" "s ! j \<noteq> s ! Suc j"
    and "{s ! j, s ! Suc j} \<noteq> {CHR ''0'', CHR ''Z''}"
  shows "\<not> isValidGstin (s[i := c]) \<and> \<not> isValidGstin (s[j := s ! Suc j, Suc j := s ! j])"
proof -
  let ?u = "take 14 s"
  have s: "GSTIN_PATTERN s" "gstinCheckCharacter ?u = char_at s 14" and len: "length s = 15"
    using assms(1) by (auto simp: isValidGstin_def gstinProblem_def GSTIN_PATTERN_def split: if_splits)
  note u = pattern_characters [OF s(1)]
  have same: "check_sum (take 14 t) mod 36 = check_sum ?u mod 36" "set (take 14 t) \<subseteq> set CHARACTERS"
    if "isValidGstin t" "t ! 14 = s ! 14" for t
  proof -
    have t: "GSTIN_PATTERN t" "gstinCheckCharacter (take 14 t) = char_at t 14"
      using that(1) by (auto simp: isValidGstin_def gstinProblem_def split: if_splits)
    then have "length t = 15" by (simp add: GSTIN_PATTERN_def)
    then have "gstinCheckCharacter (take 14 t) = gstinCheckCharacter ?u" using t(2) s(2) that(2) len by (simp add: char_at_def)
    from check_character_mod [OF pattern_characters [OF t(1)] u this]
    show "check_sum (take 14 t) mod 36 = check_sum ?u mod 36" .
    show "set (take 14 t) \<subseteq> set CHARACTERS" by (rule pattern_characters(2) [OF t(1)])
  qed
  have at: "?u ! k = s ! k" if "k < 14" for k using that by simp
  have mem: "s ! k \<in> set CHARACTERS" if "k < 14" for k using u(2) nth_mem [of k ?u] that u(1) by auto
  have "\<not> isValidGstin (s[i := c])"
  proof
    assume v: "isValidGstin (s[i := c])"
    note t = same [OF v]
    have take: "take 14 (s[i := c]) = ?u[i := c]" by (simp add: take_update_swap)
    have "c \<in> set CHARACTERS" using t(2) assms(2) len u(1) set_update_memI [of i ?u c] by (auto simp: take)
    then have cv: "0 \<le> char_value c" "char_value c < 36" using char_value_bounds by auto
    have sv: "0 \<le> char_value (s ! i)" "char_value (s ! i) < 36" using char_value_bounds [OF mem [OF assms(2)]] by auto
    have "check_sum (?u[i := c]) mod 36 = check_sum ?u mod 36" using t(1) assms(2) by (simp add: take)
    then have "36 dvd check_sum (?u[i := c]) - check_sum ?u" by (simp only: mod_eq_dvd_iff)
    then have "36 dvd weigh i (char_value c) - weigh i (char_value (s ! i))"
      unfolding check_sum_update [OF u(1) assms(2)] using at [OF assms(2)] by simp
    moreover have "\<bar>weigh i (char_value c) - weigh i (char_value (s ! i))\<bar> < 36"
      using weigh_bounds [OF cv, of i] weigh_bounds [OF sv, of i] by linarith
    ultimately have "weigh i (char_value c) - weigh i (char_value (s ! i)) = 0" by (rule small)
    then have "weigh i (char_value c) = weigh i (char_value (s ! i))" by simp
    then have "char_value c = char_value (s ! i)" by (rule weigh_inj [OF cv sv])
    then show False using char_value_inj [OF \<open>c \<in> set CHARACTERS\<close> mem [OF assms(2)]] assms(3) by simp
  qed
  moreover have "\<not> isValidGstin (s[j := s ! Suc j, Suc j := s ! j])"
  proof
    let ?t = "s[j := s ! Suc j, Suc j := s ! j]"
    assume v: "isValidGstin ?t"
    have j: "j < 14" using assms(4) by simp
    have take: "take 14 ?t = (?u[j := s ! Suc j])[Suc j := s ! j]" by (simp add: take_update_swap)
    have bounds: "0 \<le> char_value (s ! j)" "char_value (s ! j) < 36" "0 \<le> char_value (s ! Suc j)" "char_value (s ! Suc j) < 36"
      using char_value_bounds [OF mem [OF j]] char_value_bounds [OF mem [OF assms(4)]] by auto
    have "check_sum (take 14 ?t) = check_sum ?u - weigh j (char_value (s ! j)) + weigh j (char_value (s ! Suc j))
        - weigh (Suc j) (char_value (s ! Suc j)) + weigh (Suc j) (char_value (s ! j))"
      unfolding take using u(1) check_sum_update [OF u(1) j, of "s ! Suc j"]
        check_sum_update [of "?u[j := s ! Suc j]" "Suc j" "s ! j"] assms(4) by simp
    moreover have "check_sum (take 14 ?t) mod 36 = check_sum ?u mod 36" using same(1) [OF v] assms(4) by simp
    then have "36 dvd check_sum (take 14 ?t) - check_sum ?u" by (simp only: mod_eq_dvd_iff)
    moreover have "a - b + c - d + e - a = (c + e) - (b + d)" for a b c d e :: int by simp
    ultimately have "36 dvd (weigh j (char_value (s ! Suc j)) + weigh (Suc j) (char_value (s ! j)))
        - (weigh j (char_value (s ! j)) + weigh (Suc j) (char_value (s ! Suc j)))" by (simp only:)
    then have "(weigh j (char_value (s ! Suc j)) + weigh (Suc j) (char_value (s ! j))) mod 36 =
        (weigh j (char_value (s ! j)) + weigh (Suc j) (char_value (s ! Suc j))) mod 36" by (simp only: mod_eq_dvd_iff)
    from weigh_swap [OF bounds this [symmetric]]
    consider "char_value (s ! j) = char_value (s ! Suc j)" | "char_value (s ! j) = 0" "char_value (s ! Suc j) = 35"
      | "char_value (s ! j) = 35" "char_value (s ! Suc j) = 0" by blast
    moreover have zero: "char_value CHR ''0'' = 0" "char_value CHR ''Z'' = 35" "CHR ''0'' \<in> set CHARACTERS" "CHR ''Z'' \<in> set CHARACTERS"
      by code_simp+
    ultimately show False
      using char_value_inj [OF mem [OF j] mem [OF assms(4)]] char_value_inj [OF mem [OF j] zero(3)]
        char_value_inj [OF mem [OF j] zero(4)] char_value_inj [OF mem [OF assms(4)] zero(3)]
        char_value_inj [OF mem [OF assms(4)] zero(4)] assms(5,6) zero(1,2)
      by cases auto
  qed
  ultimately show ?thesis by blast
qed

theorem gstin_detects_errors_witness:
  "isValidGstin ''27AAPFU0939F1ZV'' \<and> \<not> isValidGstin (''27AAPFU0939F1ZV''[8 := CHR ''8''])"
proof -
  have v: "isValidGstin ''27AAPFU0939F1ZV''" by code_simp
  show ?thesis using gstin_detects_errors [OF v, of 8 "CHR ''8''" 8] v by (simp add: doubleton_eq_iff)
qed

end
