(* ===== verification/Order_Feed.thy ===== *)
theory Order_Feed
  imports Order_Item
begin

text \<open>
  \<open>packages/domain/src/order-feed.ts\<close>: the live order feed. Instants are milliseconds already read from
  their ISO text; minutes are whole numbers.
\<close>

definition LIVE_ITEM_STATES :: "OrderItemState list" where
  "LIVE_ITEM_STATES = [PENDING_APPROVAL, SENT, PREPARING, READY]"

definition isLiveItem :: "OrderItemState \<Rightarrow> bool" where
  "isLiveItem state = (state \<in> set LIVE_ITEM_STATES)"

record DelayThresholds =
  dt_ageRedMinutes :: int
  dt_readyNotCollectedMinutes :: int

record FeedItem =
  fi_state :: OrderItemState
  fi_sentAt :: "int option"
  fi_readyAt :: "int option"
  fi_prepTimeMinutes :: "int option"
  fi_stationId :: string

datatype ItemDelay = KITCHEN int int | PASS int int

definition MINUTE_MS :: int where
  "MINUTE_MS = 60000"

definition minutesSince :: "int \<Rightarrow> int \<Rightarrow> int" where
  "minutesSince at nowMs = max 0 ((nowMs - at) div MINUTE_MS)"

definition itemDelay :: "FeedItem \<Rightarrow> int \<Rightarrow> DelayThresholds \<Rightarrow> ItemDelay option" where
  "itemDelay i nowMs thresholds =
     (if (fi_state i = SENT \<or> fi_state i = PREPARING) \<and> fi_sentAt i \<noteq> None then
        let allowedMinutes = (case fi_prepTimeMinutes i of
              Some p \<Rightarrow> if 0 < p then p else dt_ageRedMinutes thresholds
            | None \<Rightarrow> dt_ageRedMinutes thresholds);
            minutes = minutesSince (the (fi_sentAt i)) nowMs
        in if allowedMinutes \<le> minutes then Some (KITCHEN minutes allowedMinutes) else None
      else if fi_state i = READY \<and> fi_readyAt i \<noteq> None then
        let allowedMinutes = dt_readyNotCollectedMinutes thresholds;
            minutes = minutesSince (the (fi_readyAt i)) nowMs
        in if allowedMinutes \<le> minutes then Some (PASS minutes allowedMinutes) else None
      else None)"

record FeedOrder =
  fo_source :: OrderSource
  fo_tableId :: "string option"
  fo_waiterId :: "string option"
  fo_items :: "FeedItem list"

record OrderFeedFilter =
  ff_stationId :: "string option"
  ff_waiterId :: "string option"
  ff_source :: "OrderSource option"
  ff_tableId :: "string option"
  ff_delayedOnly :: bool

text \<open>The items of an order a filter keeps, and the body of the loop over the orders.\<close>

definition kept_items :: "OrderFeedFilter \<Rightarrow> FeedOrder \<Rightarrow> FeedItem list" where
  "kept_items flt order =
     (case ff_stationId flt of
        None \<Rightarrow> fo_items order
      | Some station \<Rightarrow> filter (\<lambda>i. fi_stationId i = station) (fo_items order))"

definition keep_order :: "OrderFeedFilter \<Rightarrow> int \<Rightarrow> DelayThresholds \<Rightarrow> FeedOrder \<Rightarrow> FeedOrder option" where
  "keep_order flt nowMs thresholds order =
     (if ff_source flt \<noteq> None \<and> ff_source flt \<noteq> Some (fo_source order) then None
      else if ff_waiterId flt \<noteq> None \<and> fo_waiterId order \<noteq> ff_waiterId flt then None
      else if ff_tableId flt \<noteq> None \<and> fo_tableId order \<noteq> ff_tableId flt then None
      else
        let items = kept_items flt order
        in if \<not> list_ex (\<lambda>i. isLiveItem (fi_state i)) items then None
           else if ff_delayedOnly flt \<and> \<not> list_ex (\<lambda>i. itemDelay i nowMs thresholds \<noteq> None) items then None
           else Some (if length items = length (fo_items order) then order else order\<lparr>fo_items := items\<rparr>))"

definition filterOrderFeed :: "FeedOrder list \<Rightarrow> OrderFeedFilter \<Rightarrow> int \<Rightarrow> DelayThresholds \<Rightarrow> FeedOrder list" where
  "filterOrderFeed orders flt nowMs thresholds = List.map_filter (keep_order flt nowMs thresholds) orders"

record OrderFeedSummary =
  fs_orders :: nat
  fs_awaitingApproval :: nat
  fs_inKitchen :: nat
  fs_ready :: nat
  fs_delayed :: nat

text \<open>The counts of the double loop, item by item.\<close>

definition count_item :: "int \<Rightarrow> DelayThresholds \<Rightarrow> FeedItem \<Rightarrow> OrderFeedSummary \<Rightarrow> OrderFeedSummary" where
  "count_item nowMs thresholds i s =
     (let s = (if fi_state i = PENDING_APPROVAL then s\<lparr>fs_awaitingApproval := fs_awaitingApproval s + 1\<rparr>
               else if fi_state i = SENT \<or> fi_state i = PREPARING then s\<lparr>fs_inKitchen := fs_inKitchen s + 1\<rparr>
               else if fi_state i = READY then s\<lparr>fs_ready := fs_ready s + 1\<rparr>
               else s)
      in if itemDelay i nowMs thresholds \<noteq> None then s\<lparr>fs_delayed := fs_delayed s + 1\<rparr> else s)"

definition summarizeOrderFeed :: "FeedOrder list \<Rightarrow> int \<Rightarrow> DelayThresholds \<Rightarrow> OrderFeedSummary" where
  "summarizeOrderFeed orders nowMs thresholds =
     (foldl (\<lambda>s i. count_item nowMs thresholds i s)
        \<lparr>fs_orders = 0, fs_awaitingApproval = 0, fs_inKitchen = 0, fs_ready = 0, fs_delayed = 0\<rparr>
        (concat (map fo_items orders)))\<lparr>fs_orders := length orders\<rparr>"

section \<open>The feed\<close>

lemma kept_items_idem: "kept_items flt (order\<lparr>fo_items := kept_items flt order\<rparr>) = kept_items flt order"
  by (simp add: kept_items_def split: option.splits)

lemma filter_same: "length (filter P xs) = length xs \<Longrightarrow> filter P xs = xs"
proof (induction xs)
  case Nil
  then show ?case by simp
next
  case (Cons x xs)
  then show ?case using length_filter_le [of P xs] by (cases "P x") simp_all
qed

text \<open>An order with all its items kept is the order itself, so what is shown is always the kept items.\<close>

lemma keep_order_items: "keep_order flt nowMs thresholds order = Some shown \<Longrightarrow> shown = order\<lparr>fo_items := kept_items flt order\<rparr>"
proof -
  assume keep: "keep_order flt nowMs thresholds order = Some shown"
  have "kept_items flt order = fo_items order" if "length (kept_items flt order) = length (fo_items order)"
    using that filter_same by (auto simp: kept_items_def split: option.splits)
  then show ?thesis using keep by (cases order) (auto simp: keep_order_def Let_def split: if_splits)
qed

text \<open>Filtering a feed again with the same filter changes nothing, and late items are among the counted ones.\<close>

lemma keep_order_idem:
  "keep_order flt nowMs thresholds order = Some shown \<Longrightarrow> keep_order flt nowMs thresholds shown = Some shown"
proof -
  assume keep: "keep_order flt nowMs thresholds order = Some shown"
  have shown: "shown = order\<lparr>fo_items := kept_items flt order\<rparr>" by (rule keep_order_items [OF keep])
  then have same: "kept_items flt shown = fo_items shown" "kept_items flt shown = kept_items flt order"
    using kept_items_idem by simp_all
  have "fo_source shown = fo_source order" "fo_waiterId shown = fo_waiterId order" "fo_tableId shown = fo_tableId order"
    by (simp_all add: shown)
  then show ?thesis using keep same by (auto simp: keep_order_def Let_def split: if_splits)
qed

lemma filterOrderFeed_idem:
  "filterOrderFeed (filterOrderFeed orders flt nowMs thresholds) flt nowMs thresholds = filterOrderFeed orders flt nowMs thresholds"
proof (induction orders)
  case Nil
  then show ?case by (simp add: filterOrderFeed_def)
next
  case (Cons order orders)
  then show ?case using keep_order_idem [of flt nowMs thresholds order]
    by (cases "keep_order flt nowMs thresholds order") (auto simp: filterOrderFeed_def)
qed

lemma count_item_bound:
  "fs_delayed s \<le> fs_inKitchen s + fs_ready s \<Longrightarrow>
     fs_delayed (count_item nowMs thresholds i s) \<le> fs_inKitchen (count_item nowMs thresholds i s) + fs_ready (count_item nowMs thresholds i s)"
  by (auto simp: count_item_def itemDelay_def Let_def)

lemma summary_delayed:
  "fs_delayed (summarizeOrderFeed orders nowMs thresholds) \<le>
     fs_inKitchen (summarizeOrderFeed orders nowMs thresholds) + fs_ready (summarizeOrderFeed orders nowMs thresholds)"
proof -
  have "fs_delayed s \<le> fs_inKitchen s + fs_ready s \<Longrightarrow>
      fs_delayed (foldl (\<lambda>s i. count_item nowMs thresholds i s) s items) \<le>
      fs_inKitchen (foldl (\<lambda>s i. count_item nowMs thresholds i s) s items) +
      fs_ready (foldl (\<lambda>s i. count_item nowMs thresholds i s) s items)" for s items
    by (induction items arbitrary: s) (simp_all add: count_item_bound)
  then show ?thesis by (simp add: summarizeOrderFeed_def)
qed

end
