(* ===== verification/Pager.thy ===== *)
theory Pager
  imports Notifications
begin

text \<open>
  \<open>packages/domain/src/pager.ts\<close>: the two lines a wrist pager shows, how it vibrates, its MQTT topics,
  its heartbeats and warnings. Times are milliseconds and percentages whole numbers.
\<close>

definition PAGER_LINE_LENGTH :: nat where
  "PAGER_LINE_LENGTH = 12"

text \<open>The words of a text, \<open>trim().split(/\s+/)\<close> without empty ones.\<close>

fun words_of :: "string \<Rightarrow> string \<Rightarrow> string list" where
  "words_of current [] = (if current = [] then [] else [current])"
| "words_of current (c # s) =
     (if is_ws_char c then (if current = [] then words_of [] s else current # words_of [] s)
      else words_of (current @ [c]) s)"

text \<open>The loop over the words: the lines so far, the last one being filled.\<close>

fun fill_lines :: "string list \<Rightarrow> string list \<Rightarrow> string list" where
  "fill_lines lines [] = lines"
| "fill_lines lines (word # rest) =
     (let current = (if lines = [] then [] else last lines);
          joined = (if current = [] then word else current @ '' '' @ word)
      in if length joined \<le> PAGER_LINE_LENGTH \<or> current = []
         then fill_lines (butlast lines @ [take PAGER_LINE_LENGTH joined]) rest
         else if length lines < 2 then fill_lines (lines @ [take PAGER_LINE_LENGTH word]) rest
         else lines)"

definition pagerLines :: "string \<Rightarrow> string \<times> string" where
  "pagerLines t =
     (let lines = fill_lines [[]] (words_of [] t)
      in (take PAGER_LINE_LENGTH (nth_or lines 0 []), take PAGER_LINE_LENGTH (nth_or lines 1 [])))"

datatype VibrationPattern = ONE_LONG | TWO_SHORT | THREE | ONE_SHORT

fun DEFAULT_VIBRATION :: "NotificationEvent \<Rightarrow> VibrationPattern" where
  "DEFAULT_VIBRATION ORDER_PENDING_APPROVAL = TWO_SHORT"
| "DEFAULT_VIBRATION ITEM_READY = ONE_LONG"
| "DEFAULT_VIBRATION WATER_REQUEST = TWO_SHORT"
| "DEFAULT_VIBRATION WAITER_REQUEST = TWO_SHORT"
| "DEFAULT_VIBRATION BILL_REQUEST = TWO_SHORT"
| "DEFAULT_VIBRATION READY_NOT_COLLECTED = THREE"
| "DEFAULT_VIBRATION MANAGER_NUDGE = THREE"
| "DEFAULT_VIBRATION ORDER_CHANGED = ONE_SHORT"
| "DEFAULT_VIBRATION WAITER_UNREACHABLE = THREE"
| "DEFAULT_VIBRATION DEVICE_LOW_BATTERY_OR_OFFLINE = ONE_SHORT"
| "DEFAULT_VIBRATION PRINTER_OFFLINE = ONE_SHORT"
| "DEFAULT_VIBRATION DISK_OR_BACKUP = ONE_SHORT"
| "DEFAULT_VIBRATION LICENSE_STATE = ONE_SHORT"
| "DEFAULT_VIBRATION SUSPICIOUS_ACTIVITY = ONE_SHORT"
| "DEFAULT_VIBRATION SUPPORT_REQUEST = ONE_SHORT"
| "DEFAULT_VIBRATION VENDOR_RESTORE_CODE = ONE_SHORT"
| "DEFAULT_VIBRATION SIGN_IN_LOCKED = ONE_SHORT"

definition vibrationFor ::
  "NotificationEvent \<Rightarrow> bool \<Rightarrow> (NotificationEvent \<Rightarrow> VibrationPattern option) \<Rightarrow> VibrationPattern" where
  "vibrationFor event escalated overrides =
     (if escalated then THREE
      else (case overrides event of None \<Rightarrow> DEFAULT_VIBRATION event | Some p \<Rightarrow> p))"

datatype PagerTopicKind = Alerts | Ack | Heartbeat | Ota

fun kind_text :: "PagerTopicKind \<Rightarrow> string" where
  "kind_text Alerts = ''alerts''"
| "kind_text Ack = ''ack''"
| "kind_text Heartbeat = ''heartbeat''"
| "kind_text Ota = ''ota''"

definition pagerTopic :: "string \<Rightarrow> string \<Rightarrow> PagerTopicKind \<Rightarrow> string" where
  "pagerTopic restaurantId deviceId kind =
     ''rp/'' @ restaurantId @ ''/pagers/'' @ deviceId @ ''/'' @ kind_text kind"

definition pagerMayPublish :: "string \<Rightarrow> string \<Rightarrow> string \<Rightarrow> bool" where
  "pagerMayPublish topic restaurantId deviceId =
     (topic = pagerTopic restaurantId deviceId Ack \<or> topic = pagerTopic restaurantId deviceId Heartbeat)"

definition pagerMaySubscribe :: "string \<Rightarrow> string \<Rightarrow> string \<Rightarrow> bool" where
  "pagerMaySubscribe topic restaurantId deviceId =
     (topic = pagerTopic restaurantId deviceId Alerts \<or> topic = pagerTopic restaurantId deviceId Ota)"

definition pagerIsOffline :: "int option \<Rightarrow> int \<Rightarrow> int \<Rightarrow> bool" where
  "pagerIsOffline lastSeenAt now heartbeatSeconds =
     (case lastSeenAt of None \<Rightarrow> True | Some seen \<Rightarrow> 3 * heartbeatSeconds * 1000 < now - seen)"

text \<open>Half the interval may end in half a millisecond, so both sides are doubled.\<close>

definition pagerHeartbeatTooSoon :: "int option \<Rightarrow> int \<Rightarrow> int \<Rightarrow> bool" where
  "pagerHeartbeatTooSoon lastTakenAtMs nowMs heartbeatSeconds =
     (case lastTakenAtMs of None \<Rightarrow> False | Some t \<Rightarrow> 2 * (nowMs - t) < heartbeatSeconds * 1000)"

definition isLowBattery :: "int option \<Rightarrow> int \<Rightarrow> bool" where
  "isLowBattery batteryPercent lowBatteryPercent =
     (case batteryPercent of None \<Rightarrow> False | Some b \<Rightarrow> b \<le> lowBatteryPercent)"

datatype PagerWarning = OFFLINE | LOW_BATTERY

definition pagerWarning :: "bool \<Rightarrow> int option \<Rightarrow> int \<Rightarrow> PagerWarning option" where
  "pagerWarning online batteryPercent lowBatteryPercent =
     (if \<not> online then Some OFFLINE
      else if isLowBattery batteryPercent lowBatteryPercent then Some LOW_BATTERY
      else None)"

section \<open>What a pager may do\<close>

lemma kind_text_no_slash: "CHR ''/'' \<notin> set (kind_text k)"
  by (cases k) simp_all

text \<open>Without slashes in the identifiers a topic determines the restaurant, the pager and the kind.\<close>

lemma split_at_first:
  "a @ c # s = b @ c # t \<Longrightarrow> c \<notin> set a \<Longrightarrow> c \<notin> set b \<Longrightarrow> a = b \<and> s = t"
proof (induction a arbitrary: b)
  case Nil
  then show ?case by (cases b) auto
next
  case (Cons x a)
  then show ?case by (cases b) auto
qed

lemma pagerTopic_inject:
  assumes "CHR ''/'' \<notin> set r \<union> set d \<union> set r' \<union> set d'" "pagerTopic r d k = pagerTopic r' d' k'"
  shows "r = r' \<and> d = d' \<and> k = k'"
proof -
  have "r @ CHR ''/'' # ''pagers/'' @ d @ ''/'' @ kind_text k = r' @ CHR ''/'' # ''pagers/'' @ d' @ ''/'' @ kind_text k'"
    using assms(2) by (simp add: pagerTopic_def)
  from split_at_first [OF this] have r: "r = r'" and rest: "d @ CHR ''/'' # kind_text k = d' @ CHR ''/'' # kind_text k'"
    using assms(1) by auto
  from split_at_first [OF rest] have "d = d'" "kind_text k = kind_text k'" using assms(1) by auto
  moreover have "k = k'" using \<open>kind_text k = kind_text k'\<close> by (cases k; cases k') simp_all
  ultimately show ?thesis using r by simp
qed

text \<open>A pager publishes only its own acknowledgements and heartbeats, and never hears or speaks for another.\<close>

lemma pager_isolated:
  assumes "CHR ''/'' \<notin> set r \<union> set d \<union> set r' \<union> set d'"
  shows "pagerMayPublish (pagerTopic r' d' k) r d \<longleftrightarrow> r' = r \<and> d' = d \<and> (k = Ack \<or> k = Heartbeat)"
    "pagerMaySubscribe (pagerTopic r' d' k) r d \<longleftrightarrow> r' = r \<and> d' = d \<and> (k = Alerts \<or> k = Ota)"
  using pagerTopic_inject [of r' d' r d k] assms by (auto simp: pagerMayPublish_def pagerMaySubscribe_def)

lemma pagerLines_fit: "length (fst (pagerLines t)) \<le> PAGER_LINE_LENGTH" "length (snd (pagerLines t)) \<le> PAGER_LINE_LENGTH"
  by (simp_all add: pagerLines_def Let_def)

end
