(* ===== verification/Semver.thy ===== *)
theory Semver
  imports Text
begin

text \<open>
  \<open>packages/domain/src/semver.ts\<close>: semantic versions and their precedence. The numbers of a version are
  integers of any size, as \<open>BigInt\<close> has them. The lemmas show that precedence is a total order with a
  release above its pre-releases.
\<close>

record ParsedVersion =
  pv_major :: int
  pv_minor :: int
  pv_patch :: int
  pv_prerelease :: "string list"

definition identifier_char :: "char \<Rightarrow> bool" where
  "identifier_char c \<longleftrightarrow> is_digit_char c \<or> is_upper_char c \<or> is_lower_char c \<or> c = CHR ''-''"

definition is_identifier :: "string \<Rightarrow> bool" where
  "is_identifier s \<longleftrightarrow> s \<noteq> [] \<and> list_all identifier_char s"

text \<open>
  The pattern: three plain numbers, which contain no hyphen, and after the first hyphen, if any, the
  identifiers.
\<close>

definition parse_core :: "string \<Rightarrow> string list \<Rightarrow> ParsedVersion option" where
  "parse_core core prerelease =
     (case split_on CHR ''.'' core of
        [major, minor, patch] \<Rightarrow>
          if plain_number major \<and> plain_number minor \<and> plain_number patch
          then Some \<lparr>pv_major = dec_value major, pv_minor = dec_value minor, pv_patch = dec_value patch,
                     pv_prerelease = prerelease\<rparr>
          else None
      | _ \<Rightarrow> None)"

definition parseVersion :: "string \<Rightarrow> ParsedVersion option" where
  "parseVersion version =
     (if 64 < length version then None
      else
        case dropWhile (\<lambda>c. c \<noteq> CHR ''-'') version of
          [] \<Rightarrow> parse_core version []
        | _ # rest \<Rightarrow>
            if list_all is_identifier (split_on CHR ''.'' rest)
            then parse_core (takeWhile (\<lambda>c. c \<noteq> CHR ''-'') version) (split_on CHR ''.'' rest)
            else None)"

definition is_numeric :: "string \<Rightarrow> bool" where
  "is_numeric s \<longleftrightarrow> s \<noteq> [] \<and> list_all is_digit_char s"

definition compareIdentifiers :: "string \<Rightarrow> string \<Rightarrow> int" where
  "compareIdentifiers a b =
     (let aNumeric = is_numeric a; bNumeric = is_numeric b
      in if aNumeric \<and> bNumeric then
           (let x = dec_value a; y = dec_value b in if x = y then 0 else if x < y then -1 else 1)
         else if aNumeric \<noteq> bNumeric then (if aNumeric then -1 else 1)
         else if a = b then 0 else if js_less a b then -1 else 1)"

text \<open>The loop over the identifiers.\<close>

fun compare_prereleases :: "string list \<Rightarrow> string list \<Rightarrow> int" where
  "compare_prereleases [] [] = 0"
| "compare_prereleases [] (y # ys) = -1"
| "compare_prereleases (x # xs) [] = 1"
| "compare_prereleases (x # xs) (y # ys) =
     (let order = compareIdentifiers x y in if order \<noteq> 0 then order else compare_prereleases xs ys)"

definition compare_numbers :: "int \<Rightarrow> int \<Rightarrow> int" where
  "compare_numbers x y = (if x \<noteq> y then (if x < y then -1 else 1) else 0)"

definition compareVersions :: "ParsedVersion \<Rightarrow> ParsedVersion \<Rightarrow> int" where
  "compareVersions a b =
     (if pv_major a \<noteq> pv_major b then compare_numbers (pv_major a) (pv_major b)
      else if pv_minor a \<noteq> pv_minor b then compare_numbers (pv_minor a) (pv_minor b)
      else if pv_patch a \<noteq> pv_patch b then compare_numbers (pv_patch a) (pv_patch b)
      else
        let aIsRelease = (pv_prerelease a = []); bIsRelease = (pv_prerelease b = [])
        in if aIsRelease \<or> bIsRelease then (if aIsRelease = bIsRelease then 0 else if aIsRelease then 1 else -1)
           else compare_prereleases (pv_prerelease a) (pv_prerelease b))"

section \<open>Precedence is a total order\<close>

text \<open>
  A comparison that is a total order up to equal rank: exchanging its arguments exchanges its sign,
  and it is transitive, also where one of the two steps is strict.
\<close>

locale precedence =
  fixes cmp :: "'a \<Rightarrow> 'a \<Rightarrow> int"
  assumes flip: "sgn (cmp y x) = - sgn (cmp x y)"
    and steps: "cmp x y \<le> 0 \<Longrightarrow> cmp y z \<le> 0 \<Longrightarrow> cmp x z \<le> 0"
begin

lemma pos_flip: "0 < cmp y x \<longleftrightarrow> cmp x y < 0"
  using flip [of y x] by (auto simp: sgn_if split: if_splits)

lemma zero_flip: "cmp y x = 0 \<longleftrightarrow> cmp x y = 0"
  using flip [of y x] by (auto simp: sgn_if split: if_splits)

lemma same: "cmp x x = 0"
  using flip [of x x] by (auto simp: sgn_if split: if_splits)

lemma strict_left: "cmp x y < 0 \<Longrightarrow> cmp y z \<le> 0 \<Longrightarrow> cmp x z < 0"
proof (rule ccontr)
  assume a: "cmp x y < 0" "cmp y z \<le> 0" "\<not> cmp x z < 0"
  have "cmp z x \<le> 0" using a(3) pos_flip [of x z] pos_flip [of z x] by linarith
  then have "cmp y x \<le> 0" using steps [OF a(2)] by blast
  then show False using a(1) pos_flip [of y x] by linarith
qed

lemma strict_right: "cmp x y \<le> 0 \<Longrightarrow> cmp y z < 0 \<Longrightarrow> cmp x z < 0"
proof (rule ccontr)
  assume a: "cmp x y \<le> 0" "cmp y z < 0" "\<not> cmp x z < 0"
  have "cmp z x \<le> 0" using a(3) pos_flip [of x z] pos_flip [of z x] by linarith
  then have "cmp z y \<le> 0" using steps [OF _ a(1)] by blast
  then show False using a(2) pos_flip [of z y] by linarith
qed

lemma equal_trans: "cmp x y = 0 \<Longrightarrow> cmp y z = 0 \<Longrightarrow> cmp x z = 0"
proof -
  assume a: "cmp x y = 0" "cmp y z = 0"
  then have "cmp x z \<le> 0" using steps [of x y z] by simp
  moreover have "cmp z x \<le> 0" using steps [of z y x] zero_flip [of y x] zero_flip [of z y] a by simp
  ultimately show "cmp x z = 0" using pos_flip [of x z] pos_flip [of z x] by linarith
qed

end

lemma identifiers_flip: "sgn (compareIdentifiers y x) = - sgn (compareIdentifiers x y)"
  using js_less_asym [of x y] js_less_total [of x y]
  by (auto simp: compareIdentifiers_def Let_def)

lemma identifiers_steps: "compareIdentifiers x y \<le> 0 \<Longrightarrow> compareIdentifiers y z \<le> 0 \<Longrightarrow> compareIdentifiers x z \<le> 0"
  using js_less_trans [of x y z]
  by (auto simp: compareIdentifiers_def Let_def split: if_splits)

interpretation identifiers: precedence compareIdentifiers
  by unfold_locales (fact identifiers_flip, fact identifiers_steps)

lemma prereleases_flip: "sgn (compare_prereleases ys xs) = - sgn (compare_prereleases xs ys)"
proof (induction xs ys rule: compare_prereleases.induct)
  case (4 x xs y ys)
  show ?case
  proof (cases "compareIdentifiers x y = 0")
    case True
    then have "compareIdentifiers y x = 0" using identifiers.zero_flip [of y x] by simp
    with True 4 show ?thesis by (simp add: Let_def)
  next
    case False
    then have "compareIdentifiers y x \<noteq> 0" using identifiers.zero_flip [of y x] by simp
    with False show ?thesis using identifiers.flip [of y x] by (simp add: Let_def)
  qed
qed simp_all

lemma prereleases_steps:
  "compare_prereleases xs ys \<le> 0 \<Longrightarrow> compare_prereleases ys zs \<le> 0 \<Longrightarrow> compare_prereleases xs zs \<le> 0"
proof (induction xs ys arbitrary: zs rule: compare_prereleases.induct)
  case 1
  then show ?case by simp
next
  case (2 y ys)
  then show ?case by (cases zs) simp_all
next
  case (3 x xs)
  then show ?case by simp
next
  case (4 x xs y ys)
  then obtain z zs' where zs: "zs = z # zs'" by (cases zs) auto
  have xy: "compareIdentifiers x y < 0 \<or> (compareIdentifiers x y = 0 \<and> compare_prereleases xs ys \<le> 0)"
    using "4.prems"(1) by (auto simp: Let_def split: if_splits)
  have yz: "compareIdentifiers y z < 0 \<or> (compareIdentifiers y z = 0 \<and> compare_prereleases ys zs' \<le> 0)"
    using "4.prems"(2) by (auto simp: zs Let_def split: if_splits)
  show ?case
  proof (cases "compareIdentifiers x y = 0 \<and> compareIdentifiers y z = 0")
    case True
    then have "compareIdentifiers x z = 0" using identifiers.equal_trans by blast
    moreover have "compare_prereleases xs zs' \<le> 0"
    proof (rule "4.IH" [OF refl])
      show "\<not> compareIdentifiers x y \<noteq> 0" "compare_prereleases xs ys \<le> 0" "compare_prereleases ys zs' \<le> 0"
        using True xy yz by auto
    qed
    ultimately show ?thesis by (simp add: zs Let_def)
  next
    case False
    then have "compareIdentifiers x z < 0"
      using xy yz identifiers.strict_left [of x y z] identifiers.strict_right [of x y z] by auto
    then show ?thesis by (simp add: zs Let_def)
  qed
qed

lemma versions_flip: "sgn (compareVersions y x) = - sgn (compareVersions x y)"
  using prereleases_flip [of "pv_prerelease y" "pv_prerelease x"]
  by (auto simp: compareVersions_def compare_numbers_def Let_def)

lemma versions_steps: "compareVersions x y \<le> 0 \<Longrightarrow> compareVersions y z \<le> 0 \<Longrightarrow> compareVersions x z \<le> 0"
  using prereleases_steps [of "pv_prerelease x" "pv_prerelease y" "pv_prerelease z"]
  by (auto simp: compareVersions_def compare_numbers_def Let_def split: if_splits)

interpretation versions: precedence compareVersions
  by unfold_locales (fact versions_flip, fact versions_steps)

lemma release_above_prerelease:
  "pv_prerelease a \<noteq> [] \<Longrightarrow> pv_prerelease b = [] \<Longrightarrow>
     pv_major a = pv_major b \<Longrightarrow> pv_minor a = pv_minor b \<Longrightarrow> pv_patch a = pv_patch b \<Longrightarrow> compareVersions a b < 0"
  by (simp add: compareVersions_def Let_def)

end
