(* ===== verification/Rollout.thy ===== *)
theory Rollout
  imports Semver "HOL-Library.Word" Complex_Main
begin

text \<open>
  \<open>packages/domain/src/rollout.ts\<close>: the staged rollout of releases and when one halts by itself. The hash
  is 32-bit arithmetic; the share of failures is compared as an exact fraction, which agrees with
  the quotient of doubles for every number of PCs there can be. The lemmas show that nothing older
  or meant for another PC is ever offered and that widening a rollout keeps the PCs it reached.
\<close>

datatype RolloutState = ACTIVE | PAUSED | HALTED

record RolloutRelease =
  rel_id :: string
  rel_version :: string
  rel_percent :: int
  rel_state :: RolloutState
  rel_cohort :: "string list"
  rel_targetInstallationId :: "string option"

record RolloutInstallation =
  ins_id :: string
  ins_version :: string
  ins_pinnedVersion :: "string option"

unbundle bit_operations_syntax

definition fnv_step :: "32 word \<Rightarrow> char \<Rightarrow> 32 word" where
  "fnv_step hash c = (hash XOR of_nat (code c)) * 0x01000193"

definition fnv1a :: "string \<Rightarrow> 32 word" where
  "fnv1a t = foldl fnv_step 0x811c9dc5 t"

definition rolloutBucket :: "string \<Rightarrow> string \<Rightarrow> int" where
  "rolloutBucket installationId releaseId = uint (fnv1a (releaseId @ '':'' @ installationId)) mod 100"

definition compareVersionText :: "string \<Rightarrow> string \<Rightarrow> int" where
  "compareVersionText a b =
     (case (parseVersion a, parseVersion b) of
        (Some x, Some y) \<Rightarrow> compareVersions x y
      | (None, None) \<Rightarrow> 0
      | (None, Some _) \<Rightarrow> -1
      | (Some _, None) \<Rightarrow> 1)"

definition inRollout :: "RolloutRelease \<Rightarrow> string \<Rightarrow> bool" where
  "inRollout release installationId =
     (if rel_state release \<noteq> ACTIVE then False
      else if installationId \<in> set (rel_cohort release) then True
      else rolloutBucket installationId (rel_id release) < rel_percent release)"

text \<open>The releases that are newer, for this PC, and not above the version it is held at.\<close>

definition newer_for :: "RolloutInstallation \<Rightarrow> RolloutRelease \<Rightarrow> bool" where
  "newer_for installation release \<longleftrightarrow>
     parseVersion (rel_version release) \<noteq> None \<and>
     0 < compareVersionText (rel_version release) (ins_version installation) \<and>
     (rel_targetInstallationId release = None \<or> rel_targetInstallationId release = Some (ins_id installation)) \<and>
     (case ins_pinnedVersion installation of
        None \<Rightarrow> True
      | Some pinned \<Rightarrow> compareVersionText (rel_version release) pinned \<le> 0)"

definition newest :: "RolloutRelease list \<Rightarrow> RolloutRelease option" where
  "newest candidates =
     foldl (\<lambda>best release.
       case best of
         None \<Rightarrow> Some release
       | Some b \<Rightarrow> if 0 < compareVersionText (rel_version release) (rel_version b) then Some release else best)
     None candidates"

text \<open>Held at a version: that version, unless it was halted.\<close>

definition held_release :: "RolloutInstallation \<Rightarrow> RolloutRelease list \<Rightarrow> RolloutRelease option" where
  "held_release installation channel =
     (case ins_pinnedVersion installation of
        None \<Rightarrow> None
      | Some pinned \<Rightarrow>
          find (\<lambda>release. compareVersionText (rel_version release) pinned = 0 \<and> rel_state release \<noteq> HALTED) channel)"

definition releaseToOffer :: "RolloutInstallation \<Rightarrow> RolloutRelease list \<Rightarrow> RolloutRelease option" where
  "releaseToOffer installation releases =
     (if parseVersion (ins_version installation) = None then None
      else
        let newer = filter (newer_for installation) releases;
            hotfix = newest (filter (\<lambda>release. rel_targetInstallationId release = Some (ins_id installation) \<and>
              rel_state release \<noteq> HALTED) newer)
        in if hotfix \<noteq> None then hotfix
           else
             let channel = filter (\<lambda>release. rel_targetInstallationId release = None) newer
             in if held_release installation channel \<noteq> None then held_release installation channel
                else newest (filter (\<lambda>release. inRollout release (ins_id installation)) channel))"

record RolloutHealth =
  rh_attempts :: int
  rh_failures :: int
  rh_errorSpikes :: int

record HaltRule =
  hr_minFailures :: int
  hr_maxFailureShare :: rat

definition DEFAULT_HALT_RULE :: HaltRule where
  "DEFAULT_HALT_RULE = \<lparr>hr_minFailures = 2, hr_maxFailureShare = 1 / 5\<rparr>"

definition halt_parts :: "RolloutHealth \<Rightarrow> string list" where
  "halt_parts health =
     (if 0 < rh_failures health then [num_text (rh_failures health) @ '' failed or rolled back''] else []) @
     (if 0 < rh_errorSpikes health then [num_text (rh_errorSpikes health) @ '' with an error spike''] else [])"

fun join_and :: "string list \<Rightarrow> string" where
  "join_and [] = []"
| "join_and [p] = p"
| "join_and (p # q # ps) = p @ '' and '' @ join_and (q # ps)"

definition haltReason :: "RolloutHealth \<Rightarrow> HaltRule \<Rightarrow> string option" where
  "haltReason health r =
     (let bad = rh_failures health + rh_errorSpikes health
      in if rh_attempts health = 0 \<or> bad < hr_minFailures r then None
         else if of_int bad / of_int (rh_attempts health) < hr_maxFailureShare r then None
         else Some (''Halted automatically: '' @ join_and (halt_parts health) @ '', of '' @
                num_text (rh_attempts health) @ '' PCs that installed it.''))"

section \<open>The order of version texts\<close>

lemma version_text_flip: "sgn (compareVersionText y x) = - sgn (compareVersionText x y)"
  by (cases "parseVersion x"; cases "parseVersion y"; simp add: compareVersionText_def; rule versions.flip)

lemma version_text_steps: "compareVersionText x y \<le> 0 \<Longrightarrow> compareVersionText y z \<le> 0 \<Longrightarrow> compareVersionText x z \<le> 0"
  by (cases "parseVersion x"; cases "parseVersion y"; cases "parseVersion z"; simp add: compareVersionText_def)
    (rule versions.steps)

interpretation version_texts: precedence compareVersionText
  by unfold_locales (fact version_text_flip, fact version_text_steps)

section \<open>What is offered\<close>

lemma find_Some_in: "find P xs = Some x \<Longrightarrow> x \<in> set xs \<and> P x"
  by (induction xs) (auto split: if_splits)

lemma newest_spec:
  "(newest xs = None \<longleftrightarrow> xs = []) \<and>
   (newest xs = Some r \<longrightarrow> r \<in> set xs \<and> (\<forall>x \<in> set xs. compareVersionText (rel_version x) (rel_version r) \<le> 0))"
proof -
  let ?step = "\<lambda>best release. case best of None \<Rightarrow> Some release
    | Some b \<Rightarrow> if 0 < compareVersionText (rel_version release) (rel_version b) then Some release else best"
  have some: "\<exists>r. foldl ?step (Some b) xs = Some r \<and> (r = b \<or> r \<in> set xs) \<and>
      compareVersionText (rel_version b) (rel_version r) \<le> 0 \<and>
      (\<forall>x \<in> set xs. compareVersionText (rel_version x) (rel_version r) \<le> 0)" for b xs
  proof (induction xs arbitrary: b)
    case Nil
    then show ?case by (simp add: version_texts.same)
  next
    case (Cons x xs)
    show ?case
    proof (cases "0 < compareVersionText (rel_version x) (rel_version b)")
      case True
      then have up: "compareVersionText (rel_version b) (rel_version x) \<le> 0"
        using version_texts.pos_flip [of "rel_version x" "rel_version b"] by simp
      obtain r where r: "foldl ?step (Some x) xs = Some r" "r = x \<or> r \<in> set xs"
        "compareVersionText (rel_version x) (rel_version r) \<le> 0"
        "\<forall>y \<in> set xs. compareVersionText (rel_version y) (rel_version r) \<le> 0"
        using Cons.IH [of x] by blast
      have "compareVersionText (rel_version b) (rel_version r) \<le> 0" by (rule version_texts.steps [OF up r(3)])
      then show ?thesis using True r by auto
    next
      case False
      then have up: "compareVersionText (rel_version x) (rel_version b) \<le> 0" by simp
      obtain r where r: "foldl ?step (Some b) xs = Some r" "r = b \<or> r \<in> set xs"
        "compareVersionText (rel_version b) (rel_version r) \<le> 0"
        "\<forall>y \<in> set xs. compareVersionText (rel_version y) (rel_version r) \<le> 0"
        using Cons.IH [of b] by blast
      have "compareVersionText (rel_version x) (rel_version r) \<le> 0" by (rule version_texts.steps [OF up r(3)])
      then show ?thesis using False r by auto
    qed
  qed
  show ?thesis
  proof (cases xs)
    case Nil
    then show ?thesis by (simp add: newest_def)
  next
    case (Cons x ys)
    then have "newest xs = foldl ?step (Some x) ys" by (simp add: newest_def)
    then show ?thesis using some [of x ys] Cons by auto
  qed
qed

text \<open>
  An offer is always safe. Whatever is offered is one of the releases, can be read as a version, is
  newer than what the PC runs, is meant for every PC or for this one, is not above the version the PC
  is held at, and is not halted; a release for every PC that is not the version held at is offered
  only while its rollout is active and reaches the PC.
\<close>

lemma releaseToOffer_safe:
  assumes "releaseToOffer installation releases = Some r"
  shows "r \<in> set releases \<and> parseVersion (rel_version r) \<noteq> None \<and>
    0 < compareVersionText (rel_version r) (ins_version installation) \<and>
    (rel_targetInstallationId r = None \<or> rel_targetInstallationId r = Some (ins_id installation)) \<and>
    \<not> (\<exists>pinned. ins_pinnedVersion installation = Some pinned \<and> 0 < compareVersionText (rel_version r) pinned) \<and>
    rel_state r \<noteq> HALTED \<and>
    (rel_targetInstallationId r \<noteq> None \<or> inRollout r (ins_id installation) \<or>
     (\<exists>pinned. ins_pinnedVersion installation = Some pinned \<and> compareVersionText (rel_version r) pinned = 0))"
proof -
  let ?newer = "filter (newer_for installation) releases"
  let ?fixes = "filter (\<lambda>release. rel_targetInstallationId release = Some (ins_id installation) \<and> rel_state release \<noteq> HALTED) ?newer"
  let ?channel = "filter (\<lambda>release. rel_targetInstallationId release = None) ?newer"
  let ?reached = "filter (\<lambda>release. inRollout release (ins_id installation)) ?channel"
  have cases: "newest ?fixes = Some r \<or> held_release installation ?channel = Some r \<or> newest ?reached = Some r"
    using assms by (auto simp: releaseToOffer_def Let_def split: if_splits)
  have active: "rel_state r \<noteq> HALTED" if "inRollout r (ins_id installation)"
    using that by (auto simp: inRollout_def split: if_splits)
  have "newer_for installation r \<and> r \<in> set releases \<and> rel_state r \<noteq> HALTED \<and>
      (rel_targetInstallationId r \<noteq> None \<or> inRollout r (ins_id installation) \<or>
       (\<exists>pinned. ins_pinnedVersion installation = Some pinned \<and> compareVersionText (rel_version r) pinned = 0))"
    using cases
  proof (elim disjE)
    assume "newest ?fixes = Some r"
    then have "r \<in> set ?fixes" using newest_spec by blast
    then show ?thesis by auto
  next
    assume held: "held_release installation ?channel = Some r"
    then obtain pinned where p: "ins_pinnedVersion installation = Some pinned"
      "find (\<lambda>release. compareVersionText (rel_version release) pinned = 0 \<and> rel_state release \<noteq> HALTED) ?channel = Some r"
      by (auto simp: held_release_def split: option.splits)
    from find_Some_in [OF p(2)]
    have "r \<in> set ?channel" "compareVersionText (rel_version r) pinned = 0" "rel_state r \<noteq> HALTED" by blast+
    then show ?thesis using p(1) by auto
  next
    assume "newest ?reached = Some r"
    then have "r \<in> set ?reached" using newest_spec by blast
    then show ?thesis using active by auto
  qed
  then show ?thesis by (auto simp: newer_for_def split: option.splits)
qed

definition sample_release :: RolloutRelease where
  "sample_release = \<lparr>rel_id = ''r1'', rel_version = ''1.2.0'', rel_percent = 0, rel_state = ACTIVE,
     rel_cohort = [''pilot''], rel_targetInstallationId = None\<rparr>"

theorem releaseToOffer_safe_witness:
  "releaseToOffer \<lparr>ins_id = ''pilot'', ins_version = ''1.2.0-rc.1'', ins_pinnedVersion = None\<rparr> [sample_release] = Some sample_release \<and>
   inRollout sample_release ''pilot''"
proof -
  have run: "releaseToOffer \<lparr>ins_id = ''pilot'', ins_version = ''1.2.0-rc.1'', ins_pinnedVersion = None\<rparr> [sample_release] = Some sample_release"
    by code_simp
  show ?thesis using releaseToOffer_safe [OF run] run by (simp add: sample_release_def)
qed

text \<open>Widening a rollout keeps every PC it reached; at 100 percent it reaches all, at 0 only the cohort.\<close>

lemma inRollout_widening:
  assumes "inRollout release i" "rel_percent release \<le> percent"
  shows "inRollout (release\<lparr>rel_percent := percent\<rparr>) i"
  using assms by (auto simp: inRollout_def split: if_splits)

lemma rolloutBucket_range: "0 \<le> rolloutBucket i r" "rolloutBucket i r < 100"
  by (simp_all add: rolloutBucket_def)

lemma inRollout_full: "rel_state release = ACTIVE \<Longrightarrow> 100 \<le> rel_percent release \<Longrightarrow> inRollout release i"
  using rolloutBucket_range(2) [of i "rel_id release"] by (simp add: inRollout_def)

end
