(* ===== verification/Software_Update.thy ===== *)
theory Software_Update
  imports Rollout Business_Date
begin

text \<open>
  \<open>packages/domain/src/software-update.ts\<close>: when the update agent of a restaurant PC may install a
  release, how long it waits between downloads and how it checks what it installs. Times are
  milliseconds.
\<close>

record UpdateRelease =
  ur_version :: string
  ur_securityCritical :: bool

record UpdateApproval =
  ua_version :: string
  ua_approvedAt :: int

record UpdateFailure =
  uf_version :: string
  uf_at :: int

record UpdateTimingInput =
  ut_now :: int
  ut_timeZone :: string
  ut_windowStart :: string
  ut_windowEnd :: string
  ut_release :: UpdateRelease
  ut_approval :: "UpdateApproval option"
  ut_openTables :: int
  ut_lastFailure :: "UpdateFailure option"

datatype UpdateWait = WINDOW | OPEN_TABLES | RETRY_APPROVAL

datatype UpdateTrigger = In_Window | APPROVED

datatype UpdateTiming = Install UpdateTrigger | Wait UpdateWait

definition failed_before :: "UpdateTimingInput \<Rightarrow> bool" where
  "failed_before input =
     (case ut_lastFailure input of None \<Rightarrow> False | Some f \<Rightarrow> uf_version f = ur_version (ut_release input))"

definition is_approved :: "UpdateTimingInput \<Rightarrow> bool" where
  "is_approved input =
     (case ut_approval input of
        None \<Rightarrow> False
      | Some approval \<Rightarrow>
          ua_version approval = ur_version (ut_release input) \<and>
          (\<not> failed_before input \<or> uf_at (the (ut_lastFailure input)) < ua_approvedAt approval))"

definition updateTiming :: "zone_clock \<Rightarrow> UpdateTimingInput \<Rightarrow> UpdateTiming result" where
  "updateTiming formatToParts input =
     (let failedBefore = failed_before input; approved = is_approved input
      in if failedBefore \<and> \<not> approved then Inr (Wait RETRY_APPROVAL)
         else
           bindE (timeOfDayOf formatToParts (Some (ut_now input)) (ut_timeZone input)) (\<lambda>time.
           let inWindow = inTimeWindow time (ut_windowStart input) (ut_windowEnd input)
           in if \<not> inWindow \<and> \<not> approved then Inr (Wait WINDOW)
              else if 0 < ut_openTables input \<and> \<not> (ur_securityCritical (ut_release input) \<and> approved)
              then Inr (Wait OPEN_TABLES)
              else Inr (Install (if approved then APPROVED else In_Window))))"

definition isNewerVersion :: "string \<Rightarrow> string \<Rightarrow> bool" where
  "isNewerVersion offered installed = (0 < compareVersionText offered installed)"

definition UPDATE_DOWNLOAD_RETRY_MS :: int where
  "UPDATE_DOWNLOAD_RETRY_MS = 5 * 60000"

definition UPDATE_DOWNLOAD_RETRY_MAX_MS :: int where
  "UPDATE_DOWNLOAD_RETRY_MAX_MS = 6 * 60 * 60000"

definition updateDownloadRetryMs :: "int \<Rightarrow> int" where
  "updateDownloadRetryMs failures =
     (let exponent = min (max failures 1 - 1) 20
      in min (UPDATE_DOWNLOAD_RETRY_MS * 2 ^ nat exponent) UPDATE_DOWNLOAD_RETRY_MAX_MS)"

datatype UpdateSigning = VENDOR | UNSIGNED | NO_SIGNING

definition updateSigningOf :: "string option \<Rightarrow> bool \<Rightarrow> UpdateSigning" where
  "updateSigningOf publisher allowUnsigned =
     (if allowUnsigned then UNSIGNED
      else if publisher = None then NO_SIGNING
      else VENDOR)"

section \<open>When an update goes ahead\<close>

lemma timeOfDayOf_total: "\<exists>time. timeOfDayOf clock (Some t) tz = Inr time"
  by (simp add: timeOfDayOf_def toLocalDateTime_def assertValidInstant_def Let_def)

text \<open>
  An update installs only inside the maintenance window or on a manager's approval of this
  version; with tables open only when it is security-critical and approved; and after this version
  failed here only on an approval given after the failure. The answer is never an error, and waiting
  always names the first of the three reasons that holds.
\<close>

lemma updateTiming_installs:
  "\<exists>time. timeOfDayOf clock (Some (ut_now input)) (ut_timeZone input) = Inr time \<and>
    (updateTiming clock input = Inr (Install trigger) \<longleftrightarrow>
       trigger = (if is_approved input then APPROVED else In_Window) \<and>
       (is_approved input \<or> inTimeWindow time (ut_windowStart input) (ut_windowEnd input)) \<and>
       (ut_openTables input \<le> 0 \<or> ur_securityCritical (ut_release input) \<and> is_approved input) \<and>
       \<not> (failed_before input \<and> \<not> is_approved input)) \<and>
    (updateTiming clock input = Inr (Wait reason) \<longleftrightarrow>
       (if failed_before input \<and> \<not> is_approved input then reason = RETRY_APPROVAL
        else if \<not> is_approved input \<and> \<not> inTimeWindow time (ut_windowStart input) (ut_windowEnd input) then reason = WINDOW
        else 0 < ut_openTables input \<and> \<not> (ur_securityCritical (ut_release input) \<and> is_approved input) \<and> reason = OPEN_TABLES)) \<and>
    \<not> isl (updateTiming clock input) \<and>
    (if is_approved input \<and> failed_before input
     then uf_at (the (ut_lastFailure input)) < ua_approvedAt (the (ut_approval input)) else True)"
proof -
  obtain time where time: "timeOfDayOf clock (Some (ut_now input)) (ut_timeZone input) = Inr time"
    using timeOfDayOf_total by blast
  have "if is_approved input \<and> failed_before input
      then uf_at (the (ut_lastFailure input)) < ua_approvedAt (the (ut_approval input)) else True"
    by (auto simp: is_approved_def split: option.splits)
  then show ?thesis by (intro exI [of _ time]) (auto simp: updateTiming_def time Let_def)
qed

lemma updateDownloadRetryMs_bounds:
  "UPDATE_DOWNLOAD_RETRY_MS \<le> updateDownloadRetryMs failures"
  "updateDownloadRetryMs failures \<le> UPDATE_DOWNLOAD_RETRY_MAX_MS"
proof -
  have "UPDATE_DOWNLOAD_RETRY_MS * 1 \<le> UPDATE_DOWNLOAD_RETRY_MS * 2 ^ k" for k
    by (intro mult_left_mono) (simp_all add: UPDATE_DOWNLOAD_RETRY_MS_def)
  then show "UPDATE_DOWNLOAD_RETRY_MS \<le> updateDownloadRetryMs failures"
    by (simp add: updateDownloadRetryMs_def Let_def) (simp add: UPDATE_DOWNLOAD_RETRY_MS_def UPDATE_DOWNLOAD_RETRY_MAX_MS_def)
  show "updateDownloadRetryMs failures \<le> UPDATE_DOWNLOAD_RETRY_MAX_MS"
    by (simp add: updateDownloadRetryMs_def Let_def)
qed

lemma updateDownloadRetryMs_mono:
  assumes "a \<le> b"
  shows "updateDownloadRetryMs a \<le> updateDownloadRetryMs b"
proof -
  have "nat (min (max a 1 - 1) 20) \<le> nat (min (max b 1 - 1) 20)" using assms by (intro nat_mono) auto
  then have "(2 :: int) ^ nat (min (max a 1 - 1) 20) \<le> 2 ^ nat (min (max b 1 - 1) 20)" by (intro power_increasing) auto
  then show ?thesis
    unfolding updateDownloadRetryMs_def Let_def UPDATE_DOWNLOAD_RETRY_MS_def by (intro min.mono) auto
qed

end
