(* ===== verification/Client_Api.thy ===== *)
theory Client_Api
  imports Rollout
begin

text \<open>
  \<open>packages/domain/src/client-api.ts\<close>: the version of the client API, what an app says about itself and
  the version matrix of a release. A \<open>RangeError\<close> is \<^term>\<open>None\<close>. The lemmas show that printed
  versions are read back and that a server serves its own minor version and the one before.
\<close>

record ClientApiVersion =
  ca_major :: int
  ca_minor :: int

definition api_number :: "string \<Rightarrow> bool" where
  "api_number s \<longleftrightarrow> plain_number s \<and> length s \<le> 3"

definition parseClientApiVersion :: "string \<Rightarrow> ClientApiVersion option" where
  "parseClientApiVersion t =
     (case split_on CHR ''.'' t of
        [major, minor] \<Rightarrow>
          if api_number major \<and> api_number minor
          then Some \<lparr>ca_major = dec_value major, ca_minor = dec_value minor\<rparr> else None
      | _ \<Rightarrow> None)"

definition formatClientApiVersion :: "ClientApiVersion \<Rightarrow> string" where
  "formatClientApiVersion v = num_text (ca_major v) @ ''.'' @ num_text (ca_minor v)"

definition compareClientApi :: "ClientApiVersion \<Rightarrow> ClientApiVersion \<Rightarrow> int" where
  "compareClientApi a b =
     (if ca_major a = ca_major b then ca_minor a - ca_minor b else ca_major a - ca_major b)"

definition oldestServedClientApi :: "ClientApiVersion \<Rightarrow> ClientApiVersion" where
  "oldestServedClientApi current = \<lparr>ca_major = ca_major current, ca_minor = max 0 (ca_minor current - 1)\<rparr>"

datatype ClientCompatibility = CURRENT | PREVIOUS | TOO_OLD | NEWER | UNKNOWN

definition clientCompatibility :: "ClientApiVersion \<Rightarrow> ClientApiVersion option \<Rightarrow> ClientCompatibility" where
  "clientCompatibility server client =
     (case client of
        None \<Rightarrow> UNKNOWN
      | Some c \<Rightarrow>
          let order = compareClientApi c server
          in if order = 0 then CURRENT
             else if 0 < order then NEWER
             else if 0 \<le> compareClientApi c (oldestServedClientApi server) then PREVIOUS
             else TOO_OLD)"

definition isClientServed :: "ClientApiVersion \<Rightarrow> ClientApiVersion option \<Rightarrow> bool" where
  "isClientServed server client = (clientCompatibility server client \<noteq> TOO_OLD)"

record ClientIdentity =
  ci_kind :: string
  ci_version :: string
  ci_api :: ClientApiVersion

text \<open>The kind and the version of an identity, as the pattern has them.\<close>

definition kind_ok :: "string \<Rightarrow> bool" where
  "kind_ok s \<longleftrightarrow> s \<noteq> [] \<and> length s \<le> 40 \<and> is_lower_char (hd s) \<and>
     list_all (\<lambda>c. is_lower_char c \<or> is_digit_char c \<or> c = CHR ''-'') (tl s)"

definition version_ok :: "string \<Rightarrow> bool" where
  "version_ok s \<longleftrightarrow> s \<noteq> [] \<and> length s \<le> 40 \<and>
     (is_digit_char (hd s) \<or> is_upper_char (hd s) \<or> is_lower_char (hd s)) \<and>
     list_all (\<lambda>c. identifier_char c \<or> c = CHR ''.'' \<or> c = CHR ''+'') (tl s)"

text \<open>
  The pattern of an identity: neither part contains a slash or a space, so they end at the first.
\<close>

definition parse_identity_text :: "string \<Rightarrow> ClientIdentity option" where
  "parse_identity_text t =
     (let kind = takeWhile (\<lambda>c. c \<noteq> CHR ''/'') t;
          rest = drop 1 (dropWhile (\<lambda>c. c \<noteq> CHR ''/'') t);
          version = takeWhile (\<lambda>c. c \<noteq> CHR '' '') rest;
          api = dropWhile (\<lambda>c. c \<noteq> CHR '' '') rest
      in if CHR ''/'' \<in> set t \<and> kind_ok kind \<and> version_ok version \<and> take 5 api = '' api/''
         then map_option (\<lambda>a. \<lparr>ci_kind = kind, ci_version = version, ci_api = a\<rparr>) (parseClientApiVersion (drop 5 api))
         else None)"

definition parseClientIdentity :: "string option \<Rightarrow> ClientIdentity option" where
  "parseClientIdentity t = (case t of None \<Rightarrow> None | Some s \<Rightarrow> parse_identity_text (trim_ws s))"

definition formatClientIdentity :: "ClientIdentity \<Rightarrow> string" where
  "formatClientIdentity i = ci_kind i @ ''/'' @ ci_version i @ '' api/'' @ formatClientApiVersion (ci_api i)"

record ClientApiRelease =
  cr_api :: string
  cr_since :: string

text \<open>The loop over the history.\<close>

fun first_speaking :: "ClientApiVersion \<Rightarrow> ClientApiRelease list \<Rightarrow> string option \<Rightarrow> string option" where
  "first_speaking api [] first = first"
| "first_speaking api (entry # history) first =
     (case parseClientApiVersion (cr_api entry) of
        None \<Rightarrow> first_speaking api history first
      | Some v \<Rightarrow>
          if parseVersion (cr_since entry) = None then first_speaking api history first
          else if compareClientApi v api < 0 then first_speaking api history first
          else
            first_speaking api history
              (case first of
                 None \<Rightarrow> Some (cr_since entry)
               | Some f \<Rightarrow> if compareVersionText (cr_since entry) f < 0 then Some (cr_since entry) else first))"

definition firstReleaseSpeaking :: "ClientApiRelease list \<Rightarrow> ClientApiVersion \<Rightarrow> string option" where
  "firstReleaseSpeaking history api = first_speaking api history None"

record NamedVersion =
  nv_name :: string
  nv_version :: string

record VersionMatrixInput =
  vi_release :: string
  vi_clientApi :: string
  vi_history :: "ClientApiRelease list"
  vi_components :: "NamedVersion list"
  vi_clients :: "NamedVersion list"
  vi_pagerProtocol :: int

record MatrixClient = NamedVersion +
  mc_minimumVersion :: "string option"

record VersionMatrix =
  vm_release :: string
  vm_current :: string
  vm_oldest :: string
  vm_components :: "NamedVersion list"
  vm_clients :: "MatrixClient list"
  vm_pagerProtocol :: int

definition buildVersionMatrix :: "VersionMatrixInput \<Rightarrow> VersionMatrix option" where
  "buildVersionMatrix input =
     (case parseClientApiVersion (vi_clientApi input) of
        None \<Rightarrow> None
      | Some current \<Rightarrow>
          if parseVersion (vi_release input) = None then None
          else
            let oldest = oldestServedClientApi current;
                minimumVersion = firstReleaseSpeaking (vi_history input) oldest
            in Some \<lparr>vm_release = vi_release input, vm_current = formatClientApiVersion current,
                     vm_oldest = formatClientApiVersion oldest, vm_components = vi_components input,
                     vm_clients = map (\<lambda>client. NamedVersion.extend client \<lparr>mc_minimumVersion = minimumVersion\<rparr>)
                       (vi_clients input),
                     vm_pagerProtocol = vi_pagerProtocol input\<rparr>)"

section \<open>Reading what was printed\<close>

lemma parse_format_api:
  assumes "0 \<le> ca_major v" "ca_major v \<le> 999" "0 \<le> ca_minor v" "ca_minor v \<le> 999"
  shows "parseClientApiVersion (formatClientApiVersion v) = Some v"
proof -
  have no_dot: "CHR ''.'' \<notin> set (dec n)" if "0 \<le> n" for n by (rule digits_no_char [OF dec_digits [OF that]]) simp
  have ok: "api_number (dec n)" if "0 \<le> n" "n \<le> 999" for n
    using plain_number_dec [OF that(1)] length_dec_le [of n 3] that by (simp add: api_number_def)
  have "split_on CHR ''.'' (formatClientApiVersion v) = [dec (ca_major v), dec (ca_minor v)]"
    using assms by (simp add: formatClientApiVersion_def split_on_append split_on_none no_dot)
  then show ?thesis using assms ok by (simp add: parseClientApiVersion_def)
qed

lemma takeWhile_until: "c \<notin> set a \<Longrightarrow> takeWhile (\<lambda>x. x \<noteq> c) (a @ c # s) = a \<and> dropWhile (\<lambda>x. x \<noteq> c) (a @ c # s) = c # s"
  by (induction a) auto

lemma kind_no_slash: "kind_ok s \<Longrightarrow> CHR ''/'' \<notin> set s \<and> \<not> is_ws_char (hd s) \<and> s \<noteq> []"
  by (cases s) (auto simp: kind_ok_def list_all_iff is_lower_char_def is_digit_char_def is_ws_char_def)

lemma version_no_space: "version_ok s \<Longrightarrow> CHR '' '' \<notin> set s"
  by (cases s) (auto simp: version_ok_def list_all_iff identifier_char_def is_lower_char_def is_upper_char_def is_digit_char_def)

lemma trim_id: "s \<noteq> [] \<Longrightarrow> \<not> is_ws_char (hd s) \<Longrightarrow> \<not> is_ws_char (last s) \<Longrightarrow> trim_ws s = s"
proof -
  assume s: "s \<noteq> []" "\<not> is_ws_char (hd s)" "\<not> is_ws_char (last s)"
  have one: "t \<noteq> [] \<Longrightarrow> \<not> is_ws_char (hd t) \<Longrightarrow> dropWhile is_ws_char t = t" for t by (cases t) auto
  have "rev s \<noteq> []" "\<not> is_ws_char (hd (rev s))" using s by (simp_all add: hd_rev)
  then show ?thesis using one [OF s(1,2)] one [of "rev s"] by (simp add: trim_ws_def)
qed

text \<open>What the reader makes of a text of the printed shape.\<close>

lemma parse_identity_parts:
  assumes "takeWhile (\<lambda>c. c \<noteq> CHR ''/'') t = kind" "dropWhile (\<lambda>c. c \<noteq> CHR ''/'') t = CHR ''/'' # rest"
    and "takeWhile (\<lambda>c. c \<noteq> CHR '' '') rest = version" "dropWhile (\<lambda>c. c \<noteq> CHR '' '') rest = '' api/'' @ a"
  shows "parse_identity_text t =
    (if kind_ok kind \<and> version_ok version
     then map_option (\<lambda>a. \<lparr>ci_kind = kind, ci_version = version, ci_api = a\<rparr>) (parseClientApiVersion a) else None)"
proof -
  have slash: "CHR ''/'' \<in> set t" using assms(2) by (metis list.set_intros(1) set_dropWhileD)
  show ?thesis unfolding parse_identity_text_def Let_def assms(1,2) using slash by (simp add: assms(3,4))
qed

lemma last_dec: "0 \<le> n \<Longrightarrow> \<not> is_ws_char (last (dec n))"
proof -
  assume "0 \<le> n"
  then have "is_digit_char (last (dec n))" using dec_digits [of n] by (simp add: list_all_iff)
  then show ?thesis by (auto simp: is_digit_char_def is_ws_char_def)
qed

text \<open>
  The client API range. What an app prints about itself the server reads back; and of the apps of
  the server's major version exactly those at the minor before the server's or later are served, so
  an app built for one release works with the next release's server and stops with the one after.
\<close>

lemma client_api_contract:
  assumes "0 \<le> ca_major v" "ca_major v \<le> 999" "0 \<le> ca_minor v" "ca_minor v \<le> 999"
    and "kind_ok kind" "version_ok version"
  shows "parseClientIdentity (Some (formatClientIdentity \<lparr>ci_kind = kind, ci_version = version, ci_api = v\<rparr>)) =
      Some \<lparr>ci_kind = kind, ci_version = version, ci_api = v\<rparr> \<and>
    (ca_major server = ca_major v \<longrightarrow> (isClientServed server (Some v) \<longleftrightarrow> ca_minor server - 1 \<le> ca_minor v)) \<and>
    (clientCompatibility server (Some v) = CURRENT \<longleftrightarrow> v = server)"
proof -
  let ?tail = "version @ '' api/'' @ formatClientApiVersion v"
  let ?t = "kind @ CHR ''/'' # ?tail"
  have shown: "formatClientIdentity \<lparr>ci_kind = kind, ci_version = version, ci_api = v\<rparr> = ?t"
    by (simp add: formatClientIdentity_def)
  note kind = kind_no_slash [OF assms(5)]
  have parts: "takeWhile (\<lambda>c. c \<noteq> CHR ''/'') ?t = kind" "dropWhile (\<lambda>c. c \<noteq> CHR ''/'') ?t = CHR ''/'' # ?tail"
    using takeWhile_until [of "CHR ''/''" kind ?tail] kind by simp_all
  have tail: "takeWhile (\<lambda>c. c \<noteq> CHR '' '') ?tail = version" "dropWhile (\<lambda>c. c \<noteq> CHR '' '') ?tail = '' api/'' @ formatClientApiVersion v"
    using takeWhile_until [of "CHR '' ''" version "''api/'' @ formatClientApiVersion v"] version_no_space [OF assms(6)] by simp_all
  have "last ?t = last (dec (ca_minor v))" using assms(3) by (simp add: formatClientApiVersion_def)
  then have "trim_ws ?t = ?t" using kind last_dec [OF assms(3)] by (intro trim_id) auto
  then have "parseClientIdentity (Some (formatClientIdentity \<lparr>ci_kind = kind, ci_version = version, ci_api = v\<rparr>)) =
      Some \<lparr>ci_kind = kind, ci_version = version, ci_api = v\<rparr>"
    unfolding shown parseClientIdentity_def option.case
    using parse_identity_parts [OF parts tail] assms(5,6) parse_format_api [OF assms(1-4)] by simp
  moreover have "ca_major server = ca_major v \<longrightarrow> (isClientServed server (Some v) \<longleftrightarrow> ca_minor server - 1 \<le> ca_minor v)"
    using assms(3) by (auto simp: isClientServed_def clientCompatibility_def compareClientApi_def oldestServedClientApi_def Let_def)
  moreover have "clientCompatibility server (Some v) = CURRENT \<longleftrightarrow> v = server"
    by (cases v; cases server) (auto simp: clientCompatibility_def compareClientApi_def Let_def)
  ultimately show ?thesis by blast
qed

theorem client_api_contract_witness:
  "isClientServed \<lparr>ca_major = 1, ca_minor = 4\<rparr> (Some \<lparr>ca_major = 1, ca_minor = 3\<rparr>)"
proof -
  have "kind_ok ''waiter-app''" "version_ok ''1.4.2''" by code_simp+
  then show ?thesis
    using client_api_contract [of "\<lparr>ca_major = 1, ca_minor = 3\<rparr>" "''waiter-app''" "''1.4.2''" "\<lparr>ca_major = 1, ca_minor = 4\<rparr>"] by simp
qed

end
