(* ===== verification/Rate_Limits.thy ===== *)
theory Rate_Limits
  imports Prelude Complex_Main
begin

text \<open>
  The token buckets of \<open>apps/server/src/common/flood-limits.ts\<close>: one bucket, and a bucket per key with
  full ones forgotten once there are many. Times are milliseconds and may be fractional: they are
  rationals, so the rounding of double arithmetic on fractions of a millisecond is left out.
  The lemmas bound what is let through in a span of time, by a credit that only time adds to.
\<close>

section \<open>One bucket\<close>

record TokenBucket =
  tb_burst :: int
  tb_everyMs :: rat
  tb_lastMs :: rat
  tb_tokens :: int

definition new_bucket :: "int \<Rightarrow> rat \<Rightarrow> rat \<Rightarrow> TokenBucket" where
  "new_bucket burst everyMs lastMs = \<lparr>tb_burst = burst, tb_everyMs = everyMs, tb_lastMs = lastMs, tb_tokens = burst\<rparr>"

definition refill :: "rat \<Rightarrow> TokenBucket \<Rightarrow> TokenBucket" where
  "refill nowMs b =
     (let earned = \<lfloor>(nowMs - tb_lastMs b) / tb_everyMs b\<rfloor>
      in if 0 < earned
         then b\<lparr>tb_tokens := min (tb_burst b) (tb_tokens b + earned),
                tb_lastMs := tb_lastMs b + of_int earned * tb_everyMs b\<rparr>
         else b)"

definition take_token :: "rat \<Rightarrow> TokenBucket \<Rightarrow> bool \<times> TokenBucket" where
  "take_token nowMs b =
     (let b' = refill nowMs b
      in if tb_tokens b' = 0 then (False, b') else (True, b'\<lparr>tb_tokens := tb_tokens b' - 1\<rparr>))"

definition full :: "rat \<Rightarrow> TokenBucket \<Rightarrow> bool \<times> TokenBucket" where
  "full nowMs b = (let b' = refill nowMs b in (tb_tokens b' = tb_burst b', b'))"

section \<open>A bucket per key\<close>

record Rate =
  rate_burst :: int
  rate_perSecond :: rat

record KeyedBuckets =
  kb_rate :: Rate
  kb_maxKeys :: nat
  kb_everyMs :: rat
  kb_buckets :: "(string \<times> TokenBucket) list"

definition new_buckets :: "Rate \<Rightarrow> nat \<Rightarrow> KeyedBuckets" where
  "new_buckets r maxKeys =
     \<lparr>kb_rate = r, kb_maxKeys = maxKeys, kb_everyMs = 1000 / rate_perSecond r, kb_buckets = []\<rparr>"

text \<open>The loop over the map: a bucket looked at is refilled, a full one deleted.\<close>

fun forget_full :: "rat \<Rightarrow> (string \<times> TokenBucket) list \<Rightarrow> (string \<times> TokenBucket) list" where
  "forget_full nowMs [] = []"
| "forget_full nowMs ((key, b) # m) =
     (case full nowMs b of (is_full, b') \<Rightarrow>
        if is_full then forget_full nowMs m else (key, b') # forget_full nowMs m)"

definition forgetFull :: "rat \<Rightarrow> KeyedBuckets \<Rightarrow> KeyedBuckets" where
  "forgetFull nowMs k = k\<lparr>kb_buckets := forget_full nowMs (kb_buckets k)\<rparr>"

definition take_key :: "string \<Rightarrow> rat \<Rightarrow> KeyedBuckets \<Rightarrow> bool \<times> KeyedBuckets" where
  "take_key key nowMs k =
     (case map_of (kb_buckets k) key of
        Some bucket \<Rightarrow>
          (case take_token nowMs bucket of (ok, b) \<Rightarrow> (ok, k\<lparr>kb_buckets := map_set key b (kb_buckets k)\<rparr>))
      | None \<Rightarrow>
          let k' = (if kb_maxKeys k \<le> length (kb_buckets k) then forgetFull nowMs k else k);
              bucket = new_bucket (rate_burst (kb_rate k)) (kb_everyMs k) nowMs
          in case take_token nowMs bucket of (ok, b) \<Rightarrow> (ok, k'\<lparr>kb_buckets := map_set key b (kb_buckets k')\<rparr>))"

section \<open>What a limiter lets through\<close>

text \<open>
  A limiter answers calls one after the other. Its credit falls by one for every call of interest it
  lets through, never rises at a call, and rises over time by at most a rate: then what it lets
  through in a span of time is the credit it started with and what the time earned.
\<close>

locale limiter =
  fixes step :: "'s \<Rightarrow> 'e \<Rightarrow> bool \<times> 's"
    and moment :: "'e \<Rightarrow> rat"
    and counts :: "'e \<Rightarrow> bool"
    and ok :: "'s \<Rightarrow> rat \<Rightarrow> bool"
    and credit :: "'s \<Rightarrow> rat \<Rightarrow> rat"
    and every :: "'s \<Rightarrow> rat"
  assumes every: "ok s t \<Longrightarrow> 0 < every s"
    and let_through: "ok s (moment e) \<Longrightarrow> step s e = (True, s') \<Longrightarrow> counts e \<Longrightarrow>
      credit s' (moment e) + 1 \<le> credit s (moment e)"
    and never_rises: "ok s (moment e) \<Longrightarrow> step s e = (r, s') \<Longrightarrow> credit s' (moment e) \<le> credit s (moment e)"
    and stays_ok: "ok s (moment e) \<Longrightarrow> step s e = (r, s') \<Longrightarrow> ok s' (moment e) \<and> every s' = every s"
    and later_ok: "ok s t \<Longrightarrow> t \<le> u \<Longrightarrow> ok s u"
    and earns: "ok s t \<Longrightarrow> t \<le> u \<Longrightarrow> credit s u \<le> credit s t + (u - t) / every s"
    and in_credit: "ok s t \<Longrightarrow> 0 \<le> credit s t"
begin

fun admitted :: "'s \<Rightarrow> 'e list \<Rightarrow> nat" where
  "admitted s [] = 0"
| "admitted s (e # es) =
     (case step s e of (r, s') \<Rightarrow> (if r \<and> counts e then 1 else 0) + admitted s' es)"

lemma admitted_bound:
  assumes "ok s t" "sorted (t # map moment es)" "\<forall>e \<in> set es. moment e \<le> u" "t \<le> u"
  shows "rat_of_nat (admitted s es) \<le> credit s t + (u - t) / every s"
  using assms
proof (induction es arbitrary: s t)
  case Nil
  then have "0 \<le> credit s t" "0 \<le> (u - t) / every s" using in_credit every [of s t] by simp_all
  then show ?case by simp
next
  case (Cons e es)
  obtain r s' where run: "step s e = (r, s')" by fastforce
  have te: "t \<le> moment e" "moment e \<le> u" using Cons.prems by simp_all
  have ok: "ok s (moment e)" using later_ok Cons.prems(1) te(1) by blast
  note s' = stays_ok [OF ok run]
  have cost: "credit s' (moment e) + (if r \<and> counts e then 1 else 0) \<le> credit s (moment e)"
    using let_through [OF ok, of s'] never_rises [OF ok run] run by auto
  have "rat_of_nat (admitted s' es) \<le> credit s' (moment e) + (u - moment e) / every s"
    using Cons.IH [of s' "moment e"] s' Cons.prems te by simp
  moreover have "credit s (moment e) \<le> credit s t + (moment e - t) / every s" by (rule earns [OF Cons.prems(1) te(1)])
  moreover have "(u - moment e) / every s + (moment e - t) / every s = (u - t) / every s"
    by (simp flip: add_divide_distrib)
  ultimately show ?case using cost run by (auto split: if_splits)
qed

end

text \<open>The credit of a bucket: its tokens and what time has earned, never a whole token over the burst.\<close>

definition bucket_credit :: "TokenBucket \<Rightarrow> rat \<Rightarrow> rat" where
  "bucket_credit b t = min (of_int (tb_tokens b) + (t - tb_lastMs b) / tb_everyMs b) (of_int (tb_burst b) + 1)"

definition bucket_ok :: "TokenBucket \<Rightarrow> rat \<Rightarrow> bool" where
  "bucket_ok b t \<longleftrightarrow> 0 < tb_everyMs b \<and> 0 \<le> tb_tokens b \<and> tb_tokens b \<le> tb_burst b \<and> tb_lastMs b \<le> t"

lemma refill_same [simp]: "tb_everyMs (refill t b) = tb_everyMs b" "tb_burst (refill t b) = tb_burst b"
  by (simp_all add: refill_def Let_def)

lemma refill_bucket:
  assumes "bucket_ok b t"
  shows "bucket_ok (refill t b) t" "bucket_credit (refill t b) t \<le> bucket_credit b t"
    "t - tb_everyMs b < tb_lastMs (refill t b)"
    "bucket_credit (refill t b) t = of_int (tb_tokens (refill t b)) + (t - tb_lastMs (refill t b)) / tb_everyMs b"
proof -
  let ?every = "tb_everyMs b" and ?x = "(t - tb_lastMs b) / tb_everyMs b"
  define f where "f = \<lfloor>?x\<rfloor>"
  have pos: "0 < ?every" using assms by (simp add: bucket_ok_def)
  have b': "refill t b = (if 0 < f then b\<lparr>tb_tokens := min (tb_burst b) (tb_tokens b + f),
      tb_lastMs := tb_lastMs b + of_int f * ?every\<rparr> else b)"
    by (simp add: refill_def Let_def f_def)
  have last: "of_int f * ?every \<le> t - tb_lastMs b"
    unfolding f_def using of_int_floor_le [of ?x] pos by (simp only: pos_le_divide_eq)
  then show "bucket_ok (refill t b) t" using assms by (auto simp: bucket_ok_def b')
  have "?x < of_int (f + 1)" unfolding f_def using floor_correct [of ?x] by simp
  then have "t - tb_lastMs b < of_int (f + 1) * ?every" using pos by (simp only: pos_divide_less_eq)
  then have nxt: "t - tb_lastMs b < of_int f * ?every + ?every" by (simp add: distrib_right)
  show recent: "t - ?every < tb_lastMs (refill t b)"
  proof (cases "0 < f")
    case True
    then show ?thesis using nxt by (simp add: b')
  next
    case False
    then have "of_int f * ?every \<le> 0" using pos by (simp add: mult_le_0_iff)
    then show ?thesis using nxt False by (simp add: b')
  qed
  have part: "(t - tb_lastMs (refill t b)) / ?every < 1" using recent pos by (simp add: field_simps)
  moreover have "tb_tokens (refill t b) \<le> tb_burst b" using assms by (auto simp: bucket_ok_def b')
  ultimately show credit: "bucket_credit (refill t b) t = of_int (tb_tokens (refill t b)) + (t - tb_lastMs (refill t b)) / ?every"
    by (auto simp: bucket_credit_def intro!: min.absorb1 add_mono)
  have "(t - (tb_lastMs b + of_int f * ?every)) / ?every = ?x - of_int f"
    using pos by (simp add: field_simps)
  moreover have "(of_int (min (tb_burst b) (tb_tokens b + f)) :: rat) \<le> of_int (tb_tokens b) + of_int f"
    by (simp flip: of_int_add)
  ultimately have "bucket_credit (refill t b) t \<le> of_int (tb_tokens b) + ?x"
    unfolding credit by (auto simp: b')
  moreover have "bucket_credit (refill t b) t \<le> of_int (tb_burst b) + 1" by (simp add: bucket_credit_def)
  ultimately show "bucket_credit (refill t b) t \<le> bucket_credit b t" by (simp add: bucket_credit_def [of b])
qed

lemma bucket_credit_earns:
  assumes "bucket_ok b t" "t \<le> u"
  shows "bucket_credit b u \<le> bucket_credit b t + (u - t) / tb_everyMs b"
proof -
  have "(u - tb_lastMs b) / tb_everyMs b = (t - tb_lastMs b) / tb_everyMs b + (u - t) / tb_everyMs b"
    by (simp flip: add_divide_distrib)
  moreover have "0 \<le> (u - t) / tb_everyMs b" using assms by (simp add: bucket_ok_def)
  ultimately show ?thesis by (auto simp: bucket_credit_def min_def)
qed

lemma bucket_credit_bounds: "bucket_ok b t \<Longrightarrow> 0 \<le> bucket_credit b t" "bucket_credit b t \<le> of_int (tb_burst b) + 1"
  by (simp_all add: bucket_ok_def bucket_credit_def)

lemma take_token_bucket:
  assumes "bucket_ok b t" "take_token t b = (r, b')"
  shows "bucket_ok b' t" "tb_everyMs b' = tb_everyMs b" "tb_burst b' = tb_burst b"
    "bucket_credit b' t + (if r then 1 else 0) \<le> bucket_credit b t"
proof -
  note filled = refill_bucket [OF assms(1)]
  show "bucket_ok b' t" "tb_everyMs b' = tb_everyMs b" "tb_burst b' = tb_burst b"
    using filled(1) assms(2) by (auto simp: take_token_def Let_def bucket_ok_def split: if_splits)
  have "bucket_credit b' t + (if r then 1 else 0) \<le> bucket_credit (refill t b) t"
    using assms(2) unfolding filled(4)
    by (auto simp: take_token_def Let_def filled(4) bucket_credit_def split: if_splits)
  then show "bucket_credit b' t + (if r then 1 else 0) \<le> bucket_credit b t" using filled(2) by simp
qed

interpretation buckets: limiter "\<lambda>b t. take_token t b" "\<lambda>t. t" "\<lambda>_. True" bucket_ok bucket_credit tb_everyMs
proof
  fix b :: TokenBucket and t u :: rat and r and b' :: TokenBucket
  show "bucket_ok b t \<Longrightarrow> 0 < tb_everyMs b" by (simp add: bucket_ok_def)
  show "bucket_ok b t \<Longrightarrow> take_token t b = (True, b') \<Longrightarrow> bucket_credit b' t + 1 \<le> bucket_credit b t"
    using take_token_bucket(4) [of b t True b'] by simp
  show "bucket_ok b t \<Longrightarrow> take_token t b = (r, b') \<Longrightarrow> bucket_credit b' t \<le> bucket_credit b t"
    using take_token_bucket(4) [of b t r b'] by (simp split: if_splits)
  show "bucket_ok b t \<Longrightarrow> take_token t b = (r, b') \<Longrightarrow> bucket_ok b' t \<and> tb_everyMs b' = tb_everyMs b"
    using take_token_bucket by blast
  show "bucket_ok b t \<Longrightarrow> t \<le> u \<Longrightarrow> bucket_ok b u" by (simp add: bucket_ok_def)
  show "bucket_ok b t \<Longrightarrow> t \<le> u \<Longrightarrow> bucket_credit b u \<le> bucket_credit b t + (u - t) / tb_everyMs b"
    using bucket_credit_earns [of b t u] by simp
  show "bucket_ok b t \<Longrightarrow> 0 \<le> bucket_credit b t"
    by (rule bucket_credit_bounds)
qed

text \<open>A caller who waits as long as a token takes is never refused.\<close>

lemma take_token_after_wait:
  assumes "bucket_ok b t" "0 < tb_burst b" "tb_lastMs b + tb_everyMs b \<le> t"
  shows "fst (take_token t b)"
proof -
  have "1 \<le> (t - tb_lastMs b) / tb_everyMs b" using assms by (simp add: bucket_ok_def field_simps)
  then have earned: "1 \<le> \<lfloor>(t - tb_lastMs b) / tb_everyMs b\<rfloor>" by (simp add: le_floor_iff)
  define f where "f = \<lfloor>(t - tb_lastMs b) / tb_everyMs b\<rfloor>"
  have "0 < min (tb_burst b) (tb_tokens b + f)"
    using assms(1,2) earned unfolding f_def [symmetric] by (auto simp: bucket_ok_def)
  then have "0 < tb_tokens (refill t b)"
    using earned unfolding f_def [symmetric] by (simp add: refill_def Let_def f_def [symmetric])
  then show ?thesis by (simp add: take_token_def Let_def)
qed

section \<open>What the keyed buckets let through\<close>

definition keyed_ok :: "KeyedBuckets \<Rightarrow> rat \<Rightarrow> bool" where
  "keyed_ok k t \<longleftrightarrow>
     0 < kb_everyMs k \<and> 0 \<le> rate_burst (kb_rate k) \<and> distinct (map fst (kb_buckets k)) \<and>
     (\<forall>key b. map_of (kb_buckets k) key = Some b \<longrightarrow>
        bucket_ok b t \<and> tb_everyMs b = kb_everyMs k \<and> tb_burst b = rate_burst (kb_rate k))"

text \<open>A key without a bucket has the credit of a new one.\<close>

definition key_credit :: "string \<Rightarrow> KeyedBuckets \<Rightarrow> rat \<Rightarrow> rat" where
  "key_credit key k t =
     (case map_of (kb_buckets k) key of None \<Rightarrow> of_int (rate_burst (kb_rate k)) | Some b \<Rightarrow> bucket_credit b t)"

lemma forget_full_Cons:
  "forget_full t (p # m) =
     (if fst (full t (snd p)) then forget_full t m else (fst p, refill t (snd p)) # forget_full t m)"
  by (cases p) (simp add: full_def Let_def)

lemma forget_full_keys: "fst ` set (forget_full t m) \<subseteq> fst ` set m"
  by (induction m) (auto simp: forget_full_Cons simp del: forget_full.simps(2))

lemma forget_full_distinct: "distinct (map fst m) \<Longrightarrow> distinct (map fst (forget_full t m))"
proof (induction m)
  case (Cons p m)
  then show ?case using forget_full_keys [of t m] by (auto simp: forget_full_Cons simp del: forget_full.simps(2))
qed simp

lemma forget_full_lookup:
  "distinct (map fst m) \<Longrightarrow> map_of (forget_full t m) key =
     (case map_of m key of None \<Rightarrow> None
      | Some b \<Rightarrow> if fst (full t b) then None else Some (refill t b))"
proof (induction m)
  case (Cons p m)
  then have "map_of m (fst p) = None" by (simp add: map_of_eq_None_iff)
  with Cons show ?case by (auto simp: forget_full_Cons simp del: forget_full.simps(2))
qed simp

lemma forgetFull_keyed:
  assumes "keyed_ok k t"
  shows "keyed_ok (forgetFull t k) t" "key_credit key (forgetFull t k) t \<le> key_credit key k t"
    "kb_everyMs (forgetFull t k) = kb_everyMs k" "kb_rate (forgetFull t k) = kb_rate k"
proof -
  have d: "distinct (map fst (kb_buckets k))" using assms by (simp add: keyed_ok_def)
  show "kb_everyMs (forgetFull t k) = kb_everyMs k" "kb_rate (forgetFull t k) = kb_rate k"
    by (simp_all add: forgetFull_def)
  show "keyed_ok (forgetFull t k) t"
    using assms forget_full_distinct [OF d] refill_bucket(1)
    by (auto simp: keyed_ok_def forgetFull_def forget_full_lookup [OF d] split: option.splits if_splits)
  show "key_credit key (forgetFull t k) t \<le> key_credit key k t"
  proof (cases "map_of (kb_buckets k) key")
    case None
    then show ?thesis by (simp add: key_credit_def forgetFull_def forget_full_lookup [OF d])
  next
    case (Some b)
    then have b: "bucket_ok b t" "tb_burst b = rate_burst (kb_rate k)" using assms by (auto simp: keyed_ok_def)
    note filled = refill_bucket [OF b(1)]
    show ?thesis
    proof (cases "fst (full t b)")
      case True
      then have "tb_tokens (refill t b) = tb_burst b" by (simp add: full_def Let_def)
      moreover have "0 \<le> (t - tb_lastMs (refill t b)) / tb_everyMs b" using filled(1) by (simp add: bucket_ok_def)
      ultimately have "of_int (tb_burst b) \<le> bucket_credit b t" using filled(2,4) by linarith
      then show ?thesis using Some True b(2) by (simp add: key_credit_def forgetFull_def forget_full_lookup [OF d])
    next
      case False
      then show ?thesis using Some filled(2) by (simp add: key_credit_def forgetFull_def forget_full_lookup [OF d])
    qed
  qed
qed

lemma map_set_bucket:
  assumes "keyed_ok k t" "bucket_ok b t" "tb_everyMs b = kb_everyMs k" "tb_burst b = rate_burst (kb_rate k)"
  shows "keyed_ok (k\<lparr>kb_buckets := map_set key b (kb_buckets k)\<rparr>) t"
  using assms by (auto simp: keyed_ok_def distinct_map_set)

lemma take_key_keyed:
  assumes "keyed_ok k t" "take_key key' t k = (r, k')"
  shows "keyed_ok k' t \<and> kb_everyMs k' = kb_everyMs k \<and> kb_rate k' = kb_rate k \<and>
    key_credit key k' t + (if r \<and> key' = key then 1 else 0) \<le> key_credit key k t"
proof (cases "map_of (kb_buckets k) key'")
  case (Some b)
  then have b: "bucket_ok b t" "tb_everyMs b = kb_everyMs k" "tb_burst b = rate_burst (kb_rate k)"
    using assms(1) by (auto simp: keyed_ok_def)
  obtain b' where run: "take_token t b = (r, b')" "k' = k\<lparr>kb_buckets := map_set key' b' (kb_buckets k)\<rparr>"
    using assms(2) Some by (auto simp: take_key_def split: prod.splits)
  note b' = take_token_bucket [OF b(1) run(1)]
  have "keyed_ok k' t" unfolding run(2) using b b' by (intro map_set_bucket [OF assms(1)]) simp_all
  then show ?thesis using b'(4) Some by (auto simp: run(2) key_credit_def split: option.splits)
next
  case None
  let ?k = "if kb_maxKeys k \<le> length (kb_buckets k) then forgetFull t k else k"
  let ?b = "new_bucket (rate_burst (kb_rate k)) (kb_everyMs k) t"
  have k: "keyed_ok ?k t" "key_credit key ?k t \<le> key_credit key k t" "kb_everyMs ?k = kb_everyMs k" "kb_rate ?k = kb_rate k"
    using forgetFull_keyed [OF assms(1)] assms(1) by auto
  have b: "bucket_ok ?b t" "tb_everyMs ?b = kb_everyMs k" "tb_burst ?b = rate_burst (kb_rate k)"
    using assms(1) by (simp_all add: new_bucket_def bucket_ok_def keyed_ok_def)
  have new_credit: "bucket_credit ?b t = of_int (rate_burst (kb_rate k))"
    by (simp add: bucket_credit_def new_bucket_def)
  obtain b' where run: "take_token t ?b = (r, b')" "k' = ?k\<lparr>kb_buckets := map_set key' b' (kb_buckets ?k)\<rparr>"
    using assms(2) None by (auto simp: take_key_def Let_def split: prod.splits)
  note b' = take_token_bucket [OF b(1) run(1)]
  have "keyed_ok k' t" unfolding run(2) using b b' k by (intro map_set_bucket [OF k(1)]) (simp_all del: if_split)
  moreover have "key_credit key k' t + (if r \<and> key' = key then 1 else 0) \<le> key_credit key k t"
  proof (cases "key' = key")
    case True
    then show ?thesis using b'(4) None new_credit by (simp add: run(2) key_credit_def)
  next
    case False
    then have "key_credit key k' t = key_credit key ?k t" unfolding run(2) by (simp add: key_credit_def split: option.splits)
    then show ?thesis using k(2) False by simp
  qed
  ultimately show ?thesis using k(3,4) by (simp add: run(2))
qed

definition keyed_step :: "KeyedBuckets \<Rightarrow> string \<times> rat \<Rightarrow> bool \<times> KeyedBuckets" where
  "keyed_step k e = take_key (fst e) (snd e) k"

lemma keyed_step_pair: "keyed_step k (key', t) = take_key key' t k"
  by (simp add: keyed_step_def)

lemma key_credit_most: "keyed_ok k t \<Longrightarrow> key_credit key k t \<le> of_int (rate_burst (kb_rate k)) + 1"
proof (cases "map_of (kb_buckets k) key")
  case (Some b)
  assume "keyed_ok k t"
  then have "tb_burst b = rate_burst (kb_rate k)" using Some by (simp add: keyed_ok_def)
  then show ?thesis using Some bucket_credit_bounds(2) [of b t] by (simp add: key_credit_def)
qed (simp add: key_credit_def)

interpretation keyed: limiter keyed_step snd "\<lambda>e. fst e = key" keyed_ok "key_credit key" kb_everyMs
  for key :: string
proof
  fix k k' :: KeyedBuckets and t u :: rat and e :: "string \<times> rat" and r
  show "keyed_ok k t \<Longrightarrow> 0 < kb_everyMs k" by (simp add: keyed_ok_def)
  have step: "keyed_ok k' (snd e) \<and> kb_everyMs k' = kb_everyMs k \<and>
      key_credit key k' (snd e) + (if r \<and> fst e = key then 1 else 0) \<le> key_credit key k (snd e)"
    if "keyed_ok k (snd e)" "keyed_step k e = (r, k')" for r
    using take_key_keyed [OF that(1), of "fst e" r k' key] that(2) by (simp add: keyed_step_def)
  show "keyed_ok k (snd e) \<Longrightarrow> keyed_step k e = (True, k') \<Longrightarrow> fst e = key \<Longrightarrow>
      key_credit key k' (snd e) + 1 \<le> key_credit key k (snd e)"
    using step [of True] by simp
  show "keyed_ok k (snd e) \<Longrightarrow> keyed_step k e = (r, k') \<Longrightarrow>
      key_credit key k' (snd e) \<le> key_credit key k (snd e)"
    using step [of r] by (simp split: if_splits)
  show "keyed_ok k (snd e) \<Longrightarrow> keyed_step k e = (r, k') \<Longrightarrow>
      keyed_ok k' (snd e) \<and> kb_everyMs k' = kb_everyMs k"
    using step [of r] by simp
  show "keyed_ok k t \<Longrightarrow> t \<le> u \<Longrightarrow> keyed_ok k u" by (fastforce simp: keyed_ok_def bucket_ok_def)
  show "keyed_ok k t \<Longrightarrow> t \<le> u \<Longrightarrow> key_credit key k u \<le> key_credit key k t + (u - t) / kb_everyMs k"
    using bucket_credit_earns by (fastforce simp: keyed_ok_def key_credit_def split: option.split)
  show "keyed_ok k t \<Longrightarrow> 0 \<le> key_credit key k t"
    using bucket_credit_bounds(1) by (fastforce simp: keyed_ok_def key_credit_def split: option.split)
qed

text \<open>The state after calls, and how many calls of a key were let through.\<close>

fun after_calls :: "KeyedBuckets \<Rightarrow> (string \<times> rat) list \<Rightarrow> KeyedBuckets" where
  "after_calls k [] = k"
| "after_calls k ((key, t) # calls) = after_calls (snd (take_key key t k)) calls"

fun let_in :: "string \<Rightarrow> KeyedBuckets \<Rightarrow> (string \<times> rat) list \<Rightarrow> nat" where
  "let_in key k [] = 0"
| "let_in key k ((key', t) # calls) =
     (if fst (take_key key' t k) \<and> key' = key then 1 else 0) + let_in key (snd (take_key key' t k)) calls"

lemma let_in_admitted: "let_in key k calls = keyed.admitted key k calls"
  by (induction key k calls rule: let_in.induct) (simp_all add: keyed_step_pair case_prod_beta)

lemma after_calls_ok:
  assumes "keyed_ok k t" "sorted (t # map snd calls)" "\<forall>c \<in> set calls. snd c \<le> u" "t \<le> u"
  shows "keyed_ok (after_calls k calls) u \<and> kb_everyMs (after_calls k calls) = kb_everyMs k \<and>
    kb_rate (after_calls k calls) = kb_rate k"
  using assms
proof (induction k calls arbitrary: t rule: after_calls.induct)
  case (1 k)
  then show ?case using keyed.later_ok by simp
next
  case (2 k key now calls)
  have "keyed_ok k now" using keyed.later_ok [OF "2.prems"(1)] "2.prems"(2) by simp
  from take_key_keyed [OF this, of key "fst (take_key key now k)" "snd (take_key key now k)" key]
  have k': "keyed_ok (snd (take_key key now k)) now" "kb_everyMs (snd (take_key key now k)) = kb_everyMs k"
    "kb_rate (snd (take_key key now k)) = kb_rate k" by simp_all
  have "keyed_ok (after_calls (snd (take_key key now k)) calls) u \<and>
      kb_everyMs (after_calls (snd (take_key key now k)) calls) = kb_everyMs (snd (take_key key now k)) \<and>
      kb_rate (after_calls (snd (take_key key now k)) calls) = kb_rate (snd (take_key key now k))"
    using "2.prems" by (intro "2.IH" [OF k'(1)]) auto
  then show ?case using k' by simp
qed

text \<open>
  C38: the limit of a key holds in every span of time. Whatever was asked before, for whatever keys, and
  whatever was forgotten meanwhile, in a span no more calls of a key are let through than its burst,
  one, and its rate times the span.
\<close>

theorem keyed_buckets_bound:
  assumes "0 < rate_perSecond r" "0 \<le> rate_burst r"
    and "sorted (map snd (earlier @ calls))" "\<forall>c \<in> set earlier. snd c \<le> s" "\<forall>c \<in> set calls. s \<le> snd c \<and> snd c \<le> u" "s \<le> u"
  shows "rat_of_nat (let_in key (after_calls (new_buckets r maxKeys) earlier) calls) \<le>
    of_int (rate_burst r) + 1 + (u - s) / 1000 * rate_perSecond r"
proof -
  let ?start = "new_buckets r maxKeys" and ?k = "after_calls (new_buckets r maxKeys) earlier"
  define t0 where "t0 = (case earlier of [] \<Rightarrow> s | c # _ \<Rightarrow> snd c)"
  have "keyed_ok ?start t0" using assms(1,2) by (simp add: keyed_ok_def new_buckets_def)
  moreover have "sorted (t0 # map snd earlier)" "t0 \<le> s"
    using assms(3,4) by (cases earlier; force simp: t0_def sorted_append)+
  ultimately have after: "keyed_ok ?k s \<and> kb_everyMs ?k = kb_everyMs ?start \<and> kb_rate ?k = kb_rate ?start"
    using assms(4) by (intro after_calls_ok [of ?start t0])
  then have k: "keyed_ok ?k s" "kb_everyMs ?k = kb_everyMs ?start" by simp_all
  have rate: "kb_rate ?k = r" using after by (simp add: new_buckets_def [of r])
  have "sorted (s # map snd calls)" using assms(3,5) by (auto simp: sorted_append)
  then have "rat_of_nat (let_in key ?k calls) \<le> key_credit key ?k s + (u - s) / kb_everyMs ?k"
    unfolding let_in_admitted using assms(5,6) by (intro keyed.admitted_bound [OF k(1)]) auto
  moreover have "key_credit key ?k s \<le> of_int (rate_burst r) + 1"
    using key_credit_most [OF k(1), of key] rate by simp
  moreover have "(u - s) / kb_everyMs ?k = (u - s) / 1000 * rate_perSecond r"
    unfolding k(2) by (simp add: new_buckets_def)
  ultimately show ?thesis by linarith
qed

theorem keyed_buckets_bound_witness:
  "let_in ''10.0.0.7'' (new_buckets \<lparr>rate_burst = 2, rate_perSecond = 1\<rparr> 10)
     [(''10.0.0.7'', 0), (''10.0.0.7'', 1), (''10.0.0.9'', 2), (''10.0.0.7'', 3), (''10.0.0.7'', 4)] \<le> 3"
proof -
  have "rat_of_nat (let_in ''10.0.0.7'' (after_calls (new_buckets \<lparr>rate_burst = 2, rate_perSecond = 1\<rparr> 10) [])
      [(''10.0.0.7'', 0), (''10.0.0.7'', 1), (''10.0.0.9'', 2), (''10.0.0.7'', 3), (''10.0.0.7'', 4)]) \<le>
      of_int (rate_burst \<lparr>rate_burst = 2, rate_perSecond = 1\<rparr>) + 1 +
      (4 - 0) / 1000 * rate_perSecond \<lparr>rate_burst = 2, rate_perSecond = 1\<rparr>"
    by (rule keyed_buckets_bound) simp_all
  then show ?thesis by (simp del: let_in.simps)
qed

text \<open>One bucket, as the pager broker keeps for the acknowledgements of a pager: its burst, and one per interval.\<close>

lemma new_bucket_bound:
  assumes "0 \<le> burst" "0 < every" "sorted (s # moments)" "\<forall>t \<in> set moments. t \<le> u" "s \<le> u"
  shows "rat_of_nat (buckets.admitted (new_bucket burst every s) moments) \<le> of_int burst + (u - s) / every"
proof -
  have "bucket_ok (new_bucket burst every s) s" using assms by (simp add: bucket_ok_def new_bucket_def)
  from buckets.admitted_bound [OF this, of moments u] assms show ?thesis
    by (simp add: bucket_credit_def new_bucket_def)
qed

section \<open>A log that says each refusal once a period\<close>

record LogEntry =
  le_at :: rat
  le_since :: nat

record ThrottledLog =
  tl_periodMs :: rat
  tl_last :: "(string \<times> LogEntry) list"

text \<open>The part of \<open>note\<close> that writes, and forgets old entries once there are many.\<close>

definition write_key :: "string \<Rightarrow> nat \<Rightarrow> rat \<Rightarrow> ThrottledLog \<Rightarrow> (string \<times> nat) option \<times> ThrottledLog" where
  "write_key key cnt now lg =
     (let last = map_set key \<lparr>le_at = now, le_since = 0\<rparr> (tl_last lg)
      in (Some (key, cnt),
          lg\<lparr>tl_last := (if 1000 < length last
             then filter (\<lambda>(old, entry). now - le_at entry < tl_periodMs lg) last else last)\<rparr>))"

text \<open>\<open>note\<close>: what is written, a key and a count, and the log after it.\<close>

definition note_key :: "string \<Rightarrow> rat \<Rightarrow> ThrottledLog \<Rightarrow> (string \<times> nat) option \<times> ThrottledLog" where
  "note_key key now lg =
     (case map_of (tl_last lg) key of
        Some entry \<Rightarrow>
          if now - le_at entry < tl_periodMs lg
          then (None, lg\<lparr>tl_last := map_set key (entry\<lparr>le_since := le_since entry + 1\<rparr>) (tl_last lg)\<rparr>)
          else write_key key (le_since entry + 1) now lg
      | None \<Rightarrow> write_key key 1 now lg)"

fun log_run :: "ThrottledLog \<Rightarrow> (string \<times> rat) list \<Rightarrow> (rat \<times> string \<times> nat) list" where
  "log_run lg [] = []"
| "log_run lg ((key, now) # calls) =
     (case note_key key now lg of (written, lg') \<Rightarrow>
        (case written of None \<Rightarrow> [] | Some w \<Rightarrow> [(now, w)]) @ log_run lg' calls)"

lemma map_of_filter_keeps:
  "distinct (map fst m) \<Longrightarrow> map_of m k = Some v \<Longrightarrow> P (k, v) \<Longrightarrow> map_of (filter P m) k = Some v"
  by (induction m) (auto split: if_splits)

lemma write_key_other:
  assumes "key \<noteq> k" "map_of (tl_last lg) k = Some entry" "now - le_at entry < tl_periodMs lg"
    and "distinct (map fst (tl_last lg))"
  shows "map_of (tl_last (snd (write_key key cnt now lg))) k = Some entry"
proof -
  let ?last = "map_set key \<lparr>le_at = now, le_since = 0\<rparr> (tl_last lg)"
  have "map_of (filter (\<lambda>(old, entry). now - le_at entry < tl_periodMs lg) ?last) k = Some entry"
    using assms by (intro map_of_filter_keeps distinct_map_set) simp_all
  then show ?thesis using assms(1,2) by (simp add: write_key_def Let_def)
qed

lemma write_key_own:
  assumes "0 < tl_periodMs lg" "distinct (map fst (tl_last lg))"
  shows "map_of (tl_last (snd (write_key key cnt now lg))) key = Some \<lparr>le_at = now, le_since = 0\<rparr>"
proof -
  let ?last = "map_set key \<lparr>le_at = now, le_since = 0\<rparr> (tl_last lg)"
  have "map_of (filter (\<lambda>(old, entry). now - le_at entry < tl_periodMs lg) ?last) key = Some \<lparr>le_at = now, le_since = 0\<rparr>"
    using assms by (intro map_of_filter_keeps distinct_map_set) simp_all
  then show ?thesis by (simp add: write_key_def Let_def)
qed

lemma write_key_facts [simp]:
  "tl_periodMs (snd (write_key key cnt now lg)) = tl_periodMs lg"
  "fst (write_key key cnt now lg) = Some (key, cnt)"
  "distinct (map fst (tl_last lg)) \<Longrightarrow> distinct (map fst (tl_last (snd (write_key key cnt now lg))))"
  by (simp_all add: write_key_def Let_def distinct_map_set distinct_map_filter)

text \<open>What one note does: it is counted under a write less than a period ago, or written.\<close>

lemma note_key_cases:
  obtains (counted) entry where "map_of (tl_last lg) key = Some entry" "now - le_at entry < tl_periodMs lg"
      "note_key key now lg = (None, lg\<lparr>tl_last := map_set key (entry\<lparr>le_since := le_since entry + 1\<rparr>) (tl_last lg)\<rparr>)"
    | (written) cnt where "note_key key now lg = write_key key cnt now lg"
        "\<And>entry. map_of (tl_last lg) key = Some entry \<Longrightarrow> tl_periodMs lg \<le> now - le_at entry"
proof (cases "\<exists>entry. map_of (tl_last lg) key = Some entry \<and> now - le_at entry < tl_periodMs lg")
  case True
  then show ?thesis using counted by (auto simp: note_key_def)
next
  case False
  then show ?thesis
    using written by (cases "map_of (tl_last lg) key") (auto simp: note_key_def)
qed

lemma note_key_facts:
  "tl_periodMs (snd (note_key key now lg)) = tl_periodMs lg"
  "distinct (map fst (tl_last lg)) \<Longrightarrow> distinct (map fst (tl_last (snd (note_key key now lg))))"
  by (cases rule: note_key_cases [of lg key now]; simp add: distinct_map_set)+

lemma log_run_after: "sorted (map snd calls) \<Longrightarrow> \<forall>n \<in> set calls. u \<le> snd n \<Longrightarrow> (t, w) \<in> set (log_run lg calls) \<Longrightarrow> u \<le> t"
  by (induction lg calls rule: log_run.induct) (auto split: prod.splits option.splits)

text \<open>After a write of a key, the next one comes a period later at the soonest.\<close>

lemma log_run_waits:
  assumes "map_of (tl_last lg) k = Some entry" "distinct (map fst (tl_last lg))"
    and "sorted (map snd calls)" "(t, k, c) \<in> set (log_run lg calls)" "0 < tl_periodMs lg"
  shows "le_at entry + tl_periodMs lg \<le> t"
  using assms
proof (induction calls arbitrary: lg entry)
  case (Cons call calls)
  obtain key now where call: "call = (key, now)" by (cases call)
  let ?lg = "snd (note_key key now lg)"
  have later: "\<And>t w. (t, w) \<in> set (log_run lg (call # calls)) \<Longrightarrow> now \<le> t"
    using log_run_after [OF Cons.prems(3), of now] Cons.prems(3) unfolding call by fastforce
  have d: "distinct (map fst (tl_last ?lg))" "tl_periodMs ?lg = tl_periodMs lg"
    using note_key_facts Cons.prems(2) by simp_all
  have IH: "le_at e + tl_periodMs lg \<le> t"
    if "map_of (tl_last ?lg) k = Some e" "(t, k, c) \<in> set (log_run ?lg calls)" for e
    using Cons.IH [OF that(1) d(1) _ that(2)] Cons.prems(3,5) d(2) by simp
  show ?case
  proof (cases "le_at entry + tl_periodMs lg \<le> now")
    case True
    then show ?thesis using later [OF Cons.prems(4)] by simp
  next
    case recent: False
    show ?thesis
    proof (cases rule: note_key_cases [of lg key now])
      case (counted e)
      then have "map_of (tl_last ?lg) k = Some (if k = key then e\<lparr>le_since := le_since e + 1\<rparr> else entry)"
        using Cons.prems(1) by simp
      from IH [OF this] show ?thesis using Cons.prems(1,4) counted unfolding call by (auto split: if_splits)
    next
      case (written cnt)
      then have other: "key \<noteq> k" using recent Cons.prems(1) by auto
      then have "map_of (tl_last ?lg) k = Some entry"
        unfolding written(1) using recent Cons.prems(1,2) by (intro write_key_other) simp_all
      moreover have "(t, k, c) \<in> set (log_run ?lg calls)"
        using Cons.prems(4) other unfolding call by (simp add: written(1) case_prod_beta)
      ultimately show ?thesis by (rule IH)
    qed
  qed
qed simp

lemma log_run_spaced:
  assumes "distinct (map fst (tl_last lg))" "sorted (map snd calls)" "0 < tl_periodMs lg"
  shows "sorted_wrt (\<lambda>(t, k, _) (u, l, _). k = l \<longrightarrow> t + tl_periodMs lg \<le> u) (log_run lg calls)"
  using assms
proof (induction calls arbitrary: lg)
  case (Cons call calls)
  obtain key now where call: "call = (key, now)" by (cases call)
  let ?lg = "snd (note_key key now lg)"
  have d: "distinct (map fst (tl_last ?lg))" "tl_periodMs ?lg = tl_periodMs lg"
    using note_key_facts Cons.prems(1) by simp_all
  have tail: "sorted_wrt (\<lambda>(t, k, _) (u, l, _). k = l \<longrightarrow> t + tl_periodMs lg \<le> u) (log_run ?lg calls)"
    using Cons.IH [OF d(1)] Cons.prems(2,3) d(2) by simp
  show ?case
  proof (cases rule: note_key_cases [of lg key now])
    case (counted e)
    then show ?thesis using tail unfolding call by simp
  next
    case (written cnt)
    have own: "map_of (tl_last ?lg) key = Some \<lparr>le_at = now, le_since = 0\<rparr>"
      unfolding written(1) using Cons.prems(1,3) by (intro write_key_own)
    have "now + tl_periodMs lg \<le> t" if "(t, key, c) \<in> set (log_run ?lg calls)" for t c
      using log_run_waits [OF own d(1) _ that] Cons.prems(2,3) d(2) by simp
    moreover have "log_run lg (call # calls) = (now, key, cnt) # log_run ?lg calls"
      by (simp add: call written(1) case_prod_beta)
    ultimately show ?thesis using tail by auto
  qed
qed simp

end
