(* ===== verification/Connection_Gate.thy ===== *)
theory Connection_Gate
  imports Prelude
begin

text \<open>
  The connection gate of \<open>apps/server/src/common/flood-limits.ts\<close> and the task limiter of
  \<open>apps/server/src/pagers/broker-limits.ts\<close>. A ticket is a pair of closures over the gate in the code;
  here the gate's state holds the list of all tickets it gave and a ticket is its place in it.
  The lemmas show that the counts are those of the tickets, whatever order they are used in, so
  the limits hold at every moment and nothing is counted after it has gone.
\<close>

section \<open>The gate\<close>

definition starts_with :: "string \<Rightarrow> string \<Rightarrow> bool" where
  "starts_with s pat \<longleftrightarrow> take (length pat) s = pat"

definition isLoopback :: "string \<Rightarrow> bool" where
  "isLoopback address \<longleftrightarrow> address = ''::1'' \<or> starts_with address ''127.'' \<or> starts_with address ''::ffff:127.''"

record GateLimits =
  gl_maxConnections :: int
  gl_maxPending :: int
  gl_maxPendingPerAddress :: int
  gl_trustLoopback :: bool

datatype TicketState = PENDING | SIGNED_IN | CLOSED

record GateTicket =
  tk_from :: string
  tk_state :: TicketState

record ConnectionGate =
  cg_limits :: GateLimits
  cg_open :: int
  cg_pending :: int
  cg_pendingBy :: "(string \<times> int) list"
  cg_tickets :: "GateTicket list"

definition new_gate :: "GateLimits \<Rightarrow> ConnectionGate" where
  "new_gate limits = \<lparr>cg_limits = limits, cg_open = 0, cg_pending = 0, cg_pendingBy = [], cg_tickets = []\<rparr>"

definition map_delete :: "'k \<Rightarrow> ('k \<times> 'v) list \<Rightarrow> ('k \<times> 'v) list" where
  "map_delete k m = filter (\<lambda>p. fst p \<noteq> k) m"

definition address_or_unknown :: "string option \<Rightarrow> string" where
  "address_or_unknown address = (case address of None \<Rightarrow> ''unknown'' | Some a \<Rightarrow> a)"

definition pending_by :: "ConnectionGate \<Rightarrow> string \<Rightarrow> int" where
  "pending_by g a = (case map_of (cg_pendingBy g) a of None \<Rightarrow> 0 | Some n \<Rightarrow> n)"

text \<open>\<open>admit\<close>: the gate after it and the new ticket, or none when the connection must be refused.\<close>

definition admit :: "string option \<Rightarrow> ConnectionGate \<Rightarrow> nat option \<times> ConnectionGate" where
  "admit address g =
     (let from_address = address_or_unknown address;
          byAddress = pending_by g from_address;
          limits = cg_limits g
      in if gl_maxConnections limits \<le> cg_open g \<or> gl_maxPending limits \<le> cg_pending g then (None, g)
         else
           let limited = (\<not> (gl_trustLoopback limits \<and> isLoopback from_address))
           in if limited \<and> gl_maxPendingPerAddress limits \<le> byAddress then (None, g)
              else (Some (length (cg_tickets g)),
                    g\<lparr>cg_open := cg_open g + 1, cg_pending := cg_pending g + 1,
                      cg_pendingBy := map_set from_address (byAddress + 1) (cg_pendingBy g),
                      cg_tickets := cg_tickets g @ [\<lparr>tk_from = from_address, tk_state = PENDING\<rparr>]\<rparr>))"

definition release :: "string \<Rightarrow> ConnectionGate \<Rightarrow> ConnectionGate" where
  "release from_address g =
     (let left = (case map_of (cg_pendingBy g) from_address of None \<Rightarrow> 1 | Some n \<Rightarrow> n) - 1
      in g\<lparr>cg_pending := cg_pending g - 1,
           cg_pendingBy := (if left \<le> 0 then map_delete from_address (cg_pendingBy g)
                            else map_set from_address left (cg_pendingBy g))\<rparr>)"

definition set_state :: "nat \<Rightarrow> TicketState \<Rightarrow> ConnectionGate \<Rightarrow> ConnectionGate" where
  "set_state n st g = g\<lparr>cg_tickets := (cg_tickets g)[n := (cg_tickets g ! n)\<lparr>tk_state := st\<rparr>]\<rparr>"

definition signedIn :: "nat \<Rightarrow> ConnectionGate \<Rightarrow> ConnectionGate" where
  "signedIn n g =
     (let t = cg_tickets g ! n
      in if tk_state t \<noteq> PENDING then g else release (tk_from t) (set_state n SIGNED_IN g))"

definition closed :: "nat \<Rightarrow> ConnectionGate \<Rightarrow> ConnectionGate" where
  "closed n g =
     (let t = cg_tickets g ! n
      in if tk_state t = CLOSED then g
         else let g' = set_state n CLOSED (if tk_state t = PENDING then release (tk_from t) g else g)
              in g'\<lparr>cg_open := cg_open g' - 1\<rparr>)"

definition counts :: "ConnectionGate \<Rightarrow> int \<times> int" where
  "counts g = (cg_open g, cg_pending g)"

text \<open>What can happen at a gate: a connection comes, signs in, or closes, in any order and more than once.\<close>

datatype GateEvent = Admit "string option" | Signed_In nat | Closed nat

fun gate_step :: "ConnectionGate \<Rightarrow> GateEvent \<Rightarrow> ConnectionGate" where
  "gate_step g (Admit address) = snd (admit address g)"
| "gate_step g (Signed_In n) = (if n < length (cg_tickets g) then signedIn n g else g)"
| "gate_step g (Closed n) = (if n < length (cg_tickets g) then closed n g else g)"

section \<open>The counts are those of the tickets\<close>

definition tickets_of :: "(GateTicket \<Rightarrow> bool) \<Rightarrow> ConnectionGate \<Rightarrow> int" where
  "tickets_of P g = int (length (filter P (cg_tickets g)))"

abbreviation pending_from :: "string \<Rightarrow> ConnectionGate \<Rightarrow> int" where
  "pending_from a \<equiv> tickets_of (\<lambda>t. tk_state t = PENDING \<and> tk_from t = a)"

definition counted :: "ConnectionGate \<Rightarrow> bool" where
  "counted g \<longleftrightarrow>
     cg_open g = tickets_of (\<lambda>t. tk_state t \<noteq> CLOSED) g \<and>
     cg_pending g = tickets_of (\<lambda>t. tk_state t = PENDING) g \<and>
     (\<forall>a. map_of (cg_pendingBy g) a = (if pending_from a g = 0 then None else Some (pending_from a g)))"

definition within_limits :: "ConnectionGate \<Rightarrow> bool" where
  "within_limits g \<longleftrightarrow>
     cg_open g \<le> gl_maxConnections (cg_limits g) \<and> cg_pending g \<le> gl_maxPending (cg_limits g) \<and>
     (\<forall>a. \<not> (gl_trustLoopback (cg_limits g) \<and> isLoopback a) \<longrightarrow>
        pending_from a g \<le> gl_maxPendingPerAddress (cg_limits g))"

lemma filter_update:
  "i < length xs \<Longrightarrow> int (length (filter P (xs[i := y]))) =
     int (length (filter P xs)) - (if P (xs ! i) then 1 else 0) + (if P y then 1 else 0)"
proof (induction xs arbitrary: i)
  case (Cons x xs)
  show ?case
  proof (cases i)
    case (Suc j)
    then show ?thesis using Cons.IH [of j] Cons.prems by auto
  qed auto
qed simp

lemma tickets_of_nonneg [simp]: "0 \<le> tickets_of P g"
  by (simp add: tickets_of_def)

lemma tickets_of_set_state:
  "n < length (cg_tickets g) \<Longrightarrow> tickets_of P (set_state n st g) =
     tickets_of P g - (if P (cg_tickets g ! n) then 1 else 0) + (if P ((cg_tickets g ! n)\<lparr>tk_state := st\<rparr>) then 1 else 0)"
  by (simp add: tickets_of_def set_state_def filter_update)

lemma tickets_of_positive:
  assumes "n < length (cg_tickets g)" "P (cg_tickets g ! n)"
  shows "0 < tickets_of P g"
proof -
  have "cg_tickets g ! n \<in> set (filter P (cg_tickets g))" using assms by simp
  then show ?thesis unfolding tickets_of_def by (metis length_pos_if_in_set of_nat_0_less_iff)
qed

lemma tickets_of_release [simp]: "tickets_of P (release a g) = tickets_of P g"
  by (simp add: tickets_of_def release_def Let_def)

lemma map_of_map_delete [simp]: "map_of (map_delete k m) = (map_of m)(k := None)"
  by (induction m) (auto simp: map_delete_def fun_eq_iff)

lemma release_facts [simp]:
  "cg_open (release a g) = cg_open g" "cg_pending (release a g) = cg_pending g - 1"
  "cg_limits (release a g) = cg_limits g" "cg_tickets (release a g) = cg_tickets g"
  by (simp_all add: release_def Let_def)

lemma set_state_facts [simp]:
  "cg_open (set_state n st g) = cg_open g" "cg_pending (set_state n st g) = cg_pending g"
  "cg_limits (set_state n st g) = cg_limits g" "cg_pendingBy (set_state n st g) = cg_pendingBy g"
  "length (cg_tickets (set_state n st g)) = length (cg_tickets g)"
  by (simp_all add: set_state_def)

text \<open>Releasing a pending ticket takes one from the count of its address.\<close>

lemma release_pendingBy:
  assumes "counted g" "n < length (cg_tickets g)" "tk_state (cg_tickets g ! n) = PENDING" "b = tk_from (cg_tickets g ! n)"
  shows "map_of (cg_pendingBy (release b g)) a =
    (let left = pending_from a g - (if a = b then 1 else 0) in if left = 0 then None else Some left)"
proof -
  have pos: "0 < pending_from b g" using assms(2-4) by (intro tickets_of_positive) auto
  have by_address: "map_of (cg_pendingBy g) a = (if pending_from a g = 0 then None else Some (pending_from a g))" for a
    using assms(1) by (simp add: counted_def)
  show ?thesis using pos by (auto simp: release_def Let_def by_address)
qed

lemma signedIn_counted:
  assumes "counted g" "n < length (cg_tickets g)"
  shows "counted (signedIn n g)"
proof (cases "tk_state (cg_tickets g ! n) = PENDING")
  case True
  define g' where "g' = set_state n SIGNED_IN g"
  have run: "signedIn n g = release (tk_from (cg_tickets g ! n)) g'" using True by (simp add: signedIn_def g'_def)
  have same: "cg_pendingBy (release a g') = cg_pendingBy (release a g)" for a
    by (simp add: release_def Let_def g'_def)
  show ?thesis
    using assms(1) release_pendingBy [OF assms True refl]
    unfolding run counted_def
    by (auto simp: same) (auto simp: g'_def tickets_of_set_state [OF assms(2)] True Let_def)
qed (simp add: signedIn_def assms)

lemma closed_counted:
  assumes "counted g" "n < length (cg_tickets g)"
  shows "counted (closed n g)"
proof -
  let ?t = "cg_tickets g ! n"
  consider "tk_state ?t = PENDING" | "tk_state ?t = SIGNED_IN" | "tk_state ?t = CLOSED"
    by (cases "tk_state ?t") auto
  then show ?thesis
  proof cases
    case 1
    define g' where "g' = release (tk_from ?t) g"
    have run: "closed n g = set_state n CLOSED g'\<lparr>cg_open := cg_open g - 1\<rparr>" using 1 by (simp add: closed_def Let_def g'_def)
    have n: "n < length (cg_tickets g')" using assms(2) by (simp add: g'_def)
    have tickets: "tickets_of P (closed n g) = tickets_of P (set_state n CLOSED g')" for P
      by (simp add: run tickets_of_def)
    show ?thesis
      using assms(1) release_pendingBy [OF assms 1 refl]
      unfolding counted_def tickets tickets_of_set_state [OF n]
      by (simp add: run) (auto simp: g'_def 1 Let_def)
  next
    case 2
    have run: "closed n g = set_state n CLOSED g\<lparr>cg_open := cg_open g - 1\<rparr>" using 2 by (simp add: closed_def Let_def)
    have tickets: "tickets_of P (closed n g) = tickets_of P (set_state n CLOSED g)" for P
      by (simp add: run tickets_of_def)
    show ?thesis
      using assms(1) unfolding counted_def tickets tickets_of_set_state [OF assms(2)]
      by (simp add: run 2)
  next
    case 3
    then show ?thesis using assms(1) by (simp add: closed_def)
  qed
qed

lemma admit_cases:
  obtains (refused) "admit address g = (None, g)"
    | (admitted) a where "a = address_or_unknown address"
        "cg_open g < gl_maxConnections (cg_limits g)" "cg_pending g < gl_maxPending (cg_limits g)"
        "(gl_trustLoopback (cg_limits g) \<and> isLoopback a) \<or> pending_by g a < gl_maxPendingPerAddress (cg_limits g)"
        "admit address g = (Some (length (cg_tickets g)),
           g\<lparr>cg_open := cg_open g + 1, cg_pending := cg_pending g + 1,
             cg_pendingBy := map_set a (pending_by g a + 1) (cg_pendingBy g),
             cg_tickets := cg_tickets g @ [\<lparr>tk_from = a, tk_state = PENDING\<rparr>]\<rparr>)"
proof (cases "fst (admit address g)")
  case None
  then have "admit address g = (None, g)" by (simp add: admit_def Let_def split: if_splits)
  then show ?thesis by (rule refused)
next
  case (Some n)
  show ?thesis
    by (rule admitted [OF refl]; use Some in \<open>simp add: admit_def Let_def split: if_splits; auto\<close>)
qed

lemma counted_pending_by: "counted g \<Longrightarrow> pending_by g a = pending_from a g"
  by (simp add: counted_def pending_by_def)

lemma admit_step:
  assumes "counted g" "within_limits g"
  shows "counted (snd (admit address g)) \<and> within_limits (snd (admit address g)) \<and>
    cg_limits (snd (admit address g)) = cg_limits g"
proof (cases rule: admit_cases [of address g])
  case refused
  then show ?thesis using assms by simp
next
  case (admitted a)
  define g' where "g' = snd (admit address g)"
  have g': "g' = g\<lparr>cg_open := cg_open g + 1, cg_pending := cg_pending g + 1,
      cg_pendingBy := map_set a (pending_from a g + 1) (cg_pendingBy g),
      cg_tickets := cg_tickets g @ [\<lparr>tk_from = a, tk_state = PENDING\<rparr>]\<rparr>"
    using admitted(5) by (simp add: g'_def counted_pending_by [OF assms(1)])
  have tickets: "tickets_of P g' = tickets_of P g + (if P \<lparr>tk_from = a, tk_state = PENDING\<rparr> then 1 else 0)" for P
    by (simp add: g' tickets_of_def)
  have "counted g'"
    using assms(1) tickets_of_nonneg [of "\<lambda>t. tk_state t = PENDING \<and> tk_from t = a" g]
    unfolding counted_def tickets by (auto simp: g' simp del: tickets_of_nonneg)
  moreover have "within_limits g'"
    using assms(2) admitted(2-4) unfolding within_limits_def tickets counted_pending_by [OF assms(1)] by (auto simp: g')
  ultimately show ?thesis by (simp add: g'_def [symmetric]) (simp add: g')
qed

text \<open>A ticket that goes on never adds to a count.\<close>

lemma counts_fall:
  assumes "counted g" "n < length (cg_tickets g)" "g' = signedIn n g \<or> g' = closed n g"
  shows "counted g'" "cg_limits g' = cg_limits g" "tickets_of (\<lambda>t. tk_state t \<noteq> CLOSED) g' \<le> tickets_of (\<lambda>t. tk_state t \<noteq> CLOSED) g"
    "tickets_of (\<lambda>t. tk_state t = PENDING) g' \<le> tickets_of (\<lambda>t. tk_state t = PENDING) g" "pending_from a g' \<le> pending_from a g"
proof -
  show "counted g'" using assms signedIn_counted closed_counted by blast
  have closed: "tickets_of P (closed n g) = tickets_of P (if tk_state (cg_tickets g ! n) = CLOSED then g else set_state n CLOSED g)" for P
    by (simp add: closed_def Let_def tickets_of_def set_state_def)
  have signed: "tickets_of P (signedIn n g) = tickets_of P (if tk_state (cg_tickets g ! n) = PENDING then set_state n SIGNED_IN g else g)" for P
    by (simp add: signedIn_def Let_def)
  show "cg_limits g' = cg_limits g" using assms(3) by (auto simp: signedIn_def closed_def Let_def)
  show "tickets_of (\<lambda>t. tk_state t \<noteq> CLOSED) g' \<le> tickets_of (\<lambda>t. tk_state t \<noteq> CLOSED) g"
    "tickets_of (\<lambda>t. tk_state t = PENDING) g' \<le> tickets_of (\<lambda>t. tk_state t = PENDING) g" "pending_from a g' \<le> pending_from a g"
    using assms(3) by (auto simp: closed signed tickets_of_set_state [OF assms(2)])
qed

lemma fall_within:
  assumes "counted g" "within_limits g" "n < length (cg_tickets g)" "g' = signedIn n g \<or> g' = closed n g"
  shows "counted g' \<and> within_limits g' \<and> cg_limits g' = cg_limits g"
proof -
  note fall = counts_fall [OF assms(1,3,4)]
  have "cg_open g' \<le> cg_open g" "cg_pending g' \<le> cg_pending g"
    using fall(1,3,4) assms(1) by (simp_all add: counted_def)
  then have "within_limits g'"
    using assms(2) order_trans [OF fall(5)] by (simp add: within_limits_def fall(2))
  then show ?thesis using fall by blast
qed

lemma gate_step_ok:
  assumes "counted g" "within_limits g"
  shows "counted (gate_step g e) \<and> within_limits (gate_step g e) \<and> cg_limits (gate_step g e) = cg_limits g"
proof (cases e)
  case (Admit address)
  then show ?thesis using admit_step [OF assms] by simp
next
  case (Signed_In n)
  then show ?thesis using fall_within [OF assms, of n "signedIn n g"] assms by simp
next
  case (Closed n)
  then show ?thesis using fall_within [OF assms, of n "closed n g"] assms by simp
qed

lemma gate_run_ok:
  assumes "counted g" "within_limits g"
  shows "counted (foldl gate_step g es) \<and> within_limits (foldl gate_step g es) \<and> cg_limits (foldl gate_step g es) = cg_limits g"
  using assms
proof (induction es arbitrary: g)
  case (Cons e es)
  then show ?case using gate_step_ok [of g e] Cons.IH [of "gate_step g e"] by simp
qed simp

text \<open>
  C39: the gate counts what is there. Whatever connections come, sign in and close, in any order and
  however often, the gate's counts are those of its tickets, the limits hold for all connections,
  for those not signed in and for each address that is limited, an address is remembered only
  while it has a connection that has not signed in, and when all have closed nothing is counted.
\<close>

theorem connection_gate_counts:
  assumes "0 \<le> gl_maxConnections limits" "0 \<le> gl_maxPending limits" "0 \<le> gl_maxPendingPerAddress limits"
    and g_def: "g = foldl gate_step (new_gate limits) es"
  shows "counts g = (tickets_of (\<lambda>t. tk_state t \<noteq> CLOSED) g, tickets_of (\<lambda>t. tk_state t = PENDING) g) \<and>
    cg_open g \<le> gl_maxConnections limits \<and> cg_pending g \<le> gl_maxPending limits \<and>
    (\<forall>a. \<not> (gl_trustLoopback limits \<and> isLoopback a) \<longrightarrow> pending_from a g \<le> gl_maxPendingPerAddress limits) \<and>
    (\<forall>a. pending_by g a = pending_from a g \<and> (a \<in> dom (map_of (cg_pendingBy g)) \<longleftrightarrow> 0 < pending_from a g)) \<and>
    ((\<forall>t \<in> set (cg_tickets g). tk_state t = CLOSED) \<longrightarrow> counts g = (0, 0) \<and> dom (map_of (cg_pendingBy g)) = {})"
proof -
  have start: "counted (new_gate limits)" "within_limits (new_gate limits)"
    using assms(1-3) by (simp_all add: counted_def within_limits_def new_gate_def tickets_of_def)
  have g: "counted g" "within_limits g" "cg_limits g = limits"
    using gate_run_ok [OF start, of es] by (simp_all add: g_def new_gate_def)
  have by_address: "a \<in> dom (map_of (cg_pendingBy g)) \<longleftrightarrow> 0 < pending_from a g" for a
    using g(1) tickets_of_nonneg [of "\<lambda>t. tk_state t = PENDING \<and> tk_from t = a" g]
    by (auto simp: counted_def domIff simp del: tickets_of_nonneg split: if_splits)
  have none: "tickets_of P g = 0" if "\<forall>t \<in> set (cg_tickets g). tk_state t = CLOSED" "\<And>t. P t \<Longrightarrow> tk_state t \<noteq> CLOSED" for P
    using that by (auto simp: tickets_of_def filter_empty_conv)
  have empty: "counts g = (0, 0) \<and> dom (map_of (cg_pendingBy g)) = {}" if all: "\<forall>t \<in> set (cg_tickets g). tk_state t = CLOSED"
  proof -
    have "pending_from a g = 0" for a by (rule none [OF all]) auto
    then have "dom (map_of (cg_pendingBy g)) = {}" using by_address by fastforce
    moreover have "cg_open g = 0" "cg_pending g = 0"
      using g(1) none [OF all, of "\<lambda>t. tk_state t \<noteq> CLOSED"] none [OF all, of "\<lambda>t. tk_state t = PENDING"]
      by (auto simp: counted_def)
    ultimately show ?thesis by (simp add: counts_def)
  qed
  have "counts g = (tickets_of (\<lambda>t. tk_state t \<noteq> CLOSED) g, tickets_of (\<lambda>t. tk_state t = PENDING) g)"
    using g(1) by (simp add: counts_def counted_def)
  moreover have "pending_by g a = pending_from a g" for a by (rule counted_pending_by [OF g(1)])
  ultimately show ?thesis using g(2) by_address empty unfolding within_limits_def g(3) by blast
qed

theorem connection_gate_counts_witness:
  "cg_pending (foldl gate_step (new_gate \<lparr>gl_maxConnections = 3, gl_maxPending = 2, gl_maxPendingPerAddress = 1, gl_trustLoopback = True\<rparr>)
     [Admit (Some ''10.0.0.7''), Admit (Some ''10.0.0.7''), Signed_In 0, Admit None, Closed 0, Closed 0]) \<le> 2"
proof -
  have "cg_pending g \<le> 2" if "g = foldl gate_step (new_gate \<lparr>gl_maxConnections = 3, gl_maxPending = 2, gl_maxPendingPerAddress = 1, gl_trustLoopback = True\<rparr>)
      [Admit (Some ''10.0.0.7''), Admit (Some ''10.0.0.7''), Signed_In 0, Admit None, Closed 0, Closed 0]" for g
    using connection_gate_counts [OF _ _ _ that] by simp
  then show ?thesis by blast
qed

section \<open>Tasks at once\<close>

text \<open>
  \<open>TaskLimiter.run\<close> up to the moment its task runs, is set waiting or is refused, and its \<open>finally\<close>.
  A task is known by a number; the tasks running are those started and not finished.
\<close>

record TaskLimiter =
  lim_concurrency :: nat
  lim_maxWaiting :: nat
  lim_running :: nat
  lim_waiting :: "nat list"

datatype Arrival = BUSY | WAITS | STARTS

definition new_limiter :: "nat \<Rightarrow> nat \<Rightarrow> TaskLimiter" where
  "new_limiter concurrency maxWaiting =
     \<lparr>lim_concurrency = concurrency, lim_maxWaiting = maxWaiting, lim_running = 0, lim_waiting = []\<rparr>"

definition run_task :: "nat \<Rightarrow> TaskLimiter \<Rightarrow> Arrival \<times> TaskLimiter" where
  "run_task task l =
     (if lim_concurrency l \<le> lim_running l
      then (if lim_maxWaiting l \<le> length (lim_waiting l) then (BUSY, l)
            else (WAITS, l\<lparr>lim_waiting := lim_waiting l @ [task]\<rparr>))
      else (STARTS, l\<lparr>lim_running := lim_running l + 1\<rparr>))"

text \<open>The place of a finished task passes to the next one waiting, or is given back.\<close>

definition task_done :: "TaskLimiter \<Rightarrow> nat option \<times> TaskLimiter" where
  "task_done l =
     (case lim_waiting l of
        [] \<Rightarrow> (None, l\<lparr>lim_running := lim_running l - 1\<rparr>)
      | task # rest \<Rightarrow> (Some task, l\<lparr>lim_waiting := rest\<rparr>))"

text \<open>
  A history: the limiter, the tasks running, those started so far and those taken on (not refused).
\<close>

record TaskHistory =
  th_limiter :: TaskLimiter
  th_active :: "nat list"
  th_started :: "nat list"
  th_taken :: "nat list"

datatype TaskEvent = Arrives nat | Finishes nat

fun task_step :: "TaskHistory \<Rightarrow> TaskEvent \<Rightarrow> TaskHistory" where
  "task_step h (Arrives task) =
     (case run_task task (th_limiter h) of
        (BUSY, l) \<Rightarrow> h
      | (WAITS, l) \<Rightarrow> h\<lparr>th_limiter := l, th_taken := th_taken h @ [task]\<rparr>
      | (STARTS, l) \<Rightarrow> h\<lparr>th_limiter := l, th_active := th_active h @ [task], th_started := th_started h @ [task],
                        th_taken := th_taken h @ [task]\<rparr>)"
| "task_step h (Finishes task) =
     (if task \<in> set (th_active h)
      then (case task_done (th_limiter h) of
              (None, l) \<Rightarrow> h\<lparr>th_limiter := l, th_active := remove1 task (th_active h)\<rparr>
            | (Some t, l) \<Rightarrow> h\<lparr>th_limiter := l, th_active := remove1 task (th_active h) @ [t],
                              th_started := th_started h @ [t]\<rparr>)
      else h)"

definition tasks_ok :: "nat \<Rightarrow> nat \<Rightarrow> TaskHistory \<Rightarrow> bool" where
  "tasks_ok concurrency maxWaiting h \<longleftrightarrow>
     lim_concurrency (th_limiter h) = concurrency \<and> lim_maxWaiting (th_limiter h) = maxWaiting \<and>
     length (th_active h) = lim_running (th_limiter h) \<and>
     length (th_active h) \<le> concurrency \<and> length (lim_waiting (th_limiter h)) \<le> maxWaiting \<and>
     (lim_waiting (th_limiter h) \<noteq> [] \<longrightarrow> length (th_active h) = concurrency) \<and>
     th_started h @ lim_waiting (th_limiter h) = th_taken h"

lemma length_remove1_Suc: "x \<in> set xs \<Longrightarrow> length xs = Suc (length (remove1 x xs))"
  by (induction xs) auto

lemma task_step_ok:
  assumes "tasks_ok concurrency maxWaiting h"
  shows "tasks_ok concurrency maxWaiting (task_step h e)"
proof (cases e)
  case (Arrives task)
  then show ?thesis using assms by (auto simp: tasks_ok_def run_task_def split: if_splits)
next
  case (Finishes task)
  have "length (th_active h) = Suc (length (remove1 task (th_active h)))" if "task \<in> set (th_active h)"
    using that by (rule length_remove1_Suc)
  then show ?thesis using assms unfolding Finishes
    by (cases "lim_waiting (th_limiter h)") (auto simp: tasks_ok_def task_done_def)
qed

definition no_tasks :: "nat \<Rightarrow> nat \<Rightarrow> TaskHistory" where
  "no_tasks concurrency maxWaiting =
     \<lparr>th_limiter = new_limiter concurrency maxWaiting, th_active = [], th_started = [], th_taken = []\<rparr>"

text \<open>
  However tasks come and finish, no more run at once than allowed and no more wait than allowed; none
  waits while there is room; and the tasks taken on are started in the order they came, none lost.
\<close>

lemma task_limiter_invariant: "tasks_ok concurrency maxWaiting (foldl task_step (no_tasks concurrency maxWaiting) es)"
proof -
  have "tasks_ok concurrency maxWaiting (foldl task_step h es)" if "tasks_ok concurrency maxWaiting h" for h
    using that by (induction es arbitrary: h) (simp_all add: task_step_ok)
  moreover have "tasks_ok concurrency maxWaiting (no_tasks concurrency maxWaiting)"
    by (simp add: tasks_ok_def no_tasks_def new_limiter_def)
  ultimately show ?thesis by blast
qed

end
