(* ===== verification/Packet_Sizes.thy ===== *)
theory Packet_Sizes
  imports Main
begin

text \<open>
  The packet scanner of \<open>apps/server/src/pagers/broker-limits.ts\<close>: it follows the fixed headers of MQTT
  packets through a byte stream that arrives in chunks and ends the connection at the header of a
  packet that is too large. Bytes are natural numbers below 256. The lemmas show that how the
  stream is cut into chunks does not matter, and that the scanner agrees with reading the stream
  packet by packet.
\<close>

datatype Phase = Type_Byte | Length_Bytes | Body

record MqttPacketSizes =
  ps_limit :: nat
  ps_phase :: Phase
  ps_length :: nat
  ps_lengthBytes :: nat
  ps_left :: nat

definition new_sizes :: "nat \<Rightarrow> MqttPacketSizes" where
  "new_sizes limit = \<lparr>ps_limit = limit, ps_phase = Type_Byte, ps_length = 0, ps_lengthBytes = 0, ps_left = 0\<rparr>"

datatype Problem = Malformed_Length | Packet_Of nat

text \<open>The loop over a chunk: a problem ends it at once, with the state left as it was then.\<close>

function scan :: "MqttPacketSizes \<Rightarrow> nat list \<Rightarrow> Problem option \<times> MqttPacketSizes" where
  "scan s [] = (None, s)"
| "scan s (byte # rest) =
     (case ps_phase s of
        Body \<Rightarrow>
          let taken = min (ps_left s) (length (byte # rest));
              left = ps_left s - taken
          in scan (s\<lparr>ps_left := left, ps_phase := (if left = 0 then Type_Byte else Body)\<rparr>) (drop taken (byte # rest))
      | Type_Byte \<Rightarrow> scan (s\<lparr>ps_phase := Length_Bytes, ps_length := 0, ps_lengthBytes := 0\<rparr>) rest
      | Length_Bytes \<Rightarrow>
          let len = ps_length s + byte mod 128 * 128 ^ ps_lengthBytes s;
              lengthBytes = ps_lengthBytes s + 1
          in if byte div 128 mod 2 \<noteq> 0
             then (if lengthBytes = 4
                   then (Some Malformed_Length, s\<lparr>ps_length := len, ps_lengthBytes := lengthBytes\<rparr>)
                   else scan (s\<lparr>ps_length := len, ps_lengthBytes := lengthBytes\<rparr>) rest)
             else
               let packet = 1 + lengthBytes + len;
                   s' = s\<lparr>ps_length := len, ps_lengthBytes := lengthBytes\<rparr>
               in if ps_limit s < packet then (Some (Packet_Of packet), s')
                  else scan (s'\<lparr>ps_left := len, ps_phase := (if len = 0 then Type_Byte else Body)\<rparr>) rest)"
  by pat_completeness auto
termination
  by (relation "measures [\<lambda>(s, bytes). length bytes, \<lambda>(s, bytes). if ps_phase s = Body then 1 else 0]")
    (auto simp: min_def)

section \<open>Chunks do not matter\<close>

lemma scan_append:
  "scan s (a @ b) = (case scan s a of (Some p, s') \<Rightarrow> (Some p, s') | (None, s') \<Rightarrow> scan s' b)"
proof (induction s a rule: scan.induct)
  case (2 s byte rest)
  show ?case
  proof (cases "ps_phase s")
    case Body
    show ?thesis
    proof (cases "ps_left s \<le> length (byte # rest)")
      case True
      then have "drop (ps_left s) (byte # rest @ b) = drop (ps_left s) (byte # rest) @ b"
        using drop_append [of "ps_left s" "byte # rest" b] by simp
      then show ?thesis using "2.IH"(4) [OF Body refl refl] Body True by (simp add: min_def)
    next
      case False
      then have "scan s (byte # rest) = (None, s\<lparr>ps_left := ps_left s - length (byte # rest), ps_phase := Body\<rparr>)"
        using Body by simp
      moreover have "scan s ((byte # rest) @ b) =
          scan (s\<lparr>ps_left := ps_left s - length (byte # rest), ps_phase := Body\<rparr>) b"
      proof (cases b)
        case Nil
        then show ?thesis using calculation by simp
      next
        case (Cons c cs)
        let ?k = "length (byte # rest)"
        have "min (ps_left s) (length ((byte # rest) @ b)) = ?k + min (ps_left s - ?k) (length b)" using False by simp
        then show ?thesis using False Body Cons by (simp add: min_def)
      qed
      ultimately show ?thesis by simp
    qed
  next
    case Type_Byte
    then show ?thesis using "2.IH"(1) by simp
  next
    case Length_Bytes
    then show ?thesis using "2.IH"(2,3) by (simp add: Let_def)
  qed
qed simp

fun scan_chunks :: "MqttPacketSizes \<Rightarrow> nat list list \<Rightarrow> Problem option \<times> MqttPacketSizes" where
  "scan_chunks s [] = (None, s)"
| "scan_chunks s (c # cs) = (case scan s c of (Some p, s') \<Rightarrow> (Some p, s') | (None, s') \<Rightarrow> scan_chunks s' cs)"

lemma scan_chunks_concat: "scan_chunks s cs = scan s (concat cs)"
  by (induction cs arbitrary: s) (simp_all add: scan_append split: prod.splits option.splits)

section \<open>Packet by packet\<close>

text \<open>A packet as MQTT writes it: its type byte, the length of the rest in groups of seven bits, the rest.\<close>

fun len_bytes :: "nat \<Rightarrow> nat list" where
  "len_bytes n = (if n < 128 then [n] else (n mod 128 + 128) # len_bytes (n div 128))"

declare len_bytes.simps [simp del]

type_synonym packet = "nat \<times> nat list"

definition packet_header :: "packet \<Rightarrow> nat list" where
  "packet_header p = fst p # len_bytes (length (snd p))"

definition packet_size :: "packet \<Rightarrow> nat" where
  "packet_size p = length (packet_header p) + length (snd p)"

lemma length_len_bytes: "n < 128 ^ Suc k \<Longrightarrow> length (len_bytes n) \<le> Suc k"
proof (induction k arbitrary: n)
  case 0
  then show ?case by (simp add: len_bytes.simps)
next
  case (Suc k)
  have "n div 128 < 128 ^ Suc k" using Suc.prems by (simp add: less_mult_imp_div_less mult.commute)
  then show ?case using Suc.IH [of "n div 128"] by (subst len_bytes.simps) simp
qed

lemma scan_length:
  assumes "ps_phase s = Length_Bytes" "ps_lengthBytes s + length (len_bytes n) \<le> 4"
    and len_def: "len = ps_length s + n * 128 ^ ps_lengthBytes s"
    and bytes_def: "bytes = ps_lengthBytes s + length (len_bytes n)"
  shows "scan s (len_bytes n @ rest) =
    (if ps_limit s < 1 + bytes + len
     then (Some (Packet_Of (1 + bytes + len)), s\<lparr>ps_length := len, ps_lengthBytes := bytes\<rparr>)
     else scan (s\<lparr>ps_length := len, ps_lengthBytes := bytes, ps_left := len, ps_phase := (if len = 0 then Type_Byte else Body)\<rparr>) rest)"
  using assms
proof (induction n arbitrary: s rule: len_bytes.induct)
  case (1 n)
  show ?case
  proof (cases "n < 128")
    case True
    then have "len_bytes n = [n]" by (simp add: len_bytes.simps)
    then show ?thesis using True "1.prems" by (simp add: Let_def)
  next
    case False
    define s' where "s' = s\<lparr>ps_length := ps_length s + n mod 128 * 128 ^ ps_lengthBytes s, ps_lengthBytes := ps_lengthBytes s + 1\<rparr>"
    have step: "len_bytes n = (n mod 128 + 128) # len_bytes (n div 128)" using False by (subst len_bytes.simps) simp
    have "1 \<le> length (len_bytes (n div 128))" by (subst len_bytes.simps) simp
    moreover have "length (len_bytes n) = Suc (length (len_bytes (n div 128)))" by (simp add: step)
    ultimately have few: "ps_lengthBytes s + 1 \<noteq> 4" using "1.prems"(2) by linarith
    have top: "(n mod 128 + 128) div 128 mod 2 = Suc 0" "(n mod 128 + 128) mod 128 = n mod 128" by simp_all
    have one: "scan s (len_bytes n @ rest) = scan s' (len_bytes (n div 128) @ rest)"
      unfolding step using "1.prems"(1) few by (simp add: Let_def top s'_def)
    have whole: "n mod 128 * 128 ^ k + n div 128 * 128 ^ (k + 1) = n * 128 ^ k" for k
    proof -
      have dist: "a * x + c * (x * 128) = (a + c * 128) * x" for a c x :: nat by (simp add: algebra_simps)
      show ?thesis using dist [of "n mod 128" "128 ^ k" "n div 128"] by (simp only: power_add power_one_right mod_div_mult_eq)
    qed
    have "len = ps_length s' + n div 128 * 128 ^ ps_lengthBytes s'"
      using whole [of "ps_lengthBytes s"] "1.prems"(3) by (simp add: s'_def)
    from "1.IH" [OF False, of s', OF _ _ this] show ?thesis
      unfolding one using "1.prems" step by (simp add: s'_def)
  qed
qed

definition between_packets :: "MqttPacketSizes \<Rightarrow> bool" where
  "between_packets s \<longleftrightarrow> ps_phase s = Type_Byte"

lemma scan_header:
  assumes "between_packets s" "length (snd p) < 128 ^ 4"
  shows "scan s (packet_header p @ rest) =
    (let s' = s\<lparr>ps_phase := Length_Bytes, ps_length := length (snd p), ps_lengthBytes := length (len_bytes (length (snd p)))\<rparr>
     in if ps_limit s < packet_size p then (Some (Packet_Of (packet_size p)), s')
        else scan (s'\<lparr>ps_left := length (snd p), ps_phase := (if snd p = [] then Type_Byte else Body)\<rparr>) rest)"
proof -
  let ?s = "s\<lparr>ps_phase := Length_Bytes, ps_length := 0, ps_lengthBytes := 0\<rparr>"
  have "length (len_bytes (length (snd p))) \<le> 4" using length_len_bytes [of "length (snd p)" 3] assms(2) by simp
  from scan_length [of ?s "length (snd p)", OF _ _ refl refl] this
  show ?thesis using assms(1) by (simp add: between_packets_def packet_header_def packet_size_def Let_def)
qed

lemma scan_body:
  assumes "ps_phase s = Body" "ps_left s = length body" "body \<noteq> []"
  shows "scan s (body @ rest) = scan (s\<lparr>ps_left := 0, ps_phase := Type_Byte\<rparr>) rest"
  using assms by (cases body) simp_all

lemma scan_packet:
  assumes "between_packets s" "length (snd p) < 128 ^ 4" "packet_size p \<le> ps_limit s"
  shows "\<exists>s'. scan s (packet_header p @ snd p @ rest) = scan s' rest \<and> between_packets s' \<and> ps_limit s' = ps_limit s"
proof -
  define s' where "s' = s\<lparr>ps_length := length (snd p), ps_lengthBytes := length (len_bytes (length (snd p))),
    ps_left := 0, ps_phase := Type_Byte\<rparr>"
  have "scan s (packet_header p @ snd p @ rest) = scan s' rest"
  proof (cases "snd p = []")
    case True
    then show ?thesis using assms by (simp add: scan_header Let_def s'_def)
  next
    case False
    then show ?thesis using assms by (simp add: scan_header Let_def scan_body s'_def)
  qed
  then show ?thesis by (intro exI [of _ s']) (simp add: s'_def between_packets_def)
qed

lemma scan_packets:
  assumes "between_packets s" "\<forall>p \<in> set ps. length (snd p) < 128 ^ 4 \<and> packet_size p \<le> ps_limit s"
  shows "\<exists>s'. scan s (concat (map (\<lambda>p. packet_header p @ snd p) ps) @ rest) = scan s' rest \<and>
    between_packets s' \<and> ps_limit s' = ps_limit s"
  using assms
proof (induction ps arbitrary: s)
  case (Cons p ps)
  let ?rest = "concat (map (\<lambda>p. packet_header p @ snd p) ps) @ rest"
  from Cons.prems have "length (snd p) < 128 ^ 4" "packet_size p \<le> ps_limit s" by (simp_all only: list.set_intros(1) Ball_def)
  from scan_packet [OF Cons.prems(1) this, of ?rest]
  obtain s' where s': "scan s (packet_header p @ snd p @ ?rest) = scan s' ?rest" "between_packets s'" "ps_limit s' = ps_limit s"
    by blast
  then show ?case using Cons.IH [OF s'(2)] Cons.prems(2) by simp
qed auto

text \<open>
  Nothing over the limit is taken in. However the stream is cut into chunks, packets within the limit
  pass, whole or in part, and a packet over it ends the stream as soon as its header has come,
  whatever follows, with its size as the reason.
\<close>

lemma packet_sizes_limit:
  assumes "concat chunks = concat (map (\<lambda>p. packet_header p @ snd p) ps) @ packet_header p @ rest"
    and "\<forall>q \<in> set ps. length (snd q) < 128 ^ 4 \<and> packet_size q \<le> limit" "length (snd p) < 128 ^ 4"
  shows "(limit < packet_size p \<longrightarrow> fst (scan_chunks (new_sizes limit) chunks) = Some (Packet_Of (packet_size p))) \<and>
    (packet_size p \<le> limit \<and> length rest \<le> length (snd p) \<longrightarrow> fst (scan_chunks (new_sizes limit) chunks) = None)"
proof -
  have "between_packets (new_sizes limit)" "ps_limit (new_sizes limit) = limit"
    by (simp_all add: between_packets_def new_sizes_def)
  then obtain s where s: "scan (new_sizes limit) (concat chunks) = scan s (packet_header p @ rest)"
      "between_packets s" "ps_limit s = limit"
    unfolding assms(1) using scan_packets [of "new_sizes limit" ps "packet_header p @ rest"] assms(2) by auto
  show ?thesis
  proof (intro conjI impI)
    assume "limit < packet_size p"
    then show "fst (scan_chunks (new_sizes limit) chunks) = Some (Packet_Of (packet_size p))"
      using s(2,3) assms(3) by (simp add: scan_chunks_concat s(1) scan_header Let_def)
  next
    assume fits: "packet_size p \<le> limit \<and> length rest \<le> length (snd p)"
    then show "fst (scan_chunks (new_sizes limit) chunks) = None"
      unfolding scan_chunks_concat s(1) scan_header [OF s(2) assms(3)]
      using s(3) by (cases rest) (auto simp: Let_def)
  qed
qed

theorem packet_sizes_limit_witness:
  "fst (scan_chunks (new_sizes 10) [[16], [2, 0], [0, 48, 200], [1]]) = Some (Packet_Of 203)"
proof -
  have "concat [[16], [2, 0], [0, 48, 200], [1]] =
      concat (map (\<lambda>p. packet_header p @ snd p) [(16, [0, 0])]) @ packet_header (48, replicate 200 0) @ []"
    by (simp add: packet_header_def len_bytes.simps)
  from packet_sizes_limit [OF this, of 10] show ?thesis
    by (simp add: packet_size_def packet_header_def len_bytes.simps del: scan_chunks.simps)
qed

end
