(* ===== verification/Outbox.thy ===== *)
theory Outbox
  imports Prelude
begin

text \<open>
  \<open>packages/mobile-core/src/outbox.ts\<close>: submissions kept on a device until the server has them.
  The entries are kept in memory and written to the device's store as JSON text; the text is the
  list it was written from, or unreadable. In the first sections an operation, which loads, changes and
  saves, is one step; the last section takes it apart at every \<open>await\<close>, and shows what
  is kept when operations overlap and what is lost. What the server answers to a send is an argument.
\<close>

datatype OutboxStatus = PENDING | SENDING | REJECTED

record 'b OutboxEntry =
  oe_key :: string
  oe_kind :: string
  oe_body :: 'b
  oe_createdAt :: string
  oe_status :: OutboxStatus
  oe_attempts :: nat
  oe_lastError :: "string option"

datatype 'b SendOutcome = SENT | RETRY string | REFUSED string "'b option"

record FlushResult =
  fr_sent :: nat
  fr_retry :: nat
  fr_rejected :: nat

datatype 'b Stored = No_Text | Unreadable | Json_Text "'b OutboxEntry list"

record 'b PersistentOutbox =
  ob_entries :: "'b OutboxEntry list option"
  ob_store :: "'b Stored"

text \<open>
  \<open>load\<close>: from memory, else from the store; a send cut short is pending again. The code keeps what it
  loaded in memory; the store changes only with the memory, so loading again gives the same list.
\<close>

definition load :: "'b PersistentOutbox \<Rightarrow> 'b OutboxEntry list" where
  "load ob =
     (case ob_entries ob of
        Some entries \<Rightarrow> entries
      | None \<Rightarrow>
          let loaded = (case ob_store ob of Json_Text entries \<Rightarrow> entries | _ \<Rightarrow> [])
          in map (\<lambda>e. if oe_status e = SENDING then e\<lparr>oe_status := PENDING\<rparr> else e) loaded)"

definition save :: "'b OutboxEntry list \<Rightarrow> 'b PersistentOutbox \<Rightarrow> 'b PersistentOutbox" where
  "save entries ob = ob\<lparr>ob_entries := Some entries, ob_store := Json_Text entries\<rparr>"

text \<open>What \<open>enqueue\<close> does with the entries it loaded, and \<open>enqueue\<close> when nothing happened since.\<close>

definition enqueue_from :: "'b OutboxEntry list \<Rightarrow> string \<Rightarrow> string \<Rightarrow> 'b \<Rightarrow> string \<Rightarrow> 'b PersistentOutbox \<Rightarrow> 'b OutboxEntry \<times> 'b PersistentOutbox" where
  "enqueue_from entries key kind body now ob =
     (case find (\<lambda>candidate. oe_key candidate = key) entries of
        Some existing \<Rightarrow> (existing, ob)
      | None \<Rightarrow>
          let added = \<lparr>oe_key = key, oe_kind = kind, oe_body = body, oe_createdAt = now,
                       oe_status = PENDING, oe_attempts = 0, oe_lastError = None\<rparr>
          in (added, save (entries @ [added]) ob))"

definition enqueue :: "string \<Rightarrow> string \<Rightarrow> 'b \<Rightarrow> string \<Rightarrow> 'b PersistentOutbox \<Rightarrow> 'b OutboxEntry \<times> 'b PersistentOutbox" where
  "enqueue key kind body now ob = enqueue_from (load ob) key kind body now ob"

definition dismiss :: "string \<Rightarrow> 'b PersistentOutbox \<Rightarrow> 'b PersistentOutbox" where
  "dismiss key ob = save (filter (\<lambda>e. oe_key e \<noteq> key \<or> oe_status e \<noteq> REJECTED) (load ob)) ob"

definition replace_entry :: "string \<Rightarrow> ('b OutboxEntry \<Rightarrow> 'b OutboxEntry) \<Rightarrow> 'b PersistentOutbox \<Rightarrow> 'b PersistentOutbox" where
  "replace_entry key change ob = save (map (\<lambda>e. if oe_key e = key then change e else e) (load ob)) ob"

text \<open>\<open>...(body !== undefined && { body })\<close>.\<close>

definition with_body :: "'b option \<Rightarrow> 'b OutboxEntry \<Rightarrow> 'b OutboxEntry" where
  "with_body body e = (case body of None \<Rightarrow> e | Some b \<Rightarrow> e\<lparr>oe_body := b\<rparr>)"

lemma with_body_same [simp]: "oe_key (with_body body e) = oe_key e" "oe_kind (with_body body e) = oe_kind e"
  "oe_attempts (with_body body e) = oe_attempts e"
  by (simp_all add: with_body_def split: option.split)

definition retry :: "string \<Rightarrow> 'b option \<Rightarrow> 'b PersistentOutbox \<Rightarrow> 'b PersistentOutbox" where
  "retry key body ob =
     replace_entry key
       (\<lambda>e. (with_body body e)\<lparr>oe_status := PENDING, oe_lastError := None\<rparr>) ob"

text \<open>The steps of the sending loop: an entry is marked as being sent, and its answer applied.\<close>

definition start_send :: "'b OutboxEntry \<Rightarrow> 'b PersistentOutbox \<Rightarrow> 'b PersistentOutbox" where
  "start_send entry ob =
     replace_entry (oe_key entry) (\<lambda>e. e\<lparr>oe_status := SENDING, oe_attempts := oe_attempts entry + 1\<rparr>) ob"

definition answer :: "string \<Rightarrow> 'b SendOutcome \<Rightarrow> 'b PersistentOutbox \<Rightarrow> 'b PersistentOutbox" where
  "answer key outcome ob =
     (case outcome of
        SENT \<Rightarrow> save (filter (\<lambda>e. oe_key e \<noteq> key) (load ob)) ob
      | REFUSED reason body \<Rightarrow>
          replace_entry key (\<lambda>e. (with_body body e)\<lparr>oe_status := REJECTED, oe_lastError := Some reason\<rparr>) ob
      | RETRY error \<Rightarrow> replace_entry key (\<lambda>e. e\<lparr>oe_status := PENDING, oe_lastError := Some error\<rparr>) ob)"

definition waits_for :: "('b OutboxEntry \<Rightarrow> bool) \<Rightarrow> string list \<Rightarrow> 'b OutboxEntry \<Rightarrow> bool" where
  "waits_for only tried e \<longleftrightarrow> oe_status e = PENDING \<and> oe_key e \<notin> set tried \<and> only e"

lemma load_save [simp]: "load (save entries ob) = entries"
  by (simp add: load_def save_def)

lemma load_start_send:
  "load (start_send entry ob) =
     map (\<lambda>e. if oe_key e = oe_key entry then e\<lparr>oe_status := SENDING, oe_attempts := oe_attempts entry + 1\<rparr> else e) (load ob)"
  by (simp add: start_send_def replace_entry_def)

lemma load_answer:
  "load (answer key outcome ob) =
     (case outcome of
        SENT \<Rightarrow> filter (\<lambda>e. oe_key e \<noteq> key) (load ob)
      | REFUSED reason body \<Rightarrow> map (\<lambda>e. if oe_key e = key then (with_body body e)\<lparr>oe_status := REJECTED, oe_lastError := Some reason\<rparr> else e) (load ob)
      | RETRY error \<Rightarrow> map (\<lambda>e. if oe_key e = key then e\<lparr>oe_status := PENDING, oe_lastError := Some error\<rparr> else e) (load ob))"
  by (cases outcome) (simp_all add: answer_def replace_entry_def)

definition keys :: "'b OutboxEntry list \<Rightarrow> string list" where
  "keys entries = map oe_key entries"

lemma keys_start_send [simp]: "keys (load (start_send entry ob)) = keys (load ob)"
  by (simp add: keys_def load_start_send)

lemma keys_answer:
  "keys (load (answer key outcome ob)) = (if outcome = SENT then filter (\<lambda>k. k \<noteq> key) (keys (load ob)) else keys (load ob))"
  by (cases outcome) (auto simp: load_answer keys_def filter_map o_def)

definition untried :: "string list \<Rightarrow> string list \<Rightarrow> nat" where
  "untried tried ks = length (filter (\<lambda>k. k \<notin> set tried) ks)"

lemma untried_step:
  assumes "find (waits_for only tried) (load ob) = Some entry"
  shows "untried (oe_key entry # tried) (keys (load (answer (oe_key entry) outcome (start_send entry ob)))) <
    untried tried (keys (load ob))"
proof -
  let ?ks = "keys (load ob)"
  have entry: "oe_key entry \<in> set ?ks" "oe_key entry \<notin> set tried"
    using assms by (auto simp: find_Some_iff waits_for_def keys_def)
  have "untried (oe_key entry # tried) (keys (load (answer (oe_key entry) outcome (start_send entry ob)))) =
      length (filter (\<lambda>k. k \<noteq> oe_key entry) (filter (\<lambda>k. k \<notin> set tried) ?ks))"
    by (auto simp: keys_answer untried_def intro!: arg_cong [where f = length] filter_cong)
  also have "\<dots> < length (filter (\<lambda>k. k \<notin> set tried) ?ks)"
    using entry by (intro length_filter_less [of "oe_key entry"]) simp_all
  finally show ?thesis by (simp add: untried_def)
qed

text \<open>
  The loop of \<open>flush\<close>. Sending is a function of the outside state \<open>'s\<close> and the entry; a send that throws
  (\<^term>\<open>Inl\<close>) is to be tried again.
\<close>

type_synonym ('s, 'b) sender = "'s \<Rightarrow> 'b OutboxEntry \<Rightarrow> (string + 'b SendOutcome) \<times> 's"

definition outcome_of :: "string + 'b SendOutcome \<Rightarrow> 'b SendOutcome" where
  "outcome_of r = (case r of Inl error \<Rightarrow> RETRY error | Inr outcome \<Rightarrow> outcome)"

function flush_loop ::
  "('s, 'b) sender \<Rightarrow> ('b OutboxEntry \<Rightarrow> bool) \<Rightarrow> string list \<Rightarrow> nat \<Rightarrow> nat \<Rightarrow>
   's \<Rightarrow> 'b PersistentOutbox \<Rightarrow> FlushResult \<times> 's \<times> 'b PersistentOutbox" where
  "flush_loop send only tried sent rejected st ob =
     (case find (waits_for only tried) (load ob) of
        None \<Rightarrow> (\<lparr>fr_sent = sent, fr_retry = 0, fr_rejected = rejected\<rparr>, st, ob)
      | Some entry \<Rightarrow>
          let (r, st') = send st entry;
              ob' = answer (oe_key entry) (outcome_of r) (start_send entry ob)
          in case outcome_of r of
               SENT \<Rightarrow> flush_loop send only (oe_key entry # tried) (sent + 1) rejected st' ob'
             | REFUSED _ _ \<Rightarrow> flush_loop send only (oe_key entry # tried) sent (rejected + 1) st' ob'
             | RETRY _ \<Rightarrow>
                 (\<lparr>fr_sent = sent,
                   fr_retry = length (filter (\<lambda>e. oe_status e = PENDING \<and> only e) (load ob')), fr_rejected = rejected\<rparr>,
                  st', ob'))"
  by pat_completeness auto
termination
  by (relation "measure (\<lambda>(send, only, tried, sent, rejected, st, ob). untried tried (keys (load ob)))") (auto intro!: untried_step)

declare flush_loop.simps [simp del]

definition flush ::
  "('s, 'b) sender \<Rightarrow> ('b OutboxEntry \<Rightarrow> bool) \<Rightarrow> 's \<Rightarrow> 'b PersistentOutbox \<Rightarrow> FlushResult \<times> 's \<times> 'b PersistentOutbox" where
  "flush send only st ob = flush_loop send only [] 0 0 st ob"

section \<open>A flush is one pass over the entries\<close>

text \<open>
  The reference: from the oldest entry on, each one that may go is sent once; one that was taken is
  gone, one that was refused is kept with the reason, and the first one without an answer ends the
  pass. The counts are of the entries taken and refused, and the flag says whether it was ended.
\<close>

record ('s, 'b) Pass =
  pass_entries :: "'b OutboxEntry list"
  pass_state :: 's
  pass_sent :: nat
  pass_rejected :: nat
  pass_ended :: bool

definition refused_entry :: "string \<Rightarrow> 'b option \<Rightarrow> 'b OutboxEntry \<Rightarrow> 'b OutboxEntry" where
  "refused_entry reason body e =
     (with_body body e)\<lparr>oe_status := REJECTED, oe_attempts := oe_attempts e + 1, oe_lastError := Some reason\<rparr>"

definition unanswered_entry :: "string \<Rightarrow> 'b OutboxEntry \<Rightarrow> 'b OutboxEntry" where
  "unanswered_entry error e = e\<lparr>oe_status := PENDING, oe_attempts := oe_attempts e + 1, oe_lastError := Some error\<rparr>"

fun drain :: "('s, 'b) sender \<Rightarrow> ('b OutboxEntry \<Rightarrow> bool) \<Rightarrow> 's \<Rightarrow> 'b OutboxEntry list \<Rightarrow> ('s, 'b) Pass" where
  "drain send only st [] = \<lparr>pass_entries = [], pass_state = st, pass_sent = 0, pass_rejected = 0, pass_ended = False\<rparr>"
| "drain send only st (e # es) =
     (if oe_status e = PENDING \<and> only e
      then (case outcome_of (fst (send st e)) of
              SENT \<Rightarrow> (let p = drain send only (snd (send st e)) es in p\<lparr>pass_sent := pass_sent p + 1\<rparr>)
            | REFUSED reason body \<Rightarrow>
                (let p = drain send only (snd (send st e)) es
                 in p\<lparr>pass_entries := refused_entry reason body e # pass_entries p, pass_rejected := pass_rejected p + 1\<rparr>)
            | RETRY error \<Rightarrow>
                \<lparr>pass_entries = unanswered_entry error e # es, pass_state = snd (send st e), pass_sent = 0,
                 pass_rejected = 0, pass_ended = True\<rparr>)
      else (let p = drain send only st es in p\<lparr>pass_entries := e # pass_entries p\<rparr>))"

lemma drain_step:
  "pass_entries (drain send only st (e # es)) =
    (if oe_status e = PENDING \<and> only e
     then (case outcome_of (fst (send st e)) of
             SENT \<Rightarrow> pass_entries (drain send only (snd (send st e)) es)
           | REFUSED reason body \<Rightarrow> refused_entry reason body e # pass_entries (drain send only (snd (send st e)) es)
           | RETRY error \<Rightarrow> unanswered_entry error e # es)
     else e # pass_entries (drain send only st es))"
  "pass_state (drain send only st (e # es)) =
    (if oe_status e = PENDING \<and> only e
     then (case outcome_of (fst (send st e)) of
             RETRY error \<Rightarrow> snd (send st e)
           | _ \<Rightarrow> pass_state (drain send only (snd (send st e)) es))
     else pass_state (drain send only st es))"
  by (simp_all add: Let_def split: SendOutcome.split)

lemma answered_key [simp]: "oe_key (refused_entry reason body e) = oe_key e" "oe_key (unanswered_entry error e) = oe_key e"
  by (simp_all add: refused_entry_def unanswered_entry_def)

definition pass_result :: "('b OutboxEntry \<Rightarrow> bool) \<Rightarrow> 'b OutboxEntry list \<Rightarrow> nat \<Rightarrow> nat \<Rightarrow> ('s, 'b) Pass \<Rightarrow> FlushResult" where
  "pass_result only earlier sent rejected p =
     \<lparr>fr_sent = sent + pass_sent p,
      fr_retry = (if pass_ended p then length (filter (\<lambda>e. oe_status e = PENDING \<and> only e) (earlier @ pass_entries p)) else 0),
      fr_rejected = rejected + pass_rejected p\<rparr>"

lemma find_waits: "\<forall>e \<in> set earlier. \<not> waits_for only tried e \<Longrightarrow> waits_for only tried e \<Longrightarrow> find (waits_for only tried) (earlier @ e # es) = Some e"
  by (induction earlier) auto

lemma answered_entries:
  assumes "load ob = earlier @ e # es" "distinct (keys (load ob))"
  shows "load (answer (oe_key e) outcome (start_send e ob)) = earlier @
    (case outcome of SENT \<Rightarrow> [] | REFUSED reason body \<Rightarrow> [refused_entry reason body e] | RETRY error \<Rightarrow> [unanswered_entry error e]) @ es"
proof -
  have "distinct (map oe_key earlier @ oe_key e # map oe_key es)" using assms by (simp add: keys_def)
  then have "oe_key e \<notin> oe_key ` (set earlier \<union> set es)" by auto
  then have other: "oe_key x \<noteq> oe_key e" if "x \<in> set earlier \<union> set es" for x using that by (metis imageI)
  then have same: "map (\<lambda>x. if oe_key x = oe_key e then f x else x) xs = xs" "filter (\<lambda>x. oe_key x \<noteq> oe_key e) xs = xs"
    if "set xs \<subseteq> set earlier \<union> set es" for f xs
    using that other by (auto intro!: map_idI filter_True)
  have start: "load (start_send e ob) = earlier @ e\<lparr>oe_status := SENDING, oe_attempts := oe_attempts e + 1\<rparr> # es"
    by (simp add: load_start_send assms(1) same)
  show ?thesis
    by (cases outcome) (simp_all add: load_answer start same refused_entry_def unanswered_entry_def with_body_def split: option.split)
qed

lemma flush_loop_drain:
  assumes "load ob = earlier @ es" "distinct (keys (load ob))"
    and "\<forall>e \<in> set earlier. \<not> waits_for only tried e" "\<forall>e \<in> set es. oe_key e \<notin> set tried"
  shows "\<exists>ob'. flush_loop send only tried sent rejected st ob =
      (pass_result only earlier sent rejected (drain send only st es), pass_state (drain send only st es), ob') \<and>
    load ob' = earlier @ pass_entries (drain send only st es)"
  using assms
proof (induction es arbitrary: ob earlier tried sent rejected st)
  case Nil
  then have "find (waits_for only tried) (load ob) = None" by (auto simp: find_None_iff)
  then show ?case using Nil by (subst flush_loop.simps) (simp add: pass_result_def)
next
  case (Cons e es)
  show ?case
  proof (cases "oe_status e = PENDING \<and> only e")
    case False
    then have "\<forall>x \<in> set (earlier @ [e]). \<not> waits_for only tried x" using Cons.prems(3) by (auto simp: waits_for_def)
    from Cons.IH [OF _ Cons.prems(2) this, of sent rejected st] obtain ob' where
      "flush_loop send only tried sent rejected st ob =
        (pass_result only (earlier @ [e]) sent rejected (drain send only st es), pass_state (drain send only st es), ob')"
      "load ob' = (earlier @ [e]) @ pass_entries (drain send only st es)"
      using Cons.prems(1,4) by auto
    moreover have "drain send only st (e # es) =
        (drain send only st es)\<lparr>pass_entries := e # pass_entries (drain send only st es)\<rparr>"
      unfolding drain.simps if_not_P [OF False] Let_def ..
    ultimately show ?thesis by (simp add: pass_result_def)
  next
    case True
    obtain r st' where send: "send st e = (r, st')" by fastforce
    let ?ob = "answer (oe_key e) (outcome_of r) (start_send e ob)" and ?tried = "oe_key e # tried"
    have next_entry: "find (waits_for only tried) (load ob) = Some e"
      unfolding Cons.prems(1) using Cons.prems(3,4) True by (intro find_waits) (auto simp: waits_for_def)
    note load' = answered_entries [OF Cons.prems(1,2), of "outcome_of r"]
    have d: "distinct (keys (load ?ob))" using Cons.prems(2) by (simp add: keys_answer)
    have "oe_key e \<notin> oe_key ` set es" using Cons.prems(1,2) by (simp add: keys_def)
    then have "oe_key x \<noteq> oe_key e" if "x \<in> set es" for x using that by (metis imageI)
    then have rest: "\<forall>x \<in> set es. oe_key x \<notin> set ?tried" using Cons.prems(4) by auto
    have earlier: "\<forall>x \<in> set earlier. \<not> waits_for only ?tried x" using Cons.prems(3) by (auto simp: waits_for_def)
    show ?thesis
    proof (cases "outcome_of r")
      case SENT
      then have "load ?ob = earlier @ es" using load' by simp
      from Cons.IH [OF this d earlier rest, of "sent + 1" rejected st'] show ?thesis
        using True SENT send by (subst flush_loop.simps) (simp add: next_entry Let_def pass_result_def split del: if_split cong: if_cong)
    next
      case (REFUSED reason body)
      then have l: "load ?ob = (earlier @ [refused_entry reason body e]) @ es" using load' by simp
      have "\<forall>x \<in> set (earlier @ [refused_entry reason body e]). \<not> waits_for only ?tried x"
        using earlier by (auto simp: waits_for_def refused_entry_def)
      from Cons.IH [OF l d this rest, of sent "rejected + 1" st'] show ?thesis
        using True REFUSED send by (subst flush_loop.simps) (simp add: next_entry Let_def pass_result_def split del: if_split cong: if_cong)
    next
      case (RETRY error)
      then show ?thesis
        using load' True send by (subst flush_loop.simps) (simp add: next_entry Let_def pass_result_def)
    qed
  qed
qed

lemma drain_leaves:
  "\<not> pass_ended (drain send only st es) \<Longrightarrow> e \<in> set (pass_entries (drain send only st es)) \<Longrightarrow> oe_status e = PENDING \<Longrightarrow> \<not> only e"
proof (induction es arbitrary: st)
  case (Cons x es)
  show ?case
  proof (cases "oe_status x = PENDING \<and> only x")
    case True
    show ?thesis
    proof (cases "outcome_of (fst (send st x))")
      case SENT
      with True Cons.prems show ?thesis by (intro Cons.IH [of "snd (send st x)"]) (simp_all add: Let_def)
    next
      case (REFUSED reason body)
      with True Cons.prems have "e = refused_entry reason body x \<or> e \<in> set (pass_entries (drain send only (snd (send st x)) es))"
        by (simp add: Let_def)
      then show ?thesis
        using True REFUSED Cons.prems Cons.IH [of "snd (send st x)"] by (auto simp: Let_def refused_entry_def)
    next
      case (RETRY error)
      with True Cons.prems show ?thesis by simp
    qed
  next
    case False
    have d: "drain send only st (x # es) = (drain send only st es)\<lparr>pass_entries := x # pass_entries (drain send only st es)\<rparr>"
      unfolding drain.simps if_not_P [OF False] Let_def ..
    show ?thesis using Cons.prems Cons.IH [of st] False unfolding d by auto
  qed
qed simp

text \<open>
  C32: flushing is one pass from the oldest entry on. When no two entries share a key, the flush ends; it
  sends each entry that may go exactly once and in order, up to the first without an answer, and
  leaves what the pass leaves; when none is left without an answer, nothing that may go still waits.
\<close>

theorem flush_is_one_pass:
  assumes "distinct (keys (load ob))" and p_def: "p = drain send only st (load ob)"
  shows "\<exists>ob'. flush send only st ob = (pass_result only [] 0 0 p, pass_state p, ob') \<and> load ob' = pass_entries p \<and>
    (\<not> pass_ended p \<longrightarrow> (\<forall>e \<in> set (pass_entries p). oe_status e = PENDING \<longrightarrow> \<not> only e))"
proof -
  obtain ob' where "flush_loop send only [] 0 0 st ob = (pass_result only [] 0 0 (drain send only st (load ob)),
      pass_state (drain send only st (load ob)), ob')" "load ob' = [] @ pass_entries (drain send only st (load ob))"
    using flush_loop_drain [of ob "[]" "load ob" only "[]" send 0 0 st] assms(1) by auto
  then have ob': "flush send only st ob = (pass_result only [] 0 0 p, pass_state p, ob')" "load ob' = pass_entries p"
    by (simp_all only: flush_def p_def append_Nil)
  have "\<not> pass_ended p \<longrightarrow> (\<forall>e \<in> set (pass_entries p). oe_status e = PENDING \<longrightarrow> \<not> only e)"
    unfolding p_def by (intro impI ballI) (rule drain_leaves)
  with ob' show ?thesis by blast
qed

definition sample_sender :: "(string list, nat) sender" where
  "sample_sender sent e =
     (if oe_body e = 0 then (Inr (REFUSED ''SOLD_OUT'' None), sent)
      else if oe_body e = 9 then (Inl ''offline'', sent)
      else (Inr SENT, sent @ [oe_key e]))"

definition sample_outbox :: "nat PersistentOutbox" where
  "sample_outbox =
     \<lparr>ob_entries = None,
      ob_store = Json_Text [\<lparr>oe_key = ''a'', oe_kind = ''order'', oe_body = 1, oe_createdAt = [], oe_status = SENDING, oe_attempts = 1, oe_lastError = None\<rparr>,
        \<lparr>oe_key = ''b'', oe_kind = ''order'', oe_body = 0, oe_createdAt = [], oe_status = PENDING, oe_attempts = 0, oe_lastError = None\<rparr>,
        \<lparr>oe_key = ''c'', oe_kind = ''order'', oe_body = 9, oe_createdAt = [], oe_status = PENDING, oe_attempts = 0, oe_lastError = None\<rparr>,
        \<lparr>oe_key = ''d'', oe_kind = ''order'', oe_body = 2, oe_createdAt = [], oe_status = PENDING, oe_attempts = 0, oe_lastError = None\<rparr>]\<rparr>"

theorem flush_is_one_pass_witness:
  "\<exists>ob'. flush sample_sender (\<lambda>_. True) [] sample_outbox = (\<lparr>fr_sent = 1, fr_retry = 2, fr_rejected = 1\<rparr>, [''a''], ob') \<and>
     keys (load ob') = [''b'', ''c'', ''d'']"
proof -
  have d: "distinct (keys (load sample_outbox))" by code_simp
  let ?p = "drain sample_sender (\<lambda>_. True) [] (load sample_outbox)"
  have r: "pass_result (\<lambda>_. True) [] 0 0 ?p = \<lparr>fr_sent = 1, fr_retry = 2, fr_rejected = 1\<rparr>" by code_simp
  have st: "pass_state ?p = [''a'']" by code_simp
  have k: "keys (pass_entries ?p) = [''b'', ''c'', ''d'']" by code_simp
  obtain ob' where "flush sample_sender (\<lambda>_. True) [] sample_outbox = (pass_result (\<lambda>_. True) [] 0 0 ?p, pass_state ?p, ob')"
      "load ob' = pass_entries ?p"
    using flush_is_one_pass [OF d refl, of sample_sender "\<lambda>_. True" "[]"] by blast
  then show ?thesis unfolding r st using k by metis
qed

section \<open>Nothing is dropped silently\<close>

text \<open>What is known of the keys after each operation.\<close>

lemma keys_replace [simp]: "(\<And>e. oe_key (f e) = oe_key e) \<Longrightarrow> keys (load (replace_entry key f ob)) = keys (load ob)"
  by (simp add: replace_entry_def keys_def)

lemma find_key: "find (\<lambda>candidate. oe_key candidate = key) entries = None \<longleftrightarrow> key \<notin> set (keys entries)"
  by (auto simp: find_None_iff keys_def)

lemma keys_enqueue:
  "keys (load (snd (enqueue key kind body now ob))) = (if key \<in> set (keys (load ob)) then keys (load ob) else keys (load ob) @ [key])"
  using find_key [of key "load ob"]
  by (cases "find (\<lambda>candidate. oe_key candidate = key) (load ob)") (auto simp: enqueue_def enqueue_from_def keys_def Let_def)

text \<open>A fresh device.\<close>

definition new_outbox :: "'b PersistentOutbox" where
  "new_outbox = \<lparr>ob_entries = None, ob_store = No_Text\<rparr>"

lemma new_outbox_ok [simp]: "load new_outbox = []"
  by (simp add: new_outbox_def load_def)

text \<open>
  The outbox as it runs, with every \<open>await\<close> a place where something else may happen. An operation that
  needs the list takes what is in memory (\<open>Loads\<close>), or asks the store and puts what it answered
  into memory (\<open>Reads\<close>, \<open>Parses\<close>); it then saves what it made of the list (\<open>Changes\<close>), which is in memory at
  once and in the store when the write ends (\<open>Written\<close>, with the key that the call that waits for it submitted)
  or never (\<open>Write_Failed\<close>). The store carries writes out in the order they were asked for. The answer to a send
  comes at any time, and the app may close at any moment: memory, running operations and
  writes that have not ended are gone.
\<close>

datatype 'b Change =
    Enqueues string string 'b string
  | Dismisses string
  | Retries string "'b option"
  | Starts "'b OutboxEntry"
  | Answers string "'b SendOutcome"

datatype 'b DeviceEvent =
    Reads nat
  | Parses nat
  | Loads nat
  | Changes nat "'b Change"
  | Written "string option"
  | Write_Failed
  | App_Closed

text \<open>What an operation makes of the list it loaded; an entry that is there already is not saved again.\<close>

fun apply_change :: "'b Change \<Rightarrow> 'b OutboxEntry list \<Rightarrow> 'b OutboxEntry list option" where
  "apply_change (Enqueues key kind body now) entries =
     (case find (\<lambda>candidate. oe_key candidate = key) entries of
        Some existing \<Rightarrow> None
      | None \<Rightarrow> Some (entries @ [\<lparr>oe_key = key, oe_kind = kind, oe_body = body, oe_createdAt = now,
                                  oe_status = PENDING, oe_attempts = 0, oe_lastError = None\<rparr>]))"
| "apply_change (Dismisses key) entries = Some (filter (\<lambda>e. oe_key e \<noteq> key \<or> oe_status e \<noteq> REJECTED) entries)"
| "apply_change (Retries key body) entries =
     Some (map (\<lambda>e. if oe_key e = key then (with_body body e)\<lparr>oe_status := PENDING, oe_lastError := None\<rparr> else e) entries)"
| "apply_change (Starts entry) entries =
     Some (map (\<lambda>e. if oe_key e = oe_key entry then e\<lparr>oe_status := SENDING, oe_attempts := oe_attempts entry + 1\<rparr> else e) entries)"
| "apply_change (Answers key SENT) entries = Some (filter (\<lambda>e. oe_key e \<noteq> key) entries)"
| "apply_change (Answers key (REFUSED reason body)) entries =
     Some (map (\<lambda>e. if oe_key e = key then (with_body body e)\<lparr>oe_status := REJECTED, oe_lastError := Some reason\<rparr> else e) entries)"
| "apply_change (Answers key (RETRY error)) entries =
     Some (map (\<lambda>e. if oe_key e = key then e\<lparr>oe_status := PENDING, oe_lastError := Some error\<rparr> else e) entries)"

fun submits :: "'b Change \<Rightarrow> string option" where
  "submits (Enqueues key kind body now) = Some key"
| "submits _ = None"

text \<open>An operation under way holds the text the store answered with, or the list it loaded.\<close>

datatype 'b Holding = Stored_Text "'b Stored" | Loaded_List "'b OutboxEntry list"

record 'b Device =
  dv_outbox :: "'b PersistentOutbox"
  dv_writing :: "(string option \<times> 'b OutboxEntry list) list"
  dv_holds :: "nat \<rightharpoonup> 'b Holding"

definition device_of :: "'b PersistentOutbox \<Rightarrow> 'b Device" where
  "device_of ob = \<lparr>dv_outbox = ob, dv_writing = [], dv_holds = Map.empty\<rparr>"

definition parsed :: "'b Stored \<Rightarrow> 'b OutboxEntry list" where
  "parsed stored = load \<lparr>ob_entries = None, ob_store = stored\<rparr>"

text \<open>One step; \<^term>\<open>None\<close> when it cannot happen.\<close>

fun device_step :: "'b DeviceEvent \<Rightarrow> 'b Device \<Rightarrow> 'b Device option" where
  "device_step (Reads n) d =
     (case ob_entries (dv_outbox d) of
        None \<Rightarrow> Some (d\<lparr>dv_holds := (dv_holds d)(n \<mapsto> Stored_Text (ob_store (dv_outbox d)))\<rparr>)
      | Some entries \<Rightarrow> None)"
| "device_step (Parses n) d =
     (case dv_holds d n of
        Some (Stored_Text stored) \<Rightarrow>
          Some (d\<lparr>dv_outbox := (dv_outbox d)\<lparr>ob_entries := Some (parsed stored)\<rparr>,
                  dv_holds := (dv_holds d)(n \<mapsto> Loaded_List (parsed stored))\<rparr>)
      | _ \<Rightarrow> None)"
| "device_step (Loads n) d =
     (case ob_entries (dv_outbox d) of
        None \<Rightarrow> None
      | Some entries \<Rightarrow> Some (d\<lparr>dv_holds := (dv_holds d)(n \<mapsto> Loaded_List entries)\<rparr>))"
| "device_step (Changes n c) d =
     (case dv_holds d n of
        Some (Loaded_List entries) \<Rightarrow>
          (let rest = d\<lparr>dv_holds := (dv_holds d)(n := None)\<rparr>
          in case apply_change c entries of
               None \<Rightarrow> Some rest
             | Some changed \<Rightarrow>
                 Some (rest\<lparr>dv_outbox := (dv_outbox d)\<lparr>ob_entries := Some changed\<rparr>,
                            dv_writing := dv_writing d @ [(submits c, changed)]\<rparr>))
      | _ \<Rightarrow> None)"
| "device_step (Written submitted) d =
     (case dv_writing d of
        [] \<Rightarrow> None
      | (label, entries) # later \<Rightarrow>
          if label = submitted
          then Some (d\<lparr>dv_outbox := (dv_outbox d)\<lparr>ob_store := Json_Text entries\<rparr>, dv_writing := later\<rparr>)
          else None)"
| "device_step Write_Failed d = (case dv_writing d of [] \<Rightarrow> None | w # later \<Rightarrow> Some (d\<lparr>dv_writing := later\<rparr>))"
| "device_step App_Closed d = Some (device_of ((dv_outbox d)\<lparr>ob_entries := None\<rparr>))"

fun device_run :: "'b DeviceEvent list \<Rightarrow> 'b Device \<Rightarrow> 'b Device option" where
  "device_run [] d = Some d"
| "device_run (e # es) d = (case device_step e d of None \<Rightarrow> None | Some d' \<Rightarrow> device_run es d')"

text \<open>
  The operations of the sections above are such runs in which nothing comes between: the list is loaded,
  changed and written.
\<close>

definition fetches :: "'b PersistentOutbox \<Rightarrow> 'b DeviceEvent list" where
  "fetches ob = (if ob_entries ob = None then [Reads 0, Parses 0] else [Loads 0])"

lemma fetches_load:
  "device_run (fetches ob) (device_of ob) =
    Some (device_of (ob\<lparr>ob_entries := Some (load ob)\<rparr>)\<lparr>dv_holds := [0 \<mapsto> Loaded_List (load ob)]\<rparr>)"
proof (cases "ob_entries ob")
  case None
  then have "ob = \<lparr>ob_entries = None, ob_store = ob_store ob\<rparr>" by simp
  then have "parsed (ob_store ob) = load ob" unfolding parsed_def by metis
  with None show ?thesis by (simp add: fetches_def device_of_def)
qed (simp add: fetches_def device_of_def load_def)

lemma device_run_append: "device_run (es @ fs) d = (case device_run es d of None \<Rightarrow> None | Some d' \<Rightarrow> device_run fs d')"
  by (induction es arbitrary: d) (auto split: option.splits)

lemma operation_alone:
  assumes "apply_change c (load ob) = Some changed"
  shows "device_run (fetches ob @ [Changes 0 c, Written (submits c)]) (device_of ob) = Some (device_of (save changed ob))"
  using assms by (simp add: device_run_append fetches_load save_def) (simp add: device_of_def)

lemma operations_alone:
  "apply_change (Enqueues key kind body now) (load ob) = Some changed \<Longrightarrow> snd (enqueue key kind body now ob) = save changed ob"
  "apply_change (Enqueues key kind body now) (load ob) = None \<Longrightarrow> snd (enqueue key kind body now ob) = ob"
  "apply_change (Dismisses key) (load ob) = Some changed \<Longrightarrow> dismiss key ob = save changed ob"
  "apply_change (Retries key body') (load ob) = Some changed \<Longrightarrow> retry key body' ob = save changed ob"
  "apply_change (Starts e) (load ob) = Some changed \<Longrightarrow> start_send e ob = save changed ob"
  "apply_change (Answers key outcome) (load ob) = Some changed \<Longrightarrow> answer key outcome ob = save changed ob"
  by (auto simp: enqueue_def enqueue_from_def dismiss_def retry_def start_send_def answer_def replace_entry_def Let_def
      simp del: One_nat_def split: option.splits SendOutcome.splits)

text \<open>
  Operations take turns when none saves between another's load and its own save: the list an operation changes
  is the list as it is. \<open>fresh\<close> are the operations that loaded since the last save.
\<close>

fun fresh_after :: "nat list \<Rightarrow> 'b DeviceEvent \<Rightarrow> nat list" where
  "fresh_after fresh (Reads n) = n # fresh"
| "fresh_after fresh (Loads n) = n # fresh"
| "fresh_after fresh (Changes n c) = []"
| "fresh_after fresh App_Closed = []"
| "fresh_after fresh _ = fresh"

fun in_turn :: "nat list \<Rightarrow> 'b DeviceEvent \<Rightarrow> bool" where
  "in_turn fresh (Parses n) \<longleftrightarrow> n \<in> set fresh"
| "in_turn fresh (Changes n c) \<longleftrightarrow> n \<in> set fresh"
| "in_turn fresh _ \<longleftrightarrow> True"

fun turns :: "nat list \<Rightarrow> 'b DeviceEvent list \<Rightarrow> bool" where
  "turns fresh [] \<longleftrightarrow> True"
| "turns fresh (e # es) \<longleftrightarrow> in_turn fresh e \<and> turns (fresh_after fresh e) es"

text \<open>What happened to a key: the server took it, or refused it and then a person dismissed it.\<close>

definition was_refused :: "string \<Rightarrow> 'b DeviceEvent list \<Rightarrow> bool" where
  "was_refused key es \<longleftrightarrow> (\<exists>n reason body. Changes n (Answers key (REFUSED reason body)) \<in> set es)"

definition was_taken :: "string \<Rightarrow> 'b DeviceEvent list \<Rightarrow> bool" where
  "was_taken key es \<longleftrightarrow> (\<exists>n. Changes n (Answers key SENT) \<in> set es)"

definition refused_then_dismissed :: "string \<Rightarrow> 'b DeviceEvent list \<Rightarrow> bool" where
  "refused_then_dismissed key es \<longleftrightarrow>
     (\<exists>before n after. es = before @ Changes n (Dismisses key) # after \<and> was_refused key before)"

text \<open>It was handed in since the app was opened last.\<close>

definition handed_in :: "string \<Rightarrow> 'b DeviceEvent list \<Rightarrow> bool" where
  "handed_in key es \<longleftrightarrow>
     (\<exists>before n kind body now after. es = before @ Changes n (Enqueues key kind body now) # after \<and> App_Closed \<notin> set after)"

definition settled :: "string \<Rightarrow> 'b DeviceEvent list \<Rightarrow> bool" where
  "settled key es \<longleftrightarrow> was_taken key es \<or> refused_then_dismissed key es"

lemma was_refused_snoc: "was_refused key (es @ [e]) \<longleftrightarrow> was_refused key es \<or> (\<exists>n reason body. e = Changes n (Answers key (REFUSED reason body)))"
  by (auto simp: was_refused_def)

lemma settled_snoc:
  "settled key es \<Longrightarrow> settled key (es @ [e])"
  "settled key (es @ [Changes n (Answers key SENT)])"
  "was_refused key es \<Longrightarrow> settled key (es @ [Changes n (Dismisses key)])"
proof -
  show "settled key es \<Longrightarrow> settled key (es @ [e])"
    unfolding settled_def was_taken_def refused_then_dismissed_def by (metis Un_iff append.assoc append_Cons set_append)
  show "settled key (es @ [Changes n (Answers key SENT)])" by (auto simp: settled_def was_taken_def)
  show "was_refused key es \<Longrightarrow> settled key (es @ [Changes n (Dismisses key)])"
    by (auto simp: settled_def refused_then_dismissed_def)
qed

lemma handed_in_snoc:
  "handed_in key (es @ [e]) \<longleftrightarrow>
    (\<exists>n kind body now. e = Changes n (Enqueues key kind body now)) \<or> e \<noteq> App_Closed \<and> handed_in key es"
proof
  assume "handed_in key (es @ [e])"
  then obtain before n kind body now after
    where s: "es @ [e] = before @ Changes n (Enqueues key kind body now) # after" "App_Closed \<notin> set after"
    unfolding handed_in_def by blast
  show "(\<exists>n kind body now. e = Changes n (Enqueues key kind body now)) \<or> e \<noteq> App_Closed \<and> handed_in key es"
  proof (cases after rule: rev_cases)
    case (snoc rest x)
    then have "es = before @ Changes n (Enqueues key kind body now) # rest" "x = e" using s(1) by simp_all
    then show ?thesis using s(2) snoc unfolding handed_in_def by auto
  qed (use s in simp)
next
  assume r: "(\<exists>n kind body now. e = Changes n (Enqueues key kind body now)) \<or> e \<noteq> App_Closed \<and> handed_in key es"
  show "handed_in key (es @ [e])"
  proof (cases "\<exists>n kind body now. e = Changes n (Enqueues key kind body now)")
    case False
    then obtain before n kind body now after
      where "es @ [e] = before @ Changes n (Enqueues key kind body now) # (after @ [e])" "App_Closed \<notin> set (after @ [e])"
      using r unfolding handed_in_def by fastforce
    then show ?thesis unfolding handed_in_def by blast
  qed (force simp: handed_in_def)
qed

text \<open>What a change does to the keys, and to the entries that are refused.\<close>

lemma keys_map_if: "(\<And>e. oe_key (f e) = oe_key e) \<Longrightarrow> keys (map (\<lambda>e. if P e then f e else e) entries) = keys entries"
  by (simp add: keys_def)

lemma keys_append: "keys (xs @ ys) = keys xs @ keys ys"
  by (simp add: keys_def)

lemma change_keys:
  "apply_change c entries = Some changed \<Longrightarrow> (\<exists>new. keys changed = keys entries @ new) \<or>
    (\<exists>key. c = Dismisses key) \<or> (\<exists>key. c = Answers key SENT)"
  by (cases "(c, entries)" rule: apply_change.cases) (auto simp: keys_map_if keys_append split: option.splits)

lemma change_keeps:
  assumes ch: "apply_change c entries = Some changed" and key: "key \<in> set (keys entries)"
    and refused: "\<forall>e \<in> set entries. oe_status e = REJECTED \<longrightarrow> was_refused (oe_key e) es"
  shows "key \<in> set (keys changed) \<or> settled key (es @ [Changes n c])"
proof -
  obtain e where e: "e \<in> set entries" "oe_key e = key" using key by (auto simp: keys_def)
  consider new where "keys changed = keys entries @ new" | k where "c = Dismisses k" | k where "c = Answers k SENT"
    using change_keys [OF ch] by blast
  then show ?thesis
  proof cases
    case 2
    then have "e \<in> set changed \<or> k = key \<and> oe_status e = REJECTED" using ch e by auto
    then show ?thesis using e refused 2 settled_snoc(3) [of key es n] by (auto simp: keys_def)
  next
    case 3
    then have "e \<in> set changed \<or> k = key" using ch e by auto
    then show ?thesis using e(2) 3 settled_snoc(2) by (auto simp: keys_def)
  qed (use key in simp)
qed

lemma change_adds:
  "apply_change (Enqueues key kind body now) entries = Some changed \<Longrightarrow> key \<in> set (keys changed)"
  "apply_change (Enqueues key kind body now) entries = None \<Longrightarrow> key \<in> set (keys entries)"
  using find_key [of key entries] by (auto simp: keys_def split: option.splits)

lemma change_none: "apply_change c entries = None \<Longrightarrow> \<exists>key kind body now. c = Enqueues key kind body now"
  by (cases "(c, entries)" rule: apply_change.cases) auto

text \<open>Refused entries are those the server refused.\<close>

definition truly_refused :: "'b DeviceEvent list \<Rightarrow> 'b OutboxEntry list \<Rightarrow> bool" where
  "truly_refused es entries \<longleftrightarrow> (\<forall>e \<in> set entries. oe_status e = REJECTED \<longrightarrow> was_refused (oe_key e) es)"

lemma truly_refused_change:
  "truly_refused es entries \<Longrightarrow> apply_change c entries = Some changed \<Longrightarrow> truly_refused (es @ [Changes n c]) changed"
  by (cases "(c, entries)" rule: apply_change.cases)
    (auto simp: truly_refused_def was_refused_snoc split: option.splits if_splits)

lemma truly_refused_more: "truly_refused es entries \<Longrightarrow> truly_refused (es @ [e]) entries"
  by (auto simp: truly_refused_def was_refused_snoc)

text \<open>
  A key that is in the store, or in a write on its way, is in every later write and in memory.
\<close>

fun carried :: "string \<Rightarrow> bool \<Rightarrow> (string option \<times> 'b OutboxEntry list) list \<Rightarrow> 'b OutboxEntry list option \<Rightarrow> bool" where
  "carried key safe [] memory \<longleftrightarrow> (safe \<longrightarrow> (\<forall>entries. memory = Some entries \<longrightarrow> key \<in> set (keys entries)))"
| "carried key safe ((label, entries) # later) memory \<longleftrightarrow>
     (safe \<or> label = Some key \<longrightarrow> key \<in> set (keys entries)) \<and> carried key (safe \<or> label = Some key) later memory"

lemma carried_less: "carried key True ws memory \<Longrightarrow> carried key safe ws memory"
  by (induction key safe ws memory rule: carried.induct) auto

lemma carried_drop: "carried key safe (w # ws) memory \<Longrightarrow> carried key safe ws memory"
  by (cases w; cases "safe \<or> fst w = Some key") (auto dest: carried_less)

lemma carried_change:
  assumes "carried key safe ws (Some entries)" "key \<in> set (keys entries) \<longrightarrow> key \<in> set (keys changed)"
    "label = Some key \<longrightarrow> key \<in> set (keys changed)"
  shows "carried key safe (ws @ [(label, changed)]) (Some changed)"
  using assms by (induction key safe ws "Some entries" rule: carried.induct) auto

text \<open>The invariant: \<open>fresh\<close> operations hold the list as it is, and what was written stays.\<close>

definition stored_keys :: "'b PersistentOutbox \<Rightarrow> string set" where
  "stored_keys ob = set (keys (parsed (ob_store ob)))"

definition current :: "nat list \<Rightarrow> 'b Device \<Rightarrow> bool" where
  "current fresh d \<longleftrightarrow>
     (dv_writing d \<noteq> [] \<longrightarrow> ob_entries (dv_outbox d) \<noteq> None) \<and>
     (\<forall>n \<in> set fresh. \<forall>entries. dv_holds d n = Some (Loaded_List entries) \<longrightarrow> ob_entries (dv_outbox d) = Some entries) \<and>
     (\<forall>n \<in> set fresh. \<forall>stored. dv_holds d n = Some (Stored_Text stored) \<longrightarrow>
        ob_entries (dv_outbox d) = Some (parsed stored) \<or> ob_entries (dv_outbox d) = None \<and> stored = ob_store (dv_outbox d))"

definition refusals_true :: "'b DeviceEvent list \<Rightarrow> 'b Device \<Rightarrow> bool" where
  "refusals_true es d \<longleftrightarrow>
     truly_refused es (parsed (ob_store (dv_outbox d))) \<and> (\<forall>w \<in> set (dv_writing d). truly_refused es (snd w)) \<and>
     (\<forall>entries. ob_entries (dv_outbox d) = Some entries \<longrightarrow> truly_refused es entries)"

definition key_kept :: "string \<Rightarrow> 'b DeviceEvent list \<Rightarrow> 'b Device \<Rightarrow> bool" where
  "key_kept key es d \<longleftrightarrow> settled key es \<or>
     (Written (Some key) \<in> set es \<longrightarrow> key \<in> stored_keys (dv_outbox d)) \<and>
     carried key (Written (Some key) \<in> set es) (dv_writing d) (ob_entries (dv_outbox d)) \<and>
     (handed_in key es \<longrightarrow> (\<exists>entries. ob_entries (dv_outbox d) = Some entries \<and> key \<in> set (keys entries)))"

lemma parsed_simps [simp]:
  "parsed No_Text = []" "keys (parsed (Json_Text entries)) = keys entries"
  "truly_refused es (parsed (Json_Text entries)) = truly_refused es entries"
  by (auto simp: parsed_def load_def keys_def truly_refused_def)

lemma parses_step:
  assumes "device_step (Parses n) d = Some d'" "n \<in> set fresh" "current fresh d"
  shows "\<exists>stored. dv_holds d n = Some (Stored_Text stored) \<and>
    (ob_entries (dv_outbox d) = Some (parsed stored) \<or> ob_entries (dv_outbox d) = None \<and> stored = ob_store (dv_outbox d)) \<and>
    d' = d\<lparr>dv_outbox := (dv_outbox d)\<lparr>ob_entries := Some (parsed stored)\<rparr>, dv_holds := (dv_holds d)(n \<mapsto> Loaded_List (parsed stored))\<rparr>"
proof -
  obtain stored where "dv_holds d n = Some (Stored_Text stored)"
    using assms(1) by (auto split: option.splits Holding.splits)
  moreover from this have "ob_entries (dv_outbox d) = Some (parsed stored) \<or> ob_entries (dv_outbox d) = None \<and> stored = ob_store (dv_outbox d)"
    using assms(2,3) unfolding current_def by blast
  ultimately show ?thesis using assms(1) by simp
qed

lemma current_step:
  assumes "device_step e d = Some d'" "in_turn fresh e" "current fresh d"
  shows "current (fresh_after fresh e) d'"
proof (cases "(e, d)" rule: device_step.cases)
  case (2 n d1)
  then obtain stored where stored: "ob_entries (dv_outbox d) = Some (parsed stored) \<or> ob_entries (dv_outbox d) = None \<and> stored = ob_store (dv_outbox d)"
      and d': "d' = d\<lparr>dv_outbox := (dv_outbox d)\<lparr>ob_entries := Some (parsed stored)\<rparr>, dv_holds := (dv_holds d)(n \<mapsto> Loaded_List (parsed stored))\<rparr>"
    using parses_step [of n d d' fresh] assms by auto
  have "parsed stored' = parsed stored" if "m \<in> set fresh" "dv_holds d m = Some (Stored_Text stored')" for m stored'
    using stored assms(3) that unfolding current_def by fastforce
  moreover have "entries = parsed stored" if "m \<in> set fresh" "dv_holds d m = Some (Loaded_List entries)" for m entries
    using stored assms(3) that unfolding current_def by fastforce
  ultimately show ?thesis unfolding current_def d' using 2 by auto
next
  case (4 n c d1)
  then show ?thesis using assms(1,3)
    by (auto simp: current_def Let_def split: option.splits Holding.splits)
qed (use assms(1,3) in \<open>auto simp: current_def device_of_def split: option.splits list.splits if_splits\<close>)

lemma refusals_true_step:
  assumes "device_step e d = Some d'" "in_turn fresh e" "current fresh d" "refusals_true es d"
  shows "refusals_true (es @ [e]) d'"
proof -
  have more: "refusals_true (es @ [e]) d" using assms(4) by (auto simp: refusals_true_def truly_refused_more)
  show ?thesis
  proof (cases "(e, d)" rule: device_step.cases)
    case (2 n d1)
    then show ?thesis using parses_step [of n d d' fresh] assms(1-3) more by (auto simp: refusals_true_def)
  next
    case (4 n c d1)
    then obtain entries where n: "dv_holds d n = Some (Loaded_List entries)" "ob_entries (dv_outbox d) = Some entries"
      using assms(1-3) by (auto simp: current_def split: option.splits Holding.splits)
    then have "truly_refused es entries" using assms(4) by (simp add: refusals_true_def)
    then have "truly_refused (es @ [e]) changed" if "apply_change c entries = Some changed" for changed
      using that truly_refused_change 4 by auto
    then show ?thesis using 4 assms(1) more n by (auto simp: refusals_true_def Let_def split: option.splits)
  qed (use assms(1) more in \<open>(force simp: refusals_true_def device_of_def split: option.splits list.splits if_splits)+\<close>)
qed

lemma key_kept_step:
  assumes "device_step e d = Some d'" "in_turn fresh e" "current fresh d" "refusals_true es d" "key_kept key es d"
  shows "key_kept key (es @ [e]) d'"
proof (cases "settled key (es @ [e])")
  case False
  then have kept: "Written (Some key) \<in> set es \<Longrightarrow> key \<in> stored_keys (dv_outbox d)"
      "carried key (Written (Some key) \<in> set es) (dv_writing d) (ob_entries (dv_outbox d))"
      "handed_in key es \<Longrightarrow> \<exists>entries. ob_entries (dv_outbox d) = Some entries \<and> key \<in> set (keys entries)"
    using assms(5) settled_snoc(1) unfolding key_kept_def by blast+
  show ?thesis
  proof (cases "(e, d)" rule: device_step.cases)
    case (2 n d1)
    then obtain stored where stored: "ob_entries (dv_outbox d) = Some (parsed stored) \<or>
          ob_entries (dv_outbox d) = None \<and> stored = ob_store (dv_outbox d)"
        and d': "d' = d\<lparr>dv_outbox := (dv_outbox d)\<lparr>ob_entries := Some (parsed stored)\<rparr>, dv_holds := (dv_holds d)(n \<mapsto> Loaded_List (parsed stored))\<rparr>"
      using parses_step [of n d d' fresh] assms(1-3) by auto
    from stored show ?thesis
    proof
      assume "ob_entries (dv_outbox d) = Some (parsed stored)"
      then show ?thesis using 2 kept unfolding key_kept_def d' by (auto simp: handed_in_snoc stored_keys_def)
    next
      assume none: "ob_entries (dv_outbox d) = None \<and> stored = ob_store (dv_outbox d)"
      then have "dv_writing d = []" using assms(3) by (auto simp: current_def)
      then show ?thesis using 2 kept none unfolding key_kept_def d' by (auto simp: handed_in_snoc stored_keys_def)
    qed
  next
    case (4 n c d1)
    then obtain entries where n: "n \<in> set fresh" "dv_holds d n = Some (Loaded_List entries)"
        "ob_entries (dv_outbox d) = Some entries"
      using assms(1-3) by (auto simp: current_def split: option.splits Holding.splits)
    show ?thesis
    proof (cases "apply_change c entries")
      case None
      then obtain k kind body now where c: "c = Enqueues k kind body now" "k \<in> set (keys entries)"
        using change_none change_adds(2) by metis
      then show ?thesis using assms(1) kept n None 4
        by (auto simp: key_kept_def handed_in_snoc stored_keys_def)
    next
      case (Some changed)
      have r: "\<forall>e \<in> set entries. oe_status e = REJECTED \<longrightarrow> was_refused (oe_key e) es"
        using assms(4) n(3) 4 by (auto simp: refusals_true_def truly_refused_def)
      have stays: "key \<in> set (keys entries) \<longrightarrow> key \<in> set (keys changed)"
        using change_keeps [OF Some _ r, of key n] False 4 by auto
      have added: "submits c = Some key \<longrightarrow> key \<in> set (keys changed)"
        using Some change_adds(1) by (cases c) auto
      have handed: "handed_in key (es @ [e]) \<longrightarrow> handed_in key es \<or> submits c = Some key"
        using 4 by (auto simp: handed_in_snoc)
      have d': "dv_outbox d' = (dv_outbox d)\<lparr>ob_entries := Some changed\<rparr>" "dv_writing d' = dv_writing d @ [(submits c, changed)]"
        using assms(1) 4 n(2) Some by auto
      show ?thesis
        using kept stays added handed carried_change [OF _ stays added] 4 n(3) unfolding key_kept_def d' stored_keys_def by auto
    qed
  next
    case (5 submitted d1)
    show ?thesis
    proof (cases "submitted = Some key")
      case True
      with 5 assms(1) kept show ?thesis
        by (auto simp: key_kept_def handed_in_snoc stored_keys_def split: option.splits list.splits if_splits)
    next
      case False
      then have "Some key \<noteq> submitted" by simp
      with 5 assms(1) kept show ?thesis
        by (auto simp: key_kept_def handed_in_snoc stored_keys_def split: option.splits list.splits if_splits)
    qed
  next
    case (6 d1)
    then show ?thesis using assms(1) kept
      by (auto simp: key_kept_def handed_in_snoc stored_keys_def split: option.splits list.splits if_splits dest: carried_drop)
  next
    case (7 d1)
    then show ?thesis using assms(1) kept by (auto simp: key_kept_def handed_in_snoc stored_keys_def device_of_def)
  qed (use assms(1) kept in \<open>auto simp: key_kept_def handed_in_snoc stored_keys_def split: option.splits\<close>)
qed (simp add: key_kept_def)

text \<open>A step in turn keeps all three, so a run does; a fresh device starts with them.\<close>

definition device_ok :: "string \<Rightarrow> nat list \<Rightarrow> 'b DeviceEvent list \<Rightarrow> 'b Device \<Rightarrow> bool" where
  "device_ok key fresh es d \<longleftrightarrow> current fresh d \<and> refusals_true es d \<and> key_kept key es d"

lemma device_ok_run:
  "device_run es d = Some d' \<Longrightarrow> turns fresh es \<Longrightarrow> device_ok key fresh before d \<Longrightarrow>
    \<exists>fresh'. device_ok key fresh' (before @ es) d'"
proof (induction es arbitrary: d fresh before)
  case (Cons e es)
  then obtain d1 where d1: "device_step e d = Some d1" "device_run es d1 = Some d'" by (auto split: option.splits)
  have "device_ok key (fresh_after fresh e) (before @ [e]) d1"
    using Cons.prems d1(1) current_step refusals_true_step key_kept_step unfolding device_ok_def by fastforce
  from Cons.IH [OF d1(2) _ this] Cons.prems(2) show ?case by simp
qed auto

lemma device_ok_new: "device_ok key [] [] (device_of new_outbox)"
  by (simp add: device_ok_def current_def refusals_true_def key_kept_def truly_refused_def device_of_def new_outbox_def handed_in_def)

lemma device_load: "keys (load ob) = (case ob_entries ob of None \<Rightarrow> keys (parsed (ob_store ob)) | Some entries \<Rightarrow> keys entries)"
  by (cases ob; cases "ob_entries ob") (simp_all add: parsed_def load_def)

text \<open>
  C33: nothing is dropped silently. Persons, the network, the store and the closings of the app interleave as
  they like, writes may fail, and operations may overlap as long as none saves between another's load
  and its save. A submission then is in the outbox, from the moment it is handed in for as long as the
  app stays open, and, once the call that handed it in returned (its write ended), through every closing too;
  unless the server has taken it, or refused it and afterwards a person dismissed it.
\<close>

theorem outbox_never_drops:
  assumes "device_run es (device_of new_outbox) = Some d" "turns [] es"
    and "Written (Some key) \<in> set es \<or> handed_in key es"
  shows "key \<in> set (keys (load (dv_outbox d))) \<or> was_taken key es \<or> refused_then_dismissed key es"
proof -
  obtain fresh where "device_ok key fresh es d"
    using device_ok_run [OF assms(1,2) device_ok_new] by auto
  then have kept: "current fresh d" "key_kept key es d" by (simp_all add: device_ok_def)
  show ?thesis
  proof (cases "settled key es")
    case False
    with kept(2) have k: "Written (Some key) \<in> set es \<Longrightarrow> key \<in> stored_keys (dv_outbox d)"
        "carried key (Written (Some key) \<in> set es) (dv_writing d) (ob_entries (dv_outbox d))"
        "handed_in key es \<Longrightarrow> \<exists>entries. ob_entries (dv_outbox d) = Some entries \<and> key \<in> set (keys entries)"
      by (simp_all add: key_kept_def)
    have "carried key safe [] memory" if "carried key safe ws memory" for safe ws memory
      using that by (induction ws) (auto dest: carried_drop)
    then have "carried key (Written (Some key) \<in> set es) [] (ob_entries (dv_outbox d))" using k(2) by blast
    then show ?thesis using k(1,3) assms(3)
      by (cases "ob_entries (dv_outbox d)") (auto simp: device_load stored_keys_def)
  qed (simp add: settled_def)
qed

text \<open>
  Two submissions, the second while the first is being sent; the first is refused, the app closes before the
  refusal is written, and both are there when it is opened again.
\<close>

definition busy_evening :: "nat DeviceEvent list" where
  "busy_evening =
     [Reads 0, Parses 0, Changes 0 (Enqueues ''a'' ''order'' 7 []), Written (Some ''a''),
      Loads 1, Changes 1 (Starts \<lparr>oe_key = ''a'', oe_kind = ''order'', oe_body = 7, oe_createdAt = [], oe_status = PENDING,
        oe_attempts = 0, oe_lastError = None\<rparr>),
      Loads 2, Changes 2 (Enqueues ''b'' ''order'' 8 []), Written None, Loads 1,
      Changes 1 (Answers ''a'' (REFUSED ''SOLD_OUT'' None)), Written (Some ''b''), App_Closed, Reads 3, Parses 3]"

theorem outbox_never_drops_witness:
  "\<exists>d. device_run busy_evening (device_of new_outbox) = Some d \<and> {''a'', ''b''} \<subseteq> set (keys (load (dv_outbox d)))"
proof -
  have "\<not> Option.is_none (device_run busy_evening (device_of new_outbox))" by code_simp
  then obtain d where d: "device_run busy_evening (device_of new_outbox) = Some d" by (auto simp: Option.is_none_def)
  have t: "turns [] busy_evening" by code_simp
  have w: "Written (Some ''a'') \<in> set busy_evening" "Written (Some ''b'') \<in> set busy_evening" by (simp_all add: busy_evening_def)
  have "\<not> was_taken key busy_evening" "\<not> refused_then_dismissed key busy_evening" for key
  proof -
    have "Changes n (Dismisses key) \<notin> set busy_evening" for n by (simp add: busy_evening_def)
    then show "\<not> refused_then_dismissed key busy_evening" unfolding refused_then_dismissed_def by (metis in_set_conv_decomp)
  qed (simp add: was_taken_def busy_evening_def)
  then have "key \<in> set (keys (load (dv_outbox d)))" if "Written (Some key) \<in> set busy_evening" for key
    using outbox_never_drops [OF d t disjI1 [OF that]] by blast
  then show ?thesis using d w by blast
qed

text \<open>
  Without turns a submission is lost: each operation saves what it made of the list it loaded. Both calls
  return, and the first is nowhere.
\<close>

definition overlapping :: "nat DeviceEvent list" where
  "overlapping =
     [Reads 0, Parses 0, Loads 1, Changes 0 (Enqueues ''a'' ''order'' 7 []), Changes 1 (Enqueues ''b'' ''order'' 8 []),
      Written (Some ''a''), Written (Some ''b'')]"

lemma overlapping_calls_lose:
  "map_option (\<lambda>d. keys (load (dv_outbox d))) (device_run overlapping (device_of new_outbox)) = Some [''b'']"
  "map_option (\<lambda>d. keys (parsed (ob_store (dv_outbox d)))) (device_run overlapping (device_of new_outbox)) = Some [''b'']"
  "\<not> turns [] overlapping"
  by code_simp+

text \<open>
  The same of any two submissions that loaded one list: the one saved first is lost, in memory and in the store.
\<close>

lemma overlapping_enqueues_lose:
  assumes "k1 \<noteq> k2" "k1 \<notin> set (keys (load ob))" "k2 \<notin> set (keys (load ob))"
    and loaded: "both = load ob"
    and first: "ob1 = snd (enqueue_from both k1 kind b1 now ob)" and second: "ob2 = snd (enqueue_from both k2 kind b2 now ob1)"
  shows "k1 \<in> set (keys (load ob1))" "k1 \<notin> set (keys (load ob2))" "k2 \<in> set (keys (load ob2))"
proof -
  have "find (\<lambda>c. oe_key c = k) both = None" if "k \<notin> set (keys (load ob))" for k
    using that by (auto simp: find_None_iff keys_def loaded)
  then show "k1 \<in> set (keys (load ob1))" "k1 \<notin> set (keys (load ob2))" "k2 \<in> set (keys (load ob2))"
    using assms by (auto simp: enqueue_from_def Let_def keys_def)
qed

end
