(* ===== verification/Order_Outbox.thy ===== *)
theory Order_Outbox
  imports Outbox
begin

text \<open>
  \<open>packages/mobile-core/src/order-outbox.ts\<close>: orders on their way to the kitchen. An order is kept in
  the device's outbox before it is sent, sent only while the person who took it is signed in, and
  a refused one stays with the reason. The server is an argument: a function of the outside
  state and the request. The request beside its key, the cart lines, the accepted order and the refused lines
  are what the server and the screens make of them: types of their own here.
\<close>

datatype 'r DraftProblem = LINES "'r list" | REFUSED_ORDER string string

record ('q, 'l, 'r) OrderDraft =
  dr_staffId :: "string option"
  dr_tableLabel :: string
  dr_idempotencyKey :: string
  dr_request :: 'q
  dr_lines :: "'l list"
  dr_problem :: "'r DraftProblem option"

datatype ('o, 'r) SubmitOrderResponse = ACCEPTED 'o | PARTIALLY_REJECTED "'r list"

datatype ApiFailure = ApiRequestError int string string | ApiContractError string | Other_Error string

datatype ('o, 'r) OrderSendResult = SEND_SENT 'o | SEND_QUEUED | SEND_REJECTED "'r DraftProblem"

text \<open>\<open>error.message\<close>, read by the outbox when a send throws.\<close>

definition failure_message :: "ApiFailure \<Rightarrow> string" where
  "failure_message failure =
     (case failure of ApiRequestError status code message \<Rightarrow> message | ApiContractError message \<Rightarrow> message | Other_Error message \<Rightarrow> message)"

definition isRefusal :: "int \<Rightarrow> bool" where
  "isRefusal status \<longleftrightarrow> status \<ge> 400 \<and> status < 500 \<and> \<not> List.member [401, 408, 429] status"

text \<open>The class: the keys a \<open>submit\<close> waits on, what the server answered for them, and what listeners were told.\<close>

record ('s, 'q, 'l, 'r, 'o) OrderOutbox =
  oo_world :: 's
  oo_awaiting :: "string list"
  oo_accepted :: "string \<rightharpoonup> 'o"
  oo_told :: "(('q, 'l, 'r) OrderDraft \<times> 'o \<times> bool) list"

type_synonym ('s, 'q, 'r, 'o) api = "'s \<Rightarrow> string \<times> 'q \<Rightarrow> (ApiFailure + ('o, 'r) SubmitOrderResponse) \<times> 's"

definition refused :: "('q, 'l, 'r) OrderDraft OutboxEntry \<Rightarrow> 'r DraftProblem \<Rightarrow> ('q, 'l, 'r) OrderDraft SendOutcome" where
  "refused entry problem =
     REFUSED (case problem of LINES _ \<Rightarrow> ''LINES_REJECTED'' | REFUSED_ORDER code _ \<Rightarrow> code)
       (Some ((oe_body entry)\<lparr>dr_problem := Some problem\<rparr>))"

definition send_order ::
  "('s, 'q, 'r, 'o) api \<Rightarrow> ('s, 'q, 'l, 'r, 'o) OrderOutbox \<Rightarrow> ('q, 'l, 'r) OrderDraft OutboxEntry \<Rightarrow>
   (string + ('q, 'l, 'r) OrderDraft SendOutcome) \<times> ('s, 'q, 'l, 'r, 'o) OrderOutbox" where
  "send_order api oo entry =
     (let (answered, world) = api (oo_world oo) (dr_idempotencyKey (oe_body entry), dr_request (oe_body entry));
          oo = oo\<lparr>oo_world := world\<rparr>
      in case answered of
           Inl (ApiRequestError status code message) \<Rightarrow>
             (if isRefusal status then Inr (refused entry (REFUSED_ORDER code message))
              else Inl (failure_message (ApiRequestError status code message)), oo)
         | Inl (ApiContractError message) \<Rightarrow> (Inr (refused entry (REFUSED_ORDER ''CONTRACT_ERROR'' message)), oo)
         | Inl (Other_Error message) \<Rightarrow> (Inl (failure_message (Other_Error message)), oo)
         | Inr (PARTIALLY_REJECTED rejectedLines) \<Rightarrow> (Inr (refused entry (LINES rejectedLines)), oo)
         | Inr (ACCEPTED order) \<Rightarrow>
             let awaited = List.member (oo_awaiting oo) (oe_key entry);
                 oo = (if awaited then oo\<lparr>oo_accepted := (oo_accepted oo)(oe_key entry \<mapsto> order)\<rparr> else oo)
             in (Inr SENT, oo\<lparr>oo_told := oo_told oo @ [(oe_body entry, order, \<not> awaited)]\<rparr>))"

definition of_staff :: "string option \<Rightarrow> ('q, 'l, 'r) OrderDraft OutboxEntry \<Rightarrow> bool" where
  "of_staff staffId entry \<longleftrightarrow> dr_staffId (oe_body entry) = staffId"

definition flush_orders ::
  "('s, 'q, 'r, 'o) api \<Rightarrow> string option \<Rightarrow> ('s, 'q, 'l, 'r, 'o) OrderOutbox \<Rightarrow> ('q, 'l, 'r) OrderDraft PersistentOutbox \<Rightarrow>
   FlushResult \<times> ('s, 'q, 'l, 'r, 'o) OrderOutbox \<times> ('q, 'l, 'r) OrderDraft PersistentOutbox" where
  "flush_orders api staffId oo ob = flush (send_order api) (of_staff staffId) oo ob"

definition sent_result :: "string \<Rightarrow> ('s, 'q, 'l, 'r, 'o) OrderOutbox \<Rightarrow> ('q, 'l, 'r) OrderDraft PersistentOutbox \<Rightarrow> ('o, 'r) OrderSendResult" where
  "sent_result key oo ob =
     (case oo_accepted oo key of
        Some order \<Rightarrow> SEND_SENT order
      | None \<Rightarrow>
          (case find (\<lambda>candidate. oe_key candidate = key) (load ob) of
             None \<Rightarrow> SEND_QUEUED
           | Some entry \<Rightarrow>
               (case (oe_status entry, dr_problem (oe_body entry)) of
                  (REJECTED, Some problem) \<Rightarrow> SEND_REJECTED problem
                | _ \<Rightarrow> SEND_QUEUED)))"

definition submit ::
  "('s, 'q, 'r, 'o) api \<Rightarrow> string option \<Rightarrow> string \<Rightarrow> ('q, 'l, 'r) OrderDraft \<Rightarrow> ('s, 'q, 'l, 'r, 'o) OrderOutbox \<Rightarrow>
   ('q, 'l, 'r) OrderDraft PersistentOutbox \<Rightarrow>
   ('o, 'r) OrderSendResult \<times> ('s, 'q, 'l, 'r, 'o) OrderOutbox \<times> ('q, 'l, 'r) OrderDraft PersistentOutbox" where
  "submit api staffId now draft oo ob =
     (let key = dr_idempotencyKey draft;
          oo = oo\<lparr>oo_awaiting := List.insert key (oo_awaiting oo)\<rparr>;
          (_, ob) = enqueue key ''order'' draft now ob;
          (_, oo, ob) = flush_orders api staffId oo ob;
          result = sent_result key oo ob
      in (result, oo\<lparr>oo_awaiting := removeAll key (oo_awaiting oo), oo_accepted := (oo_accepted oo)(key := None)\<rparr>, ob))"

definition takeBack ::
  "string \<Rightarrow> ('q, 'l, 'r) OrderDraft PersistentOutbox \<Rightarrow> ('q, 'l, 'r) OrderDraft option \<times> ('q, 'l, 'r) OrderDraft PersistentOutbox" where
  "takeBack key ob =
     (case find (\<lambda>candidate. oe_key candidate = key) (load ob) of
        None \<Rightarrow> (None, ob)
      | Some entry \<Rightarrow> if oe_status entry \<noteq> REJECTED then (None, ob) else (Some (oe_body entry), dismiss key ob))"

section \<open>What a submission's answer means\<close>

text \<open>What one send leaves: only an accepted order changes what is remembered and told.\<close>

lemma send_order_outcome:
  assumes "send_order api oo e = (r, oo')"
  shows "oo_awaiting oo' = oo_awaiting oo"
    and "outcome_of r \<noteq> SENT \<Longrightarrow> oo_accepted oo' = oo_accepted oo \<and> oo_told oo' = oo_told oo"
    and "outcome_of r = SENT \<Longrightarrow> \<exists>order.
      oo_accepted oo' = (if oe_key e \<in> set (oo_awaiting oo) then (oo_accepted oo)(oe_key e \<mapsto> order) else oo_accepted oo) \<and>
      oo_told oo' = oo_told oo @ [(oe_body e, order, oe_key e \<notin> set (oo_awaiting oo))]"
  using assms
  by (auto simp: send_order_def outcome_of_def refused_def Let_def
      split: prod.splits sum.splits ApiFailure.splits SubmitOrderResponse.splits if_splits)

text \<open>
  \<^term>\<open>answers key e oo oo'\<close>: between the two states the server accepted the order of entry \<open>e\<close> while its
  sender waited, and the listeners heard of it.
\<close>

definition accepted_between ::
  "string \<Rightarrow> ('q, 'l, 'r) OrderDraft \<Rightarrow> 'o \<Rightarrow> ('s, 'q, 'l, 'r, 'o) OrderOutbox \<Rightarrow> ('s, 'q, 'l, 'r, 'o) OrderOutbox \<Rightarrow> bool" where
  "accepted_between key draft order oo oo' \<longleftrightarrow>
     oo_accepted oo' key = Some order \<and> (\<exists>told. oo_told oo' = oo_told oo @ told \<and> (draft, order, False) \<in> set told)"

definition told_more :: "('s, 'q, 'l, 'r, 'o) OrderOutbox \<Rightarrow> ('s, 'q, 'l, 'r, 'o) OrderOutbox \<Rightarrow> bool" where
  "told_more oo oo' \<longleftrightarrow> oo_awaiting oo' = oo_awaiting oo \<and> (\<exists>told. oo_told oo' = oo_told oo @ told)"

lemma told_more_refl [simp]: "told_more oo oo"
  by (simp add: told_more_def)

lemma told_more_trans: "told_more oo mid \<Longrightarrow> told_more mid oo' \<Longrightarrow> told_more oo oo'"
  by (auto simp: told_more_def)

lemma told_more_send: "send_order api oo e = (r, oo') \<Longrightarrow> told_more oo oo'"
  using send_order_outcome [of api oo e r oo'] by (cases "outcome_of r = SENT") (auto simp: told_more_def)

lemma pass_told_more: "told_more oo (pass_state (drain (send_order api) only oo es))"
proof (induction es arbitrary: oo)
  case (Cons e es)
  obtain r oo' where send: "send_order api oo e = (r, oo')" by fastforce
  show ?case
    using told_more_trans [OF told_more_send [OF send] Cons.IH [of oo']] told_more_send [OF send] Cons.IH [of oo] send
    by (auto simp: Let_def split: SendOutcome.split)
qed simp

lemma pass_keys_subset: "set (keys (pass_entries (drain send only st es))) \<subseteq> set (keys es)"
proof (induction es arbitrary: st)
  case (Cons e es)
  from Cons.IH [of st] Cons.IH [of "snd (send st e)"] show ?case
    unfolding drain_step keys_def by (auto split: SendOutcome.split)
qed (simp add: keys_def)

lemma pass_other_accepted:
  "key \<notin> set (keys es) \<Longrightarrow> oo_accepted (pass_state (drain (send_order api) only oo es)) key = oo_accepted oo key"
proof (induction es arbitrary: oo)
  case (Cons e es)
  obtain r oo' where send: "send_order api oo e = (r, oo')" by fastforce
  have "oo_accepted oo' key = oo_accepted oo key"
    using send_order_outcome(2,3) [OF send] Cons.prems by (cases "outcome_of r = SENT") (auto simp: keys_def)
  then show ?case using Cons send by (auto simp: Let_def keys_def split: SendOutcome.split)
qed simp

lemma pass_kept_or_accepted:
  assumes "distinct (keys es)" "e \<in> set es" "oe_key e = key" "key \<in> set (oo_awaiting oo)"
  shows "if key \<in> set (keys (pass_entries (drain (send_order api) only oo es)))
    then oo_accepted (pass_state (drain (send_order api) only oo es)) key = oo_accepted oo key
    else \<exists>order. accepted_between key (oe_body e) order oo (pass_state (drain (send_order api) only oo es))"
  using assms
proof (induction es arbitrary: oo)
  case (Cons x es)
  obtain r oo' where send: "send_order api oo x = (r, oo')" by fastforce
  let ?rest = "drain (send_order api) only oo' es" and ?all = "drain (send_order api) only oo (x # es)"
  have d: "distinct (keys es)" "oe_key x \<notin> set (keys es)" using Cons.prems(1) by (simp_all add: keys_def)
  have more: "told_more oo oo'" using told_more_send [OF send] .
  show ?case
  proof (cases "oe_key x = key")
    case True
    then have x: "e = x" "key \<notin> set (keys es)"
      using Cons.prems d by (auto simp: keys_def) (metis imageI)
    have gone: "key \<notin> set (keys (pass_entries (drain (send_order api) only oo'' es)))" for oo''
      using x(2) pass_keys_subset by fastforce
    show ?thesis
    proof (cases "oe_status x = PENDING \<and> only x \<and> outcome_of r = SENT")
      case sent: True
      obtain order where "oo_accepted oo' = (oo_accepted oo)(key \<mapsto> order)" "oo_told oo' = oo_told oo @ [(oe_body x, order, False)]"
        using send_order_outcome(3) [OF send] sent True Cons.prems(4) by auto
      moreover have "told_more oo' (pass_state ?rest)" by (rule pass_told_more)
      moreover have "oo_accepted (pass_state ?rest) key = oo_accepted oo' key" using x(2) by (rule pass_other_accepted)
      ultimately have "accepted_between key (oe_body e) order oo (pass_state ?rest)"
        unfolding accepted_between_def told_more_def x(1) by auto
      moreover have "pass_state ?all = pass_state ?rest" "pass_entries ?all = pass_entries ?rest"
        using sent send by (simp_all only: drain_step) simp_all
      ultimately show ?thesis using gone by auto
    next
      case False
      have "key \<in> set (keys (pass_entries ?all))"
        using False True send unfolding drain_step by (auto simp: keys_def split: SendOutcome.split)
      moreover have "oo_accepted (pass_state ?all) key = oo_accepted oo key"
        using False True send send_order_outcome(2) [OF send] x(2) pass_other_accepted [of key es api only]
        unfolding drain_step by (auto split: SendOutcome.split)
      ultimately show ?thesis by simp
    qed
  next
    case False
    then have e: "e \<in> set es" using Cons.prems(2,3) by auto
    have acc: "oo_accepted oo' key = oo_accepted oo key"
      using send_order_outcome(2,3) [OF send] False by (cases "outcome_of r = SENT") auto
    have aw: "key \<in> set (oo_awaiting oo')" using more Cons.prems(4) by (simp add: told_more_def)
    have pull: "accepted_between key (oe_body e) order oo' st \<Longrightarrow> accepted_between key (oe_body e) order oo st" for order st
      using more by (auto simp: accepted_between_def told_more_def)
    have sent: "if key \<in> set (keys (pass_entries ?rest)) then oo_accepted (pass_state ?rest) key = oo_accepted oo key
        else \<exists>order. accepted_between key (oe_body e) order oo (pass_state ?rest)"
      using Cons.IH [OF d(1) e Cons.prems(3) aw] acc pull by (cases "key \<in> set (keys (pass_entries ?rest))") (simp_all, blast)
    have kept: "key \<in> set (keys es)" using e Cons.prems(3) by (auto simp: keys_def)
    show ?thesis
    proof (cases "oe_status x = PENDING \<and> only x")
      case True
      then show ?thesis using sent kept False send acc
        unfolding drain_step by (cases "outcome_of r") (simp_all add: keys_def)
    next
      case not_sent: False
      show ?thesis using Cons.IH [OF d(1) e Cons.prems(3,4)] False
        unfolding drain_step if_not_P [OF not_sent] by (simp add: keys_def)
    qed
  qed
qed simp

text \<open>
  C34: what a submission is told is true. When the outbox holds no key twice, a submission told that it was sent has been
  accepted by the server during this call, its listeners were told so, and it is off the device; one told that it
  waits is on the device; one told that it was refused is on the device, marked so, with that problem.
\<close>

theorem submit_tells_the_truth:
  assumes "distinct (keys (load ob))" "oo_accepted oo (dr_idempotencyKey draft) = None"
    and "submit api staffId now draft oo ob = (result, oo', ob')"
  shows "case result of
      SEND_SENT order \<Rightarrow> dr_idempotencyKey draft \<notin> set (keys (load ob')) \<and>
        (\<exists>told. oo_told oo' = oo_told oo @ told \<and> (\<exists>sent. (sent, order, False) \<in> set told))
    | SEND_QUEUED \<Rightarrow> dr_idempotencyKey draft \<in> set (keys (load ob'))
    | SEND_REJECTED problem \<Rightarrow> \<exists>e \<in> set (load ob'). oe_key e = dr_idempotencyKey draft \<and> oe_status e = REJECTED \<and>
        dr_problem (oe_body e) = Some problem"
proof -
  let ?key = "dr_idempotencyKey draft"
  let ?oo1 = "oo\<lparr>oo_awaiting := List.insert ?key (oo_awaiting oo)\<rparr>"
  let ?ob1 = "snd (enqueue ?key ''order'' draft now ob)"
  let ?p = "drain (send_order api) (of_staff staffId) ?oo1 (load ?ob1)"
  have ks: "keys (load ?ob1) = (if ?key \<in> set (keys (load ob)) then keys (load ob) else keys (load ob) @ [?key])"
    by (rule keys_enqueue)
  then have d: "distinct (keys (load ?ob1))" and "?key \<in> set (keys (load ?ob1))" using assms(1) by auto
  then obtain e where e: "e \<in> set (load ?ob1)" "oe_key e = ?key" by (auto simp: keys_def)
  obtain ob2 where f: "flush_orders api staffId ?oo1 ?ob1 = (pass_result (of_staff staffId) [] 0 0 ?p, pass_state ?p, ob2)"
      "load ob2 = pass_entries ?p"
    using flush_loop_drain [of ?ob1 "[]" "load ?ob1" "of_staff staffId" "[]" "send_order api" 0 0 ?oo1] d
    unfolding flush_orders_def flush_def by auto
  have r: "result = sent_result ?key (pass_state ?p) ob2" "oo_told oo' = oo_told (pass_state ?p)" "ob' = ob2"
    using assms(3) f(1) by (auto simp: submit_def Let_def case_prod_beta)
  have kept: "if ?key \<in> set (keys (load ob2)) then oo_accepted (pass_state ?p) ?key = None
     else \<exists>order. accepted_between ?key (oe_body e) order ?oo1 (pass_state ?p)"
    using pass_kept_or_accepted [OF d e, of ?oo1 api "of_staff staffId"] assms(2) f(2) by simp
  show ?thesis
  proof (cases "?key \<in> set (keys (load ob2))")
    case True
    then obtain x where x: "find (\<lambda>candidate. oe_key candidate = ?key) (load ob2) = Some x"
      by (cases "find (\<lambda>candidate. oe_key candidate = ?key) (load ob2)") (auto simp: find_None_iff keys_def)
    then have "x \<in> set (load ob2)" "oe_key x = ?key" by (auto simp: find_Some_iff)
    then show ?thesis
      using True kept x by (auto simp: r sent_result_def split: OutboxStatus.split option.split)
  next
    case False
    then obtain order where "accepted_between ?key (oe_body e) order ?oo1 (pass_state ?p)" using kept by auto
    then show ?thesis using False by (auto simp: r sent_result_def accepted_between_def)
  qed
qed

definition sample_api :: "(nat, nat, string, nat) api" where
  "sample_api calls request = (Inr (if snd request = 0 then PARTIALLY_REJECTED [''paneer''] else ACCEPTED (snd request)), calls + 1)"

definition sample_draft :: "(nat, string, string) OrderDraft" where
  "sample_draft =
     \<lparr>dr_staffId = Some ''asha'', dr_tableLabel = ''T4'', dr_idempotencyKey = ''k1'', dr_request = 0, dr_lines = [''paneer''],
      dr_problem = None\<rparr>"

definition sample_orders :: "(nat, nat, string, string, nat) OrderOutbox" where
  "sample_orders = \<lparr>oo_world = 0, oo_awaiting = [], oo_accepted = Map.empty, oo_told = []\<rparr>"

theorem submit_tells_the_truth_witness:
  "\<exists>oo' ob'. submit sample_api (Some ''asha'') [] sample_draft sample_orders new_outbox =
       (SEND_REJECTED (LINES [''paneer'']), oo', ob') \<and>
     (\<exists>e \<in> set (load ob'). oe_key e = ''k1'' \<and> oe_status e = REJECTED)"
proof -
  obtain result oo' ob' where s: "submit sample_api (Some ''asha'') [] sample_draft sample_orders new_outbox = (result, oo', ob')"
    by (metis prod_cases3)
  moreover have "fst (submit sample_api (Some ''asha'') [] sample_draft sample_orders new_outbox) = SEND_REJECTED (LINES [''paneer''])"
    by code_simp
  ultimately have result: "result = SEND_REJECTED (LINES [''paneer''])" by simp
  have d: "distinct (keys (load (new_outbox :: (nat, string, string) OrderDraft PersistentOutbox)))" by (simp add: keys_def)
  have a: "oo_accepted sample_orders (dr_idempotencyKey sample_draft) = None" by (simp add: sample_orders_def)
  show ?thesis using submit_tells_the_truth [OF d a s] s unfolding result by (auto simp: sample_draft_def)
qed

end
