(* ===== verification/Canonical_Json.thy ===== *)
theory Canonical_Json
  imports Text
begin

text \<open>
  \<open>packages/domain/src/canonical-json.ts\<close>: one text for every JSON value, whatever the order its
  properties were added in. A value is what JavaScript holds, so there are values JSON has no text
  for; a \<open>Date\<close> is given by its \<open>toISOString()\<close>, if it is valid. A number is a whole number: the rest of the
  program hashes amounts in paise, counts and sequence numbers. The path of an error is left out.
\<close>

datatype JsValue =
    JsUndefined
  | JsNull
  | JsBool bool
  | JsNumber int
  | JsMinusZero
  | JsNonFinite
  | JsString string
  | JsDate "string option"
  | JsArray "JsValue list"
  | JsObject "(string \<times> JsValue) list"
  | JsOther string

section \<open>Texts of strings\<close>

definition hex_digit :: "nat \<Rightarrow> char" where
  "hex_digit n = ''0123456789abcdef'' ! n"

text \<open>\<open>JSON.stringify\<close> of a string.\<close>

definition json_char :: "char \<Rightarrow> string" where
  "json_char c =
     (if c = CHR 0x22 \<or> c = CHR 0x5C then [CHR 0x5C, c]
      else if code c = 8 then [CHR 0x5C, CHR ''b'']
      else if code c = 9 then [CHR 0x5C, CHR ''t'']
      else if code c = 10 then [CHR 0x5C, CHR ''n'']
      else if code c = 12 then [CHR 0x5C, CHR ''f'']
      else if code c = 13 then [CHR 0x5C, CHR ''r'']
      else if code c < 32 then CHR 0x5C # ''u00'' @ [hex_digit (code c div 16), hex_digit (code c mod 16)]
      else [c])"

definition json_string :: "string \<Rightarrow> string" where
  "json_string s = CHR 0x22 # concat (map json_char s) @ [CHR 0x22]"

text \<open>\<open>items.join(',')\<close>.\<close>

fun commas :: "string list \<Rightarrow> string" where
  "commas [] = []"
| "commas [s] = s"
| "commas (s # t # ss) = s @ CHR '','' # commas (t # ss)"

section \<open>The writer\<close>

definition by_key :: "string \<times> 'a \<Rightarrow> string \<times> 'a \<Rightarrow> int" where
  "by_key a b = (if js_less (fst a) (fst b) then - 1 else if js_less (fst b) (fst a) then 1 else 0)"

lemma mapE_cong [fundef_cong]: "xs = ys \<Longrightarrow> (\<And>x. x \<in> set ys \<Longrightarrow> f x = g x) \<Longrightarrow> mapE f xs = mapE g ys"
  by (induction ys arbitrary: xs) auto

lemma size_item: "v \<in> set items \<Longrightarrow> size v < size (JsArray items)"
  by (induction items) auto

lemma size_property: "(k, v) \<in> set properties \<Longrightarrow> size v < size (JsObject properties)"
  by (induction properties) auto

function write_value :: "JsValue \<Rightarrow> string result" where
  "write_value JsNull = Inr ''null''"
| "write_value (JsBool b) = Inr (if b then ''true'' else ''false'')"
| "write_value (JsString s) = Inr (json_string s)"
| "write_value (JsNumber n) = Inr (num_text n)"
| "write_value JsMinusZero = Inr ''0''"
| "write_value JsNonFinite = Inl INVALID_ARGUMENT"
| "write_value JsUndefined = Inl INVALID_ARGUMENT"
| "write_value (JsOther what) = Inl INVALID_ARGUMENT"
| "write_value (JsDate t) = (case t of None \<Rightarrow> Inl INVALID_ARGUMENT | Some text \<Rightarrow> Inr (json_string text))"
| "write_value (JsArray items) =
     bindE (mapE (\<lambda>item. if item = JsUndefined then Inl INVALID_ARGUMENT else write_value item) items) (\<lambda>texts.
     Inr (CHR ''['' # commas texts @ '']''))"
| "write_value (JsObject properties) =
     (let entries = js_sort by_key (filter (\<lambda>p. snd p \<noteq> JsUndefined) properties)
      in bindE (mapE (\<lambda>p. bindE (write_value (snd p)) (\<lambda>text. Inr (json_string (fst p) @ CHR '':'' # text))) entries) (\<lambda>texts.
         Inr (CHR ''{'' # commas texts @ ''}'')))"
  by pat_completeness auto
termination
  by (relation "measure size") (auto simp del: JsValue.size intro: size_item size_property)

definition canonicalJson :: "JsValue \<Rightarrow> string result" where
  "canonicalJson v = write_value v"

section \<open>What a text stands for\<close>

text \<open>The JSON value a JavaScript value means: an object is a finite map, so the order of its properties is gone.\<close>

datatype Json_Value =
    V_null
  | V_bool bool
  | V_number int
  | V_string string
  | V_array "Json_Value list"
  | V_object "string \<rightharpoonup> Json_Value"

text \<open>Between the two: an object as its properties sorted by name.\<close>

datatype Json =
    J_null
  | J_bool bool
  | J_number int
  | J_string string
  | J_array "Json list"
  | J_object "(string \<times> Json) list"

fun json_text :: "Json \<Rightarrow> string" where
  "json_text J_null = ''null''"
| "json_text (J_bool b) = (if b then ''true'' else ''false'')"
| "json_text (J_number n) = num_text n"
| "json_text (J_string s) = json_string s"
| "json_text (J_array items) = CHR ''['' # commas (map json_text items) @ '']''"
| "json_text (J_object properties) =
     CHR ''{'' # commas (map (\<lambda>(key, item). json_string key @ CHR '':'' # json_text item) properties) @ ''}''"

definition stops :: "string \<Rightarrow> bool" where
  "stops r \<longleftrightarrow> (case r of [] \<Rightarrow> True | c # _ \<Rightarrow> \<not> is_digit_char c)"

lemma stops_simps [simp]: "stops []" "stops (c # r) \<longleftrightarrow> \<not> is_digit_char c"
  by (simp_all add: stops_def)

text \<open>Reading one character of a string's text back.\<close>

definition hex_value :: "char \<Rightarrow> nat" where
  "hex_value c = (if is_digit_char c then code c - 48 else code c - 87)"

definition read_char :: "string \<Rightarrow> char \<times> string" where
  "read_char s =
     (if hd s \<noteq> CHR 0x5C then (hd s, tl s)
      else
        let c = hd (tl s); r = tl (tl s)
        in if c = CHR ''b'' then (char_of (8::nat), r)
           else if c = CHR ''t'' then (char_of (9::nat), r)
           else if c = CHR ''n'' then (char_of (10::nat), r)
           else if c = CHR ''f'' then (char_of (12::nat), r)
           else if c = CHR ''r'' then (char_of (13::nat), r)
           else if c = CHR ''u'' then (char_of (hex_value (r ! 2) * 16 + hex_value (r ! 3)), drop 4 r)
           else (c, r))"

lemma hex_value_digit: "n < 16 \<Longrightarrow> hex_value (hex_digit n) = n"
proof -
  have "\<forall>n \<in> {..<16}. hex_value (hex_digit n) = n" by code_simp
  then show "n < 16 \<Longrightarrow> hex_value (hex_digit n) = n" by simp
qed

lemma code_char_of: "code c = n \<Longrightarrow> char_of n = c"
  by auto

lemma code_of_hex: "code c < 32 \<Longrightarrow> char_of (hex_value (hex_digit (code c div 16)) * 16 + hex_value (hex_digit (code c mod 16))) = c"
proof -
  assume "code c < 32"
  then have "hex_value (hex_digit (code c div 16)) * 16 + hex_value (hex_digit (code c mod 16)) = code c"
    using hex_value_digit [of "code c div 16"] hex_value_digit [of "code c mod 16"] by simp
  then show ?thesis by (rule code_char_of [OF sym])
qed

lemma read_json_char: "read_char (json_char c @ r) = (c, r)"
proof -
  consider "c = CHR 0x22 \<or> c = CHR 0x5C" | "c \<noteq> CHR 0x22" "c \<noteq> CHR 0x5C" "code c = 8 \<or> code c = 9 \<or> code c = 10 \<or> code c = 12 \<or> code c = 13"
    | "c \<noteq> CHR 0x22" "c \<noteq> CHR 0x5C" "\<not> (code c = 8 \<or> code c = 9 \<or> code c = 10 \<or> code c = 12 \<or> code c = 13)" "code c < 32"
    | "c \<noteq> CHR 0x22" "c \<noteq> CHR 0x5C" "\<not> code c < 32" by blast
  then show ?thesis
  proof cases
    case 1
    then show ?thesis by (auto simp: json_char_def read_char_def)
  next
    case 2
    then show ?thesis by (elim disjE) (simp_all add: json_char_def read_char_def code_char_of Let_def)
  next
    case 3
    then have "json_char c = CHR 0x5C # ''u00'' @ [hex_digit (code c div 16), hex_digit (code c mod 16)]"
      by (simp add: json_char_def)
    then show ?thesis using code_of_hex [OF 3(4)] by (simp add: read_char_def Let_def)
  next
    case 4
    then have "code c \<noteq> 8" "code c \<noteq> 9" "code c \<noteq> 10" "code c \<noteq> 12" "code c \<noteq> 13" by linarith+
    with 4 have "json_char c = [c]" unfolding json_char_def by (simp only: if_False simp_thms)
    then show ?thesis using 4(2) by (simp add: read_char_def)
  qed
qed

lemma json_char_unambiguous: "json_char c @ r = json_char d @ q \<Longrightarrow> c = d \<and> r = q"
  using read_json_char [of c r] read_json_char [of d q] by (metis Pair_inject)

lemma json_char_no_quote: "\<exists>x xs. json_char c = x # xs \<and> x \<noteq> CHR 0x22"
  by (auto simp: json_char_def)

lemma json_chars_unambiguous:
  "concat (map json_char s) @ CHR 0x22 # r = concat (map json_char t) @ CHR 0x22 # q \<Longrightarrow> s = t \<and> r = q"
proof (induction s arbitrary: t)
  case Nil
  show ?case
  proof (cases t)
    case (Cons d t')
    obtain x xs where "json_char d = x # xs" "x \<noteq> CHR 0x22" using json_char_no_quote by blast
    then show ?thesis using Nil Cons by simp
  qed (use Nil in simp)
next
  case (Cons c s)
  show ?case
  proof (cases t)
    case Nil
    obtain x xs where "json_char c = x # xs" "x \<noteq> CHR 0x22" using json_char_no_quote by blast
    then show ?thesis using Cons.prems Nil by simp
  next
    case t: (Cons d t')
    have "json_char c @ (concat (map json_char s) @ CHR 0x22 # r) = json_char d @ (concat (map json_char t') @ CHR 0x22 # q)"
      using Cons.prems t by simp
    from json_char_unambiguous [OF this] Cons.IH [of t'] t show ?thesis by simp
  qed
qed

lemma json_string_unambiguous: "json_string s @ r = json_string t @ q \<Longrightarrow> s = t \<and> r = q"
  using json_chars_unambiguous [of s r t q] by (simp add: json_string_def)

lemma digits_unambiguous:
  assumes "list_all is_digit_char a" "list_all is_digit_char b" "stops r" "stops q" "a @ r = b @ q"
  shows "a = b \<and> r = q"
proof -
  have "takeWhile is_digit_char (x @ y) = x" if "list_all is_digit_char x" "stops y" for x y
    using that by (cases y) (simp_all add: list_all_iff takeWhile_append)
  then show ?thesis using assms by (metis append_eq_append_conv)
qed

lemma num_text_starts: "\<exists>c s. num_text n = c # s \<and> (is_digit_char c \<or> c = CHR ''-'')"
  using dec_digits [of n] by (cases "dec n") (auto simp: num_text_def)

lemma num_text_unambiguous:
  assumes "num_text m @ r = num_text n @ q" "stops r" "stops q"
  shows "m = n \<and> r = q"
proof -
  have minus: "num_text k @ p \<noteq> CHR ''-'' # ds @ p'" if "0 \<le> k" for k p ds p'
    using that dec_digits [of k] by (cases "dec k") (auto dest: arg_cong [where f = hd])
  show ?thesis
  proof (cases "m < 0")
    case True
    then have "n < 0" using assms(1) minus [of n q "dec (- m)" r] by (cases "n < 0") (simp_all add: num_text_def [of m])
    then show ?thesis
      using True digits_unambiguous [OF dec_digits [of "- m"] dec_digits [of "- n"] assms(2,3)] assms(1) dec_inj [of "- m" "- n"]
      by (simp add: num_text_def)
  next
    case False
    then have "\<not> n < 0" using assms(1) minus [of m r "dec (- n)" q] by (auto simp: num_text_def [of n])
    then show ?thesis
      using False digits_unambiguous [OF dec_digits [of m] dec_digits [of n] assms(2,3)] assms(1) dec_inj [of m n] by simp
  qed
qed

lemma commas_unambiguous:
  assumes "\<And>x y r q. x \<in> set xs \<Longrightarrow> f x @ r = f y @ q \<Longrightarrow> stops r \<Longrightarrow> stops q \<Longrightarrow> x = y \<and> r = q"
    and "\<And>y. \<exists>c s. f y = c # s \<and> c \<noteq> close" and close: "\<not> is_digit_char close" "close \<noteq> CHR '',''"
    and "commas (map f xs) @ close # r = commas (map f ys) @ close # q"
  shows "xs = ys \<and> r = q"
  using assms(1,5)
proof (induction xs arbitrary: ys)
  case Nil
  show ?case
  proof (cases ys)
    case (Cons y ys')
    obtain c s where "f y = c # s" "c \<noteq> close" using assms(2) by blast
    then show ?thesis using Nil.prems(2) Cons by (cases ys') simp_all
  qed (use Nil in simp)
next
  case (Cons x xs)
  have head: "x = y \<and> a = b" if "f x @ a = f y @ b" "stops a" "stops b" for y a b
    using Cons.prems(1) [of x] that by auto
  have comma: "stops (CHR '','' # a)" "stops (close # a)" for a
    using close by (simp_all add: is_digit_char_def)
  show ?case
  proof (cases ys)
    case Nil
    obtain c s where "f x = c # s" "c \<noteq> close" using assms(2) by blast
    then show ?thesis using Cons.prems(2) Nil by (cases xs) simp_all
  next
    case ys: (Cons y ys')
    show ?thesis
    proof (cases xs)
      case Nil
      then have "ys' = []"
        using Cons.prems(2) ys close head [of "close # r" y "CHR '','' # commas (map f ys') @ close # q"] comma
        by (cases ys') auto
      then show ?thesis using Nil Cons.prems(2) ys head [of "close # r" y "close # q"] comma by simp
    next
      case xs: (Cons x' xs')
      show ?thesis
      proof (cases ys')
        case Nil
        then show ?thesis
          using Cons.prems(2) ys xs close head [of "CHR '','' # commas (map f xs) @ close # r" y "close # q"] comma by simp
      next
        case ys': (Cons y' ys'')
        have "f x @ CHR '','' # commas (map f xs) @ close # r = f y @ CHR '','' # commas (map f ys') @ close # q"
          using Cons.prems(2) ys ys' xs by simp
        then have "x = y \<and> commas (map f xs) @ close # r = commas (map f ys') @ close # q"
          using head comma by blast
        then show ?thesis using Cons.IH [of ys'] Cons.prems(1) ys by auto
      qed
    qed
  qed
qed

lemma json_text_starts: "\<exists>c s. json_text j = c # s \<and> c \<noteq> CHR '']'' \<and> c \<noteq> CHR ''}''"
proof (cases j)
  case (J_number n)
  then show ?thesis using num_text_starts [of n] by (auto simp: is_digit_char_def)
qed (auto simp: json_string_def)

text \<open>The first character of a text tells which kind of value it is of.\<close>

definition json_kind :: "Json \<Rightarrow> nat" where
  "json_kind j = (case j of J_null \<Rightarrow> 0 | J_bool b \<Rightarrow> if b then 1 else 2 | J_number _ \<Rightarrow> 3 | J_string _ \<Rightarrow> 4 | J_array _ \<Rightarrow> 5 | J_object _ \<Rightarrow> 6)"

definition kind_of_char :: "char \<Rightarrow> nat" where
  "kind_of_char c =
     (if c = CHR ''n'' then 0 else if c = CHR ''t'' then 1 else if c = CHR ''f'' then 2 else if c = CHR 0x22 then 4
      else if c = CHR ''['' then 5 else if c = CHR ''{'' then 6 else 3)"

lemma json_kind_hd: "kind_of_char (hd (json_text j @ r)) = json_kind j"
proof (cases j)
  case (J_number n)
  have digit: "is_digit_char c \<or> c = CHR ''-'' \<Longrightarrow> kind_of_char c = 3" for c
    by (auto simp: kind_of_char_def is_digit_char_def)
  obtain c s where "num_text n = c # s" "is_digit_char c \<or> c = CHR ''-''" using num_text_starts by blast
  then show ?thesis using J_number by (simp add: json_kind_def digit)
qed (simp_all add: json_string_def kind_of_char_def json_kind_def)

theorem json_text_unambiguous: "json_text j @ r = json_text k @ q \<Longrightarrow> stops r \<Longrightarrow> stops q \<Longrightarrow> j = k \<and> r = q"
proof (induction j arbitrary: k r q)
  case J_null
  then have "json_kind k = json_kind J_null" by (metis json_kind_hd)
  then show ?case using J_null by (cases k) (auto simp: json_kind_def split: if_splits)
next
  case (J_bool b)
  then have "json_kind k = json_kind (J_bool b)" by (metis json_kind_hd)
  then show ?case using J_bool by (cases k) (auto simp: json_kind_def split: if_splits)
next
  case (J_number n)
  then have "json_kind k = json_kind (J_number n)" by (metis json_kind_hd)
  then obtain m where "k = J_number m" by (cases k) (auto simp: json_kind_def split: if_splits)
  then show ?case using J_number num_text_unambiguous [of n r m q] by simp
next
  case (J_string s)
  then have "json_kind k = json_kind (J_string s)" by (metis json_kind_hd)
  then obtain t where "k = J_string t" by (cases k) (auto simp: json_kind_def split: if_splits)
  then show ?case using J_string json_string_unambiguous [of s r t q] by simp
next
  case (J_array xs)
  then have "json_kind k = json_kind (J_array xs)" by (metis json_kind_hd)
  then obtain ys where k: "k = J_array ys" by (cases k) (auto simp: json_kind_def split: if_splits)
  have "xs = ys \<and> r = q"
  proof (rule commas_unambiguous [where f = json_text and close = "CHR '']''"])
    show "\<exists>c s. json_text y = c # s \<and> c \<noteq> CHR '']''" for y using json_text_starts by blast
    show "commas (map json_text xs) @ CHR '']'' # r = commas (map json_text ys) @ CHR '']'' # q"
      using J_array.prems(1) k by simp
  qed (use J_array.IH in \<open>simp_all add: is_digit_char_def\<close>)
  then show ?case using k by simp
next
  case (J_object xs)
  then have "json_kind k = json_kind (J_object xs)" by (metis json_kind_hd)
  then obtain ys where k: "k = J_object ys" by (cases k) (auto simp: json_kind_def split: if_splits)
  let ?f = "\<lambda>(key, item). json_string key @ CHR '':'' # json_text item"
  have "xs = ys \<and> r = q"
  proof (rule commas_unambiguous [where f = ?f and close = "CHR ''}''"])
    show "\<exists>c s. ?f y = c # s \<and> c \<noteq> CHR ''}''" for y by (cases y) (simp add: json_string_def)
    show "commas (map ?f xs) @ CHR ''}'' # r = commas (map ?f ys) @ CHR ''}'' # q"
      using J_object.prems(1) k by simp
    fix x y a b
    assume x: "x \<in> set xs" and eq: "?f x @ a = ?f y @ b" and s: "stops a" "stops b"
    obtain kx vx ky vy where xy: "x = (kx, vx)" "y = (ky, vy)" by fastforce
    from eq have "kx = ky \<and> json_text vx @ a = json_text vy @ b"
      using json_string_unambiguous [of kx "CHR '':'' # json_text vx @ a" ky "CHR '':'' # json_text vy @ b"] by (simp add: xy)
    moreover have "vx \<in> Basic_BNFs.snds x" by (simp add: xy)
    ultimately show "x = y \<and> a = b" using J_object.IH [OF x, of vx] s xy by blast
  qed (simp_all add: is_digit_char_def)
  then show ?case using k by simp
qed

section \<open>Canonical texts and JSON values\<close>

text \<open>The sorted form the writer writes; \<^term>\<open>None\<close> where there is no text.\<close>

fun mapO :: "('a \<Rightarrow> 'b option) \<Rightarrow> 'a list \<Rightarrow> 'b list option" where
  "mapO f [] = Some []"
| "mapO f (x # xs) = (case f x of None \<Rightarrow> None | Some y \<Rightarrow> (case mapO f xs of None \<Rightarrow> None | Some ys \<Rightarrow> Some (y # ys)))"

lemma mapO_cong [fundef_cong]: "xs = ys \<Longrightarrow> (\<And>x. x \<in> set ys \<Longrightarrow> f x = g x) \<Longrightarrow> mapO f xs = mapO g ys"
proof (induction ys arbitrary: xs)
  case (Cons y ys)
  then have "mapO f ys = mapO g ys" by simp
  with Cons.prems show ?case by (simp split: option.split)
qed simp

function sorted_json :: "JsValue \<Rightarrow> Json option" where
  "sorted_json JsNull = Some J_null"
| "sorted_json (JsBool b) = Some (J_bool b)"
| "sorted_json (JsString s) = Some (J_string s)"
| "sorted_json (JsNumber n) = Some (J_number n)"
| "sorted_json JsMinusZero = Some (J_number 0)"
| "sorted_json JsNonFinite = None"
| "sorted_json JsUndefined = None"
| "sorted_json (JsOther what) = None"
| "sorted_json (JsDate t) = map_option J_string t"
| "sorted_json (JsArray items) = map_option J_array (mapO sorted_json items)"
| "sorted_json (JsObject properties) =
     map_option J_object (mapO (\<lambda>p. map_option (Pair (fst p)) (sorted_json (snd p)))
       (js_sort by_key (filter (\<lambda>p. snd p \<noteq> JsUndefined) properties)))"
  by pat_completeness auto
termination
  by (relation "measure size") (auto simp del: JsValue.size intro: size_item size_property)

lemma num_text_zero: "num_text 0 = ''0''"
  by code_simp

lemma mapE_mapO:
  "(\<And>x. x \<in> set xs \<Longrightarrow> f x = (case g x of None \<Rightarrow> Inl e | Some y \<Rightarrow> Inr (h y))) \<Longrightarrow>
   mapE f xs = (case mapO g xs of None \<Rightarrow> Inl e | Some ys \<Rightarrow> Inr (map h ys))"
  by (induction xs) (auto split: option.splits)

lemma write_value_sorted:
  "write_value v = (case sorted_json v of None \<Rightarrow> Inl INVALID_ARGUMENT | Some j \<Rightarrow> Inr (json_text j))"
proof (induction v rule: write_value.induct)
  case (9 t)
  then show ?case by (cases t) simp_all
next
  case (10 items)
  have "mapE (\<lambda>item. if item = JsUndefined then Inl INVALID_ARGUMENT else write_value item) items =
      (case mapO sorted_json items of None \<Rightarrow> Inl INVALID_ARGUMENT | Some ys \<Rightarrow> Inr (map json_text ys))"
    by (rule mapE_mapO) (use 10 in auto)
  then show ?case by (simp split: option.split)
next
  case (11 properties)
  let ?entries = "js_sort by_key (filter (\<lambda>p. snd p \<noteq> JsUndefined) properties)"
  have "mapE (\<lambda>p. bindE (write_value (snd p)) (\<lambda>text. Inr (json_string (fst p) @ CHR '':'' # text))) ?entries =
      (case mapO (\<lambda>p. map_option (Pair (fst p)) (sorted_json (snd p))) ?entries of None \<Rightarrow> Inl INVALID_ARGUMENT
       | Some ys \<Rightarrow> Inr (map (\<lambda>(key, item). json_string key @ CHR '':'' # json_text item) ys))"
    by (rule mapE_mapO) (use 11 in \<open>auto split: option.split\<close>)
  then show ?case by (simp add: Let_def split: option.split)
qed (simp_all add: num_text_zero)

text \<open>The meaning of a JavaScript value: a finite map for an object.\<close>

function json_value :: "JsValue \<Rightarrow> Json_Value option" where
  "json_value JsNull = Some V_null"
| "json_value (JsBool b) = Some (V_bool b)"
| "json_value (JsString s) = Some (V_string s)"
| "json_value (JsNumber n) = Some (V_number n)"
| "json_value JsMinusZero = Some (V_number 0)"
| "json_value JsNonFinite = None"
| "json_value JsUndefined = None"
| "json_value (JsOther what) = None"
| "json_value (JsDate t) = map_option V_string t"
| "json_value (JsArray items) = map_option V_array (mapO json_value items)"
| "json_value (JsObject properties) =
     map_option (\<lambda>entries. V_object (map_of entries)) (mapO (\<lambda>p. map_option (Pair (fst p)) (json_value (snd p)))
       (filter (\<lambda>p. snd p \<noteq> JsUndefined) properties))"
  by pat_completeness auto
termination
  by (relation "measure size") (auto simp del: JsValue.size intro: size_item size_property)

text \<open>The names of an object's properties are distinct.\<close>

fun named_once :: "JsValue \<Rightarrow> bool" where
  "named_once (JsArray items) \<longleftrightarrow> list_all named_once items"
| "named_once (JsObject properties) \<longleftrightarrow> distinct (map fst properties) \<and> list_all (\<lambda>p. named_once (snd p)) properties"
| "named_once v \<longleftrightarrow> True"

fun json_meaning :: "Json \<Rightarrow> Json_Value" where
  "json_meaning J_null = V_null"
| "json_meaning (J_bool b) = V_bool b"
| "json_meaning (J_number n) = V_number n"
| "json_meaning (J_string s) = V_string s"
| "json_meaning (J_array items) = V_array (map json_meaning items)"
| "json_meaning (J_object properties) = V_object (map_of (map (\<lambda>p. (fst p, json_meaning (snd p))) properties))"

fun json_sorted :: "Json \<Rightarrow> bool" where
  "json_sorted (J_array items) \<longleftrightarrow> list_all json_sorted items"
| "json_sorted (J_object properties) \<longleftrightarrow>
     sorted_wrt js_less (map fst properties) \<and> list_all (\<lambda>p. json_sorted (snd p)) properties"
| "json_sorted j \<longleftrightarrow> True"

lemma js_le_trans: "js_le s t \<Longrightarrow> js_le t u \<Longrightarrow> js_le s u"
  using js_less_trans js_less_total by metis

lemma by_key_le: "by_key a b \<le> 0 \<longleftrightarrow> js_le (fst a) (fst b)"
  using js_less_asym by (auto simp: by_key_def)

interpretation property_order: comparator_order by_key
  by unfold_locales (auto simp: by_key_le dest: js_less_asym js_le_trans)

lemma strictly_by_key: "sorted_wrt (\<lambda>a b. by_key a b \<le> 0) ys \<Longrightarrow> distinct (map fst ys) \<Longrightarrow> sorted_wrt js_less (map fst ys)"
proof (induction ys)
  case (Cons y ys)
  have "js_less (fst y) (fst z)" if "z \<in> set ys" for z
  proof -
    have "fst y \<noteq> fst z" using Cons.prems(2) that by (auto simp: image_iff)
    moreover have "js_le (fst y) (fst z)" using Cons.prems(1) that by (simp add: by_key_le)
    ultimately show ?thesis using js_less_total by metis
  qed
  then show ?case using Cons by simp
qed simp

lemma sorted_by_key: "distinct (map fst xs) \<Longrightarrow> sorted_wrt js_less (map fst (js_sort by_key xs))"
  by (intro strictly_by_key property_order.js_sort_sorted) simp

lemma mapO_map: "mapO f xs = (if \<forall>x \<in> set xs. f x \<noteq> None then Some (map (\<lambda>x. the (f x)) xs) else None)"
  by (induction xs) (auto split: option.split)

lemma mapO_None: "mapO f xs = None \<longleftrightarrow> (\<exists>x \<in> set xs. f x = None)"
  by (induction xs) (auto split: option.split)

text \<open>Two lists of properties sorted by name are one when they are one map.\<close>

lemma sorted_js_less_eq: "sorted_wrt js_less xs \<Longrightarrow> sorted_wrt js_less ys \<Longrightarrow> set xs = set ys \<Longrightarrow> xs = ys"
proof (induction xs arbitrary: ys)
  case (Cons x xs)
  then obtain y ys' where ys: "ys = y # ys'" by (cases ys) auto
  have "x = y"
  proof (rule ccontr)
    assume "x \<noteq> y"
    then have "x \<in> set ys'" "y \<in> set xs" using Cons.prems(3) ys by auto
    then have "js_less y x" "js_less x y" using Cons.prems(1,2) ys by auto
    then show False using js_less_asym by blast
  qed
  moreover have "x \<notin> set xs" "y \<notin> set ys'" using Cons.prems(1,2) ys js_less_irrefl by auto
  then have "set xs = set ys'" using Cons.prems(3) ys \<open>x = y\<close> by auto
  ultimately show ?case using Cons.IH [of ys'] Cons.prems(1,2) ys by simp
qed simp

lemma sorted_distinct: "sorted_wrt js_less xs \<Longrightarrow> distinct xs"
  by (induction xs) auto

lemma sorted_maps_eq:
  assumes "sorted_wrt js_less (map fst xs)" "sorted_wrt js_less (map fst ys)" "map_of xs = map_of ys"
  shows "xs = ys"
proof -
  have keys: "map fst xs = map fst ys"
    using assms by (intro sorted_js_less_eq) (simp_all, metis dom_map_of_conv_image_fst)
  have "snd (xs ! i) = snd (ys ! i)" if "i < length xs" for i
  proof -
    have d: "distinct (map fst xs)" "distinct (map fst ys)" using assms(1,2) sorted_distinct by auto
    have len: "length xs = length ys" using keys by (metis length_map)
    have k: "fst (xs ! i) = fst (ys ! i)" using keys that len by (metis nth_map)
    have "map_of xs (fst (xs ! i)) = Some (snd (xs ! i))" "map_of ys (fst (ys ! i)) = Some (snd (ys ! i))"
      using d that len by (auto intro!: map_of_is_SomeI)
    then show ?thesis using k assms(3) by simp
  qed
  then show ?thesis using keys by (metis length_map nth_equalityI nth_map prod_eqI)
qed

lemma json_meaning_inj: "json_sorted j \<Longrightarrow> json_sorted k \<Longrightarrow> json_meaning j = json_meaning k \<Longrightarrow> j = k"
proof (induction j arbitrary: k)
  case (J_array xs)
  then obtain ys where k: "k = J_array ys" by (cases k) auto
  then have "map json_meaning xs = map json_meaning ys" using J_array.prems(3) by simp
  moreover have "x = y" if "x \<in> set xs" "y \<in> set ys" "json_meaning x = json_meaning y" for x y
    using that J_array.prems(1,2) k by (intro J_array.IH [OF that(1)]) (simp_all add: list_all_iff)
  ultimately have "xs = ys" by (metis (no_types, lifting) list.inj_map_strong)
  then show ?case using k by simp
next
  case (J_object xs)
  then obtain ys where k: "k = J_object ys" by (cases k) auto
  let ?f = "\<lambda>p. (fst p, json_meaning (snd p))"
  have keys: "map fst (map ?f zs) = map fst zs" for zs :: "(string \<times> Json) list" by (simp add: o_def)
  have "map ?f xs = map ?f ys"
    by (rule sorted_maps_eq) (use J_object.prems k in \<open>simp_all only: keys json_sorted.simps json_meaning.simps Json_Value.inject\<close>)
  moreover have "p = q" if "p \<in> set xs" "q \<in> set ys" "?f p = ?f q" for p q
  proof -
    have "snd p \<in> Basic_BNFs.snds p" by (cases p) simp
    then have "snd p = snd q"
      using J_object.IH [OF that(1), of "snd p" "snd q"] J_object.prems(1,2) that k by (auto simp: list_all_iff)
    then show ?thesis using that(3) by (simp add: prod_eq_iff)
  qed
  ultimately have "xs = ys" by (metis (no_types, lifting) list.inj_map_strong)
  then show ?case using k by simp
qed (case_tac k; simp)+

lemma mapO_perm:
  assumes "mset xs = mset ys" "mapO f xs = Some us"
  shows "\<exists>vs. mapO f ys = Some vs \<and> mset vs = mset us"
proof -
  have us: "\<forall>x \<in> set xs. f x \<noteq> None" "us = map (\<lambda>x. the (f x)) xs"
    using assms(2) by (simp_all add: mapO_map split: if_splits)
  have "mset (map (\<lambda>x. the (f x)) ys) = mset us" using assms(1) us(2) by simp
  moreover have "\<forall>x \<in> set ys. f x \<noteq> None" using us(1) mset_eq_setD [OF assms(1)] by simp
  ultimately show ?thesis by (simp add: mapO_map)
qed

lemma map_of_same: "distinct (map fst xs) \<Longrightarrow> mset ys = mset xs \<Longrightarrow> map_of ys = map_of xs"
proof (rule ext)
  fix k
  assume d: "distinct (map fst xs)" and same: "mset ys = mset xs"
  have "mset (map fst ys) = mset (map fst xs)" using same by simp
  then have d': "distinct (map fst ys)" using d mset_eq_imp_distinct_iff by blast
  have "map_of ys k = Some v \<longleftrightarrow> map_of xs k = Some v" for v
    using map_of_eq_Some_iff [OF d] map_of_eq_Some_iff [OF d'] mset_eq_setD [OF same] by simp
  then show "map_of ys k = map_of xs k" by (metis option.exhaust)
qed

lemma named_once_sorted: "named_once v \<Longrightarrow> sorted_json v = Some j \<Longrightarrow> json_sorted j \<and> json_value v = Some (json_meaning j)"
proof (induction v arbitrary: j rule: sorted_json.induct)
  case (10 items)
  then obtain js where js: "mapO sorted_json items = Some js" "j = J_array js" by auto
  then have m: "js = map (\<lambda>x. the (sorted_json x)) items" "\<forall>x \<in> set items. sorted_json x \<noteq> None"
    by (auto simp: mapO_map split: if_splits)
  have each: "json_sorted (the (sorted_json x)) \<and> json_value x = Some (json_meaning (the (sorted_json x)))" if "x \<in> set items" for x
    using 10 m(2) that by (auto simp: list_all_iff)
  then have "mapO json_value items = Some (map json_meaning js)"
    unfolding mapO_map m(1) by auto
  then show ?case using each js(2) by (auto simp: m(1) list_all_iff)
next
  case (11 properties)
  let ?es = "filter (\<lambda>p. snd p \<noteq> JsUndefined) properties"
  let ?sorted = "js_sort by_key ?es"
  let ?F = "\<lambda>p. map_option (Pair (fst p)) (sorted_json (snd p))" and ?G = "\<lambda>p. map_option (Pair (fst p)) (json_value (snd p))"
  let ?g = "\<lambda>p. (fst p, json_meaning (snd p))"
  obtain js where js: "mapO ?F ?sorted = Some js" "j = J_object js" using 11 by auto
  have some: "\<forall>p \<in> set ?sorted. sorted_json (snd p) \<noteq> None" and js_eq: "js = map (\<lambda>p. (fst p, the (sorted_json (snd p)))) ?sorted"
    using js(1) by (auto simp: mapO_map option.map_sel split: if_splits)
  have d: "distinct (map fst properties)" using 11 by simp
  then have d': "distinct (map fst ?es)" by (rule distinct_map_filter)
  have each: "json_sorted (the (sorted_json (snd p))) \<and> json_value (snd p) = Some (json_meaning (the (sorted_json (snd p))))"
    if "p \<in> set ?sorted" for p
  proof -
    obtain a where a: "sorted_json (snd p) = Some a" using some \<open>p \<in> set ?sorted\<close> by blast
    have "named_once (snd p)" using 11(2) \<open>p \<in> set ?sorted\<close> by (auto simp: list_all_iff)
    then show ?thesis using 11(1) [OF \<open>p \<in> set ?sorted\<close> _ a] a by simp
  qed
  have "sorted_wrt js_less (map fst js)" using sorted_by_key [OF d'] by (simp add: js_eq o_def)
  moreover have "list_all (\<lambda>p. json_sorted (snd p)) js" using each by (auto simp: js_eq list_all_iff)
  moreover have "mapO ?G ?sorted = Some (map ?g js)"
    using each unfolding mapO_map js_eq by auto
  then obtain vs where vs: "mapO ?G ?es = Some vs" "mset vs = mset (map ?g js)"
    using mapO_perm [of ?sorted ?es ?G] by auto
  moreover have "map_of vs = map_of (map ?g js)"
  proof (rule map_of_same)
    show "distinct (map fst (map ?g js))" using d' by (simp add: js_eq o_def)
  qed (use vs in simp)
  ultimately show ?case using js(2) by simp
qed auto

lemma json_value_None: "json_value v = None \<longleftrightarrow> sorted_json v = None"
proof (induction v rule: json_value.induct)
  case (10 items)
  then show ?case by (auto simp: mapO_None)
next
  case (11 properties)
  then show ?case by (auto simp: mapO_None)
qed auto

lemma canonicalJson_texts:
  assumes "named_once v" "named_once w" "canonicalJson v = Inr s" "canonicalJson w = Inr t"
  shows "s = t \<longleftrightarrow> json_value v = json_value w"
proof -
  obtain j k where jk: "sorted_json v = Some j" "sorted_json w = Some k" "s = json_text j" "t = json_text k"
    using assms(3,4) by (auto simp: canonicalJson_def write_value_sorted split: option.splits)
  then have "json_sorted j" "json_sorted k" "json_value v = Some (json_meaning j)" "json_value w = Some (json_meaning k)"
    using named_once_sorted assms(1,2) by blast+
  moreover have "s = t \<longleftrightarrow> j = k" using json_text_unambiguous [of j "[]" k "[]"] jk by auto
  ultimately show ?thesis using json_meaning_inj by auto
qed

lemma canonicalJson_value: "canonicalJson v = (case sorted_json v of None \<Rightarrow> Inl INVALID_ARGUMENT | Some j \<Rightarrow> Inr (json_text j))"
  by (simp add: canonicalJson_def write_value_sorted)

text \<open>
  C35: the canonical text is the value. A value without a JSON meaning gives the error; of the others (whose objects
  name each property once) two have the same text exactly when they mean the same JSON value, in
  whatever order their properties were added and with \<open>undefined\<close> ones left out.
\<close>

theorem canonicalJson_iff:
  assumes "named_once v" "named_once w"
  shows "if json_value v = None then canonicalJson v = Inl INVALID_ARGUMENT
    else \<exists>s. canonicalJson v = Inr s \<and> (canonicalJson w = Inr s \<longleftrightarrow> json_value w = json_value v)"
proof (cases "sorted_json v")
  case None
  then show ?thesis by (simp add: json_value_None canonicalJson_value)
next
  case (Some j)
  then have written: "canonicalJson v = Inr (json_text j)" and has_value: "json_value v \<noteq> None"
    by (simp_all add: canonicalJson_value json_value_None)
  have "canonicalJson w = Inr (json_text j) \<longleftrightarrow> json_value w = json_value v"
  proof (cases "sorted_json w")
    case None
    then show ?thesis using has_value json_value_None [of w] by (auto simp: canonicalJson_value)
  next
    case (Some k)
    then have w: "canonicalJson w = Inr (json_text k)" by (simp add: canonicalJson_value)
    show ?thesis unfolding w sum.inject using canonicalJson_texts [OF assms written w] by metis
  qed
  then show ?thesis using written has_value by simp
qed

theorem canonicalJson_iff_witness:
  "canonicalJson (JsObject [(''b'', JsNumber (- 5)), (''a'', JsArray [JsNull, JsString [CHR 0x22]]), (''c'', JsUndefined)]) =
     canonicalJson (JsObject [(''a'', JsArray [JsNull, JsString [CHR 0x22]]), (''b'', JsNumber (- 5))])"
proof -
  let ?v = "JsObject [(''b'', JsNumber (- 5)), (''a'', JsArray [JsNull, JsString [CHR 0x22]]), (''c'', JsUndefined)]"
  let ?w = "JsObject [(''a'', JsArray [JsNull, JsString [CHR 0x22]]), (''b'', JsNumber (- 5))]"
  have n: "named_once ?v" "named_once ?w" by code_simp+
  have "json_value ?w = json_value ?v" "json_value ?v \<noteq> None" by (simp_all add: fun_upd_twist)
  then show ?thesis using canonicalJson_iff [OF n] by auto
qed

section \<open>Reading a canonical text back\<close>

text \<open>
  \<open>JSON.parse\<close> of a canonical text: the value in the form it was written in, which the text determines
  (\<open>json_text_unambiguous\<close>).
\<close>

fun of_json :: "Json \<Rightarrow> JsValue" where
  "of_json J_null = JsNull"
| "of_json (J_bool b) = JsBool b"
| "of_json (J_number n) = JsNumber n"
| "of_json (J_string s) = JsString s"
| "of_json (J_array items) = JsArray (map of_json items)"
| "of_json (J_object properties) = JsObject (map (\<lambda>p. (fst p, of_json (snd p))) properties)"

lemma of_json_defined [simp]: "of_json j \<noteq> JsUndefined"
  by (cases j) simp_all

lemma json_value_of_json [simp]: "json_value (of_json j) = Some (json_meaning j)"
proof (induction j)
  case (J_array xs)
  then show ?case by (simp add: mapO_map o_def)
next
  case (J_object ps)
  have "json_value (of_json (snd p)) = Some (json_meaning (snd p))" if "p \<in> set ps" for p
    using J_object [OF that, of "snd p"] by (cases p) simp
  then show ?case by (simp add: mapO_map o_def filter_True cong: map_cong)
qed simp_all

lemma named_once_of_json: "json_sorted j \<Longrightarrow> named_once (of_json j)"
proof (induction j)
  case (J_array xs)
  then show ?case by (auto simp: list_all_iff)
next
  case (J_object ps)
  have "named_once (of_json (snd p))" if "p \<in> set ps" for p
    using J_object.IH [OF that, of "snd p"] J_object.prems that by (cases p) (auto simp: list_all_iff)
  then show ?case using J_object.prems sorted_distinct by (auto simp: list_all_iff o_def)
qed simp_all

text \<open>An object's text ends itself: what follows it may be anything.\<close>

lemma object_text_unambiguous:
  assumes "json_text (J_object xs) @ r = json_text (J_object ys) @ q"
  shows "xs = ys \<and> r = q"
proof -
  let ?f = "\<lambda>(key, item). json_string key @ CHR '':'' # json_text item"
  show ?thesis
  proof (rule commas_unambiguous [where f = ?f and close = "CHR ''}''"])
    show "\<exists>c s. ?f y = c # s \<and> c \<noteq> CHR ''}''" for y by (cases y) (simp add: json_string_def)
    show "commas (map ?f xs) @ CHR ''}'' # r = commas (map ?f ys) @ CHR ''}'' # q" using assms by simp
    fix x y a b
    assume eq: "?f x @ a = ?f y @ b" and s: "stops a" "stops b"
    obtain kx vx ky vy where xy: "x = (kx, vx)" "y = (ky, vy)" by fastforce
    from eq have "kx = ky \<and> json_text vx @ a = json_text vy @ b"
      using json_string_unambiguous [of kx "CHR '':'' # json_text vx @ a" ky "CHR '':'' # json_text vy @ b"] by (simp add: xy)
    then show "x = y \<and> a = b" using json_text_unambiguous [of vx a vy b] s by (simp add: xy)
  qed (simp_all add: is_digit_char_def)
qed

end
