(* ===== verification/Audit_Log.thy ===== *)
theory Audit_Log
  imports Canonical_Json Business_Date
begin

text \<open>
  \<open>apps/server/src/audit/audit-hash.ts\<close> and \<open>audit.service.ts\<close>: the audit trail, a chain of entries each of
  which holds the hash of the one before it. The table is the list of its rows in the order of their
  sequence numbers. SHA-256 is an argument, and so is what the database's JSON columns make of a value, which may be to
  reject it; ids are texts here and UUIDs there. A row's dates are kept as the texts they are read back as. An
  entry waits in its transaction and is written when that commits, which the chain's lock makes one step.
\<close>

record AuditEntry =
  ae_id :: string
  ae_restaurantId :: string
  ae_businessDate :: string
  ae_occurredAt :: string
  ae_action :: string
  ae_actorId :: "string option"
  ae_approverId :: "string option"
  ae_deviceId :: "string option"
  ae_entityType :: string
  ae_entityId :: "string option"
  ae_before :: JsValue
  ae_after :: JsValue
  ae_reason :: "string option"
  ae_correlationId :: "string option"

record AuditHashFields = AuditEntry +
  af_seq :: int
  af_prevHash :: string

record AuditRow = AuditHashFields +
  ar_hash :: string

definition GENESIS_HASH :: string where
  "GENESIS_HASH = replicate 64 CHR ''0''"

definition or_null :: "string option \<Rightarrow> JsValue" where
  "or_null s = (case s of None \<Rightarrow> JsNull | Some t \<Rightarrow> JsString t)"

text \<open>The object that is hashed when an entry is written: \<open>{ ...entry, seq, prevHash }\<close>.\<close>

definition entry_fields :: "'a AuditEntry_scheme \<Rightarrow> int \<Rightarrow> string \<Rightarrow> JsValue" where
  "entry_fields e seq prevHash =
     JsObject
       [(''id'', JsString (ae_id e)), (''restaurantId'', JsString (ae_restaurantId e)),
        (''businessDate'', JsString (ae_businessDate e)), (''occurredAt'', JsString (ae_occurredAt e)),
        (''action'', JsString (ae_action e)), (''actorId'', or_null (ae_actorId e)),
        (''approverId'', or_null (ae_approverId e)), (''deviceId'', or_null (ae_deviceId e)),
        (''entityType'', JsString (ae_entityType e)), (''entityId'', or_null (ae_entityId e)),
        (''before'', ae_before e), (''after'', ae_after e), (''reason'', or_null (ae_reason e)),
        (''correlationId'', or_null (ae_correlationId e)), (''seq'', JsNumber seq), (''prevHash'', JsString prevHash)]"

text \<open>The object that is hashed again when a stored row is checked.\<close>

definition hashFieldsOfRow :: "AuditRow \<Rightarrow> JsValue" where
  "hashFieldsOfRow r =
     JsObject
       [(''seq'', JsNumber (af_seq r)), (''id'', JsString (ae_id r)), (''restaurantId'', JsString (ae_restaurantId r)),
        (''businessDate'', JsString (ae_businessDate r)), (''occurredAt'', JsString (ae_occurredAt r)),
        (''action'', JsString (ae_action r)), (''actorId'', or_null (ae_actorId r)),
        (''approverId'', or_null (ae_approverId r)), (''deviceId'', or_null (ae_deviceId r)),
        (''entityType'', JsString (ae_entityType r)), (''entityId'', or_null (ae_entityId r)),
        (''before'', ae_before r), (''after'', ae_after r), (''reason'', or_null (ae_reason r)),
        (''correlationId'', or_null (ae_correlationId r)), (''prevHash'', JsString (af_prevHash r))]"

definition computeAuditHash :: "(string \<Rightarrow> string) \<Rightarrow> JsValue \<Rightarrow> string \<Rightarrow> string result" where
  "computeAuditHash sha256 hashed prevHash = bindE (canonicalJson hashed) (\<lambda>text. Inr (sha256 (text @ prevHash)))"

definition normalizeAuditJson :: "JsValue \<Rightarrow> JsValue result" where
  "normalizeAuditJson v =
     (if v = JsUndefined \<or> v = JsNull then Inr JsNull
      else case sorted_json v of None \<Rightarrow> Inl INVALID_ARGUMENT | Some j \<Rightarrow> Inr (of_json j))"

section \<open>Recording an entry\<close>

record AuditEntryInput =
  ai_action :: string
  ai_entityType :: string
  ai_entityId :: "string option"
  ai_actorId :: "string option"
  ai_approverId :: "string option"
  ai_deviceId :: "string option"
  ai_before :: JsValue
  ai_after :: JsValue
  ai_reason :: "string option"
  ai_restaurantId :: "string option"
  ai_businessDate :: "string option"
  ai_correlationId :: "string option option"

record Restaurant =
  re_id :: string
  re_timeZone :: string
  re_businessDayCutoff :: string

datatype audit_error = BAD_ACTION | BAD_ENTITY_TYPE | BAD_BUSINESS_DATE | RESTAURANT_NOT_SET_UP | AUDIT_DOMAIN error_code | DATABASE_REJECTS

text \<open>\<open>/^[A-Z][A-Z0-9_]{1,63}$/\<close> and \<open>/^[a-z][a-z0-9_]{1,63}$/\<close>.\<close>

definition ACTION :: "string \<Rightarrow> bool" where
  "ACTION s \<longleftrightarrow> (case s of [] \<Rightarrow> False | c # t \<Rightarrow> is_upper_char c \<and> 1 \<le> length t \<and> length t \<le> 63 \<and>
     list_all (\<lambda>d. is_upper_char d \<or> is_digit_char d \<or> d = CHR ''_'') t)"

definition ENTITY_TYPE :: "string \<Rightarrow> bool" where
  "ENTITY_TYPE s \<longleftrightarrow> (case s of [] \<Rightarrow> False | c # t \<Rightarrow> is_lower_char c \<and> 1 \<le> length t \<and> length t \<le> 63 \<and>
     list_all (\<lambda>d. is_lower_char d \<or> is_digit_char d \<or> d = CHR ''_'') t)"

text \<open>\<open>tx.restaurant.findFirst\<close>: the oldest restaurant, or the one asked for.\<close>

definition find_restaurant :: "string option \<Rightarrow> Restaurant list \<Rightarrow> Restaurant option" where
  "find_restaurant restaurantId restaurants =
     find (\<lambda>r. case restaurantId of None \<Rightarrow> True | Some i \<Rightarrow> re_id r = i) restaurants"

definition in_domain :: "'a result \<Rightarrow> audit_error + 'a" where
  "in_domain r = (case r of Inl e \<Rightarrow> Inl (AUDIT_DOMAIN e) | Inr x \<Rightarrow> Inr x)"

text \<open>
  What \<open>record\<close> puts into the transaction: the time is \<open>now\<close> and its text \<open>nowText\<close>, the new id and the
  request's correlation id come from outside.
\<close>

definition prepare_entry ::
  "zone_clock \<Rightarrow> Restaurant list \<Rightarrow> string \<Rightarrow> instant \<Rightarrow> string \<Rightarrow> string option \<Rightarrow> AuditEntryInput \<Rightarrow> audit_error + AuditEntry" where
  "prepare_entry formatToParts restaurants newId now nowText requestCorrelationId entry =
     bindE (throw_if (\<not> ACTION (ai_action entry)) BAD_ACTION) (\<lambda>_.
     bindE (throw_if (\<not> ENTITY_TYPE (ai_entityType entry)) BAD_ENTITY_TYPE) (\<lambda>_.
     bindE (throw_if (case ai_businessDate entry of None \<Rightarrow> False | Some d \<Rightarrow> \<not> ISO_DATE d) BAD_BUSINESS_DATE) (\<lambda>_.
     case find_restaurant (ai_restaurantId entry) restaurants of
       None \<Rightarrow> Inl RESTAURANT_NOT_SET_UP
     | Some restaurant \<Rightarrow>
         bindE (case ai_businessDate entry of
                  Some d \<Rightarrow> Inr d
                | None \<Rightarrow> in_domain (businessDateOf formatToParts now
                    \<lparr>bd_timeZone = re_timeZone restaurant, bd_cutoff = re_businessDayCutoff restaurant\<rparr>)) (\<lambda>businessDate.
         bindE (in_domain (normalizeAuditJson (ai_before entry))) (\<lambda>before.
         bindE (in_domain (normalizeAuditJson (ai_after entry))) (\<lambda>after.
         Inr \<lparr>ae_id = newId, ae_restaurantId = re_id restaurant, ae_businessDate = businessDate, ae_occurredAt = nowText,
              ae_action = ai_action entry, ae_actorId = ai_actorId entry, ae_approverId = ai_approverId entry,
              ae_deviceId = ai_deviceId entry, ae_entityType = ai_entityType entry, ae_entityId = ai_entityId entry,
              ae_before = before, ae_after = after, ae_reason = ai_reason entry,
              ae_correlationId = (case ai_correlationId entry of Some c \<Rightarrow> c | None \<Rightarrow> requestCorrelationId)\<rparr>))))))"

section \<open>Writing the chain\<close>

text \<open>
  The date column: the entry's text with midnight is read by \<open>new Date\<close>, which carries a day that its month
  does not have into the next month and makes no date of other numbers (the database then rejects the
  row), and the column is read back as the text of that day.
\<close>

definition stored_date :: "string \<Rightarrow> string option" where
  "stored_date text =
     (if ISO_DATE text
      then
        let year = dec_value (take 4 text);
            month = dec_value (take 2 (drop 5 text));
            day = dec_value (drop 8 text)
        in if 1 \<le> month \<and> month \<le> 12 \<and> 1 \<le> day \<and> day \<le> 31 then Some (iso_of_day (day_number year month day)) else None
      else None)"

text \<open>The database has no text with the character 0.\<close>

definition storable :: "string option \<Rightarrow> bool" where
  "storable text = (case text of None \<Rightarrow> True | Some t \<Rightarrow> CHR 0x00 \<notin> set t)"

text \<open>A row as it is read back, when the database takes it.\<close>

definition stored_row :: "(JsValue \<Rightarrow> JsValue option) \<Rightarrow> AuditEntry \<Rightarrow> int \<Rightarrow> string \<Rightarrow> string \<Rightarrow> AuditRow option" where
  "stored_row jsonb e seq prevHash hash =
     (case (stored_date (ae_businessDate e), jsonb (ae_before e), jsonb (ae_after e)) of
        (Some businessDate, Some before, Some after) \<Rightarrow>
          if storable (ae_reason e) \<and> storable (ae_correlationId e)
          then Some
            \<lparr>ae_id = ae_id e, ae_restaurantId = ae_restaurantId e, ae_businessDate = businessDate, ae_occurredAt = ae_occurredAt e,
             ae_action = ae_action e, ae_actorId = ae_actorId e, ae_approverId = ae_approverId e, ae_deviceId = ae_deviceId e,
             ae_entityType = ae_entityType e, ae_entityId = ae_entityId e, ae_before = before, ae_after = after,
             ae_reason = ae_reason e, ae_correlationId = ae_correlationId e, af_seq = seq, af_prevHash = prevHash, ar_hash = hash\<rparr>
          else None
      | _ \<Rightarrow> None)"

fun chain_rows ::
  "(string \<Rightarrow> string) \<Rightarrow> (JsValue \<Rightarrow> JsValue option) \<Rightarrow> int \<Rightarrow> string \<Rightarrow> AuditEntry list \<Rightarrow> audit_error + AuditRow list" where
  "chain_rows sha256 jsonb seq prevHash [] = Inr []"
| "chain_rows sha256 jsonb seq prevHash (e # es) =
     bindE (in_domain (computeAuditHash sha256 (entry_fields e (seq + 1) prevHash) prevHash)) (\<lambda>hash.
     bindE (chain_rows sha256 jsonb (seq + 1) hash es) (\<lambda>rows.
     case stored_row jsonb e (seq + 1) prevHash hash of
       None \<Rightarrow> Inl DATABASE_REJECTS
     | Some row \<Rightarrow> Inr (row # rows)))"

text \<open>\<open>chainHead\<close>: the row with the highest sequence number.\<close>

definition chainHead :: "AuditRow list \<Rightarrow> (int \<times> string) option" where
  "chainHead log = (if log = [] then None else Some (af_seq (last log), ar_hash (last log)))"

definition write_entries ::
  "(string \<Rightarrow> string) \<Rightarrow> (JsValue \<Rightarrow> JsValue option) \<Rightarrow> AuditEntry list \<Rightarrow> AuditRow list \<Rightarrow> audit_error + AuditRow list" where
  "write_entries sha256 jsonb entries log =
     (if entries = [] then Inr log
      else
        let head = chainHead log;
            seq = (case head of None \<Rightarrow> 0 | Some h \<Rightarrow> fst h);
            prevHash = (case head of None \<Rightarrow> GENESIS_HASH | Some h \<Rightarrow> snd h)
        in bindE (chain_rows sha256 jsonb seq prevHash entries) (\<lambda>rows. Inr (log @ rows)))"

text \<open>\<open>checkpoint\<close>: the hash of an entry and the oldest sequence number, for the Control Plane.\<close>

definition checkpoint :: "int \<Rightarrow> AuditRow list \<Rightarrow> int \<times> string option \<times> int option" where
  "checkpoint sequence log =
     (sequence, map_option ar_hash (find (\<lambda>r. af_seq r = sequence) log), if log = [] then None else Some (af_seq (hd log)))"

section \<open>Checking the chain\<close>

datatype AuditChainBreak = SEQUENCE_GAP | PREV_HASH_MISMATCH | HASH_MISMATCH

record VerifyState =
  vs_checkedEntries :: nat
  vs_expectedSeq :: "int option"
  vs_expectedPrevHash :: "string option"

record AuditVerifyResponse =
  av_valid :: bool
  av_checkedEntries :: nat
  av_head :: "(int \<times> string) option"
  av_firstBreak :: "(int \<times> string \<times> AuditChainBreak) option"

text \<open>What is wrong with a row, given what the rows before it lead to expect.\<close>

definition row_break :: "(string \<Rightarrow> string) \<Rightarrow> VerifyState \<Rightarrow> AuditRow \<Rightarrow> AuditChainBreak option result" where
  "row_break sha256 st row =
     (if vs_expectedSeq st \<noteq> None \<and> Some (af_seq row) \<noteq> vs_expectedSeq st then Inr (Some SEQUENCE_GAP)
      else
        let expectedPrev = (case vs_expectedPrevHash st of Some h \<Rightarrow> h
              | None \<Rightarrow> if af_seq row = 1 then GENESIS_HASH else af_prevHash row)
        in if af_prevHash row \<noteq> expectedPrev then Inr (Some PREV_HASH_MISMATCH)
           else bindE (computeAuditHash sha256 (hashFieldsOfRow row) (af_prevHash row)) (\<lambda>hash.
                Inr (if hash \<noteq> ar_hash row then Some HASH_MISMATCH else None)))"

definition next_state :: "VerifyState \<Rightarrow> AuditRow \<Rightarrow> VerifyState" where
  "next_state st row =
     \<lparr>vs_checkedEntries = vs_checkedEntries st + 1, vs_expectedSeq = Some (af_seq row + 1),
      vs_expectedPrevHash = Some (ar_hash row)\<rparr>"

fun check_rows ::
  "(string \<Rightarrow> string) \<Rightarrow> VerifyState \<Rightarrow> AuditRow list \<Rightarrow> (VerifyState \<times> (int \<times> string \<times> AuditChainBreak) option) result" where
  "check_rows sha256 st [] = Inr (st, None)"
| "check_rows sha256 st (row # rows) =
     bindE (row_break sha256 st row) (\<lambda>b.
     case b of Some reason \<Rightarrow> Inr (st, Some (af_seq row, ae_id row, reason))
     | None \<Rightarrow> check_rows sha256 (next_state st row) rows)"

definition VERIFY_BATCH :: nat where
  "VERIFY_BATCH = 500"

definition batch_after :: "int \<Rightarrow> AuditRow list \<Rightarrow> AuditRow list" where
  "batch_after afterSeq log = take VERIFY_BATCH (filter (\<lambda>r. af_seq r > afterSeq) log)"

lemma batch_after_set: "r \<in> set (batch_after afterSeq log) \<Longrightarrow> r \<in> set log \<and> afterSeq < af_seq r"
  by (auto simp: batch_after_def dest!: in_set_takeD)

function verify_batches ::
  "(string \<Rightarrow> string) \<Rightarrow> AuditRow list \<Rightarrow> int \<Rightarrow> VerifyState \<Rightarrow> (VerifyState \<times> (int \<times> string \<times> AuditChainBreak) option) result" where
  "verify_batches sha256 log afterSeq st =
     (let rows = batch_after afterSeq log
      in bindE (check_rows sha256 st rows) (\<lambda>(st', firstBreak).
         if firstBreak \<noteq> None \<or> length rows < VERIFY_BATCH then Inr (st', firstBreak)
         else verify_batches sha256 log (af_seq (last rows)) st'))"
  by pat_completeness auto
termination
proof (relation "measure (\<lambda>(sha256, log, afterSeq, st). length (filter (\<lambda>r. af_seq r > afterSeq) log))", goal_cases)
  case (2 sha256 log afterSeq st rows x st' firstBreak)
  then have "rows \<noteq> []" by (auto simp: VERIFY_BATCH_def)
  then have "last rows \<in> set log" "afterSeq < af_seq (last rows)"
    using last_in_set [of rows] 2(1) batch_after_set [of "last rows" afterSeq log] by auto
  then have "filter (\<lambda>r. af_seq (last rows) < af_seq r) log = filter (\<lambda>r. af_seq (last rows) < af_seq r) (filter (\<lambda>r. afterSeq < af_seq r) log)"
    by (auto intro: filter_cong)
  also have "length \<dots> < length (filter (\<lambda>r. afterSeq < af_seq r) log)"
    using \<open>last rows \<in> set log\<close> \<open>afterSeq < af_seq (last rows)\<close> by (intro length_filter_less [of "last rows"]) simp_all
  finally show ?case by simp
qed simp

declare verify_batches.simps [simp del]

definition verify :: "(string \<Rightarrow> string) \<Rightarrow> AuditRow list \<Rightarrow> AuditVerifyResponse result" where
  "verify sha256 log =
     bindE (verify_batches sha256 log 0 \<lparr>vs_checkedEntries = 0, vs_expectedSeq = None, vs_expectedPrevHash = None\<rparr>) (\<lambda>(st, firstBreak).
     Inr \<lparr>av_valid = (firstBreak = None), av_checkedEntries = vs_checkedEntries st, av_head = chainHead log,
          av_firstBreak = firstBreak\<rparr>)"

end
