(* ===== verification/Audit_Chain.thy ===== *)
theory Audit_Chain
  imports Audit_Log Date_Rules
begin

text \<open>
  What the audit chain guarantees: checking it in batches is checking it row by row, every log the program
  writes passes, and a log that passes with the head the vendor was told is the log that was written.
\<close>

section \<open>Checking in batches\<close>

lemma check_rows_append:
  "check_rows sha256 st (xs @ ys) =
     bindE (check_rows sha256 st xs) (\<lambda>(st', b). if b \<noteq> None then Inr (st', b) else check_rows sha256 st' ys)"
proof (induction xs arbitrary: st)
  case (Cons x xs)
  show ?case by (cases "row_break sha256 st x") (auto simp: Cons.IH split: option.split)
qed simp

definition in_sequence :: "AuditRow list \<Rightarrow> bool" where
  "in_sequence log \<longleftrightarrow> sorted_wrt (<) (map af_seq log) \<and> list_all (\<lambda>r. 0 < af_seq r) log"

lemma sorted_wrt_last: "sorted_wrt P xs \<Longrightarrow> x \<in> set xs \<Longrightarrow> x = last xs \<or> P x (last xs)"
  by (induction xs) auto

lemma rest_after_batch:
  assumes "sorted_wrt (<) (map af_seq log)" "rows = batch_after a log" "rows \<noteq> []"
  shows "filter (\<lambda>r. a < af_seq r) log = rows @ filter (\<lambda>r. af_seq (last rows) < af_seq r) log"
proof -
  let ?fs = "filter (\<lambda>r. a < af_seq r) log"
  have s: "sorted_wrt (<) (map af_seq ?fs)"
    using assms(1) by (simp add: sorted_wrt_map sorted_wrt_filter)
  have fs: "?fs = rows @ drop VERIFY_BATCH ?fs" using assms(2) by (simp add: batch_after_def)
  have "sorted_wrt (\<lambda>r q. af_seq r < af_seq q) (rows @ drop VERIFY_BATCH ?fs)"
    using s fs by (simp add: sorted_wrt_map)
  then have r: "sorted_wrt (\<lambda>r q. af_seq r < af_seq q) rows"
    and less: "\<forall>r \<in> set rows. \<forall>q \<in> set (drop VERIFY_BATCH ?fs). af_seq r < af_seq q"
    by (simp_all add: sorted_wrt_append)
  have "af_seq r \<le> af_seq (last rows)" if "r \<in> set rows" for r
    using r that sorted_wrt_last by fastforce
  then have "filter (\<lambda>r. af_seq (last rows) < af_seq r) rows = []" by (auto simp: filter_empty_conv not_less)
  moreover have "filter (\<lambda>r. af_seq (last rows) < af_seq r) (drop VERIFY_BATCH ?fs) = drop VERIFY_BATCH ?fs"
    using less assms(3) by (auto intro!: filter_True)
  moreover have "filter (\<lambda>r. af_seq (last rows) < af_seq r) log = filter (\<lambda>r. af_seq (last rows) < af_seq r) ?fs"
    using batch_after_set [of "last rows" a log] assms(2,3) by (auto intro!: filter_cong)
  ultimately show ?thesis using fs by (metis append_Nil filter_append)
qed

lemma verify_batches_rows:
  assumes "sorted_wrt (<) (map af_seq log)"
  shows "verify_batches sha256 log a st = check_rows sha256 st (filter (\<lambda>r. a < af_seq r) log)"
  using assms
proof (induction sha256 log a st rule: verify_batches.induct)
  case (1 sha256 log a st)
  let ?rows = "batch_after a log" and ?fs = "filter (\<lambda>r. a < af_seq r) log"
  show ?case
  proof (cases "length ?rows < VERIFY_BATCH")
    case True
    then have "?rows = ?fs" by (simp add: batch_after_def)
    then show ?thesis using True
      by (subst verify_batches.simps) (cases "check_rows sha256 st ?fs"; auto)
  next
    case False
    then have fs: "?fs = ?rows @ filter (\<lambda>r. af_seq (last ?rows) < af_seq r) log"
      by (intro rest_after_batch [OF 1(2) refl]) (auto simp: VERIFY_BATCH_def)
    show ?thesis
    proof (cases "check_rows sha256 st ?rows")
      case (Inr p)
      obtain st' b where p: "p = (st', b)" by fastforce
      show ?thesis
        using 1 False Inr p
        by (subst fs, subst verify_batches.simps) (auto simp: check_rows_append)
    qed (subst fs, subst verify_batches.simps, simp add: check_rows_append)
  qed
qed

section \<open>An intact chain\<close>

fun chained :: "(string \<Rightarrow> string) \<Rightarrow> int \<Rightarrow> string \<Rightarrow> AuditRow list \<Rightarrow> bool" where
  "chained sha256 seq prev [] \<longleftrightarrow> True"
| "chained sha256 seq prev (row # rows) \<longleftrightarrow>
     af_seq row = seq \<and> af_prevHash row = prev \<and>
     computeAuditHash sha256 (hashFieldsOfRow row) prev = Inr (ar_hash row) \<and>
     chained sha256 (seq + 1) (ar_hash row) rows"

definition intact :: "(string \<Rightarrow> string) \<Rightarrow> AuditRow list \<Rightarrow> bool" where
  "intact sha256 log \<longleftrightarrow>
     (case log of [] \<Rightarrow> True
      | row # rows \<Rightarrow> 0 < af_seq row \<and> (af_seq row = 1 \<longrightarrow> af_prevHash row = GENESIS_HASH) \<and>
          chained sha256 (af_seq row) (af_prevHash row) log)"

lemma check_rows_chained:
  "check_rows sha256 \<lparr>vs_checkedEntries = n, vs_expectedSeq = Some seq, vs_expectedPrevHash = Some prev\<rparr> rows = Inr (st, None) \<longleftrightarrow>
     chained sha256 seq prev rows \<and> st = (if rows = [] then \<lparr>vs_checkedEntries = n, vs_expectedSeq = Some seq, vs_expectedPrevHash = Some prev\<rparr>
       else \<lparr>vs_checkedEntries = n + length rows, vs_expectedSeq = Some (seq + int (length rows)), vs_expectedPrevHash = Some (ar_hash (last rows))\<rparr>)"
proof (induction rows arbitrary: n seq prev)
  case (Cons row rows)
  show ?case
    by (auto simp: row_break_def next_state_def Cons.IH Let_def bindE_Inr_iff split: option.splits if_splits)
qed auto

lemma check_rows_start:
  "check_rows sha256 \<lparr>vs_checkedEntries = 0, vs_expectedSeq = None, vs_expectedPrevHash = None\<rparr> (row # rows) = Inr (st, None) \<longleftrightarrow>
     (af_seq row = 1 \<longrightarrow> af_prevHash row = GENESIS_HASH) \<and> chained sha256 (af_seq row) (af_prevHash row) (row # rows) \<and>
     st = \<lparr>vs_checkedEntries = Suc (length rows), vs_expectedSeq = Some (af_seq row + 1 + int (length rows)),
           vs_expectedPrevHash = Some (ar_hash (last (row # rows)))\<rparr>"
  by (auto simp: row_break_def next_state_def Let_def bindE_Inr_iff check_rows_chained split: option.splits if_splits)

text \<open>Rows whose stored JSON is JSON: what a JSON column gives back.\<close>

definition json_row :: "AuditRow \<Rightarrow> bool" where
  "json_row r \<longleftrightarrow> named_once (ae_before r) \<and> named_once (ae_after r) \<and>
     json_value (ae_before r) \<noteq> None \<and> json_value (ae_after r) \<noteq> None"

definition meaning_of :: "JsValue \<Rightarrow> Json_Value" where
  "meaning_of v = the (json_value v)"

lemma json_value_defined: "json_value v \<noteq> None \<Longrightarrow> v \<noteq> JsUndefined"
  by auto

lemma json_value_object:
  assumes "list_all (\<lambda>p. json_value (snd p) \<noteq> None) ps"
  shows "json_value (JsObject ps) = Some (V_object (map_of (map (\<lambda>p. (fst p, meaning_of (snd p))) ps)))"
proof -
  have "filter (\<lambda>p. snd p \<noteq> JsUndefined) ps = ps" using assms by (auto simp: list_all_iff filter_id_conv)
  moreover have "mapO (\<lambda>p. map_option (Pair (fst p)) (json_value (snd p))) ps = Some (map (\<lambda>p. (fst p, meaning_of (snd p))) ps)"
    using assms by (induction ps) (auto simp: meaning_of_def)
  ultimately show ?thesis by simp
qed

lemma or_null_value [simp]: "\<exists>j. json_value (or_null s) = Some j" "json_value (or_null s) \<noteq> None" "named_once (or_null s)" "or_null s \<noteq> JsUndefined"
  by (simp_all add: or_null_def split: option.split)

lemma meaning_of_or_null [simp]: "meaning_of (or_null s) = meaning_of (or_null t) \<longleftrightarrow> s = t"
  by (simp add: or_null_def meaning_of_def split: option.split)

lemma meaning_of_simps [simp]: "meaning_of (JsString s) = V_string s" "meaning_of (JsNumber n) = V_number n"
  by (simp_all add: meaning_of_def)

lemma row_fields_named: "json_row r \<Longrightarrow> named_once (hashFieldsOfRow r)"
  by (simp add: hashFieldsOfRow_def json_row_def)

lemma row_fields_value: "json_row r \<Longrightarrow> json_value (hashFieldsOfRow r) \<noteq> None"
  unfolding hashFieldsOfRow_def by (subst json_value_object) (simp_all add: json_row_def)

definition same_row :: "AuditRow \<Rightarrow> AuditRow \<Rightarrow> bool" where
  "same_row r q \<longleftrightarrow>
     af_seq r = af_seq q \<and> ae_id r = ae_id q \<and> ae_restaurantId r = ae_restaurantId q \<and>
     ae_businessDate r = ae_businessDate q \<and> ae_occurredAt r = ae_occurredAt q \<and> ae_action r = ae_action q \<and>
     ae_actorId r = ae_actorId q \<and> ae_approverId r = ae_approverId q \<and> ae_deviceId r = ae_deviceId q \<and>
     ae_entityType r = ae_entityType q \<and> ae_entityId r = ae_entityId q \<and>
     json_value (ae_before r) = json_value (ae_before q) \<and> json_value (ae_after r) = json_value (ae_after q) \<and>
     ae_reason r = ae_reason q \<and> ae_correlationId r = ae_correlationId q \<and> af_prevHash r = af_prevHash q"

lemma fields_value_same:
  assumes "json_row r" "json_row q" "json_value (hashFieldsOfRow r) = json_value (hashFieldsOfRow q)"
  shows "same_row r q"
proof -
  let ?m = "\<lambda>r. map_of (map (\<lambda>p. (fst p, meaning_of (snd p)))
       [(''seq'', JsNumber (af_seq r)), (''id'', JsString (ae_id r)), (''restaurantId'', JsString (ae_restaurantId r)),
        (''businessDate'', JsString (ae_businessDate r)), (''occurredAt'', JsString (ae_occurredAt r)),
        (''action'', JsString (ae_action r)), (''actorId'', or_null (ae_actorId r)),
        (''approverId'', or_null (ae_approverId r)), (''deviceId'', or_null (ae_deviceId r)),
        (''entityType'', JsString (ae_entityType r)), (''entityId'', or_null (ae_entityId r)),
        (''before'', ae_before r), (''after'', ae_after r), (''reason'', or_null (ae_reason r)),
        (''correlationId'', or_null (ae_correlationId r)), (''prevHash'', JsString (af_prevHash (r :: AuditRow)))])"
  have "json_value (hashFieldsOfRow x) = Some (V_object (?m x))" if "json_row x" for x
    using that unfolding hashFieldsOfRow_def by (intro json_value_object) (simp add: json_row_def)
  then have m: "?m r = ?m q" using assms by simp
  have k: "?m r k = ?m q k" for k using m by (rule fun_cong)
  have parts: "af_seq r = af_seq q" "ae_id r = ae_id q" "ae_restaurantId r = ae_restaurantId q" "ae_businessDate r = ae_businessDate q"
      "ae_occurredAt r = ae_occurredAt q" "ae_action r = ae_action q" "ae_actorId r = ae_actorId q" "ae_approverId r = ae_approverId q"
      "ae_deviceId r = ae_deviceId q" "ae_entityType r = ae_entityType q" "ae_entityId r = ae_entityId q"
      "meaning_of (ae_before r) = meaning_of (ae_before q)" "meaning_of (ae_after r) = meaning_of (ae_after q)"
      "ae_reason r = ae_reason q" "ae_correlationId r = ae_correlationId q" "af_prevHash r = af_prevHash q"
    using k [of "''seq''"] k [of "''id''"] k [of "''restaurantId''"] k [of "''businessDate''"] k [of "''occurredAt''"] k [of "''action''"]
      k [of "''actorId''"] k [of "''approverId''"] k [of "''deviceId''"] k [of "''entityType''"] k [of "''entityId''"]
      k [of "''before''"] k [of "''after''"] k [of "''reason''"] k [of "''correlationId''"] k [of "''prevHash''"]
    by simp_all
  then show ?thesis using assms(1,2) by (auto simp: same_row_def json_row_def meaning_of_def)
qed

section \<open>A log that passes is the log that was written\<close>

text \<open>What is hashed for a row, and that no two different texts among the rows of two logs share a hash.\<close>

definition hashed_text :: "AuditRow \<Rightarrow> string" where
  "hashed_text r = (case canonicalJson (hashFieldsOfRow r) of Inl _ \<Rightarrow> [] | Inr s \<Rightarrow> s @ af_prevHash r)"

definition no_collision :: "(string \<Rightarrow> string) \<Rightarrow> AuditRow list \<Rightarrow> AuditRow list \<Rightarrow> bool" where
  "no_collision sha256 log log' \<longleftrightarrow> inj_on sha256 (hashed_text ` (set log \<union> set log'))"

lemma row_hash_same:
  assumes "json_row r" "json_row q" "hashed_text r = hashed_text q"
  shows "same_row r q"
proof -
  obtain j k where jk: "sorted_json (hashFieldsOfRow r) = Some j" "sorted_json (hashFieldsOfRow q) = Some k"
    using row_fields_value [OF assms(1)] row_fields_value [OF assms(2)] unfolding json_value_None by auto
  then obtain xs ys where obj: "j = J_object xs" "k = J_object ys"
    unfolding hashFieldsOfRow_def sorted_json.simps by (auto simp del: filter.simps)
  have "json_text j @ af_prevHash r = json_text k @ af_prevHash q"
    using assms(3) jk by (simp add: hashed_text_def canonicalJson_value)
  then have "j = k" using object_text_unambiguous [of xs _ ys] obj by simp
  then have "json_value (hashFieldsOfRow r) = json_value (hashFieldsOfRow q)"
    using named_once_sorted [OF row_fields_named [OF assms(1)] jk(1)] named_once_sorted [OF row_fields_named [OF assms(2)] jk(2)] by simp
  then show ?thesis by (rule fields_value_same [OF assms(1,2)])
qed

lemma chained_hash: "computeAuditHash sha256 (hashFieldsOfRow r) (af_prevHash r) = Inr h \<Longrightarrow> sha256 (hashed_text r) = h"
  by (auto simp: computeAuditHash_def hashed_text_def bindE_Inr_iff)

lemma chained_nth:
  "chained sha256 seq prev rows \<Longrightarrow> i < length rows \<Longrightarrow>
     af_seq (rows ! i) = seq + int i \<and> sha256 (hashed_text (rows ! i)) = ar_hash (rows ! i) \<and>
     (if i = 0 then af_prevHash (rows ! i) = prev else af_prevHash (rows ! i) = ar_hash (rows ! (i - 1)))"
proof (induction rows arbitrary: seq prev i)
  case (Cons row rows)
  show ?case
  proof (cases i)
    case 0
    then show ?thesis using Cons.prems(1) chained_hash [of sha256 row] by auto
  next
    case (Suc j)
    then have "chained sha256 (seq + 1) (ar_hash row) rows" "j < length rows" using Cons.prems by simp_all
    from Cons.IH [OF this] show ?thesis using Suc by (cases j) auto
  qed
qed simp

lemma same_tails:
  assumes "chained sha256 s p log" "chained sha256 s' p' log'" "list_all json_row log" "list_all json_row log'"
    and "no_collision sha256 log log'" "log \<noteq> []" "log' \<noteq> []"
    and "ar_hash (last log) = ar_hash (last log')"
    and "k < length log" "k < length log'"
  shows "same_row (log ! (length log - 1 - k)) (log' ! (length log' - 1 - k)) \<and>
    ar_hash (log ! (length log - 1 - k)) = ar_hash (log' ! (length log' - 1 - k))"
proof -
  have row: "same_row (log ! i) (log' ! j)" if "i < length log" "j < length log'" "ar_hash (log ! i) = ar_hash (log' ! j)" for i j
  proof (rule row_hash_same)
    show "json_row (log ! i)" "json_row (log' ! j)" using assms(3,4) that by (simp_all add: list_all_iff)
    have "sha256 (hashed_text (log ! i)) = sha256 (hashed_text (log' ! j))"
      using chained_nth [OF assms(1) that(1)] chained_nth [OF assms(2) that(2)] that(3) by simp
    moreover have "hashed_text (log ! i) \<in> hashed_text ` (set log \<union> set log')" "hashed_text (log' ! j) \<in> hashed_text ` (set log \<union> set log')"
      using that by auto
    ultimately show "hashed_text (log ! i) = hashed_text (log' ! j)"
      using assms(5) unfolding no_collision_def by (meson inj_onD)
  qed
  show ?thesis using assms(9,10)
  proof (induction k)
    case 0
    then show ?case using row [of "length log - 1" "length log' - 1"] assms(6,7,8) by (simp add: last_conv_nth)
  next
    case (Suc k)
    let ?i = "length log - 1 - k" and ?j = "length log' - 1 - k"
    have "same_row (log ! ?i) (log' ! ?j)" using Suc by simp
    then have "ar_hash (log ! (?i - 1)) = ar_hash (log' ! (?j - 1))"
      using chained_nth [OF assms(1), of ?i] chained_nth [OF assms(2), of ?j] Suc.prems by (auto simp: same_row_def)
    then show ?case using row [of "?i - 1" "?j - 1"] Suc.prems by simp
  qed
qed

section \<open>What the check reports\<close>

definition check_start :: VerifyState where
  "check_start = \<lparr>vs_checkedEntries = 0, vs_expectedSeq = None, vs_expectedPrevHash = None\<rparr>"

lemma check_start_zero: "vs_checkedEntries check_start = 0"
  by (simp add: check_start_def)

lemma all_rows: "in_sequence log \<Longrightarrow> filter (\<lambda>r. 0 < af_seq r) log = log"
  by (simp add: in_sequence_def list_all_iff filter_id_conv)

lemma verify_rows:
  "in_sequence log \<Longrightarrow> verify sha256 log = bindE (check_rows sha256 check_start log) (\<lambda>(st, firstBreak).
     Inr \<lparr>av_valid = (firstBreak = None), av_checkedEntries = vs_checkedEntries st, av_head = chainHead log, av_firstBreak = firstBreak\<rparr>)"
  using verify_batches_rows [of log sha256 0 check_start] all_rows [of log]
  by (simp add: verify_def check_start_def in_sequence_def)

lemma check_rows_intact:
  "list_all (\<lambda>r. 0 < af_seq r) rows \<Longrightarrow> (\<exists>st. check_rows sha256 check_start rows = Inr (st, None)) \<longleftrightarrow> intact sha256 rows"
  by (cases rows) (simp_all add: check_start_def check_rows_start intact_def del: check_rows.simps(2) chained.simps(2))

text \<open>Rows with JSON in them always get an answer; a break is found behind rows that are in order.\<close>

lemma row_break_answers: "json_row r \<Longrightarrow> \<exists>b. row_break sha256 st r = Inr b"
proof -
  assume "json_row r"
  then obtain j where "sorted_json (hashFieldsOfRow r) = Some j" using row_fields_value unfolding json_value_None by blast
  then show ?thesis by (simp add: row_break_def computeAuditHash_def canonicalJson_value Let_def)
qed

lemma check_rows_answers:
  "list_all json_row rows \<Longrightarrow> \<exists>st' b. check_rows sha256 st rows = Inr (st', b) \<and>
     (case b of
        None \<Rightarrow> vs_checkedEntries st' = vs_checkedEntries st + length rows
      | Some (seq, entryId, reason) \<Rightarrow> \<exists>n < length rows. vs_checkedEntries st' = vs_checkedEntries st + n \<and>
          check_rows sha256 st (take n rows) = Inr (st', None) \<and> row_break sha256 st' (rows ! n) = Inr (Some reason) \<and>
          seq = af_seq (rows ! n) \<and> entryId = ae_id (rows ! n))"
proof (induction rows arbitrary: st)
  case (Cons row rows)
  obtain b where b: "row_break sha256 st row = Inr b" using row_break_answers [of row sha256 st] Cons.prems by auto
  show ?case
  proof (cases b)
    case (Some reason)
    then show ?thesis using b by (auto intro!: exI [of _ 0])
  next
    case None
    obtain st' b' where IH: "check_rows sha256 (next_state st row) rows = Inr (st', b')"
      "case b' of None \<Rightarrow> vs_checkedEntries st' = vs_checkedEntries (next_state st row) + length rows
       | Some (seq, entryId, reason) \<Rightarrow> \<exists>n < length rows. vs_checkedEntries st' = vs_checkedEntries (next_state st row) + n \<and>
          check_rows sha256 (next_state st row) (take n rows) = Inr (st', None) \<and> row_break sha256 st' (rows ! n) = Inr (Some reason) \<and>
          seq = af_seq (rows ! n) \<and> entryId = ae_id (rows ! n)"
      using Cons.IH [of "next_state st row"] Cons.prems by auto
    show ?thesis
    proof (cases b')
      case None
      then show ?thesis using IH b \<open>b = None\<close> by (simp add: next_state_def)
    next
      case (Some p)
      obtain seq entryId reason where p: "p = (seq, entryId, reason)" using prod_cases3 by blast
      obtain n where "n < length rows" "vs_checkedEntries st' = vs_checkedEntries (next_state st row) + n"
        "check_rows sha256 (next_state st row) (take n rows) = Inr (st', None)" "row_break sha256 st' (rows ! n) = Inr (Some reason)"
        "seq = af_seq (rows ! n)" "entryId = ae_id (rows ! n)"
        using IH(2) Some p by auto
      then show ?thesis using IH(1) b \<open>b = None\<close> Some p by (auto simp: next_state_def intro!: exI [of _ "Suc n"])
    qed
  qed
qed simp

text \<open>
  C36: the check reports the first broken link. Read in batches of 500, it says valid exactly when the
  chain is intact, counts the entries, and otherwise names the first entry that does not belong
  behind the intact ones before it.
\<close>

theorem verify_finds_first_break:
  assumes "in_sequence log" "list_all json_row log"
  shows "\<exists>answer. verify sha256 log = Inr answer \<and> av_head answer = chainHead log \<and> (av_valid answer \<longleftrightarrow> intact sha256 log) \<and>
    (case av_firstBreak answer of
       None \<Rightarrow> av_valid answer \<and> av_checkedEntries answer = length log
     | Some (seq, entryId, reason) \<Rightarrow>
         (let n = av_checkedEntries answer in n < length log \<and> intact sha256 (take n log) \<and> \<not> intact sha256 (take (n + 1) log) \<and>
           seq = af_seq (log ! n) \<and> entryId = ae_id (log ! n)))"
proof -
  have pos: "list_all (\<lambda>r. 0 < af_seq r) (take n log)" for n
    using assms(1) by (auto simp: in_sequence_def list_all_iff dest: in_set_takeD)
  obtain st b where st: "check_rows sha256 check_start log = Inr (st, b)"
    and b: "case b of None \<Rightarrow> vs_checkedEntries st = length log
      | Some (seq, entryId, reason) \<Rightarrow> \<exists>n < length log. vs_checkedEntries st = n \<and>
          check_rows sha256 check_start (take n log) = Inr (st, None) \<and> row_break sha256 st (log ! n) = Inr (Some reason) \<and>
          seq = af_seq (log ! n) \<and> entryId = ae_id (log ! n)"
    using check_rows_answers [OF assms(2), of sha256 check_start] unfolding check_start_zero add_0 by blast
  have v: "verify sha256 log = Inr \<lparr>av_valid = (b = None), av_checkedEntries = vs_checkedEntries st, av_head = chainHead log, av_firstBreak = b\<rparr>"
    using verify_rows [OF assms(1)] st by simp
  have valid: "b = None \<longleftrightarrow> intact sha256 log" using check_rows_intact [of log sha256] pos [of "length log"] st by simp
  show ?thesis
  proof (cases b)
    case None
    then show ?thesis using v valid b by simp
  next
    case (Some p)
    obtain seq entryId reason where p: "p = (seq, entryId, reason)" using prod_cases3 by blast
    obtain n where n: "n < length log" "vs_checkedEntries st = n" "check_rows sha256 check_start (take n log) = Inr (st, None)"
      "row_break sha256 st (log ! n) = Inr (Some reason)" "seq = af_seq (log ! n)" "entryId = ae_id (log ! n)"
      using b Some p by auto
    have "check_rows sha256 check_start (take (n + 1) log) = Inr (st, Some (seq, entryId, reason))"
      using n by (simp add: take_Suc_conv_app_nth check_rows_append)
    then have "\<not> intact sha256 (take (n + 1) log)" "intact sha256 (take n log)"
      using check_rows_intact [OF pos [of "n + 1"], of sha256] check_rows_intact [OF pos [of n], of sha256] n(3) by auto
    then show ?thesis using v valid Some p n by (simp add: Let_def)
  qed
qed

lemma valid_intact:
  assumes "in_sequence log" "verify sha256 log = Inr answer" "av_valid answer"
  shows "intact sha256 log" "av_head answer = chainHead log"
proof -
  obtain st b where st: "check_rows sha256 check_start log = Inr (st, b)"
    "answer = \<lparr>av_valid = (b = None), av_checkedEntries = vs_checkedEntries st, av_head = chainHead log, av_firstBreak = b\<rparr>"
    using assms(2) verify_rows [OF assms(1)] by (auto simp: bindE_Inr_iff)
  have "list_all (\<lambda>r. 0 < af_seq r) log" using assms(1) by (simp add: in_sequence_def)
  then show "intact sha256 log" using check_rows_intact [of log sha256] st assms(3) by auto
  show "av_head answer = chainHead log" using st by simp
qed

lemma intact_chained: "intact sha256 log \<Longrightarrow> log \<noteq> [] \<Longrightarrow> chained sha256 (af_seq (hd log)) (af_prevHash (hd log)) log"
  by (cases log) (simp_all add: intact_def del: chained.simps)

text \<open>
  C17: the trail shows tampering. Take two logs that both pass the check and end in the same head, such as the log
  that was written, of which the vendor keeps the head, and what is found in the table later; unless two of their
  texts share a SHA-256, every entry of the first from the oldest row of the second on is in the second, with the
  same content and hash. So no entry can be altered, moved or removed from the middle or the end.
\<close>

theorem audit_log_tamper_evident:
  assumes "verify sha256 log = Inr a" "av_valid a" "verify sha256 log' = Inr b" "av_valid b"
    and "in_sequence log" "in_sequence log'" "list_all json_row log" "list_all json_row log'"
    and "no_collision sha256 log log'" "av_head a = av_head b"
    and "r \<in> set log" "log' \<noteq> []" "af_seq (hd log') \<le> af_seq r"
  shows "\<exists>q \<in> set log'. same_row r q \<and> ar_hash r = ar_hash q"
proof -
  have ne: "log \<noteq> []" using assms(11) by auto
  note c = intact_chained [OF valid_intact(1) [OF assms(5,1,2)] ne] and c' = intact_chained [OF valid_intact(1) [OF assms(6,3,4)] assms(12)]
  have head: "chainHead log = chainHead log'"
    using valid_intact(2) [OF assms(5,1,2)] valid_intact(2) [OF assms(6,3,4)] assms(10) by simp
  then have last: "ar_hash (last log) = ar_hash (last log')" "af_seq (last log) = af_seq (last log')"
    using ne assms(12) by (auto simp: chainHead_def)
  obtain i where i: "i < length log" "r = log ! i" using assms(11) by (auto simp: in_set_conv_nth)
  let ?k = "length log - 1 - i"
  have seqs: "af_seq r = af_seq (hd log) + int i" using chained_nth [OF c i(1)] i(2) by simp
  have ends: "af_seq (last log) = af_seq (hd log) + int (length log - 1)" "af_seq (last log') = af_seq (hd log') + int (length log' - 1)"
    using chained_nth [OF c, of "length log - 1"] chained_nth [OF c', of "length log' - 1"] ne assms(12) by (simp_all add: last_conv_nth)
  have "int ?k = af_seq (last log) - af_seq r" using seqs ends(1) i(1) by simp
  then have k: "?k < length log" "?k < length log'" using ends(2) last(2) assms(12,13) i(1) by (auto simp: neq_Nil_conv)
  let ?q = "log' ! (length log' - 1 - ?k)"
  have "same_row (log ! (length log - 1 - ?k)) ?q \<and> ar_hash (log ! (length log - 1 - ?k)) = ar_hash ?q"
    by (rule same_tails [OF c c' assms(7,8,9) ne assms(12) last(1) k])
  moreover have "log ! (length log - 1 - ?k) = r" using i by simp
  moreover have "?q \<in> set log'" using assms(12) by simp
  ultimately show ?thesis by auto
qed

section \<open>Every log the program writes is intact\<close>

text \<open>What a JSON column takes, and gives back with the same meaning: values without the character 0.\<close>

fun nul_free :: "JsValue \<Rightarrow> bool" where
  "nul_free (JsString s) \<longleftrightarrow> CHR 0x00 \<notin> set s"
| "nul_free (JsDate s) \<longleftrightarrow> storable s"
| "nul_free (JsArray items) \<longleftrightarrow> list_all nul_free items"
| "nul_free (JsObject properties) \<longleftrightarrow> list_all (\<lambda>p. CHR 0x00 \<notin> set (fst p) \<and> nul_free (snd p)) properties"
| "nul_free v \<longleftrightarrow> True"

definition keeps_json :: "(JsValue \<Rightarrow> JsValue option) \<Rightarrow> bool" where
  "keeps_json jsonb \<longleftrightarrow> (\<forall>v. named_once v \<and> json_value v \<noteq> None \<and> nul_free v \<longrightarrow>
     (\<exists>w. jsonb v = Some w \<and> named_once w \<and> json_value w = json_value v))"

text \<open>An entry that the database can take as it is: of a day of the calendar, and without the character 0.\<close>

definition json_entry :: "AuditEntry \<Rightarrow> bool" where
  "json_entry e \<longleftrightarrow> named_once (ae_before e) \<and> named_once (ae_after e) \<and>
     json_value (ae_before e) \<noteq> None \<and> json_value (ae_after e) \<noteq> None \<and>
     nul_free (ae_before e) \<and> nul_free (ae_after e) \<and> storable (ae_reason e) \<and> storable (ae_correlationId e) \<and>
     valid_date (ae_businessDate e)"

lemma stored_date_valid:
  assumes "valid_date s"
  shows "stored_date s = Some s"
proof -
  obtain y m d where v: "valid_ymd y m d" "parseIsoDate s = Inr (y, m, d)" "date_day s = day_number y m d"
    using assms by (rule valid_dateE)
  have "ISO_DATE s" "y = dec_value (take 4 s)" "m = dec_value (take 2 (drop 5 s))" "d = dec_value (drop 8 s)"
    using v(2) by (auto simp: parseIsoDate_def Let_def split: if_splits)
  then show ?thesis
    using valid_ymd_bounds [OF v(1)] valid_date_range(3) [OF assms] v(3) by (simp add: stored_date_def Let_def)
qed

text \<open>What \<open>record\<close> prepares can be written.\<close>

lemma normalizeAuditJson_json:
  assumes "named_once v" "normalizeAuditJson v = Inr w"
  shows "named_once w \<and> json_value w \<noteq> None"
  using assms named_once_of_json named_once_sorted by (auto simp: normalizeAuditJson_def split: if_splits option.splits)

lemma prepare_entry_json:
  assumes "prepare_entry clock restaurants newId now nowText corr input = Inr e" "named_once (ai_before input)" "named_once (ai_after input)"
    and "valid_date (ae_businessDate e)" "nul_free (ae_before e)" "nul_free (ae_after e)" "storable (ae_reason e)" "storable (ae_correlationId e)"
  shows "json_entry e"
proof -
  obtain before after where "normalizeAuditJson (ai_before input) = Inr before" "normalizeAuditJson (ai_after input) = Inr after"
    "ae_before e = before" "ae_after e = after"
    using assms(1) by (auto simp: prepare_entry_def bindE_Inr_iff in_domain_def split: option.splits sum.splits)
  then show ?thesis using normalizeAuditJson_json assms(2-) by (simp add: json_entry_def)
qed

text \<open>The row that such an entry becomes.\<close>

lemma stored_row_entry:
  assumes "keeps_json jsonb" "json_entry e"
  shows "\<exists>row. stored_row jsonb e seq prev h = Some row \<and> json_row row \<and> af_seq row = seq \<and> af_prevHash row = prev \<and> ar_hash row = h \<and>
    json_value (hashFieldsOfRow row) = json_value (entry_fields e seq prev)"
proof -
  let ?g = "\<lambda>p. (fst p, meaning_of (snd p))"
  let ?ps = "[(''id'', JsString (ae_id e)), (''restaurantId'', JsString (ae_restaurantId e)),
        (''businessDate'', JsString (ae_businessDate e)), (''occurredAt'', JsString (ae_occurredAt e)),
        (''action'', JsString (ae_action e)), (''actorId'', or_null (ae_actorId e)),
        (''approverId'', or_null (ae_approverId e)), (''deviceId'', or_null (ae_deviceId e)),
        (''entityType'', JsString (ae_entityType e)), (''entityId'', or_null (ae_entityId e)),
        (''before'', ae_before e), (''after'', ae_after e), (''reason'', or_null (ae_reason e)),
        (''correlationId'', or_null (ae_correlationId e)), (''seq'', JsNumber seq), (''prevHash'', JsString prev)]"
  obtain before after where b: "jsonb (ae_before e) = Some before" "jsonb (ae_after e) = Some after"
      "named_once before" "named_once after" "json_value before = json_value (ae_before e)" "json_value after = json_value (ae_after e)"
    using assms unfolding keeps_json_def json_entry_def by metis
  let ?row = "\<lparr>ae_id = ae_id e, ae_restaurantId = ae_restaurantId e, ae_businessDate = ae_businessDate e, ae_occurredAt = ae_occurredAt e,
     ae_action = ae_action e, ae_actorId = ae_actorId e, ae_approverId = ae_approverId e, ae_deviceId = ae_deviceId e,
     ae_entityType = ae_entityType e, ae_entityId = ae_entityId e, ae_before = before, ae_after = after,
     ae_reason = ae_reason e, ae_correlationId = ae_correlationId e, af_seq = seq, af_prevHash = prev, ar_hash = h\<rparr>"
  have row: "stored_row jsonb e seq prev h = Some ?row"
    using assms(2) stored_date_valid b by (simp add: stored_row_def json_entry_def)
  have m: "meaning_of before = meaning_of (ae_before e)" "meaning_of after = meaning_of (ae_after e)"
    "json_value before \<noteq> None" "json_value after \<noteq> None"
    using b assms(2) by (auto simp: json_entry_def meaning_of_def)
  have "json_value (entry_fields e seq prev) = Some (V_object (map_of (map ?g ?ps)))"
    unfolding entry_fields_def by (rule json_value_object) (use assms(2) in \<open>simp add: json_entry_def\<close>)
  moreover have "json_value (hashFieldsOfRow ?row) =
      Some (V_object (map_of (map ?g ((''seq'', JsNumber seq) # take 14 ?ps @ [(''prevHash'', JsString prev)]))))"
    unfolding hashFieldsOfRow_def by (subst json_value_object) (use m in simp_all)
  moreover have "map_of (map ?g ((''seq'', JsNumber seq) # take 14 ?ps @ [(''prevHash'', JsString prev)])) = map_of (map ?g ?ps)"
    by (rule map_of_same) simp_all
  ultimately have "json_value (hashFieldsOfRow ?row) = json_value (entry_fields e seq prev)" by simp
  moreover have "json_row ?row" using b assms(2) by (simp add: json_row_def json_entry_def)
  ultimately show ?thesis using row by auto
qed

lemma canonical_same:
  assumes "named_once v" "named_once w" "json_value v = json_value w"
  shows "canonicalJson v = canonicalJson w"
  using canonicalJson_texts [OF assms(1,2)] assms(3) json_value_None [of v] json_value_None [of w]
  by (cases "sorted_json v"; cases "sorted_json w") (auto simp: canonicalJson_value)

lemma written_hash:
  assumes "keeps_json jsonb" "json_entry e"
  shows "\<exists>h row. computeAuditHash sha256 (entry_fields e seq prev) prev = Inr h \<and> stored_row jsonb e seq prev h = Some row \<and>
    computeAuditHash sha256 (hashFieldsOfRow row) prev = Inr h \<and> json_row row \<and>
    af_seq row = seq \<and> af_prevHash row = prev \<and> ar_hash row = h"
proof -
  have n: "named_once (entry_fields e seq prev)" using assms(2) by (simp add: entry_fields_def json_entry_def)
  have same: "canonicalJson (hashFieldsOfRow row) = canonicalJson (entry_fields e seq prev)"
    if "json_row row" "json_value (hashFieldsOfRow row) = json_value (entry_fields e seq prev)" for row
    by (rule canonical_same [OF row_fields_named [OF that(1)] n that(2)])
  obtain row where "json_row row" "json_value (hashFieldsOfRow row) = json_value (entry_fields e seq prev)"
    using stored_row_entry [OF assms, of seq prev "[]"] by blast
  then have "sorted_json (entry_fields e seq prev) \<noteq> None"
    using row_fields_value unfolding json_value_None [symmetric] by metis
  then obtain j where j: "canonicalJson (entry_fields e seq prev) = Inr (json_text j)" by (auto simp: canonicalJson_value)
  let ?h = "sha256 (json_text j @ prev)"
  obtain row where "stored_row jsonb e seq prev ?h = Some row" "json_row row" "af_seq row = seq" "af_prevHash row = prev"
      "ar_hash row = ?h" "json_value (hashFieldsOfRow row) = json_value (entry_fields e seq prev)"
    using stored_row_entry [OF assms] by blast
  then show ?thesis using same [of row] j by (auto simp: computeAuditHash_def)
qed

lemma chain_rows_chained:
  "keeps_json jsonb \<Longrightarrow> list_all json_entry es \<Longrightarrow> \<exists>rows. chain_rows sha256 jsonb seq prev es = Inr rows \<and>
     chained sha256 (seq + 1) prev rows \<and> list_all json_row rows \<and> length rows = length es"
proof (induction es arbitrary: seq prev)
  case (Cons e es)
  obtain h row where h: "computeAuditHash sha256 (entry_fields e (seq + 1) prev) prev = Inr h"
      "stored_row jsonb e (seq + 1) prev h = Some row" "computeAuditHash sha256 (hashFieldsOfRow row) prev = Inr h" "json_row row"
      "af_seq row = seq + 1" "af_prevHash row = prev" "ar_hash row = h"
    using written_hash [OF Cons.prems(1), of e sha256 "seq + 1" prev] Cons.prems(2) by auto
  obtain rows where "chain_rows sha256 jsonb (seq + 1) h es = Inr rows" "chained sha256 (seq + 1 + 1) h rows"
    "list_all json_row rows" "length rows = length es"
    using Cons.IH [of "seq + 1" h] Cons.prems by auto
  then show ?case using h by (simp add: in_domain_def)
qed simp

lemma chained_append:
  "chained sha256 seq prev (xs @ ys) \<longleftrightarrow> chained sha256 seq prev xs \<and>
     chained sha256 (seq + int (length xs)) (if xs = [] then prev else ar_hash (last xs)) ys"
proof (induction xs arbitrary: seq prev)
  case (Cons x xs)
  show ?case by (auto simp: Cons.IH add.commute add.left_commute)
qed simp

lemma chained_in_sequence: "chained sha256 seq prev rows \<Longrightarrow> 0 < seq \<Longrightarrow> in_sequence rows \<and> list_all (\<lambda>r. seq \<le> af_seq r) rows"
proof (induction rows arbitrary: seq prev)
  case (Cons row rows)
  have "in_sequence rows \<and> list_all (\<lambda>r. seq + 1 \<le> af_seq r) rows"
    using Cons.prems by (intro Cons.IH [of "seq + 1" "ar_hash row"]) simp_all
  then show ?case using Cons.prems by (auto simp: in_sequence_def list_all_iff)
qed (simp add: in_sequence_def)

lemma intact_in_sequence: "intact sha256 log \<Longrightarrow> in_sequence log"
  using chained_in_sequence [of sha256 "af_seq (hd log)" "af_prevHash (hd log)" log] by (cases log) (auto simp: in_sequence_def intact_def)

lemma last_seq: "chained sha256 seq prev rows \<Longrightarrow> rows \<noteq> [] \<Longrightarrow> af_seq (last rows) = seq + int (length rows) - 1"
  using chained_nth [of sha256 seq prev rows "length rows - 1"] by (cases rows) (auto simp: last_conv_nth)

lemma write_entries_intact:
  assumes "keeps_json jsonb" "intact sha256 log" "list_all json_row log" "list_all json_entry es"
  shows "\<exists>rows. write_entries sha256 jsonb es log = Inr (log @ rows) \<and> intact sha256 (log @ rows) \<and>
    list_all json_row (log @ rows) \<and> length rows = length es"
proof (cases "es = []")
  case False
  let ?seq = "case chainHead log of None \<Rightarrow> 0 | Some h \<Rightarrow> fst h"
  let ?prev = "case chainHead log of None \<Rightarrow> GENESIS_HASH | Some h \<Rightarrow> snd h"
  obtain rows where rows: "chain_rows sha256 jsonb ?seq ?prev es = Inr rows" "chained sha256 (?seq + 1) ?prev rows"
    "list_all json_row rows" "length rows = length es"
    using chain_rows_chained [OF assms(1,4)] by blast
  have "intact sha256 (log @ rows)"
  proof (cases "log = []")
    case True
    then show ?thesis using rows(2) by (cases rows) (simp_all add: chainHead_def intact_def)
  next
    case ne: False
    then have c: "chained sha256 (af_seq (hd log)) (af_prevHash (hd log)) log" using intact_chained assms(2) by blast
    have "?seq + 1 = af_seq (hd log) + int (length log)" "?prev = ar_hash (last log)"
      using ne last_seq [OF c ne] by (simp_all add: chainHead_def)
    then have "chained sha256 (af_seq (hd log)) (af_prevHash (hd log)) (log @ rows)"
      using c rows(2) ne by (simp add: chained_append)
    then show ?thesis using assms(2) ne by (cases log) (simp_all add: intact_def)
  qed
  then show ?thesis using rows assms(3) False by (simp add: write_entries_def Let_def)
qed (use assms in \<open>simp add: write_entries_def\<close>)

text \<open>
  The log as the program changes it: transactions commit their entries, one after the other under the chain's
  lock, and the archive removes the oldest entries, never all.
\<close>

inductive audit_log_run :: "(string \<Rightarrow> string) \<Rightarrow> (JsValue \<Rightarrow> JsValue option) \<Rightarrow> AuditRow list \<Rightarrow> bool" for sha256 jsonb where
  log_empty: "audit_log_run sha256 jsonb []"
| log_commit: "audit_log_run sha256 jsonb log \<Longrightarrow> list_all json_entry es \<Longrightarrow> write_entries sha256 jsonb es log = Inr log' \<Longrightarrow>
    audit_log_run sha256 jsonb log'"
| log_archive: "audit_log_run sha256 jsonb log \<Longrightarrow> n < length log \<Longrightarrow> audit_log_run sha256 jsonb (drop n log)"

lemma intact_drop: "intact sha256 log \<Longrightarrow> n < length log \<Longrightarrow> intact sha256 (drop n log)"
proof -
  assume i: "intact sha256 log" and n: "n < length log"
  then have ne: "log \<noteq> []" by auto
  obtain row rows where d: "drop n log = row # rows" using n by (metis Cons_nth_drop_Suc)
  have "chained sha256 (af_seq (hd log)) (af_prevHash (hd log)) (take n log @ drop n log)"
    using intact_chained [OF i ne] by simp
  then obtain seq prev where c: "chained sha256 seq prev (row # rows)" unfolding chained_append d by blast
  have p: "0 < af_seq row" using intact_in_sequence [OF i] d in_set_dropD [of row n log] by (auto simp: in_sequence_def list_all_iff)
  have "af_seq row = 1 \<Longrightarrow> n = 0"
    using chained_nth [OF intact_chained [OF i ne] n] d n i ne by (auto simp: Cons_nth_drop_Suc [symmetric] intact_def neq_Nil_conv)
  then show ?thesis using c p i d by (auto simp: intact_def)
qed

lemma audit_run_intact: "audit_log_run sha256 jsonb log \<Longrightarrow> keeps_json jsonb \<Longrightarrow> intact sha256 log \<and> list_all json_row log"
proof (induction rule: audit_log_run.induct)
  case (log_commit log es log')
  then show ?case using write_entries_intact [of jsonb sha256 log es] by auto
next
  case (log_archive log n)
  then show ?case using intact_drop by (auto simp: list_all_iff dest: in_set_dropD)
qed (simp add: intact_def)

text \<open>
  C18: whatever was committed and archived, writing entries succeeds, leaves the earlier ones as they were, and the log
  passes the check with every entry counted; the database may reorder the properties of stored JSON. The entries
  are of a day of the calendar and without the character 0, which the database would reject.
\<close>

theorem audit_log_verifies:
  assumes "audit_log_run sha256 jsonb log" "keeps_json jsonb" "list_all json_entry es"
  shows "\<exists>rows. write_entries sha256 jsonb es log = Inr (log @ rows) \<and> length rows = length es \<and>
    verify sha256 (log @ rows) = Inr \<lparr>av_valid = True, av_checkedEntries = length log + length es,
      av_head = chainHead (log @ rows), av_firstBreak = None\<rparr>"
proof -
  obtain rows where rows: "write_entries sha256 jsonb es log = Inr (log @ rows)" "intact sha256 (log @ rows)"
    "list_all json_row (log @ rows)" "length rows = length es"
    using write_entries_intact audit_run_intact [OF assms(1,2)] assms(2,3) by blast
  have s: "in_sequence (log @ rows)" using intact_in_sequence rows(2) by blast
  then obtain st where st: "check_rows sha256 check_start (log @ rows) = Inr (st, None)"
    using check_rows_intact [of "log @ rows" sha256] rows(2) by (auto simp: in_sequence_def)
  then have "vs_checkedEntries st = length (log @ rows)"
    using check_rows_answers [OF rows(3), of sha256 check_start] by (auto simp: check_start_zero)
  then show ?thesis using rows(1,4) verify_rows [OF s, of sha256] st by simp
qed

section \<open>A log\<close>

definition sample_entry :: "JsValue \<Rightarrow> AuditEntry" where
  "sample_entry after =
     \<lparr>ae_id = ''e'', ae_restaurantId = ''r'', ae_businessDate = ''2026-04-01'', ae_occurredAt = ''2026-04-01T10:00:00.000Z'',
      ae_action = ''ORDER_ITEM_VOIDED'', ae_actorId = Some ''asha'', ae_approverId = None, ae_deviceId = None,
      ae_entityType = ''order_item'', ae_entityId = Some ''i'', ae_before = JsNull, ae_after = after,
      ae_reason = Some ''cold'', ae_correlationId = None\<rparr>"

lemma sample_date: "valid_date ''2026-04-01''"
  by code_simp

lemma sample_entry_json: "list_all json_entry [sample_entry (JsNumber 1), sample_entry (JsObject [(''a'', JsNull)])]"
  by (simp add: json_entry_def sample_entry_def storable_def sample_date)

lemma keeps_json_id: "keeps_json Some"
  by (simp add: keeps_json_def)

theorem audit_log_verifies_witness:
  "\<exists>rows. write_entries (\<lambda>s. s) Some [sample_entry (JsNumber 1), sample_entry (JsObject [(''a'', JsNull)])] [] = Inr rows \<and>
     verify (\<lambda>s. s) rows = Inr \<lparr>av_valid = True, av_checkedEntries = 2, av_head = chainHead rows, av_firstBreak = None\<rparr>"
  using audit_log_verifies [OF log_empty keeps_json_id sample_entry_json, of "\<lambda>s. s"] by auto

definition sample_log :: "AuditRow list" where
  "sample_log =
     (case write_entries (\<lambda>s. s) Some [sample_entry (JsNumber 1), sample_entry (JsObject [(''a'', JsNull)])] [] of
        Inr rows \<Rightarrow> rows | Inl _ \<Rightarrow> [])"

lemma sample_log_ok: "intact (\<lambda>s. s) sample_log \<and> list_all json_row sample_log \<and> length sample_log = 2"
proof -
  have "intact (\<lambda>s. s) []" "list_all json_row []" by (simp_all add: intact_def)
  from write_entries_intact [OF keeps_json_id this sample_entry_json] obtain rows where
    rows: "write_entries (\<lambda>s. s) Some [sample_entry (JsNumber 1), sample_entry (JsObject [(''a'', JsNull)])] [] = Inr rows"
      "intact (\<lambda>s. s) rows" "list_all json_row rows" "length rows = 2"
    by auto
  then have "sample_log = rows" by (simp add: sample_log_def)
  then show ?thesis using rows by simp
qed

theorem verify_finds_first_break_witness:
  "\<exists>answer. verify (\<lambda>s. s) sample_log = Inr answer \<and> av_valid answer \<and> av_head answer = chainHead sample_log"
  using verify_finds_first_break [of sample_log "\<lambda>s. s"] sample_log_ok intact_in_sequence by blast

theorem audit_log_tamper_evident_witness:
  "\<exists>q \<in> set sample_log. same_row (hd sample_log) q \<and> ar_hash (hd sample_log) = ar_hash q"
proof -
  have s: "in_sequence sample_log" and ne: "sample_log \<noteq> []" using sample_log_ok intact_in_sequence by auto
  obtain a where a: "verify (\<lambda>s. s) sample_log = Inr a" "av_valid a"
    using verify_finds_first_break [OF s, of "\<lambda>s. s"] sample_log_ok by blast
  have j: "list_all json_row sample_log" using sample_log_ok by blast
  have c: "no_collision (\<lambda>s. s) sample_log sample_log" by (simp add: no_collision_def)
  have h: "hd sample_log \<in> set sample_log" using ne by simp
  show ?thesis by (rule audit_log_tamper_evident [OF a a s s j j c refl h ne order_refl])
qed

section \<open>A day that the calendar does not have\<close>

text \<open>
  \<open>record\<close> checks the pattern of a business date only. An entry of the thirtieth of February is
  hashed with that text, stored as the second of March, and breaks the chain from the moment it is written.
\<close>

definition impossible_day :: AuditEntry where
  "impossible_day = (sample_entry (JsNumber 1))\<lparr>ae_businessDate := ''2026-02-30''\<rparr>"

lemma impossible_day_breaks_the_chain:
  "ISO_DATE (ae_businessDate impossible_day)"
  "case write_entries (\<lambda>s. s) Some [impossible_day] [] of Inl e \<Rightarrow> False | Inr rows \<Rightarrow>
     map ae_businessDate rows = [''2026-03-02''] \<and>
     (case verify (\<lambda>s. s) rows of Inl e \<Rightarrow> False | Inr answer \<Rightarrow>
        \<not> av_valid answer \<and> av_firstBreak answer = Some (1, ''e'', HASH_MISMATCH))"
  by code_simp+

end
