(* ===== verification/Licence_Check.thy ===== *)
theory Licence_Check
  imports License Business_Day_Rules
begin

text \<open>
  \<open>packages/licensing/src\<close>: the clock a licence is judged by (\<open>clock.ts\<close>), whether this is the licensed PC
  (\<open>fingerprint.ts\<close>) and what the restaurant may do (\<open>evaluate.ts\<close>). Times are milliseconds; the
  payload's texts have been read as times. SHA-256 and the clock of a time zone are arguments.
\<close>

section \<open>The clock\<close>

definition CLOCK_ROLLBACK_TOLERANCE_MS :: int where
  "CLOCK_ROLLBACK_TOLERANCE_MS = 5 * 60 * 1000"

definition CLOCK_HELD_BACK_TOLERANCE_MS :: int where
  "CLOCK_HELD_BACK_TOLERANCE_MS = 60 * 60 * 1000"

definition CLOCK_SKEW_TOLERANCE_MS :: int where
  "CLOCK_SKEW_TOLERANCE_MS = 10 * 60 * 1000"

record ClockMark =
  cm_judged :: int
  cm_clock :: int

record ClockReading =
  cr_clock :: int
  cr_last :: "ClockMark option"
  cr_elapsedMs :: "int option"
  cr_floors :: "int option list"

definition present :: "'a option list \<Rightarrow> 'a list" where
  "present xs = map the (filter (\<lambda>x. x \<noteq> None) xs)"

definition guardedNow :: "ClockReading \<Rightarrow> int \<times> bool" where
  "guardedNow reading =
     (let clock = cr_clock reading;
          elapsed = max 0 (case cr_elapsedMs reading of None \<Rightarrow> 0 | Some ms \<Rightarrow> ms);
          candidates = (case cr_last reading of None \<Rightarrow> [] | Some mark \<Rightarrow> [cm_judged mark + elapsed]) @ present (cr_floors reading);
          now = foldl max clock candidates;
          setBack = (case cr_last reading of None \<Rightarrow> False
            | Some mark \<Rightarrow> cm_clock mark + elapsed - clock > CLOCK_ROLLBACK_TOLERANCE_MS);
          heldBack = now - clock > CLOCK_HELD_BACK_TOLERANCE_MS
      in (now, setBack \<or> heldBack))"

definition clockSkewed :: "int \<Rightarrow> int \<Rightarrow> bool" where
  "clockSkewed local controlPlane \<longleftrightarrow> \<bar>local - controlPlane\<bar> > CLOCK_SKEW_TOLERANCE_MS"

lemma foldl_max_ge: "(x :: int) \<le> foldl max x ys" "y \<in> set ys \<Longrightarrow> y \<le> foldl max x ys"
  by (induction ys arbitrary: x) (auto, meson max.cobounded1 order_trans, meson max.cobounded2 order_trans)

lemma foldl_max_in: "foldl max (x :: int) ys = x \<or> foldl max x ys \<in> set ys"
  by (induction ys arbitrary: x) (auto simp: max_def split: if_splits)

lemma guardedNow_bounds:
  assumes "guardedNow reading = (now, rolledBack)"
  shows "cr_clock reading \<le> now"
    and "cr_last reading = Some mark \<Longrightarrow> cm_judged mark \<le> now"
    and "cr_last reading = Some mark \<Longrightarrow> cr_elapsedMs reading = Some ms \<Longrightarrow> cm_judged mark + ms \<le> now"
    and "Some t \<in> set (cr_floors reading) \<Longrightarrow> t \<le> now"
proof -
  let ?elapsed = "max 0 (case cr_elapsedMs reading of None \<Rightarrow> 0 | Some ms \<Rightarrow> ms)"
  let ?cs = "(case cr_last reading of None \<Rightarrow> [] | Some mark \<Rightarrow> [cm_judged mark + ?elapsed]) @ present (cr_floors reading)"
  have now: "now = foldl max (cr_clock reading) ?cs" using assms by (simp add: guardedNow_def Let_def)
  show "cr_clock reading \<le> now" unfolding now by (rule foldl_max_ge(1))
  show "cm_judged mark \<le> now" if "cr_last reading = Some mark"
    using foldl_max_ge(2) [of "cm_judged mark + ?elapsed" ?cs "cr_clock reading"] that unfolding now [symmetric] by auto
  show "cm_judged mark + ms \<le> now" if "cr_last reading = Some mark" "cr_elapsedMs reading = Some ms"
    using foldl_max_ge(2) [of "cm_judged mark + ?elapsed" ?cs "cr_clock reading"] that unfolding now [symmetric] by auto
  show "t \<le> now" if "Some t \<in> set (cr_floors reading)"
    using foldl_max_ge(2) [of t ?cs "cr_clock reading"] that unfolding now [symmetric] by (force simp: present_def image_iff)
qed

section \<open>The PC\<close>

type_synonym fingerprint = "string option list"

datatype FingerprintKind = MACHINE_ID | BOARD_SERIAL | BIOS_UUID | DISK_SERIAL | CPU_ID

definition FINGERPRINT_KINDS :: "FingerprintKind list" where
  "FINGERPRINT_KINDS = [MACHINE_ID, BOARD_SERIAL, BIOS_UUID, DISK_SERIAL, CPU_ID]"

definition FINGERPRINT_SIZE :: nat where
  "FINGERPRINT_SIZE = 5"

definition FINGERPRINT_MATCHES_NEEDED :: nat where
  "FINGERPRINT_MATCHES_NEEDED = 3"

fun fingerprint_kind_text :: "FingerprintKind \<Rightarrow> string" where
  "fingerprint_kind_text MACHINE_ID = ''MACHINE_ID''"
| "fingerprint_kind_text BOARD_SERIAL = ''BOARD_SERIAL''"
| "fingerprint_kind_text BIOS_UUID = ''BIOS_UUID''"
| "fingerprint_kind_text DISK_SERIAL = ''DISK_SERIAL''"
| "fingerprint_kind_text CPU_ID = ''CPU_ID''"

definition lower_char :: "char \<Rightarrow> char" where
  "lower_char c =
     (if is_upper_char c \<or> (192 \<le> code c \<and> code c \<le> 222 \<and> code c \<noteq> 215) then char_of (code c + 32) else c)"

text \<open>\<open>/^(0+|none|default string|to be filled by o\.e\.m\.?|unknown)$/\<close> or nothing: what identifies no PC.\<close>

definition identifies_nothing :: "string \<Rightarrow> bool" where
  "identifies_nothing value \<longleftrightarrow>
     list_all (\<lambda>c. c = CHR ''0'') value \<or>
     List.member [''none'', ''default string'', ''to be filled by o.e.m'', ''to be filled by o.e.m.'', ''unknown''] value"

definition fingerprintHash :: "(string \<Rightarrow> string) \<Rightarrow> string \<Rightarrow> FingerprintKind \<Rightarrow> string option \<Rightarrow> string option" where
  "fingerprintHash sha256 installationId kind raw =
     (let value = (case raw of None \<Rightarrow> [] | Some s \<Rightarrow> map lower_char (trim_ws s))
      in if identifies_nothing value then None
         else Some (sha256 (''rp-fingerprint:v1:'' @ installationId @ '':'' @ fingerprint_kind_text kind @ '':'' @ value)))"

definition fingerprintOf :: "(string \<Rightarrow> string) \<Rightarrow> string \<Rightarrow> (FingerprintKind \<Rightarrow> string option) \<Rightarrow> fingerprint" where
  "fingerprintOf sha256 installationId identifiers =
     map (\<lambda>kind. fingerprintHash sha256 installationId kind (identifiers kind)) FINGERPRINT_KINDS"

text \<open>\<open>xs[index]\<close> of a list of strings or nulls: a null and what is beyond the end match nothing.\<close>

definition entry_at :: "fingerprint \<Rightarrow> nat \<Rightarrow> string option" where
  "entry_at f i = (if i < length f then f ! i else None)"

definition fingerprintMatchCount :: "fingerprint \<Rightarrow> fingerprint \<Rightarrow> nat" where
  "fingerprintMatchCount licensed current =
     length (filter (\<lambda>i. entry_at licensed i \<noteq> None \<and> entry_at licensed i = entry_at current i) [0..<FINGERPRINT_SIZE])"

definition fingerprintKnown :: "fingerprint \<Rightarrow> bool" where
  "fingerprintKnown f \<longleftrightarrow> FINGERPRINT_MATCHES_NEEDED \<le> length (filter (\<lambda>e. e \<noteq> None) (take FINGERPRINT_SIZE f))"

definition isLicensedPc :: "fingerprint \<Rightarrow> fingerprint \<Rightarrow> bool" where
  "isLicensedPc licensed current \<longleftrightarrow> FINGERPRINT_MATCHES_NEEDED \<le> fingerprintMatchCount licensed current"

section \<open>The licence\<close>

datatype LicenceFileProblem = MISSING | UNKNOWN_KEY | TAMPERED | MALFORMED

datatype LicenceProblem = FILE_PROBLEM LicenceFileProblem | OTHER_INSTALLATION | OTHER_PC | EXPIRED | GRACE_OVER | VENDOR

record LicencePayload =
  lp_licenceId :: string
  lp_tenantId :: string
  lp_installationId :: string
  lp_fingerprint :: fingerprint
  lp_plan :: string
  lp_modules :: "string list"
  lp_deviceLimits :: "string \<Rightarrow> int option"
  lp_issuedAt :: int
  lp_validUntil :: int
  lp_graceDays :: int
  lp_state :: LicenseState
  lp_graceStartedAt :: "int option"
  lp_reason :: "string option"
  lp_reactivationCounter :: int

type_synonym VerifiedLicence = "LicenceFileProblem + LicencePayload"

record LicenceInput =
  li_file :: VerifiedLicence
  li_installationId :: string
  li_fingerprint :: fingerprint
  li_newestIssuedAt :: "int option"
  li_now :: int
  li_restrictionDecidedAt :: "int option"
  li_reactivatedUntil :: "int option"
  li_businessDay :: "BusinessDayConfig option"

record LicenceStatus =
  ls_recorded :: LicenseState
  ls_state :: LicenseState
  ls_problem :: "LicenceProblem option"
  ls_restrictedFrom :: "int option"
  ls_restrictionDecidedAt :: "int option"
  ls_validUntil :: "int option"
  ls_daysLeft :: "int option"
  ls_capabilities :: LicenseCapabilities
  ls_payload :: "LicencePayload option"

definition DAY_MS :: int where
  "DAY_MS = 24 * 60 * 60 * 1000"

text \<open>\<open>Math.ceil(ms / DAY_MS)\<close>.\<close>

definition ceil_days :: "int \<Rightarrow> int" where
  "ceil_days ms = - ((- ms) div DAY_MS)"

definition graceEndOf :: "LicencePayload \<Rightarrow> int option" where
  "graceEndOf payload = map_option (\<lambda>t. t + lp_graceDays payload * DAY_MS) (lp_graceStartedAt payload)"

definition isOlderLicence :: "LicencePayload \<Rightarrow> int option \<Rightarrow> bool" where
  "isOlderLicence payload newestIssuedAt = (case newestIssuedAt of None \<Rightarrow> False | Some t \<Rightarrow> lp_issuedAt payload < t)"

definition problemOf :: "LicenceInput \<Rightarrow> LicenceProblem option" where
  "problemOf input =
     (case li_file input of
        Inl problem \<Rightarrow> Some (FILE_PROBLEM problem)
      | Inr payload \<Rightarrow>
          if isOlderLicence payload (li_newestIssuedAt input) then Some (FILE_PROBLEM TAMPERED)
          else if lp_installationId payload \<noteq> li_installationId input then Some OTHER_INSTALLATION
          else if fingerprintKnown (li_fingerprint input) \<and> \<not> isLicensedPc (lp_fingerprint payload) (li_fingerprint input)
          then Some OTHER_PC
          else if li_now input > lp_validUntil payload then Some EXPIRED
          else if lp_state payload = GRACE \<and> (case graceEndOf payload of None \<Rightarrow> False | Some t \<Rightarrow> t \<le> li_now input)
          then Some GRACE_OVER
          else if lp_state payload = RESTRICTED \<or> lp_state payload = TERMINATED then Some VENDOR
          else None)"

definition payload_of :: "VerifiedLicence \<Rightarrow> LicencePayload option" where
  "payload_of f = (case f of Inl _ \<Rightarrow> None | Inr p \<Rightarrow> Some p)"

definition state_is :: "LicencePayload option \<Rightarrow> LicenseState \<Rightarrow> bool" where
  "state_is payload s \<longleftrightarrow> (case payload of None \<Rightarrow> False | Some p \<Rightarrow> lp_state p = s)"

definition reactivated :: "LicenceInput \<Rightarrow> bool" where
  "reactivated input =
     (case li_reactivatedUntil input of
        None \<Rightarrow> False
      | Some until \<Rightarrow> li_now input < until \<and>
          (problemOf input = Some EXPIRED \<or> problemOf input = Some GRACE_OVER \<or>
           (problemOf input = Some VENDOR \<and> state_is (payload_of (li_file input)) RESTRICTED)))"

definition recorded_state :: "LicenceInput \<Rightarrow> LicenceProblem option \<Rightarrow> LicenseState" where
  "recorded_state input problem =
     (if reactivated input then ACTIVE
      else case problem of
             None \<Rightarrow> (case payload_of (li_file input) of None \<Rightarrow> RESTRICTED | Some p \<Rightarrow> lp_state p)
           | Some p \<Rightarrow> if p = VENDOR \<and> state_is (payload_of (li_file input)) TERMINATED then TERMINATED else RESTRICTED)"

text \<open>The time a restriction applies from; an invalid \<open>Date\<close> compares as false and has no time.\<close>

definition evaluateLicence :: "zone_clock \<Rightarrow> LicenceInput \<Rightarrow> LicenceStatus result" where
  "evaluateLicence formatToParts input =
     (let payload = payload_of (li_file input);
          now = li_now input;
          problem = (if reactivated input then None else problemOf input);
          recorded = recorded_state input problem;
          validUntil = map_option lp_validUntil payload
      in if recorded = RESTRICTED \<or> recorded = TERMINATED
         then
           let decidedAt = (case li_restrictionDecidedAt input of None \<Rightarrow> now | Some t \<Rightarrow> t)
           in bindE (restrictionEffectiveAt formatToParts (Some decidedAt)
                (case li_businessDay input of None \<Rightarrow> DEFAULT_BUSINESS_DAY | Some c \<Rightarrow> c)) (\<lambda>effective.
              let applied = (case effective of None \<Rightarrow> False | Some from \<Rightarrow> from \<le> now);
                  state = (if applied then recorded else GRACE)
              in Inr \<lparr>ls_recorded = recorded, ls_state = state, ls_problem = problem, ls_restrictedFrom = effective,
                   ls_restrictionDecidedAt = Some decidedAt, ls_validUntil = validUntil,
                   ls_daysLeft = (if applied then Some 0
                     else map_option (\<lambda>from. max 1 (ceil_days (from - now))) effective),
                   ls_capabilities = licenseCapabilities state, ls_payload = payload\<rparr>)
         else
           let graceEnd = (case payload of None \<Rightarrow> None | Some p \<Rightarrow> graceEndOf p)
           in Inr \<lparr>ls_recorded = recorded, ls_state = recorded, ls_problem = None, ls_restrictedFrom = None,
                ls_restrictionDecidedAt = None, ls_validUntil = validUntil,
                ls_daysLeft = (if recorded = GRACE then map_option (\<lambda>t. max 0 (ceil_days (t - now))) graceEnd else None),
                ls_capabilities = licenseCapabilities recorded, ls_payload = payload\<rparr>)"

section \<open>What a licence allows\<close>

text \<open>The file is one the vendor signed for this installation and PC, and not an older one put back.\<close>

definition trusted :: "LicenceInput \<Rightarrow> LicencePayload \<Rightarrow> bool" where
  "trusted input payload \<longleftrightarrow>
     li_file input = Inr payload \<and> \<not> isOlderLicence payload (li_newestIssuedAt input) \<and>
     lp_installationId payload = li_installationId input \<and>
     (fingerprintKnown (li_fingerprint input) \<longrightarrow> isLicensedPc (lp_fingerprint payload) (li_fingerprint input))"

text \<open>It still runs: not past its day or its grace, and not restricted by the vendor.\<close>

definition running :: "int \<Rightarrow> LicencePayload \<Rightarrow> bool" where
  "running now payload \<longleftrightarrow>
     now \<le> lp_validUntil payload \<and>
     \<not> (lp_state payload = GRACE \<and> (case graceEndOf payload of None \<Rightarrow> False | Some t \<Rightarrow> t \<le> now)) \<and>
     lp_state payload \<noteq> RESTRICTED \<and> lp_state payload \<noteq> TERMINATED"

lemma problemOf_None: "problemOf input = None \<longleftrightarrow> (\<exists>payload. trusted input payload \<and> running (li_now input) payload)"
  by (auto simp: problemOf_def trusted_def running_def split: sum.split)

lemma reactivated_iff:
  "reactivated input \<longleftrightarrow> (\<exists>payload until. trusted input payload \<and> \<not> running (li_now input) payload \<and>
     li_reactivatedUntil input = Some until \<and> li_now input < until \<and>
     (lp_state payload = TERMINATED \<longrightarrow> li_now input > lp_validUntil payload))"
  by (auto simp: reactivated_def problemOf_def trusted_def running_def state_is_def payload_of_def split: sum.splits option.splits if_splits)

definition unrestricted :: "LicenseState \<Rightarrow> bool" where
  "unrestricted s \<longleftrightarrow> s \<noteq> RESTRICTED \<and> s \<noteq> TERMINATED"

text \<open>A reactivation code was accepted and its day has not come.\<close>

definition code_in_force :: "LicenceInput \<Rightarrow> bool" where
  "code_in_force input \<longleftrightarrow> (case li_reactivatedUntil input of None \<Rightarrow> False | Some until \<Rightarrow> li_now input < until)"

lemma recorded_trusted:
  assumes "trusted input p"
  shows "recorded_state input (if reactivated input then None else problemOf input) =
    (if running (li_now input) p then lp_state p
     else if lp_state p \<noteq> TERMINATED then (if code_in_force input then ACTIVE else RESTRICTED)
     else if li_now input \<le> lp_validUntil p then TERMINATED
     else if code_in_force input then ACTIVE else RESTRICTED)"
  using assms
  by (auto simp: recorded_state_def reactivated_def problemOf_def trusted_def running_def code_in_force_def state_is_def payload_of_def
      split: option.splits if_splits)

lemma recorded_untrusted: "\<nexists>p. trusted input p \<Longrightarrow> recorded_state input (if reactivated input then None else problemOf input) = RESTRICTED"
  by (auto simp: recorded_state_def reactivated_def problemOf_def trusted_def state_is_def payload_of_def
      split: sum.splits option.splits if_splits)

lemma unrestricted_recorded:
  assumes "unrestricted (recorded_state input (if reactivated input then None else problemOf input))"
  shows "\<exists>p. trusted input p \<and> (running (li_now input) p \<or> code_in_force input)"
proof (cases "\<exists>p. trusted input p")
  case True
  then obtain p where p: "trusted input p" by blast
  then show ?thesis using assms recorded_trusted [OF p] by (auto simp: unrestricted_def split: if_splits)
next
  case False
  then show ?thesis using assms recorded_untrusted [of input] by (auto simp: unrestricted_def)
qed


text \<open>
  The comment of \<open>evaluateLicence\<close> excepts a terminated contract from reactivation; but one whose file has also run out
  counts as run out, and a code makes it active again.
\<close>

definition ended_contract :: LicencePayload where
  "ended_contract =
     \<lparr>lp_licenceId = ''l'', lp_tenantId = ''t'', lp_installationId = ''i'', lp_fingerprint = [None, None, None, None, None],
      lp_plan = ''p'', lp_modules = [], lp_deviceLimits = \<lambda>_. None, lp_issuedAt = 0, lp_validUntil = 1000, lp_graceDays = 0,
      lp_state = TERMINATED, lp_graceStartedAt = None, lp_reason = None, lp_reactivationCounter = 0\<rparr>"

definition ended_input :: "int \<Rightarrow> LicenceInput" where
  "ended_input now =
     \<lparr>li_file = Inr ended_contract, li_installationId = ''i'', li_fingerprint = [], li_newestIssuedAt = None, li_now = now,
      li_restrictionDecidedAt = None, li_reactivatedUntil = Some 5000, li_businessDay = None\<rparr>"

lemma terminated_contract_reactivates:
  "map_option ls_recorded (case evaluateLicence clock (ended_input 2000) of Inl _ \<Rightarrow> None | Inr st \<Rightarrow> Some st) = Some ACTIVE"
  "problemOf (ended_input 500) = Some VENDOR" "\<not> reactivated (ended_input 500)"
  by (simp_all add: evaluateLicence_def ended_input_def ended_contract_def reactivated_def problemOf_def isOlderLicence_def
      fingerprintKnown_def FINGERPRINT_MATCHES_NEEDED_def recorded_state_def payload_of_def state_is_def Let_def)






end
