(* ===== verification/Reactivation.thy ===== *)
theory Reactivation
  imports Date_Rules "HOL-Library.Word"
begin

text \<open>
  \<open>packages/licensing/src/reactivation.ts\<close>: the code the vendor reads out over the phone when a restaurant
  without internet has paid. Ten bytes (a day, a counter and seven bytes of a keyed hash) are
  written in base 32 and read back with the slips of speech put right. The keyed hash (HMAC-SHA256 of Node's
  crypto library) is an argument. Buffers are lists of bytes, the bit operations those of 32-bit words.
\<close>

unbundle bit_operations_syntax

type_synonym byte = "8 word"
type_synonym 'k hmac = "'k \<Rightarrow> string \<Rightarrow> byte list"

definition REACTIVATION_MAX_DAYS :: int where
  "REACTIVATION_MAX_DAYS = 60"

definition ALPHABET :: string where
  "ALPHABET = ''0123456789ABCDEFGHJKMNPQRSTVWXYZ''"

definition EPOCH_DAY :: int where
  "EPOCH_DAY = utc_day 2026 0 1"

definition MAC_BYTES :: nat where
  "MAC_BYTES = 7"

datatype code_error = NOT_A_DATE | OUT_OF_RANGE | BAD_COUNTER

definition macOf :: "'k hmac \<Rightarrow> 'k \<Rightarrow> string \<Rightarrow> int \<Rightarrow> int \<Rightarrow> byte list" where
  "macOf hmac secret installationId day counter =
     take MAC_BYTES (hmac secret (''rp-reactivate:v1:'' @ installationId @ '':'' @ num_text day @ '':'' @ num_text counter))"

definition dayOf :: "string \<Rightarrow> code_error + int" where
  "dayOf date =
     (if ISO_DATE date
      then Inr (utc_day (dec_value (take 4 date)) (dec_value (take 2 (drop 5 date)) - 1) (dec_value (drop 8 date)) - EPOCH_DAY)
      else Inl NOT_A_DATE)"

definition dateOf :: "int \<Rightarrow> string" where
  "dateOf day = iso_of_day (EPOCH_DAY + day)"

section \<open>Base 32\<close>

text \<open>\<open>((value << n) | x) & 0xffff\<close> and \<open>(value >>> n) & mask\<close>.\<close>

definition shift_in :: "32 word \<Rightarrow> nat \<Rightarrow> 32 word \<Rightarrow> 32 word" where
  "shift_in v n x = (push_bit n v OR x) AND 0xFFFF"

definition shift_out :: "32 word \<Rightarrow> nat \<Rightarrow> 32 word \<Rightarrow> 32 word" where
  "shift_out v n m = drop_bit n v AND m"

text \<open>The inner loop of \<open>encode\<close>: a character while five bits are left.\<close>

fun emit :: "nat \<Rightarrow> 32 word \<Rightarrow> string \<times> nat" where
  "emit bits v =
     (if 5 \<le> bits
      then let (out, left) = emit (bits - 5) v in (ALPHABET ! unat (shift_out v (bits - 5) 31) # out, left)
      else ([], bits))"

declare emit.simps [simp del]

fun encode_from :: "nat \<Rightarrow> 32 word \<Rightarrow> byte list \<Rightarrow> string" where
  "encode_from bits v [] = []"
| "encode_from bits v (b # bs) =
     (let v' = shift_in v 8 (ucast b);
          (out, left) = emit (bits + 8) v'
      in out @ encode_from left v' bs)"

definition encode :: "byte list \<Rightarrow> string" where
  "encode bytes = encode_from 0 0 bytes"

fun index_of :: "'a \<Rightarrow> 'a list \<Rightarrow> nat option" where
  "index_of x [] = None"
| "index_of x (y # ys) = (if x = y then Some 0 else map_option Suc (index_of x ys))"

fun decode_from :: "nat \<Rightarrow> 32 word \<Rightarrow> string \<Rightarrow> byte list option" where
  "decode_from bits v [] = Some []"
| "decode_from bits v (c # cs) =
     (case index_of c ALPHABET of
        None \<Rightarrow> None
      | Some d \<Rightarrow>
          let v' = shift_in v 5 (of_nat d)
          in if 8 \<le> bits + 5
             then map_option (Cons (ucast (shift_out v' (bits + 5 - 8) 255))) (decode_from (bits + 5 - 8) v' cs)
             else decode_from (bits + 5) v' cs)"

definition decode :: "string \<Rightarrow> byte list option" where
  "decode text = decode_from 0 0 text"

section \<open>Codes\<close>

text \<open>\<open>text.match(/.{4}/g)\<close> joined by dashes.\<close>

fun fours :: "string \<Rightarrow> string list" where
  "fours (a # b # c # d # s) = [a, b, c, d] # fours s"
| "fours s = []"

fun dashed :: "string list \<Rightarrow> string" where
  "dashed [] = []"
| "dashed [s] = s"
| "dashed (s # t # ss) = s @ CHR ''-'' # dashed (t # ss)"

definition code_bytes :: "'k hmac \<Rightarrow> 'k \<Rightarrow> string \<Rightarrow> int \<Rightarrow> int \<Rightarrow> byte list" where
  "code_bytes hmac secret installationId day counter =
     [word_of_int (drop_bit 8 day), word_of_int (day AND 255), word_of_int counter] @ macOf hmac secret installationId day counter"

definition reactivationCode :: "'k hmac \<Rightarrow> 'k \<Rightarrow> string \<Rightarrow> string \<Rightarrow> int \<Rightarrow> code_error + string" where
  "reactivationCode hmac secret installationId validUntil counter =
     bindE (dayOf validUntil) (\<lambda>day.
     bindE (throw_if (day < 0 \<or> day > 65535) OUT_OF_RANGE) (\<lambda>_.
     bindE (throw_if (counter < 0 \<or> counter > 255) BAD_COUNTER) (\<lambda>_.
     Inr (dashed (fours (encode (code_bytes hmac secret installationId day counter)))))))"

text \<open>\<open>code.toUpperCase().replace(/[\s-]/g, '').replace(/O/g, '0').replace(/[IL]/g, '1')\<close>.\<close>

definition heard :: "string \<Rightarrow> string" where
  "heard spoken =
     map (\<lambda>c. if c = CHR ''I'' \<or> c = CHR ''L'' then CHR ''1'' else c)
       (map (\<lambda>c. if c = CHR ''O'' then CHR ''0'' else c)
         (filter (\<lambda>c. \<not> is_ws_char c \<and> c \<noteq> CHR ''-'') (toUpperCase spoken)))"

definition readReactivationCode :: "'k hmac \<Rightarrow> string \<Rightarrow> 'k \<Rightarrow> string \<Rightarrow> (string \<times> int) option" where
  "readReactivationCode hmac spoken secret installationId =
     (let text = heard spoken
      in if length text \<noteq> 16 then None
         else case decode text of
                None \<Rightarrow> None
              | Some bytes \<Rightarrow>
                  if length bytes \<noteq> 10 then None
                  else
                    let day = push_bit 8 (uint (bytes ! 0)) OR uint (bytes ! 1);
                        counter = uint (bytes ! 2);
                        expected = macOf hmac secret installationId day counter;
                        given = drop 3 bytes
                    in if expected \<noteq> given then None else Some (dateOf day, counter))"

section \<open>Base 32 keeps the number\<close>

definition of_digits :: "nat \<Rightarrow> nat \<Rightarrow> nat list \<Rightarrow> nat" where
  "of_digits base start ds = foldl (\<lambda>a d. a * base + d) start ds"

lemma of_digits_simps [simp]: "of_digits b s [] = s" "of_digits b s (d # ds) = of_digits b (s * b + d) ds"
  "of_digits b s (ds @ es) = of_digits b (of_digits b s ds) es"
  by (simp_all add: of_digits_def)

lemma of_digits_inj:
  assumes "length ds = length es" "\<forall>d \<in> set ds. d < b" "\<forall>e \<in> set es. e < b" "of_digits b s ds = of_digits b t es"
  shows "s = t \<and> ds = es"
  using assms
proof (induction ds es arbitrary: s t rule: list_induct2)
  case (Cons d ds e es)
  have "s * b + d = t * b + e \<and> ds = es"
    by (rule Cons.IH) (use Cons.prems in \<open>auto simp del: of_digits_simps(3)\<close>)
  then have h: "s * b + d = t * b + e" "ds = es" by blast+
  have d: "d < b" "e < b" using Cons.prems by simp_all
  then have div: "(s * b + d) div b = s" "(t * b + e) div b = t" and mod: "(s * b + d) mod b = d" "(t * b + e) mod b = e" by simp_all
  have "s = t" using div h(1) by argo
  moreover have "d = e" using mod h(1) by argo
  ultimately show ?case using h(2) by blast
qed simp

lemma shift_in_nat:
  assumes "unat v < 65536" "n \<le> 8" "unat x < 2 ^ n"
  shows "unat (shift_in v n x) = (unat v * 2 ^ n + unat x) mod 65536"
proof -
  have "(2::nat) ^ n \<le> 2 ^ 8" using assms(2) by (intro power_increasing) simp_all
  then have "unat v * 2 ^ n < 65536 * 256" using assms(1) by (intro mult_less_le_imp_less) simp_all
  then have push: "unat (push_bit n v) = push_bit n (unat v)"
    unfolding unsigned_push_bit_eq by (intro take_bit_nat_eq_self) (simp add: push_bit_eq_mult)
  have "unat x = take_bit n (unat x)" using assms(3) by (simp add: take_bit_nat_eq_self)
  then have "push_bit n (unat v) AND unat x = push_bit n (unat v) AND take_bit n (unat x)" by simp
  also have "\<dots> = 0" by (rule bit_eqI) (auto simp: bit_simps)
  finally have "push_bit n (unat v) OR unat x = unat v * 2 ^ n + unat x"
    by (simp add: disjunctive_add_eq_or [symmetric] push_bit_eq_mult)
  moreover have "unat (0xFFFF :: 32 word) = mask 16" by (simp add: mask_eq_exp_minus_1)
  ultimately show ?thesis
    unfolding shift_in_def unsigned_and_eq unsigned_or_eq push
    by (simp only: take_bit_eq_mask [symmetric]) (simp add: take_bit_eq_mod)
qed

lemma shift_out_nat: "unat (shift_out v n (mask k)) = unat v div 2 ^ n mod 2 ^ k"
  unfolding shift_out_def take_bit_eq_mask [symmetric] unsigned_take_bit_eq unat_drop_bit_eq
  by (simp only: take_bit_eq_mod drop_bit_eq_div)

lemma masks: "(31 :: 32 word) = mask 5" "(255 :: 32 word) = mask 8"
  by (simp_all add: mask_eq_exp_minus_1)

definition digit_of :: "char \<Rightarrow> nat" where
  "digit_of c = (case index_of c ALPHABET of None \<Rightarrow> 0 | Some d \<Rightarrow> d)"

lemma index_of_Some: "index_of x xs = Some i \<Longrightarrow> i < length xs \<and> xs ! i = x"
  by (induction xs arbitrary: i) (auto split: if_splits)

lemma index_of_nth: "distinct xs \<Longrightarrow> i < length xs \<Longrightarrow> index_of (xs ! i) xs = Some i"
proof (induction xs arbitrary: i)
  case (Cons x xs)
  then show ?case by (cases i) (auto simp: in_set_conv_nth)
qed simp

lemma alphabet: "length ALPHABET = 32" "distinct ALPHABET"
  by code_simp+

lemma alphabet_digit: "d < 32 \<Longrightarrow> index_of (ALPHABET ! d) ALPHABET = Some d" "d < 32 \<Longrightarrow> digit_of (ALPHABET ! d) = d"
  using index_of_nth [OF alphabet(2), of d] by (simp_all add: alphabet digit_of_def)

lemma low_bits: "(v :: nat) mod 2 ^ (n + k) = v div 2 ^ n mod 2 ^ k * 2 ^ n + v mod 2 ^ n"
  unfolding power_add mod_mult2_eq by simp

lemma emit_digits:
  "emit bits v = (out, left) \<Longrightarrow> left = bits mod 5 \<and> length out = bits div 5 \<and> list_all (\<lambda>c. index_of c ALPHABET \<noteq> None) out \<and>
     of_digits 32 a (map digit_of out) * 2 ^ left + unat v mod 2 ^ left = a * 2 ^ bits + unat v mod 2 ^ bits"
proof (induction bits v arbitrary: out left a rule: emit.induct)
  case (1 bits v)
  show ?case
  proof (cases "5 \<le> bits")
    case False
    then show ?thesis using "1.prems" by (subst (asm) emit.simps) auto
  next
    case True
    obtain out' left' where e: "emit (bits - 5) v = (out', left')" by fastforce
    let ?d = "unat v div 2 ^ (bits - 5) mod 32"
    have out: "out = ALPHABET ! ?d # out'" "left = left'"
      using "1.prems" True e by (subst (asm) emit.simps, simp add: masks shift_out_nat)+
    have IH: "left' = (bits - 5) mod 5" "length out' = (bits - 5) div 5" "list_all (\<lambda>c. index_of c ALPHABET \<noteq> None) out'"
      "of_digits 32 b (map digit_of out') * 2 ^ left' + unat v mod 2 ^ left' = b * 2 ^ (bits - 5) + unat v mod 2 ^ (bits - 5)" for b
      using "1.IH" [OF True e] by auto
    have "bits = (bits - 5) + 5" using True by simp
    then have "unat v mod 2 ^ bits = ?d * 2 ^ (bits - 5) + unat v mod 2 ^ (bits - 5)" "(2::nat) ^ bits = 2 ^ (bits - 5) * 32"
      using low_bits [of "unat v" "bits - 5" 5] power_add [of "2::nat" "bits - 5" 5] by simp_all
    then have "(a * 32 + ?d) * 2 ^ (bits - 5) + unat v mod 2 ^ (bits - 5) = a * 2 ^ bits + unat v mod 2 ^ bits"
      by (simp add: algebra_simps)
    then show ?thesis
      using IH True alphabet_digit [of ?d] by (simp add: out le_mod_geq le_div_geq)
  qed
qed

lemma shift_in_pending:
  assumes "unat v < 65536" "n \<le> 8" "unat x < 2 ^ n" "bits + n \<le> 16"
  shows "unat (shift_in v n x) < 65536" "unat (shift_in v n x) mod 2 ^ (bits + n) = (unat v mod 2 ^ bits) * 2 ^ n + unat x"
proof -
  note s = shift_in_nat [OF assms(1-3)]
  show "unat (shift_in v n x) < 65536" unfolding s by simp
  have d: "(2::nat) ^ (bits + n) dvd 65536" using le_imp_power_dvd [OF assms(4), of "2::nat"] by simp
  have "unat (shift_in v n x) mod 2 ^ (bits + n) = (unat v * 2 ^ n + unat x) mod 2 ^ (bits + n)"
    unfolding s using d by (simp add: mod_mod_cancel)
  also have "\<dots> = (unat v * 2 ^ n + unat x) div 2 ^ n mod 2 ^ bits * 2 ^ n + (unat v * 2 ^ n + unat x) mod 2 ^ n"
    using low_bits [of "unat v * 2 ^ n + unat x" n bits] by (simp add: add.commute)
  also have "\<dots> = (unat v mod 2 ^ bits) * 2 ^ n + unat x" using assms(3) by simp
  finally show "unat (shift_in v n x) mod 2 ^ (bits + n) = (unat v mod 2 ^ bits) * 2 ^ n + unat x" .
qed

lemma byte_less: "unat (b :: byte) < 256"
  using unsigned_less [of b] by simp

lemma unat_byte: "unat (ucast (b :: byte) :: 32 word) = unat b"
  using byte_less [of b] unfolding unsigned_ucast_eq by (intro take_bit_nat_eq_self) simp

lemma encode_digits:
  assumes "bits < 5" "unat v < 65536"
  shows "length (encode_from bits v bs) = (bits + 8 * length bs) div 5 \<and> list_all (\<lambda>c. index_of c ALPHABET \<noteq> None) (encode_from bits v bs) \<and>
    (\<exists>r < 2 ^ ((bits + 8 * length bs) mod 5). of_digits 32 a (map digit_of (encode_from bits v bs)) * 2 ^ ((bits + 8 * length bs) mod 5) + r =
       of_digits 256 (a * 2 ^ bits + unat v mod 2 ^ bits) (map unat bs))"
  using assms
proof (induction bits v bs arbitrary: a rule: encode_from.induct)
  case (1 bits v)
  then show ?case by (auto intro!: exI [of _ "unat v mod 2 ^ bits"])
next
  case (2 bits v b bs)
  let ?v = "shift_in v 8 (ucast b)"
  obtain out left where e: "emit (bits + 8) ?v = (out, left)" by fastforce
  have b: "unat (ucast b :: 32 word) = unat b" by (rule unat_byte)
  have p: "unat ?v < 65536" "unat ?v mod 2 ^ (bits + 8) = (unat v mod 2 ^ bits) * 2 ^ 8 + unat b"
    using shift_in_pending [of v 8 "ucast b" bits] 2(2,3) b byte_less [of b] by simp_all
  have o: "left = (bits + 8) mod 5" "length out = (bits + 8) div 5" "list_all (\<lambda>c. index_of c ALPHABET \<noteq> None) out"
    "of_digits 32 a (map digit_of out) * 2 ^ left + unat ?v mod 2 ^ left = a * 2 ^ (bits + 8) + unat ?v mod 2 ^ (bits + 8)" for a
    using emit_digits [OF e] by blast+
  have l: "left < 5" using o(1) by simp
  have start: "of_digits 32 a (map digit_of out) * 2 ^ left + unat ?v mod 2 ^ left = (a * 2 ^ bits + unat v mod 2 ^ bits) * 256 + unat b"
    using o(4) [of a] p(2) by (simp add: power_add algebra_simps)
  have "(left + 8 * length bs) mod 5 = (bits + 8 * length (b # bs)) mod 5" "(bits + 8 * length (b # bs)) div 5 = length out + (left + 8 * length bs) div 5"
  proof -
    have "(m + k) div 5 = m div 5 + (m mod 5 + k) div (5::nat)" for m k by presburger
    from this [of "bits + 8" "8 * length bs"] show "(bits + 8 * length (b # bs)) div 5 = length out + (left + 8 * length bs) div 5"
      using o(1,2) by (simp add: add.assoc)
    show "(left + 8 * length bs) mod 5 = (bits + 8 * length (b # bs)) mod 5" using o(1) by (simp add: mod_simps add.assoc)
  qed
  then show ?case
    using "2.IH" [OF refl e [symmetric] refl l p(1), of "of_digits 32 a (map digit_of out)"] o(3) e start by (simp add: Let_def)
qed

lemma ucast_out: "unat (ucast (shift_out v n 255) :: byte) = unat v div 2 ^ n mod 256"
proof -
  have "unat (shift_out v n 255) = unat v div 2 ^ n mod 256" using shift_out_nat [of v n 8] by (simp add: masks)
  moreover have "unat (ucast w :: byte) = unat w mod 256" for w :: "32 word"
    unfolding unsigned_ucast_eq by (simp add: take_bit_eq_mod)
  ultimately show ?thesis by simp
qed

lemma decode_digits:
  assumes "bits < 8" "unat v < 65536" "decode_from bits v cs = Some out"
  shows "length out = (bits + 5 * length cs) div 8 \<and>
    (\<exists>r < 2 ^ ((bits + 5 * length cs) mod 8). of_digits 256 a (map unat out) * 2 ^ ((bits + 5 * length cs) mod 8) + r =
       of_digits 32 (a * 2 ^ bits + unat v mod 2 ^ bits) (map digit_of cs))"
  using assms
proof (induction bits v cs arbitrary: a out rule: decode_from.induct)
  case (1 bits v)
  then show ?case by (auto intro!: exI [of _ "unat v mod 2 ^ bits"])
next
  case (2 bits v c cs)
  obtain d where d: "index_of c ALPHABET = Some d" using "2.prems"(3) by (auto split: option.splits)
  have d32: "d < 32" "digit_of c = d" using index_of_Some [OF d] alphabet(1) d by (simp_all add: digit_of_def)
  let ?v = "shift_in v 5 (of_nat d)"
  have ud: "unat (of_nat d :: 32 word) = d" using d32 by (simp add: unat_of_nat)
  have p: "unat ?v < 65536" "unat ?v mod 2 ^ (bits + 5) = (unat v mod 2 ^ bits) * 2 ^ 5 + d"
    using shift_in_pending [of v 5 "of_nat d" bits] "2.prems"(1,2) ud d32 by simp_all
  show ?case
  proof (cases "8 \<le> bits + 5")
    case True
    let ?b = "ucast (shift_out ?v (bits + 5 - 8) 255) :: byte"
    obtain out' where o: "out = ?b # out'" "decode_from (bits + 5 - 8) ?v cs = Some out'"
      using "2.prems"(3) d True by (auto simp: Let_def)
    have bits: "bits + 5 - 8 < 8" "(bits + 5 - 8) + 8 = bits + 5" using "2.prems"(1) True by simp_all
    have "unat ?v mod 2 ^ ((bits + 5 - 8) + 8) = unat ?b * 2 ^ (bits + 5 - 8) + unat ?v mod 2 ^ (bits + 5 - 8)"
      unfolding low_bits [of "unat ?v" "bits + 5 - 8" 8] ucast_out by simp
    then have "unat ?v mod 2 ^ (bits + 5) = unat ?b * 2 ^ (bits + 5 - 8) + unat ?v mod 2 ^ (bits + 5 - 8)"
      unfolding bits(2) .
    then have start: "(a * 256 + unat ?b) * 2 ^ (bits + 5 - 8) + unat ?v mod 2 ^ (bits + 5 - 8) =
        (a * 2 ^ bits + unat v mod 2 ^ bits) * 32 + d"
      using p(2) power_add [of "2::nat" "bits + 5 - 8" 8] power_add [of "2::nat" bits 5] bits(2) by (simp add: algebra_simps)
    have "(bits + 5 * length (c # cs)) mod 8 = (bits + 5 - 8 + 5 * length cs) mod 8"
      "(bits + 5 * length (c # cs)) div 8 = Suc ((bits + 5 - 8 + 5 * length cs) div 8)"
      using bits(2) True by (simp_all add: le_mod_geq le_div_geq)
    then show ?thesis
      using "2.IH"(1) [OF d refl True bits(1) p(1) o(2), of "a * 256 + unat ?b"] start d32 by (simp add: o(1))
  next
    case False
    then have dec: "decode_from (bits + 5) ?v cs = Some out" using "2.prems"(3) d by (auto simp: Let_def)
    have "a * 2 ^ (bits + 5) + unat ?v mod 2 ^ (bits + 5) = (a * 2 ^ bits + unat v mod 2 ^ bits) * 32 + d"
      using p(2) power_add [of "2::nat" bits 5] by (simp add: algebra_simps)
    then show ?thesis
      using "2.IH"(2) [OF d refl False _ p(1) dec, of a] False d32 by (simp add: algebra_simps)
  qed
qed

lemma decode_all: "list_all (\<lambda>c. index_of c ALPHABET \<noteq> None) cs \<longleftrightarrow> decode_from bits v cs \<noteq> None"
  by (induction bits v cs rule: decode_from.induct) (auto simp: Let_def split: option.splits)

text \<open>Ten bytes and sixteen characters determine each other.\<close>

lemma decode_iff_encode:
  assumes "length bs = 10" "length cs = 16"
  shows "decode cs = Some bs \<longleftrightarrow> encode bs = cs"
proof -
  have enc: "length (encode bs) = 16" "list_all (\<lambda>c. index_of c ALPHABET \<noteq> None) (encode bs)"
    "of_digits 32 0 (map digit_of (encode bs)) = of_digits 256 0 (map unat bs)"
    using encode_digits [of 0 0 bs 0] assms(1) by (simp_all add: encode_def)
  have dec: "length out = 10 \<and> of_digits 256 0 (map unat out) = of_digits 32 0 (map digit_of s)"
    if "decode s = Some out" "length s = 16" for s out
    using decode_digits [of 0 0 s out 0] that by (simp add: decode_def)
  have bytes: "x = y" if "length x = 10" "length y = 10" "of_digits 256 0 (map unat x) = of_digits 256 0 (map unat y)" for x y :: "byte list"
  proof -
    have "map unat x = map unat y" using of_digits_inj [of "map unat x" "map unat y" 256 0 0] that byte_less by auto
    then show ?thesis by (rule map_injective) (simp add: inj_def word_unat_eq_iff)
  qed
  obtain out where out: "decode (encode bs) = Some out" using enc(2) decode_all [of "encode bs" 0 0] by (auto simp: decode_def)
  then have round: "decode (encode bs) = Some bs" using dec [OF out enc(1)] enc(3) bytes [of out bs] assms(1) by simp
  show ?thesis
  proof
    assume d: "decode cs = Some bs"
    then have all: "list_all (\<lambda>c. index_of c ALPHABET \<noteq> None) cs" using decode_all [of cs 0 0] by (simp add: decode_def)
    have "of_digits 32 0 (map digit_of (encode bs)) = of_digits 32 0 (map digit_of cs)"
      using dec [OF d assms(2)] enc(3) by simp
    moreover have small: "digit_of c < 32 \<and> ALPHABET ! digit_of c = c" if "index_of c ALPHABET \<noteq> None" for c
      using that index_of_Some [of c ALPHABET] alphabet(1) by (auto simp: digit_of_def)
    ultimately have "map digit_of (encode bs) = map digit_of cs"
      using of_digits_inj [of "map digit_of (encode bs)" "map digit_of cs" 32 0 0] enc(1,2) all assms(2) by (auto simp: list_all_iff)
    then have "map (\<lambda>c. ALPHABET ! digit_of c) (encode bs) = map (\<lambda>c. ALPHABET ! digit_of c) cs"
      by (metis (no_types, lifting) map_map comp_apply map_eq_conv)
    then show "encode bs = cs" using small enc(2) all by (simp add: list_all_iff map_idI cong: map_cong)
  qed (use round in blast)
qed

section \<open>What is read is what was said\<close>

lemma heard_append: "heard (s @ t) = heard s @ heard t"
  by (simp add: heard_def toUpperCase_def)

lemma heard_alphabet: "list_all (\<lambda>c. index_of c ALPHABET \<noteq> None) s \<Longrightarrow> heard s = s"
proof (induction s)
  case (Cons c s)
  have "list_all (\<lambda>c. heard [c] = [c]) ALPHABET" by code_simp
  moreover have "c \<in> set ALPHABET" using Cons.prems index_of_Some [of c ALPHABET] by (auto simp: in_set_conv_nth)
  ultimately have "heard [c] = [c]" by (simp add: list_all_iff)
  then show ?case using Cons heard_append [of "[c]" s] by simp
qed (simp add: heard_def toUpperCase_def)

lemma heard_dashed: "heard (dashed ss) = concat (map heard ss)"
proof (induction ss rule: dashed.induct)
  case (3 s t ss)
  have "heard ''-'' = []" by code_simp
  then show ?case using 3 heard_append [of s "CHR ''-'' # dashed (t # ss)"] heard_append [of "''-''" "dashed (t # ss)"] by simp
qed (simp_all add: heard_def toUpperCase_def)

lemma concat_fours: "length s mod 4 = 0 \<Longrightarrow> concat (fours s) = s"
  by (induction s rule: fours.induct) auto

lemma heard_code:
  assumes "length s mod 4 = 0" "list_all (\<lambda>c. index_of c ALPHABET \<noteq> None) s"
  shows "heard (dashed (fours s)) = s"
proof -
  have "list_all (\<lambda>w. heard w = w) (fours s)"
    using assms(2) by (induction s rule: fours.induct) (auto intro!: heard_alphabet)
  then have "map heard (fours s) = fours s" by (simp add: list_all_iff map_idI)
  then show ?thesis using heard_dashed [of "fours s"] concat_fours [OF assms(1)] by simp
qed

lemma dayOf_valid: "valid_date date \<Longrightarrow> dayOf date = Inr (date_day date - EPOCH_DAY)"
proof -
  assume "valid_date date"
  then obtain y m d where v: "valid_ymd y m d" "parseIsoDate date = Inr (y, m, d)" "date_day date = day_number y m d"
    by (rule valid_dateE)
  then have "dayOf date = Inr (utc_day y (m - 1) d - EPOCH_DAY)"
    by (auto simp: dayOf_def parseIsoDate_def Let_def split: if_splits)
  then show ?thesis using v utc_day_number [of m y d] valid_ymd_bounds [OF v(1)] by simp
qed

lemma dateOf_valid:
  assumes "0 \<le> day" "day \<le> 65535"
  shows "valid_date (dateOf day)" "dayOf (dateOf day) = Inr day"
proof -
  have e: "EPOCH_DAY = 20454" by code_simp
  have r: "FIRST_DAY \<le> EPOCH_DAY + day" "EPOCH_DAY + day \<le> LAST_DAY" using assms by (simp_all add: e FIRST_DAY_def LAST_DAY_def)
  show v: "valid_date (dateOf day)" using iso_of_day_valid(3) [OF r] by (simp add: dateOf_def)
  show "dayOf (dateOf day) = Inr day" using dayOf_valid [OF v] iso_of_day_valid(4) [OF r] by (simp add: dateOf_def)
qed

lemma two_bytes: "push_bit 8 (uint (a :: byte)) OR uint (b :: byte) = uint a * 256 + uint b"
proof -
  have b: "0 \<le> uint b" "uint b < 2 ^ 8" using uint_lt2p [of b] by simp_all
  then have "uint b = take_bit 8 (uint b)" by (simp add: take_bit_eq_mod)
  then have "push_bit 8 (uint a) AND uint b = push_bit 8 (uint a) AND take_bit 8 (uint b)" by simp
  also have "\<dots> = 0" by (rule bit_eqI) (auto simp: bit_simps)
  finally show ?thesis by (simp add: disjunctive_add_eq_or [symmetric] push_bit_eq_mult)
qed

lemma and_255: "(n :: int) AND 255 = n mod 256"
proof -
  have "n AND 255 = take_bit 8 n" by (simp add: take_bit_eq_mask mask_eq_exp_minus_1)
  then show ?thesis by (simp add: take_bit_eq_mod)
qed

lemma bytes_of_day:
  assumes "0 \<le> day" "day \<le> 65535"
  shows "uint (word_of_int (drop_bit 8 day) :: byte) * 256 + uint (word_of_int (day AND 255) :: byte) = day"
proof -
  have low: "day AND 255 = day mod 256" by (rule and_255)
  have "drop_bit 8 day = day div 256" by (simp add: drop_bit_eq_div)
  moreover have "day div 256 < 256" using assms by presburger
  ultimately show ?thesis using assms low by (simp add: uint_word_of_int pos_imp_zdiv_nonneg_iff)
qed

text \<open>
  C22: a code is accepted exactly when the vendor made it. When the keyed hash gives at least seven bytes, what is read from
  spoken words is a date and a counter exactly when the vendor's code for this installation, that real
  date and that counter reads the same letters and digits, however it is spaced, cased or misheard.
\<close>

theorem reactivation_codes_exact:
  assumes "\<And>message. MAC_BYTES \<le> length (hmac secret message)"
  shows "readReactivationCode hmac spoken secret installationId = Some (date, counter) \<longleftrightarrow>
    valid_date date \<and> (\<exists>code. reactivationCode hmac secret installationId date counter = Inr code \<and> heard spoken = heard code)"
proof -
  let ?mac = "macOf hmac secret installationId" and ?bytes = "code_bytes hmac secret installationId"
  have mac: "length (?mac day c) = 7" for day c using assms by (simp add: macOf_def MAC_BYTES_def)
  then have len: "length (?bytes day c) = 10" for day c by (simp add: code_bytes_def)
  have enc: "length (encode bs) = 16" "list_all (\<lambda>c. index_of c ALPHABET \<noteq> None) (encode bs)" if "length bs = 10" for bs
    using encode_digits [of 0 0 bs 0] that by (simp_all add: encode_def)
  show ?thesis
  proof
    assume "readReactivationCode hmac spoken secret installationId = Some (date, counter)"
    then obtain bytes where b: "length (heard spoken) = 16" "decode (heard spoken) = Some bytes" "length bytes = 10"
      "drop 3 bytes = ?mac (uint (bytes ! 0) * 256 + uint (bytes ! 1)) (uint (bytes ! 2))"
      "date = dateOf (uint (bytes ! 0) * 256 + uint (bytes ! 1))" "counter = uint (bytes ! 2)"
      by (auto simp: readReactivationCode_def Let_def two_bytes split: if_splits option.splits)
    let ?day = "uint (bytes ! 0) * 256 + uint (bytes ! 1)"
    have small: "0 \<le> uint x" "uint x \<le> 255" for x :: byte using uint_lt2p [of x] by simp_all
    have day: "0 \<le> ?day" "?day \<le> 65535" using small [of "bytes ! 0"] small [of "bytes ! 1"] by simp_all
    obtain b0 b1 b2 rest where split: "bytes = b0 # b1 # b2 # rest"
      using b(3) by (auto simp: numeral_eq_Suc length_Suc_conv)
    have "drop_bit 8 ?day = uint b0" "?day AND 255 = uint b1"
      using small [of b1] by (simp_all add: split drop_bit_eq_div and_255)
    then have "?bytes ?day counter = bytes" using b(4,6) by (simp add: code_bytes_def split)
    then have e: "encode (?bytes ?day counter) = heard spoken" using decode_iff_encode [of bytes "heard spoken"] b by simp
    then show "valid_date date \<and> (\<exists>code. reactivationCode hmac secret installationId date counter = Inr code \<and> heard spoken = heard code)"
    proof (intro conjI exI)
      show "valid_date date" using dateOf_valid(1) [OF day] b(5) by simp
      have "\<not> (?day < 0 \<or> ?day > 65535)" "\<not> (counter < 0 \<or> counter > 255)"
        using day small [of "bytes ! 2"] b(6) by linarith+
      then show "reactivationCode hmac secret installationId date counter = Inr (dashed (fours (heard spoken)))"
        unfolding reactivationCode_def b(5) dateOf_valid(2) [OF day] bindE.simps throw_if_def if_False e by simp
      show "heard spoken = heard (dashed (fours (heard spoken)))"
        using enc [OF len, of ?day counter] heard_code [of "heard spoken"] unfolding e by simp
    qed
  next
    assume r: "valid_date date \<and> (\<exists>code. reactivationCode hmac secret installationId date counter = Inr code \<and> heard spoken = heard code)"
    then obtain day where day: "dayOf date = Inr day" "0 \<le> day" "day \<le> 65535" "0 \<le> counter" "counter \<le> 255"
      "heard spoken = heard (dashed (fours (encode (?bytes day counter))))"
      by (auto simp: reactivationCode_def bindE_Inr_iff throw_if_Inr_iff not_less)
    have date: "date = dateOf day"
      using r day(1) dayOf_valid [of date] valid_date_range(3) [of date] by (auto simp: dateOf_def)
    have t: "heard spoken = encode (?bytes day counter)"
      using day(6) heard_code [of "encode (?bytes day counter)"] enc [OF len] by simp
    then have "decode (heard spoken) = Some (?bytes day counter)" using decode_iff_encode [OF len, of "heard spoken"] enc(1) [OF len] by simp
    then show "readReactivationCode hmac spoken secret installationId = Some (date, counter)"
      using t enc(1) [OF len] len day bytes_of_day [OF day(2,3)]
      by (simp add: readReactivationCode_def Let_def two_bytes date) (simp add: code_bytes_def uint_word_of_int)
  qed
qed

theorem reactivation_codes_exact_witness:
  "\<exists>code. reactivationCode (\<lambda>secret message. [1, 2, 3, 4, 5, 6, 250]) () ''inst'' ''2026-04-30'' 3 = Inr code \<and>
     readReactivationCode (\<lambda>secret message. [1, 2, 3, 4, 5, 6, 250]) code () ''inst'' = Some (''2026-04-30'', 3)"
proof -
  let ?h = "\<lambda>(secret :: unit) (message :: string). [1, 2, 3, 4, 5, 6, 250 :: byte]"
  have l: "MAC_BYTES \<le> length (?h () m)" for m by (simp add: MAC_BYTES_def)
  have v: "valid_date ''2026-04-30''" by code_simp
  have "dayOf ''2026-04-30'' = Inr 119" by code_simp
  then obtain code where c: "reactivationCode ?h () ''inst'' ''2026-04-30'' 3 = Inr code" by (simp add: reactivationCode_def)
  then show ?thesis using reactivation_codes_exact [of ?h "()" code "''inst''" "''2026-04-30''" 3, OF l] v by blast
qed

end
