(* ===== verification/Licence_Agent.thy ===== *)
theory Licence_Agent
  imports Licence_Check Reactivation
begin

text \<open>
  \<open>apps/server/src/licensing/licence-agent.service.ts\<close>: the agent that keeps the licence file, judges it and
  takes reactivation codes. Its record is sealed in the database: it is there, absent, or something that does
  not open. What a check reads from outside (clocks, the PC's fingerprint, the enrolment, the restaurant's business day, the
  server's files) is an argument; verifying the signature of a file is done before. Sending events to
  screens and the audit trail is left out. The code queues its checks, so a check runs alone; trying a code and taking a heartbeat's answer
  are not queued and read the record before they write it. They are modelled as undisturbed, one request after the other; what
  two overlapping tries of a code can do is shown at the end.
\<close>

datatype TamperKind = CLOCK_ROLLBACK | CLOCK_SKEW | LICENCE_TAMPERED | RECORD_TAMPERED | OTHER_PC_SEEN | CODE_MODIFIED

record TamperEvent =
  te_kind :: TamperKind
  te_at :: int

record Reactivation =
  rx_validUntil :: string
  rx_until :: int

record LastCode =
  lk_counter :: int
  lk_validUntil :: string
  lk_delivered :: bool

record LicenceRecord =
  lr_lastSeenAt :: int
  lr_clockAt :: "int option"
  lr_newestIssuedAt :: "int option"
  lr_restrictionDecidedAt :: "int option"
  lr_reactivation :: "Reactivation option"
  lr_lastCounter :: int
  lr_lastCode :: "LastCode option"
  lr_attempts :: "int list"
  lr_tamper :: "TamperEvent list"
  lr_reported :: "(TamperKind \<times> int) list"

datatype SealedRecord = No_Record | Broken_Record | Sealed LicenceRecord

record Mark =
  mk_lastSeenAt :: int
  mk_at :: int

record 'k LicenceAgent =
  la_file :: "VerifiedLicence option"
  la_record :: SealedRecord
  la_secret :: "'k option"
  la_mark :: "Mark option"
  la_status :: "LicenceStatus option"

text \<open>What a check reads from outside.\<close>

record Surroundings =
  su_clock :: int
  su_monotonicMs :: int
  su_installationId :: "string option"
  su_fingerprint :: fingerprint
  su_businessDay :: BusinessDayConfig
  su_filesModified :: bool

definition ATTEMPTS_PER_HOUR :: nat where
  "ATTEMPTS_PER_HOUR = 5"

definition HOUR_MS :: int where
  "HOUR_MS = 60 * 60 * 1000"

text \<open>\<open>readRecord\<close>: the record and whether it was tampered with.\<close>

definition readRecord :: "'k LicenceAgent \<Rightarrow> LicenceRecord option \<times> bool" where
  "readRecord agent =
     (case la_record agent of
        No_Record \<Rightarrow> (None, la_file agent \<noteq> None)
      | Broken_Record \<Rightarrow> (None, True)
      | Sealed record \<Rightarrow> (Some record, False))"

text \<open>\<open>update\<close>: \<open>wall\<close> is the PC's clock when there is no record to start from.\<close>

definition update_record :: "int \<Rightarrow> (LicenceRecord \<Rightarrow> LicenceRecord) \<Rightarrow> bool \<Rightarrow> 'k LicenceAgent \<Rightarrow> 'k LicenceAgent" where
  "update_record wall change tampered agent =
     (let base = (case fst (readRecord agent) of
            Some r \<Rightarrow> r
          | None \<Rightarrow> \<lparr>lr_lastSeenAt = wall, lr_clockAt = None, lr_newestIssuedAt = None,
              lr_restrictionDecidedAt = (if tampered then Some 0 else None), lr_reactivation = None, lr_lastCounter = 0,
              lr_lastCode = None, lr_attempts = [], lr_tamper = [], lr_reported = []\<rparr>)
      in agent\<lparr>la_record := Sealed (change base)\<rparr>)"

definition last_20 :: "'a list \<Rightarrow> 'a list" where
  "last_20 xs = drop (length xs - 20) xs"

section \<open>A check\<close>

definition file_of :: "'k LicenceAgent \<Rightarrow> VerifiedLicence" where
  "file_of agent = (case la_file agent of None \<Rightarrow> Inl MISSING | Some f \<Rightarrow> f)"

definition clock_reading :: "Surroundings \<Rightarrow> 'k LicenceAgent \<Rightarrow> ClockReading" where
  "clock_reading su agent =
     (let record = fst (readRecord agent);
          issuedAt = map_option lp_issuedAt (payload_of (file_of agent));
          newestIssuedAt = (case record of None \<Rightarrow> None | Some r \<Rightarrow> lr_newestIssuedAt r)
      in \<lparr>cr_clock = su_clock su,
          cr_last = map_option (\<lambda>r. \<lparr>cm_judged = lr_lastSeenAt r,
            cm_clock = (case lr_clockAt r of None \<Rightarrow> lr_lastSeenAt r | Some t \<Rightarrow> t)\<rparr>) record,
          cr_elapsedMs = (case (record, la_mark agent) of
             (Some r, Some mark) \<Rightarrow> if mk_lastSeenAt mark = lr_lastSeenAt r then Some (su_monotonicMs su - mk_at mark) else None
           | _ \<Rightarrow> None),
          cr_floors = [issuedAt, newestIssuedAt]\<rparr>)"

definition licence_input :: "Surroundings \<Rightarrow> int \<Rightarrow> 'k LicenceAgent \<Rightarrow> LicenceInput" where
  "licence_input su now agent =
     (let (record, tampered) = readRecord agent
      in \<lparr>li_file = file_of agent,
          li_installationId = (case su_installationId su of None \<Rightarrow> [] | Some i \<Rightarrow> i),
          li_fingerprint = su_fingerprint su,
          li_newestIssuedAt = (case record of None \<Rightarrow> None | Some r \<Rightarrow> lr_newestIssuedAt r),
          li_now = now,
          li_restrictionDecidedAt = (if tampered then Some 0 else case record of None \<Rightarrow> None | Some r \<Rightarrow> lr_restrictionDecidedAt r),
          li_reactivatedUntil = (case record of None \<Rightarrow> None | Some r \<Rightarrow> map_option rx_until (lr_reactivation r)),
          li_businessDay = Some (su_businessDay su)\<rparr>)"

definition is_older_file :: "'k LicenceAgent \<Rightarrow> bool" where
  "is_older_file agent =
     (case payload_of (file_of agent) of
        None \<Rightarrow> False
      | Some payload \<Rightarrow> isOlderLicence payload (case fst (readRecord agent) of None \<Rightarrow> None | Some r \<Rightarrow> lr_newestIssuedAt r))"

definition tamper_events :: "Surroundings \<Rightarrow> int \<Rightarrow> bool \<Rightarrow> LicenceStatus \<Rightarrow> 'k LicenceAgent \<Rightarrow> TamperEvent list" where
  "tamper_events su now rolledBack status agent =
     map (\<lambda>kind. \<lparr>te_kind = kind, te_at = now\<rparr>)
       ((if rolledBack then [CLOCK_ROLLBACK] else []) @
        (if snd (readRecord agent) then [RECORD_TAMPERED] else []) @
        (if (la_file agent \<noteq> None \<and> isl (file_of agent)) \<or> is_older_file agent then [LICENCE_TAMPERED] else []) @
        (if ls_problem status = Some OTHER_PC then [OTHER_PC_SEEN] else []) @
        (if su_filesModified su then [CODE_MODIFIED] else []))"

text \<open>The same kind is reported once a day.\<close>

definition not_reported :: "int \<Rightarrow> LicenceRecord \<Rightarrow> TamperEvent \<Rightarrow> bool" where
  "not_reported now current event \<longleftrightarrow>
     (let times = map te_at (filter (\<lambda>known. te_kind known = te_kind event) (lr_tamper current)) @
            (case map_of (lr_reported current) (te_kind event) of None \<Rightarrow> [] | Some t \<Rightarrow> [t])
      in \<not> list_ex (\<lambda>t. \<bar>now - t\<bar> < DAY_MS) times)"

definition checked_record :: "Surroundings \<Rightarrow> int \<Rightarrow> LicenceStatus \<Rightarrow> TamperEvent list \<Rightarrow> 'k LicenceAgent \<Rightarrow> LicenceRecord \<Rightarrow> LicenceRecord" where
  "checked_record su now status events agent current =
     (let newestIssuedAt = (case fst (readRecord agent) of None \<Rightarrow> None | Some r \<Rightarrow> lr_newestIssuedAt r);
          issuedAt = map_option lp_issuedAt (payload_of (file_of agent))
      in current
         \<lparr>lr_lastSeenAt := now,
          lr_clockAt := Some (su_clock su),
          lr_newestIssuedAt :=
            (case issuedAt of
               Some issued \<Rightarrow> if \<not> is_older_file agent \<and> (case newestIssuedAt of None \<Rightarrow> True | Some t \<Rightarrow> issued > t) then Some issued
                 else lr_newestIssuedAt current
             | None \<Rightarrow> lr_newestIssuedAt current),
          lr_restrictionDecidedAt := ls_restrictionDecidedAt status,
          lr_reactivation :=
            (case lr_reactivation current of Some r \<Rightarrow> if rx_until r > now then Some r else None | None \<Rightarrow> None),
          lr_tamper := last_20 (lr_tamper current @ filter (not_reported now current) events)\<rparr>)"

definition evaluate :: "zone_clock \<Rightarrow> Surroundings \<Rightarrow> 'k LicenceAgent \<Rightarrow> (LicenceStatus \<times> 'k LicenceAgent) result" where
  "evaluate formatToParts su agent =
     (let (now, rolledBack) = guardedNow (clock_reading su agent)
      in bindE (evaluateLicence formatToParts (licence_input su now agent)) (\<lambda>status.
         let events = tamper_events su now rolledBack status agent;
             agent' = update_record (su_clock su) (checked_record su now status events agent) (snd (readRecord agent)) agent
         in Inr (status, agent'\<lparr>la_mark := Some \<lparr>mk_lastSeenAt = now, mk_at = su_monotonicMs su\<rparr>, la_status := Some status\<rparr>)))"

section \<open>A reactivation code\<close>

datatype reactivate_error = TOO_MANY_ATTEMPTS | REACTIVATION_UNAVAILABLE | REACTIVATION_CODE_INVALID
  | REACTIVATION_CODE_USED | REACTIVATION_CODE_EXPIRED | AGENT_DOMAIN error_code

definition lastReactivationDay :: "int \<Rightarrow> int \<Rightarrow> string" where
  "lastReactivationDay now slackDays = iso_of_day ((now + (REACTIVATION_MAX_DAYS + slackDays) * DAY_MS) div DAY_MS)"

definition agent_domain :: "'a result \<Rightarrow> reactivate_error + 'a" where
  "agent_domain r = (case r of Inl e \<Rightarrow> Inl (AGENT_DOMAIN e) | Inr x \<Rightarrow> Inr x)"

text \<open>The tries of the last hour.\<close>

definition recent_attempts :: "int \<Rightarrow> LicenceRecord option \<Rightarrow> int list" where
  "recent_attempts now record = (case record of None \<Rightarrow> [] | Some r \<Rightarrow> filter (\<lambda>at. now - at < HOUR_MS) (lr_attempts r))"

text \<open>
  What is decided about a code that reads, given the record before the try and the status: the day it ends, or why it is refused.
\<close>

definition judge_code ::
  "zone_clock \<Rightarrow> Surroundings \<Rightarrow> LicenceRecord option \<Rightarrow> LicenceStatus \<Rightarrow> string \<Rightarrow> int \<Rightarrow> reactivate_error + int" where
  "judge_code formatToParts su record status validUntil counter =
     (let now = su_clock su;
          lastCounter = (case record of None \<Rightarrow> 0 | Some r \<Rightarrow> lr_lastCounter r);
          licenceCounter = (case ls_payload status of None \<Rightarrow> 0 | Some p \<Rightarrow> lp_reactivationCounter p);
          judged = max now (case record of None \<Rightarrow> 0 | Some r \<Rightarrow> lr_lastSeenAt r)
      in if counter \<le> max lastCounter licenceCounter then Inl REACTIVATION_CODE_USED
         else if js_less (lastReactivationDay judged 1) validUntil then Inl REACTIVATION_CODE_INVALID
         else
           bindE (agent_domain (addDays validUntil 1)) (\<lambda>after.
           bindE (agent_domain (businessDayStart formatToParts after (su_businessDay su))) (\<lambda>start.
           case start of
             None \<Rightarrow> Inl (AGENT_DOMAIN INVALID_DATE)
           | Some until \<Rightarrow> if until \<le> now then Inl REACTIVATION_CODE_EXPIRED else Inr until)))"

definition taken_code :: "string \<Rightarrow> int \<Rightarrow> int \<Rightarrow> LicenceRecord \<Rightarrow> LicenceRecord" where
  "taken_code validUntil counter until current =
     current\<lparr>lr_lastCounter := counter, lr_reactivation := Some \<lparr>rx_validUntil = validUntil, rx_until = until\<rparr>,
       lr_restrictionDecidedAt := None,
       lr_lastCode := Some \<lparr>lk_counter = counter, lk_validUntil = validUntil, lk_delivered = False\<rparr>\<rparr>"

text \<open>\<open>this.status ?? (await this.refresh(now))\<close>.\<close>

definition status_now :: "zone_clock \<Rightarrow> Surroundings \<Rightarrow> 'k LicenceAgent \<Rightarrow> (LicenceStatus \<times> 'k LicenceAgent) result" where
  "status_now formatToParts su agent =
     (case la_status agent of Some status \<Rightarrow> Inr (status, agent) | None \<Rightarrow> evaluate formatToParts su agent)"

text \<open>The counter of the code that was taken, or the error; a try counts even when it fails.\<close>

definition reactivate ::
  "'k hmac \<Rightarrow> zone_clock \<Rightarrow> Surroundings \<Rightarrow> string \<Rightarrow> 'k LicenceAgent \<Rightarrow> (reactivate_error + int) \<times> 'k LicenceAgent" where
  "reactivate hmac formatToParts su spoken agent =
     (let now = su_clock su;
          record = fst (readRecord agent);
          recent = recent_attempts now record
      in if ATTEMPTS_PER_HOUR \<le> length recent then (Inl TOO_MANY_ATTEMPTS, agent)
         else
           let agent = update_record now (\<lambda>current. current\<lparr>lr_attempts := recent @ [now]\<rparr>) False agent
           in case (su_installationId su, la_secret agent) of
                (Some installationId, Some secret) \<Rightarrow>
                  (case readReactivationCode hmac spoken secret installationId of
                     None \<Rightarrow> (Inl REACTIVATION_CODE_INVALID, agent)
                   | Some (validUntil, counter) \<Rightarrow>
                       (case status_now formatToParts su agent of
                          Inl e \<Rightarrow> (Inl (AGENT_DOMAIN e), agent)
                        | Inr (status, agent) \<Rightarrow>
                            (case judge_code formatToParts su record status validUntil counter of
                               Inl e \<Rightarrow> (Inl e, agent)
                             | Inr until \<Rightarrow>
                                 let agent = update_record now (taken_code validUntil counter until) False agent
                                 in (case evaluate formatToParts su agent of
                                       Inl e \<Rightarrow> (Inl (AGENT_DOMAIN e), agent)
                                     | Inr (status', agent') \<Rightarrow> (Inr counter, agent')))))
              | _ \<Rightarrow> (Inl REACTIVATION_UNAVAILABLE, agent))"

section \<open>A heartbeat's answer\<close>

record 'k HeartbeatAnswer =
  ha_licence :: "VerifiedLicence option"
  ha_reactivationSecret :: "'k option"
  ha_serverTime :: int

definition delivered_record ::
  "int \<Rightarrow> int \<Rightarrow> TamperEvent list \<Rightarrow> int option \<Rightarrow> LicenceRecord \<Rightarrow> LicenceRecord" where
  "delivered_record now serverTime reported sentCounter record =
     record
     \<lparr>lr_tamper := last_20 (filter (\<lambda>event. \<not> List.member reported event) (lr_tamper record) @
        (if clockSkewed now serverTime then [\<lparr>te_kind = CLOCK_SKEW, te_at = now\<rparr>] else [])),
      lr_reported := foldl (\<lambda>m event. map_set (te_kind event) (te_at event) m) (lr_reported record) reported,
      lr_lastCode :=
        (case lr_lastCode record of
           None \<Rightarrow> None
         | Some c \<Rightarrow> if sentCounter = Some (lk_counter c) then Some (c\<lparr>lk_delivered := True\<rparr>) else Some c)\<rparr>"

definition accept_answer ::
  "zone_clock \<Rightarrow> Surroundings \<Rightarrow> 'k HeartbeatAnswer \<Rightarrow> TamperEvent list \<Rightarrow> int option \<Rightarrow> 'k LicenceAgent \<Rightarrow> 'k LicenceAgent" where
  "accept_answer formatToParts su answer reported sentCounter agent =
     (let newest = (case fst (readRecord agent) of None \<Rightarrow> None | Some r \<Rightarrow> lr_newestIssuedAt r);
          agent = (case ha_licence answer of
             Some (Inr payload) \<Rightarrow>
               if Some (lp_installationId payload) = su_installationId su \<and> \<not> isOlderLicence payload newest
               then agent\<lparr>la_file := Some (Inr payload)\<rparr> else agent
           | _ \<Rightarrow> agent);
          agent = (case ha_reactivationSecret answer of Some secret \<Rightarrow> agent\<lparr>la_secret := Some secret\<rparr> | None \<Rightarrow> agent);
          agent = update_record (su_clock su) (delivered_record (su_clock su) (ha_serverTime answer) reported sentCounter) False agent
      in case evaluate formatToParts su agent of Inl _ \<Rightarrow> agent | Inr (_, agent') \<Rightarrow> agent')"

section \<open>A PC whose clock and files are not to be trusted\<close>

text \<open>
  What may happen while the sealed record is in place: checks and tries with any clock, answers of the Control
  Plane, a restart of the server, and someone putting any licence file there.
\<close>

datatype 'k AgentEvent =
    Checked Surroundings
  | Code_Tried Surroundings string
  | Answer_Taken Surroundings "'k HeartbeatAnswer" "TamperEvent list" "int option"
  | Restarted
  | File_Replaced "VerifiedLicence option"

definition agent_act :: "'k hmac \<Rightarrow> zone_clock \<Rightarrow> 'k AgentEvent \<Rightarrow> 'k LicenceAgent \<Rightarrow> int option \<times> 'k LicenceAgent" where
  "agent_act hmac formatToParts event agent =
     (case event of
        Checked su \<Rightarrow> (None, case evaluate formatToParts su agent of Inl _ \<Rightarrow> agent | Inr (_, agent') \<Rightarrow> agent')
      | Code_Tried su spoken \<Rightarrow>
          (case reactivate hmac formatToParts su spoken agent of
             (Inl _, agent') \<Rightarrow> (None, agent')
           | (Inr counter, agent') \<Rightarrow> (Some counter, agent'))
      | Answer_Taken su answer reported sentCounter \<Rightarrow> (None, accept_answer formatToParts su answer reported sentCounter agent)
      | Restarted \<Rightarrow> (None, agent\<lparr>la_mark := None, la_status := None\<rparr>)
      | File_Replaced f \<Rightarrow> (None, agent\<lparr>la_file := f\<rparr>))"

text \<open>The counters of the codes taken, in order, and the agent afterwards.\<close>

fun agent_run :: "'k hmac \<Rightarrow> zone_clock \<Rightarrow> 'k AgentEvent list \<Rightarrow> 'k LicenceAgent \<Rightarrow> int list \<times> 'k LicenceAgent" where
  "agent_run hmac formatToParts [] agent = ([], agent)"
| "agent_run hmac formatToParts (e # es) agent =
     (let (taken, mid) = agent_act hmac formatToParts e agent;
          (rest, agent') = agent_run hmac formatToParts es mid
      in ((case taken of None \<Rightarrow> [] | Some c \<Rightarrow> [c]) @ rest, agent'))"

text \<open>Behind: what a later record may not fall back from.\<close>

definition behind :: "LicenceRecord \<Rightarrow> LicenceRecord \<Rightarrow> bool" where
  "behind r q \<longleftrightarrow> lr_lastSeenAt r \<le> lr_lastSeenAt q \<and> lr_lastCounter r \<le> lr_lastCounter q \<and>
     (case lr_newestIssuedAt r of None \<Rightarrow> True | Some t \<Rightarrow> (case lr_newestIssuedAt q of None \<Rightarrow> False | Some u \<Rightarrow> t \<le> u))"

lemma behind_refl [simp]: "behind r r"
  by (simp add: behind_def split: option.split)

lemma behind_trans: "behind r q \<Longrightarrow> behind q p \<Longrightarrow> behind r p"
  by (auto simp: behind_def split: option.splits)

lemma readRecord_Sealed: "la_record agent = Sealed r \<Longrightarrow> readRecord agent = (Some r, False)"
  by (simp add: readRecord_def)

lemma update_Sealed: "la_record agent = Sealed r \<Longrightarrow> update_record wall change tampered agent = agent\<lparr>la_record := Sealed (change r)\<rparr>"
  by (simp add: update_record_def readRecord_Sealed)

lemma evaluate_Sealed:
  assumes "la_record agent = Sealed r" "evaluate formatToParts su agent = Inr (status, agent')"
  obtains now rolledBack where "guardedNow (clock_reading su agent) = (now, rolledBack)"
    "evaluateLicence formatToParts (licence_input su now agent) = Inr status"
    "la_record agent' = Sealed (checked_record su now status (tamper_events su now rolledBack status agent) agent r)"
proof -
  obtain now rolledBack where g: "guardedNow (clock_reading su agent) = (now, rolledBack)" by fastforce
  show ?thesis
    using assms that [OF g] by (auto simp: evaluate_def g bindE_Inr_iff Let_def update_Sealed)
qed

lemma checked_behind:
  assumes "la_record agent = Sealed r" "guardedNow (clock_reading su agent) = (now, rolledBack)"
  shows "behind r (checked_record su now status events agent r)" "lr_lastSeenAt (checked_record su now status events agent r) = now"
proof -
  have "cr_last (clock_reading su agent) = Some \<lparr>cm_judged = lr_lastSeenAt r,
      cm_clock = (case lr_clockAt r of None \<Rightarrow> lr_lastSeenAt r | Some t \<Rightarrow> t)\<rparr>"
    by (simp add: clock_reading_def readRecord_Sealed [OF assms(1)] Let_def)
  from guardedNow_bounds(2) [OF assms(2) this] have "lr_lastSeenAt r \<le> now" by simp
  then show "behind r (checked_record su now status events agent r)"
    by (auto simp: behind_def checked_record_def readRecord_Sealed [OF assms(1)] Let_def split: option.splits)
  show "lr_lastSeenAt (checked_record su now status events agent r) = now" by (simp add: checked_record_def Let_def)
qed

lemma evaluate_behind:
  assumes "la_record agent = Sealed r" "evaluate formatToParts su agent = Inr (status, agent')"
  shows "\<exists>q. la_record agent' = Sealed q \<and> behind r q"
proof -
  obtain now rolledBack where "guardedNow (clock_reading su agent) = (now, rolledBack)"
    "la_record agent' = Sealed (checked_record su now status (tamper_events su now rolledBack status agent) agent r)"
    using evaluate_Sealed [OF assms] by blast
  then show ?thesis using checked_behind(1) [OF assms(1)] by blast
qed

lemma check_behind:
  assumes "la_record agent = Sealed r"
  shows "\<exists>q. la_record (case evaluate formatToParts su agent of Inl _ \<Rightarrow> agent | Inr (_, agent') \<Rightarrow> agent') = Sealed q \<and> behind r q"
proof (cases "evaluate formatToParts su agent")
  case (Inr p)
  then show ?thesis using evaluate_behind [OF assms, of formatToParts su "fst p" "snd p"] by (cases p) simp
qed (use assms in simp)

lemma status_now_behind:
  assumes "la_record agent = Sealed r" "status_now formatToParts su agent = Inr (status, agent')"
  shows "\<exists>q. la_record agent' = Sealed q \<and> behind r q \<and> lr_lastCounter q = lr_lastCounter r"
proof (cases "la_status agent")
  case None
  then have e: "evaluate formatToParts su agent = Inr (status, agent')" using assms(2) by (simp add: status_now_def)
  obtain now rolledBack where "guardedNow (clock_reading su agent) = (now, rolledBack)"
    "la_record agent' = Sealed (checked_record su now status (tamper_events su now rolledBack status agent) agent r)"
    using evaluate_Sealed [OF assms(1) e] by blast
  then show ?thesis using checked_behind(1) [OF assms(1)] by (auto simp: checked_record_def Let_def)
qed (use assms in \<open>simp add: status_now_def\<close>)

text \<open>A try: it never falls back, and a code that is taken has a higher counter than the last.\<close>

lemma reactivate_behind:
  assumes "la_record agent = Sealed r" "reactivate hmac formatToParts su spoken agent = (outcome, agent')"
  shows "\<exists>q. la_record agent' = Sealed q \<and> behind r q \<and>
    (case outcome of Inl _ \<Rightarrow> True | Inr counter \<Rightarrow> lr_lastCounter r < counter \<and> counter \<le> lr_lastCounter q)"
proof -
  let ?r1 = "r\<lparr>lr_attempts := recent_attempts (su_clock su) (Some r) @ [su_clock su]\<rparr>"
  let ?a1 = "agent\<lparr>la_record := Sealed ?r1\<rparr>"
  have r1: "la_record ?a1 = Sealed ?r1" "behind r ?r1" "lr_lastCounter ?r1 = lr_lastCounter r"
    by (simp_all add: behind_def split: option.split)
  have kept: ?thesis if "la_record agent' = Sealed q" "behind r q" "isl outcome" for q
    using that by (cases outcome) auto
  show ?thesis
  proof (cases "ATTEMPTS_PER_HOUR \<le> length (recent_attempts (su_clock su) (Some r))")
    case True
    then show ?thesis using assms(2) kept [of r] assms(1) by (auto simp: reactivate_def readRecord_Sealed [OF assms(1)] Let_def)
  next
    case False
    show ?thesis
    proof (cases "su_installationId su = None \<or> la_secret agent = None")
      case True
      then have "outcome = Inl REACTIVATION_UNAVAILABLE" "agent' = ?a1"
        using assms(2) False by (auto simp: reactivate_def readRecord_Sealed [OF assms(1)] update_Sealed [OF assms(1)] Let_def split: option.splits)
      then show ?thesis using kept [of ?r1] r1 by simp
    next
      case in_place: False
      then obtain i secret where i: "su_installationId su = Some i" "la_secret agent = Some secret" by auto
      have run: "(outcome, agent') =
          (case readReactivationCode hmac spoken secret i of
             None \<Rightarrow> (Inl REACTIVATION_CODE_INVALID, ?a1)
           | Some (validUntil, counter) \<Rightarrow>
               (case status_now formatToParts su ?a1 of
                  Inl e \<Rightarrow> (Inl (AGENT_DOMAIN e), ?a1)
                | Inr (status, agent) \<Rightarrow>
                    (case judge_code formatToParts su (Some r) status validUntil counter of
                       Inl e \<Rightarrow> (Inl e, agent)
                     | Inr until \<Rightarrow>
                         let agent = update_record (su_clock su) (taken_code validUntil counter until) False agent
                         in (case evaluate formatToParts su agent of
                               Inl e \<Rightarrow> (Inl (AGENT_DOMAIN e), agent)
                             | Inr (status', agent') \<Rightarrow> (Inr counter, agent')))))"
        using assms(2) False i by (simp add: reactivate_def readRecord_Sealed [OF assms(1)] update_Sealed [OF assms(1)] Let_def)
      show ?thesis
      proof (cases "readReactivationCode hmac spoken secret i")
        case None
        then show ?thesis using run kept [of ?r1] r1 by simp
      next
        case (Some vc)
        obtain validUntil counter where vc: "vc = (validUntil, counter)" by fastforce
        show ?thesis
        proof (cases "status_now formatToParts su ?a1")
          case (Inl e)
          then show ?thesis using run Some vc kept [of ?r1] r1 by simp
        next
          case (Inr sa)
          obtain status a2 where sa: "sa = (status, a2)" by fastforce
          obtain r2 where r2: "la_record a2 = Sealed r2" "behind ?r1 r2" "lr_lastCounter r2 = lr_lastCounter ?r1"
            using status_now_behind [OF r1(1)] Inr sa by blast
          have b2: "behind r r2" using behind_trans [OF r1(2) r2(2)] .
          show ?thesis
          proof (cases "judge_code formatToParts su (Some r) status validUntil counter")
            case judged: (Inl e)
            then show ?thesis using run Some vc Inr sa kept [of r2] r2(1) b2 by simp
          next
            case judged: (Inr until)
            then have c: "lr_lastCounter r < counter" by (auto simp: judge_code_def Let_def split: if_splits)
            let ?r3 = "taken_code validUntil counter until r2"
            let ?a3 = "a2\<lparr>la_record := Sealed ?r3\<rparr>"
            have b3: "behind r ?r3" "lr_lastCounter ?r3 = counter"
              using b2 c r2(3) r1(3) by (auto simp: behind_def taken_code_def split: option.splits)
            show ?thesis
            proof (cases "evaluate formatToParts su ?a3")
              case (Inl e)
              then show ?thesis
                using run Some vc \<open>status_now formatToParts su ?a1 = Inr sa\<close> sa judged kept [of ?r3] b3(1) by (simp add: update_Sealed [OF r2(1)])
            next
              case e: (Inr p)
              obtain status' a4 where p: "p = (status', a4)" by fastforce
              have "la_record ?a3 = Sealed ?r3" by simp
              then obtain q where "la_record a4 = Sealed q" "behind ?r3 q" using evaluate_behind e p by blast
              moreover have "outcome = Inr counter" "agent' = a4"
                using run Some vc \<open>status_now formatToParts su ?a1 = Inr sa\<close> sa judged e p by (simp_all add: update_Sealed [OF r2(1)])
              moreover have "behind r q" using behind_trans [OF b3(1) \<open>behind ?r3 q\<close>] .
              moreover have "counter \<le> lr_lastCounter q" using \<open>behind ?r3 q\<close> b3(2) by (simp only: behind_def)
              ultimately show ?thesis using c by simp
            qed
          qed
        qed
      qed
    qed
  qed
qed

lemma accept_behind:
  assumes "la_record agent = Sealed r"
  shows "\<exists>q. la_record (accept_answer formatToParts su answer reported sentCounter agent) = Sealed q \<and> behind r q"
proof -
  define a1 where "a1 = (case ha_licence answer of
      Some (Inr payload) \<Rightarrow>
        if Some (lp_installationId payload) = su_installationId su \<and> \<not> isOlderLicence payload (lr_newestIssuedAt r)
        then agent\<lparr>la_file := Some (Inr payload)\<rparr> else agent
    | _ \<Rightarrow> agent)"
  define a2 where "a2 = (case ha_reactivationSecret answer of Some secret \<Rightarrow> a1\<lparr>la_secret := Some secret\<rparr> | None \<Rightarrow> a1)"
  have a2: "la_record a2 = Sealed r"
    using assms by (auto simp: a1_def a2_def split: option.split sum.split)
  let ?r3 = "delivered_record (su_clock su) (ha_serverTime answer) reported sentCounter r"
  let ?a3 = "a2\<lparr>la_record := Sealed ?r3\<rparr>"
  have r3: "behind r ?r3" by (auto simp: behind_def delivered_record_def split: option.splits)
  have "accept_answer formatToParts su answer reported sentCounter agent =
      (case evaluate formatToParts su ?a3 of Inl _ \<Rightarrow> ?a3 | Inr (_, agent') \<Rightarrow> agent')"
    unfolding accept_answer_def readRecord_Sealed [OF assms] fst_conv option.case Let_def a1_def [symmetric] a2_def [symmetric]
      update_Sealed [OF a2] ..
  moreover obtain q where "la_record (case evaluate formatToParts su ?a3 of Inl _ \<Rightarrow> ?a3 | Inr (_, agent') \<Rightarrow> agent') = Sealed q" "behind ?r3 q"
    using check_behind [of ?a3 ?r3 formatToParts su] by auto
  ultimately show ?thesis using behind_trans [OF r3] by auto
qed

lemma agent_act_behind:
  assumes "la_record agent = Sealed r" "agent_act hmac formatToParts event agent = (taken, agent')"
  shows "\<exists>q. la_record agent' = Sealed q \<and> behind r q \<and>
    (case taken of None \<Rightarrow> True | Some counter \<Rightarrow> lr_lastCounter r < counter \<and> counter \<le> lr_lastCounter q)"
proof (cases event)
  case (Checked su)
  then show ?thesis using assms check_behind [OF assms(1), of formatToParts su] by (auto simp: agent_act_def)
next
  case (Code_Tried su spoken)
  obtain outcome a where o: "reactivate hmac formatToParts su spoken agent = (outcome, a)" by fastforce
  from reactivate_behind [OF assms(1) o] show ?thesis
    using assms(2) Code_Tried o by (cases outcome) (auto simp: agent_act_def)
next
  case (Answer_Taken su answer reported sentCounter)
  then show ?thesis using assms accept_behind [OF assms(1), of formatToParts su answer reported sentCounter] by (auto simp: agent_act_def)
qed (use assms in \<open>auto simp: agent_act_def\<close>)

lemma agent_run_behind:
  "la_record agent = Sealed r \<Longrightarrow> agent_run hmac formatToParts es agent = (taken, agent') \<Longrightarrow>
   \<exists>q. la_record agent' = Sealed q \<and> behind r q \<and> sorted_wrt (<) taken \<and> list_all (\<lambda>c. lr_lastCounter r < c \<and> c \<le> lr_lastCounter q) taken"
proof (induction es arbitrary: agent r taken)
  case (Cons e es)
  obtain t mid where m: "agent_act hmac formatToParts e agent = (t, mid)" by fastforce
  obtain rest where run: "agent_run hmac formatToParts es mid = (rest, agent')" "taken = (case t of None \<Rightarrow> [] | Some c \<Rightarrow> [c]) @ rest"
    using Cons.prems(2) m by (auto simp: Let_def split: prod.splits)
  obtain p where p: "la_record mid = Sealed p" "behind r p"
    "case t of None \<Rightarrow> True | Some counter \<Rightarrow> lr_lastCounter r < counter \<and> counter \<le> lr_lastCounter p"
    using agent_act_behind [OF Cons.prems(1) m] by blast
  obtain q where q: "la_record agent' = Sealed q" "behind p q" "sorted_wrt (<) rest"
    "list_all (\<lambda>c. lr_lastCounter p < c \<and> c \<le> lr_lastCounter q) rest"
    using Cons.IH [OF p(1) run(1)] by blast
  have "behind r q" using behind_trans p(2) q(2) by blast
  moreover have "lr_lastCounter r \<le> lr_lastCounter p" "lr_lastCounter p \<le> lr_lastCounter q" using p(2) q(2) by (simp_all add: behind_def)
  ultimately show ?case using q p(3) run(2) by (cases t) (auto simp: list_all_iff)
qed simp

text \<open>
  Where requests come one after the other, the counters of the codes taken only grow, whatever the clock says, whichever files are
  put in place and however often the server is restarted, while the sealed record is there.
\<close>

lemma codes_in_turn_grow:
  assumes "la_record agent = Sealed r" "agent_run hmac formatToParts es agent = (taken, agent')"
  shows "sorted_wrt (<) taken \<and> list_all (\<lambda>c. lr_lastCounter r < c) taken"
proof -
  obtain q :: LicenceRecord where "sorted_wrt (<) taken" "list_all (\<lambda>c. lr_lastCounter r < c \<and> c \<le> lr_lastCounter q) taken"
    using agent_run_behind [OF assms] by blast
  then show ?thesis by (auto simp: list_all_iff)
qed

text \<open>
  Where they overlap, that is not so: a try is judged by the record it read before it waited. Two tries of one code that both read
  the record before either took the code both take it: the second writes the counter again, whatever the record holds by then.
\<close>

lemma overlapping_tries_take_a_code_twice:
  assumes "judge_code formatToParts su record status validUntil counter = Inr until" "ls_payload status' = ls_payload status"
    and "la_record first = Sealed current" "lr_lastCounter current = counter"
  shows "judge_code formatToParts su record status' validUntil counter = Inr until \<and>
    la_record (update_record wall (taken_code validUntil counter until) False first) = Sealed (taken_code validUntil counter until current)"
  using assms by (simp add: judge_code_def update_Sealed Let_def)

text \<open>
  C21: the clock cannot be turned against the licence. Let a run of checks, tries, answers, restarts and replaced
  files with any clocks whatever end in a check that finds the licence unrestricted. Then the time judged is no earlier than any
  time judged before, the file is no older than any accepted before, and at that time the licence had not run out, or
  a reactivation code was in force.
\<close>

theorem licence_holds_against_the_clock:
  assumes "la_record agent = Sealed r" "agent_run hmac formatToParts es agent = (taken, mid)"
    and "evaluate formatToParts su mid = Inr (status, agent')" "unrestricted (ls_recorded status)"
  shows "\<exists>payload q. la_file mid = Some (Inr payload) \<and> la_record agent' = Sealed q \<and>
    lr_lastSeenAt r \<le> lr_lastSeenAt q \<and>
    (case lr_newestIssuedAt r of None \<Rightarrow> True | Some t \<Rightarrow> t \<le> lp_issuedAt payload) \<and>
    (lr_lastSeenAt q \<le> lp_validUntil payload \<or>
     (case lr_reactivation q of None \<Rightarrow> False | Some rx \<Rightarrow> lr_lastSeenAt q < rx_until rx))"
proof -
  obtain p where p: "la_record mid = Sealed p" "behind r p" using agent_run_behind [OF assms(1,2)] by blast
  obtain now rolledBack where g: "guardedNow (clock_reading su mid) = (now, rolledBack)"
    and st: "evaluateLicence formatToParts (licence_input su now mid) = Inr status"
    and q: "la_record agent' = Sealed (checked_record su now status (tamper_events su now rolledBack status mid) mid p)"
    using evaluate_Sealed [OF p(1) assms(3)] by blast
  let ?q = "checked_record su now status (tamper_events su now rolledBack status mid) mid p"
  let ?input = "licence_input su now mid"
  have q': "behind p ?q" "lr_lastSeenAt ?q = now" using checked_behind [OF p(1) g] by blast+
  have "ls_recorded status = recorded_state ?input (if reactivated ?input then None else problemOf ?input)"
    using st by (auto simp: evaluateLicence_def Let_def bindE_Inr_iff split: if_splits)
  then obtain payload where payload: "trusted ?input payload" "running (li_now ?input) payload \<or> code_in_force ?input"
    using unrestricted_recorded [of ?input] assms(4) by auto
  have input: "li_now ?input = now" "li_file ?input = file_of mid" "li_newestIssuedAt ?input = lr_newestIssuedAt p"
    "li_reactivatedUntil ?input = map_option rx_until (lr_reactivation p)"
    by (simp_all add: licence_input_def readRecord_Sealed [OF p(1)])
  have f: "la_file mid = Some (Inr payload)" using payload(1) input(2) by (auto simp: trusted_def file_of_def split: option.splits)
  have "case lr_newestIssuedAt r of None \<Rightarrow> True | Some t \<Rightarrow> t \<le> lp_issuedAt payload"
    using payload(1) input(3) p(2) by (auto simp: trusted_def isOlderLicence_def behind_def split: option.splits)
  moreover have "lr_lastSeenAt ?q \<le> lp_validUntil payload \<or> (case lr_reactivation ?q of None \<Rightarrow> False | Some rx \<Rightarrow> lr_lastSeenAt ?q < rx_until rx)"
    unfolding q'(2) using payload(2) input(1,4)
    by (auto simp: running_def code_in_force_def checked_record_def Let_def split: option.splits)
  moreover have "lr_lastSeenAt r \<le> lr_lastSeenAt ?q" using behind_trans [OF p(2) q'(1)] by (simp only: behind_def)
  ultimately show ?thesis using f q by blast
qed

section \<open>A PC set back\<close>

definition sample_payload :: LicencePayload where
  "sample_payload = ended_contract\<lparr>lp_state := ACTIVE, lp_validUntil := 100000\<rparr>"

definition sample_agent :: "unit LicenceAgent" where
  "sample_agent =
     \<lparr>la_file = Some (Inr sample_payload),
      la_record = Sealed \<lparr>lr_lastSeenAt = 50000, lr_clockAt = Some 50000, lr_newestIssuedAt = Some 0, lr_restrictionDecidedAt = None,
        lr_reactivation = None, lr_lastCounter = 2, lr_lastCode = None, lr_attempts = [], lr_tamper = [], lr_reported = []\<rparr>,
      la_secret = Some (), la_mark = None, la_status = None\<rparr>"

definition sample_surroundings :: "int \<Rightarrow> Surroundings" where
  "sample_surroundings clock =
     \<lparr>su_clock = clock, su_monotonicMs = 7, su_installationId = Some ''i'', su_fingerprint = [], su_businessDay = DEFAULT_BUSINESS_DAY,
      su_filesModified = False\<rparr>"

lemma sample_check:
  "map_option (\<lambda>p. ls_recorded (fst p)) (case evaluate indian_clock (sample_surroundings 10) sample_agent of Inl _ \<Rightarrow> None | Inr p \<Rightarrow> Some p) = Some ACTIVE"
  by code_simp

theorem licence_holds_against_the_clock_witness:
  "\<exists>status agent' q. evaluate indian_clock (sample_surroundings 10) sample_agent = Inr (status, agent') \<and>
     la_record agent' = Sealed q \<and> 50000 \<le> lr_lastSeenAt q"
proof -
  obtain status agent' where e: "evaluate indian_clock (sample_surroundings 10) sample_agent = Inr (status, agent')" "ls_recorded status = ACTIVE"
    using sample_check by (auto split: sum.splits)
  have r: "la_record sample_agent = Sealed \<lparr>lr_lastSeenAt = 50000, lr_clockAt = Some 50000, lr_newestIssuedAt = Some 0, lr_restrictionDecidedAt = None,
        lr_reactivation = None, lr_lastCounter = 2, lr_lastCode = None, lr_attempts = [], lr_tamper = [], lr_reported = []\<rparr>"
    by (simp add: sample_agent_def)
  have run: "agent_run (\<lambda>_ _. []) indian_clock [] sample_agent = ([], sample_agent)" by simp
  have u: "unrestricted (ls_recorded status)" using e(2) by (simp add: unrestricted_def)
  show ?thesis using licence_holds_against_the_clock [OF r run e(1) u] e(1) by auto
qed

end
