(* ===== verification/Line_Check.thy ===== *)
theory Line_Check
  imports Menu_Selection Business_Date Tax
begin

text \<open>
  \<open>packages/ordering/src/line-check.ts\<close> and the parts of \<open>menu-view.ts\<close> it shares: what every order line
  passes before anything is created, on the local server and on the relay. The menu is a snapshot; of
  its items and combos the properties that ordering reads are kept, and texts for people are dropped. The lemmas say
  exactly which lines are taken, the first reason of the others, and that what is charged
  is the variant and the modifiers that are recorded.
\<close>

section \<open>The menu\<close>

datatype SalesChannel = CH_POS | CH_WAITER_APP | CH_TABLE_TABLET | CH_QR

type_synonym time_window = "string \<times> string"

record MenuItem =
  mi_id :: string
  mi_name :: string
  mi_basePrice :: Paise
  mi_taxGroupId :: string
  mi_stationId :: string
  mi_timeWindow :: "time_window option"
  mi_available :: bool
  mi_stockCount :: "number option"
  mi_channels :: "SalesChannel list"
  mi_variants :: "VariantDef list"
  mi_modifierGroupIds :: "string list"
  mi_archived :: bool

datatype ComboComponent = FIXED string number | CHOICE string "string list" number

fun cc_quantity :: "ComboComponent \<Rightarrow> number" where
  "cc_quantity (FIXED itemId quantity) = quantity"
| "cc_quantity (CHOICE label itemIds quantity) = quantity"

record Combo =
  co_itemId :: string
  co_components :: "ComboComponent list"
  co_activeFrom :: "IsoDate option"
  co_activeUntil :: "IsoDate option"
  co_timeWindow :: "time_window option"

datatype StationMode = SCREEN | PRINT | BOTH

record Station =
  sn_id :: string
  sn_mode :: StationMode

record MenuSnapshot =
  ms_items :: "MenuItem list"
  ms_modifierGroups :: "ModifierGroupDef list"
  ms_combos :: "Combo list"
  ms_taxGroups :: "TaxGroup list"
  ms_stations :: "Station list"

section \<open>A line and what it becomes\<close>

record OrderLineRequest =
  ol_clientLineId :: string
  ol_itemId :: string
  ol_quantity :: number
  ol_variantId :: "string option"
  ol_modifiers :: "ChosenModifiers list"
  ol_comboChoices :: "string list option"
  ol_instructions :: "string option"
  ol_hold :: "bool option"

datatype RejectCode = OUT_OF_STOCK | NOT_AVAILABLE_NOW | NOT_ON_CHANNEL | BAD_SELECTION | ARCHIVED

record LineModifier =
  lm_optionId :: string
  lm_name :: string
  lm_priceDelta :: Paise

record ResolvedOrderLine =
  rl_request :: OrderLineRequest
  rl_item :: MenuItem
  rl_variantName :: "string option"
  rl_modifiers :: "LineModifier list"
  rl_unitPrice :: Paise
  rl_components :: "(MenuItem \<times> number) list"

datatype LineOutcome = REJECTED_LINE string RejectCode | RESOLVED ResolvedOrderLine

record LineCheckContext =
  lc_channel :: SalesChannel
  lc_instructionMaxLength :: number
  lc_now :: instant
  lc_timeZone :: string

definition rejectLine :: "OrderLineRequest \<Rightarrow> RejectCode \<Rightarrow> LineOutcome" where
  "rejectLine line c = REJECTED_LINE (ol_clientLineId line) c"

definition isRejectedLine :: "LineOutcome \<Rightarrow> bool" where
  "isRejectedLine outcome = (case outcome of REJECTED_LINE _ _ \<Rightarrow> True | RESOLVED _ \<Rightarrow> False)"

section \<open>Hours\<close>

definition window_on :: "zone_clock \<Rightarrow> time_window option \<Rightarrow> instant \<Rightarrow> string \<Rightarrow> bool result" where
  "window_on formatToParts window now timeZone =
     (case window of
        None \<Rightarrow> Inr True
      | Some (start, end_time) \<Rightarrow>
          bindE (timeOfDayOf formatToParts now timeZone) (\<lambda>time. Inr (inTimeWindow time start end_time)))"

definition comboOnNow :: "zone_clock \<Rightarrow> Combo \<Rightarrow> instant \<Rightarrow> string \<Rightarrow> bool result" where
  "comboOnNow formatToParts combo now timeZone =
     bindE (calendarDateOf formatToParts now timeZone) (\<lambda>today.
     if (case co_activeFrom combo of None \<Rightarrow> False | Some first \<Rightarrow> js_less today first) then Inr False
     else if (case co_activeUntil combo of None \<Rightarrow> False | Some final \<Rightarrow> js_less final today) then Inr False
     else window_on formatToParts (co_timeWindow combo) now timeZone)"

definition itemHoursOnNow :: "zone_clock \<Rightarrow> MenuItem \<Rightarrow> instant \<Rightarrow> string \<Rightarrow> bool result" where
  "itemHoursOnNow formatToParts item now timeZone = window_on formatToParts (mi_timeWindow item) now timeZone"

section \<open>Resolving a line\<close>

definition items_by_id :: "MenuSnapshot \<Rightarrow> (string \<times> MenuItem) list" where
  "items_by_id menu = foldl (\<lambda>m i. map_set (mi_id i) i m) [] (ms_items menu)"

definition groups_by_id :: "MenuSnapshot \<Rightarrow> (string \<times> ModifierGroupDef) list" where
  "groups_by_id menu = foldl (\<lambda>m g. map_set (mg_id g) g m) [] (ms_modifierGroups menu)"

definition groups_of :: "MenuSnapshot \<Rightarrow> MenuItem \<Rightarrow> ModifierGroupDef list" where
  "groups_of menu item =
     concat (map (\<lambda>i. case map_of (groups_by_id menu) i of None \<Rightarrow> [] | Some g \<Rightarrow> [g]) (mi_modifierGroupIds item))"

definition selectable :: "MenuSnapshot \<Rightarrow> MenuItem \<Rightarrow> SelectableItemDef" where
  "selectable menu item =
     \<lparr>si_id = mi_id item, si_basePrice = mi_basePrice item, si_variants = Some (mi_variants item),
      si_modifierGroups = Some (groups_of menu item)\<rparr>"

definition comboOf :: "MenuSnapshot \<Rightarrow> MenuItem \<Rightarrow> Combo option" where
  "comboOf menu item = find (\<lambda>combo. co_itemId combo = mi_id item) (ms_combos menu)"

definition is_choice :: "ComboComponent \<Rightarrow> bool" where
  "is_choice component = (case component of CHOICE _ _ _ \<Rightarrow> True | FIXED _ _ \<Rightarrow> False)"

text \<open>The loop over a combo's components; \<open>choices\<close> are the ones not yet shifted.\<close>

fun resolve_parts ::
  "zone_clock \<Rightarrow> LineCheckContext \<Rightarrow> (string \<times> MenuItem) list \<Rightarrow> ComboComponent list \<Rightarrow> string list \<Rightarrow>
   (RejectCode + (MenuItem \<times> number) list) result" where
  "resolve_parts formatToParts ctx items [] choices = Inr (Inr [])"
| "resolve_parts formatToParts ctx items (component # components) choices =
     (let (chosen, choices', offered) =
            (case component of
               FIXED itemId _ \<Rightarrow> (Some itemId, choices, True)
             | CHOICE _ itemIds _ \<Rightarrow>
                 (case choices of
                    [] \<Rightarrow> (None, [], False)
                  | c # cs \<Rightarrow> (Some c, cs, List.member itemIds c)))
      in if \<not> offered then Inr (Inl BAD_SELECTION)
         else
           (case map_of items (case chosen of None \<Rightarrow> [] | Some c \<Rightarrow> c) of
              None \<Rightarrow> Inr (Inl OUT_OF_STOCK)
            | Some part \<Rightarrow>
                if \<not> mi_available part then Inr (Inl OUT_OF_STOCK)
                else
                  bindE (itemHoursOnNow formatToParts part (lc_now ctx) (lc_timeZone ctx)) (\<lambda>on.
                  if \<not> on then Inr (Inl NOT_AVAILABLE_NOW)
                  else
                    bindE (resolve_parts formatToParts ctx items components choices') (\<lambda>rest.
                    Inr (case rest of Inl c \<Rightarrow> Inl c | Inr parts \<Rightarrow> Inr ((part, cc_quantity component) # parts))))))"

definition resolve_combo ::
  "zone_clock \<Rightarrow> LineCheckContext \<Rightarrow> MenuSnapshot \<Rightarrow> MenuItem \<Rightarrow> OrderLineRequest \<Rightarrow> (RejectCode + (MenuItem \<times> number) list) result" where
  "resolve_combo formatToParts ctx menu item line =
     (let choices = list_or_empty (ol_comboChoices line)
      in case comboOf menu item of
           None \<Rightarrow> Inr (if length choices > 0 then Inl BAD_SELECTION else Inr [])
         | Some combo \<Rightarrow>
             bindE (comboOnNow formatToParts combo (lc_now ctx) (lc_timeZone ctx)) (\<lambda>on.
             if \<not> on then Inr (Inl NOT_AVAILABLE_NOW)
             else if length choices \<noteq> length (filter is_choice (co_components combo)) then Inr (Inl BAD_SELECTION)
             else resolve_parts formatToParts ctx (items_by_id menu) (co_components combo) choices))"

definition line_selection :: "OrderLineRequest \<Rightarrow> ItemSelection" where
  "line_selection line = \<lparr>sel_variantId = ol_variantId line, sel_modifiers = Some (ol_modifiers line)\<rparr>"

text \<open>The options chosen in any group, and what the line records of them.\<close>

definition line_modifiers :: "ModifierGroupDef list \<Rightarrow> OrderLineRequest \<Rightarrow> LineModifier list" where
  "line_modifiers groups line =
     (let chosen = concat (map cm_optionIds (ol_modifiers line))
      in concat (map (\<lambda>g.
           map (\<lambda>opt. \<lparr>lm_optionId = mo_id opt, lm_name = mo_name opt, lm_priceDelta = mo_priceDelta opt\<rparr>)
             (filter (\<lambda>opt. List.member chosen (mo_id opt)) (mg_options g))) groups))"

definition variant_name :: "MenuItem \<Rightarrow> OrderLineRequest \<Rightarrow> string option" where
  "variant_name item line =
     map_option vd_name (find (\<lambda>v. Some (vd_id v) = ol_variantId line) (mi_variants item))"

text \<open>The checks before the selection; \<^term>\<open>None\<close> when the item may be ordered.\<close>

definition item_problem :: "zone_clock \<Rightarrow> LineCheckContext \<Rightarrow> MenuItem \<Rightarrow> OrderLineRequest \<Rightarrow> RejectCode option result" where
  "item_problem formatToParts ctx item line =
     (if mi_archived item then Inr (Some ARCHIVED)
      else if \<not> mi_available item then Inr (Some (if mi_stockCount item = Some 0 then OUT_OF_STOCK else NOT_AVAILABLE_NOW))
      else if \<not> List.member (mi_channels item) (lc_channel ctx) then Inr (Some NOT_ON_CHANNEL)
      else
        bindE (itemHoursOnNow formatToParts item (lc_now ctx) (lc_timeZone ctx)) (\<lambda>on.
        Inr (if \<not> on then Some NOT_AVAILABLE_NOW
             else if int (case ol_instructions line of None \<Rightarrow> 0 | Some s \<Rightarrow> length s) > lc_instructionMaxLength ctx
             then Some BAD_SELECTION else None)))"

definition resolveOrderLine ::
  "zone_clock \<Rightarrow> MenuSnapshot \<Rightarrow> OrderLineRequest \<Rightarrow> LineCheckContext \<Rightarrow> LineOutcome result" where
  "resolveOrderLine formatToParts menu line ctx =
     (case map_of (items_by_id menu) (ol_itemId line) of
        None \<Rightarrow> Inr (rejectLine line ARCHIVED)
      | Some item \<Rightarrow>
          bindE (item_problem formatToParts ctx item line) (\<lambda>problem.
          case problem of
            Some c \<Rightarrow> Inr (rejectLine line c)
          | None \<Rightarrow>
              let definition' = selectable menu item; selection = line_selection line
              in if validateSelection definition' selection \<noteq> [] then Inr (rejectLine line BAD_SELECTION)
                 else
                   bindE (resolve_combo formatToParts ctx menu item line) (\<lambda>parts.
                   case parts of
                     Inl c \<Rightarrow> Inr (rejectLine line c)
                   | Inr components \<Rightarrow>
                       bindE (unitPriceOf definition' selection) (\<lambda>unitPrice.
                       Inr (RESOLVED
                         \<lparr>rl_request = line, rl_item = item, rl_variantName = variant_name item line,
                          rl_modifiers = line_modifiers (groups_of menu item) line,
                          rl_unitPrice = unitPrice, rl_components = components\<rparr>)))))"

section \<open>What is taken\<close>

definition in_hours :: "zone_clock \<Rightarrow> LineCheckContext \<Rightarrow> time_window option \<Rightarrow> bool" where
  "in_hours formatToParts ctx window \<longleftrightarrow> window_on formatToParts window (lc_now ctx) (lc_timeZone ctx) = Inr True"

text \<open>The item that each component of a combo gets: its own, or the next choice when it is offered.\<close>

fun picks :: "ComboComponent list \<Rightarrow> string list \<Rightarrow> string list option" where
  "picks [] choices = Some []"
| "picks (FIXED itemId quantity # components) choices = map_option (Cons itemId) (picks components choices)"
| "picks (CHOICE label itemIds quantity # components) [] = None"
| "picks (CHOICE label itemIds quantity # components) (c # choices) =
     (if c \<in> set itemIds then map_option (Cons c) (picks components choices) else None)"

definition part_ok ::
  "zone_clock \<Rightarrow> LineCheckContext \<Rightarrow> MenuSnapshot \<Rightarrow> string \<Rightarrow> ComboComponent \<Rightarrow> MenuItem \<times> number \<Rightarrow> bool" where
  "part_ok formatToParts ctx menu i component p \<longleftrightarrow>
     map_of (items_by_id menu) i = Some (fst p) \<and> mi_available (fst p) \<and>
     in_hours formatToParts ctx (mi_timeWindow (fst p)) \<and> snd p = cc_quantity component"

definition parts_ok ::
  "zone_clock \<Rightarrow> LineCheckContext \<Rightarrow> MenuSnapshot \<Rightarrow> ComboComponent list \<Rightarrow> string list \<Rightarrow> (MenuItem \<times> number) list \<Rightarrow> bool" where
  "parts_ok formatToParts ctx menu components choices parts \<longleftrightarrow>
     (case picks components choices of
        None \<Rightarrow> False
      | Some ids \<Rightarrow> length parts = length components \<and>
          (\<forall>i < length components. part_ok formatToParts ctx menu (ids ! i) (components ! i) (parts ! i)))"

definition combo_ok ::
  "zone_clock \<Rightarrow> LineCheckContext \<Rightarrow> MenuSnapshot \<Rightarrow> OrderLineRequest \<Rightarrow> MenuItem \<Rightarrow> (MenuItem \<times> number) list \<Rightarrow> bool" where
  "combo_ok formatToParts ctx menu line item parts \<longleftrightarrow>
     (let choices = list_or_empty (ol_comboChoices line)
      in case comboOf menu item of
           None \<Rightarrow> choices = [] \<and> parts = []
         | Some combo \<Rightarrow>
             comboOnNow formatToParts combo (lc_now ctx) (lc_timeZone ctx) = Inr True \<and>
             length choices = length (filter is_choice (co_components combo)) \<and>
             parts_ok formatToParts ctx menu (co_components combo) choices parts)"

definition item_ok :: "zone_clock \<Rightarrow> LineCheckContext \<Rightarrow> MenuItem \<Rightarrow> OrderLineRequest \<Rightarrow> bool" where
  "item_ok formatToParts ctx item line \<longleftrightarrow>
     \<not> mi_archived item \<and> mi_available item \<and> lc_channel ctx \<in> set (mi_channels item) \<and>
     in_hours formatToParts ctx (mi_timeWindow item) \<and>
     int (length (case ol_instructions line of None \<Rightarrow> [] | Some s \<Rightarrow> s)) \<le> lc_instructionMaxLength ctx"

lemma picks_length: "picks components choices = Some ids \<Longrightarrow> length ids = length components"
  by (induction components choices arbitrary: ids rule: picks.induct) (auto split: if_splits)

lemma item_problem_None: "item_problem formatToParts ctx item line = Inr None \<longleftrightarrow> item_ok formatToParts ctx item line"
  by (auto simp: item_problem_def item_ok_def in_hours_def itemHoursOnNow_def bindE_Inr_iff   split: option.splits if_splits)

lemma all_less_Suc: "(\<forall>i < Suc n. P i) \<longleftrightarrow> P 0 \<and> (\<forall>i < n. P (Suc i))"
  by (auto simp: less_Suc_eq_0_disj)

lemma parts_ok_Cons:
  "parts_ok z ctx menu (component # components) choices parts \<longleftrightarrow>
     (\<exists>i p ps choices'. parts = p # ps \<and> part_ok z ctx menu i component p \<and>
        parts_ok z ctx menu components choices' ps \<and>
        (case component of FIXED j _ \<Rightarrow> i = j \<and> choices' = choices
         | CHOICE _ itemIds _ \<Rightarrow> choices = i # choices' \<and> i \<in> set itemIds))"
proof (cases component)
  case (FIXED j q)
  then show ?thesis
    by (cases parts; cases "picks components choices") (auto simp: parts_ok_def all_less_Suc)
next
  case (CHOICE label itemIds q)
  show ?thesis
  proof (cases choices)
    case Nil
    then show ?thesis by (simp add: CHOICE parts_ok_def)
  next
    case (Cons c cs)
    then show ?thesis
      by (cases parts; cases "picks components cs") (auto simp: CHOICE parts_ok_def all_less_Suc)
  qed
qed

lemma case_cons_Inr: "(case rest of Inl c \<Rightarrow> Inl c | Inr ps \<Rightarrow> Inr (p # ps)) = Inr qs \<longleftrightarrow> (\<exists>ps. rest = Inr ps \<and> qs = p # ps)"
  by (cases rest) auto

lemma resolve_parts_Inr:
  "resolve_parts z ctx (items_by_id menu) components choices = Inr (Inr parts) \<longleftrightarrow>
     parts_ok z ctx menu components choices parts"
proof (induction components arbitrary: choices parts)
  case Nil
  then show ?case by (auto simp: parts_ok_def)
next
  case (Cons component components)
  have part: "resolve_parts z ctx (items_by_id menu) (component # components) choices = Inr (Inr parts) \<longleftrightarrow>
      (\<exists>i p ps choices'. parts = p # ps \<and> part_ok z ctx menu i component p \<and>
        resolve_parts z ctx (items_by_id menu) components choices' = Inr (Inr ps) \<and>
        (case component of FIXED j _ \<Rightarrow> i = j \<and> choices' = choices
         | CHOICE _ itemIds _ \<Rightarrow> choices = i # choices' \<and> i \<in> set itemIds))"
    by (cases component; cases choices)
      (auto simp: part_ok_def in_hours_def itemHoursOnNow_def bindE_Inr_iff case_cons_Inr Let_def
        split: option.splits if_splits)
  show ?case unfolding part parts_ok_Cons Cons.IH ..
qed

lemma resolve_combo_Inr:
  "resolve_combo z ctx menu item line = Inr (Inr parts) \<longleftrightarrow> combo_ok z ctx menu line item parts"
  by (auto simp: resolve_combo_def combo_ok_def Let_def bindE_Inr_iff resolve_parts_Inr split: option.splits if_splits)

lemma sum_case_eq:
  "(case x of Inl a \<Rightarrow> f a | Inr b \<Rightarrow> g b) = y \<longleftrightarrow> (\<exists>a. x = Inl a \<and> f a = y) \<or> (\<exists>b. x = Inr b \<and> g b = y)"
  by (cases x) auto

lemma option_case_eq:
  "(case x of None \<Rightarrow> a | Some b \<Rightarrow> f b) = y \<longleftrightarrow> (x = None \<and> a = y) \<or> (\<exists>b. x = Some b \<and> f b = y)"
  by (cases x) auto

lemma resolveOrderLine_RESOLVED:
  "resolveOrderLine z menu line ctx = Inr (RESOLVED r) \<longleftrightarrow>
     map_of (items_by_id menu) (ol_itemId line) = Some (rl_item r) \<and> rl_request r = line \<and>
     item_ok z ctx (rl_item r) line \<and>
     validateSelection (selectable menu (rl_item r)) (line_selection line) = [] \<and>
     combo_ok z ctx menu line (rl_item r) (rl_components r) \<and>
     unitPriceOf (selectable menu (rl_item r)) (line_selection line) = Inr (rl_unitPrice r) \<and>
     rl_variantName r = variant_name (rl_item r) line \<and>
     rl_modifiers r = line_modifiers (groups_of menu (rl_item r)) line"
proof (cases "map_of (items_by_id menu) (ol_itemId line)")
  case None
  then show ?thesis by (simp add: resolveOrderLine_def rejectLine_def)
next
  case (Some item)
  have r: "\<lparr>rl_request = a, rl_item = b, rl_variantName = c, rl_modifiers = d, rl_unitPrice = e, rl_components = f\<rparr> = r \<longleftrightarrow>
      rl_request r = a \<and> rl_item r = b \<and> rl_variantName r = c \<and> rl_modifiers r = d \<and> rl_unitPrice r = e \<and> rl_components r = f"
    for a b c d e f by (cases r) auto
  show ?thesis
    unfolding resolveOrderLine_def item_problem_None [symmetric] resolve_combo_Inr [symmetric]
    by (auto simp: Some bindE_Inr_iff rejectLine_def Let_def r option_case_eq sum_case_eq)
qed

section \<open>What is charged is what is recorded\<close>

lemma delta_of_member:
  assumes "distinct (map mo_id (mg_options g))" "opt \<in> set (mg_options g)"
  shows "delta g (mo_id opt) = mo_priceDelta opt"
proof -
  have "find (\<lambda>candidate. mo_id candidate = mo_id opt) opts = Some opt"
    if "distinct (map mo_id opts)" "opt \<in> set opts" for opts
    using that by (induction opts) auto
  then show ?thesis using assms by (simp add: delta_def)
qed

lemma chosen_deltas:
  assumes "distinct (map mo_id (mg_options g))" "group_ok g ids"
  shows "mset (map (delta g) ids) = mset (map mo_priceDelta (filter (\<lambda>opt. mo_id opt \<in> set ids) (mg_options g)))"
proof -
  let ?F = "{opt \<in> set (mg_options g). mo_id opt \<in> set ids}"
  have opts: "distinct (mg_options g)" using assms(1) by (simp add: distinct_map)
  have image: "mo_id ` ?F = set ids" using assms(2) by (force simp: group_ok_def known_option_def)
  have inj: "inj_on mo_id ?F" by (rule inj_on_subset [of _ "set (mg_options g)"]) (use assms(1) in \<open>auto simp: distinct_map\<close>)
  have "mset ids = mset_set (set ids)" using assms(2) by (simp add: group_ok_def mset_set_set)
  also have "\<dots> = image_mset mo_id (mset_set ?F)" by (simp only: image_mset_mset_set [OF inj] image)
  finally have ids: "mset ids = image_mset mo_id (mset_set ?F)" .
  have "mset (filter (\<lambda>opt. mo_id opt \<in> set ids) (mg_options g)) = mset_set (set (filter (\<lambda>opt. mo_id opt \<in> set ids) (mg_options g)))"
    using opts by (simp only: mset_set_set distinct_filter)
  then have "mset (filter (\<lambda>opt. mo_id opt \<in> set ids) (mg_options g)) = mset_set ?F" by (simp only: set_filter)
  then have "mset (map mo_priceDelta (filter (\<lambda>opt. mo_id opt \<in> set ids) (mg_options g))) = image_mset mo_priceDelta (mset_set ?F)"
    by (simp only: mset_map)
  also have "\<dots> = image_mset (\<lambda>opt. delta g (mo_id opt)) (mset_set ?F)"
    by (rule image_mset_cong) (use delta_of_member [OF assms(1)] in simp)
  finally show ?thesis by (simp add: ids multiset.map_comp comp_def)
qed

lemma distinct_concat_map_inj:
  assumes "distinct (concat (map f xs))" "x \<in> set xs" "y \<in> set xs" "z \<in> set (f x)" "z \<in> set (f y)"
  shows "x = y"
  using assms(1-3)
proof (induction xs)
  case (Cons a xs)
  have rest: "distinct (concat (map f xs))" and apart: "b \<in> set xs \<Longrightarrow> set (f a) \<inter> set (f b) = {}" for b
    using Cons.prems(1) by auto
  show ?case
    using Cons.IH [OF rest] Cons.prems(2,3) apart [of x] apart [of y] assms(4,5) by auto
qed simp

lemma distinct_concat_map_each: "distinct (concat (map f xs)) \<Longrightarrow> x \<in> set xs \<Longrightarrow> distinct (f x)"
  by (induction xs) auto

text \<open>Of a selection the menu allows, the recorded modifiers are the ones the price was made of.\<close>

lemma recorded_deltas:
  assumes sel: "validateSelection (selectable menu item) (line_selection line) = []"
    and ids: "distinct (concat (map (\<lambda>g. map mo_id (mg_options g)) (groups_of menu item)))"
  shows "mset (deltas (selectable menu item) (line_selection line)) =
    mset (map lm_priceDelta (line_modifiers (groups_of menu item) line))"
proof -
  let ?groups = "groups_of menu item" and ?sel = "line_selection line"
  let ?chosen = "concat (map cm_optionIds (ol_modifiers line))"
  have rules: "groups_known (selectable menu item) ?sel" and ok: "\<And>g. g \<in> set ?groups \<Longrightarrow> group_ok g (options_of ?sel g)"
    using sel selection_exact [of "selectable menu item" ?sel] by (auto simp: list_all_iff selectable_def list_or_empty_def)
  have groups: "distinct (map cm_groupId (ol_modifiers line))"
    and known: "\<And>c. c \<in> set (ol_modifiers line) \<Longrightarrow> \<exists>g \<in> set ?groups. mg_id g = cm_groupId c"
    using rules by (auto simp: groups_known_def line_selection_def selectable_def list_or_empty_def)
  have opts: "options_of ?sel g = cm_optionIds c" if "c \<in> set (ol_modifiers line)" "cm_groupId c = mg_id g" for c g
  proof -
    have "map_of (map (\<lambda>c. (cm_groupId c, cm_optionIds c)) (ol_modifiers line)) (cm_groupId c) = Some (cm_optionIds c)"
      using groups that(1) by (intro map_of_is_SomeI) (auto simp: comp_def)
    then show ?thesis using that(2) by (simp add: options_of_def line_selection_def list_or_empty_def)
  qed
  have member: "mo_id opt \<in> set ?chosen \<longleftrightarrow> mo_id opt \<in> set (options_of ?sel g)"
    if g: "g \<in> set ?groups" "opt \<in> set (mg_options g)" for g opt
  proof
    assume "mo_id opt \<in> set ?chosen"
    then obtain c where c: "c \<in> set (ol_modifiers line)" "mo_id opt \<in> set (cm_optionIds c)" by auto
    obtain g' where g': "g' \<in> set ?groups" "mg_id g' = cm_groupId c" using known [OF c(1)] by blast
    have "known_option g' (mo_id opt)" using ok [OF g'(1)] opts [OF c(1)] g'(2) c(2) by (auto simp: group_ok_def)
    then have "mo_id opt \<in> set (map mo_id (mg_options g'))" by (metis known_option_def image_eqI set_map)
    then have "g' = g" using distinct_concat_map_inj [OF ids g'(1) g(1), of "mo_id opt"] g(2) by simp
    then show "mo_id opt \<in> set (options_of ?sel g)" using opts [OF c(1)] g'(2) c(2) by simp
  next
    assume "mo_id opt \<in> set (options_of ?sel g)"
    then obtain ids where ids: "map_of (map (\<lambda>c. (cm_groupId c, cm_optionIds c)) (ol_modifiers line)) (mg_id g) = Some ids" "mo_id opt \<in> set ids"
      by (cases "map_of (map (\<lambda>c. (cm_groupId c, cm_optionIds c)) (ol_modifiers line)) (mg_id g)")
        (simp_all add: options_of_def line_selection_def list_or_empty_def)
    show "mo_id opt \<in> set ?chosen" using map_of_SomeD [OF ids(1)] ids(2) by auto
  qed
  have each: "mset (map (delta g) (options_of ?sel g)) =
      mset (map mo_priceDelta (filter (\<lambda>opt. mo_id opt \<in> set ?chosen) (mg_options g)))" if g: "g \<in> set ?groups" for g
    using chosen_deltas [OF distinct_concat_map_each [OF ids g] ok [OF g]] member [OF g]
    by (simp cong: filter_cong)
  have sum: "mset (concat (map f gs)) = mset (concat (map h gs))" if "\<And>g. g \<in> set gs \<Longrightarrow> mset (f g) = mset (h g)"
    for f h :: "ModifierGroupDef \<Rightarrow> number list" and gs
    using that by (induction gs) auto
  have "map lm_priceDelta (line_modifiers ?groups line) =
      concat (map (\<lambda>g. map mo_priceDelta (filter (\<lambda>opt. mo_id opt \<in> set ?chosen) (mg_options g))) ?groups)"
    by (simp add: line_modifiers_def Let_def map_concat comp_def)
  then show ?thesis using sum [of ?groups, OF each] by (simp add: deltas_def selectable_def list_or_empty_def)
qed

section \<open>The rules of the menu\<close>

text \<open>
  The rules an order line obeys, said of the menu itself: what is taken of a list where an id stands twice, hours as the time outside
  the closed ones, dates as bounds, and a selection group by group.
\<close>

definition last_with :: "('a \<Rightarrow> string) \<Rightarrow> string \<Rightarrow> 'a list \<Rightarrow> 'a list" where
  "last_with key i xs = take 1 (rev (filter (\<lambda>x. key x = i) xs))"

definition first_with :: "('a \<Rightarrow> string) \<Rightarrow> string \<Rightarrow> 'a list \<Rightarrow> 'a list" where
  "first_with key i xs = take 1 (filter (\<lambda>x. key x = i) xs)"

definition open_at :: "zone_clock \<Rightarrow> LineCheckContext \<Rightarrow> time_window option \<Rightarrow> bool" where
  "open_at z ctx window \<longleftrightarrow>
     (\<forall>start stop. window = Some (start, stop) \<longrightarrow>
        (\<exists>time. timeOfDayOf z (lc_now ctx) (lc_timeZone ctx) = Inr time \<and>
           (if js_less stop start then \<not> (\<not> js_less time stop \<and> js_less time start)
            else \<not> (js_less time start \<or> \<not> js_less time stop))))"

definition within_dates :: "zone_clock \<Rightarrow> LineCheckContext \<Rightarrow> Combo \<Rightarrow> bool" where
  "within_dates z ctx combo \<longleftrightarrow>
     (\<exists>today. calendarDateOf z (lc_now ctx) (lc_timeZone ctx) = Inr today \<and>
        (\<forall>first. co_activeFrom combo = Some first \<longrightarrow> \<not> js_less today first) \<and>
        (\<forall>final. co_activeUntil combo = Some final \<longrightarrow> \<not> js_less final today))"

definition item_offered :: "zone_clock \<Rightarrow> LineCheckContext \<Rightarrow> MenuItem \<Rightarrow> OrderLineRequest \<Rightarrow> bool" where
  "item_offered z ctx item line \<longleftrightarrow>
     \<not> mi_archived item \<and> mi_available item \<and> lc_channel ctx \<in> set (mi_channels item) \<and> open_at z ctx (mi_timeWindow item) \<and>
     (\<forall>text. ol_instructions line = Some text \<longrightarrow> int (length text) \<le> lc_instructionMaxLength ctx) \<and>
     (ol_instructions line = None \<longrightarrow> 0 \<le> lc_instructionMaxLength ctx)"

definition groups_offered :: "MenuSnapshot \<Rightarrow> MenuItem \<Rightarrow> ModifierGroupDef list" where
  "groups_offered menu item = concat (map (\<lambda>i. last_with mg_id i (ms_modifierGroups menu)) (mi_modifierGroupIds item))"

text \<open>What the line chooses of a group, and of any group.\<close>

definition chosen_of :: "OrderLineRequest \<Rightarrow> ModifierGroupDef \<Rightarrow> string list" where
  "chosen_of line g = concat (map cm_optionIds (filter (\<lambda>c. cm_groupId c = mg_id g) (ol_modifiers line)))"

definition chosen_ids :: "OrderLineRequest \<Rightarrow> string set" where
  "chosen_ids line = (\<Union>c \<in> set (ol_modifiers line). set (cm_optionIds c))"

definition selection_allowed :: "MenuItem \<Rightarrow> ModifierGroupDef list \<Rightarrow> OrderLineRequest \<Rightarrow> bool" where
  "selection_allowed item groups line \<longleftrightarrow>
     (ol_variantId line = None \<longleftrightarrow> mi_variants item = []) \<and>
     (\<forall>v. ol_variantId line = Some v \<longrightarrow> v \<in> vd_id ` set (mi_variants item)) \<and>
     distinct (map cm_groupId (ol_modifiers line)) \<and> cm_groupId ` set (ol_modifiers line) \<subseteq> mg_id ` set groups \<and>
     (\<forall>g \<in> set groups. distinct (chosen_of line g) \<and> set (chosen_of line g) \<subseteq> mo_id ` set (mg_options g) \<and>
        mg_minSelections g \<le> int (length (chosen_of line g)) \<and> int (length (chosen_of line g)) \<le> mg_maxSelections g)"

text \<open>The price to start from, and the changes of the options chosen, in the order of the groups.\<close>

definition starting_price :: "MenuItem \<Rightarrow> OrderLineRequest \<Rightarrow> Paise" where
  "starting_price item line =
     (case ol_variantId line of None \<Rightarrow> mi_basePrice item | Some v \<Rightarrow> vd_price (hd (first_with vd_id v (mi_variants item))))"

definition price_changes :: "ModifierGroupDef list \<Rightarrow> OrderLineRequest \<Rightarrow> Paise list" where
  "price_changes groups line =
     concat (map (\<lambda>g. concat (map (\<lambda>opt. map mo_priceDelta (first_with mo_id opt (mg_options g))) (chosen_of line g))) groups)"

fun components_taken :: "ComboComponent list \<Rightarrow> string list \<Rightarrow> (string \<times> number) list \<Rightarrow> bool" where
  "components_taken [] choices parts \<longleftrightarrow> choices = [] \<and> parts = []"
| "components_taken (FIXED itemId quantity # components) choices parts \<longleftrightarrow>
     (\<exists>rest. parts = (itemId, quantity) # rest \<and> components_taken components choices rest)"
| "components_taken (CHOICE label itemIds quantity # components) choices parts \<longleftrightarrow>
     (\<exists>itemId others rest. choices = itemId # others \<and> itemId \<in> set itemIds \<and> parts = (itemId, quantity) # rest \<and>
        components_taken components others rest)"

definition combo_offered ::
  "zone_clock \<Rightarrow> LineCheckContext \<Rightarrow> MenuSnapshot \<Rightarrow> OrderLineRequest \<Rightarrow> MenuItem \<Rightarrow> (MenuItem \<times> number) list \<Rightarrow> bool" where
  "combo_offered z ctx menu line item parts \<longleftrightarrow>
     (let choices = (case ol_comboChoices line of None \<Rightarrow> [] | Some ids \<Rightarrow> ids)
      in case filter (\<lambda>combo. co_itemId combo = mi_id item) (ms_combos menu) of
           [] \<Rightarrow> choices = [] \<and> parts = []
         | combo # _ \<Rightarrow>
             within_dates z ctx combo \<and> open_at z ctx (co_timeWindow combo) \<and>
             (\<exists>taken. components_taken (co_components combo) choices taken \<and>
                list_all2 (\<lambda>(itemId, quantity) (part, n). last_with mi_id itemId (ms_items menu) = [part] \<and> mi_available part \<and>
                  open_at z ctx (mi_timeWindow part) \<and> n = quantity) taken parts))"

text \<open>The code's look-ups and checks are these.\<close>

lemma map_of_last:
  "map_of (foldl (\<lambda>m x. map_set (key x) x m) m xs) i =
     (case last_with key i xs of [] \<Rightarrow> map_of m i | x # _ \<Rightarrow> Some x)"
proof (induction xs arbitrary: m)
  case (Cons x xs)
  have "last_with key i (x # xs) = (if last_with key i xs = [] \<and> key x = i then [x] else last_with key i xs)"
    by (cases "rev (filter (\<lambda>x. key x = i) xs)") (simp_all add: last_with_def)
  then show ?case using Cons.IH [of "map_set (key x) x m"] by (auto split: list.splits)
qed (simp add: last_with_def)

lemma last_with_cases: "last_with key i xs = [] \<or> (\<exists>x. last_with key i xs = [x])"
  by (cases "rev (filter (\<lambda>x. key x = i) xs)") (auto simp: last_with_def)

lemma map_of_last_Some: "map_of (foldl (\<lambda>m x. map_set (key x) x m) [] xs) i = Some x \<longleftrightarrow> last_with key i xs = [x]"
  using last_with_cases [of key i xs] by (auto simp: map_of_last)

lemma first_with_find: "find (\<lambda>x. key x = i) xs = (case first_with key i xs of [] \<Rightarrow> None | x # _ \<Rightarrow> Some x)"
  by (induction xs) (auto simp: first_with_def)

lemma first_with_cases: "first_with key i xs = (case find (\<lambda>x. key x = i) xs of None \<Rightarrow> [] | Some x \<Rightarrow> [x])"
  by (induction xs) (auto simp: first_with_def)

lemma groups_offered_of: "groups_of menu item = groups_offered menu item"
proof -
  have "(case map_of (groups_by_id menu) i of None \<Rightarrow> [] | Some g \<Rightarrow> [g]) = last_with mg_id i (ms_modifierGroups menu)" for i
    using last_with_cases [of mg_id i "ms_modifierGroups menu"] by (auto simp: groups_by_id_def map_of_last)
  then show ?thesis by (simp add: groups_of_def groups_offered_def)
qed

lemma open_at_in_hours: "in_hours z ctx window \<longleftrightarrow> open_at z ctx window"
proof (cases window)
  case (Some w)
  have le: "\<not> js_less start stop \<Longrightarrow> \<not> js_less stop start \<Longrightarrow> start = stop" for start stop using js_less_total by blast
  have "\<not> js_less time start" if "js_less stop start" "\<not> js_less time stop" "\<not> js_less time start" for time start stop using that by blast
  then show ?thesis using Some
    by (cases w) (auto simp: in_hours_def window_on_def open_at_def inTimeWindow_def bindE_Inr_iff)
qed (simp add: in_hours_def window_on_def open_at_def)

lemma combo_on: "comboOnNow z combo (lc_now ctx) (lc_timeZone ctx) = Inr True \<longleftrightarrow>
    within_dates z ctx combo \<and> open_at z ctx (co_timeWindow combo)"
  by (auto simp: comboOnNow_def within_dates_def open_at_in_hours [symmetric] in_hours_def bindE_Inr_iff split: option.splits if_splits)

lemma item_offered_ok: "item_ok z ctx item line \<longleftrightarrow> item_offered z ctx item line"
  by (auto simp: item_ok_def item_offered_def open_at_in_hours split: option.splits)

lemma components_picked:
  "components_taken components choices taken \<longleftrightarrow>
     (\<exists>ids. picks components choices = Some ids \<and> length choices = length (filter is_choice components) \<and>
        taken = zip ids (map cc_quantity components))"
proof (induction components choices taken rule: components_taken.induct)
  case (2 itemId quantity components choices parts)
  then show ?case by (auto simp: is_choice_def)
next
  case (3 label itemIds quantity components choices parts)
  then show ?case by (cases choices) (auto simp: is_choice_def)
qed auto

lemma list_all2_zip_parts:
  "length ids = length qs \<Longrightarrow> list_all2 (\<lambda>(i, q) (p, n). P i p \<and> n = q) (zip ids qs) parts \<longleftrightarrow>
     length parts = length ids \<and> (\<forall>k < length ids. P (ids ! k) (fst (parts ! k)) \<and> snd (parts ! k) = qs ! k)"
  by (auto simp: list_all2_conv_all_nth case_prod_beta)

lemma combo_offered_ok: "combo_ok z ctx menu line item parts \<longleftrightarrow> combo_offered z ctx menu line item parts"
proof -
  have combo: "comboOf menu item = (case filter (\<lambda>combo. co_itemId combo = mi_id item) (ms_combos menu) of [] \<Rightarrow> None | combo # _ \<Rightarrow> Some combo)"
    unfolding comboOf_def first_with_find [of co_itemId] by (cases "filter (\<lambda>combo. co_itemId combo = mi_id item) (ms_combos menu)") (simp_all add: first_with_def)
  have parts: "length choices = length (filter is_choice components) \<and> parts_ok z ctx menu components choices parts \<longleftrightarrow>
      (\<exists>taken. components_taken components choices taken \<and>
         list_all2 (\<lambda>(itemId, quantity) (part, n). last_with mi_id itemId (ms_items menu) = [part] \<and> mi_available part \<and>
           open_at z ctx (mi_timeWindow part) \<and> n = quantity) taken parts)" for components choices
  proof (cases "picks components choices")
    case (Some ids)
    have len: "length ids = length (map cc_quantity components)" using picks_length [OF Some] by simp
    show ?thesis
      using list_all2_zip_parts [OF len, of "\<lambda>i p. last_with mi_id i (ms_items menu) = [p] \<and> mi_available p \<and> open_at z ctx (mi_timeWindow p)" parts]
        picks_length [OF Some]
      by (auto simp: components_picked Some parts_ok_def part_ok_def items_by_id_def map_of_last_Some open_at_in_hours)
  qed (simp add: parts_ok_def components_picked)
  show ?thesis
    by (cases "filter (\<lambda>combo. co_itemId combo = mi_id item) (ms_combos menu)")
      (simp_all add: combo_ok_def combo_offered_def combo combo_on list_or_empty_def parts Let_def)
qed

lemma chosen_options: "distinct (map cm_groupId (ol_modifiers line)) \<Longrightarrow> options_of (line_selection line) g = chosen_of line g"
proof -
  have "list_or_empty (map_of (map (\<lambda>c. (cm_groupId c, cm_optionIds c)) cs) i) = concat (map cm_optionIds (filter (\<lambda>c. cm_groupId c = i) cs))"
    if "distinct (map cm_groupId cs)" for cs i
    using that
  proof (induction cs)
    case (Cons c cs)
    show ?case
    proof (cases "cm_groupId c = i")
      case True
      then have "\<forall>x \<in> set cs. cm_groupId x \<noteq> i" using Cons.prems by (metis distinct.simps(2) image_eqI list.set_map list.simps(9))
      then show ?thesis using True by (simp add: list_or_empty_def filter_False)
    qed (use Cons in \<open>simp add: list_or_empty_def\<close>)
  qed (simp add: list_or_empty_def)
  then show "distinct (map cm_groupId (ol_modifiers line)) \<Longrightarrow> options_of (line_selection line) g = chosen_of line g"
    by (simp add: options_of_def chosen_of_def line_selection_def list_or_empty_def)
qed

lemma selection_rules:
  "variant_ok (selectable menu item) (line_selection line) \<and> groups_known (selectable menu item) (line_selection line) \<and>
   list_all (\<lambda>g. group_ok g (options_of (line_selection line) g)) (list_or_empty (si_modifierGroups (selectable menu item))) \<longleftrightarrow>
   selection_allowed item (groups_offered menu item) line"
proof (cases "distinct (map cm_groupId (ol_modifiers line))")
  case True
  note opts = chosen_options [OF True]
  have variant: "variant_ok (selectable menu item) (line_selection line) \<longleftrightarrow> (ol_variantId line = None \<longleftrightarrow> mi_variants item = []) \<and>
      (\<forall>v. ol_variantId line = Some v \<longrightarrow> v \<in> vd_id ` set (mi_variants item))"
    by (cases "ol_variantId line") (auto simp: variant_ok_def selectable_def line_selection_def list_or_empty_def)
  have known: "groups_known (selectable menu item) (line_selection line) \<longleftrightarrow> cm_groupId ` set (ol_modifiers line) \<subseteq> mg_id ` set (groups_offered menu item)"
    using True by (force simp: groups_known_def selectable_def line_selection_def list_or_empty_def groups_offered_of)
  have group: "group_ok g ids \<longleftrightarrow> distinct ids \<and> set ids \<subseteq> mo_id ` set (mg_options g) \<and>
      mg_minSelections g \<le> int (length ids) \<and> int (length ids) \<le> mg_maxSelections g" for g ids
    by (force simp: group_ok_def known_option_def)
  have groups: "list_or_empty (si_modifierGroups (selectable menu item)) = groups_offered menu item"
    by (simp add: selectable_def list_or_empty_def groups_offered_of)
  show ?thesis unfolding selection_allowed_def variant known group opts list_all_iff groups using True by blast
next
  case False
  then show ?thesis by (simp add: selection_allowed_def groups_known_def line_selection_def list_or_empty_def)
qed

lemma selection_start:
  assumes "selection_allowed item (groups_offered menu item) line"
  shows "fst (basePriceFor (selectable menu item) (line_selection line)) = starting_price item line"
proof (cases "ol_variantId line")
  case (Some v)
  then have "v \<in> vd_id ` set (mi_variants item)" using assms by (simp add: selection_allowed_def)
  then obtain x where "find (\<lambda>candidate. vd_id candidate = v) (mi_variants item) = Some x"
    by (cases "find (\<lambda>candidate. vd_id candidate = v) (mi_variants item)") (auto simp: find_None_iff)
  then show ?thesis using Some
    by (auto simp: basePriceFor_def selectable_def line_selection_def list_or_empty_def starting_price_def first_with_cases Let_def)
qed (use assms in \<open>auto simp: basePriceFor_def selectable_def line_selection_def list_or_empty_def starting_price_def selection_allowed_def Let_def\<close>)

lemma selection_price:
  assumes "selection_allowed item (groups_offered menu item) line"
  shows "price_of_selection (selectable menu item) (line_selection line) =
    js_total (starting_price item line) (price_changes (groups_offered menu item) line)"
proof -
  have dist: "distinct (map cm_groupId (ol_modifiers line))" using assms by (simp add: selection_allowed_def)
  have each: "map (delta g) ids = concat (map (\<lambda>opt. map mo_priceDelta (first_with mo_id opt (mg_options g))) ids)"
    if "set ids \<subseteq> mo_id ` set (mg_options g)" for g ids
    using that
  proof (induction ids)
    case (Cons opt ids)
    then obtain x where "find (\<lambda>candidate. mo_id candidate = opt) (mg_options g) = Some x"
      by (cases "find (\<lambda>candidate. mo_id candidate = opt) (mg_options g)") (auto simp: find_None_iff)
    then show ?case using Cons by (simp add: delta_def first_with_cases)
  qed simp
  have "deltas (selectable menu item) (line_selection line) = price_changes (groups_offered menu item) line"
    unfolding deltas_def price_changes_def
  proof (rule arg_cong [of _ _ concat], rule map_cong)
    show "list_or_empty (si_modifierGroups (selectable menu item)) = groups_offered menu item"
      by (simp add: selectable_def list_or_empty_def groups_offered_of)
    fix g assume "g \<in> set (groups_offered menu item)"
    then have "set (chosen_of line g) \<subseteq> mo_id ` set (mg_options g)" using assms by (simp add: selection_allowed_def)
    then show "map (delta g) (options_of (line_selection line) g) =
        concat (map (\<lambda>opt. map mo_priceDelta (first_with mo_id opt (mg_options g))) (chosen_of line g))"
      unfolding chosen_options [OF dist] by (rule each)
  qed
  then show ?thesis by (simp add: price_of_selection_def selection_start [OF assms])
qed

lemma recorded_modifiers:
  "line_modifiers groups line =
     concat (map (\<lambda>g. map (\<lambda>opt. \<lparr>lm_optionId = mo_id opt, lm_name = mo_name opt, lm_priceDelta = mo_priceDelta opt\<rparr>)
       (filter (\<lambda>opt. mo_id opt \<in> chosen_ids line) (mg_options g))) groups)"
  by (simp add: line_modifiers_def chosen_ids_def Let_def cong: map_cong filter_cong)

lemma recorded_variant:
  assumes "selection_allowed item groups line"
  shows "variant_name item line = map_option (\<lambda>v. vd_name (hd (first_with vd_id v (mi_variants item)))) (ol_variantId line)"
proof (cases "ol_variantId line")
  case (Some v)
  then have "v \<in> vd_id ` set (mi_variants item)" using assms by (simp add: selection_allowed_def)
  then obtain x where "find (\<lambda>candidate. vd_id candidate = v) (mi_variants item) = Some x"
    by (cases "find (\<lambda>candidate. vd_id candidate = v) (mi_variants item)") (auto simp: find_None_iff)
  then show ?thesis using Some by (simp add: variant_name_def first_with_cases)
qed (simp add: variant_name_def find_None_iff)

text \<open>
  C13: an order line is resolved exactly when the menu offers it now. The item is on the menu and not
  archived, available, sold on the channel and in its hours, its instructions are short enough, the
  selection obeys the rules of the menu group by group and its price is an amount; a combo is on by its dates and hours, every choice is one its
  slot offers and none is missing or left over, and every part is available and in its hours. What
  is then recorded is determined: the item, the name of the variant chosen, the options chosen with their names and changes, the parts
  with their quantities, and the price.
\<close>

theorem order_line_taken_iff:
  "resolveOrderLine z menu line ctx = Inr (RESOLVED r) \<longleftrightarrow>
     (let item = rl_item r; groups = groups_offered menu item
      in rl_request r = line \<and> last_with mi_id (ol_itemId line) (ms_items menu) = [item] \<and>
         item_offered z ctx item line \<and> selection_allowed item groups line \<and>
         combo_offered z ctx menu line item (rl_components r) \<and>
         rl_unitPrice r = js_total (starting_price item line) (price_changes groups line) \<and>
         0 \<le> rl_unitPrice r \<and> isSafeInteger (rl_unitPrice r) \<and>
         rl_variantName r = map_option (\<lambda>v. vd_name (hd (first_with vd_id v (mi_variants item)))) (ol_variantId line) \<and>
         rl_modifiers r =
           concat (map (\<lambda>g. map (\<lambda>opt. \<lparr>lm_optionId = mo_id opt, lm_name = mo_name opt, lm_priceDelta = mo_priceDelta opt\<rparr>)
             (filter (\<lambda>opt. mo_id opt \<in> chosen_ids line) (mg_options g))) groups))"
proof -
  let ?def = "selectable menu (rl_item r)" and ?sel = "line_selection line"
  have "validateSelection ?def ?sel = [] \<and> unitPriceOf ?def ?sel = Inr (rl_unitPrice r) \<longleftrightarrow>
      selection_allowed (rl_item r) (groups_offered menu (rl_item r)) line \<and>
      rl_unitPrice r = js_total (starting_price (rl_item r) line) (price_changes (groups_offered menu (rl_item r)) line) \<and>
      0 \<le> rl_unitPrice r \<and> isSafeInteger (rl_unitPrice r)"
    using selection_exact [of ?def ?sel "rl_unitPrice r"] selection_rules [of menu "rl_item r" line] selection_price [of "rl_item r" menu line]
    by auto
  then show ?thesis
    unfolding resolveOrderLine_RESOLVED Let_def item_offered_ok combo_offered_ok groups_offered_of recorded_modifiers
    by (auto simp: items_by_id_def map_of_last_Some recorded_variant)
qed

lemma chosen_known:
  assumes "selection_allowed item groups line" "opt \<in> chosen_ids line"
  shows "\<exists>g \<in> set groups. opt \<in> mo_id ` set (mg_options g)"
proof -
  obtain c where c: "c \<in> set (ol_modifiers line)" "opt \<in> set (cm_optionIds c)" using assms(2) by (auto simp: chosen_ids_def)
  then obtain g where g: "g \<in> set groups" "cm_groupId c = mg_id g" using assms(1) by (auto simp: selection_allowed_def)
  then have "opt \<in> set (chosen_of line g)" using c by (auto simp: chosen_of_def)
  moreover have "set (chosen_of line g) \<subseteq> mo_id ` set (mg_options g)" using g(1) assms(1) by (simp add: selection_allowed_def)
  ultimately show ?thesis using g(1) by blast
qed

text \<open>
  C14: what is charged for a line is what is recorded of it. Where no two options of an item share an id and the amounts stay within
  the safe integers, a resolved line of an item without variants records no variant and costs the item's price
  with the changes of the modifiers it records; one with a variant records the name of that variant and costs the variant's price with them. The
  modifiers it records are the options it chose, each once.
\<close>

theorem charged_as_recorded:
  assumes "resolveOrderLine z menu line ctx = Inr (RESOLVED r)"
    and "distinct (concat (map (\<lambda>g. map mo_id (mg_options g)) (groups_offered menu (rl_item r))))"
    and "\<forall>base \<in> insert (mi_basePrice (rl_item r)) (vd_price ` set (mi_variants (rl_item r))).
      isSafeInteger (\<bar>base\<bar> + sum_list (map (\<lambda>m. \<bar>lm_priceDelta m\<bar>) (rl_modifiers r)))"
  shows "(case ol_variantId line of
      None \<Rightarrow> mi_variants (rl_item r) = [] \<and> rl_variantName r = None \<and>
        rl_unitPrice r = mi_basePrice (rl_item r) + sum_list (map lm_priceDelta (rl_modifiers r))
    | Some v \<Rightarrow> \<exists>variant \<in> set (mi_variants (rl_item r)). vd_id variant = v \<and> rl_variantName r = Some (vd_name variant) \<and>
        rl_unitPrice r = vd_price variant + sum_list (map lm_priceDelta (rl_modifiers r))) \<and>
    0 \<le> rl_unitPrice r \<and> distinct (map lm_optionId (rl_modifiers r)) \<and> set (map lm_optionId (rl_modifiers r)) = chosen_ids line"
proof -
  let ?item = "rl_item r" and ?sel = "line_selection line"
  let ?groups = "groups_offered menu ?item"
  note r = assms(1) [unfolded resolveOrderLine_RESOLVED]
  have valid: "validateSelection (selectable menu ?item) ?sel = []" and unit: "unitPriceOf (selectable menu ?item) ?sel = Inr (rl_unitPrice r)"
    using r by blast+
  have allowed: "selection_allowed ?item ?groups line"
    using selection_exact [of "selectable menu ?item" ?sel] selection_rules [of menu ?item line] valid by blast
  have price: "rl_unitPrice r = js_total (starting_price ?item line) (deltas (selectable menu ?item) ?sel)" "0 \<le> rl_unitPrice r"
    using selection_exact [of "selectable menu ?item" ?sel "rl_unitPrice r"] valid unit
    by (simp_all add: price_of_selection_def selection_start [OF allowed])
  have recorded: "rl_modifiers r = line_modifiers ?groups line" "rl_variantName r = variant_name ?item line"
    using r by (simp_all add: groups_offered_of)
  have "mset (deltas (selectable menu ?item) ?sel) = mset (map lm_priceDelta (rl_modifiers r))"
    using recorded_deltas [OF valid] assms(2) recorded(1) by (simp add: groups_offered_of)
  then have sums: "sum_list (map f (deltas (selectable menu ?item) ?sel)) = sum_list (map f (map lm_priceDelta (rl_modifiers r)))" for f :: "int \<Rightarrow> int"
    by (metis mset_map sum_mset_sum_list)
  have variant: "case ol_variantId line of
      None \<Rightarrow> mi_variants ?item = [] \<and> rl_variantName r = None \<and> starting_price ?item line = mi_basePrice ?item
    | Some v \<Rightarrow> \<exists>variant \<in> set (mi_variants ?item). vd_id variant = v \<and> rl_variantName r = Some (vd_name variant) \<and>
        starting_price ?item line = vd_price variant"
  proof (cases "ol_variantId line")
    case (Some v)
    then have "v \<in> vd_id ` set (mi_variants ?item)" using allowed by (simp add: selection_allowed_def)
    then obtain x where x: "find (\<lambda>candidate. vd_id candidate = v) (mi_variants ?item) = Some x"
      by (cases "find (\<lambda>candidate. vd_id candidate = v) (mi_variants ?item)") (auto simp: find_None_iff)
    then have "x \<in> set (mi_variants ?item)" "vd_id x = v" by (auto simp: find_Some_iff)
    then show ?thesis using Some x by (auto simp: recorded(2) recorded_variant [OF allowed] starting_price_def first_with_cases)
  qed (use allowed in \<open>simp add: recorded(2) recorded_variant [OF allowed] starting_price_def selection_allowed_def\<close>)
  then have "starting_price ?item line \<in> insert (mi_basePrice ?item) (vd_price ` set (mi_variants ?item))"
    by (auto split: option.splits)
  then have "isSafeInteger (\<bar>starting_price ?item line\<bar> + sum_list (map (\<lambda>m. \<bar>lm_priceDelta m\<bar>) (rl_modifiers r)))" using assms(3) by blast
  then have "isSafeInteger (\<bar>starting_price ?item line\<bar> + sum_list (map abs (deltas (selectable menu ?item) ?sel)))"
    unfolding sums [of abs] by (simp add: comp_def)
  from js_total_abs [OF this] have "rl_unitPrice r = starting_price ?item line + sum_list (map lm_priceDelta (rl_modifiers r))"
    using price(1) sums [of "\<lambda>x. x"] by simp
  moreover have "map lm_optionId (rl_modifiers r) = filter (\<lambda>i. i \<in> chosen_ids line) (concat (map (\<lambda>g. map mo_id (mg_options g)) ?groups))"
    by (simp add: recorded(1) recorded_modifiers map_concat filter_concat comp_def filter_map)
  moreover have "chosen_ids line \<subseteq> set (concat (map (\<lambda>g. map mo_id (mg_options g)) ?groups))"
    using chosen_known [OF allowed] by auto
  ultimately have "distinct (map lm_optionId (rl_modifiers r))" "set (map lm_optionId (rl_modifiers r)) = chosen_ids line"
    and "rl_unitPrice r = starting_price ?item line + sum_list (map lm_priceDelta (rl_modifiers r))"
    using assms(2) by (auto simp only: distinct_filter set_filter)
  then show ?thesis using price(2) variant by (cases "ol_variantId line") (simp_all only: option.case, auto)
qed

definition sample_groups :: "ModifierGroupDef list" where
  "sample_groups =
     [\<lparr>mg_id = ''extra'', mg_name = ''Extras'', mg_minSelections = 0, mg_maxSelections = 2,
       mg_options = [\<lparr>mo_id = ''cheese'', mo_name = ''Cheese'', mo_priceDelta = 4000\<rparr>,
                     \<lparr>mo_id = ''plain'', mo_name = ''No butter'', mo_priceDelta = - 1000\<rparr>]\<rparr>]"

definition sample_item :: MenuItem where
  "sample_item =
     \<lparr>mi_id = ''naan'', mi_name = ''Naan'', mi_basePrice = 6000, mi_taxGroupId = ''gst5'', mi_stationId = ''tandoor'',
      mi_timeWindow = None, mi_available = True, mi_stockCount = None, mi_channels = [CH_POS],
      mi_variants = [\<lparr>vd_id = ''half'', vd_name = ''Half'', vd_price = 3500\<rparr>, \<lparr>vd_id = ''full'', vd_name = ''Full'', vd_price = 6000\<rparr>],
      mi_modifierGroupIds = [''extra''], mi_archived = False\<rparr>"

definition sample_menu :: MenuSnapshot where
  "sample_menu = \<lparr>ms_items = [sample_item], ms_modifierGroups = sample_groups, ms_combos = [], ms_taxGroups = [], ms_stations = []\<rparr>"

definition sample_request :: OrderLineRequest where
  "sample_request =
     \<lparr>ol_clientLineId = ''c1'', ol_itemId = ''naan'', ol_quantity = 2, ol_variantId = Some ''half'',
      ol_modifiers = [\<lparr>cm_groupId = ''extra'', cm_optionIds = [''plain'', ''cheese'']\<rparr>], ol_comboChoices = None,
      ol_instructions = Some ''crisp'', ol_hold = None\<rparr>"

definition sample_resolved :: ResolvedOrderLine where
  "sample_resolved =
     \<lparr>rl_request = sample_request, rl_item = sample_item, rl_variantName = Some ''Half'',
      rl_modifiers = [\<lparr>lm_optionId = ''cheese'', lm_name = ''Cheese'', lm_priceDelta = 4000\<rparr>,
                      \<lparr>lm_optionId = ''plain'', lm_name = ''No butter'', lm_priceDelta = - 1000\<rparr>],
      rl_unitPrice = 6500, rl_components = []\<rparr>"

definition sample_context :: LineCheckContext where
  "sample_context = \<lparr>lc_channel = CH_POS, lc_instructionMaxLength = 140, lc_now = Some 0, lc_timeZone = ''UTC''\<rparr>"

lemma sample_found: "map_of (items_by_id sample_menu) ''naan'' = Some sample_item"
  by code_simp

lemma sample_no_problem: "item_problem (\<lambda>_ _. []) sample_context sample_item sample_request = Inr None"
  by code_simp

lemma sample_valid: "validateSelection (selectable sample_menu sample_item) (line_selection sample_request) = []"
  by code_simp

lemma sample_no_combo: "resolve_combo (\<lambda>_ _. []) sample_context sample_menu sample_item sample_request = Inr (Inr [])"
  by code_simp

lemma sample_price: "unitPriceOf (selectable sample_menu sample_item) (line_selection sample_request) = Inr 6500"
  by code_simp

lemma sample_modifiers: "line_modifiers (groups_of sample_menu sample_item) sample_request = rl_modifiers sample_resolved"
  by code_simp

lemma sample_variant: "variant_name sample_item sample_request = Some ''Half''"
  by code_simp

lemmas sample_steps = sample_found sample_no_problem sample_valid sample_no_combo sample_price sample_modifiers sample_variant

lemma sample_resolves: "resolveOrderLine (\<lambda>_ _. []) sample_menu sample_request sample_context = Inr (RESOLVED sample_resolved)"
proof -
  have i: "ol_itemId sample_request = ''naan''" by (simp add: sample_request_def)
  show ?thesis
    unfolding resolveOrderLine_def i sample_steps(1) option.case bindE.simps Let_def sample_steps(2)
    by (simp add: sample_steps(3-7)) (simp add: sample_resolved_def)
qed

lemma sample_offered: "groups_offered sample_menu sample_item = sample_groups"
  by code_simp

theorem charged_as_recorded_witness:
  "rl_unitPrice sample_resolved = 3500 + (4000 + - 1000) \<and> set (map lm_optionId (rl_modifiers sample_resolved)) = {''plain'', ''cheese''}"
proof -
  have item: "rl_item sample_resolved = sample_item" by (simp add: sample_resolved_def)
  have mods: "rl_modifiers sample_resolved = [\<lparr>lm_optionId = ''cheese'', lm_name = ''Cheese'', lm_priceDelta = 4000\<rparr>,
      \<lparr>lm_optionId = ''plain'', lm_name = ''No butter'', lm_priceDelta = - 1000\<rparr>]" by (simp add: sample_resolved_def)
  have variants: "mi_variants sample_item = [\<lparr>vd_id = ''half'', vd_name = ''Half'', vd_price = 3500\<rparr>, \<lparr>vd_id = ''full'', vd_name = ''Full'', vd_price = 6000\<rparr>]"
    "mi_basePrice sample_item = 6000" by (simp_all add: sample_item_def)
  have ids: "distinct (concat (map (\<lambda>g. map mo_id (mg_options g)) (groups_offered sample_menu (rl_item sample_resolved))))"
    unfolding item sample_offered by (simp add: sample_groups_def)
  have safe: "\<forall>base \<in> insert (mi_basePrice (rl_item sample_resolved)) (vd_price ` set (mi_variants (rl_item sample_resolved))).
      isSafeInteger (\<bar>base\<bar> + sum_list (map (\<lambda>m. \<bar>lm_priceDelta m\<bar>) (rl_modifiers sample_resolved)))"
    unfolding item mods variants by simp
  have request: "ol_variantId sample_request = Some ''half''" "chosen_ids sample_request = {''plain'', ''cheese''}"
    by (simp_all add: sample_request_def chosen_ids_def)
  show ?thesis using charged_as_recorded [OF sample_resolves ids safe] by (simp only: request item variants mods) simp
qed

end
