(* ===== verification/Order_Store.thy ===== *)
theory Order_Store
  imports Line_Check Order_Item Kot Table_Machine
begin

text \<open>
  What the order engine of the server keeps in its database (\<open>apps/server/src/orders/\<close>), and the
  operations its parts share: stock (\<open>apps/server/src/menu/menu-publish.service.ts\<close>), the day's numbers
  (\<open>database/numbering.ts\<close>) and kitchen tickets. A table is a list of rows in the order of their ids, which \<open>newId\<close>
  issues ascending. A transaction is a function that returns the error, and then nothing
  has changed, or the new store. That transactions take effect one at a time is an assumption of the model: the code locks
  the rows it is about to change (keys, tables, orders, items, stock), but an approval reads and changes the items of its order under
  the order's lock while a change of an item takes only the item's own, so these two can overlap in the database. Columns that say
  who and when, events and the audit entries are left out, but for the time at which a key may be forgotten. Quantities are whole numbers that the contracts and the columns
  keep far below $2^{53}$, so they are added as integers.
\<close>

section \<open>Rows\<close>

record OrderItemRow =
  ir_id :: string
  ir_orderId :: string
  ir_itemId :: string
  ir_parentOrderItemId :: "string option"
  ir_name :: string
  ir_variantId :: "string option"
  ir_variantName :: "string option"
  ir_modifiers :: "LineModifier list"
  ir_quantity :: int
  ir_unitPrice :: Paise
  ir_lineTotal :: number
  ir_taxGroupId :: string
  ir_taxRates :: "TaxComponent list"
  ir_stationId :: string
  ir_state :: OrderItemState
  ir_instructions :: "string option"

datatype KotKind = NEW_TICKET | MODIFIED_TICKET | CANCELLED_TICKET

datatype PrintStatus = NOT_REQUIRED | PENDING_PRINT

record KotRow =
  kr_kotNumber :: int
  kr_orderId :: string
  kr_stationId :: string
  kr_kind :: KotKind
  kr_printStatus :: PrintStatus
  kr_lines :: "(string \<times> int) list"

datatype OrderType = DINE_IN | TAKEAWAY

record OrderRow =
  or_id :: string
  or_businessDate :: IsoDate
  or_orderNumber :: int
  or_orderType :: OrderType
  or_source :: OrderSource
  or_tableSessionId :: "string option"
  or_tableId :: "string option"
  or_takeawayToken :: "int option"
  or_createdById :: "string option"
  or_cancelled :: bool

text \<open>An item that is not archived, with its stock level.\<close>

record StockRow =
  sk_available :: bool
  sk_trackStock :: bool
  sk_stockLevel :: "int option"

record SessionRow =
  se_tableId :: string
  se_open :: bool
  se_waiterId :: "string option"

datatype CounterKind = ORDER_NUMBER | KOT_NUMBER | TAKEAWAY_TOKEN

record Accepted =
  ac_orderId :: string
  ac_orderNumber :: int
  ac_itemState :: OrderItemState
  ac_replayed :: bool

text \<open>An answered request with its key: what was asked, as a hash, the answer, and until when it is kept.\<close>

record IdempotencyRecord =
  ke_requestHash :: string
  ke_response :: Accepted
  ke_expiresAt :: instant

record Store =
  st_issued :: nat
  st_orders :: "OrderRow list"
  st_items :: "OrderItemRow list"
  st_kots :: "KotRow list"
  st_stock :: "string \<rightharpoonup> StockRow"
  st_counters :: "IsoDate \<times> CounterKind \<Rightarrow> int"
  st_keys :: "string \<rightharpoonup> IdempotencyRecord"
  st_tables :: "string \<rightharpoonup> TableState"
  st_sessions :: "(string \<times> SessionRow) list"
  st_stations :: "string \<rightharpoonup> StationMode"

datatype order_error =
    DOMAIN_ERROR error_code
  | HOLD_NOT_ALLOWED
  | NOTE_TOO_LONG
  | IDEMPOTENCY_KEY_REUSED
  | LICENCE_RESTRICTED
  | ITEM_NOT_FOUND
  | RECORD_NOT_FOUND
  | TABLE_NOT_FOUND
  | TABLE_NOT_FREE
  | TABLE_SESSION_NOT_FOUND
  | TABLE_SESSION_CLOSED
  | ORDER_NOT_FOUND
  | ORDER_NOT_PENDING
  | NOT_A_WAITING_LINE string
  | NOTHING_TO_APPROVE
  | ITEMS_OUT_OF_STOCK "string list"
  | ORDER_ITEM_NOT_FOUND
  | COMBO_PART
  | ITEM_NOT_STARTED
  | COMBO_NOT_MODIFIABLE
  | ITEM_ALREADY_STARTED
  | INSTRUCTIONS_TOO_LONG
  | NOTHING_HELD
  | ORDER_FORBIDDEN

type_synonym 'a outcome = "order_error + 'a"

fun domain :: "'a result \<Rightarrow> 'a outcome" where
  "domain (Inl e) = Inl (DOMAIN_ERROR e)"
| "domain (Inr x) = Inr x"

lemma domain_Inr [simp]: "domain r = Inr x \<longleftrightarrow> r = Inr x"
  by (cases r) auto

section \<open>Rows by id\<close>

definition find_item :: "Store \<Rightarrow> string \<Rightarrow> OrderItemRow option" where
  "find_item st i = find (\<lambda>r. ir_id r = i) (st_items st)"

definition parts_of :: "Store \<Rightarrow> string \<Rightarrow> OrderItemRow list" where
  "parts_of st i = filter (\<lambda>r. ir_parentOrderItemId r = Some i) (st_items st)"

definition update_item :: "string \<Rightarrow> (OrderItemRow \<Rightarrow> OrderItemRow) \<Rightarrow> Store \<Rightarrow> Store" where
  "update_item i f st = st\<lparr>st_items := map (\<lambda>r. if ir_id r = i then f r else r) (st_items st)\<rparr>"

definition fresh :: "(nat \<Rightarrow> string) \<Rightarrow> Store \<Rightarrow> string \<times> Store" where
  "fresh newId st = (newId (st_issued st), st\<lparr>st_issued := Suc (st_issued st)\<rparr>)"

section \<open>Numbers of the day\<close>

definition allocateDailyNumber :: "IsoDate \<Rightarrow> CounterKind \<Rightarrow> Store \<Rightarrow> int \<times> Store" where
  "allocateDailyNumber businessDate kind st =
     (let n = st_counters st (businessDate, kind) + 1
      in (n, st\<lparr>st_counters := (st_counters st)((businessDate, kind) := n)\<rparr>))"

section \<open>Stock\<close>

text \<open>What is left of an item, \<^term>\<open>None\<close> when it is not counted.\<close>

definition stock_count :: "StockRow \<Rightarrow> int option" where
  "stock_count r = (if sk_trackStock r then Some (case sk_stockLevel r of None \<Rightarrow> 0 | Some n \<Rightarrow> n) else None)"

definition lockAvailability :: "string \<Rightarrow> Store \<Rightarrow> StockRow outcome" where
  "lockAvailability itemId st = (case st_stock st itemId of None \<Rightarrow> Inl ITEM_NOT_FOUND | Some r \<Rightarrow> Inr r)"

definition set_stock :: "string \<Rightarrow> bool \<Rightarrow> int \<Rightarrow> StockRow \<Rightarrow> Store \<Rightarrow> Store outcome" where
  "set_stock itemId available n r st =
     (if sk_stockLevel r = None then Inl RECORD_NOT_FOUND
      else Inr (st\<lparr>st_stock := (st_stock st)(itemId \<mapsto> r\<lparr>sk_available := available, sk_stockLevel := Some n\<rparr>)\<rparr>))"

definition decrementStock :: "string \<Rightarrow> int \<Rightarrow> Store \<Rightarrow> Store outcome" where
  "decrementStock itemId quantity st =
     bindE (lockAvailability itemId st) (\<lambda>before.
     case stock_count before of
       None \<Rightarrow> Inr st
     | Some n \<Rightarrow>
         let stockCount = max 0 (n - quantity)
         in set_stock itemId (sk_available before \<and> stockCount > 0) stockCount before st)"

definition restoreStock :: "string \<Rightarrow> int \<Rightarrow> Store \<Rightarrow> Store outcome" where
  "restoreStock itemId quantity st =
     bindE (lockAvailability itemId st) (\<lambda>before.
     case stock_count before of
       None \<Rightarrow> Inr st
     | Some n \<Rightarrow> set_stock itemId (sk_available before) (n + quantity) before st)"

fun decrement_each :: "(string \<times> int) list \<Rightarrow> Store \<Rightarrow> Store outcome" where
  "decrement_each [] st = Inr st"
| "decrement_each ((itemId, quantity) # needs) st = bindE (decrementStock itemId quantity st) (decrement_each needs)"

fun restore_each :: "(string \<times> int) list \<Rightarrow> Store \<Rightarrow> Store outcome" where
  "restore_each [] st = Inr st"
| "restore_each ((itemId, quantity) # needs) st = bindE (restoreStock itemId quantity st) (restore_each needs)"

text \<open>
  A person sets what is left of an item, or that it is not counted; the kitchen may where the restaurant lets it.
\<close>

record ItemAvailabilityRequest =
  ia_available :: bool
  ia_stockCount :: "int option"

definition setAvailability :: "bool \<Rightarrow> bool \<Rightarrow> string \<Rightarrow> ItemAvailabilityRequest \<Rightarrow> Store \<Rightarrow> Store outcome" where
  "setAvailability isKitchen kitchenMayManage itemId request st =
     (if isKitchen \<and> \<not> kitchenMayManage then Inl ORDER_FORBIDDEN
      else
        bindE (lockAvailability itemId st) (\<lambda>before.
        let available = (ia_available request \<and> (case ia_stockCount request of None \<Rightarrow> True | Some n \<Rightarrow> n > 0))
        in if (sk_available before, stock_count before) = (available, ia_stockCount request) then Inr st
           else
             let item = before\<lparr>sk_available := available, sk_trackStock := ia_stockCount request \<noteq> None\<rparr>;
                 item = (case ia_stockCount request of None \<Rightarrow> item | Some n \<Rightarrow> item\<lparr>sk_stockLevel := Some n\<rparr>)
             in Inr (st\<lparr>st_stock := (st_stock st)(itemId \<mapsto> item)\<rparr>)))"

text \<open>\<open>needs.set(id, (needs.get(id) ?? 0) + quantity)\<close> over all that is needed.\<close>

definition add_needs :: "(string \<times> int) list \<Rightarrow> (string \<times> int) list" where
  "add_needs needs =
     foldl (\<lambda>m (i, q). map_set i ((case map_of m i of None \<Rightarrow> 0 | Some n \<Rightarrow> n) + q) m) [] needs"

definition text_order :: "string \<Rightarrow> string \<Rightarrow> int" where
  "text_order a b = (if js_less a b then - 1 else if js_less b a then 1 else 0)"

text \<open>The items whose stock is short of what is needed, each locked in turn.\<close>

fun short_items :: "(string \<times> int) list \<Rightarrow> Store \<Rightarrow> string list outcome" where
  "short_items [] st = Inr []"
| "short_items ((itemId, need) # needs) st =
     bindE (lockAvailability itemId st) (\<lambda>stock.
     bindE (short_items needs st) (\<lambda>short.
     Inr (if \<not> sk_available stock \<or> (case stock_count stock of None \<Rightarrow> False | Some n \<Rightarrow> n < need)
          then itemId # short else short)))"

section \<open>Tickets\<close>

text \<open>The key of a part: the ids of its line and of its dish.\<close>

definition part_key :: "string \<Rightarrow> string \<Rightarrow> string" where
  "part_key parentId itemId = parentId @ '':'' @ itemId"

type_synonym part_ids = "(string \<times> string) list"

definition ticket_lines :: "part_ids \<Rightarrow> KotLine list \<Rightarrow> (string \<times> int) list" where
  "ticket_lines partIds lines =
     map (\<lambda>line.
       (if kl_comboName line = None then kl_orderItemId line
        else (case map_of partIds (part_key (kl_orderItemId line) (kl_itemId line)) of
                None \<Rightarrow> kl_orderItemId line | Some i \<Rightarrow> i),
        kl_quantity line)) lines"

definition station_mode :: "MenuSnapshot \<Rightarrow> string \<Rightarrow> StationMode" where
  "station_mode menu stationId =
     (case map_of (foldl (\<lambda>m s. map_set (sn_id s) (sn_mode s) m) [] (ms_stations menu)) stationId of
        None \<Rightarrow> SCREEN | Some mode \<Rightarrow> mode)"

definition print_status :: "StationMode \<Rightarrow> PrintStatus" where
  "print_status mode = (if mode = SCREEN then NOT_REQUIRED else PENDING_PRINT)"

definition add_ticket :: "IsoDate \<Rightarrow> string \<Rightarrow> KotKind \<Rightarrow> string \<Rightarrow> StationMode \<Rightarrow> (string \<times> int) list \<Rightarrow> Store \<Rightarrow> Store" where
  "add_ticket businessDate orderId kind stationId mode lines st =
     (let (kotNumber, st) = allocateDailyNumber businessDate KOT_NUMBER st
      in st\<lparr>st_kots := st_kots st @
        [\<lparr>kr_kotNumber = kotNumber, kr_orderId = orderId, kr_stationId = stationId, kr_kind = kind,
          kr_printStatus = print_status mode, kr_lines = lines\<rparr>]\<rparr>)"

fun add_drafts :: "IsoDate \<Rightarrow> string \<Rightarrow> MenuSnapshot \<Rightarrow> part_ids \<Rightarrow> KotDraft list \<Rightarrow> Store \<Rightarrow> Store" where
  "add_drafts businessDate orderId menu partIds [] st = st"
| "add_drafts businessDate orderId menu partIds (draft # drafts) st =
     add_drafts businessDate orderId menu partIds drafts
       (add_ticket businessDate orderId NEW_TICKET (kd_stationId draft) (station_mode menu (kd_stationId draft))
          (ticket_lines partIds (kd_lines draft)) st)"

definition sendToKitchen ::
  "IsoDate \<Rightarrow> string \<Rightarrow> KotItemInput list \<Rightarrow> part_ids \<Rightarrow> MenuSnapshot \<Rightarrow> Store \<Rightarrow> Store outcome" where
  "sendToKitchen businessDate orderId inputs partIds menu st =
     bindE (domain (splitIntoKots inputs)) (\<lambda>drafts. Inr (add_drafts businessDate orderId menu partIds drafts st))"

section \<open>Steps of an item\<close>

definition step :: "OrderItemEvent \<Rightarrow> OrderItemRow \<Rightarrow> OrderItemRow outcome" where
  "step event r =
     bindE (domain (transition orderItemMachine (ir_state r) event)) (\<lambda>t. Inr (r\<lparr>ir_state := tr_to t\<rparr>))"

definition can :: "OrderItemEvent \<Rightarrow> OrderItemRow \<Rightarrow> bool" where
  "can event r \<longleftrightarrow> canTransition orderItemMachine (ir_state r) event"

definition set_state :: "OrderItemState \<Rightarrow> OrderItemRow \<Rightarrow> OrderItemRow" where
  "set_state s r = r\<lparr>ir_state := s\<rparr>"

text \<open>Each of the rows takes the step, in the store.\<close>

fun step_rows :: "OrderItemEvent \<Rightarrow> OrderItemRow list \<Rightarrow> Store \<Rightarrow> Store outcome" where
  "step_rows event [] st = Inr st"
| "step_rows event (r # rows) st =
     bindE (step event r) (\<lambda>moved.
     step_rows event rows (update_item (ir_id r) (set_state (ir_state moved)) st))"

end
