(* ===== verification/Order_Submit.thy ===== *)
theory Order_Submit
  imports Order_Store
begin

text \<open>
  \<open>apps/server/src/orders/orders.service.ts\<close>: submitting an order. Every line is checked and priced from
  the menu, stock is checked under its locks, and then order, items, tickets and stock change
  together or not at all; a key that was used gets its answer again until it is forgotten. \<open>requestHash\<close>, the hash of the
  request's canonical text, and \<open>newId\<close> are arguments; one restaurant is modelled.
\<close>

record SubmitOrderRequest =
  so_idempotencyKey :: string
  so_source :: OrderSource
  so_orderType :: OrderType
  so_tableSessionId :: "string option"
  so_lines :: "OrderLineRequest list"
  so_orderNote :: "string option"

datatype SubmitOrderResponse = ACCEPTED Accepted | PARTIALLY_REJECTED "(string \<times> RejectCode) list"

record SubmitContext =
  cx_staffId :: "string option"
  cx_tableId :: "string option"
  cx_menu :: MenuSnapshot
  cx_maxLength :: number
  cx_holdAndFire :: bool
  cx_createOrders :: bool
  cx_timeZone :: string
  cx_now :: instant
  cx_businessDate :: IsoDate

fun CHANNEL_OF :: "OrderSource \<Rightarrow> SalesChannel" where
  "CHANNEL_OF POS = CH_POS"
| "CHANNEL_OF WAITER_APP = CH_WAITER_APP"
| "CHANNEL_OF TABLE_TABLET = CH_TABLE_TABLET"
| "CHANNEL_OF QR = CH_QR"

section \<open>Checking the lines\<close>

definition line_context :: "SubmitContext \<Rightarrow> OrderSource \<Rightarrow> LineCheckContext" where
  "line_context cx source =
     \<lparr>lc_channel = CHANNEL_OF source, lc_instructionMaxLength = cx_maxLength cx, lc_now = cx_now cx,
      lc_timeZone = cx_timeZone cx\<rparr>"

fun resolve_lines ::
  "zone_clock \<Rightarrow> MenuSnapshot \<Rightarrow> LineCheckContext \<Rightarrow> OrderLineRequest list \<Rightarrow>
   ((string \<times> RejectCode) list \<times> ResolvedOrderLine list) result" where
  "resolve_lines z menu lc [] = Inr ([], [])"
| "resolve_lines z menu lc (line # lines) =
     bindE (resolveOrderLine z menu line lc) (\<lambda>outcome.
     bindE (resolve_lines z menu lc lines) (\<lambda>(rejected, resolved).
     Inr (case outcome of
            REJECTED_LINE i c \<Rightarrow> ((i, c) # rejected, resolved)
          | RESOLVED r \<Rightarrow> (rejected, r # resolved))))"

text \<open>What a line takes from the stock: its item, or the parts of its combo.\<close>

definition line_needs :: "ResolvedOrderLine \<Rightarrow> (string \<times> int) list" where
  "line_needs line =
     (let quantity = ol_quantity (rl_request line)
      in (if rl_components line = [] then [(mi_id (rl_item line), quantity)] else []) @
         map (\<lambda>(part, q). (mi_id part, q * quantity)) (rl_components line))"

definition order_needs :: "ResolvedOrderLine list \<Rightarrow> (string \<times> int) list" where
  "order_needs lines = concat (map line_needs lines)"

definition checkStock :: "ResolvedOrderLine list \<Rightarrow> Store \<Rightarrow> string list outcome" where
  "checkStock lines st =
     (let needs = add_needs (order_needs lines);
          ids = js_sort text_order (map fst needs)
      in short_items (map (\<lambda>i. (i, case map_of needs i of None \<Rightarrow> 0 | Some n \<Rightarrow> n)) ids) st)"

definition line_items :: "ResolvedOrderLine \<Rightarrow> string list" where
  "line_items line = mi_id (rl_item line) # map (\<lambda>p. mi_id (fst p)) (rl_components line)"

definition stock_rejections :: "string list \<Rightarrow> ResolvedOrderLine list \<Rightarrow> (string \<times> RejectCode) list" where
  "stock_rejections short lines =
     map (\<lambda>line. (ol_clientLineId (rl_request line), OUT_OF_STOCK))
       (filter (\<lambda>line. list_ex (List.member short) (line_items line)) lines)"

section \<open>The table\<close>

definition prepareTable ::
  "SubmitOrderRequest \<Rightarrow> OrderItemState \<Rightarrow> string option \<Rightarrow> Store \<Rightarrow> (string option \<times> Store) outcome" where
  "prepareTable request itemState tableId st =
     (if so_orderType request \<noteq> DINE_IN then Inr (None, st)
      else
        (case so_tableSessionId request of
           None \<Rightarrow>
             (case tableId of
                None \<Rightarrow> Inr (None, st)
              | Some t \<Rightarrow> if st_tables st t = None then Inl TABLE_NOT_FOUND else Inr (Some t, st))
         | Some s \<Rightarrow>
             (case map_of (st_sessions st) s of
                None \<Rightarrow> Inl TABLE_SESSION_NOT_FOUND
              | Some session \<Rightarrow>
                  if \<not> se_open session then Inl TABLE_SESSION_CLOSED
                  else
                    (case st_tables st (se_tableId session) of
                       None \<Rightarrow> Inl RECORD_NOT_FOUND
                     | Some state \<Rightarrow>
                         if itemState = SENT \<and> (state = BILL_REQUESTED \<or> state = BILL_PRINTED) then
                           bindE (domain (transition tableMachine state ADD_ITEMS)) (\<lambda>t.
                           Inr (Some (se_tableId session), st\<lparr>st_tables := (st_tables st)(se_tableId session \<mapsto> tr_to t)\<rparr>))
                         else Inr (Some (se_tableId session), st)))))"

section \<open>Creating the order\<close>

definition tax_rates :: "MenuSnapshot \<Rightarrow> string \<Rightarrow> TaxComponent list" where
  "tax_rates menu taxGroupId =
     (case map_of (foldl (\<lambda>m g. map_set (tg_id g) (tg_components g) m) [] (ms_taxGroups menu)) taxGroupId of
        None \<Rightarrow> [] | Some components \<Rightarrow> components)"

definition is_held :: "OrderItemState \<Rightarrow> ResolvedOrderLine \<Rightarrow> bool" where
  "is_held itemState line \<longleftrightarrow> itemState = SENT \<and> ol_hold (rl_request line) = Some True"

definition parent_row :: "MenuSnapshot \<Rightarrow> OrderItemState \<Rightarrow> string \<Rightarrow> string \<Rightarrow> ResolvedOrderLine \<Rightarrow> OrderItemRow" where
  "parent_row menu itemState orderId i line =
     (let item = rl_item line; request = rl_request line
      in \<lparr>ir_id = i, ir_orderId = orderId, ir_itemId = mi_id item, ir_parentOrderItemId = None,
          ir_name = mi_name item, ir_variantId = ol_variantId request, ir_variantName = rl_variantName line,
          ir_modifiers = rl_modifiers line, ir_quantity = ol_quantity request, ir_unitPrice = rl_unitPrice line,
          ir_lineTotal = js_mul (rl_unitPrice line) (ol_quantity request), ir_taxGroupId = mi_taxGroupId item,
          ir_taxRates = tax_rates menu (mi_taxGroupId item), ir_stationId = mi_stationId item,
          ir_state = (if is_held itemState line then HELD else itemState),
          ir_instructions = ol_instructions request\<rparr>)"

definition part_row :: "OrderItemRow \<Rightarrow> string \<Rightarrow> MenuItem \<times> number \<Rightarrow> OrderItemRow" where
  "part_row parent i part =
     parent\<lparr>ir_id := i, ir_itemId := mi_id (fst part), ir_parentOrderItemId := Some (ir_id parent),
       ir_name := mi_name (fst part), ir_variantId := None, ir_variantName := None, ir_modifiers := [],
       ir_quantity := snd part * ir_quantity parent, ir_unitPrice := 0, ir_lineTotal := 0,
       ir_stationId := mi_stationId (fst part), ir_instructions := None\<rparr>"

definition add_item :: "OrderItemRow \<Rightarrow> Store \<Rightarrow> Store" where
  "add_item r st = st\<lparr>st_items := st_items st @ [r]\<rparr>"

fun create_parts ::
  "(nat \<Rightarrow> string) \<Rightarrow> OrderItemRow \<Rightarrow> (MenuItem \<times> number) list \<Rightarrow> part_ids \<Rightarrow> Store \<Rightarrow> part_ids \<times> Store" where
  "create_parts newId parent [] partIds st = (partIds, st)"
| "create_parts newId parent (part # parts) partIds st =
     (let (i, st) = fresh newId st
      in create_parts newId parent parts (map_set (part_key (ir_id parent) (mi_id (fst part))) i partIds)
           (add_item (part_row parent i part) st))"

text \<open>What the kitchen gets of a line.\<close>

definition kot_input :: "string \<Rightarrow> ResolvedOrderLine \<Rightarrow> KotItemInput" where
  "kot_input i line =
     \<lparr>ki_orderItemId = i, ki_itemId = mi_id (rl_item line), ki_name = mi_name (rl_item line),
      ki_quantity = ol_quantity (rl_request line), ki_stationId = Some (mi_stationId (rl_item line)),
      ki_variantName = rl_variantName line, ki_modifiers = Some (map lm_name (rl_modifiers line)),
      ki_instructions = ol_instructions (rl_request line),
      ki_comboComponents = Some (map (\<lambda>(part, quantity).
        \<lparr>kc_itemId = mi_id part, kc_name = mi_name part, kc_quantity = quantity, kc_stationId = mi_stationId part,
         kc_variantName = None, kc_modifiers = None\<rparr>) (rl_components line))\<rparr>"

fun create_lines ::
  "(nat \<Rightarrow> string) \<Rightarrow> MenuSnapshot \<Rightarrow> OrderItemState \<Rightarrow> string \<Rightarrow> ResolvedOrderLine list \<Rightarrow> KotItemInput list \<Rightarrow>
   part_ids \<Rightarrow> Store \<Rightarrow> KotItemInput list \<times> part_ids \<times> Store" where
  "create_lines newId menu itemState orderId [] kotInputs partIds st = (kotInputs, partIds, st)"
| "create_lines newId menu itemState orderId (line # lines) kotInputs partIds st =
     (let (i, st) = fresh newId st;
          parent = parent_row menu itemState orderId i line;
          (partIds, st) = create_parts newId parent (rl_components line) partIds (add_item parent st)
      in create_lines newId menu itemState orderId lines
           (if is_held itemState line then kotInputs else kotInputs @ [kot_input i line]) partIds st)"

definition create_order ::
  "(nat \<Rightarrow> string) \<Rightarrow> SubmitContext \<Rightarrow> SubmitOrderRequest \<Rightarrow> OrderItemState \<Rightarrow> string option \<Rightarrow>
   ResolvedOrderLine list \<Rightarrow> Store \<Rightarrow> (Accepted \<times> Store) outcome" where
  "create_order newId cx request itemState tableId lines st =
     (let date = cx_businessDate cx;
          (orderNumber, st) = allocateDailyNumber date ORDER_NUMBER st;
          takeaway = (so_orderType request = TAKEAWAY);
          (orderId, st) = fresh newId st;
          (token, st) = (if takeaway then (case allocateDailyNumber date TAKEAWAY_TOKEN st of (n, st) \<Rightarrow> (Some n, st)) else (None, st));
          st = st\<lparr>st_orders := st_orders st @
            [\<lparr>or_id = orderId, or_businessDate = date, or_orderNumber = orderNumber, or_orderType = so_orderType request,
              or_source = so_source request, or_tableSessionId = (if takeaway then None else so_tableSessionId request),
              or_tableId = tableId, or_takeawayToken = token, or_createdById = cx_staffId cx, or_cancelled = False\<rparr>]\<rparr>;
          (kotInputs, partIds, st) = create_lines newId (cx_menu cx) itemState orderId lines [] [] st
      in bindE (if itemState = SENT then
                  bindE (if length kotInputs > 0 then sendToKitchen date orderId kotInputs partIds (cx_menu cx) st else Inr st)
                    (decrement_each (order_needs lines))
                else Inr st) (\<lambda>st.
         Inr (\<lparr>ac_orderId = orderId, ac_orderNumber = orderNumber,
               ac_itemState = (if itemState = SENT \<and> length kotInputs = 0 then HELD else itemState), ac_replayed = False\<rparr>, st)))"

section \<open>Submitting\<close>

text \<open>What is refused before the transaction.\<close>

definition submit_problem :: "SubmitContext \<Rightarrow> SubmitOrderRequest \<Rightarrow> order_error option" where
  "submit_problem cx request =
     (if list_ex (\<lambda>line. ol_hold line = Some True) (so_lines request) \<and>
         (initialOrderItemState (so_source request) \<noteq> SENT \<or> \<not> cx_holdAndFire cx) then Some HOLD_NOT_ALLOWED
      else if int (case so_orderNote request of None \<Rightarrow> 0 | Some s \<Rightarrow> length s) > cx_maxLength cx then Some NOTE_TOO_LONG
      else None)"

text \<open>An accepted order is remembered under its key for a week.\<close>

definition IDEMPOTENCY_DAYS :: int where
  "IDEMPOTENCY_DAYS = 7"

definition expires_at :: "SubmitContext \<Rightarrow> instant" where
  "expires_at cx = map_option (\<lambda>now. now + IDEMPOTENCY_DAYS * 86400000) (cx_now cx)"

definition accept_order ::
  "(nat \<Rightarrow> string) \<Rightarrow> SubmitContext \<Rightarrow> string \<Rightarrow> SubmitOrderRequest \<Rightarrow> ResolvedOrderLine list \<Rightarrow> Store \<Rightarrow>
   (SubmitOrderResponse \<times> Store) outcome" where
  "accept_order newId cx requestHash request lines st =
     (let itemState = initialOrderItemState (so_source request)
      in bindE (prepareTable request itemState (cx_tableId cx) st) (\<lambda>(tableId, st).
         bindE (create_order newId cx request itemState tableId lines st) (\<lambda>(response, st).
         Inr (ACCEPTED response, st\<lparr>st_keys := (st_keys st)(so_idempotencyKey request \<mapsto>
           \<lparr>ke_requestHash = requestHash, ke_response = response, ke_expiresAt = expires_at cx\<rparr>)\<rparr>))))"

definition submit ::
  "(nat \<Rightarrow> string) \<Rightarrow> zone_clock \<Rightarrow> SubmitContext \<Rightarrow> string \<Rightarrow> SubmitOrderRequest \<Rightarrow> Store \<Rightarrow> (SubmitOrderResponse \<times> Store) outcome" where
  "submit newId z cx requestHash request st =
     (case submit_problem cx request of
        Some e \<Rightarrow> Inl e
      | None \<Rightarrow>
          (case st_keys st (so_idempotencyKey request) of
             Some previous \<Rightarrow>
               if ke_requestHash previous \<noteq> requestHash then Inl IDEMPOTENCY_KEY_REUSED
               else Inr (ACCEPTED ((ke_response previous)\<lparr>ac_replayed := True\<rparr>), st)
           | None \<Rightarrow>
               if \<not> cx_createOrders cx then Inl LICENCE_RESTRICTED
               else
                 bindE (domain (resolve_lines z (cx_menu cx) (line_context cx (so_source request)) (so_lines request))) (\<lambda>(rejected, lines).
                 bindE (checkStock lines st) (\<lambda>short.
                 let rejected = rejected @ stock_rejections short lines
                 in if rejected \<noteq> [] then Inr (PARTIALLY_REJECTED rejected, st)
                    else accept_order newId cx requestHash request lines st))))"

section \<open>Forgetting keys\<close>

text \<open>
  \<open>apps/server/src/lifecycle/retention.service.ts\<close> and \<open>packages/domain/src/retention.ts\<close>: once a day the records
  whose time ran out more than so many days ago are deleted; until then a key is answered, also after its time.
\<close>

definition operationalBefore :: "int \<Rightarrow> int \<Rightarrow> int" where
  "operationalBefore now operationalDays = now - operationalDays * (24 * 60 * 60000)"

definition expired :: "int \<Rightarrow> IdempotencyRecord \<Rightarrow> bool" where
  "expired before r \<longleftrightarrow> (case ke_expiresAt r of None \<Rightarrow> False | Some t \<Rightarrow> t < before)"

definition purge_keys :: "int \<Rightarrow> Store \<Rightarrow> Store" where
  "purge_keys before st =
     st\<lparr>st_keys := (\<lambda>key. case st_keys st key of None \<Rightarrow> None | Some r \<Rightarrow> if expired before r then None else Some r)\<rparr>"

end
