(* ===== verification/Order_Changes.thy ===== *)
theory Order_Changes
  imports Order_Store
begin

text \<open>
  \<open>apps/server/src/orders/order-items.service.ts\<close>: the steps of the kitchen and the floor, holding and
  firing, cancelling, voiding and changing a line. A combo line and its parts move together both
  ways. The grants of the routes are checked before these functions, except the grant of a step.
\<close>

section \<open>Grants\<close>

fun STEP_CAPABILITY :: "OrderItemEvent \<Rightarrow> Capability option" where
  "STEP_CAPABILITY START_PREPARING = Some ITEM_MARK_PREPARING_READY"
| "STEP_CAPABILITY MARK_READY = Some ITEM_MARK_PREPARING_READY"
| "STEP_CAPABILITY PICK_UP = Some ITEM_MARK_PICKED_UP"
| "STEP_CAPABILITY SERVE = Some ITEM_MARK_SERVED"
| "STEP_CAPABILITY _ = None"

record StepActor =
  sa_actor :: Actor
  sa_staffId :: "string option"
  sa_stationId :: "string option"

definition may_step :: "PermissionMatrix \<Rightarrow> StepActor \<Rightarrow> OrderItemEvent \<Rightarrow> bool" where
  "may_step matrix who event \<longleftrightarrow>
     (case STEP_CAPABILITY event of None \<Rightarrow> False | Some capability \<Rightarrow> actorGrant (sa_actor who) capability matrix = ALLOW)"

section \<open>The combo line follows its parts\<close>

fun PROGRESS :: "OrderItemState \<Rightarrow> nat option" where
  "PROGRESS SENT = Some 0"
| "PROGRESS PREPARING = Some 1"
| "PROGRESS READY = Some 2"
| "PROGRESS PICKED_UP = Some 3"
| "PROGRESS SERVED = Some 4"
| "PROGRESS _ = None"

definition place :: "OrderItemState \<Rightarrow> nat" where
  "place s = (case PROGRESS s of None \<Rightarrow> 0 | Some n \<Rightarrow> n)"

definition PROGRESS_STATES :: "OrderItemState list" where
  "PROGRESS_STATES = [SENT, PREPARING, READY, PICKED_UP, SERVED]"

fun STEP_TO :: "OrderItemState \<Rightarrow> OrderItemEvent" where
  "STEP_TO PREPARING = START_PREPARING"
| "STEP_TO READY = MARK_READY"
| "STEP_TO PICKED_UP = PICK_UP"
| "STEP_TO _ = SERVE"

text \<open>Where the line should be: in preparation once a part is, then as far as its least part.\<close>

definition follow_target :: "nat list \<Rightarrow> OrderItemState" where
  "follow_target places =
     (let started = (if Max (set places) > 0 then 1 else 0)
      in nth_or PROGRESS_STATES (max (Min (set places)) started) SENT)"

text \<open>The loop: a step of the line towards the target; a line not yet ready becomes ready first.\<close>

lemma step_to_advances:
  assumes "place s < place t" "t \<noteq> SENT"
    and "step (if canTransition orderItemMachine s (STEP_TO t) then STEP_TO t else MARK_READY) r = Inr r'" "ir_state r = s"
  shows "place s < place (ir_state r')"
proof -
  obtain tr where tr: "tr \<in> set (sm_transitions orderItemMachine)"
      "tr_event tr = (if canTransition orderItemMachine s (STEP_TO t) then STEP_TO t else MARK_READY)" "s \<in> set (tr_from tr)"
    and r': "r' = r\<lparr>ir_state := tr_to tr\<rparr>"
    using assms(3,4) by (auto simp: step_def bindE_Inr_iff item_transition)
  show ?thesis using tr assms(1,2) by (cases t) (auto simp: r' place_def item_tables split: if_splits)
qed

function follow_loop :: "OrderItemState \<Rightarrow> OrderItemRow \<Rightarrow> OrderItemRow outcome" where
  "follow_loop target line =
     (if target \<noteq> SENT \<and> place (ir_state line) < place target then
        (case step (if canTransition orderItemMachine (ir_state line) (STEP_TO target) then STEP_TO target else MARK_READY) line of
           Inl e \<Rightarrow> Inl e
         | Inr line' \<Rightarrow> follow_loop target line')
      else Inr line)"
  by pat_completeness auto
termination
proof (relation "measure (\<lambda>(target, line). place target - place (ir_state line))", goal_cases)
  case (2 target line line')
  then show ?case using step_to_advances [of "ir_state line" target line line'] by auto
qed simp

declare follow_loop.simps [simp del]

definition follow :: "string \<Rightarrow> Store \<Rightarrow> Store outcome" where
  "follow parentId st =
     (case find_item st parentId of
        None \<Rightarrow> Inl RECORD_NOT_FOUND
      | Some parent \<Rightarrow>
          let places = map (\<lambda>part. place (ir_state part)) (filter (\<lambda>part. PROGRESS (ir_state part) \<noteq> None) (parts_of st parentId))
          in if PROGRESS (ir_state parent) = None \<or> places = [] then Inr st
             else
               bindE (follow_loop (follow_target places) parent) (\<lambda>line.
               Inr (update_item parentId (set_state (ir_state line)) st)))"

section \<open>A step\<close>

definition setStatus :: "PermissionMatrix \<Rightarrow> StepActor \<Rightarrow> string \<Rightarrow> OrderItemEvent \<Rightarrow> Store \<Rightarrow> Store outcome" where
  "setStatus matrix who orderItemId event st =
     (if \<not> may_step matrix who event then Inl ORDER_FORBIDDEN
      else
        (case find_item st orderItemId of
           None \<Rightarrow> Inl ORDER_ITEM_NOT_FOUND
         | Some item \<Rightarrow>
             if (case sa_stationId who of None \<Rightarrow> False | Some station \<Rightarrow> ir_stationId item \<noteq> station) then Inl ORDER_FORBIDDEN
             else
               bindE (step_rows event [item] st) (\<lambda>st'.
               bindE (step_rows event (filter (can event) (parts_of st orderItemId)) st') (\<lambda>st'.
               case ir_parentOrderItemId item of
                 None \<Rightarrow> Inr st'
               | Some parentId \<Rightarrow> follow parentId st'))))"

section \<open>Lines\<close>

definition assertLine :: "OrderItemRow \<Rightarrow> unit outcome" where
  "assertLine item = throw_if (ir_parentOrderItemId item \<noteq> None) COMBO_PART"

text \<open>The waiter of the table, or else who ordered.\<close>

definition owner_of :: "Store \<Rightarrow> OrderItemRow \<Rightarrow> string option" where
  "owner_of st item =
     (case find (\<lambda>order. or_id order = ir_orderId item) (st_orders st) of
        None \<Rightarrow> None
      | Some order \<Rightarrow>
          (case or_tableSessionId order of
             None \<Rightarrow> or_createdById order
           | Some s \<Rightarrow>
               (case map_option se_waiterId (map_of (st_sessions st) s) of
                  Some (Some waiterId) \<Rightarrow> Some waiterId | _ \<Rightarrow> or_createdById order)))"

definition assertOwn :: "bool \<Rightarrow> string \<Rightarrow> Store \<Rightarrow> OrderItemRow \<Rightarrow> unit outcome" where
  "assertOwn ownOnly staffId st item = throw_if (ownOnly \<and> owner_of st item \<noteq> Some staffId) ORDER_FORBIDDEN"

section \<open>Slips\<close>

record SlipLine =
  sl_stationId :: string
  sl_orderItemId :: string
  sl_quantity :: int

definition by_station_of :: "SlipLine list \<Rightarrow> (string \<times> (string \<times> int) list) list" where
  "by_station_of lines =
     foldl (\<lambda>m line. map_set (sl_stationId line)
       ((case map_of m (sl_stationId line) of None \<Rightarrow> [] | Some ls \<Rightarrow> ls) @ [(sl_orderItemId line, sl_quantity line)]) m) [] lines"

fun add_slips :: "IsoDate \<Rightarrow> string \<Rightarrow> KotKind \<Rightarrow> (string \<times> (string \<times> int) list) list \<Rightarrow> Store \<Rightarrow> Store outcome" where
  "add_slips businessDate orderId kind [] st = Inr st"
| "add_slips businessDate orderId kind ((stationId, lines) # stations) st =
     (case st_stations st stationId of
        None \<Rightarrow> Inl RECORD_NOT_FOUND
      | Some mode \<Rightarrow> add_slips businessDate orderId kind stations (add_ticket businessDate orderId kind stationId mode lines st))"

definition slip :: "IsoDate \<Rightarrow> string \<Rightarrow> KotKind \<Rightarrow> SlipLine list \<Rightarrow> Store \<Rightarrow> Store outcome" where
  "slip businessDate orderId kind lines st = add_slips businessDate orderId kind (by_station_of lines) st"

section \<open>Cancelling and voiding\<close>

definition AT_STATION :: "OrderItemState list" where
  "AT_STATION = [SENT, PREPARING, READY]"

text \<open>A line's parts that end with it, and how.\<close>

definition ended_parts :: "OrderItemEvent \<Rightarrow> OrderItemRow list \<Rightarrow> (OrderItemRow \<times> OrderItemEvent) list" where
  "ended_parts event parts =
     concat (map (\<lambda>part.
       if can event part then [(part, event)]
       else if event = VOID \<and> can CANCEL part then [(part, CANCEL)]
       else []) parts)"

fun end_rows :: "(OrderItemRow \<times> OrderItemEvent) list \<Rightarrow> Store \<Rightarrow> Store outcome" where
  "end_rows [] st = Inr st"
| "end_rows ((target, how) # ended) st = bindE (step_rows how [target] st) (end_rows ended)"

definition end_slips :: "OrderItemRow \<Rightarrow> OrderItemRow list \<Rightarrow> (OrderItemRow \<times> OrderItemEvent) list \<Rightarrow> SlipLine list" where
  "end_slips item parts ended =
     map (\<lambda>(target, how). \<lparr>sl_stationId = ir_stationId target, sl_orderItemId = ir_id target, sl_quantity = ir_quantity target\<rparr>)
       (filter (\<lambda>(target, how). (parts = [] \<or> ir_id target \<noteq> ir_id item) \<and> ir_state target \<in> set AT_STATION) ended)"

definition end_line ::
  "IsoDate \<Rightarrow> OrderItemRow \<Rightarrow> OrderItemEvent \<Rightarrow> Store \<Rightarrow> ((OrderItemRow \<times> OrderItemEvent) list \<times> Store) outcome" where
  "end_line businessDate item event st =
     bindE (step event item) (\<lambda>_.
     let parts = parts_of st (ir_id item);
         ended = (item, event) # ended_parts event parts;
         slips = end_slips item parts ended
     in bindE (end_rows ended st) (\<lambda>st.
        bindE (if length slips > 0 then slip businessDate (ir_orderId item) CANCELLED_TICKET slips st else Inr st) (\<lambda>st.
        Inr (ended, st))))"

definition uncooked :: "OrderItemRow \<Rightarrow> OrderItemRow list \<Rightarrow> (OrderItemRow \<times> OrderItemEvent) list \<Rightarrow> (string \<times> int) list" where
  "uncooked item parts ended =
     map (\<lambda>(target, how). (ir_itemId target, ir_quantity target))
       (filter (\<lambda>(target, how). how = CANCEL \<and> \<not> (ir_id target = ir_id item \<and> length parts > 0)) ended)"

definition end_and_restore :: "IsoDate \<Rightarrow> OrderItemRow \<Rightarrow> OrderItemEvent \<Rightarrow> Store \<Rightarrow> Store outcome" where
  "end_and_restore businessDate item event st =
     bindE (end_line businessDate item event st) (\<lambda>(ended, st').
     restore_each (uncooked item (parts_of st (ir_id item)) ended) st')"

definition cancel :: "IsoDate \<Rightarrow> bool \<Rightarrow> string \<Rightarrow> string \<Rightarrow> Store \<Rightarrow> Store outcome" where
  "cancel businessDate ownOnly staffId orderItemId st =
     (case find_item st orderItemId of
        None \<Rightarrow> Inl ORDER_ITEM_NOT_FOUND
      | Some item \<Rightarrow>
          bindE (assertLine item) (\<lambda>_.
          bindE (assertOwn ownOnly staffId st item) (\<lambda>_.
          end_and_restore businessDate item CANCEL st)))"

definition void :: "IsoDate \<Rightarrow> string \<Rightarrow> Store \<Rightarrow> Store outcome" where
  "void businessDate orderItemId st =
     (case find_item st orderItemId of
        None \<Rightarrow> Inl ORDER_ITEM_NOT_FOUND
      | Some item \<Rightarrow>
          bindE (assertLine item) (\<lambda>_.
          if ir_state item = SENT then Inl ITEM_NOT_STARTED
          else end_and_restore businessDate item VOID st))"

section \<open>Changing a line\<close>

definition change_stock :: "OrderItemRow \<Rightarrow> int \<Rightarrow> Store \<Rightarrow> Store outcome" where
  "change_stock item change st =
     (if ir_state item = SENT \<and> change > 0 then
        bindE (lockAvailability (ir_itemId item) st) (\<lambda>stock.
        if \<not> sk_available stock \<or> (case stock_count stock of None \<Rightarrow> False | Some n \<Rightarrow> n < change)
        then Inl (ITEMS_OUT_OF_STOCK [ir_name item])
        else decrementStock (ir_itemId item) change st)
      else if ir_state item = SENT \<and> change < 0 then restoreStock (ir_itemId item) (- change) st
      else Inr st)"

definition set_quantity :: "int \<Rightarrow> OrderItemRow \<Rightarrow> OrderItemRow" where
  "set_quantity quantity r = r\<lparr>ir_quantity := quantity, ir_lineTotal := js_mul (ir_unitPrice r) quantity\<rparr>"

text \<open>\<open>instructions\<close> is \<^term>\<open>None\<close> when they are not changed; the value itself may be null.\<close>

definition modify ::
  "IsoDate \<Rightarrow> number \<Rightarrow> string \<Rightarrow> int option \<Rightarrow> string option option \<Rightarrow> Store \<Rightarrow> Store outcome" where
  "modify businessDate maxLength orderItemId newQuantity newInstructions st =
     (if int (case newInstructions of Some (Some s) \<Rightarrow> length s | _ \<Rightarrow> 0) > maxLength then Inl INSTRUCTIONS_TOO_LONG
      else
        (case find_item st orderItemId of
           None \<Rightarrow> Inl ORDER_ITEM_NOT_FOUND
         | Some item \<Rightarrow>
             bindE (assertLine item) (\<lambda>_.
             if length (parts_of st orderItemId) > 0 then Inl COMBO_NOT_MODIFIABLE
             else if ir_state item \<noteq> SENT \<and> ir_state item \<noteq> PENDING_APPROVAL then Inl ITEM_ALREADY_STARTED
             else
               let quantity = (case newQuantity of None \<Rightarrow> ir_quantity item | Some q \<Rightarrow> q);
                   instructions = (case newInstructions of None \<Rightarrow> ir_instructions item | Some i \<Rightarrow> i)
               in if quantity = ir_quantity item \<and> instructions = ir_instructions item then Inr st
                  else
                    bindE (change_stock item (quantity - ir_quantity item) st) (\<lambda>st.
                    let st = update_item orderItemId (\<lambda>r. (set_quantity quantity r)\<lparr>ir_instructions := instructions\<rparr>) st
                    in if ir_state item = SENT
                       then slip businessDate (ir_orderId item) MODIFIED_TICKET
                         [\<lparr>sl_stationId = ir_stationId item, sl_orderItemId = orderItemId, sl_quantity = quantity\<rparr>] st
                       else Inr st))))"

section \<open>Hold and fire\<close>

definition fired_input :: "OrderItemRow \<Rightarrow> OrderItemRow list \<Rightarrow> KotItemInput" where
  "fired_input line parts =
     \<lparr>ki_orderItemId = ir_id line, ki_itemId = ir_itemId line, ki_name = ir_name line, ki_quantity = ir_quantity line,
      ki_stationId = Some (ir_stationId line), ki_variantName = ir_variantName line,
      ki_modifiers = Some (map lm_name (ir_modifiers line)), ki_instructions = ir_instructions line,
      ki_comboComponents = Some (map (\<lambda>part.
        \<lparr>kc_itemId = ir_itemId part, kc_name = ir_name part, kc_quantity = ir_quantity part div ir_quantity line,
         kc_stationId = ir_stationId part, kc_variantName = None, kc_modifiers = None\<rparr>) parts)\<rparr>"

definition part_ids_of :: "OrderItemRow \<Rightarrow> OrderItemRow list \<Rightarrow> part_ids \<Rightarrow> part_ids" where
  "part_ids_of line parts partIds =
     foldl (\<lambda>m part. map_set (part_key (ir_id line) (ir_itemId part)) (ir_id part) m) partIds parts"

fun fire_lines ::
  "bool \<Rightarrow> string \<Rightarrow> string list \<Rightarrow> KotItemInput list \<Rightarrow> part_ids \<Rightarrow> Store \<Rightarrow> (KotItemInput list \<times> part_ids \<times> Store) outcome" where
  "fire_lines ownOnly staffId [] inputs partIds st = Inr (inputs, partIds, st)"
| "fire_lines ownOnly staffId (i # ids) inputs partIds st =
     (case find_item st i of
        None \<Rightarrow> Inl ORDER_ITEM_NOT_FOUND
      | Some line \<Rightarrow>
          let parts = parts_of st i
          in bindE (assertOwn ownOnly staffId st line) (\<lambda>_.
             bindE (step_rows FIRE (filter (\<lambda>r. ir_state r = HELD) (line # parts)) st)
               (fire_lines ownOnly staffId ids (inputs @ [fired_input line parts]) (part_ids_of line parts partIds))))"

definition held_lines :: "string \<Rightarrow> string list option \<Rightarrow> Store \<Rightarrow> string list" where
  "held_lines orderId orderItemIds st =
     map ir_id (filter (\<lambda>r. ir_orderId r = orderId \<and> ir_state r = HELD \<and> ir_parentOrderItemId r = None \<and>
       (case orderItemIds of None \<Rightarrow> True | Some ids \<Rightarrow> List.member ids (ir_id r))) (st_items st))"

definition fire ::
  "IsoDate \<Rightarrow> bool \<Rightarrow> MenuSnapshot \<Rightarrow> bool \<Rightarrow> string \<Rightarrow> string \<Rightarrow> string list option \<Rightarrow> Store \<Rightarrow> Store outcome" where
  "fire businessDate sendKots menu ownOnly staffId orderId orderItemIds st =
     (if \<not> sendKots then Inl LICENCE_RESTRICTED
      else
        let held = held_lines orderId orderItemIds st
        in if held = [] then
             Inl (if list_ex (\<lambda>order. or_id order = orderId) (st_orders st) then NOTHING_HELD else ORDER_NOT_FOUND)
           else
             bindE (fire_lines ownOnly staffId held [] [] st) (\<lambda>(inputs, partIds, st).
             sendToKitchen businessDate orderId inputs partIds menu st))"

end
