(* ===== verification/Order_Approvals.thy ===== *)
theory Order_Approvals
  imports Order_Changes
begin

text \<open>
  \<open>apps/server/src/orders/order-approvals.service.ts\<close> and \<open>apps/server/src/floor/open-for-order.ts\<close>: a
  diner's order waits until somebody who may approve it sends it to the kitchen, after the changes agreed
  with the diner, or rejects it. The tables a waiter looks after, the waiter a table has and the
  comparison of texts are arguments. What the code loaded at the start of the transaction is read from the
  store as it was then.
\<close>

record Approver =
  ap_staffId :: string
  ap_ownOnly :: bool
  ap_looksAfter :: "string list"

record ApprovalChange =
  ch_orderItemId :: string
  ch_quantity :: int

section \<open>The order and its waiting lines\<close>

definition session_of :: "Store \<Rightarrow> OrderRow \<Rightarrow> SessionRow option" where
  "session_of st order = (case or_tableSessionId order of None \<Rightarrow> None | Some s \<Rightarrow> map_of (st_sessions st) s)"

definition lock_order :: "Approver \<Rightarrow> string \<Rightarrow> Store \<Rightarrow> OrderRow outcome" where
  "lock_order approver orderId st =
     (case find (\<lambda>order. or_id order = orderId) (st_orders st) of
        None \<Rightarrow> Inl ORDER_NOT_FOUND
      | Some order \<Rightarrow>
          let session = session_of st order;
              owner = (case map_option se_waiterId session of Some (Some waiterId) \<Rightarrow> Some waiterId | _ \<Rightarrow> or_createdById order);
              looksAfter = (session = None \<and> (case or_tableId order of None \<Rightarrow> False | Some t \<Rightarrow> List.member (ap_looksAfter approver) t))
          in if ap_ownOnly approver \<and> owner \<noteq> Some (ap_staffId approver) \<and> \<not> looksAfter then Inl ORDER_FORBIDDEN
             else if (case session of None \<Rightarrow> False | Some s \<Rightarrow> \<not> se_open s) then Inl TABLE_SESSION_CLOSED
             else Inr order)"

definition waiting_lines :: "string \<Rightarrow> Store \<Rightarrow> OrderItemRow list" where
  "waiting_lines orderId st =
     filter (\<lambda>r. ir_orderId r = orderId \<and> ir_state r = PENDING_APPROVAL \<and> ir_parentOrderItemId r = None) (st_items st)"

definition waitingLines :: "string \<Rightarrow> Store \<Rightarrow> OrderItemRow list outcome" where
  "waitingLines orderId st =
     (if waiting_lines orderId st = [] then Inl ORDER_NOT_PENDING else Inr (waiting_lines orderId st))"

section \<open>Opening the table\<close>

definition openTableForOrder ::
  "(nat \<Rightarrow> string) \<Rightarrow> (string \<Rightarrow> string option) \<Rightarrow> string \<Rightarrow> string \<Rightarrow> Store \<Rightarrow> (string \<times> Store) outcome" where
  "openTableForOrder newId responsibleWaiter approverId tableId st =
     (case find (\<lambda>(i, s). se_tableId s = tableId \<and> se_open s) (st_sessions st) of
        Some (i, s) \<Rightarrow> Inr (i, st)
      | None \<Rightarrow>
          (case st_tables st tableId of
             None \<Rightarrow> Inl TABLE_NOT_FOUND
           | Some state \<Rightarrow>
               let from_state = (if state = NEEDS_CLEANING then FREE else state)
               in if from_state \<noteq> FREE then Inl TABLE_NOT_FREE
                  else
                    bindE (domain (transition tableMachine from_state OPEN)) (\<lambda>t.
                    let waiterId = (case responsibleWaiter tableId of None \<Rightarrow> approverId | Some w \<Rightarrow> w);
                        (i, st) = fresh newId st
                    in Inr (i, st\<lparr>st_sessions := st_sessions st @ [(i, \<lparr>se_tableId = tableId, se_open = True, se_waiterId = Some waiterId\<rparr>)],
                              st_tables := (st_tables st)(tableId \<mapsto> tr_to t)\<rparr>))))"

definition update_order :: "string \<Rightarrow> (OrderRow \<Rightarrow> OrderRow) \<Rightarrow> Store \<Rightarrow> Store" where
  "update_order i f st = st\<lparr>st_orders := map (\<lambda>order. if or_id order = i then f order else order) (st_orders st)\<rparr>"

definition open_if_needed ::
  "(nat \<Rightarrow> string) \<Rightarrow> (string \<Rightarrow> string option) \<Rightarrow> string \<Rightarrow> OrderRow \<Rightarrow> Store \<Rightarrow> (OrderRow \<times> Store) outcome" where
  "open_if_needed newId responsibleWaiter approverId order st =
     (case (or_tableSessionId order, or_tableId order) of
        (None, Some tableId) \<Rightarrow>
          if or_orderType order \<noteq> DINE_IN then Inr (order, st)
          else
            bindE (openTableForOrder newId responsibleWaiter approverId tableId st) (\<lambda>(s, st).
            let seat = (\<lambda>order. order\<lparr>or_tableSessionId := Some s\<rparr>)
            in Inr (seat order, update_order (or_id order) seat st))
      | _ \<Rightarrow> Inr (order, st))"

section \<open>The changes agreed with the diner\<close>

text \<open>A waiting line and its parts end as rejected; the parts are those loaded at the start.\<close>

definition reject_line :: "Store \<Rightarrow> OrderItemRow \<Rightarrow> Store \<Rightarrow> Store outcome" where
  "reject_line loaded line st = step_rows REJECT (line # parts_of loaded (ir_id line)) st"

definition part_quantity :: "OrderItemRow \<Rightarrow> int \<Rightarrow> OrderItemRow \<Rightarrow> int" where
  "part_quantity line quantity part = (ir_quantity part div ir_quantity line) * quantity"

definition set_part_quantities :: "OrderItemRow \<Rightarrow> int \<Rightarrow> OrderItemRow list \<Rightarrow> Store \<Rightarrow> Store" where
  "set_part_quantities line quantity parts st =
     foldl (\<lambda>st part. update_item (ir_id part) (\<lambda>r. r\<lparr>ir_quantity := part_quantity line quantity part\<rparr>) st) st parts"

fun applyChanges ::
  "Store \<Rightarrow> OrderItemRow list \<Rightarrow> ApprovalChange list \<Rightarrow> string list \<Rightarrow> Store \<Rightarrow> (string list \<times> Store) outcome" where
  "applyChanges loaded waiting [] removed st = Inr (removed, st)"
| "applyChanges loaded waiting (change # changes) removed st =
     (case find (\<lambda>candidate. ir_id candidate = ch_orderItemId change) waiting of
        None \<Rightarrow> Inl (NOT_A_WAITING_LINE (ch_orderItemId change))
      | Some line \<Rightarrow>
          if ch_quantity change = 0 then
            bindE (reject_line loaded line st) (applyChanges loaded waiting changes (ir_id line # removed))
          else if ch_quantity change = ir_quantity line then applyChanges loaded waiting changes removed st
          else
            applyChanges loaded waiting changes removed
              (set_part_quantities line (ch_quantity change) (parts_of loaded (ir_id line))
                (update_item (ir_id line) (set_quantity (ch_quantity change)) st)))"

section \<open>Approving\<close>

text \<open>A line with its approved quantity and the units of each part in one combo.\<close>

record ApprovedLine =
  al_line :: OrderItemRow
  al_quantity :: int
  al_parts :: "(OrderItemRow \<times> int) list"

definition approved_quantities :: "ApprovalChange list \<Rightarrow> (string \<times> int) list" where
  "approved_quantities changes =
     foldl (\<lambda>m c. map_set (ch_orderItemId c) (ch_quantity c) m) [] (filter (\<lambda>c. ch_quantity c > 0) changes)"

definition withQuantity :: "Store \<Rightarrow> (string \<times> int) list \<Rightarrow> OrderItemRow \<Rightarrow> ApprovedLine" where
  "withQuantity loaded quantities line =
     \<lparr>al_line = line,
      al_quantity = (case map_of quantities (ir_id line) of None \<Rightarrow> ir_quantity line | Some q \<Rightarrow> q),
      al_parts = map (\<lambda>part. (part, ir_quantity part div ir_quantity line)) (parts_of loaded (ir_id line))\<rparr>"

definition approved_needs :: "ApprovedLine \<Rightarrow> (string \<times> string \<times> int) list" where
  "approved_needs a =
     (if al_parts a = [] then [(ir_itemId (al_line a), ir_name (al_line a), al_quantity a)] else []) @
     map (\<lambda>(part, perUnit). (ir_itemId part, ir_name part, perUnit * al_quantity a)) (al_parts a)"

definition need_names :: "(string \<times> string \<times> int) list \<Rightarrow> (string \<times> string) list" where
  "need_names needs = foldl (\<lambda>m (i, name, q). map_set i name m) [] needs"

definition need_pairs :: "(string \<times> string \<times> int) list \<Rightarrow> (string \<times> int) list" where
  "need_pairs needs = map (\<lambda>(i, name, q). (i, q)) needs"

definition check_approved :: "(string \<Rightarrow> string \<Rightarrow> int) \<Rightarrow> ApprovedLine list \<Rightarrow> Store \<Rightarrow> unit outcome" where
  "check_approved localeCompare lines st =
     (let needs = concat (map approved_needs lines)
      in bindE (short_items (js_sort (\<lambda>a b. localeCompare (fst a) (fst b)) (add_needs (need_pairs needs))) st) (\<lambda>short.
         throw_if (short \<noteq> [])
           (ITEMS_OUT_OF_STOCK (map (\<lambda>i. case map_of (need_names needs) i of None \<Rightarrow> [] | Some name \<Rightarrow> name) short))))"

definition approved_input :: "ApprovedLine \<Rightarrow> KotItemInput" where
  "approved_input a =
     (let line = al_line a
      in \<lparr>ki_orderItemId = ir_id line, ki_itemId = ir_itemId line, ki_name = ir_name line, ki_quantity = al_quantity a,
          ki_stationId = Some (ir_stationId line), ki_variantName = ir_variantName line,
          ki_modifiers = Some (map lm_name (ir_modifiers line)), ki_instructions = ir_instructions line,
          ki_comboComponents = Some (map (\<lambda>(part, perUnit).
            \<lparr>kc_itemId = ir_itemId part, kc_name = ir_name part, kc_quantity = perUnit,
             kc_stationId = ir_stationId part, kc_variantName = None, kc_modifiers = None\<rparr>) (al_parts a))\<rparr>)"

fun approve_rows :: "ApprovedLine list \<Rightarrow> part_ids \<Rightarrow> Store \<Rightarrow> (part_ids \<times> Store) outcome" where
  "approve_rows [] partIds st = Inr (partIds, st)"
| "approve_rows (a # lines) partIds st =
     bindE (step_rows APPROVE (al_line a # map fst (al_parts a)) st)
       (approve_rows lines (part_ids_of (al_line a) (map fst (al_parts a)) partIds))"

definition addToBill :: "OrderRow \<Rightarrow> Store \<Rightarrow> Store outcome" where
  "addToBill order st =
     (case session_of st order of
        None \<Rightarrow> Inr st
      | Some session \<Rightarrow>
          (case st_tables st (se_tableId session) of
             None \<Rightarrow> Inl RECORD_NOT_FOUND
           | Some state \<Rightarrow>
               if state \<noteq> BILL_REQUESTED \<and> state \<noteq> BILL_PRINTED then Inr st
               else
                 bindE (domain (transition tableMachine state ADD_ITEMS)) (\<lambda>t.
                 Inr (st\<lparr>st_tables := (st_tables st)(se_tableId session \<mapsto> tr_to t)\<rparr>))))"

definition send_approved ::
  "(string \<Rightarrow> string \<Rightarrow> int) \<Rightarrow> IsoDate \<Rightarrow> MenuSnapshot \<Rightarrow> OrderRow \<Rightarrow> ApprovedLine list \<Rightarrow> Store \<Rightarrow> Store outcome" where
  "send_approved localeCompare businessDate menu order lines st =
     bindE (check_approved localeCompare lines st) (\<lambda>_.
     bindE (approve_rows lines [] st) (\<lambda>(partIds, st).
     bindE (sendToKitchen businessDate (or_id order) (map approved_input lines) partIds menu st) (\<lambda>st.
     bindE (decrement_each (need_pairs (concat (map approved_needs lines))) st)
       (addToBill order))))"

definition approve ::
  "(nat \<Rightarrow> string) \<Rightarrow> (string \<Rightarrow> string option) \<Rightarrow> (string \<Rightarrow> string \<Rightarrow> int) \<Rightarrow> IsoDate \<Rightarrow> bool \<Rightarrow> MenuSnapshot \<Rightarrow>
   Approver \<Rightarrow> string \<Rightarrow> ApprovalChange list \<Rightarrow> Store \<Rightarrow> Store outcome" where
  "approve newId responsibleWaiter localeCompare businessDate sendKots menu approver orderId changes st =
     (if \<not> sendKots then Inl LICENCE_RESTRICTED
      else
        bindE (lock_order approver orderId st) (\<lambda>order.
        bindE (waitingLines orderId st) (\<lambda>waiting.
        bindE (open_if_needed newId responsibleWaiter (ap_staffId approver) order st) (\<lambda>(order, loaded).
        bindE (applyChanges loaded waiting changes [] loaded) (\<lambda>(removed, st).
        let approved = filter (\<lambda>line. \<not> List.member removed (ir_id line)) waiting
        in if approved = [] then Inl NOTHING_TO_APPROVE
           else
             send_approved localeCompare businessDate menu order
               (map (withQuantity loaded (approved_quantities changes)) approved) st)))))"

section \<open>Rejecting\<close>

fun reject_lines :: "Store \<Rightarrow> OrderItemRow list \<Rightarrow> Store \<Rightarrow> Store outcome" where
  "reject_lines loaded [] st = Inr st"
| "reject_lines loaded (line # lines) st = bindE (reject_line loaded line st) (reject_lines loaded lines)"

definition closeIfEnded :: "string \<Rightarrow> Store \<Rightarrow> Store" where
  "closeIfEnded orderId st =
     (let live = filter (\<lambda>r. ir_orderId r = orderId \<and> \<not> List.member [REJECTED, CANCELLED, VOIDED] (ir_state r)) (st_items st)
      in if live = [] then update_order orderId (\<lambda>order. order\<lparr>or_cancelled := True\<rparr>) st else st)"

definition reject :: "Approver \<Rightarrow> string \<Rightarrow> Store \<Rightarrow> Store outcome" where
  "reject approver orderId st =
     bindE (lock_order approver orderId st) (\<lambda>order.
     bindE (waitingLines orderId st) (\<lambda>waiting.
     bindE (reject_lines st waiting st) (\<lambda>st'. Inr (closeIfEnded orderId st'))))"

end
