(* ===== verification/Order_Rows.thy ===== *)
theory Order_Rows
  imports Order_Submit Order_Approvals
begin

text \<open>
  What the operations of the order engine do to the rows of order items, apart from everything else they change:
  steps set the states of rows by their ids, and what is taken from the stock is read off the rows.
\<close>

section \<open>Setting states by id\<close>

definition on_items :: "(OrderItemRow \<Rightarrow> OrderItemRow) \<Rightarrow> Store \<Rightarrow> Store" where
  "on_items f st = st\<lparr>st_items := map f (st_items st)\<rparr>"

definition assigned :: "(string \<times> OrderItemState) list \<Rightarrow> OrderItemRow \<Rightarrow> OrderItemRow" where
  "assigned xs r = (case map_of xs (ir_id r) of None \<Rightarrow> r | Some s \<Rightarrow> set_state s r)"

definition next_state :: "OrderItemEvent \<Rightarrow> OrderItemState \<Rightarrow> OrderItemState" where
  "next_state event s = (case findTransition orderItemMachine s event of None \<Rightarrow> s | Some t \<Rightarrow> tr_to t)"

lemma set_state_sel [simp]:
  "ir_state (set_state s r) = s" "ir_id (set_state s r) = ir_id r" "ir_itemId (set_state s r) = ir_itemId r"
  "ir_parentOrderItemId (set_state s r) = ir_parentOrderItemId r" "ir_quantity (set_state s r) = ir_quantity r"
  "ir_orderId (set_state s r) = ir_orderId r" "set_state s (set_state s' r) = set_state s r"
  by (simp_all add: set_state_def)

lemma assigned_sel [simp]:
  "ir_id (assigned xs r) = ir_id r" "ir_itemId (assigned xs r) = ir_itemId r"
  "ir_parentOrderItemId (assigned xs r) = ir_parentOrderItemId r" "ir_quantity (assigned xs r) = ir_quantity r"
  "ir_orderId (assigned xs r) = ir_orderId r" "assigned [] r = r"
  by (simp_all add: assigned_def split: option.splits)

lemma assigned_state: "ir_state (assigned xs r) = (case map_of xs (ir_id r) of None \<Rightarrow> ir_state r | Some s \<Rightarrow> s)"
  by (simp add: assigned_def split: option.splits)

lemma assigned_append: "assigned ys (assigned xs r) = assigned (ys @ xs) r"
  by (simp add: assigned_def map_add_def split: option.splits)

lemma on_items_sel [simp]:
  "st_items (on_items f st) = map f (st_items st)" "st_issued (on_items f st) = st_issued st"
  "st_stock (on_items f st) = st_stock st" "st_keys (on_items f st) = st_keys st"
  "st_orders (on_items f st) = st_orders st" "st_sessions (on_items f st) = st_sessions st"
  "st_stations (on_items f st) = st_stations st"
  by (simp_all add: on_items_def)

lemma on_items_on_items: "on_items g (on_items f st) = on_items (\<lambda>r. g (f r)) st"
  by (simp add: on_items_def comp_def)

lemma update_item_on_items: "update_item i f st = on_items (\<lambda>r. if ir_id r = i then f r else r) st"
  by (simp add: update_item_def on_items_def)

lemma update_item_set_state: "update_item i (set_state s) st = on_items (assigned [(i, s)]) st"
  unfolding update_item_on_items by (rule arg_cong [of _ _ "\<lambda>f. on_items f st"]) (auto simp: assigned_def fun_eq_iff)

lemma step_Inr: "step event r = Inr r' \<longleftrightarrow> can event r \<and> r' = set_state (next_state event (ir_state r)) r"
  by (auto simp: step_def bindE_Inr_iff transition_def can_def canTransition_def next_state_def set_state_def split: option.splits)

definition new_states :: "(OrderItemRow \<times> OrderItemEvent) list \<Rightarrow> (string \<times> OrderItemState) list" where
  "new_states ended = map (\<lambda>(r, how). (ir_id r, next_state how (ir_state r))) ended"

lemma step_rows_effect:
  "step_rows event rows st = Inr st' \<Longrightarrow>
     st' = on_items (assigned (rev (new_states (map (\<lambda>r. (r, event)) rows)))) st \<and> (\<forall>r \<in> set rows. can event r)"
proof (induction rows arbitrary: st)
  case Nil
  then show ?case by (simp add: new_states_def on_items_def)
next
  case (Cons r rows)
  from Cons.prems have c: "can event r"
    and rest: "step_rows event rows (on_items (assigned [(ir_id r, next_state event (ir_state r))]) st) = Inr st'"
    by (auto simp: bindE_Inr_iff step_Inr update_item_set_state)
  show ?case using Cons.IH [OF rest] c
    by (simp add: on_items_on_items assigned_append new_states_def)
qed

lemma end_rows_effect:
  "end_rows ended st = Inr st' \<Longrightarrow>
     st' = on_items (assigned (rev (new_states ended))) st \<and> (\<forall>(r, how) \<in> set ended. can how r)"
proof (induction ended arbitrary: st)
  case Nil
  then show ?case by (simp add: new_states_def on_items_def)
next
  case (Cons e ended)
  obtain r how where e: "e = (r, how)" by fastforce
  from Cons.prems obtain mid where mid: "step_rows how [r] st = Inr mid" "end_rows ended mid = Inr st'"
    by (auto simp: e bindE_Inr_iff)
  show ?case using Cons.IH [OF mid(2)] step_rows_effect [OF mid(1)]
    by (simp add: e on_items_on_items assigned_append new_states_def)
qed

lemma new_states_lookup:
  assumes "distinct (map ir_id (map fst ended))" "(r, how) \<in> set ended"
  shows "map_of (rev (new_states ended)) (ir_id r) = Some (next_state how (ir_state r))"
proof -
  have "distinct (map fst (rev (new_states ended)))"
    using assms(1) by (simp only: rev_map [symmetric] distinct_rev) (simp add: new_states_def comp_def split_def)
  moreover have "(ir_id r, next_state how (ir_state r)) \<in> set (rev (new_states ended))"
    using assms(2) by (force simp: new_states_def)
  ultimately show ?thesis by (rule map_of_is_SomeI)
qed

lemma new_states_none: "i \<notin> ir_id ` fst ` set ended \<Longrightarrow> map_of (rev (new_states ended)) i = None"
  by (force simp: map_of_eq_None_iff new_states_def)

section \<open>What rows take from the stock\<close>

text \<open>A row that holds stock itself: a part, or a line without parts.\<close>

definition leaf :: "OrderItemRow list \<Rightarrow> OrderItemRow \<Rightarrow> bool" where
  "leaf rows r \<longleftrightarrow> ir_parentOrderItemId r \<noteq> None \<or> (\<forall>p \<in> set rows. ir_parentOrderItemId p \<noteq> Some (ir_id r))"

text \<open>The states of a row whose stock was taken and not given back.\<close>

definition counts :: "OrderItemState \<Rightarrow> bool" where
  "counts s \<longleftrightarrow> s \<notin> {PENDING_APPROVAL, REJECTED, CANCELLED}"

definition takes :: "OrderItemRow list \<Rightarrow> string \<Rightarrow> OrderItemRow \<Rightarrow> int" where
  "takes rows i r = (if leaf rows r \<and> counts (ir_state r) \<and> ir_itemId r = i then ir_quantity r else 0)"

definition taken :: "Store \<Rightarrow> string \<Rightarrow> int" where
  "taken st i = sum_list (map (takes (st_items st) i) (st_items st))"

text \<open>What is left of an item whose stock is counted.\<close>

definition counted :: "Store \<Rightarrow> string \<Rightarrow> int option" where
  "counted st i = (case st_stock st i of None \<Rightarrow> None | Some r \<Rightarrow> stock_count r)"

definition need_of :: "(string \<times> int) list \<Rightarrow> string \<Rightarrow> int" where
  "need_of needs i = sum_list (map (\<lambda>(j, q). if j = i then q else 0) needs)"

lemma need_of_simps [simp]:
  "need_of [] i = 0" "need_of ((j, q) # needs) i = (if j = i then q else 0) + need_of needs i"
  "need_of (xs @ ys) i = need_of xs i + need_of ys i"
  by (simp_all add: need_of_def)

lemma need_of_nonneg: "\<forall>(j, q) \<in> set needs. 0 \<le> q \<Longrightarrow> 0 \<le> need_of needs i"
  unfolding need_of_def by (rule sum_list_map_nonneg) auto

text \<open>A change of rows that keeps what they are; the sum changes by the rows that changed.\<close>

definition keeps :: "(OrderItemRow \<Rightarrow> OrderItemRow) \<Rightarrow> bool" where
  "keeps f \<longleftrightarrow> (\<forall>r. ir_id (f r) = ir_id r \<and> ir_itemId (f r) = ir_itemId r \<and> ir_orderId (f r) = ir_orderId r \<and>
     ir_parentOrderItemId (f r) = ir_parentOrderItemId r)"

lemma keeps_assigned [simp]: "keeps (assigned xs)"
  by (simp add: keeps_def)

lemma keeps_comp: "keeps f \<Longrightarrow> keeps g \<Longrightarrow> keeps (\<lambda>r. g (f r))"
  by (simp add: keeps_def)

lemma leaf_map: "keeps f \<Longrightarrow> leaf (map f rows) (f r) \<longleftrightarrow> leaf rows r"
  by (auto simp: leaf_def keeps_def)

lemma sum_changed:
  fixes h g :: "OrderItemRow \<Rightarrow> int"
  assumes "distinct items" "distinct rows" "set rows \<subseteq> set items"
    and "\<And>r. r \<in> set items \<Longrightarrow> r \<notin> set rows \<Longrightarrow> h r = g r"
  shows "sum_list (map h items) = sum_list (map g items) + sum_list (map (\<lambda>r. h r - g r) rows)"
proof -
  have "sum_list (map h items) - sum_list (map g items) = sum_list (map (\<lambda>r. h r - g r) items)"
    by (simp add: sum_list_subtractf)
  also have "\<dots> = (\<Sum>r \<in> set items. h r - g r)" by (rule sum_list_distinct_conv_sum_set [OF assms(1)])
  also have "\<dots> = (\<Sum>r \<in> set rows. h r - g r)"
    by (rule sum.mono_neutral_right) (use assms(3,4) in auto)
  also have "\<dots> = sum_list (map (\<lambda>r. h r - g r) rows)" by (rule sum_list_distinct_conv_sum_set [symmetric, OF assms(2)])
  finally show ?thesis by simp
qed

lemma taken_on_items:
  assumes "keeps f" "distinct (st_items st)" "distinct rows" "set rows \<subseteq> set (st_items st)"
    and "\<And>r. r \<in> set (st_items st) \<Longrightarrow> r \<notin> set rows \<Longrightarrow> takes (st_items st) i (f r) = takes (st_items st) i r"
  shows "taken (on_items f st) i =
    taken st i + sum_list (map (\<lambda>r. takes (st_items st) i (f r) - takes (st_items st) i r) rows)"
proof -
  have "takes (map f (st_items st)) i (f r) = takes (st_items st) i (f r)" for r
    using leaf_map [OF assms(1), of "st_items st" r] assms(1) by (simp add: takes_def leaf_def keeps_def)
  then have "taken (on_items f st) i = sum_list (map (\<lambda>r. takes (st_items st) i (f r)) (st_items st))"
    by (simp add: taken_def comp_def)
  also have "\<dots> = sum_list (map (takes (st_items st) i) (st_items st)) +
      sum_list (map (\<lambda>r. takes (st_items st) i (f r) - takes (st_items st) i r) rows)"
    by (rule sum_changed [OF assms(2-4) assms(5)])
  finally show ?thesis by (simp add: taken_def)
qed

end
