(* ===== verification/Order_Stock.thy ===== *)
theory Order_Stock
  imports Order_Rows
begin

text \<open>
  What the operations of the order engine leave alone, and what the stock functions do to what is left:
  a decrement within the stock and a restore are exact, and a check that finds nothing short means that
  every need fits.
\<close>

section \<open>Frames\<close>

text \<open>Only tickets and numbers of the day, or only the stock, may differ.\<close>

definition same_but_tickets :: "Store \<Rightarrow> Store \<Rightarrow> bool" where
  "same_but_tickets st st' \<longleftrightarrow> st_items st' = st_items st \<and> st_stock st' = st_stock st \<and> st_issued st' = st_issued st \<and>
     st_keys st' = st_keys st \<and> st_orders st' = st_orders st \<and> st_sessions st' = st_sessions st \<and> st_tables st' = st_tables st"

definition same_but_stock :: "Store \<Rightarrow> Store \<Rightarrow> bool" where
  "same_but_stock st st' \<longleftrightarrow> st_items st' = st_items st \<and> st_issued st' = st_issued st \<and> st_keys st' = st_keys st \<and>
     st_orders st' = st_orders st \<and> st_sessions st' = st_sessions st \<and> st_tables st' = st_tables st \<and> st_kots st' = st_kots st"

lemma same_refl [simp]: "same_but_tickets st st" "same_but_stock st st"
  by (simp_all add: same_but_tickets_def same_but_stock_def)

lemma same_but_tickets_trans: "same_but_tickets st st' \<Longrightarrow> same_but_tickets st' st'' \<Longrightarrow> same_but_tickets st st''"
  by (simp add: same_but_tickets_def)

lemma same_but_stock_trans: "same_but_stock st st' \<Longrightarrow> same_but_stock st' st'' \<Longrightarrow> same_but_stock st st''"
  by (simp add: same_but_stock_def)

lemma add_ticket_same: "same_but_tickets st (add_ticket businessDate orderId kind stationId mode lines st)"
  by (simp add: same_but_tickets_def add_ticket_def allocateDailyNumber_def Let_def)

lemma add_drafts_same: "same_but_tickets st (add_drafts businessDate orderId menu partIds drafts st)"
  by (induction drafts arbitrary: st) (auto intro: same_but_tickets_trans [OF add_ticket_same])

lemma sendToKitchen_same: "sendToKitchen businessDate orderId inputs partIds menu st = Inr st' \<Longrightarrow> same_but_tickets st st'"
  by (auto simp: sendToKitchen_def bindE_Inr_iff add_drafts_same)

lemma add_slips_same: "add_slips businessDate orderId kind stations st = Inr st' \<Longrightarrow> same_but_tickets st st'"
proof (induction businessDate orderId kind stations st rule: add_slips.induct)
  case (2 businessDate orderId kind stationId lines stations st)
  then show ?case by (auto intro: same_but_tickets_trans [OF add_ticket_same] split: option.splits)
qed simp

lemma slip_same: "slip businessDate orderId kind lines st = Inr st' \<Longrightarrow> same_but_tickets st st'"
  by (auto simp: slip_def intro: add_slips_same)

lemma same_counted: "same_but_tickets st st' \<Longrightarrow> counted st' i = counted st i \<and> taken st' i = taken st i"
  by (simp add: same_but_tickets_def counted_def taken_def)

lemma same_taken: "same_but_stock st st' \<Longrightarrow> taken st' i = taken st i"
  by (simp add: same_but_stock_def taken_def)

section \<open>Taking and giving back\<close>

lemma set_stock_effect:
  assumes "set_stock j a n r st = Inr st'" "st_stock st j = Some r" "sk_trackStock r"
  shows "same_but_stock st st' \<and> counted st' i = (if i = j then Some n else counted st i)"
  using assms by (auto simp: set_stock_def same_but_stock_def counted_def stock_count_def split: if_splits)

lemma decrementStock_effect:
  assumes "decrementStock j q st = Inr st'"
  shows "same_but_stock st st' \<and>
    counted st' i = (if i = j then map_option (\<lambda>n. max 0 (n - q)) (counted st i) else counted st i)"
proof -
  obtain r where r: "st_stock st j = Some r"
    using assms by (auto simp: decrementStock_def lockAvailability_def bindE_Inr_iff split: option.splits)
  show ?thesis
  proof (cases "stock_count r")
    case None
    then show ?thesis using assms r by (auto simp: decrementStock_def lockAvailability_def counted_def)
  next
    case (Some n)
    then have track: "sk_trackStock r" by (auto simp: stock_count_def split: if_splits)
    have "set_stock j (sk_available r \<and> max 0 (n - q) > 0) (max 0 (n - q)) r st = Inr st'"
      using assms r Some by (simp add: decrementStock_def lockAvailability_def Let_def)
    from set_stock_effect [OF this r track, of i] show ?thesis using r Some by (simp add: counted_def)
  qed
qed

lemma restoreStock_effect:
  assumes "restoreStock j q st = Inr st'"
  shows "same_but_stock st st' \<and> counted st' i = (if i = j then map_option (\<lambda>n. n + q) (counted st i) else counted st i)"
proof -
  obtain r where r: "st_stock st j = Some r"
    using assms by (auto simp: restoreStock_def lockAvailability_def bindE_Inr_iff split: option.splits)
  show ?thesis
  proof (cases "stock_count r")
    case None
    then show ?thesis using assms r by (auto simp: restoreStock_def lockAvailability_def counted_def)
  next
    case (Some n)
    then have track: "sk_trackStock r" by (auto simp: stock_count_def split: if_splits)
    have "set_stock j (sk_available r) (n + q) r st = Inr st'"
      using assms r Some by (simp add: restoreStock_def lockAvailability_def)
    from set_stock_effect [OF this r track, of i] show ?thesis using r Some by (simp add: counted_def)
  qed
qed

lemma need_of_absent: "i \<notin> fst ` set needs \<Longrightarrow> need_of needs i = 0"
  by (induction needs) (auto simp: need_of_def)

lemma decrement_each_effect:
  assumes "decrement_each needs st = Inr st'" "\<forall>(j, q) \<in> set needs. 0 \<le> q"
    and "i \<in> fst ` set needs \<Longrightarrow> counted st i = Some n \<Longrightarrow> need_of needs i \<le> n"
    and "counted st i = Some n"
  shows "counted st' i = Some (n - need_of needs i)"
  using assms
proof (induction needs arbitrary: st n)
  case Nil
  then show ?case by simp
next
  case (Cons need needs)
  obtain j q where need: "need = (j, q)" by fastforce
  obtain mid where mid: "decrementStock j q st = Inr mid" "decrement_each needs mid = Inr st'"
    using Cons.prems(1) by (auto simp: need bindE_Inr_iff)
  have rest: "0 \<le> need_of needs i" using Cons.prems(2) by (intro need_of_nonneg) auto
  have q: "0 \<le> q" using Cons.prems(2) by (simp add: need)
  show ?case
  proof (cases "j = i")
    case True
    have le: "q + need_of needs i \<le> n" using Cons.prems(3,4) True need by simp
    have "counted mid i = Some (n - q)"
      using decrementStock_effect [OF mid(1), of i] Cons.prems(4) True le rest by simp
    then show ?thesis using Cons.IH [OF mid(2), of "n - q"] Cons.prems(2) le True need by simp
  next
    case False
    have same: "counted mid i = Some n" using decrementStock_effect [OF mid(1), of i] Cons.prems(4) False by simp
    then show ?thesis using Cons.IH [OF mid(2), of n] Cons.prems(2-4) False need by auto
  qed
qed

lemma decrement_each_same: "decrement_each needs st = Inr st' \<Longrightarrow> same_but_stock st st'"
proof (induction needs arbitrary: st)
  case (Cons need needs)
  then show ?case
    by (cases need) (auto simp: bindE_Inr_iff dest: decrementStock_effect intro: same_but_stock_trans)
qed simp

lemma decrement_each_counted: "decrement_each needs st = Inr st' \<Longrightarrow> counted st i = Some n \<Longrightarrow> 0 \<le> n \<Longrightarrow> \<exists>n'. counted st' i = Some n' \<and> 0 \<le> n'"
proof (induction needs arbitrary: st n)
  case (Cons need needs)
  obtain j q mid where mid: "decrementStock j q st = Inr mid" "decrement_each needs mid = Inr st'"
    using Cons.prems(1) by (cases need) (auto simp: bindE_Inr_iff)
  have "counted mid i = Some (if i = j then max 0 (n - q) else n)"
    using decrementStock_effect [OF mid(1), of i] Cons.prems(2) by auto
  from Cons.IH [OF mid(2) this] Cons.prems(3) show ?case by (simp split: if_splits)
qed simp

lemma decrement_each_none: "decrement_each needs st = Inr st' \<Longrightarrow> counted st i = None \<Longrightarrow> counted st' i = None"
proof (induction needs arbitrary: st)
  case (Cons need needs)
  obtain j q mid where mid: "decrementStock j q st = Inr mid" "decrement_each needs mid = Inr st'"
    using Cons.prems(1) by (cases need) (auto simp: bindE_Inr_iff)
  then show ?case using Cons.IH [OF mid(2)] Cons.prems(2) decrementStock_effect [OF mid(1), of i] by (auto split: if_splits)
qed simp

lemma restore_each_effect:
  assumes "restore_each needs st = Inr st'"
  shows "same_but_stock st st' \<and> counted st' i = map_option (\<lambda>n. n + need_of needs i) (counted st i)"
  using assms
proof (induction needs arbitrary: st)
  case Nil
  then show ?case by (simp add: option.map_ident)
next
  case (Cons need needs)
  obtain j q where need: "need = (j, q)" by fastforce
  obtain mid where mid: "restoreStock j q st = Inr mid" "restore_each needs mid = Inr st'"
    using Cons.prems by (auto simp: need bindE_Inr_iff)
  show ?case using Cons.IH [OF mid(2)] restoreStock_effect [OF mid(1), of i]
    by (auto simp: need option.map_comp comp_def algebra_simps intro: same_but_stock_trans)
qed

section \<open>The check before taking\<close>

lemma add_needs_from:
  "map_of (foldl (\<lambda>m (i, q). map_set i ((case map_of m i of None \<Rightarrow> 0 | Some n \<Rightarrow> n) + q) m) m needs) i =
     (if i \<in> fst ` set needs then Some ((case map_of m i of None \<Rightarrow> 0 | Some n \<Rightarrow> n) + need_of needs i) else map_of m i)"
proof (induction needs arbitrary: m)
  case Nil
  then show ?case by simp
next
  case (Cons need needs)
  show ?case by (cases need) (auto simp: Cons.IH need_of_absent)
qed

lemma map_of_add_needs: "map_of (add_needs needs) i = (if i \<in> fst ` set needs then Some (need_of needs i) else None)"
  unfolding add_needs_def by (subst add_needs_from) simp

lemma fst_add_needs: "fst ` set (add_needs needs) = fst ` set needs"
proof (rule set_eqI)
  fix i
  have "i \<in> fst ` set (add_needs needs) \<longleftrightarrow> map_of (add_needs needs) i \<noteq> None" by (simp add: map_of_eq_None_iff)
  then show "i \<in> fst ` set (add_needs needs) \<longleftrightarrow> i \<in> fst ` set needs" by (simp add: map_of_add_needs)
qed

lemma short_items_ok:
  assumes "short_items needs st = Inr short" "(i, q) \<in> set needs" "i \<notin> set short"
  shows "\<exists>r. st_stock st i = Some r \<and> sk_available r \<and> (\<forall>n. counted st i = Some n \<longrightarrow> q \<le> n)"
  using assms
proof (induction needs arbitrary: short)
  case Nil
  then show ?case by simp
next
  case (Cons need needs)
  obtain j k where need: "need = (j, k)" by fastforce
  obtain r rest where r: "st_stock st j = Some r" and rest: "short_items needs st = Inr rest"
    and short: "short = (if \<not> sk_available r \<or> (case stock_count r of None \<Rightarrow> False | Some n \<Rightarrow> n < k) then j # rest else rest)"
    using Cons.prems(1) by (auto simp: need bindE_Inr_iff lockAvailability_def split: option.splits)
  show ?case
  proof (cases "(i, q) = need")
    case True
    then show ?thesis using r short Cons.prems(3) need by (auto simp: counted_def split: if_splits option.splits)
  next
    case False
    then show ?thesis using Cons.IH [OF rest] Cons.prems(2,3) short by (auto split: if_splits)
  qed
qed

lemma checkStock_ok:
  assumes "checkStock lines st = Inr short" "i \<in> fst ` set (order_needs lines)" "i \<notin> set short" "counted st i = Some n"
  shows "need_of (order_needs lines) i \<le> n"
proof -
  let ?needs = "add_needs (order_needs lines)"
  have "i \<in> fst ` set ?needs" using assms(2) by (simp add: fst_add_needs)
  then have "(i, case map_of ?needs i of None \<Rightarrow> 0 | Some n \<Rightarrow> n) \<in>
      set (map (\<lambda>i. (i, case map_of ?needs i of None \<Rightarrow> 0 | Some n \<Rightarrow> n)) (js_sort text_order (map fst ?needs)))"
    by auto
  then have "(i, need_of (order_needs lines) i) \<in>
      set (map (\<lambda>i. (i, case map_of ?needs i of None \<Rightarrow> 0 | Some n \<Rightarrow> n)) (js_sort text_order (map fst ?needs)))"
    using assms(2) by (simp add: map_of_add_needs)
  from short_items_ok [OF assms(1) [unfolded checkStock_def Let_def] this assms(3)] assms(4) show ?thesis by blast
qed

end
