(* ===== verification/Order_Invariant.thy ===== *)
theory Order_Invariant
  imports Order_Stock
begin

text \<open>
  What holds of the rows between transactions: ids are those issued, a part belongs to a line of its order
  and is a multiple of it, and a combo line is always exactly where its parts are.
\<close>

section \<open>Where a combo line is\<close>

definition in_step :: "OrderItemState \<Rightarrow> OrderItemState list \<Rightarrow> bool" where
  "in_step s ps \<longleftrightarrow>
     ps = [] \<or>
     (s \<in> {PENDING_APPROVAL, HELD, REJECTED, CANCELLED} \<and> set ps \<subseteq> {s}) \<or>
     (s = VOIDED \<and> set ps \<subseteq> {VOIDED, CANCELLED}) \<or>
     (PROGRESS s \<noteq> None \<and> (\<forall>p \<in> set ps. PROGRESS p \<noteq> None) \<and> s = follow_target (map place ps))"

lemma place_bound: "place s \<le> 4"
  by (cases s) (simp_all add: place_def)

lemma PROGRESS_some: "PROGRESS s \<noteq> None \<longleftrightarrow> s \<in> {SENT, PREPARING, READY, PICKED_UP, SERVED}"
  by (cases s) auto

lemma place_simps [simp]:
  "place SENT = 0" "place PREPARING = 1" "place READY = 2" "place PICKED_UP = 3" "place SERVED = 4"
  by (simp_all add: place_def)

lemma place_inj: "PROGRESS s \<noteq> None \<Longrightarrow> PROGRESS t \<noteq> None \<Longrightarrow> place s = place t \<Longrightarrow> s = t"
  by (cases s; cases t) (simp_all add: place_def)

lemma place_follow_target:
  assumes "ps \<noteq> []" "\<forall>p \<in> set ps. p \<le> 4"
  shows "place (follow_target ps) = max (Min (set ps)) (if Max (set ps) > 0 then 1 else 0)"
    and "PROGRESS (follow_target ps) \<noteq> None"
proof -
  have "Min (set ps) \<le> 4" using assms by (meson List.finite_set Min_in set_empty)
  then have "Min (set ps) \<in> {0, 1, 2, 3, 4}" by auto
  then have "place (follow_target ps) = max (Min (set ps)) (if Max (set ps) > 0 then 1 else 0) \<and> PROGRESS (follow_target ps) \<noteq> None"
    by (auto simp: follow_target_def Let_def PROGRESS_STATES_def)
  then show "place (follow_target ps) = max (Min (set ps)) (if Max (set ps) > 0 then 1 else 0)" "PROGRESS (follow_target ps) \<noteq> None"
    by auto
qed

text \<open>The target in words: nothing started, something started but not all ready, and so on.\<close>

lemma follow_target_iff:
  assumes "ps \<noteq> []" "\<forall>p \<in> set ps. p \<le> 4"
  shows "follow_target ps = SENT \<longleftrightarrow> (\<forall>p \<in> set ps. p = 0)"
    and "follow_target ps = PREPARING \<longleftrightarrow> (\<exists>p \<in> set ps. 0 < p) \<and> (\<exists>p \<in> set ps. p \<le> 1)"
    and "follow_target ps = READY \<longleftrightarrow> (\<forall>p \<in> set ps. 2 \<le> p) \<and> (\<exists>p \<in> set ps. p = 2)"
    and "follow_target ps = PICKED_UP \<longleftrightarrow> (\<forall>p \<in> set ps. 3 \<le> p) \<and> (\<exists>p \<in> set ps. p = 3)"
    and "follow_target ps = SERVED \<longleftrightarrow> (\<forall>p \<in> set ps. p = 4)"
proof -
  let ?S = "set ps"
  have fin: "finite ?S" "?S \<noteq> {}" using assms(1) by auto
  have mn: "Min ?S \<in> ?S" "\<And>p. p \<in> ?S \<Longrightarrow> Min ?S \<le> p" and mx: "Max ?S \<in> ?S" "\<And>p. p \<in> ?S \<Longrightarrow> p \<le> Max ?S"
    using fin by auto
  have mx0: "Max ?S > 0 \<longleftrightarrow> (\<exists>p \<in> ?S. 0 < p)" using mx by (meson less_le_trans)
  note pl = place_follow_target [OF assms]
  have iff: "follow_target ps = t \<longleftrightarrow> place t = max (Min ?S) (if Max ?S > 0 then 1 else 0)" if "PROGRESS t \<noteq> None" for t
    using pl place_inj [OF pl(2) that] by auto
  have min_ge: "k \<le> Min ?S \<longleftrightarrow> (\<forall>p \<in> ?S. k \<le> p)" for k using fin by simp
  have min_le: "Min ?S \<le> k \<longleftrightarrow> (\<exists>p \<in> ?S. p \<le> k)" for k using mn by (meson order_trans)
  have min_eq: "Min ?S = k \<longleftrightarrow> (\<forall>p \<in> ?S. k \<le> p) \<and> (\<exists>p \<in> ?S. p = k)" for k
    using min_ge [of k] mn by (metis order_antisym)
  show "follow_target ps = SENT \<longleftrightarrow> (\<forall>p \<in> ?S. p = 0)"
    using iff [of SENT] mx0 min_le [of 0] assms(1) by (auto simp: max_def split: if_splits)
  show "follow_target ps = PREPARING \<longleftrightarrow> (\<exists>p \<in> ?S. 0 < p) \<and> (\<exists>p \<in> ?S. p \<le> 1)"
    using iff [of PREPARING] mx0 min_le [of 1] mn by (auto simp: max_def split: if_splits)
  show "follow_target ps = READY \<longleftrightarrow> (\<forall>p \<in> ?S. 2 \<le> p) \<and> (\<exists>p \<in> ?S. p = 2)"
    using iff [of READY] min_eq [of 2] by (auto simp: max_def split: if_splits)
  show "follow_target ps = PICKED_UP \<longleftrightarrow> (\<forall>p \<in> ?S. 3 \<le> p) \<and> (\<exists>p \<in> ?S. p = 3)"
    using iff [of PICKED_UP] min_eq [of 3] by (auto simp: max_def split: if_splits)
  have "Min ?S = 4 \<longleftrightarrow> (\<forall>p \<in> ?S. p = 4)" using min_eq [of 4] assms mn(1) by (metis order_antisym)
  then show "follow_target ps = SERVED \<longleftrightarrow> (\<forall>p \<in> ?S. p = 4)"
    using iff [of SERVED] by (auto simp: max_def split: if_splits)
qed

lemma in_step_progress:
  assumes "PROGRESS s \<noteq> None" "ps \<noteq> []"
  shows "in_step s ps \<longleftrightarrow> (\<forall>p \<in> set ps. PROGRESS p \<noteq> None) \<and> s = follow_target (map place ps)"
  using assms by (auto simp: in_step_def)

lemma follow_places:
  assumes "ps \<noteq> []"
  shows "SENT = follow_target (map place ps) \<longleftrightarrow> (\<forall>p \<in> set ps. place p = 0)"
    and "PREPARING = follow_target (map place ps) \<longleftrightarrow> (\<exists>p \<in> set ps. 0 < place p) \<and> (\<exists>p \<in> set ps. place p \<le> 1)"
    and "READY = follow_target (map place ps) \<longleftrightarrow> (\<forall>p \<in> set ps. 2 \<le> place p) \<and> (\<exists>p \<in> set ps. place p = 2)"
    and "PICKED_UP = follow_target (map place ps) \<longleftrightarrow> (\<forall>p \<in> set ps. 3 \<le> place p) \<and> (\<exists>p \<in> set ps. place p = 3)"
    and "SERVED = follow_target (map place ps) \<longleftrightarrow> (\<forall>p \<in> set ps. place p = 4)"
proof -
  have le: "\<forall>p \<in> set (map place ps). p \<le> 4" and ne: "map place ps \<noteq> []" using assms place_bound by auto
  note f = follow_target_iff [OF ne le]
  have swap: "s = follow_target (map place ps) \<longleftrightarrow> follow_target (map place ps) = s" for s by auto
  show "SENT = follow_target (map place ps) \<longleftrightarrow> (\<forall>p \<in> set ps. place p = 0)" unfolding swap f(1) by simp
  show "PREPARING = follow_target (map place ps) \<longleftrightarrow> (\<exists>p \<in> set ps. 0 < place p) \<and> (\<exists>p \<in> set ps. place p \<le> 1)"
    unfolding swap f(2) by simp
  show "READY = follow_target (map place ps) \<longleftrightarrow> (\<forall>p \<in> set ps. 2 \<le> place p) \<and> (\<exists>p \<in> set ps. place p = 2)"
    unfolding swap f(3) by auto
  show "PICKED_UP = follow_target (map place ps) \<longleftrightarrow> (\<forall>p \<in> set ps. 3 \<le> place p) \<and> (\<exists>p \<in> set ps. place p = 3)"
    unfolding swap f(4) by auto
  show "SERVED = follow_target (map place ps) \<longleftrightarrow> (\<forall>p \<in> set ps. place p = 4)" unfolding swap f(5) by simp
qed

section \<open>The machine as a table\<close>

fun event_sources :: "OrderItemEvent \<Rightarrow> OrderItemState list" where
  "event_sources APPROVE = [PENDING_APPROVAL]"
| "event_sources REJECT = [PENDING_APPROVAL]"
| "event_sources FIRE = [HELD]"
| "event_sources START_PREPARING = [SENT]"
| "event_sources MARK_READY = [SENT, PREPARING]"
| "event_sources PICK_UP = [READY]"
| "event_sources SERVE = [READY, PICKED_UP]"
| "event_sources CANCEL = [HELD, SENT]"
| "event_sources VOID = [PREPARING, READY, PICKED_UP, SERVED]"

fun event_target :: "OrderItemEvent \<Rightarrow> OrderItemState" where
  "event_target APPROVE = SENT"
| "event_target REJECT = REJECTED"
| "event_target FIRE = SENT"
| "event_target START_PREPARING = PREPARING"
| "event_target MARK_READY = READY"
| "event_target PICK_UP = PICKED_UP"
| "event_target SERVE = SERVED"
| "event_target CANCEL = CANCELLED"
| "event_target VOID = VOIDED"

lemma find_event: "findTransition orderItemMachine s e =
    (if s \<in> set (event_sources e) then findTransition orderItemMachine (hd (event_sources e)) e else None)"
  by (cases e) (auto simp: findTransition_def item_tables)

lemma can_event: "canTransition orderItemMachine s e \<longleftrightarrow> s \<in> set (event_sources e)"
  by (cases e) (auto simp: canTransition_def findTransition_def item_tables)

lemma next_event: "next_state e s = (if s \<in> set (event_sources e) then event_target e else s)"
  by (cases e) (auto simp: next_state_def findTransition_def item_tables)

lemma can_row: "can e r \<longleftrightarrow> ir_state r \<in> set (event_sources e)"
  by (simp add: can_def can_event)

definition kitchen_event :: "OrderItemEvent \<Rightarrow> bool" where
  "kitchen_event e \<longleftrightarrow> e \<in> {START_PREPARING, MARK_READY, PICK_UP, SERVE}"

lemma may_step_kitchen: "may_step matrix who e \<Longrightarrow> kitchen_event e"
  by (cases e) (auto simp: may_step_def kitchen_event_def)

lemma kitchen_progress: "kitchen_event e \<Longrightarrow> s \<in> set (event_sources e) \<Longrightarrow> PROGRESS s \<noteq> None \<and> PROGRESS (event_target e) \<noteq> None \<and> place s < place (event_target e)"
  by (auto simp: kitchen_event_def)

text \<open>A step of the line that its parts follow where they can.\<close>

lemma line_step_in_step:
  assumes "in_step s ps" "kitchen_event e" "s \<in> set (event_sources e)"
  shows "in_step (event_target e) (map (next_state e) ps)"
proof (cases "ps = []")
  case True
  then show ?thesis by (simp add: in_step_def)
next
  case False
  then have progress: "\<forall>p \<in> set ps. PROGRESS p \<noteq> None" and s: "s = follow_target (map place ps)"
    using in_step_progress kitchen_progress [OF assms(2,3)] assms(1) by blast+
  have each: "p \<in> {SENT, PREPARING, READY, PICKED_UP, SERVED}" if "p \<in> set ps" for p
    using progress that PROGRESS_some by blast
  have mapped: "map (next_state e) ps \<noteq> []" using False by simp
  have stays: "\<forall>p \<in> set (map (next_state e) ps). PROGRESS p \<noteq> None"
    using progress kitchen_progress [OF assms(2)] by (auto simp: next_event)
  have "event_target e = follow_target (map place (map (next_state e) ps))"
  proof -
    consider "e = START_PREPARING" "s = SENT" | "e = MARK_READY" "s = SENT" | "e = MARK_READY" "s = PREPARING"
      | "e = PICK_UP" "s = READY" | "e = SERVE" "s = READY" | "e = SERVE" "s = PICKED_UP"
      using assms(2,3) by (auto simp: kitchen_event_def)
    then show ?thesis
    proof cases
      case 1
      then have "\<forall>p \<in> set ps. p = SENT" using s follow_places(1) [OF False] each by fastforce
      then show ?thesis using 1 False follow_places(2) [OF mapped] by (auto simp: next_event neq_Nil_conv)
    next
      case 2
      then have "\<forall>p \<in> set ps. p = SENT" using s follow_places(1) [OF False] each by fastforce
      then show ?thesis using 2 False follow_places(3) [OF mapped] by (auto simp: next_event neq_Nil_conv)
    next
      case 3
      then obtain p where p: "p \<in> set ps" "place p \<le> 1" using s follow_places(2) [OF False] by blast
      then have "next_state e p = READY" using each [OF p(1)] 3 by (auto simp: next_event)
      moreover have "2 \<le> place (next_state e q)" if "q \<in> set ps" for q using each [OF that] 3 by (auto simp: next_event)
      ultimately show ?thesis using 3 p(1) follow_places(3) [OF mapped] by force
    next
      case 4
      then have all: "\<forall>p \<in> set ps. 2 \<le> place p" and "\<exists>p \<in> set ps. place p = 2" using s follow_places(3) [OF False] by blast+
      then obtain p where p: "p \<in> set ps" "place p = 2" by blast
      then have "next_state e p = PICKED_UP" using each [OF p(1)] 4 by (auto simp: next_event)
      moreover have "3 \<le> place (next_state e q)" if "q \<in> set ps" for q using each [OF that] all that 4 by (auto simp: next_event)
      ultimately show ?thesis using 4 p(1) follow_places(4) [OF mapped] by force
    next
      case 5
      then have all: "\<forall>p \<in> set ps. 2 \<le> place p" using s follow_places(3) [OF False] by blast
      have "next_state e q = SERVED" if "q \<in> set ps" for q using each [OF that] all that 5 by (auto simp: next_event)
      then show ?thesis using 5 follow_places(5) [OF mapped] by auto
    next
      case 6
      then have all: "\<forall>p \<in> set ps. 3 \<le> place p" using s follow_places(4) [OF False] by blast
      have "next_state e q = SERVED" if "q \<in> set ps" for q using each [OF that] all that 6 by (auto simp: next_event)
      then show ?thesis using 6 follow_places(5) [OF mapped] by auto
    qed
  qed
  then show ?thesis using in_step_progress [OF _ mapped] stays kitchen_progress [OF assms(2,3)] by blast
qed

text \<open>A line that may be behind its parts is brought to where they are, in at most three steps.\<close>

lemma follow_loop_reaches:
  assumes "PROGRESS (ir_state line) \<noteq> None" "PROGRESS t \<noteq> None" "place (ir_state line) \<le> place t"
  shows "follow_loop t line = Inr (set_state t line)"
proof -
  have same: "set_state (ir_state line) line = line" by (simp add: set_state_def)
  have base: "follow_loop t r = Inr r" if "t = SENT \<or> place t \<le> place (ir_state r)" for t r
    using that by (subst follow_loop.simps) auto
  have up: "follow_loop t r = follow_loop t (set_state (event_target e) r)"
    if "t \<noteq> SENT" "place (ir_state r) < place t"
      "e = (if canTransition orderItemMachine (ir_state r) (STEP_TO t) then STEP_TO t else MARK_READY)"
      "ir_state r \<in> set (event_sources e)" for t r e
  proof -
    have "step e r = Inr (set_state (event_target e) r)" using that(4) by (simp add: step_Inr can_row next_event)
    then show ?thesis using that by (subst follow_loop.simps) simp
  qed
  have s: "ir_state line \<in> {SENT, PREPARING, READY, PICKED_UP, SERVED}" and t: "t \<in> {SENT, PREPARING, READY, PICKED_UP, SERVED}"
    using assms(1,2) PROGRESS_some by blast+
  show ?thesis
  proof (cases "place (ir_state line) = place t")
    case True
    then have "t = ir_state line" using place_inj [OF assms(1,2)] by simp
    then show ?thesis using base [of t line] same by simp
  next
    case False
    then have less: "place (ir_state line) < place t" using assms(3) by simp
    show ?thesis
    proof (cases "ir_state line \<in> set (event_sources (STEP_TO t))")
      case True
      then show ?thesis using up [of t line "STEP_TO t"] base [of t "set_state t line"] less t by (auto simp: can_event)
    next
      case late: False
      then have ready: "follow_loop t line = follow_loop t (set_state READY line)"
        using up [of t line MARK_READY] less s t by (auto simp: can_event)
      also have "\<dots> = Inr (set_state t line)"
        using up [of t "set_state READY line" "STEP_TO t"] base [of t "set_state t line"] late less s t by (auto simp: can_event)
      finally show ?thesis .
    qed
  qed
qed

section \<open>The invariant\<close>

definition parts_in :: "OrderItemRow list \<Rightarrow> string \<Rightarrow> OrderItemRow list" where
  "parts_in rows i = filter (\<lambda>p. ir_parentOrderItemId p = Some i) rows"

definition part_belongs :: "OrderItemRow list \<Rightarrow> OrderItemRow \<Rightarrow> bool" where
  "part_belongs rows p \<longleftrightarrow>
     (case ir_parentOrderItemId p of
        None \<Rightarrow> True
      | Some i \<Rightarrow> \<exists>l \<in> set rows. ir_id l = i \<and> ir_parentOrderItemId l = None \<and> ir_orderId l = ir_orderId p \<and>
          ir_quantity l dvd ir_quantity p)"

definition line_in_step :: "OrderItemRow list \<Rightarrow> OrderItemRow \<Rightarrow> bool" where
  "line_in_step rows l \<longleftrightarrow>
     ir_parentOrderItemId l = None \<longrightarrow> in_step (ir_state l) (map ir_state (parts_in rows (ir_id l)))"

definition rows_ok :: "OrderItemRow list \<Rightarrow> bool" where
  "rows_ok rows \<longleftrightarrow> distinct (map ir_id rows) \<and> (\<forall>r \<in> set rows. 0 < ir_quantity r) \<and>
     (\<forall>r \<in> set rows. part_belongs rows r) \<and> (\<forall>r \<in> set rows. line_in_step rows r)"

definition store_ok :: "(nat \<Rightarrow> string) \<Rightarrow> Store \<Rightarrow> bool" where
  "store_ok newId st \<longleftrightarrow> rows_ok (st_items st) \<and> (\<forall>r \<in> set (st_items st). \<exists>k < st_issued st. ir_id r = newId k)"

text \<open>What is left of a counted item and what rows took of it stay together what they were.\<close>

definition conserves_at :: "string \<Rightarrow> Store \<Rightarrow> Store \<Rightarrow> bool" where
  "conserves_at i st st' \<longleftrightarrow>
     (\<forall>n. counted st i = Some n \<longrightarrow>
        (\<exists>n'. counted st' i = Some n' \<and> n' + taken st' i = n + taken st i \<and> (0 \<le> n \<longrightarrow> 0 \<le> n')))"

definition conserves :: "Store \<Rightarrow> Store \<Rightarrow> bool" where
  "conserves st st' \<longleftrightarrow> (\<forall>i. conserves_at i st st')"

text \<open>A counted item stays counted, with nothing below zero.\<close>

definition stays_counted :: "string \<Rightarrow> Store \<Rightarrow> Store \<Rightarrow> bool" where
  "stays_counted i st st' \<longleftrightarrow> (\<forall>n. counted st i = Some n \<and> 0 \<le> n \<longrightarrow> (\<exists>n'. counted st' i = Some n' \<and> 0 \<le> n'))"

lemma stays_counted_trans: "stays_counted i st st' \<Longrightarrow> stays_counted i st' st'' \<Longrightarrow> stays_counted i st st''"
  unfolding stays_counted_def by blast

lemma conserves_stays_counted: "conserves_at i st st' \<Longrightarrow> stays_counted i st st'"
  unfolding conserves_at_def stays_counted_def by blast

lemma conserves_at_refl [simp]: "conserves_at i st st"
  by (simp add: conserves_at_def)

lemma conserves_at_trans: "conserves_at i st st' \<Longrightarrow> conserves_at i st' st'' \<Longrightarrow> conserves_at i st st''"
  unfolding conserves_at_def by (metis (no_types, lifting))

lemma conserves_refl [simp]: "conserves st st"
  by (simp add: conserves_def)

lemma conserves_trans: "conserves st st' \<Longrightarrow> conserves st' st'' \<Longrightarrow> conserves st st''"
  unfolding conserves_def by (blast intro: conserves_at_trans)

lemma conserves_same: "same_but_tickets st st' \<Longrightarrow> conserves st st'"
  unfolding conserves_def conserves_at_def using same_counted [of st st'] by simp

lemma store_ok_same: "same_but_tickets st st' \<Longrightarrow> store_ok newId st' = store_ok newId st"
  by (simp add: store_ok_def same_but_tickets_def)

lemma store_ok_same_stock: "same_but_stock st st' \<Longrightarrow> store_ok newId st' = store_ok newId st"
  by (simp add: store_ok_def same_but_stock_def)

lemma parts_of_parts_in: "parts_of st i = parts_in (st_items st) i"
  by (simp add: parts_of_def parts_in_def)

lemma parts_in_map: "keeps f \<Longrightarrow> parts_in (map f rows) i = map f (parts_in rows i)"
  by (simp add: parts_in_def filter_map comp_def keeps_def)

lemma leaf_parts_in: "leaf rows r \<longleftrightarrow> ir_parentOrderItemId r \<noteq> None \<or> parts_in rows (ir_id r) = []"
  by (auto simp: leaf_def parts_in_def filter_empty_conv)

lemma rows_okD:
  assumes "rows_ok rows"
  shows "distinct rows" "distinct (map ir_id rows)"
    and "\<And>r. r \<in> set rows \<Longrightarrow> 0 < ir_quantity r"
    and "\<And>r q. r \<in> set rows \<Longrightarrow> q \<in> set rows \<Longrightarrow> ir_id r = ir_id q \<Longrightarrow> r = q"
    and "\<And>p i. p \<in> set rows \<Longrightarrow> ir_parentOrderItemId p = Some i \<Longrightarrow>
      \<exists>l \<in> set rows. ir_id l = i \<and> ir_parentOrderItemId l = None \<and> ir_orderId l = ir_orderId p \<and> ir_quantity l dvd ir_quantity p"
    and "\<And>l. l \<in> set rows \<Longrightarrow> ir_parentOrderItemId l = None \<Longrightarrow> in_step (ir_state l) (map ir_state (parts_in rows (ir_id l)))"
proof -
  show "distinct rows" "distinct (map ir_id rows)" "\<And>r. r \<in> set rows \<Longrightarrow> 0 < ir_quantity r"
    using assms by (auto simp: rows_ok_def distinct_map)
  show "\<And>r q. r \<in> set rows \<Longrightarrow> q \<in> set rows \<Longrightarrow> ir_id r = ir_id q \<Longrightarrow> r = q"
    using assms by (auto simp: rows_ok_def distinct_map inj_on_def)
  show "\<And>p i. p \<in> set rows \<Longrightarrow> ir_parentOrderItemId p = Some i \<Longrightarrow>
      \<exists>l \<in> set rows. ir_id l = i \<and> ir_parentOrderItemId l = None \<and> ir_orderId l = ir_orderId p \<and> ir_quantity l dvd ir_quantity p"
    using assms by (force simp: rows_ok_def part_belongs_def)
  show "\<And>l. l \<in> set rows \<Longrightarrow> ir_parentOrderItemId l = None \<Longrightarrow> in_step (ir_state l) (map ir_state (parts_in rows (ir_id l)))"
    using assms by (auto simp: rows_ok_def line_in_step_def)
qed

lemma parts_in_member: "p \<in> set (parts_in rows i) \<longleftrightarrow> p \<in> set rows \<and> ir_parentOrderItemId p = Some i"
  by (auto simp: parts_in_def)

lemma part_has_no_parts:
  assumes "rows_ok rows" "r \<in> set rows" "ir_parentOrderItemId r = Some i"
  shows "parts_in rows (ir_id r) = []"
proof (rule ccontr)
  assume "parts_in rows (ir_id r) \<noteq> []"
  then obtain p where "p \<in> set rows" "ir_parentOrderItemId p = Some (ir_id r)" by (auto simp: parts_in_def filter_empty_conv)
  then obtain l where "l \<in> set rows" "ir_id l = ir_id r" "ir_parentOrderItemId l = None"
    using rows_okD(5) [OF assms(1)] by blast
  then show False using rows_okD(4) [OF assms(1)] assms(2,3) by fastforce
qed

text \<open>Changes that keep what rows are keep the invariant when lines stay in step.\<close>

lemma rows_ok_map:
  assumes ok: "rows_ok rows" and keep: "keeps f"
    and pos: "\<And>r. r \<in> set rows \<Longrightarrow> 0 < ir_quantity (f r)"
    and dvd: "\<And>l p. l \<in> set rows \<Longrightarrow> p \<in> set (parts_in rows (ir_id l)) \<Longrightarrow> ir_parentOrderItemId l = None \<Longrightarrow> ir_quantity (f l) dvd ir_quantity (f p)"
    and step: "\<And>l. l \<in> set rows \<Longrightarrow> ir_parentOrderItemId l = None \<Longrightarrow>
      in_step (ir_state (f l)) (map (\<lambda>p. ir_state (f p)) (parts_in rows (ir_id l)))"
  shows "rows_ok (map f rows)"
proof -
  note k = keep [unfolded keeps_def, rule_format]
  have ids: "map ir_id (map f rows) = map ir_id rows" by (simp add: k)
  have belongs: "part_belongs (map f rows) (f r)" if r: "r \<in> set rows" for r
  proof (cases "ir_parentOrderItemId r")
    case None
    then show ?thesis by (simp add: part_belongs_def k)
  next
    case (Some i)
    obtain l where l: "l \<in> set rows" "ir_id l = i" "ir_parentOrderItemId l = None" "ir_orderId l = ir_orderId r"
      using rows_okD(5) [OF ok r Some] by blast
    have "ir_quantity (f l) dvd ir_quantity (f r)" using dvd [OF l(1) _ l(3), of r] r Some l(2) by (simp add: parts_in_member)
    then show ?thesis using Some l by (auto simp: part_belongs_def k)
  qed
  have "line_in_step (map f rows) (f l)" if l: "l \<in> set rows" for l
    using step [OF l] by (simp add: line_in_step_def k parts_in_map [OF keep] comp_def)
  then show ?thesis using belongs pos rows_okD(2) [OF ok] unfolding rows_ok_def ids by auto
qed

lemma store_ok_on_items: "store_ok newId st \<Longrightarrow> keeps f \<Longrightarrow> rows_ok (map f (st_items st)) \<Longrightarrow> store_ok newId (on_items f st)"
  by (auto simp: store_ok_def keeps_def)

text \<open>Setting states within one line and its parts.\<close>

lemma assigned_elsewhere: "ir_id r \<notin> fst ` set xs \<Longrightarrow> assigned xs r = r"
proof -
  assume "ir_id r \<notin> fst ` set xs"
  then have "map_of xs (ir_id r) = None" by (simp add: map_of_eq_None_iff)
  then show ?thesis by (simp add: assigned_def)
qed

lemma rows_ok_group:
  assumes ok: "rows_ok rows" and l: "l \<in> set rows" "ir_parentOrderItemId l = None"
    and within: "fst ` set xs \<subseteq> insert (ir_id l) (ir_id ` set (parts_in rows (ir_id l)))"
    and step: "in_step (ir_state (assigned xs l)) (map (\<lambda>p. ir_state (assigned xs p)) (parts_in rows (ir_id l)))"
  shows "rows_ok (map (assigned xs) rows)"
proof (rule rows_ok_map [OF ok keeps_assigned])
  fix k assume k: "k \<in> set rows" "ir_parentOrderItemId k = None"
  show "in_step (ir_state (assigned xs k)) (map (\<lambda>p. ir_state (assigned xs p)) (parts_in rows (ir_id k)))"
  proof (cases "k = l")
    case True
    with step show ?thesis by simp
  next
    case False
    have ids: "ir_id k \<noteq> ir_id l" using rows_okD(4) [OF ok k(1) l(1)] False by blast
    have outside: "ir_id r \<notin> fst ` set xs" if r: "r \<in> set rows" "r \<noteq> l" "ir_parentOrderItemId r \<noteq> Some (ir_id l)" for r
    proof
      assume "ir_id r \<in> fst ` set xs"
      then have "ir_id r = ir_id l \<or> (\<exists>p \<in> set (parts_in rows (ir_id l)). ir_id r = ir_id p)" using within by auto
      then show False using rows_okD(4) [OF ok r(1)] l(1) r(2,3) by (auto simp: parts_in_member)
    qed
    have "assigned xs k = k" using outside [OF k(1) False] k(2) by (intro assigned_elsewhere) simp
    moreover have "assigned xs p = p" if "p \<in> set (parts_in rows (ir_id k))" for p
    proof -
      have p: "p \<in> set rows" "ir_parentOrderItemId p = Some (ir_id k)" using that by (simp_all add: parts_in_member)
      then have "p \<noteq> l" using l(2) by auto
      then show ?thesis using outside [OF p(1)] p(2) ids by (intro assigned_elsewhere) simp
    qed
    ultimately show ?thesis using rows_okD(6) [OF ok k] by (simp cong: map_cong)
  qed
next
  fix k p assume "k \<in> set rows" "p \<in> set (parts_in rows (ir_id k))" "ir_parentOrderItemId k = None"
  then show "ir_quantity (assigned xs k) dvd ir_quantity (assigned xs p)"
    using rows_okD(5) [OF ok, of p "ir_id k"] rows_okD(4) [OF ok] by (fastforce simp: parts_in_member)
qed (use rows_okD(3) [OF ok] in simp)

text \<open>Rows whose stock was and stays taken.\<close>

lemma taken_same:
  assumes "keeps f" "\<And>r. r \<in> set (st_items st) \<Longrightarrow> counts (ir_state (f r)) = counts (ir_state r) \<and> ir_quantity (f r) = ir_quantity r"
  shows "taken (on_items f st) i = taken st i"
proof -
  have "takes (map f (st_items st)) i (f r) = takes (st_items st) i r" if "r \<in> set (st_items st)" for r
    using leaf_map [OF assms(1), of "st_items st" r] assms(2) [OF that] assms(1) by (simp add: takes_def keeps_def)
  then show ?thesis unfolding taken_def by (simp add: comp_def cong: map_cong)
qed

lemma counts_progress: "PROGRESS s \<noteq> None \<Longrightarrow> counts s"
  by (cases s) (simp_all add: counts_def)

end
