(* ===== verification/Order_Kept.thy ===== *)
theory Order_Kept
  imports Order_Invariant
begin

text \<open>
  Every operation on sent lines keeps the invariant of the rows and the stock: steps of the kitchen and
  the floor, firing, cancelling, voiding and changing a line.
\<close>

section \<open>States after setting them\<close>

lemma assigned_ended:
  assumes "distinct (map ir_id (map fst ended))" "(r, how) \<in> set ended"
  shows "ir_state (assigned (rev (new_states ended)) r) = next_state how (ir_state r)"
  using new_states_lookup [OF assms] by (simp add: assigned_state)

lemma assigned_not_ended: "ir_id r \<notin> ir_id ` fst ` set ended \<Longrightarrow> assigned (rev (new_states ended)) r = r"
  using new_states_none [of "ir_id r" ended] by (simp add: assigned_def)

lemma fst_new_states: "fst ` set (rev (new_states ended)) = ir_id ` fst ` set ended"
  by (force simp: new_states_def)

lemma find_item_Some:
  assumes "find_item st i = Some r"
  shows "r \<in> set (st_items st)" "ir_id r = i"
  using assms by (auto simp: find_item_def find_Some_iff)

lemma find_item_id:
  assumes "rows_ok (st_items st)" "r \<in> set (st_items st)"
  shows "find_item st (ir_id r) = Some r"
proof -
  have "find (\<lambda>q. ir_id q = ir_id r) rows = Some r" if "distinct (map ir_id rows)" "r \<in> set rows" for rows
    using that by (induction rows) auto
  then show ?thesis using rows_okD(2) [OF assms(1)] assms(2) by (simp add: find_item_def)
qed

lemma find_item_on_items: "keeps f \<Longrightarrow> find_item (on_items f st) i = map_option f (find_item st i)"
proof -
  assume f: "keeps f"
  have "find (\<lambda>r. ir_id r = i) (map f rows) = map_option f (find (\<lambda>r. ir_id r = i) rows)" for rows
    using f by (induction rows) (auto simp: keeps_def)
  then show ?thesis by (simp add: find_item_def)
qed

lemma parts_of_on_items: "keeps f \<Longrightarrow> parts_of (on_items f st) i = map f (parts_of st i)"
  by (simp add: parts_of_parts_in parts_in_map)

text \<open>A line and some of its parts: their ids are distinct.\<close>

lemma group_ids:
  assumes "rows_ok rows" "l \<in> set rows" "ir_parentOrderItemId l = None"
  shows "distinct (map ir_id (l # filter P (parts_in rows (ir_id l))))"
    and "p \<in> set (parts_in rows (ir_id l)) \<Longrightarrow> ir_id p \<noteq> ir_id l"
    and "p \<in> set (parts_in rows (ir_id l)) \<Longrightarrow> q \<in> set (parts_in rows (ir_id l)) \<Longrightarrow> ir_id p = ir_id q \<Longrightarrow> p = q"
proof -
  show ne: "ir_id p \<noteq> ir_id l" if "p \<in> set (parts_in rows (ir_id l))" for p
    using rows_okD(4) [OF assms(1), of p l] that assms(2,3) by (auto simp: parts_in_member)
  show "p = q" if "p \<in> set (parts_in rows (ir_id l))" "q \<in> set (parts_in rows (ir_id l))" "ir_id p = ir_id q" for p q
    using rows_okD(4) [OF assms(1), of p q] that by (simp add: parts_in_member)
  have "distinct (map ir_id (filter P (parts_in rows (ir_id l))))"
    using rows_okD(2) [OF assms(1)] by (simp add: parts_in_def distinct_map_filter)
  then show "distinct (map ir_id (l # filter P (parts_in rows (ir_id l))))" using ne by fastforce
qed

text \<open>Rows of one group set to new states: what the invariant and the stock need.\<close>

lemma on_items_kept:
  assumes ok: "store_ok newId st" and rows: "rows_ok (map (assigned xs) (st_items st))"
    and counts: "\<And>r. r \<in> set (st_items st) \<Longrightarrow> counts (ir_state (assigned xs r)) = counts (ir_state r)"
  shows "store_ok newId (on_items (assigned xs) st) \<and> conserves st (on_items (assigned xs) st)"
proof -
  have "taken (on_items (assigned xs) st) i = taken st i" for i using counts by (intro taken_same) auto
  moreover have "counted (on_items (assigned xs) st) i = counted st i" for i by (simp add: counted_def)
  ultimately show ?thesis using store_ok_on_items [OF ok keeps_assigned rows] by (simp add: conserves_def conserves_at_def)
qed

section \<open>Steps\<close>

lemma follow_target_mono:
  assumes "ps \<noteq> []" "list_all2 (\<le>) ps qs" "\<forall>p \<in> set ps. p \<le> 4" "\<forall>q \<in> set qs. q \<le> 4"
  shows "place (follow_target ps) \<le> place (follow_target qs)"
proof -
  have qs: "qs \<noteq> []" using assms(1,2) by auto
  have below: "\<exists>p \<in> set ps. p \<le> q" if "q \<in> set qs" for q
    using assms(2) that by (metis in_set_conv_nth list_all2_conv_all_nth)
  have above: "\<exists>q \<in> set qs. p \<le> q" if "p \<in> set ps" for p
    using assms(2) that by (metis in_set_conv_nth list_all2_conv_all_nth)
  have "Min (set qs) \<in> set qs" using qs by simp
  then obtain p where "p \<in> set ps" "p \<le> Min (set qs)" using below by blast
  then have mn: "Min (set ps) \<le> Min (set qs)" by (meson List.finite_set Min_le order_trans)
  have "Max (set ps) \<in> set ps" using assms(1) by simp
  then obtain q where "q \<in> set qs" "Max (set ps) \<le> q" using above by blast
  then have mx: "Max (set ps) \<le> Max (set qs)" by (meson List.finite_set Max_ge order_trans)
  show ?thesis
    using mn mx place_follow_target(1) [OF assms(1,3)] place_follow_target(1) [OF qs assms(4)] by auto
qed

lemma line_step_kept:
  assumes ok: "store_ok newId st" and item: "item \<in> set (st_items st)" "ir_parentOrderItemId item = None"
    and e: "kitchen_event e" "can e item"
  defines "ended \<equiv> (item, e) # map (\<lambda>p. (p, e)) (filter (can e) (parts_in (st_items st) (ir_id item)))"
  shows "store_ok newId (on_items (assigned (rev (new_states ended))) st) \<and>
    conserves st (on_items (assigned (rev (new_states ended))) st)"
proof -
  let ?rows = "st_items st" and ?f = "assigned (rev (new_states ended))"
  let ?parts = "parts_in ?rows (ir_id item)"
  have rok: "rows_ok ?rows" using ok by (simp add: store_ok_def)
  have dist: "distinct (map ir_id (map fst ended))"
    using group_ids(1) [OF rok item, of "can e"] by (simp add: ended_def comp_def)
  have line: "ir_state (?f item) = event_target e"
    using assigned_ended [OF dist, of item e] e(2) by (simp add: ended_def next_event can_row)
  have part: "ir_state (?f p) = next_state e (ir_state p)" if p: "p \<in> set ?parts" for p
  proof (cases "can e p")
    case True
    then show ?thesis using assigned_ended [OF dist, of p e] p by (simp add: ended_def)
  next
    case False
    have "ir_id p \<notin> ir_id ` fst ` set ended"
    proof
      assume "ir_id p \<in> ir_id ` fst ` set ended"
      then obtain q where q: "q = item \<or> q \<in> set ?parts \<and> can e q" "ir_id p = ir_id q"
        by (simp add: ended_def image_iff) blast
      then have "p = q" using group_ids(2) [OF rok item p] group_ids(3) [OF rok item p] by metis
      then show False using q False group_ids(2) [OF rok item p] by auto
    qed
    then show ?thesis using assigned_not_ended False by (simp add: next_event can_row)
  qed
  have kept: "rows_ok (map ?f ?rows)"
  proof (rule rows_ok_group [OF rok item])
    show "fst ` set (rev (new_states ended)) \<subseteq> insert (ir_id item) (ir_id ` set ?parts)"
      unfolding fst_new_states by (auto simp: ended_def)
    have "in_step (event_target e) (map (next_state e) (map ir_state ?parts))"
      using line_step_in_step [OF rows_okD(6) [OF rok item] e(1)] e(2) by (simp add: can_row)
    then show "in_step (ir_state (?f item)) (map (\<lambda>p. ir_state (?f p)) ?parts)"
      using part by (simp add: line comp_def cong: map_cong)
  qed
  have "counts (ir_state (?f r)) = counts (ir_state r)" if r: "r \<in> set ?rows" for r
  proof (cases "ir_id r \<in> ir_id ` fst ` set ended")
    case True
    then obtain x where x: "x \<in> set ended" "ir_id r = ir_id (fst x)" by blast
    obtain q where q: "(q, e) \<in> set ended" "ir_id q = ir_id r"
    proof
      show "(fst x, e) \<in> set ended" using x(1) by (auto simp: ended_def)
    qed (use x(2) in simp)
    then have "q \<in> set ?rows" "can e q" using item e(2) by (auto simp: ended_def parts_in_member)
    then have "q = r" using rows_okD(4) [OF rok _ r] q(2) by blast
    then have "ir_state (?f r) = event_target e" "ir_state r \<in> set (event_sources e)"
      using assigned_ended [OF dist q(1)] \<open>can e q\<close> by (simp_all add: next_event can_row)
    then show ?thesis using kitchen_progress [OF e(1)] counts_progress by metis
  qed (simp add: assigned_not_ended)
  then show ?thesis by (rule on_items_kept [OF ok kept])
qed

text \<open>A step of a part, and its line following.\<close>

lemma part_step_kept:
  assumes ok: "store_ok newId st" and item: "item \<in> set (st_items st)" "ir_parentOrderItemId item = Some i"
    and e: "kitchen_event e" "can e item"
    and follows: "follow i (on_items (assigned [(ir_id item, event_target e)]) st) = Inr st'"
  shows "store_ok newId st' \<and> conserves st st'"
proof -
  let ?rows = "st_items st" and ?f = "assigned [(ir_id item, event_target e)]"
  have rok: "rows_ok ?rows" using ok by (simp add: store_ok_def)
  obtain l where l: "l \<in> set ?rows" "ir_id l = i" "ir_parentOrderItemId l = None" using rows_okD(5) [OF rok item] by blast
  let ?parts = "parts_in ?rows i"
  have mem: "item \<in> set ?parts" using item by (simp add: parts_in_member)
  then have ne: "?parts \<noteq> []" by auto
  have ids: "ir_id l \<noteq> ir_id item" using group_ids(2) [OF rok l(1,3), of item] mem l(2) by simp
  have istep: "in_step (ir_state l) (map ir_state ?parts)" using rows_okD(6) [OF rok l(1,3)] l(2) by simp
  have src: "ir_state item \<in> set (event_sources e)" using e(2) by (simp add: can_row)
  have ip: "PROGRESS (ir_state item) \<noteq> None" using kitchen_progress [OF e(1) src] by blast
  have "ir_state item \<in> set (map ir_state ?parts)" using mem by simp
  then have lp: "PROGRESS (ir_state l) \<noteq> None" "\<forall>p \<in> set ?parts. PROGRESS (ir_state p) \<noteq> None"
    and lt: "ir_state l = follow_target (map place (map ir_state ?parts))"
    using istep ip unfolding in_step_def by (auto simp: subset_iff)
  have new: "ir_state (?f p) = (if p = item then event_target e else ir_state p)" if "p \<in> set ?rows" for p
    using rows_okD(4) [OF rok that item(1)] by (auto simp: assigned_state)
  let ?qs = "map (\<lambda>p. ir_state (?f p)) ?parts"
  have qp: "\<forall>q \<in> set ?qs. PROGRESS q \<noteq> None"
    using lp(2) kitchen_progress [OF e(1) src] new by (auto simp: parts_in_member)
  let ?t = "follow_target (map place ?qs)"
  have tp: "PROGRESS ?t \<noteq> None" using place_follow_target(2) [of "map place ?qs"] ne place_bound by simp
  have le: "place (ir_state l) \<le> place ?t"
  proof -
    have "list_all2 (\<le>) (map place (map ir_state ?parts)) (map place ?qs)"
      using new kitchen_progress [OF e(1) src] by (auto simp: list_all2_map1 list_all2_map2 list.rel_map intro!: list.rel_refl_strong simp: parts_in_member)
    then show ?thesis unfolding lt using ne place_bound by (intro follow_target_mono) auto
  qed
  let ?mid = "on_items ?f st"
  have "find_item st i = Some l"
    using find_item_id [OF rok l(1)] l(2) by simp
  then have found: "find_item ?mid i = Some l" using ids by (simp add: find_item_on_items assigned_elsewhere)
  have parts: "parts_of ?mid i = map ?f ?parts" by (simp add: parts_of_on_items) (simp add: parts_of_parts_in)
  have places: "map (\<lambda>part. place (ir_state part)) (filter (\<lambda>part. PROGRESS (ir_state part) \<noteq> None) (parts_of ?mid i)) = map place ?qs"
    using qp by (simp add: parts comp_def filter_map)
  have "st' = update_item i (set_state ?t) ?mid"
    using follows follow_loop_reaches [OF lp(1) tp le] lp(1) ne
    unfolding follow_def found option.case Let_def places by (auto simp: bindE_Inr_iff)
  then have st': "st' = on_items (assigned ([(i, ?t)] @ [(ir_id item, event_target e)])) st"
    by (simp only: update_item_set_state on_items_on_items assigned_append)
  let ?xs = "[(i, ?t)] @ [(ir_id item, event_target e)]"
  have fl: "ir_state (assigned ?xs l) = ?t" by (simp add: assigned_state l(2))
  have fp: "ir_state (assigned ?xs p) = ir_state (?f p)" if "p \<in> set ?parts" for p
    using group_ids(2) [OF rok l(1,3), of p] that l(2) by (simp add: assigned_state)
  have kept: "rows_ok (map (assigned ?xs) ?rows)"
  proof (rule rows_ok_group [OF rok l(1,3)])
    show "fst ` set ?xs \<subseteq> insert (ir_id l) (ir_id ` set (parts_in ?rows (ir_id l)))" using mem l(2) by auto
    have "in_step ?t ?qs" using in_step_progress [OF tp, of ?qs] ne qp by simp
    then show "in_step (ir_state (assigned ?xs l)) (map (\<lambda>p. ir_state (assigned ?xs p)) (parts_in ?rows (ir_id l)))"
      using fp by (simp only: fl l(2) cong: map_cong)
  qed
  have "counts (ir_state (assigned ?xs r)) = counts (ir_state r)" if r: "r \<in> set ?rows" for r
  proof -
    consider "r = l" | "r = item" | "r \<noteq> l" "r \<noteq> item" by blast
    then show ?thesis
    proof cases
      case 1
      then show ?thesis using fl counts_progress lp(1) tp by metis
    next
      case 2
      then show ?thesis using fp [OF mem] new [OF item(1)] ip kitchen_progress [OF e(1) src] counts_progress by metis
    next
      case 3
      then have "ir_id r \<noteq> i" "ir_id r \<noteq> ir_id item" using rows_okD(4) [OF rok r] l(1,2) item(1) by auto
      then show ?thesis by (simp add: assigned_def)
    qed
  qed
  then show ?thesis unfolding st' by (rule on_items_kept [OF ok kept])
qed

lemma setStatus_kept:
  assumes ok: "store_ok newId st" and run: "setStatus matrix who orderItemId e st = Inr st'"
  shows "store_ok newId st' \<and> conserves st st'"
proof -
  have rok: "rows_ok (st_items st)" using ok by (simp add: store_ok_def)
  have e: "may_step matrix who e" using run by (cases "may_step matrix who e") (simp_all add: setStatus_def)
  obtain item where found: "find_item st orderItemId = Some item"
    using run e by (cases "find_item st orderItemId") (simp_all add: setStatus_def)
  have "bindE (step_rows e [item] st) (\<lambda>st1. bindE (step_rows e (filter (can e) (parts_of st orderItemId)) st1) (\<lambda>st2.
      case ir_parentOrderItemId item of None \<Rightarrow> Inr st2 | Some parentId \<Rightarrow> follow parentId st2)) = Inr st'"
    using run by (simp only: setStatus_def found option.case e simp_thms if_False sum.distinct split: if_split_asm)
  then obtain st1 st2 where st1: "step_rows e [item] st = Inr st1"
    and st2: "step_rows e (filter (can e) (parts_of st orderItemId)) st1 = Inr st2"
    and final: "(case ir_parentOrderItemId item of None \<Rightarrow> Inr st2 | Some parentId \<Rightarrow> follow parentId st2) = Inr st'"
    unfolding bindE_Inr_iff by (elim exE conjE) (rule that)
  note item = find_item_Some [OF found]
  have ke: "kitchen_event e" using may_step_kitchen [OF e] .
  note first = step_rows_effect [OF st1] and others = step_rows_effect [OF st2]
  have c: "can e item" using first by simp
  let ?cps = "filter (can e) (parts_of st orderItemId)"
  have "st2 = on_items (assigned (rev (new_states (map (\<lambda>r. (r, e)) ?cps)) @ rev (new_states [(item, e)]))) st"
    by (simp only: conjunct1 [OF others] conjunct1 [OF first] on_items_on_items assigned_append list.map)
  then have mid: "st2 = on_items (assigned (rev (new_states ((item, e) # map (\<lambda>p. (p, e)) ?cps)))) st"
    by (simp only: new_states_def list.map rev.simps append_Nil)
  show ?thesis
  proof (cases "ir_parentOrderItemId item")
    case None
    then show ?thesis
      using line_step_kept [OF ok item(1) None ke c] final mid item(2) by (simp add: parts_of_parts_in)
  next
    case (Some i)
    have "parts_of st orderItemId = []" using part_has_no_parts [OF rok item(1) Some] item(2) by (simp add: parts_of_parts_in)
    then have "st2 = on_items (assigned [(ir_id item, event_target e)]) st"
      using mid c by (simp add: new_states_def next_event can_row)
    then show ?thesis using part_step_kept [OF ok item(1) Some ke c] final Some by simp
  qed
qed

end
