(* ===== verification/Order_Ends.thy ===== *)
theory Order_Ends
  imports Order_Kept
begin

text \<open>
  Cancelling, voiding, changing and firing keep the invariant, and give back exactly the stock of what was
  not cooked.
\<close>

section \<open>Ending a line and its parts\<close>

definition ends :: "OrderItemEvent \<Rightarrow> OrderItemRow \<Rightarrow> OrderItemEvent \<Rightarrow> bool" where
  "ends event p how \<longleftrightarrow> (can event p \<and> how = event) \<or> (\<not> can event p \<and> event = VOID \<and> can CANCEL p \<and> how = CANCEL)"

lemma ended_parts_member: "(p, how) \<in> set (ended_parts event parts) \<longleftrightarrow> p \<in> set parts \<and> ends event p how"
  by (auto simp: ended_parts_def ends_def split: if_splits)

lemma ended_parts_fst: "map fst (ended_parts event parts) = filter (\<lambda>p. \<exists>how. ends event p how) parts"
  by (induction parts) (auto simp: ended_parts_def ends_def)

lemma counts_simps [simp]:
  "counts HELD" "counts SENT" "counts VOIDED" "counts PREPARING" "counts READY" "counts PICKED_UP" "counts SERVED"
  "\<not> counts CANCELLED" "\<not> counts REJECTED" "\<not> counts PENDING_APPROVAL"
  by (simp_all add: counts_def)

text \<open>What ends together is in step again.\<close>

lemma end_in_step:
  assumes "in_step s ps" "s \<in> set (event_sources event)" "event = CANCEL \<or> event = VOID"
  shows "in_step (event_target event)
    (map (\<lambda>p. if p \<in> set (event_sources event) then event_target event
              else if event = VOID \<and> p \<in> set (event_sources CANCEL) then CANCELLED else p) ps)"
proof (cases "ps = []")
  case False
  have all: "\<forall>p \<in> set ps. p = SENT" if "s = SENT"
  proof -
    have "(\<forall>p \<in> set ps. PROGRESS p \<noteq> None)" "SENT = follow_target (map place ps)"
      using in_step_progress [of s ps] assms(1) False that by auto
    then show ?thesis using follow_places(1) [OF False] place_inj [of _ SENT] by auto
  qed
  show ?thesis
  proof (cases "event = CANCEL")
    case True
    then have "s = SENT \<or> s = HELD" using assms(2) by auto
    then have "set ps \<subseteq> {s}" using all assms(1) False by (auto simp: in_step_def)
    then show ?thesis using True assms(2) by (auto simp: in_step_def)
  next
    case void: False
    then have event: "event = VOID" using assms(3) by blast
    then have "PROGRESS s \<noteq> None" using assms(2) by auto
    then have "p \<in> {SENT, PREPARING, READY, PICKED_UP, SERVED}" if "p \<in> set ps" for p
      using in_step_progress [of s ps] assms(1) False that PROGRESS_some by blast
    then show ?thesis by (fastforce simp: in_step_def event)
  qed
qed (simp add: in_step_def)

lemma need_of_filter:
  "need_of (map g (filter P xs)) i = sum_list (map (\<lambda>x. if P x \<and> fst (g x) = i then snd (g x) else 0) xs)"
  by (induction xs) (auto simp: need_of_def split_def)

lemma taken_ended:
  assumes rok: "rows_ok (st_items st)" and item: "item \<in> set (st_items st)" "ir_parentOrderItemId item = None"
    and event: "event = CANCEL \<or> event = VOID" "can event item"
  defines "parts \<equiv> parts_in (st_items st) (ir_id item)"
  defines "ended \<equiv> (item, event) # ended_parts event parts"
  shows "taken (on_items (assigned (rev (new_states ended))) st) i = taken st i - need_of (uncooked item parts ended) i"
proof -
  let ?rows = "st_items st" and ?f = "assigned (rev (new_states ended))"
  have mem: "r \<in> set ?rows \<and> can how r \<and> (how = CANCEL \<or> how = VOID) \<and> (r = item \<or> r \<in> set parts)" if "(r, how) \<in> set ended" for r how
    using that item event by (auto simp: ended_def ended_parts_member ends_def parts_def parts_in_member)
  have fst_ended: "map fst ended = item # filter (\<lambda>p. \<exists>how. ends event p how) parts" by (simp add: ended_def ended_parts_fst)
  have dist: "distinct (map ir_id (map fst ended))"
    unfolding fst_ended parts_def by (rule group_ids(1) [OF rok item])
  have diff: "takes ?rows i (?f r) - takes ?rows i r =
      - (if (how = CANCEL \<and> \<not> (ir_id r = ir_id item \<and> length parts > 0)) \<and> ir_itemId r = i then ir_quantity r else 0)"
    if x: "(r, how) \<in> set ended" for r how
  proof -
    note m = mem [OF x]
    have state: "ir_state (?f r) = event_target how" "ir_state r \<in> set (event_sources how)"
      using assigned_ended [OF dist x] m by (auto simp: next_event can_row)
    have lf: "leaf ?rows r \<longleftrightarrow> \<not> (ir_id r = ir_id item \<and> length parts > 0)"
    proof (cases "r = item")
      case True
      then show ?thesis using item(2) by (auto simp: leaf_parts_in parts_def)
    next
      case False
      then have p: "r \<in> set (parts_in ?rows (ir_id item))" using m by (simp add: parts_def)
      then show ?thesis using group_ids(2) [OF rok item p] by (simp add: leaf_def parts_in_member)
    qed
    have "leaf ?rows (?f r) = leaf ?rows r" by (simp add: leaf_def)
    then show ?thesis using m state lf by (auto simp: takes_def)
  qed
  have "taken (on_items ?f st) i = taken st i + sum_list (map (\<lambda>r. takes ?rows i (?f r) - takes ?rows i r) (map fst ended))"
  proof (rule taken_on_items)
    show "distinct (map fst ended)" using dist by (simp only: distinct_map)
    show "set (map fst ended) \<subseteq> set ?rows" using mem by fastforce
    show "takes ?rows i (?f r) = takes ?rows i r" if r: "r \<in> set ?rows" "r \<notin> set (map fst ended)" for r
    proof -
      have "ir_id r \<notin> ir_id ` fst ` set ended"
        using rows_okD(4) [OF rok r(1)] r(2) \<open>set (map fst ended) \<subseteq> set ?rows\<close> by (metis (no_types, lifting) imageE image_set subsetD)
      then show ?thesis by (simp add: assigned_not_ended)
    qed
  qed (use rows_okD(1) [OF rok] in auto)
  also have "map (\<lambda>r. takes ?rows i (?f r) - takes ?rows i r) (map fst ended) =
      map (\<lambda>x. - (if (snd x = CANCEL \<and> \<not> (ir_id (fst x) = ir_id item \<and> length parts > 0)) \<and> ir_itemId (fst x) = i
        then ir_quantity (fst x) else 0)) ended"
    unfolding map_map comp_def
  proof (rule map_cong [OF refl])
    fix x assume "x \<in> set ended"
    then show "takes ?rows i (?f (fst x)) - takes ?rows i (fst x) =
        - (if (snd x = CANCEL \<and> \<not> (ir_id (fst x) = ir_id item \<and> length parts > 0)) \<and> ir_itemId (fst x) = i then ir_quantity (fst x) else 0)"
      using diff [of "fst x" "snd x"] by simp
  qed
  also have "sum_list \<dots> = - need_of (uncooked item parts ended) i"
    unfolding uncooked_def need_of_filter by (simp add: case_prod_unfold uminus_sum_list_map comp_def cong: if_cong)
  finally show ?thesis by simp
qed

lemma uncooked_member: "(j, k) \<in> set (uncooked item parts ended) \<Longrightarrow> \<exists>r how. (r, how) \<in> set ended \<and> k = ir_quantity r"
  by (auto simp: uncooked_def)

lemma end_and_restore_kept:
  assumes ok: "store_ok newId st" and item: "item \<in> set (st_items st)" "ir_parentOrderItemId item = None"
    and event: "event = CANCEL \<or> event = VOID" and run: "end_and_restore businessDate item event st = Inr st'"
  shows "store_ok newId st' \<and> conserves st st'"
proof -
  let ?rows = "st_items st"
  let ?parts = "parts_in ?rows (ir_id item)"
  let ?ended = "(item, event) # ended_parts event ?parts"
  let ?f = "assigned (rev (new_states ?ended))"
  have rok: "rows_ok ?rows" using ok by (simp add: store_ok_def)
  let ?slips = "end_slips item ?parts ?ended"
  obtain st1 st2 where c: "can event item" and st1: "end_rows ?ended st = Inr st1"
    and st2: "(if length ?slips > 0 then slip businessDate (ir_orderId item) CANCELLED_TICKET ?slips st1 else Inr st1) = Inr st2"
    and st': "restore_each (uncooked item ?parts ?ended) st2 = Inr st'"
    using run by (auto simp: end_and_restore_def end_line_def bindE_Inr_iff step_Inr Let_def parts_of_parts_in simp del: end_rows.simps)
  have slip: "same_but_tickets st1 st2" using st2 by (auto dest: slip_same split: if_split_asm)
  have st1': "st1 = on_items ?f st" using end_rows_effect [OF st1] by blast
  have fst_ended: "map fst ?ended = item # filter (\<lambda>p. \<exists>how. ends event p how) ?parts" by (simp add: ended_parts_fst)
  have dist: "distinct (map ir_id (map fst ?ended))" unfolding fst_ended by (rule group_ids(1) [OF rok item])
  have kept: "rows_ok (map ?f ?rows)"
  proof (rule rows_ok_group [OF rok item])
    show "fst ` set (rev (new_states ?ended)) \<subseteq> insert (ir_id item) (ir_id ` set ?parts)"
      unfolding fst_new_states by (force simp: ended_parts_member)
    have line: "ir_state (?f item) = event_target event"
      using assigned_ended [OF dist, of item event] c by (simp add: next_event can_row)
    have part: "ir_state (?f p) = (if ir_state p \<in> set (event_sources event) then event_target event
        else if event = VOID \<and> ir_state p \<in> set (event_sources CANCEL) then CANCELLED else ir_state p)" if p: "p \<in> set ?parts" for p
    proof (cases "\<exists>how. ends event p how")
      case True
      then obtain how where how: "ends event p how" by blast
      then have "ir_state (?f p) = next_state how (ir_state p)"
        using assigned_ended [OF dist, of p how] p by (simp add: ended_parts_member)
      then have new: "ir_state (?f p) = (if ir_state p \<in> set (event_sources how) then event_target how else ir_state p)"
        by (simp only: next_event)
      consider "can event p" "how = event" | "\<not> can event p" "event = VOID" "can CANCEL p" "how = CANCEL"
        using how unfolding ends_def by blast
      then show ?thesis unfolding new by cases (simp_all add: can_row)
    next
      case False
      have "ir_id p \<notin> ir_id ` set (map fst ?ended)"
      proof
        assume "ir_id p \<in> ir_id ` set (map fst ?ended)"
        then obtain q where q: "q = item \<or> q \<in> set ?parts \<and> (\<exists>how. ends event q how)" "ir_id p = ir_id q"
          unfolding fst_ended by auto
        then have "p = q" using group_ids(2) [OF rok item p] group_ids(3) [OF rok item p] by metis
        then show False using q(1) False group_ids(2) [OF rok item p] by auto
      qed
      then have "?f p = p" using assigned_not_ended [of p ?ended, unfolded image_set] by (simp only: image_set simp_thms)
      moreover have "\<not> can event p" "\<not> (event = VOID \<and> can CANCEL p)" using False unfolding ends_def by blast+
      ultimately show ?thesis by (auto simp: can_row simp del: event_sources.simps)
    qed
    have "in_step (event_target event) (map (\<lambda>p. if p \<in> set (event_sources event) then event_target event
        else if event = VOID \<and> p \<in> set (event_sources CANCEL) then CANCELLED else p) (map ir_state ?parts))"
      by (rule end_in_step [OF rows_okD(6) [OF rok item] _ event]) (use c in \<open>simp add: can_row\<close>)
    then show "in_step (ir_state (?f item)) (map (\<lambda>p. ir_state (?f p)) ?parts)"
      using part by (simp add: line comp_def cong: map_cong)
  qed
  have ok1: "store_ok newId st1" unfolding st1' by (rule store_ok_on_items [OF ok keeps_assigned kept])
  have taken1: "taken st1 i = taken st i - need_of (uncooked item ?parts ?ended) i" for i
    unfolding st1' by (rule taken_ended [OF rok item event c])
  have counted1: "counted st1 i = counted st i" for i unfolding st1' by (simp add: counted_def)
  have pos: "0 \<le> need_of (uncooked item ?parts ?ended) i" for i
  proof (rule need_of_nonneg)
    have q: "0 \<le> ir_quantity r" if "(r, how) \<in> set ?ended" for r how
    proof -
      have "r \<in> set ?rows" using that item(1) by (auto simp: ended_parts_member parts_in_member)
      then show ?thesis using rows_okD(3) [OF rok] by fastforce
    qed
    show "\<forall>(j, q) \<in> set (uncooked item ?parts ?ended). 0 \<le> q"
    proof (rule ballI, clarify)
      fix j k assume "(j, k) \<in> set (uncooked item ?parts ?ended)"
      then show "0 \<le> k" using uncooked_member [of j k item ?parts ?ended] q by blast
    qed
  qed
  have "store_ok newId st'"
    using ok1 store_ok_same [OF slip] store_ok_same_stock restore_each_effect [OF st'] by blast
  moreover have "conserves st st'"
    unfolding conserves_def conserves_at_def
  proof (intro allI impI)
    fix i n assume n: "counted st i = Some n"
    have "counted st' i = Some (n + need_of (uncooked item ?parts ?ended) i)"
      using restore_each_effect [OF st', of i] same_counted [OF slip, of i] counted1 [of i] n by simp
    moreover have "taken st' i = taken st i - need_of (uncooked item ?parts ?ended) i"
      using same_taken [OF conjunct1 [OF restore_each_effect [OF st', of i]], of i] same_counted [OF slip, of i] taken1 [of i] by simp
    ultimately show "\<exists>n'. counted st' i = Some n' \<and> n' + taken st' i = n + taken st i \<and> (0 \<le> n \<longrightarrow> 0 \<le> n')"
      using pos [of i] by simp
  qed
  ultimately show ?thesis ..
qed

lemma assertLine_Inr: "assertLine item = Inr u \<longleftrightarrow> ir_parentOrderItemId item = None"
  by (simp add: assertLine_def throw_if_def)

lemma cancel_kept:
  assumes "store_ok newId st" "cancel businessDate ownOnly staffId orderItemId st = Inr st'"
  shows "store_ok newId st' \<and> conserves st st'"
proof -
  obtain item where found: "find_item st orderItemId = Some item"
    using assms(2) by (cases "find_item st orderItemId") (simp_all add: cancel_def)
  then have "ir_parentOrderItemId item = None" "end_and_restore businessDate item CANCEL st = Inr st'"
    using assms(2) by (auto simp: cancel_def bindE_Inr_iff assertLine_Inr)
  then show ?thesis using end_and_restore_kept [OF assms(1) find_item_Some(1) [OF found]] by blast
qed

lemma void_kept:
  assumes "store_ok newId st" "void businessDate orderItemId st = Inr st'"
  shows "store_ok newId st' \<and> conserves st st'"
proof -
  obtain item where found: "find_item st orderItemId = Some item"
    using assms(2) by (cases "find_item st orderItemId") (simp_all add: void_def)
  then have "ir_parentOrderItemId item = None" "end_and_restore businessDate item VOID st = Inr st'"
    using assms(2) by (auto simp: void_def bindE_Inr_iff assertLine_Inr split: if_split_asm)
  then show ?thesis using end_and_restore_kept [OF assms(1) find_item_Some(1) [OF found]] by blast
qed

section \<open>Changing a line\<close>

lemma change_stock_effect:
  assumes "change_stock item q st = Inr st'"
  shows "same_but_stock st st'"
    and "counted st i = Some n \<Longrightarrow>
      counted st' i = Some (if ir_itemId item = i \<and> ir_state item = SENT then n - q else n) \<and>
      (0 \<le> n \<longrightarrow> 0 \<le> (if ir_itemId item = i \<and> ir_state item = SENT then n - q else n))"
proof -
  consider "ir_state item \<noteq> SENT \<or> q = 0" | "ir_state item = SENT" "q > 0" | "ir_state item = SENT" "q < 0" by linarith
  then have "same_but_stock st st' \<and> (\<forall>n. counted st i = Some n \<longrightarrow>
      counted st' i = Some (if ir_itemId item = i \<and> ir_state item = SENT then n - q else n) \<and>
      (0 \<le> n \<longrightarrow> 0 \<le> (if ir_itemId item = i \<and> ir_state item = SENT then n - q else n)))"
  proof cases
    case 1
    then have "st' = st" using assms by (auto simp: change_stock_def)
    then show ?thesis using 1 by auto
  next
    case 2
    then obtain stock where lock: "lockAvailability (ir_itemId item) st = Inr stock"
      and short: "\<not> (case stock_count stock of None \<Rightarrow> False | Some n \<Rightarrow> n < q)"
      and dec: "decrementStock (ir_itemId item) q st = Inr st'"
      using assms by (auto simp: change_stock_def bindE_Inr_iff split: if_split_asm)
    have "counted st (ir_itemId item) = stock_count stock"
      using lock by (auto simp: lockAvailability_def counted_def split: option.splits)
    then show ?thesis using decrementStock_effect [OF dec, of i] short 2 by auto
  next
    case 3
    then have "restoreStock (ir_itemId item) (- q) st = Inr st'" using assms by (simp add: change_stock_def)
    from restoreStock_effect [OF this, of i] show ?thesis using 3 by auto
  qed
  then show "same_but_stock st st'" "counted st i = Some n \<Longrightarrow>
      counted st' i = Some (if ir_itemId item = i \<and> ir_state item = SENT then n - q else n) \<and>
      (0 \<le> n \<longrightarrow> 0 \<le> (if ir_itemId item = i \<and> ir_state item = SENT then n - q else n))" by blast+
qed

lemma modified_rows:
  fixes remark :: "string option" and q :: int
  assumes rok: "rows_ok (st_items st)" and item: "item \<in> set (st_items st)" "ir_parentOrderItemId item = None"
    and alone: "parts_in (st_items st) (ir_id item) = []" and q: "0 < q"
  defines "f \<equiv> \<lambda>r. if ir_id r = ir_id item then (set_quantity q r)\<lparr>ir_instructions := remark\<rparr> else r"
  shows "keeps f" "rows_ok (map f (st_items st))"
    and "taken (on_items f st) i = taken st i + (if ir_itemId item = i \<and> counts (ir_state item) then q - ir_quantity item else 0)"
proof -
  show keep: "keeps f" by (simp add: keeps_def f_def set_quantity_def)
  have state: "ir_state (f r) = ir_state r" for r by (simp add: f_def set_quantity_def)
  have other: "f r = r" if "r \<in> set (st_items st)" "r \<noteq> item" for r
    using rows_okD(4) [OF rok that(1) item(1)] that(2) by (auto simp: f_def)
  show "rows_ok (map f (st_items st))"
  proof (rule rows_ok_map [OF rok keep])
    show "0 < ir_quantity (f r)" if "r \<in> set (st_items st)" for r
      using rows_okD(3) [OF rok that] q by (simp add: f_def set_quantity_def)
    show "ir_quantity (f l) dvd ir_quantity (f p)"
      if l: "l \<in> set (st_items st)" "p \<in> set (parts_in (st_items st) (ir_id l))" "ir_parentOrderItemId l = None" for l p
    proof -
      have p: "p \<in> set (st_items st)" "ir_parentOrderItemId p = Some (ir_id l)" using l(2) by (simp_all add: parts_in_member)
      have "l \<noteq> item" using l(2) alone by auto
      moreover have "p \<noteq> item" using p(2) item(2) by auto
      moreover have "ir_quantity l dvd ir_quantity p"
        using rows_okD(5) [OF rok p] rows_okD(4) [OF rok _ l(1)] by blast
      ultimately show ?thesis using other l(1) p(1) by simp
    qed
    show "in_step (ir_state (f l)) (map (\<lambda>p. ir_state (f p)) (parts_in (st_items st) (ir_id l)))"
      if "l \<in> set (st_items st)" "ir_parentOrderItemId l = None" for l
      using rows_okD(6) [OF rok that] by (simp add: state)
  qed
  have lf: "leaf (st_items st) item" "leaf (st_items st) (f item)" using alone by (simp_all add: leaf_parts_in f_def set_quantity_def)
  have "taken (on_items f st) i = taken st i + sum_list (map (\<lambda>r. takes (st_items st) i (f r) - takes (st_items st) i r) [item])"
    by (rule taken_on_items [OF keep rows_okD(1) [OF rok]]) (use item(1) other in auto)
  then show "taken (on_items f st) i = taken st i + (if ir_itemId item = i \<and> counts (ir_state item) then q - ir_quantity item else 0)"
    using lf by (simp add: takes_def f_def set_quantity_def)
qed

lemma modify_kept:
  assumes ok: "store_ok newId st" and q: "\<And>k. newQuantity = Some k \<Longrightarrow> 0 < k"
    and run: "modify businessDate maxLength orderItemId newQuantity newInstructions st = Inr st'"
  shows "store_ok newId st' \<and> conserves st st'"
proof -
  have rok: "rows_ok (st_items st)" using ok by (simp add: store_ok_def)
  obtain item where found: "find_item st orderItemId = Some item"
    using run by (cases "find_item st orderItemId") (auto simp: modify_def split: if_split_asm)
  note item = find_item_Some [OF found]
  let ?q = "case newQuantity of None \<Rightarrow> ir_quantity item | Some k \<Rightarrow> k"
  let ?remark = "case newInstructions of None \<Rightarrow> ir_instructions item | Some i \<Rightarrow> i"
  let ?f = "\<lambda>r. (set_quantity ?q r)\<lparr>ir_instructions := ?remark\<rparr>"
  let ?slip = "[\<lparr>sl_stationId = ir_stationId item, sl_orderItemId = orderItemId, sl_quantity = ?q\<rparr>]"
  have line: "ir_parentOrderItemId item = None" and alone: "parts_in (st_items st) (ir_id item) = []"
    and state: "ir_state item = SENT \<or> ir_state item = PENDING_APPROVAL"
    and rest: "st' = st \<or> (\<exists>mid. change_stock item (?q - ir_quantity item) st = Inr mid \<and>
      (if ir_state item = SENT then slip businessDate (ir_orderId item) MODIFIED_TICKET ?slip (update_item orderItemId ?f mid)
       else Inr (update_item orderItemId ?f mid)) = Inr st')"
    using run unfolding modify_def found option.case Let_def
    by (auto simp: bindE_Inr_iff assertLine_Inr parts_of_parts_in item(2) split: if_split_asm)
  show ?thesis
  proof (cases "st' = st")
    case False
    then obtain mid where mid: "change_stock item (?q - ir_quantity item) st = Inr mid"
      and final: "(if ir_state item = SENT then slip businessDate (ir_orderId item) MODIFIED_TICKET ?slip (update_item orderItemId ?f mid)
       else Inr (update_item orderItemId ?f mid)) = Inr st'" using rest by blast
    have pos: "0 < ?q" using q rows_okD(3) [OF rok item(1)] by (auto split: option.split)
    note change = change_stock_effect [OF mid]
    have same: "st_items mid = st_items st" using change(1) by (simp add: same_but_stock_def)
    let ?g = "\<lambda>r. if ir_id r = ir_id item then ?f r else r"
    have upd: "update_item orderItemId ?f mid = on_items ?g mid" by (simp only: update_item_on_items item(2))
    have slip: "same_but_tickets (on_items ?g mid) st'" using final unfolding upd by (auto dest: slip_same split: if_split_asm)
    have okm: "store_ok newId mid" using store_ok_same_stock [OF change(1)] ok by simp
    have itm: "item \<in> set (st_items mid)" and rokm: "rows_ok (st_items mid)" and alonem: "parts_in (st_items mid) (ir_id item) = []"
      using item(1) rok alone same by simp_all
    note rows = modified_rows [OF rokm itm line alonem pos, of ?remark]
    have "store_ok newId st'" using store_ok_same [OF slip] store_ok_on_items [OF okm rows(1,2)] by simp
    moreover have "conserves st st'"
      unfolding conserves_def conserves_at_def
    proof (intro allI impI)
      fix i n assume n: "counted st i = Some n"
      let ?here = "ir_itemId item = i \<and> ir_state item = SENT"
      have "counted st' i = Some (if ?here then n - (?q - ir_quantity item) else n)"
        using same_counted [OF slip, of i] change(2) [OF n] by (simp add: counted_def)
      moreover have "taken st' i = taken st i + (if ?here then ?q - ir_quantity item else 0)"
        using same_counted [OF slip, of i] rows(3) [of i] same_taken [OF change(1), of i] state by auto
      moreover have "0 \<le> n \<longrightarrow> 0 \<le> (if ?here then n - (?q - ir_quantity item) else n)" using change(2) [OF n] by blast
      ultimately show "\<exists>n'. counted st' i = Some n' \<and> n' + taken st' i = n + taken st i \<and> (0 \<le> n \<longrightarrow> 0 \<le> n')" by auto
    qed
    ultimately show ?thesis ..
  qed (use ok in simp)
qed

end
