(* ===== verification/Order_Sends.thy ===== *)
theory Order_Sends
  imports Order_Ends
begin

text \<open>
  Firing held lines, rejecting and approving waiting ones: whole lines with their parts move together, and
  an approval takes from the stock exactly what it sends to the kitchen.
\<close>

section \<open>Lines that move with all their parts\<close>

text \<open>The id of a row's line: its own, or that of the line it is a part of.\<close>

definition owner_id :: "OrderItemRow \<Rightarrow> string" where
  "owner_id r = (case ir_parentOrderItemId r of None \<Rightarrow> ir_id r | Some i \<Rightarrow> i)"

definition with_parts :: "OrderItemRow list \<Rightarrow> OrderItemRow list \<Rightarrow> OrderItemRow list" where
  "with_parts rows lines = concat (map (\<lambda>l. l # parts_in rows (ir_id l)) lines)"

lemma assigned_moved:
  assumes "\<forall>r \<in> set moved. can e r"
  shows "assigned (rev (new_states (map (\<lambda>r. (r, e)) moved))) r =
    (if ir_id r \<in> ir_id ` set moved then set_state (event_target e) r else r)"
proof (cases "ir_id r \<in> ir_id ` set moved")
  case True
  have all: "s = event_target e" if "(i, s) \<in> set (rev (new_states (map (\<lambda>r. (r, e)) moved)))" for i s
    using that assms by (auto simp: new_states_def next_event can_row)
  have "ir_id r \<in> fst ` set (rev (new_states (map (\<lambda>r. (r, e)) moved)))"
    using True unfolding fst_new_states by (simp add: image_image)
  then obtain s where "map_of (rev (new_states (map (\<lambda>r. (r, e)) moved))) (ir_id r) = Some s"
    by (metis map_of_eq_None_iff not_None_eq)
  then show ?thesis using all [OF map_of_SomeD] True by (simp add: assigned_def)
next
  case False
  then show ?thesis using assigned_not_ended [of r "map (\<lambda>r. (r, e)) moved"] by (simp add: image_image)
qed

text \<open>A set of lines is told by their ids.\<close>

lemma with_parts_ids:
  assumes rok: "rows_ok rows" and lines: "set lines \<subseteq> set rows" "\<forall>l \<in> set lines. ir_parentOrderItemId l = None"
    and r: "r \<in> set rows"
  shows "ir_id r \<in> ir_id ` set (with_parts rows lines) \<longleftrightarrow> owner_id r \<in> ir_id ` set lines"
    and "r \<in> set (with_parts rows lines) \<longleftrightarrow> owner_id r \<in> ir_id ` set lines"
proof -
  show mem: "r \<in> set (with_parts rows lines) \<longleftrightarrow> owner_id r \<in> ir_id ` set lines"
  proof (cases "ir_parentOrderItemId r")
    case None
    then have "r \<in> set (with_parts rows lines) \<longleftrightarrow> r \<in> set lines"
      by (auto simp: with_parts_def parts_in_member)
    also have "\<dots> \<longleftrightarrow> ir_id r \<in> ir_id ` set lines" using rows_okD(4) [OF rok r] lines(1) by blast
    finally show ?thesis using None by (simp add: owner_id_def)
  next
    case (Some i)
    then show ?thesis using r lines(2) by (auto simp: with_parts_def parts_in_member owner_id_def)
  qed
  have "set (with_parts rows lines) \<subseteq> set rows" using lines(1) by (auto simp: with_parts_def parts_in_member)
  then have "ir_id r \<in> ir_id ` set (with_parts rows lines) \<longleftrightarrow> r \<in> set (with_parts rows lines)"
    using rows_okD(4) [OF rok r] by blast
  then show "ir_id r \<in> ir_id ` set (with_parts rows lines) \<longleftrightarrow> owner_id r \<in> ir_id ` set lines" using mem by simp
qed

lemma in_step_same: "set ps \<subseteq> {s} \<Longrightarrow> in_step s ps"
proof (cases "PROGRESS s = None \<or> ps = []")
  case True
  moreover assume "set ps \<subseteq> {s}"
  ultimately show ?thesis by (cases s) (auto simp: in_step_def)
next
  case False
  assume same: "set ps \<subseteq> {s}"
  then have "set (map place ps) = {place s}" using False by (auto simp: neq_Nil_conv)
  moreover have "s \<in> {SENT, PREPARING, READY, PICKED_UP, SERVED}" using False PROGRESS_some by blast
  ultimately have "follow_target (map place ps) = s" by (auto simp: follow_target_def PROGRESS_STATES_def)
  then show ?thesis using same False by (auto simp: in_step_def)
qed

text \<open>A waiting or held line has its parts in the same state.\<close>

lemma parts_with_line:
  assumes "rows_ok rows" "l \<in> set rows" "ir_parentOrderItemId l = None" "ir_state l \<in> {PENDING_APPROVAL, HELD}"
    and "p \<in> set (parts_in rows (ir_id l))"
  shows "ir_state p = ir_state l"
  using rows_okD(6) [OF assms(1-3)] assms(4,5) by (auto simp: in_step_def)

lemma parts_owner: "p \<in> set (parts_in rows i) \<Longrightarrow> owner_id p = i"
  by (simp add: parts_in_member owner_id_def)

lemma line_owner: "ir_parentOrderItemId l = None \<Longrightarrow> owner_id l = ir_id l"
  by (simp add: owner_id_def)

text \<open>Whole lines set to one state.\<close>

definition move_lines :: "string set \<Rightarrow> OrderItemState \<Rightarrow> OrderItemRow \<Rightarrow> OrderItemRow" where
  "move_lines ids s r = (if owner_id r \<in> ids then set_state s r else r)"

lemma keeps_move_lines [simp]: "keeps (move_lines ids s)"
  by (simp add: keeps_def move_lines_def)

lemma move_lines_ok:
  assumes rok: "rows_ok rows"
  shows "rows_ok (map (move_lines ids s) rows)"
proof (rule rows_ok_map [OF rok keeps_move_lines])
  show "0 < ir_quantity (move_lines ids s r)" if "r \<in> set rows" for r
    using rows_okD(3) [OF rok that] by (simp add: move_lines_def)
  show "ir_quantity (move_lines ids s l) dvd ir_quantity (move_lines ids s p)"
    if "l \<in> set rows" "p \<in> set (parts_in rows (ir_id l))" for l p
    using rows_okD(5) [OF rok, of p "ir_id l"] rows_okD(4) [OF rok _ that(1)] that(2)
    by (fastforce simp: parts_in_member move_lines_def)
  show "in_step (ir_state (move_lines ids s l)) (map (\<lambda>p. ir_state (move_lines ids s p)) (parts_in rows (ir_id l)))"
    if l: "l \<in> set rows" "ir_parentOrderItemId l = None" for l
  proof (cases "ir_id l \<in> ids")
    case True
    then have "set (map (\<lambda>p. ir_state (move_lines ids s p)) (parts_in rows (ir_id l))) \<subseteq> {s}"
      by (auto simp: move_lines_def parts_owner)
    then show ?thesis using True in_step_same l(2) by (simp add: move_lines_def line_owner)
  next
    case False
    then have "map (\<lambda>p. ir_state (move_lines ids s p)) (parts_in rows (ir_id l)) = map ir_state (parts_in rows (ir_id l))"
      by (auto simp: move_lines_def parts_owner)
    moreover have "ir_state (move_lines ids s l) = ir_state l" using False l(2) by (simp add: move_lines_def line_owner)
    ultimately show ?thesis using rows_okD(6) [OF rok l] by (simp only:)
  qed
qed

lemma steps_move_lines:
  assumes rok: "rows_ok (st_items st)" and lines: "set lines \<subseteq> set (st_items st)" "\<forall>l \<in> set lines. ir_parentOrderItemId l = None"
    and can: "\<forall>r \<in> set (with_parts (st_items st) lines). can e r"
  shows "on_items (assigned (rev (new_states (map (\<lambda>r. (r, e)) (with_parts (st_items st) lines))))) st =
    on_items (move_lines (ir_id ` set lines) (event_target e)) st"
proof -
  have "map (assigned (rev (new_states (map (\<lambda>r. (r, e)) (with_parts (st_items st) lines))))) (st_items st) =
      map (move_lines (ir_id ` set lines) (event_target e)) (st_items st)"
    using with_parts_ids(1) [OF rok lines] by (auto simp: assigned_moved [OF can] move_lines_def)
  then show ?thesis by (simp add: on_items_def)
qed

lemma moved_kept:
  assumes ok: "store_ok newId st"
    and same: "\<And>r. r \<in> set (st_items st) \<Longrightarrow> owner_id r \<in> ids \<Longrightarrow> counts (ir_state r) = counts s"
  shows "store_ok newId (on_items (move_lines ids s) st) \<and> conserves st (on_items (move_lines ids s) st)"
proof -
  have rok: "rows_ok (st_items st)" using ok by (simp add: store_ok_def)
  have "taken (on_items (move_lines ids s) st) i = taken st i" for i
    using same by (intro taken_same) (auto simp: move_lines_def)
  moreover have "counted (on_items (move_lines ids s) st) i = counted st i" for i by (simp add: counted_def)
  ultimately show ?thesis
    using store_ok_on_items [OF ok keeps_move_lines move_lines_ok [OF rok]] by (simp add: conserves_def conserves_at_def)
qed

section \<open>Firing\<close>

lemma fire_line_kept:
  assumes ok: "store_ok newId st" and line: "line \<in> set (st_items st)" "ir_parentOrderItemId line = None"
    and run: "step_rows FIRE (filter (\<lambda>r. ir_state r = HELD) (line # parts_of st (ir_id line))) st = Inr st'"
  shows "store_ok newId st' \<and> conserves st st' \<and> (\<exists>f. keeps f \<and> st' = on_items f st)"
proof (cases "ir_state line = HELD")
  case True
  have rok: "rows_ok (st_items st)" using ok by (simp add: store_ok_def)
  have "filter (\<lambda>r. ir_state r = HELD) (line # parts_of st (ir_id line)) = with_parts (st_items st) [line]"
    using parts_with_line [OF rok line] True by (auto simp: with_parts_def parts_of_parts_in intro!: filter_True)
  note eff = step_rows_effect [OF run [unfolded this]]
  have "st' = on_items (move_lines {ir_id line} SENT) st"
    using eff steps_move_lines [OF rok, of "[line]" FIRE] line by simp
  moreover have "counts (ir_state r) = counts SENT" if r: "r \<in> set (st_items st)" "owner_id r \<in> {ir_id line}" for r
  proof -
    have "r \<in> set (with_parts (st_items st) [line])" using with_parts_ids(2) [OF rok, of "[line]" r] r line by simp
    then show ?thesis using parts_with_line [OF rok line] True by (auto simp: with_parts_def)
  qed
  ultimately show ?thesis using moved_kept [OF ok, of "{ir_id line}" SENT] keeps_move_lines by blast
next
  case False
  have rok: "rows_ok (st_items st)" using ok by (simp add: store_ok_def)
  have "ir_state p \<noteq> HELD" if "p \<in> set (parts_of st (ir_id line))" for p
    using rows_okD(6) [OF rok line] False that by (auto simp: in_step_def parts_of_parts_in)
  then have "filter (\<lambda>r. ir_state r = HELD) (line # parts_of st (ir_id line)) = []" using False by simp
  then have "st' = on_items id st" using run by (simp add: on_items_def)
  then show ?thesis using ok by (auto simp: on_items_def keeps_def intro!: exI [of _ id])
qed

lemma fire_lines_kept:
  assumes "store_ok newId st" "fire_lines ownOnly staffId ids inputs partIds st = Inr (inputs', partIds', st')"
    and "\<forall>i \<in> set ids. \<forall>l. find_item st i = Some l \<longrightarrow> ir_parentOrderItemId l = None"
  shows "store_ok newId st' \<and> conserves st st'"
  using assms
proof (induction ids arbitrary: inputs partIds st)
  case Nil
  then show ?case by simp
next
  case (Cons i ids)
  obtain line where found: "find_item st i = Some line"
    using Cons.prems(2) by (cases "find_item st i") simp_all
  note line = find_item_Some [OF found]
  obtain mid where mid: "step_rows FIRE (filter (\<lambda>r. ir_state r = HELD) (line # parts_of st (ir_id line))) st = Inr mid"
    and rest: "fire_lines ownOnly staffId ids (inputs @ [fired_input line (parts_of st i)]) (part_ids_of line (parts_of st i) partIds) mid
      = Inr (inputs', partIds', st')"
    using Cons.prems(2) by (auto simp: found bindE_Inr_iff Let_def line(2) simp del: filter.simps)
  have "ir_parentOrderItemId line = None" using Cons.prems(3) found by simp
  from fire_line_kept [OF Cons.prems(1) line(1) this mid]
  obtain f where first: "store_ok newId mid" "conserves st mid" and f: "keeps f" "mid = on_items f st" by blast
  have "\<forall>j \<in> set ids. \<forall>l. find_item mid j = Some l \<longrightarrow> ir_parentOrderItemId l = None"
    using Cons.prems(3) f by (auto simp: find_item_on_items keeps_def)
  from Cons.IH [OF first(1) rest this] show ?case using conserves_trans [OF first(2)] by blast
qed

lemma fire_kept:
  assumes ok: "store_ok newId st" and run: "fire businessDate sendKots menu ownOnly staffId orderId orderItemIds st = Inr st'"
  shows "store_ok newId st' \<and> conserves st st'"
proof -
  have rok: "rows_ok (st_items st)" using ok by (simp add: store_ok_def)
  let ?held = "held_lines orderId orderItemIds st"
  obtain inputs partIds mid where mid: "fire_lines ownOnly staffId ?held [] [] st = Inr (inputs, partIds, mid)"
    and sent: "sendToKitchen businessDate orderId inputs partIds menu mid = Inr st'"
    using run by (auto simp: fire_def Let_def bindE_Inr_iff split: if_split_asm)
  have "\<forall>i \<in> set ?held. \<forall>l. find_item st i = Some l \<longrightarrow> ir_parentOrderItemId l = None"
    using find_item_id [OF rok] by (auto simp: held_lines_def)
  from fire_lines_kept [OF ok mid this]
  show ?thesis using sendToKitchen_same [OF sent] conserves_same conserves_trans store_ok_same by blast
qed

section \<open>Rejecting\<close>

lemma bindE_assoc: "bindE (bindE x f) g = bindE x (\<lambda>y. bindE (f y) g)"
  by (cases x) simp_all

lemma step_rows_append: "step_rows e (xs @ ys) st = bindE (step_rows e xs st) (step_rows e ys)"
  by (induction xs arbitrary: st) (simp_all add: bindE_assoc)

lemma reject_lines_steps: "reject_lines loaded lines st = step_rows REJECT (with_parts (st_items loaded) lines) st"
proof (induction lines arbitrary: st)
  case (Cons l lines)
  have "reject_lines loaded lines = step_rows REJECT (with_parts (st_items loaded) lines)" using Cons.IH by (rule ext)
  then show ?case by (simp add: with_parts_def reject_line_def parts_of_parts_in step_rows_append bindE_assoc)
qed (simp add: with_parts_def)

lemma waiting_lines_of:
  assumes "l \<in> set (waiting_lines orderId st)"
  shows "l \<in> set (st_items st)" "ir_parentOrderItemId l = None" "ir_state l = PENDING_APPROVAL"
  using assms by (simp_all add: waiting_lines_def)

lemma waiting_group:
  assumes "rows_ok rows" "set lines \<subseteq> set rows" "\<forall>l \<in> set lines. ir_parentOrderItemId l = None \<and> ir_state l = PENDING_APPROVAL"
    and "r \<in> set rows" "owner_id r \<in> ir_id ` set lines"
  shows "ir_state r = PENDING_APPROVAL"
proof -
  have "r \<in> set (with_parts rows lines)" using with_parts_ids(2) [OF assms(1,2) _ assms(4)] assms(3,5) by simp
  then obtain l where l: "l \<in> set lines" "r = l \<or> r \<in> set (parts_in rows (ir_id l))" by (auto simp: with_parts_def)
  then show ?thesis using parts_with_line [OF assms(1), of l r] assms(2,3) by auto
qed

lemma store_ok_items:
  assumes "store_ok newId st" "st_items st' = st_items st" "st_issued st \<le> st_issued st'"
  shows "store_ok newId st'"
  using assms unfolding store_ok_def by (metis less_le_trans)

lemma conserves_items: "st_items st' = st_items st \<Longrightarrow> st_stock st' = st_stock st \<Longrightarrow> conserves st st'"
  by (simp add: conserves_def conserves_at_def counted_def taken_def)

lemma reject_kept:
  assumes ok: "store_ok newId st" and run: "reject approver orderId st = Inr st'"
  shows "store_ok newId st' \<and> conserves st st'"
proof -
  have rok: "rows_ok (st_items st)" using ok by (simp add: store_ok_def)
  let ?waiting = "waiting_lines orderId st"
  obtain mid where steps: "step_rows REJECT (with_parts (st_items st) ?waiting) st = Inr mid"
    and st': "st' = closeIfEnded orderId mid"
    using run by (auto simp: reject_def waitingLines_def bindE_Inr_iff reject_lines_steps split: if_split_asm)
  have lines: "set ?waiting \<subseteq> set (st_items st)" "\<forall>l \<in> set ?waiting. ir_parentOrderItemId l = None"
    and pending: "\<forall>l \<in> set ?waiting. ir_parentOrderItemId l = None \<and> ir_state l = PENDING_APPROVAL"
    using waiting_lines_of by blast+
  note eff = step_rows_effect [OF steps]
  have mid: "mid = on_items (move_lines (ir_id ` set ?waiting) REJECTED) st"
    using eff steps_move_lines [OF rok lines, of REJECT] by simp
  have "store_ok newId mid \<and> conserves st mid"
    unfolding mid using waiting_group [OF rok lines(1) pending] by (intro moved_kept [OF ok]) simp
  moreover have "st_items st' = st_items mid" "st_stock st' = st_stock mid" "st_issued st' = st_issued mid"
    by (simp_all add: st' closeIfEnded_def update_order_def Let_def)
  ultimately show ?thesis using store_ok_items conserves_items conserves_trans by (metis order_refl)
qed

section \<open>Approving\<close>

text \<open>What a change to \<open>q\<close> makes of a row of its line, where \<open>r\<close> is the row as it was loaded and \<open>now\<close> as it is.\<close>

definition row_changed :: "OrderItemRow \<Rightarrow> int \<Rightarrow> OrderItemRow \<Rightarrow> OrderItemRow \<Rightarrow> OrderItemRow" where
  "row_changed line q r now =
     (if q = 0 then set_state REJECTED now
      else if q = ir_quantity line then now
      else if ir_parentOrderItemId r = None then set_quantity q now
      else now\<lparr>ir_quantity := part_quantity line q r\<rparr>)"

lemma row_changed_sel [simp]:
  "ir_id (row_changed line q r now) = ir_id now" "ir_itemId (row_changed line q r now) = ir_itemId now"
  "ir_orderId (row_changed line q r now) = ir_orderId now" "ir_parentOrderItemId (row_changed line q r now) = ir_parentOrderItemId now"
  by (simp_all add: row_changed_def set_quantity_def)

text \<open>The changes of a line one after the other.\<close>

fun changes_made :: "OrderItemRow \<Rightarrow> ApprovalChange list \<Rightarrow> OrderItemRow \<Rightarrow> OrderItemRow \<Rightarrow> OrderItemRow" where
  "changes_made line [] r now = now"
| "changes_made line (c # changes) r now =
     changes_made line changes r (if ch_orderItemId c = ir_id line then row_changed line (ch_quantity c) r now else now)"

lemma changes_made_sel [simp]:
  "ir_id (changes_made line changes r now) = ir_id now" "ir_itemId (changes_made line changes r now) = ir_itemId now"
  "ir_orderId (changes_made line changes r now) = ir_orderId now"
  "ir_parentOrderItemId (changes_made line changes r now) = ir_parentOrderItemId now"
  by (induction changes arbitrary: now) simp_all

text \<open>Whether the line is removed, and the quantity its row keeps: the last one that is not what was ordered.\<close>

definition removed_by :: "ApprovalChange list \<Rightarrow> OrderItemRow \<Rightarrow> bool" where
  "removed_by changes line \<longleftrightarrow> (\<exists>c \<in> set changes. ch_orderItemId c = ir_id line \<and> ch_quantity c = 0)"

fun row_quantity :: "OrderItemRow \<Rightarrow> ApprovalChange list \<Rightarrow> int \<Rightarrow> int" where
  "row_quantity line [] k = k"
| "row_quantity line (c # changes) k =
     row_quantity line changes (if ch_orderItemId c = ir_id line \<and> ch_quantity c \<notin> {0, ir_quantity line} then ch_quantity c else k)"

lemma changes_made_state:
  "ir_state (changes_made line changes r now) = (if removed_by changes line then REJECTED else ir_state now)"
proof (induction changes arbitrary: now)
  case (Cons c changes)
  have "removed_by (c # changes) line \<longleftrightarrow> (ch_orderItemId c = ir_id line \<and> ch_quantity c = 0) \<or> removed_by changes line"
    by (auto simp: removed_by_def)
  then show ?case using Cons.IH by (simp add: row_changed_def set_quantity_def)
qed (simp add: removed_by_def)

lemma changes_made_quantity:
  "ir_parentOrderItemId r = None \<Longrightarrow> ir_quantity (changes_made line changes r now) = row_quantity line changes (ir_quantity now)"
  "ir_parentOrderItemId r \<noteq> None \<Longrightarrow> ir_quantity now = part_quantity line k r \<Longrightarrow>
     ir_quantity (changes_made line changes r now) = part_quantity line (row_quantity line changes k) r"
proof (induction changes arbitrary: now k)
  case (Cons c changes)
  { case 1 then show ?case using Cons.IH(1) by (simp add: row_changed_def set_quantity_def) }
  { case 2
    let ?now = "if ch_orderItemId c = ir_id line then row_changed line (ch_quantity c) r now else now"
    let ?k = "if ch_orderItemId c = ir_id line \<and> ch_quantity c \<notin> {0, ir_quantity line} then ch_quantity c else k"
    have "ir_quantity ?now = part_quantity line ?k r" using 2 by (auto simp: row_changed_def)
    from Cons.IH(2) [OF 2(1) this] show ?case by simp }
qed simp_all

lemma row_quantity_pos:
  assumes "\<forall>c \<in> set changes. 0 \<le> ch_quantity c" "0 < k"
  shows "0 < row_quantity line changes k"
  using assms by (induction changes arbitrary: k) auto

lemma set_part_quantities_effect:
  assumes "distinct (map ir_id parts)"
  shows "\<exists>h. keeps h \<and> set_part_quantities line q parts st = on_items h st \<and>
    (\<forall>r. h r = (if ir_id r \<in> ir_id ` set parts then r\<lparr>ir_quantity := part_quantity line q (the (find (\<lambda>p. ir_id p = ir_id r) parts))\<rparr> else r))"
  using assms
proof (induction parts arbitrary: st)
  case Nil
  then show ?case by (auto simp: set_part_quantities_def on_items_def keeps_def intro!: exI [of _ "\<lambda>r. r"])
next
  case (Cons p parts)
  let ?u = "\<lambda>r. if ir_id r = ir_id p then r\<lparr>ir_quantity := part_quantity line q p\<rparr> else r"
  obtain h where h: "keeps h" "set_part_quantities line q parts (on_items ?u st) = on_items h (on_items ?u st)"
    "\<forall>r. h r = (if ir_id r \<in> ir_id ` set parts then r\<lparr>ir_quantity := part_quantity line q (the (find (\<lambda>p. ir_id p = ir_id r) parts))\<rparr> else r)"
    using Cons.IH [of "on_items ?u st"] Cons.prems by auto
  have "set_part_quantities line q (p # parts) st = set_part_quantities line q parts (on_items ?u st)"
    by (simp add: set_part_quantities_def update_item_on_items)
  also have "\<dots> = on_items (\<lambda>r. h (?u r)) st" using h(2) by (simp only: on_items_on_items)
  finally have eq: "set_part_quantities line q (p # parts) st = on_items (\<lambda>r. h (?u r)) st" .
  have "keeps (\<lambda>r. h (?u r))" using h(1) by (simp add: keeps_def)
  moreover have "h (?u r) = (if ir_id r \<in> ir_id ` set (p # parts)
      then r\<lparr>ir_quantity := part_quantity line q (the (find (\<lambda>p. ir_id p = ir_id r) (p # parts)))\<rparr> else r)" for r
    using h(3) Cons.prems by auto
  ultimately show ?case using eq by blast
qed

text \<open>One change, on rows whatever was made of them before.\<close>

lemma one_change:
  assumes rok: "rows_ok (st_items loaded)" and line: "line \<in> set (st_items loaded)" "ir_parentOrderItemId line = None"
    and pending: "ir_state line = PENDING_APPROVAL" and g: "keeps g"
    and run: "(if q = 0 then reject_line loaded line (on_items g loaded)
      else if q = ir_quantity line then Inr (on_items g loaded)
      else Inr (set_part_quantities line q (parts_of loaded (ir_id line))
        (update_item (ir_id line) (set_quantity q) (on_items g loaded)))) = Inr st'"
  shows "\<exists>g'. keeps g' \<and> st' = on_items g' loaded \<and>
    (\<forall>r \<in> set (st_items loaded). g' r = (if owner_id r = ir_id line then row_changed line q r (g r) else g r))"
proof -
  let ?rows = "st_items loaded" and ?parts = "parts_in (st_items loaded) (ir_id line)"
  have gid: "ir_id (g r) = ir_id r" for r using g by (simp add: keeps_def)
  have rid: "ir_id r = ir_id line \<longleftrightarrow> owner_id r = ir_id line \<and> ir_parentOrderItemId r = None" if "r \<in> set ?rows" for r
    using rows_okD(4) [OF rok that line(1)] line(2) group_ids(2) [OF rok line, of r] that
    by (cases "ir_parentOrderItemId r") (auto simp: owner_id_def parts_in_member)
  have pid: "ir_id r \<in> ir_id ` set ?parts \<longleftrightarrow> owner_id r = ir_id line \<and> ir_parentOrderItemId r \<noteq> None" if r: "r \<in> set ?rows" for r
  proof -
    have "ir_id r \<in> ir_id ` set ?parts \<longleftrightarrow> r \<in> set ?parts"
      using rows_okD(4) [OF rok r] by (auto simp: parts_in_member)
    then show ?thesis using r by (cases "ir_parentOrderItemId r") (simp_all add: parts_in_member owner_id_def)
  qed
  consider "q = 0" | "q \<noteq> 0" "q = ir_quantity line" | "q \<noteq> 0" "q \<noteq> ir_quantity line" by blast
  then show ?thesis
  proof cases
    case 1
    let ?rs = "with_parts ?rows [line]"
    have steps: "step_rows REJECT ?rs (on_items g loaded) = Inr st'"
      using run 1 by (simp add: reject_line_def with_parts_def parts_of_parts_in)
    note eff = step_rows_effect [OF steps]
    let ?m = "assigned (rev (new_states (map (\<lambda>r. (r, REJECT)) ?rs)))"
    have "st' = on_items (\<lambda>r. ?m (g r)) loaded" using eff by (simp add: on_items_on_items)
    moreover have "keeps (\<lambda>r. ?m (g r))" using keeps_comp [OF g keeps_assigned] by simp
    moreover have "?m (g r) = (if owner_id r = ir_id line then row_changed line q r (g r) else g r)" if r: "r \<in> set ?rows" for r
    proof -
      have "?m (g r) = (if ir_id r \<in> ir_id ` set ?rs then set_state REJECTED (g r) else g r)"
        using assigned_moved [of ?rs REJECT "g r"] eff by (simp add: gid)
      then show ?thesis using with_parts_ids(1) [OF rok, of "[line]" r] line r 1 by (simp add: row_changed_def)
    qed
    ultimately show ?thesis by blast
  next
    case 2
    then have "st' = on_items g loaded" using run by simp
    moreover have "g r = (if owner_id r = ir_id line then row_changed line q r (g r) else g r)" if "r \<in> set ?rows" for r
      using 2 by (simp add: row_changed_def)
    ultimately show ?thesis using g by blast
  next
    case 3
    let ?u = "\<lambda>r. if ir_id r = ir_id line then set_quantity q r else r"
    have dist: "distinct (map ir_id ?parts)" using group_ids(1) [OF rok line, of "\<lambda>_. True"] by simp
    obtain h where h: "keeps h" "set_part_quantities line q ?parts (on_items ?u (on_items g loaded)) = on_items h (on_items ?u (on_items g loaded))"
      "\<forall>r. h r = (if ir_id r \<in> ir_id ` set ?parts then r\<lparr>ir_quantity := part_quantity line q (the (find (\<lambda>p. ir_id p = ir_id r) ?parts))\<rparr> else r)"
      using set_part_quantities_effect [OF dist] by blast
    have "st' = on_items (\<lambda>r. h (?u (g r))) loaded"
      using run 3 h(2) by (simp add: parts_of_parts_in update_item_on_items on_items_on_items)
    moreover have "keeps (\<lambda>r. h (?u (g r)))" using h(1) g by (simp add: keeps_def set_quantity_def)
    moreover have "h (?u (g r)) = (if owner_id r = ir_id line then row_changed line q r (g r) else g r)" if r: "r \<in> set ?rows" for r
    proof -
      have uid: "ir_id (?u (g r)) = ir_id r" by (simp add: gid set_quantity_def)
      consider "owner_id r \<noteq> ir_id line" | "owner_id r = ir_id line" "ir_parentOrderItemId r = None"
        | "owner_id r = ir_id line" "ir_parentOrderItemId r \<noteq> None" by blast
      then show ?thesis
      proof cases
        case 1
        then show ?thesis using h(3) rid [OF r] pid [OF r] by (simp add: gid)
      next
        case 2
        then show ?thesis using h(3) rid [OF r] pid [OF r] 3 by (simp add: row_changed_def set_quantity_def gid)
      next
        case part: 3
        have "r \<in> set ?parts" using part r by (auto simp: parts_in_member owner_id_def)
        then have "find (\<lambda>p. ir_id p = ir_id r) ?parts = Some r"
        proof -
          have "find (\<lambda>p. ir_id p = ir_id r) xs = Some r" if "distinct (map ir_id xs)" "r \<in> set xs" for xs
            using that by (induction xs) auto
          then show ?thesis using dist \<open>r \<in> set ?parts\<close> by blast
        qed
        moreover have "h (?u (g r)) = (g r)\<lparr>ir_quantity := part_quantity line q (the (find (\<lambda>p. ir_id p = ir_id r) ?parts))\<rparr>"
          using h(3) rid [OF r] pid [OF r] part by (simp add: gid)
        ultimately show ?thesis using 3 part by (auto simp: row_changed_def)
      qed
    qed
    ultimately show ?thesis by blast
  qed
qed

lemma find_waiting:
  assumes "distinct (map ir_id waiting)" "l \<in> set waiting" "ir_id l = i"
  shows "find (\<lambda>candidate. ir_id candidate = i) waiting = Some l"
  using assms by (induction waiting) auto

lemma applyChanges_effect:
  assumes rok: "rows_ok (st_items loaded)"
    and waiting: "set waiting \<subseteq> set (st_items loaded)" "distinct (map ir_id waiting)"
      "\<forall>l \<in> set waiting. ir_parentOrderItemId l = None \<and> ir_state l = PENDING_APPROVAL"
    and g: "keeps g"
    and run: "applyChanges loaded waiting changes removed (on_items g loaded) = Inr (removed', st')"
  shows "\<exists>g'. keeps g' \<and> st' = on_items g' loaded \<and>
    set removed' = set removed \<union> {ch_orderItemId c |c. c \<in> set changes \<and> ch_quantity c = 0} \<and>
    (\<forall>r \<in> set (st_items loaded). \<forall>l \<in> set waiting. owner_id r = ir_id l \<longrightarrow> g' r = changes_made l changes r (g r)) \<and>
    (\<forall>r \<in> set (st_items loaded). owner_id r \<notin> ir_id ` set waiting \<longrightarrow> g' r = g r)"
  using g run
proof (induction changes arbitrary: g removed)
  case Nil
  then show ?case by auto
next
  case (Cons c changes)
  let ?rows = "st_items loaded"
  obtain l where l: "find (\<lambda>candidate. ir_id candidate = ch_orderItemId c) waiting = Some l"
    using Cons.prems(2) by (cases "find (\<lambda>candidate. ir_id candidate = ch_orderItemId c) waiting") simp_all
  then have lw: "l \<in> set waiting" "ir_id l = ch_orderItemId c" by (auto simp: find_Some_iff)
  have line: "l \<in> set ?rows" "ir_parentOrderItemId l = None" "ir_state l = PENDING_APPROVAL" using lw(1) waiting by auto
  let ?one = "if ch_quantity c = 0 then reject_line loaded l (on_items g loaded)
      else if ch_quantity c = ir_quantity l then Inr (on_items g loaded)
      else Inr (set_part_quantities l (ch_quantity c) (parts_of loaded (ir_id l))
        (update_item (ir_id l) (set_quantity (ch_quantity c)) (on_items g loaded)))"
  let ?removed = "if ch_quantity c = 0 then ir_id l # removed else removed"
  obtain mid where mid: "?one = Inr mid" and rest: "applyChanges loaded waiting changes ?removed mid = Inr (removed', st')"
    using Cons.prems(2) by (auto simp: l bindE_Inr_iff split: if_split_asm)
  obtain h where h: "keeps h" "mid = on_items h loaded"
    "\<forall>r \<in> set ?rows. h r = (if owner_id r = ir_id l then row_changed l (ch_quantity c) r (g r) else g r)"
    using one_change [OF rok line Cons.prems(1) mid] by auto
  from Cons.IH [OF h(1) rest [unfolded h(2)]]
  obtain g' where g': "keeps g'" "st' = on_items g' loaded"
    "set removed' = set ?removed \<union> {ch_orderItemId c |c. c \<in> set changes \<and> ch_quantity c = 0}"
    "\<forall>r \<in> set ?rows. \<forall>l \<in> set waiting. owner_id r = ir_id l \<longrightarrow> g' r = changes_made l changes r (h r)"
    "\<forall>r \<in> set ?rows. owner_id r \<notin> ir_id ` set waiting \<longrightarrow> g' r = h r" by auto
  have "g' r = changes_made k (c # changes) r (g r)" if r: "r \<in> set ?rows" and k: "k \<in> set waiting" "owner_id r = ir_id k" for r k
  proof (cases "ir_id k = ir_id l")
    case True
    then have "k = l" using rows_okD(4) [OF rok _ line(1)] k(1) waiting(1) by blast
    then show ?thesis using g'(4) r k h(3) lw(2) by simp
  next
    case False
    then show ?thesis using g'(4) r k h(3) lw(2) by simp
  qed
  moreover have "g' r = g r" if "r \<in> set ?rows" "owner_id r \<notin> ir_id ` set waiting" for r
    using that g'(5) h(3) lw(1) by auto
  moreover have "set removed' = set removed \<union> {ch_orderItemId d |d. d \<in> set (c # changes) \<and> ch_quantity d = 0}"
    using g'(3) lw(2) by auto
  ultimately show ?case using g'(1,2) by blast
qed

lemma approve_rows_steps:
  "approve_rows lines partIds st = Inr (partIds', st') \<Longrightarrow>
     step_rows APPROVE (concat (map (\<lambda>a. al_line a # map fst (al_parts a)) lines)) st = Inr st'"
proof (induction lines arbitrary: partIds st)
  case (Cons a lines)
  then show ?case by (auto simp: bindE_Inr_iff step_rows_append)
qed simp

end
