(* ===== verification/Order_Approved.thy ===== *)
theory Order_Approved
  imports Order_Sends
begin

text \<open>
  An approval as one change of the rows: removed lines are rejected, the others are sent with the quantities
  agreed, and what they take from the stock is what the check of the stock asked for.
\<close>

section \<open>The rows after an approval\<close>

definition approved_amount :: "ApprovalChange list \<Rightarrow> OrderItemRow \<Rightarrow> int" where
  "approved_amount changes line = row_quantity line changes (ir_quantity line)"

definition approval :: "ApprovalChange list \<Rightarrow> OrderItemRow list \<Rightarrow> OrderItemRow \<Rightarrow> OrderItemRow" where
  "approval changes waiting r =
     (case find (\<lambda>l. ir_id l = owner_id r) waiting of
        None \<Rightarrow> r
      | Some l \<Rightarrow> (if removed_by changes l then changes_made l changes r r else set_state SENT (changes_made l changes r r)))"

lemma keeps_approval [simp]: "keeps (approval changes waiting)"
  by (auto simp: keeps_def approval_def split: option.split)

lemma approval_waiting:
  assumes "distinct (map ir_id waiting)" "l \<in> set waiting" "owner_id r = ir_id l"
  shows "approval changes waiting r =
    (if removed_by changes l then changes_made l changes r r else set_state SENT (changes_made l changes r r))"
  using find_waiting [OF assms(1,2), of "owner_id r"] assms(3) by (simp add: approval_def)

lemma approval_other: "owner_id r \<notin> ir_id ` set waiting \<Longrightarrow> approval changes waiting r = r"
proof -
  assume "owner_id r \<notin> ir_id ` set waiting"
  then have "find (\<lambda>l. ir_id l = owner_id r) waiting = None" by (force simp: find_None_iff)
  then show ?thesis by (simp add: approval_def)
qed

lemma approval_row:
  assumes rok: "rows_ok rows" and waiting: "set waiting \<subseteq> set rows" "distinct (map ir_id waiting)"
    and r: "r \<in> set rows" and l: "l \<in> set waiting" "owner_id r = ir_id l"
  shows "ir_quantity (approval changes waiting r) =
      (if ir_parentOrderItemId r = None then approved_amount changes l else part_quantity l (approved_amount changes l) r)"
    and "ir_state (approval changes waiting r) = (if removed_by changes l then REJECTED else SENT)"
    and "ir_quantity l dvd ir_quantity r"
proof -
  have lr: "l \<in> set rows" using l(1) waiting(1) by blast
  have own: "ir_parentOrderItemId r = None \<Longrightarrow> r = l" using rows_okD(4) [OF rok r lr] l(2) by (simp add: owner_id_def)
  show dvd: "ir_quantity l dvd ir_quantity r"
  proof (cases "ir_parentOrderItemId r")
    case (Some i)
    then show ?thesis using rows_okD(5) [OF rok r Some] rows_okD(4) [OF rok _ lr] l(2) by (auto simp: owner_id_def)
  qed (use own in simp)
  then have "ir_quantity r = part_quantity l (ir_quantity l) r" by (simp add: part_quantity_def)
  then have "ir_quantity (changes_made l changes r r) =
      (if ir_parentOrderItemId r = None then approved_amount changes l else part_quantity l (approved_amount changes l) r)"
  proof (cases "ir_parentOrderItemId r = None")
    case True
    then show ?thesis using changes_made_quantity(1) [OF True, of l changes r] own [OF True] by (simp add: approved_amount_def)
  next
    case False
    then show ?thesis
      using changes_made_quantity(2) [OF False \<open>ir_quantity r = part_quantity l (ir_quantity l) r\<close>] False by (auto simp: approved_amount_def)
  qed
  then show "ir_quantity (approval changes waiting r) =
      (if ir_parentOrderItemId r = None then approved_amount changes l else part_quantity l (approved_amount changes l) r)"
    by (simp add: approval_waiting [OF waiting(2) l])
  show "ir_state (approval changes waiting r) = (if removed_by changes l then REJECTED else SENT)"
    by (simp add: approval_waiting [OF waiting(2) l] changes_made_state)
qed

lemma approval_ok:
  assumes rok: "rows_ok rows"
    and waiting: "set waiting \<subseteq> set rows" "distinct (map ir_id waiting)"
      "\<forall>l \<in> set waiting. ir_parentOrderItemId l = None \<and> ir_state l = PENDING_APPROVAL"
    and amounts: "\<forall>l \<in> set waiting. 0 < approved_amount changes l"
  shows "rows_ok (map (approval changes waiting) rows)"
proof -
  let ?F = "approval changes waiting"
  note group = approval_row [OF rok waiting(1,2)]
  have dvd: "ir_quantity l dvd ir_quantity p" if "l \<in> set rows" "p \<in> set (parts_in rows (ir_id l))" for l p
    using rows_okD(5) [OF rok, of p "ir_id l"] rows_okD(4) [OF rok _ that(1)] that(2) by (auto simp: parts_in_member)
  have member: "l \<in> set waiting" if at: "l \<in> set rows" "ir_id l \<in> ir_id ` set waiting" for l
  proof -
    obtain k where k: "k \<in> set waiting" "ir_id l = ir_id k" using at(2) by auto
    then have "l = k" using rows_okD(4) [OF rok at(1), of k] waiting(1) by auto
    then show ?thesis using k(1) by simp
  qed
  show ?thesis
  proof (rule rows_ok_map [OF rok keeps_approval])
    show "0 < ir_quantity (?F r)" if r: "r \<in> set rows" for r
    proof (cases "owner_id r \<in> ir_id ` set waiting")
      case True
      then obtain l where l: "l \<in> set waiting" "owner_id r = ir_id l" by blast
      have lr: "l \<in> set rows" using l(1) waiting(1) by blast
      have "ir_quantity l \<le> ir_quantity r" using group(3) [OF r l] rows_okD(3) [OF rok r] zdvd_imp_le by blast
      then have "0 < ir_quantity r div ir_quantity l" using rows_okD(3) [OF rok lr] by (simp add: pos_imp_zdiv_pos_iff)
      then show ?thesis using amounts l(1) by (simp add: group(1) [OF r l] part_quantity_def)
    next
      case False
      then show ?thesis using rows_okD(3) [OF rok r] by (simp add: approval_other)
    qed
    fix l assume l: "l \<in> set rows" "ir_parentOrderItemId l = None"
    show "ir_quantity (?F l) dvd ir_quantity (?F p)" if p: "p \<in> set (parts_in rows (ir_id l))" for p
    proof (cases "ir_id l \<in> ir_id ` set waiting")
      case True
      then have lw: "l \<in> set waiting" by (rule member [OF l(1)])
      have pr: "p \<in> set rows" "ir_parentOrderItemId p \<noteq> None" using p by (simp_all add: parts_in_member)
      show ?thesis
        using group(1) [OF l(1) lw line_owner [OF l(2)]] group(1) [OF pr(1) lw parts_owner [OF p]] l(2) pr(2) by (simp add: part_quantity_def)
    next
      case False
      then show ?thesis using dvd [OF l(1) p] by (simp add: approval_other parts_owner [OF p] line_owner [OF l(2)])
    qed
    show "in_step (ir_state (?F l)) (map (\<lambda>p. ir_state (?F p)) (parts_in rows (ir_id l)))"
    proof (cases "ir_id l \<in> ir_id ` set waiting")
      case True
      then have lw: "l \<in> set waiting" by (rule member [OF l(1)])
      show ?thesis
      proof (rule in_step_same)
        show "set (map (\<lambda>p. ir_state (?F p)) (parts_in rows (ir_id l))) \<subseteq> {ir_state (?F l)}"
          using group(2) [OF l(1) lw line_owner [OF l(2)]] group(2) [OF _ lw parts_owner] by (auto simp: parts_in_member)
      qed
    next
      case False
      then have "map (\<lambda>p. ir_state (?F p)) (parts_in rows (ir_id l)) = map ir_state (parts_in rows (ir_id l))"
        by (auto simp: approval_other parts_owner)
      moreover have "?F l = l" using False l(2) by (simp add: approval_other line_owner)
      ultimately show ?thesis using rows_okD(6) [OF rok l] by (simp only:)
    qed
  qed
qed

section \<open>What an approval takes\<close>

lemma distinct_with_parts:
  assumes "rows_ok rows" "set lines \<subseteq> set rows" "distinct (map ir_id lines)" "\<forall>l \<in> set lines. ir_parentOrderItemId l = None"
  shows "distinct (with_parts rows lines)"
  using assms(2-4)
proof (induction lines)
  case (Cons l lines)
  have "distinct (map ir_id (l # parts_in rows (ir_id l)))"
    using group_ids(1) [OF assms(1), of l "\<lambda>_. True"] Cons.prems by simp
  then have "distinct (l # parts_in rows (ir_id l))" by (simp only: distinct_map)
  moreover have "r \<notin> set (with_parts rows lines)" if r: "r \<in> set (l # parts_in rows (ir_id l))" for r
  proof -
    have "owner_id r = ir_id l" using r Cons.prems(3) by (auto simp: parts_owner line_owner)
    moreover have "r \<in> set rows" using r Cons.prems(1) by (auto simp: parts_in_member)
    ultimately show ?thesis using with_parts_ids(2) [OF assms(1), of lines r] Cons.prems by simp
  qed
  moreover have "distinct (with_parts rows lines)" using Cons.IH Cons.prems by simp
  moreover have "with_parts rows (l # lines) = (l # parts_in rows (ir_id l)) @ with_parts rows lines" by (simp add: with_parts_def)
  ultimately show ?case by (simp only: distinct_append) blast
qed (simp add: with_parts_def)

lemma sum_with_parts:
  "sum_list (map h (with_parts rows lines)) =
     sum_list (map (\<lambda>l. h l + sum_list (map h (parts_in rows (ir_id l)))) lines)"
  by (induction lines) (simp_all add: with_parts_def add.assoc)

lemma approved_needs_sum:
  "need_of (need_pairs (concat (map approved_needs lines))) i =
     sum_list (map (\<lambda>a. (if al_parts a = [] \<and> ir_itemId (al_line a) = i then al_quantity a else 0) +
       sum_list (map (\<lambda>(part, perUnit). if ir_itemId part = i then perUnit * al_quantity a else 0) (al_parts a))) lines)"
proof (induction lines)
  case (Cons a lines)
  have parts: "need_of (map ((\<lambda>(i, name, q). (i, q)) \<circ> (\<lambda>(part, perUnit). (ir_itemId part, ir_name part, perUnit * al_quantity a))) ps) i =
      sum_list (map (\<lambda>(part, perUnit). if ir_itemId part = i then perUnit * al_quantity a else 0) ps)" for ps
    by (induction ps) auto
  show ?case using Cons.IH parts [of "al_parts a"] by (simp add: need_pairs_def approved_needs_def add.assoc)
qed (simp add: need_pairs_def)

lemma approval_taken:
  assumes rok: "rows_ok (st_items st)"
    and waiting: "set waiting \<subseteq> set (st_items st)" "distinct (map ir_id waiting)"
      "\<forall>l \<in> set waiting. ir_parentOrderItemId l = None \<and> ir_state l = PENDING_APPROVAL"
    and quantity: "\<forall>l \<in> set waiting. \<not> removed_by changes l \<longrightarrow> al_quantity (withQuantity st quantities l) = approved_amount changes l"
  defines "approved \<equiv> filter (\<lambda>l. \<not> removed_by changes l) waiting"
  shows "taken (on_items (approval changes waiting) st) i = taken st i +
    need_of (need_pairs (concat (map approved_needs (map (withQuantity st quantities) approved)))) i"
proof -
  let ?rows = "st_items st" and ?F = "approval changes waiting"
  let ?d = "\<lambda>r. takes ?rows i (?F r) - takes ?rows i r"
  have approved: "set approved \<subseteq> set ?rows" "\<forall>l \<in> set approved. ir_parentOrderItemId l = None" "distinct (map ir_id approved)"
    using waiting by (auto simp: approved_def distinct_map_filter)
  have pend: "ir_state r = PENDING_APPROVAL" if "r \<in> set ?rows" "owner_id r \<in> ir_id ` set waiting" for r
    using waiting_group [OF rok waiting(1,3) that] .
  have lf: "leaf ?rows (?F r) = leaf ?rows r" for r using keeps_approval [of changes waiting] by (simp add: keeps_def leaf_def)
  have sel: "ir_itemId (?F r) = ir_itemId r" for r using keeps_approval [of changes waiting] by (simp add: keeps_def)
  have each: "?d r = (if leaf ?rows r \<and> ir_itemId r = i then (if ir_parentOrderItemId r = None then approved_amount changes l
      else (ir_quantity r div ir_quantity l) * approved_amount changes l) else 0)"
    if r: "r \<in> set ?rows" and l: "l \<in> set approved" "owner_id r = ir_id l" for r l
  proof -
    have lw: "l \<in> set waiting" "\<not> removed_by changes l" using l(1) by (auto simp: approved_def)
    have "ir_quantity (?F r) = (if ir_parentOrderItemId r = None then approved_amount changes l else part_quantity l (approved_amount changes l) r)"
      "ir_state (?F r) = SENT"
      using approval_row [OF rok waiting(1,2) r lw(1) l(2)] lw(2) by simp_all
    moreover have "ir_state r = PENDING_APPROVAL" using pend [OF r] l(2) lw(1) by force
    ultimately show ?thesis by (simp add: takes_def lf sel part_quantity_def)
  qed
  have "taken (on_items ?F st) i = taken st i + sum_list (map ?d (with_parts ?rows approved))"
  proof (rule taken_on_items [OF keeps_approval rows_okD(1) [OF rok] distinct_with_parts [OF rok approved(1,3,2)]])
    show "set (with_parts ?rows approved) \<subseteq> set ?rows" using approved(1) by (auto simp: with_parts_def parts_in_member)
    show "takes ?rows i (?F r) = takes ?rows i r" if r: "r \<in> set ?rows" "r \<notin> set (with_parts ?rows approved)" for r
    proof (cases "owner_id r \<in> ir_id ` set waiting")
      case True
      then obtain l where l: "l \<in> set waiting" "owner_id r = ir_id l" by blast
      then have "l \<notin> set approved" using with_parts_ids(2) [OF rok approved(1,2) r(1)] r(2) by force
      then have "removed_by changes l" using l(1) by (simp add: approved_def)
      then show ?thesis using pend [OF r(1) True] approval_row(2) [OF rok waiting(1,2) r(1) l] by (simp add: takes_def)
    qed (simp add: approval_other)
  qed
  also have "sum_list (map ?d (with_parts ?rows approved)) =
      need_of (need_pairs (concat (map approved_needs (map (withQuantity st quantities) approved)))) i"
    unfolding sum_with_parts approved_needs_sum
    unfolding map_map comp_def
  proof (rule arg_cong [of _ _ sum_list], rule map_cong [OF refl])
    fix l assume l: "l \<in> set approved"
    have lr: "l \<in> set ?rows" "ir_parentOrderItemId l = None" using l approved by auto
    let ?a = "withQuantity st quantities l"
    have amount: "al_quantity ?a = approved_amount changes l" using quantity l by (auto simp: approved_def)
    have line: "?d l = (if parts_in ?rows (ir_id l) = [] \<and> ir_itemId l = i then approved_amount changes l else 0)"
      using each [OF lr(1) l line_owner [OF lr(2)]] lr(2) by (simp add: leaf_parts_in)
    have "map ?d (parts_in ?rows (ir_id l)) =
        map (\<lambda>p. if ir_itemId p = i then (ir_quantity p div ir_quantity l) * approved_amount changes l else 0) (parts_in ?rows (ir_id l))"
    proof (rule map_cong [OF refl])
      fix p assume p: "p \<in> set (parts_in ?rows (ir_id l))"
      then have "p \<in> set ?rows" "ir_parentOrderItemId p \<noteq> None" by (simp_all add: parts_in_member)
      then show "?d p = (if ir_itemId p = i then (ir_quantity p div ir_quantity l) * approved_amount changes l else 0)"
        using each [OF _ l parts_owner [OF p]] by (auto simp: leaf_def)
    qed
    then have sum: "sum_list (map ?d (parts_in ?rows (ir_id l))) =
        sum_list (map (\<lambda>(part, perUnit). if ir_itemId part = i then perUnit * al_quantity ?a else 0) (al_parts ?a))"
      by (simp only: amount) (simp add: withQuantity_def parts_of_parts_in comp_def)
    show "?d l + sum_list (map ?d (parts_in ?rows (ir_id l))) =
        (if al_parts ?a = [] \<and> ir_itemId (al_line ?a) = i then al_quantity ?a else 0) +
        sum_list (map (\<lambda>(part, perUnit). if ir_itemId part = i then perUnit * al_quantity ?a else 0) (al_parts ?a))"
      unfolding sum line amount by (simp add: withQuantity_def parts_of_parts_in)
  qed
  finally show ?thesis .
qed

section \<open>Approving\<close>

text \<open>Where no line is changed twice, what is sent and paid for with stock is what the row keeps.\<close>

lemma row_quantity_unchanged: "ir_id l \<notin> ch_orderItemId ` set changes \<Longrightarrow> row_quantity l changes k = k"
  by (induction changes arbitrary: k) auto

lemma quantities_unchanged:
  "i \<notin> ch_orderItemId ` set changes \<Longrightarrow>
     map_of (foldl (\<lambda>m c. map_set (ch_orderItemId c) (ch_quantity c) m) m (filter P changes)) i = map_of m i"
  by (induction changes arbitrary: m) auto

lemma approved_amount_is:
  assumes "distinct (map ch_orderItemId changes)" "\<forall>c \<in> set changes. 0 \<le> ch_quantity c" "\<not> removed_by changes l"
  shows "al_quantity (withQuantity loaded (approved_quantities changes) l) = approved_amount changes l"
proof -
  have "(case map_of (foldl (\<lambda>m c. map_set (ch_orderItemId c) (ch_quantity c) m) m (filter (\<lambda>c. ch_quantity c > 0) changes)) (ir_id l) of
      None \<Rightarrow> ir_quantity l | Some q \<Rightarrow> q) = row_quantity l changes (ir_quantity l)" if "map_of m (ir_id l) = None" for m
    using assms that
  proof (induction changes arbitrary: m)
    case (Cons c changes)
    show ?case
    proof (cases "ch_orderItemId c = ir_id l")
      case True
      then have "ch_quantity c > 0" using Cons.prems(2,3) by (force simp: removed_by_def)
      moreover have "ir_id l \<notin> ch_orderItemId ` set changes" using Cons.prems(1) True by auto
      ultimately show ?thesis using True by (simp add: row_quantity_unchanged quantities_unchanged)
    next
      case False
      have "\<not> removed_by changes l" using Cons.prems(3) by (simp add: removed_by_def)
      then show ?thesis using Cons.IH [of m] Cons.IH [of "map_set (ch_orderItemId c) (ch_quantity c) m"] Cons.prems False by simp
    qed
  qed simp
  then show ?thesis by (simp add: withQuantity_def approved_quantities_def approved_amount_def)
qed

lemma check_approved_ok:
  assumes "check_approved localeCompare lines st = Inr u" "i \<in> fst ` set (need_pairs (concat (map approved_needs lines)))"
    "counted st i = Some n"
  shows "need_of (need_pairs (concat (map approved_needs lines))) i \<le> n"
proof -
  let ?needs = "add_needs (need_pairs (concat (map approved_needs lines)))"
  have "short_items (js_sort (\<lambda>a b. localeCompare (fst a) (fst b)) ?needs) st = Inr []"
    using assms(1) by (auto simp: check_approved_def Let_def bindE_Inr_iff throw_if_def split: if_split_asm)
  moreover have "(i, need_of (need_pairs (concat (map approved_needs lines))) i) \<in> set (js_sort (\<lambda>a b. localeCompare (fst a) (fst b)) ?needs)"
    using map_of_add_needs [of "need_pairs (concat (map approved_needs lines))" i] assms(2) by (auto dest: map_of_SomeD)
  ultimately show ?thesis using short_items_ok assms(3) by (metis empty_iff list.set(1))
qed

lemma open_if_needed_same:
  assumes "open_if_needed newId responsibleWaiter approverId order st = Inr (order', st')"
  shows "st_items st' = st_items st \<and> st_stock st' = st_stock st \<and> st_issued st \<le> st_issued st'"
  using assms
  by (auto simp: open_if_needed_def openTableForOrder_def update_order_def fresh_def bindE_Inr_iff Let_def
      split: option.split_asm if_split_asm prod.split_asm)

lemma addToBill_same:
  assumes "addToBill order st = Inr st'"
  shows "st_items st' = st_items st \<and> st_stock st' = st_stock st \<and> st_issued st' = st_issued st"
  using assms by (auto simp: addToBill_def bindE_Inr_iff split: option.split_asm if_split_asm)

text \<open>The rows once the changes are made and what remains is sent.\<close>

lemma approved_rows:
  assumes rok: "rows_ok (st_items loaded)"
    and waiting: "set waiting \<subseteq> set (st_items loaded)" "distinct (map ir_id waiting)"
      "\<forall>l \<in> set waiting. ir_parentOrderItemId l = None \<and> ir_state l = PENDING_APPROVAL"
    and made: "applyChanges loaded waiting changes [] loaded = Inr (removed, mid)"
    and sent: "step_rows APPROVE (with_parts (st_items loaded) (filter (\<lambda>l. \<not> List.member removed (ir_id l)) waiting)) mid = Inr st'"
  shows "filter (\<lambda>l. \<not> List.member removed (ir_id l)) waiting = filter (\<lambda>l. \<not> removed_by changes l) waiting"
    and "st' = on_items (approval changes waiting) loaded"
    and "st_stock mid = st_stock loaded"
proof -
  let ?rows = "st_items loaded"
  have "on_items (\<lambda>r. r) loaded = loaded" by (simp add: on_items_def)
  from applyChanges_effect [OF rok waiting, of "\<lambda>r. r" changes "[]" removed mid, unfolded this] made
  obtain g where g: "keeps g" "mid = on_items g loaded"
    and removed: "set removed = {ch_orderItemId c |c. c \<in> set changes \<and> ch_quantity c = 0}"
    and mine: "\<forall>r \<in> set ?rows. \<forall>l \<in> set waiting. owner_id r = ir_id l \<longrightarrow> g r = changes_made l changes r r"
    and others: "\<forall>r \<in> set ?rows. owner_id r \<notin> ir_id ` set waiting \<longrightarrow> g r = r"
    by (auto simp: keeps_def)
  show "st_stock mid = st_stock loaded" by (simp add: g(2))
  have gone: "ir_id l \<in> set removed \<longleftrightarrow> removed_by changes l" for l unfolding removed removed_by_def by force
  then show approved: "filter (\<lambda>l. \<not> List.member removed (ir_id l)) waiting = filter (\<lambda>l. \<not> removed_by changes l) waiting"
    by (simp add: List.member_iff)
  let ?approved = "filter (\<lambda>l. \<not> removed_by changes l) waiting"
  have lines: "set ?approved \<subseteq> set ?rows" "\<forall>l \<in> set ?approved. ir_parentOrderItemId l = None" using waiting by auto
  note eff = step_rows_effect [OF sent [unfolded approved]]
  let ?m = "assigned (rev (new_states (map (\<lambda>r. (r, APPROVE)) (with_parts ?rows ?approved))))"
  have st': "st' = on_items (\<lambda>r. ?m (g r)) loaded" using eff g(2) by (simp add: on_items_on_items)
  have "?m (g r) = approval changes waiting r" if r: "r \<in> set ?rows" for r
  proof -
    have "?m (g r) = (if ir_id (g r) \<in> ir_id ` set (with_parts ?rows ?approved) then set_state SENT (g r) else g r)"
      using assigned_moved [of "with_parts ?rows ?approved" APPROVE "g r"] eff by simp
    also have "ir_id (g r) \<in> ir_id ` set (with_parts ?rows ?approved) \<longleftrightarrow> owner_id r \<in> ir_id ` set ?approved"
      using with_parts_ids(1) [OF rok lines r] g(1) by (simp add: keeps_def)
    finally have m: "?m (g r) = (if owner_id r \<in> ir_id ` set ?approved then set_state SENT (g r) else g r)" .
    show ?thesis
    proof (cases "owner_id r \<in> ir_id ` set waiting")
      case False
      then have "owner_id r \<notin> ir_id ` set ?approved" by auto
      then show ?thesis using m others r False by (simp add: approval_other)
    next
      case True
      then obtain l where l: "l \<in> set waiting" "owner_id r = ir_id l" by blast
      have "owner_id r \<in> ir_id ` set ?approved \<longleftrightarrow> \<not> removed_by changes l"
        unfolding l(2) using find_waiting [OF waiting(2) l(1) refl] find_waiting [OF waiting(2)] l(1) by fastforce
      then show ?thesis using m mine r l by (simp add: approval_waiting [OF waiting(2) l])
    qed
  qed
  then show "st' = on_items (approval changes waiting) loaded" unfolding st' by (simp add: on_items_def)
qed

text \<open>
  An approval keeps the rows in order. The stock balance it keeps where no line is changed twice.
\<close>

lemma approve_kept:
  assumes ok: "store_ok newId st"
    and changes: "\<forall>c \<in> set changes. 0 \<le> ch_quantity c"
    and run: "approve newId responsibleWaiter localeCompare businessDate sendKots menu approver orderId changes st = Inr st'"
  shows "store_ok newId st' \<and> (distinct (map ch_orderItemId changes) \<longrightarrow> conserves st st') \<and> stays_counted i st st'"
proof -
  let ?waiting = "waiting_lines orderId st"
  obtain order order' loaded removed mid where opened: "open_if_needed newId responsibleWaiter (ap_staffId approver) order st = Inr (order', loaded)"
    and made: "applyChanges loaded ?waiting changes [] loaded = Inr (removed, mid)"
    and sent: "send_approved localeCompare businessDate menu order' (map (withQuantity loaded (approved_quantities changes))
        (filter (\<lambda>l. \<not> List.member removed (ir_id l)) ?waiting)) mid = Inr st'"
    using run by (auto simp: approve_def waitingLines_def bindE_Inr_iff Let_def split: if_split_asm)
  note same = open_if_needed_same [OF opened]
  have okl: "store_ok newId loaded" using store_ok_items [OF ok] same by blast
  then have rok: "rows_ok (st_items loaded)" by (simp add: store_ok_def)
  have dist: "distinct (map ir_id (st_items st))" using rows_okD(2) [OF rok] same by simp
  have waiting: "set ?waiting \<subseteq> set (st_items loaded)" "distinct (map ir_id ?waiting)"
      "\<forall>l \<in> set ?waiting. ir_parentOrderItemId l = None \<and> ir_state l = PENDING_APPROVAL"
    using dist same by (auto simp: waiting_lines_def distinct_map_filter)
  let ?approved = "filter (\<lambda>l. \<not> removed_by changes l) ?waiting"
  let ?lines = "map (withQuantity loaded (approved_quantities changes)) (filter (\<lambda>l. \<not> List.member removed (ir_id l)) ?waiting)"
  let ?needs = "need_pairs (concat (map approved_needs ?lines))"
  obtain u partIds stepped told paid where check: "check_approved localeCompare ?lines mid = Inr u"
    and rows: "approve_rows ?lines [] mid = Inr (partIds, stepped)"
    and told: "sendToKitchen businessDate (or_id order') (map approved_input ?lines) partIds menu stepped = Inr told"
    and paid: "decrement_each ?needs told = Inr paid" and bill: "addToBill order' paid = Inr st'"
    using sent by (auto simp: send_approved_def bindE_Inr_iff)
  have "concat (map (\<lambda>a. al_line a # map fst (al_parts a)) ?lines) =
      with_parts (st_items loaded) (filter (\<lambda>l. \<not> List.member removed (ir_id l)) ?waiting)"
    by (simp add: with_parts_def withQuantity_def parts_of_parts_in comp_def)
  then have steps: "step_rows APPROVE (with_parts (st_items loaded) (filter (\<lambda>l. \<not> List.member removed (ir_id l)) ?waiting)) mid = Inr stepped"
    using approve_rows_steps [OF rows] by simp
  note eff = approved_rows [OF rok waiting made steps]
  have amount: "0 < approved_amount changes l" if "l \<in> set ?waiting" for l
    using rows_okD(3) [OF rok] waiting(1) that row_quantity_pos [OF changes] by (auto simp: approved_amount_def)
  note slip = sendToKitchen_same [OF told] and bill' = addToBill_same [OF bill]
  have items: "store_ok newId stepped" unfolding eff(2)
    using approval_ok [OF rok waiting] amount by (intro store_ok_on_items [OF okl keeps_approval]) simp
  have "store_ok newId paid" using items store_ok_same [OF slip] store_ok_same_stock [OF decrement_each_same [OF paid]] by simp
  then have "store_ok newId st'" using store_ok_items [of newId paid st'] bill' by simp
  moreover have "stays_counted j st st'" for j
    unfolding stays_counted_def
  proof (intro allI impI)
    fix n assume n: "counted st j = Some n \<and> 0 \<le> n"
    then have "counted told j = Some n"
      using same eff(3) same_counted [OF slip, of j] by (simp add: eff(2) counted_def)
    from decrement_each_counted [OF paid this] n show "\<exists>n'. counted st' j = Some n' \<and> 0 \<le> n'"
      using bill' by (simp add: counted_def)
  qed
  moreover have "conserves st st'" if once: "distinct (map ch_orderItemId changes)"
    unfolding conserves_def conserves_at_def
  proof (intro allI impI)
    fix i n assume n: "counted st i = Some n"
    have stepped: "taken stepped i = taken st i + need_of ?needs i"
      unfolding eff(2) eff(1) using approval_taken [OF rok waiting, of changes "approved_quantities changes" i] approved_amount_is [OF once changes] same
      by (simp add: taken_def)
    have cmid: "counted mid i = Some n" and ctold: "counted told i = Some n"
      using n same eff(3) same_counted [OF slip, of i] by (simp_all add: eff(2) counted_def)
    have pos: "\<forall>(j, q) \<in> set ?needs. 0 \<le> q"
    proof -
      have "0 \<le> al_quantity a \<and> (\<forall>(p, k) \<in> set (al_parts a). 0 \<le> k)" if "a \<in> set ?lines" for a
      proof -
        have "a \<in> withQuantity loaded (approved_quantities changes) ` set ?approved" using that by (simp only: eff(1) set_map)
        then obtain l where l: "l \<in> set ?waiting" "a = withQuantity loaded (approved_quantities changes) l" "l \<in> set ?approved"
          by auto
        have "0 < ir_quantity l" using rows_okD(3) [OF rok] waiting(1) l(1) by blast
        moreover have "0 < ir_quantity p" if "p \<in> set (parts_of loaded (ir_id l))" for p
          using rows_okD(3) [OF rok] that by (simp add: parts_of_def)
        moreover have "0 \<le> al_quantity a" using amount [OF l(1)] approved_amount_is [OF once changes, of l loaded] l(2,3) by auto
        ultimately show ?thesis by (auto simp: l(2) withQuantity_def pos_imp_zdiv_nonneg_iff less_imp_le)
      qed
      then show ?thesis by (fastforce simp: need_pairs_def approved_needs_def)
    qed
    have "counted paid i = Some (n - need_of ?needs i)"
      using decrement_each_effect [OF paid pos _ ctold] check_approved_ok [OF check _ cmid] ctold by auto
    moreover have "need_of ?needs i \<le> n \<or> need_of ?needs i = 0"
      using check_approved_ok [OF check _ cmid] need_of_absent by blast
    moreover have "taken st' i = taken stepped i" "counted st' i = counted paid i"
      using same_taken [OF decrement_each_same [OF paid], of i] same_counted [OF slip, of i] bill' by (simp_all add: taken_def counted_def)
    ultimately show "\<exists>n'. counted st' i = Some n' \<and> n' + taken st' i = n + taken st i \<and> (0 \<le> n \<longrightarrow> 0 \<le> n')"
      using stepped by auto
  qed
  ultimately show ?thesis by blast
qed

end
