(* ===== verification/Order_Created.thy ===== *)
theory Order_Created
  imports Order_Approved
begin

text \<open>
  A new order keeps the invariant, and takes from the stock exactly what its lines record; an order that waits
  for approval takes nothing. A repeated key changes nothing and gets its answer again.
\<close>

section \<open>A new line with its parts\<close>

definition new_part :: "OrderItemRow \<Rightarrow> OrderItemRow \<Rightarrow> bool" where
  "new_part l p \<longleftrightarrow> ir_parentOrderItemId p = Some (ir_id l) \<and> ir_orderId p = ir_orderId l \<and> 0 < ir_quantity p \<and>
     ir_quantity l dvd ir_quantity p \<and> ir_state p = ir_state l"

lemma no_parts_yet:
  assumes "rows_ok rows" "distinct (map ir_id (rows @ l # ps))" "r \<in> set rows"
  shows "ir_parentOrderItemId r \<noteq> Some (ir_id l)"
proof
  assume "ir_parentOrderItemId r = Some (ir_id l)"
  from rows_okD(5) [OF assms(1,3) this] have "ir_id l \<in> ir_id ` set rows" by (metis image_eqI)
  then show False using assms(2) by auto
qed

lemma add_group_ok:
  assumes rok: "rows_ok rows" and ids: "distinct (map ir_id (rows @ l # ps))" and l: "ir_parentOrderItemId l = None" "0 < ir_quantity l"
    and ps: "\<forall>p \<in> set ps. new_part l p"
  shows "rows_ok (rows @ l # ps)"
proof -
  let ?all = "rows @ l # ps"
  have none: "parts_in rows (ir_id l) = []" using no_parts_yet [OF rok ids] by (auto simp: parts_in_def filter_empty_conv)
  have mine: "parts_in ?all (ir_id l) = ps" using none l(1) ps by (auto simp: parts_in_def new_part_def filter_id_conv)
  have others: "parts_in ?all (ir_id r) = parts_in rows (ir_id r)" if r: "r \<in> set rows" for r
  proof -
    have "ir_id r \<noteq> ir_id l" using imageI [OF r, of ir_id] ids by auto
    then show ?thesis using l(1) ps by (auto simp: parts_in_def new_part_def filter_empty_conv)
  qed
  have pparts: "parts_in ?all (ir_id p) = []" if p: "p \<in> set ps" for p
  proof -
    have "ir_id p \<noteq> ir_id l" "ir_id p \<notin> ir_id ` set rows" using imageI [OF p, of ir_id] ids by auto
    moreover have "ir_parentOrderItemId r \<noteq> Some (ir_id p)" if "r \<in> set rows" for r
      using rows_okD(5) [OF rok that, of "ir_id p"] \<open>ir_id p \<notin> ir_id ` set rows\<close> by (metis image_eqI)
    ultimately show ?thesis using l(1) ps by (auto simp: parts_in_def new_part_def filter_empty_conv)
  qed
  have "part_belongs ?all r" if r: "r \<in> set ?all" for r
  proof (cases "r \<in> set rows")
    case True
    then have "part_belongs rows r" using rok by (simp add: rows_ok_def)
    then show ?thesis by (auto simp: part_belongs_def split: option.splits)
  next
    case False
    then show ?thesis using r l ps by (auto simp: part_belongs_def new_part_def)
  qed
  moreover have "line_in_step ?all r" if r: "r \<in> set ?all" for r
  proof -
    consider "r \<in> set rows" | "r = l" | "r \<in> set ps" using r by auto
    then show ?thesis
    proof cases
      case 1
      then show ?thesis using rok by (simp add: rows_ok_def line_in_step_def others)
    next
      case 2
      have "set (map ir_state ps) \<subseteq> {ir_state l}" using ps by (auto simp: new_part_def)
      then show ?thesis using in_step_same mine 2 by (simp add: line_in_step_def)
    next
      case 3
      then show ?thesis using pparts by (simp add: line_in_step_def in_step_def)
    qed
  qed
  moreover have "0 < ir_quantity r" if "r \<in> set ?all" for r
    using that rows_okD(3) [OF rok] l(2) ps by (auto simp: new_part_def)
  ultimately show ?thesis using ids unfolding rows_ok_def by blast
qed

definition group_takes :: "OrderItemRow \<Rightarrow> OrderItemRow list \<Rightarrow> string \<Rightarrow> int" where
  "group_takes l ps i =
     (if counts (ir_state l) then
        (if ps = [] \<and> ir_itemId l = i then ir_quantity l else 0) +
        sum_list (map (\<lambda>p. if ir_itemId p = i then ir_quantity p else 0) ps)
      else 0)"

lemma add_group_taken:
  assumes rok: "rows_ok (st_items st)" and ids: "distinct (map ir_id (st_items st @ l # ps))" and l: "ir_parentOrderItemId l = None"
    and ps: "\<forall>p \<in> set ps. new_part l p" and items: "st_items st' = st_items st @ l # ps"
  shows "taken st' i = taken st i + group_takes l ps i"
proof -
  let ?rows = "st_items st" and ?all = "st_items st @ l # ps"
  have "takes ?all i r = takes ?rows i r" if r: "r \<in> set ?rows" for r
  proof -
    have "ir_id r \<noteq> ir_id l" using imageI [OF r, of ir_id] ids by auto
    then have "leaf ?all r = leaf ?rows r" using l ps by (auto simp: leaf_def new_part_def)
    then show ?thesis by (simp add: takes_def)
  qed
  then have "map (takes ?all i) ?rows = map (takes ?rows i) ?rows" by simp
  moreover have "map (takes ?all i) ps = map (\<lambda>p. if counts (ir_state l) then (if ir_itemId p = i then ir_quantity p else 0) else 0) ps"
    using ps by (auto simp: takes_def leaf_def new_part_def)
  moreover have "leaf ?all l \<longleftrightarrow> ps = []"
    using l ps no_parts_yet [OF rok ids] by (auto simp: leaf_def new_part_def neq_Nil_conv)
  moreover have "takes ?all i l = (if counts (ir_state l) \<and> ps = [] \<and> ir_itemId l = i then ir_quantity l else 0)"
    using calculation(3) by (simp add: takes_def)
  ultimately show ?thesis
    by (cases "counts (ir_state l)") (simp_all only: taken_def items group_takes_def map_append list.map sum_list_append sum_list.Cons,
      simp_all)
qed

section \<open>Creating lines\<close>

fun part_rows :: "(nat \<Rightarrow> string) \<Rightarrow> nat \<Rightarrow> OrderItemRow \<Rightarrow> (MenuItem \<times> number) list \<Rightarrow> OrderItemRow list" where
  "part_rows newId k parent [] = []"
| "part_rows newId k parent (part # parts) = part_row parent (newId k) part # part_rows newId (Suc k) parent parts"

lemma create_parts_rows:
  "snd (create_parts newId parent parts partIds st) =
     st\<lparr>st_items := st_items st @ part_rows newId (st_issued st) parent parts, st_issued := st_issued st + length parts\<rparr>"
  by (induction parts arbitrary: partIds st) (simp_all add: fresh_def add_item_def)

lemma part_rows_ids: "map ir_id (part_rows newId k parent parts) = map newId [k..<k + length parts]"
  by (induction parts arbitrary: k) (simp_all add: part_row_def upt_conv_Cons del: upt_Suc)

lemma part_rows_member:
  "p \<in> set (part_rows newId k parent parts) \<Longrightarrow> \<exists>i. \<exists>part \<in> set parts. p = part_row parent i part"
  by (induction parts arbitrary: k) (simp, fastforce)

lemma part_rows_sum:
  "sum_list (map (\<lambda>p. if ir_itemId p = i then ir_quantity p else 0) (part_rows newId k parent parts)) =
     need_of (map (\<lambda>(part, q). (mi_id part, q * ir_quantity parent)) parts) i"
  by (induction parts arbitrary: k) (auto simp: part_row_def)

definition line_valid :: "ResolvedOrderLine \<Rightarrow> bool" where
  "line_valid line \<longleftrightarrow> 0 < ol_quantity (rl_request line) \<and> (\<forall>(part, q) \<in> set (rl_components line). 0 < q)"

lemma need_of_concat_line: "order_needs (line # lines) = line_needs line @ order_needs lines"
  by (simp add: order_needs_def)

lemma create_lines_kept:
  assumes inj: "inj newId" and "store_ok newId st" "\<forall>line \<in> set lines. line_valid line"
    and state: "itemState = SENT \<or> itemState = PENDING_APPROVAL"
    and "create_lines newId menu itemState orderId lines inputs partIds st = (inputs', partIds', st')"
  shows "store_ok newId st' \<and> st_stock st' = st_stock st \<and> st_keys st' = st_keys st \<and>
    taken st' i = taken st i + (if itemState = SENT then need_of (order_needs lines) i else 0)"
  using assms(2,3,5)
proof (induction lines arbitrary: inputs partIds st)
  case Nil
  then show ?case by (simp add: order_needs_def)
next
  case (Cons line lines)
  let ?k = "st_issued st"
  let ?l = "parent_row menu itemState orderId (newId ?k) line"
  let ?ps = "part_rows newId (Suc ?k) ?l (rl_components line)"
  let ?mid = "st\<lparr>st_items := st_items st @ ?l # ?ps, st_issued := Suc ?k + length (rl_components line)\<rparr>"
  have rok: "rows_ok (st_items st)" using Cons.prems(1) by (simp add: store_ok_def)
  have snd: "snd (create_parts newId ?l (rl_components line) partIds (add_item ?l (st\<lparr>st_issued := Suc ?k\<rparr>))) = ?mid"
    by (simp add: create_parts_rows add_item_def)
  obtain inputs1 partIds1 where rest: "create_lines newId menu itemState orderId lines inputs1 partIds1 ?mid = (inputs', partIds', st')"
    using Cons.prems(3) snd by (auto simp: fresh_def Let_def split: prod.splits)
  have valid: "0 < ol_quantity (rl_request line)" "\<forall>(part, q) \<in> set (rl_components line). 0 < q"
    using Cons.prems(2) by (simp_all add: line_valid_def)
  have l: "ir_parentOrderItemId ?l = None" "ir_quantity ?l = ol_quantity (rl_request line)" "ir_itemId ?l = mi_id (rl_item line)"
    "ir_id ?l = newId ?k" "counts (ir_state ?l) \<longleftrightarrow> itemState = SENT"
    using state by (auto simp: parent_row_def Let_def is_held_def)
  have ps: "\<forall>p \<in> set ?ps. new_part ?l p"
    using valid l(2) by (force dest!: part_rows_member simp: new_part_def part_row_def)
  have old: "ir_id r \<in> newId ` {..<?k}" if "r \<in> set (st_items st)" for r
    using Cons.prems(1) that by (auto simp: store_ok_def)
  have new: "map ir_id (?l # ?ps) = map newId [?k..<Suc ?k + length (rl_components line)]"
    by (simp add: part_rows_ids l(4) upt_conv_Cons del: upt_Suc)
  have "distinct (map newId [?k..<Suc ?k + length (rl_components line)])"
    unfolding distinct_map using inj inj_on_subset [of newId UNIV] by (simp del: upt_Suc)
  moreover have "ir_id r \<notin> set (map newId [?k..<Suc ?k + length (rl_components line)])" if "r \<in> set (st_items st)" for r
    using old [OF that] by (auto simp: inj_eq [OF inj] simp del: upt_Suc)
  ultimately have ids: "distinct (map ir_id (st_items st @ ?l # ?ps))"
    using rows_okD(2) [OF rok] unfolding map_append new by (auto simp del: upt_Suc)
  have "rows_ok (st_items ?mid)" using add_group_ok [OF rok ids l(1) _ ps] valid(1) l(2) by simp
  moreover have "\<exists>k < st_issued ?mid. ir_id r = newId k" if r: "r \<in> set (st_items ?mid)" for r
  proof (cases "r \<in> set (st_items st)")
    case True
    then obtain k where "k < ?k" "ir_id r = newId k" using old by auto
    then show ?thesis by (intro exI [of _ k]) simp
  next
    case False
    then have "ir_id r \<in> set (map ir_id (?l # ?ps))" using r by auto
    then obtain k where "k < Suc ?k + length (rl_components line)" "ir_id r = newId k" unfolding new by (auto simp del: upt_Suc)
    then show ?thesis by (intro exI [of _ k]) simp
  qed
  ultimately have ok: "store_ok newId ?mid" by (simp add: store_ok_def)
  have "taken ?mid i = taken st i + group_takes ?l ?ps i" by (rule add_group_taken [OF rok ids l(1) ps]) simp
  moreover have "group_takes ?l ?ps i = (if itemState = SENT then need_of (line_needs line) i else 0)"
  proof -
    have alone: "?ps = [] \<longleftrightarrow> rl_components line = []" by (cases "rl_components line") simp_all
    show ?thesis unfolding group_takes_def part_rows_sum l alone by (simp add: line_needs_def Let_def)
  qed
  moreover have "store_ok newId st' \<and> st_stock st' = st_stock ?mid \<and> st_keys st' = st_keys ?mid \<and>
      taken st' i = taken ?mid i + (if itemState = SENT then need_of (order_needs lines) i else 0)"
    using Cons.IH [OF ok _ rest] Cons.prems(2) by simp
  ultimately show ?case by (simp add: need_of_concat_line)
qed

section \<open>The lines of a request\<close>

definition menu_valid :: "MenuSnapshot \<Rightarrow> bool" where
  "menu_valid menu \<longleftrightarrow> (\<forall>combo \<in> set (ms_combos menu). \<forall>component \<in> set (co_components combo). 0 < cc_quantity component)"

lemma resolve_parts_positive:
  assumes "resolve_parts z ctx (items_by_id menu) components choices = Inr (Inr parts)"
    and "\<forall>component \<in> set components. 0 < cc_quantity component" and "(part, q) \<in> set parts"
  shows "0 < q"
proof -
  obtain ids where ids: "length parts = length components"
    "\<forall>i < length components. part_ok z ctx menu (ids ! i) (components ! i) (parts ! i)"
    using assms(1) unfolding resolve_parts_Inr parts_ok_def by (auto split: option.split_asm)
  obtain i where i: "i < length parts" "parts ! i = (part, q)" using assms(3) by (auto simp: in_set_conv_nth)
  then have "q = cc_quantity (components ! i)" using ids by (force simp: part_ok_def)
  then show ?thesis using assms(2) i ids(1) by simp
qed

lemma resolved_valid:
  assumes "resolveOrderLine z menu line lc = Inr (RESOLVED r)" "0 < ol_quantity line" "menu_valid menu"
  shows "line_valid r"
proof -
  obtain item picked where "resolve_combo z lc menu item line = Inr picked"
      "(case picked of Inl c \<Rightarrow> Inr (REJECTED_LINE (ol_clientLineId line) c)
        | Inr components \<Rightarrow> bindE (unitPriceOf (selectable menu item) (line_selection line)) (\<lambda>unitPrice.
            Inr (RESOLVED \<lparr>rl_request = line, rl_item = item, rl_variantName = variant_name item line,
                          rl_modifiers = line_modifiers (groups_of menu item) line,
                          rl_unitPrice = unitPrice, rl_components = components\<rparr>))) = Inr (RESOLVED r)"
    using assms(1) by (auto simp: resolveOrderLine_def rejectLine_def bindE_Inr_iff Let_def split: option.split_asm if_split_asm)
  then obtain item parts where parts: "resolve_combo z lc menu item line = Inr (Inr parts)" and r: "rl_request r = line" "rl_components r = parts"
    by (cases picked) (auto simp: rejectLine_def bindE_Inr_iff)
  have "0 < q" if "(part, q) \<in> set parts" for part q
  proof (cases "comboOf menu item")
    case None
    then have "parts = []" using parts by (simp add: resolve_combo_def Let_def split: if_split_asm)
    then show ?thesis using that by simp
  next
    case (Some combo)
    then have "combo \<in> set (ms_combos menu)" by (auto simp: comboOf_def find_Some_iff)
    moreover have "resolve_parts z lc (items_by_id menu) (co_components combo) (list_or_empty (ol_comboChoices line)) = Inr (Inr parts)"
      using parts Some by (auto simp: resolve_combo_def bindE_Inr_iff Let_def split: if_split_asm)
    ultimately show ?thesis using resolve_parts_positive [OF _ _ that] assms(3) by (simp add: menu_valid_def)
  qed
  then show ?thesis using assms(2) r by (auto simp: line_valid_def)
qed

lemma resolve_lines_valid:
  assumes "resolve_lines z menu lc lines = Inr (rejected, resolved)" "\<forall>line \<in> set lines. 0 < ol_quantity line" "menu_valid menu"
  shows "\<forall>r \<in> set resolved. line_valid r"
  using assms
proof (induction lines arbitrary: rejected resolved)
  case (Cons line lines)
  obtain outcome rejected1 resolved1 where outcome: "resolveOrderLine z menu line lc = Inr outcome"
    and rest: "resolve_lines z menu lc lines = Inr (rejected1, resolved1)"
    and both: "(rejected, resolved) = (case outcome of REJECTED_LINE i c \<Rightarrow> ((i, c) # rejected1, resolved1) | RESOLVED r \<Rightarrow> (rejected1, r # resolved1))"
    using Cons.prems(1) by (auto simp: bindE_Inr_iff)
  then show ?case using Cons.IH [OF rest] Cons.prems resolved_valid by (cases outcome) auto
qed simp

section \<open>Submitting\<close>

lemma prepareTable_same:
  assumes "prepareTable request itemState tableId st = Inr (tableId', st')"
  shows "st_items st' = st_items st \<and> st_stock st' = st_stock st \<and> st_issued st' = st_issued st"
  using assms by (auto simp: prepareTable_def bindE_Inr_iff split: option.split_asm if_split_asm)

lemma order_needs_nonneg:
  assumes "\<forall>line \<in> set lines. line_valid line"
  shows "\<forall>(i, q) \<in> set (order_needs lines). 0 \<le> q"
proof -
  have "\<forall>(i, q) \<in> set (line_needs line). 0 \<le> q" if "line_valid line" for line
    using that by (fastforce simp: line_needs_def line_valid_def Let_def)
  then show ?thesis using assms by (fastforce simp: order_needs_def)
qed

text \<open>The days of the orders and their numbers; an order and what it takes.\<close>

definition numbers_of :: "Store \<Rightarrow> (IsoDate \<times> int) list" where
  "numbers_of st = map (\<lambda>order. (or_businessDate order, or_orderNumber order)) (st_orders st)"

lemma create_order_split:
  "\<exists>orderId n st1. create_order newId cx request itemState tableId lines st =
     (case create_lines newId (cx_menu cx) itemState orderId lines [] [] st1 of (kotInputs, partIds, st2) \<Rightarrow>
        bindE (if itemState = SENT then
            bindE (if length kotInputs > 0 then sendToKitchen (cx_businessDate cx) orderId kotInputs partIds (cx_menu cx) st2 else Inr st2)
              (decrement_each (order_needs lines))
          else Inr st2) (\<lambda>st.
        Inr (\<lparr>ac_orderId = orderId, ac_orderNumber = n,
              ac_itemState = (if itemState = SENT \<and> length kotInputs = 0 then HELD else itemState), ac_replayed = False\<rparr>, st))) \<and>
     st_items st1 = st_items st \<and> st_stock st1 = st_stock st \<and> st_issued st1 = Suc (st_issued st) \<and> st_keys st1 = st_keys st \<and>
     numbers_of st1 = numbers_of st @ [(cx_businessDate cx, n)] \<and> n = st_counters st (cx_businessDate cx, ORDER_NUMBER) + 1 \<and>
     (\<forall>d. st_counters st1 (d, ORDER_NUMBER) = (if d = cx_businessDate cx then n else st_counters st (d, ORDER_NUMBER)))"
proof -
  let ?date = "cx_businessDate cx" and ?takeaway = "so_orderType request = TAKEAWAY"
  obtain n sa where a: "allocateDailyNumber ?date ORDER_NUMBER st = (n, sa)" by fastforce
  obtain orderId sb where b: "fresh newId sa = (orderId, sb)" by fastforce
  obtain token sc where c: "(if ?takeaway then (case allocateDailyNumber ?date TAKEAWAY_TOKEN sb of (n, st) \<Rightarrow> (Some n, st)) else (None, sb)) = (token, sc)"
    by fastforce
  let ?st1 = "sc\<lparr>st_orders := st_orders sc @
      [\<lparr>or_id = orderId, or_businessDate = ?date, or_orderNumber = n, or_orderType = so_orderType request,
        or_source = so_source request, or_tableSessionId = (if ?takeaway then None else so_tableSessionId request),
        or_tableId = tableId, or_takeawayToken = token, or_createdById = cx_staffId cx, or_cancelled = False\<rparr>]\<rparr>"
  have same: "st_items ?st1 = st_items st \<and> st_stock ?st1 = st_stock st \<and> st_issued ?st1 = Suc (st_issued st) \<and> st_keys ?st1 = st_keys st \<and>
      numbers_of ?st1 = numbers_of st @ [(?date, n)] \<and> n = st_counters st (?date, ORDER_NUMBER) + 1 \<and>
      (\<forall>d. st_counters ?st1 (d, ORDER_NUMBER) = (if d = ?date then n else st_counters st (d, ORDER_NUMBER)))"
    using a b c by (auto simp: allocateDailyNumber_def fresh_def numbers_of_def Let_def split: if_split_asm)
  show ?thesis
    by (rule exI [of _ orderId], rule exI [of _ n], rule exI [of _ ?st1], rule conjI [OF _ same])
      (simp only: create_order_def Let_def a b c prod.case)
qed

lemma create_order_kept:
  assumes inj: "inj newId" and ok: "store_ok newId st" and valid: "\<forall>line \<in> set lines. line_valid line"
    and state: "itemState = SENT \<or> itemState = PENDING_APPROVAL"
    and fits: "\<And>i n. i \<in> fst ` set (order_needs lines) \<Longrightarrow> counted st i = Some n \<Longrightarrow> need_of (order_needs lines) i \<le> n"
    and run: "create_order newId cx request itemState tableId lines st = Inr (response, st')"
  shows "store_ok newId st' \<and> conserves st st'"
proof -
  let ?needs = "order_needs lines"
  obtain orderId n st1 where eq: "create_order newId cx request itemState tableId lines st =
     (case create_lines newId (cx_menu cx) itemState orderId lines [] [] st1 of (kotInputs, partIds, st2) \<Rightarrow>
        bindE (if itemState = SENT then
            bindE (if length kotInputs > 0 then sendToKitchen (cx_businessDate cx) orderId kotInputs partIds (cx_menu cx) st2 else Inr st2)
              (decrement_each ?needs)
          else Inr st2) (\<lambda>st.
        Inr (\<lparr>ac_orderId = orderId, ac_orderNumber = n,
              ac_itemState = (if itemState = SENT \<and> length kotInputs = 0 then HELD else itemState), ac_replayed = False\<rparr>, st)))"
    and st1: "st_items st1 = st_items st" "st_stock st1 = st_stock st" "st_issued st1 = Suc (st_issued st)"
    using create_order_split [of newId cx request itemState tableId lines st] by blast
  obtain kotInputs partIds st2 where lines: "create_lines newId (cx_menu cx) itemState orderId lines [] [] st1 = (kotInputs, partIds, st2)"
    using prod_cases3 by blast
  have tail: "(if itemState = SENT then
        bindE (if length kotInputs > 0 then sendToKitchen (cx_businessDate cx) orderId kotInputs partIds (cx_menu cx) st2 else Inr st2)
          (decrement_each ?needs)
      else Inr st2) = Inr st'"
    using run unfolding eq lines prod.case bindE_Inr_iff by blast
  have ok1: "store_ok newId st1" using store_ok_items [OF ok] st1 by simp
  note made = create_lines_kept [OF inj ok1 valid state lines]
  have counted2: "counted st2 i = counted st i" for i using made st1 by (simp add: counted_def)
  have taken2: "taken st2 i = taken st i + (if itemState = SENT then need_of ?needs i else 0)" for i
    using made [of i] st1 by (simp add: taken_def)
  show ?thesis
  proof (cases "itemState = SENT")
    case False
    then show ?thesis using made tail counted2 taken2 by (simp add: conserves_def conserves_at_def)
  next
    case True
    then obtain st3 where sent: "(if length kotInputs > 0 then sendToKitchen (cx_businessDate cx) orderId kotInputs partIds (cx_menu cx) st2 else Inr st2) = Inr st3"
      and dec: "decrement_each ?needs st3 = Inr st'" using tail by (auto simp: bindE_Inr_iff simp del: length_greater_0_conv)
    have slip: "same_but_tickets st2 st3" using sent by (auto dest: sendToKitchen_same split: if_split_asm)
    have "store_ok newId st'" using made store_ok_same [OF slip] store_ok_same_stock [OF decrement_each_same [OF dec]] by simp
    moreover have "conserves st st'"
      unfolding conserves_def conserves_at_def
    proof (intro allI impI)
      fix i n assume n: "counted st i = Some n"
      have c3: "counted st3 i = Some n" using n counted2 [of i] same_counted [OF slip, of i] by simp
      have "counted st' i = Some (n - need_of ?needs i)"
        using decrement_each_effect [OF dec order_needs_nonneg [OF valid] _ c3] fits [OF _ n] c3 by auto
      moreover have "taken st' i = taken st i + need_of ?needs i"
        using taken2 [of i] True same_counted [OF slip, of i] same_taken [OF decrement_each_same [OF dec], of i] by simp
      moreover have "need_of ?needs i \<le> n \<or> need_of ?needs i = 0" using fits [OF _ n] need_of_absent by blast
      ultimately show "\<exists>n'. counted st' i = Some n' \<and> n' + taken st' i = n + taken st i \<and> (0 \<le> n \<longrightarrow> 0 \<le> n')" by auto
    qed
    ultimately show ?thesis ..
  qed
qed

lemma stock_rejections_none:
  assumes "stock_rejections short lines = []" "i \<in> fst ` set (order_needs lines)"
  shows "i \<notin> set short"
proof -
  obtain line where line: "line \<in> set lines" "i \<in> fst ` set (line_needs line)" using assms(2) by (auto simp: order_needs_def)
  then have "i \<in> set (line_items line)" by (force simp: line_needs_def line_items_def Let_def split: if_split_asm)
  moreover have "\<not> list_ex (List.member short) (line_items line)"
    using assms(1) line(1) by (auto simp: stock_rejections_def filter_empty_conv)
  ultimately show ?thesis by (auto simp: list_ex_iff)
qed

lemma initial_state: "initialOrderItemState source = SENT \<or> initialOrderItemState source = PENDING_APPROVAL"
  by (cases source) (simp_all add: initialOrderItemState_def)

lemma submit_kept:
  assumes inj: "inj newId" and ok: "store_ok newId st"
    and contract: "menu_valid (cx_menu cx)" "\<forall>line \<in> set (so_lines request). 0 < ol_quantity line"
    and run: "submit newId z cx requestHash request st = Inr (response, st')"
  shows "store_ok newId st' \<and> conserves st st'"
proof (cases "st' = st")
  case False
  obtain rejected lines short where resolved: "resolve_lines z (cx_menu cx) (line_context cx (so_source request)) (so_lines request) = Inr (rejected, lines)"
    and short: "checkStock lines st = Inr short" and none: "rejected @ stock_rejections short lines = []"
    and made: "accept_order newId cx requestHash request lines st = Inr (response, st')"
    using run False by (auto simp: submit_def bindE_Inr_iff Let_def split: option.split_asm if_split_asm prod.split_asm)
  let ?state = "initialOrderItemState (so_source request)"
  obtain tableId mid answer last where prepared: "prepareTable request ?state (cx_tableId cx) st = Inr (tableId, mid)"
    and created: "create_order newId cx request ?state tableId lines mid = Inr (answer, last)"
    and st': "st' = last\<lparr>st_keys := (st_keys last)(so_idempotencyKey request \<mapsto>
      \<lparr>ke_requestHash = requestHash, ke_response = answer, ke_expiresAt = expires_at cx\<rparr>)\<rparr>"
    using made by (auto simp: accept_order_def bindE_Inr_iff Let_def)
  note same = prepareTable_same [OF prepared]
  have valid: "\<forall>line \<in> set lines. line_valid line" by (rule resolve_lines_valid [OF resolved contract(2,1)])
  have okm: "store_ok newId mid" using store_ok_items [OF ok] same by simp
  have "need_of (order_needs lines) i \<le> n" if "i \<in> fst ` set (order_needs lines)" "counted mid i = Some n" for i n
  proof -
    have "counted st i = Some n" using that(2) same by (simp add: counted_def)
    then show ?thesis using checkStock_ok [OF short that(1)] stock_rejections_none [OF _ that(1)] none by simp
  qed
  from create_order_kept [OF inj okm valid initial_state this created]
  have "store_ok newId last" "conserves mid last" by blast+
  moreover have "conserves st mid" using same by (intro conserves_items) auto
  moreover have "conserves last st'" by (intro conserves_items) (simp_all add: st')
  moreover have "store_ok newId st'" using \<open>store_ok newId last\<close> by (rule store_ok_items) (simp_all add: st')
  ultimately show ?thesis using conserves_trans by blast
qed (use ok in simp)

end
