(* ===== verification/Order_View.thy ===== *)
theory Order_View
  imports Order_Store
begin

text \<open>
  \<open>packages/ordering/src/order-state.ts\<close>: the state an ordering app shows for a line, from the items of the order it
  was sent, and where a kitchen ticket is.
\<close>

section \<open>The state of a line\<close>

fun VIEW_PROGRESS :: "OrderItemState \<Rightarrow> nat option" where
  "VIEW_PROGRESS PENDING_APPROVAL = Some 0"
| "VIEW_PROGRESS SENT = Some 1"
| "VIEW_PROGRESS PREPARING = Some 2"
| "VIEW_PROGRESS READY = Some 3"
| "VIEW_PROGRESS PICKED_UP = Some 4"
| "VIEW_PROGRESS SERVED = Some 5"
| "VIEW_PROGRESS _ = None"

definition view_place :: "OrderItemState \<Rightarrow> nat" where
  "view_place s = (case VIEW_PROGRESS s of None \<Rightarrow> 0 | Some n \<Rightarrow> n)"

definition displayState :: "OrderItemRow \<Rightarrow> OrderItemRow list \<Rightarrow> OrderItemState" where
  "displayState item items =
     (let parts = filter (\<lambda>part. ir_parentOrderItemId part = Some (ir_id item) \<and> VIEW_PROGRESS (ir_state part) \<noteq> None) items
      in if parts = [] \<or> VIEW_PROGRESS (ir_state item) = None then ir_state item
         else
           let least = ir_state (foldl (\<lambda>first part.
                 if view_place (ir_state part) < view_place (ir_state first) then part else first) (hd parts) (tl parts));
               started = list_ex (\<lambda>part. view_place (ir_state part) > view_place SENT) parts
           in if started \<and> view_place least < view_place PREPARING then PREPARING else least)"

section \<open>Where a ticket is\<close>

datatype PrintState = TICKET_PENDING | TICKET_PRINTED | TICKET_FAILED

record KotDelivery =
  dl_onScreen :: bool
  dl_print :: "PrintState option"
  dl_reached :: bool

text \<open>\<open>printStatus\<close> is \<^term>\<open>None\<close> when printing is not required.\<close>

definition kotDelivery :: "string \<Rightarrow> PrintState option \<Rightarrow> Station list \<Rightarrow> KotDelivery" where
  "kotDelivery stationId print stations =
     (let mode = map_option sn_mode (find (\<lambda>station. sn_id station = stationId) stations);
          onScreen = (print = None \<or> mode = Some SCREEN \<or> mode = Some BOTH)
      in \<lparr>dl_onScreen = onScreen, dl_print = print, dl_reached = onScreen \<or> print = Some TICKET_PRINTED\<rparr>)"

section \<open>The least part\<close>

lemma least_part:
  "\<exists>p \<in> set (x # xs). foldl (\<lambda>first part. if f part < (f first :: nat) then part else first) x xs = p \<and> (\<forall>q \<in> set (x # xs). f p \<le> f q)"
proof (induction xs arbitrary: x)
  case (Cons y ys)
  show ?case using Cons.IH [of "if f y < f x then y else x"] by fastforce
qed simp

end
