(* ===== verification/Order_Runs.thy ===== *)
theory Order_Runs
  imports Order_Created Order_View
begin

text \<open>
  Runs of the order engine: transactions one after the other, in any order. From a store without order items,
  whatever is done, a combo line is where its parts are, and the orders of a day have different numbers; stock and keys are kept
  by all transactions but those named.
\<close>

section \<open>Runs\<close>

text \<open>
  One transaction, with what it is. What the contracts of the routes demand of a request stands as a condition: quantities of
  new and changed lines are positive, those of an approval are not negative, and a combo of the menu has its components
  in positive quantities.
\<close>

datatype OrderAction =
    Submitting SubmitOrderRequest
  | Stepping StepActor string OrderItemEvent
  | Firing string "string list option"
  | Cancelling string
  | Voiding string
  | Modifying string
  | Approving string "ApprovalChange list"
  | Rejecting string
  | SettingStock string
  | Purging int int

inductive order_step :: "(nat \<Rightarrow> string) \<Rightarrow> OrderAction \<Rightarrow> Store \<Rightarrow> Store \<Rightarrow> bool" for newId where
  submitted: "submit newId z cx requestHash request st = Inr (response, st') \<Longrightarrow> menu_valid (cx_menu cx) \<Longrightarrow>
    \<forall>line \<in> set (so_lines request). 0 < ol_quantity line \<Longrightarrow> order_step newId (Submitting request) st st'"
| stepped: "setStatus matrix who orderItemId event st = Inr st' \<Longrightarrow> order_step newId (Stepping who orderItemId event) st st'"
| fired: "fire businessDate sendKots menu ownOnly staffId orderId orderItemIds st = Inr st' \<Longrightarrow>
    order_step newId (Firing orderId orderItemIds) st st'"
| cancelled: "cancel businessDate ownOnly staffId orderItemId st = Inr st' \<Longrightarrow> order_step newId (Cancelling orderItemId) st st'"
| voided: "void businessDate orderItemId st = Inr st' \<Longrightarrow> order_step newId (Voiding orderItemId) st st'"
| modified: "modify businessDate maxLength orderItemId newQuantity newInstructions st = Inr st' \<Longrightarrow>
    (\<And>q. newQuantity = Some q \<Longrightarrow> 0 < q) \<Longrightarrow> order_step newId (Modifying orderItemId) st st'"
| approved: "approve newId responsibleWaiter localeCompare businessDate sendKots menu approver orderId changes st = Inr st' \<Longrightarrow>
    \<forall>c \<in> set changes. 0 \<le> ch_quantity c \<Longrightarrow> order_step newId (Approving orderId changes) st st'"
| rejected: "reject approver orderId st = Inr st' \<Longrightarrow> order_step newId (Rejecting orderId) st st'"
| stock_set: "setAvailability isKitchen kitchenMayManage itemId request st = Inr st' \<Longrightarrow> order_step newId (SettingStock itemId) st st'"
| purged: "order_step newId (Purging now days) st (purge_keys (operationalBefore now days) st)"

inductive trace :: "('a \<Rightarrow> 's \<Rightarrow> 's \<Rightarrow> bool) \<Rightarrow> 'a list \<Rightarrow> 's \<Rightarrow> 's \<Rightarrow> bool" for R where
  trace_Nil: "trace R [] s s"
| trace_Cons: "R a s s' \<Longrightarrow> trace R as s' s'' \<Longrightarrow> trace R (a # as) s s''"

inductive_simps trace_simps [simp]: "trace R [] s s'" "trace R (a # as) s s'"

lemma trace_append: "trace R as s s' \<Longrightarrow> trace R bs s' s'' \<Longrightarrow> trace R (as @ bs) s s''"
  by (induction rule: trace.induct) auto

text \<open>What was done, in its order, and that something was done.\<close>

definition order_trace :: "(nat \<Rightarrow> string) \<Rightarrow> OrderAction list \<Rightarrow> Store \<Rightarrow> Store \<Rightarrow> bool" where
  "order_trace newId = trace (order_step newId)"

definition order_run :: "(nat \<Rightarrow> string) \<Rightarrow> Store \<Rightarrow> Store \<Rightarrow> bool" where
  "order_run newId st st' \<longleftrightarrow> (\<exists>actions. order_trace newId actions st st')"

lemma order_trace_Nil: "order_trace newId [] st st"
  by (simp add: order_trace_def)

lemma order_trace_Cons: "order_step newId a st mid \<Longrightarrow> order_trace newId as mid st' \<Longrightarrow> order_trace newId (a # as) st st'"
  by (auto simp: order_trace_def)

lemma order_trace_append: "order_trace newId as st mid \<Longrightarrow> order_trace newId bs mid st' \<Longrightarrow> order_trace newId (as @ bs) st st'"
  unfolding order_trace_def by (rule trace_append)

lemma order_trace_run: "order_trace newId as st st' \<Longrightarrow> order_run newId st st'"
  by (auto simp: order_run_def)

lemma run_refl: "order_run newId st st"
  using order_trace_Nil order_run_def by blast

lemma run_step: "order_run newId st mid \<Longrightarrow> order_step newId a mid st' \<Longrightarrow> order_run newId st st'"
  unfolding order_run_def using order_trace_append order_trace_Cons order_trace_Nil by blast

lemma run_trans: "order_run newId st mid \<Longrightarrow> order_run newId mid st' \<Longrightarrow> order_run newId st st'"
  unfolding order_run_def using order_trace_append by blast

text \<open>
  What each allowed transaction promises of the store before and after it, every run of them promises: an invariant and a
  relation that is reflexive and transitive.
\<close>

locale transactions =
  fixes trans :: "'a \<Rightarrow> 's \<Rightarrow> 's \<Rightarrow> bool" and allowed :: "'a \<Rightarrow> bool" and inv :: "'s \<Rightarrow> bool" and grows :: "'s \<Rightarrow> 's \<Rightarrow> bool"
  assumes kept: "trans a s s' \<Longrightarrow> allowed a \<Longrightarrow> inv s \<Longrightarrow> inv s' \<and> grows s s'"
    and grows_refl: "grows s s"
    and grows_trans: "grows s s' \<Longrightarrow> grows s' s'' \<Longrightarrow> grows s s''"
begin

lemma trace_kept: "trace trans as s s' \<Longrightarrow> \<forall>a \<in> set as. allowed a \<Longrightarrow> inv s \<Longrightarrow> inv s' \<and> grows s s'"
proof (induction rule: trace.induct)
  case (trace_Nil s)
  then show ?case using grows_refl by simp
next
  case (trace_Cons a s s' as s'')
  then show ?case using kept [of a s s'] grows_trans by auto
qed

end

text \<open>
  A person may say how much is left of an item, whatever it was; and an approval that changes a line twice can send another quantity
  than the row keeps. All other transactions keep the balance of an item's stock.
\<close>

fun keeps_balance :: "string \<Rightarrow> OrderAction \<Rightarrow> bool" where
  "keeps_balance i (Approving orderId changes) = distinct (map ch_orderItemId changes)"
| "keeps_balance i (SettingStock itemId) = (itemId \<noteq> i)"
| "keeps_balance i a = True"

lemma setAvailability_effect:
  assumes "setAvailability isKitchen kitchenMayManage itemId request st = Inr st'"
  shows "st_items st' = st_items st \<and> st_issued st' = st_issued st \<and> (\<forall>i. i \<noteq> itemId \<longrightarrow> st_stock st' i = st_stock st i) \<and>
    st_keys st' = st_keys st \<and> st_orders st' = st_orders st \<and> st_counters st' = st_counters st"
  using assms by (auto simp: setAvailability_def bindE_Inr_iff Let_def split: if_split_asm)

lemma purge_keys_sel [simp]:
  "st_items (purge_keys before st) = st_items st" "st_stock (purge_keys before st) = st_stock st"
  "st_issued (purge_keys before st) = st_issued st" "st_orders (purge_keys before st) = st_orders st"
  "st_counters (purge_keys before st) = st_counters st"
  by (simp_all add: purge_keys_def)

lemma order_step_kept:
  assumes "order_step newId a st st'" "inj newId" "store_ok newId st"
  shows "store_ok newId st' \<and> (keeps_balance i a \<longrightarrow> conserves_at i st st') \<and> (a \<noteq> SettingStock i \<longrightarrow> stays_counted i st st')"
  using assms
proof (cases rule: order_step.cases)
  case submitted
  then show ?thesis using submit_kept assms(2,3) conserves_stays_counted unfolding conserves_def by blast
next
  case stepped
  then show ?thesis using setStatus_kept assms(3) conserves_stays_counted unfolding conserves_def by blast
next
  case fired
  then show ?thesis using fire_kept assms(3) conserves_stays_counted unfolding conserves_def by blast
next
  case cancelled
  then show ?thesis using cancel_kept assms(3) conserves_stays_counted unfolding conserves_def by blast
next
  case voided
  then show ?thesis using void_kept assms(3) conserves_stays_counted unfolding conserves_def by blast
next
  case modified
  then show ?thesis using modify_kept assms(3) conserves_stays_counted unfolding conserves_def by blast
next
  case approved
  from approve_kept [OF assms(3) approved(3,2)] show ?thesis unfolding conserves_def approved(1) by simp
next
  case rejected
  then show ?thesis using reject_kept assms(3) conserves_stays_counted unfolding conserves_def by blast
next
  case (stock_set isKitchen kitchenMayManage itemId request)
  note same = setAvailability_effect [OF stock_set(2)]
  have "store_ok newId st'" using store_ok_items [OF assms(3)] same by simp
  then show ?thesis using same by (auto simp: stock_set(1) conserves_at_def stays_counted_def counted_def taken_def)
next
  case (purged now days)
  then show ?thesis using store_ok_items [OF assms(3), of st'] conserves_items [of st' st]
    by (simp add: conserves_def conserves_stays_counted)
qed

interpretation stock_runs: transactions "order_step newId" "keeps_balance i" "\<lambda>st. inj newId \<and> store_ok newId st" "conserves_at i"
  by unfold_locales (auto dest: order_step_kept intro: conserves_at_trans)

interpretation count_runs: transactions "order_step newId" "\<lambda>a. a \<noteq> SettingStock i" "\<lambda>st. inj newId \<and> store_ok newId st" "stays_counted i"
  by unfold_locales (auto dest: order_step_kept intro: stays_counted_trans simp: stays_counted_def)

interpretation row_runs: transactions "order_step newId" "\<lambda>_. True" "\<lambda>st. inj newId \<and> store_ok newId st" "\<lambda>_ _. True"
  by unfold_locales (auto dest: order_step_kept)

lemma order_run_kept: "order_run newId st st' \<Longrightarrow> inj newId \<Longrightarrow> store_ok newId st \<Longrightarrow> store_ok newId st'"
  using row_runs.trace_kept [of newId _ st st'] by (auto simp: order_run_def order_trace_def)

lemma order_trace_balance:
  assumes "order_trace newId actions st st'" "inj newId" "store_ok newId st" "\<forall>a \<in> set actions. keeps_balance i a"
  shows "conserves_at i st st'"
  using stock_runs.trace_kept [of newId actions st st' i] assms by (simp add: order_trace_def)

lemma order_trace_counted:
  assumes "order_trace newId actions st st'" "inj newId" "store_ok newId st" "SettingStock i \<notin> set actions"
  shows "stays_counted i st st'"
  using count_runs.trace_kept [of newId actions st st' i] assms by (auto simp: order_trace_def)

lemma no_items_ok: "st_items st = [] \<Longrightarrow> store_ok newId st"
  by (simp add: store_ok_def rows_ok_def)

section \<open>What only a submission changes\<close>

definition quiet :: "Store \<Rightarrow> Store \<Rightarrow> bool" where
  "quiet st st' \<longleftrightarrow> st_keys st' = st_keys st \<and> numbers_of st' = numbers_of st \<and>
     (\<forall>d. st_counters st' (d, ORDER_NUMBER) = st_counters st (d, ORDER_NUMBER))"

lemma quiet_refl [simp]: "quiet st st"
  by (simp add: quiet_def)

lemma quiet_trans: "quiet st st' \<Longrightarrow> quiet st' st'' \<Longrightarrow> quiet st st''"
  by (simp add: quiet_def)

lemma quiet_on_items [simp]: "quiet st (on_items f st)"
  by (simp add: quiet_def numbers_of_def on_items_def)

lemma quiet_update_item [simp]: "quiet st (update_item i f st)"
  by (simp add: update_item_on_items)

lemma quiet_ticket: "quiet st (add_ticket businessDate orderId kind stationId mode lines st)"
  by (simp add: quiet_def numbers_of_def add_ticket_def allocateDailyNumber_def Let_def)

lemma quiet_drafts: "quiet st (add_drafts businessDate orderId menu partIds drafts st)"
  by (induction drafts arbitrary: st) (auto intro: quiet_trans [OF quiet_ticket])

lemma quiet_sent: "sendToKitchen businessDate orderId inputs partIds menu st = Inr st' \<Longrightarrow> quiet st st'"
  by (auto simp: sendToKitchen_def bindE_Inr_iff quiet_drafts)

lemma quiet_slips: "add_slips businessDate orderId kind stations st = Inr st' \<Longrightarrow> quiet st st'"
proof (induction businessDate orderId kind stations st rule: add_slips.induct)
  case (2 businessDate orderId kind stationId lines stations st)
  then show ?case by (auto intro: quiet_trans [OF quiet_ticket] split: option.splits)
qed simp

lemma quiet_slip: "slip businessDate orderId kind lines st = Inr st' \<Longrightarrow> quiet st st'"
  by (auto simp: slip_def intro: quiet_slips)

lemma quiet_set_stock: "set_stock itemId available n r st = Inr st' \<Longrightarrow> quiet st st'"
  by (auto simp: set_stock_def quiet_def numbers_of_def split: if_split_asm)

lemma quiet_decrement: "decrementStock itemId q st = Inr st' \<Longrightarrow> quiet st st'"
  by (auto simp: decrementStock_def bindE_Inr_iff Let_def dest: quiet_set_stock split: option.split_asm)

lemma quiet_restore: "restoreStock itemId q st = Inr st' \<Longrightarrow> quiet st st'"
  by (auto simp: restoreStock_def bindE_Inr_iff dest: quiet_set_stock split: option.split_asm)

lemma quiet_decrement_each: "decrement_each needs st = Inr st' \<Longrightarrow> quiet st st'"
proof (induction needs arbitrary: st)
  case (Cons need needs)
  then show ?case by (cases need) (auto simp: bindE_Inr_iff intro: quiet_trans dest: quiet_decrement)
qed simp

lemma quiet_restore_each: "restore_each needs st = Inr st' \<Longrightarrow> quiet st st'"
proof (induction needs arbitrary: st)
  case (Cons need needs)
  then show ?case by (cases need) (auto simp: bindE_Inr_iff intro: quiet_trans dest: quiet_restore)
qed simp

lemma quiet_steps: "step_rows event rows st = Inr st' \<Longrightarrow> quiet st st'"
  by (auto dest: step_rows_effect)

lemma quiet_ended: "end_rows ended st = Inr st' \<Longrightarrow> quiet st st'"
  by (auto dest: end_rows_effect)

lemma quiet_follow: "follow parentId st = Inr st' \<Longrightarrow> quiet st st'"
  by (auto simp: follow_def Let_def bindE_Inr_iff split: option.split_asm if_split_asm)

lemma quiet_setStatus: "setStatus matrix who orderItemId event st = Inr st' \<Longrightarrow> quiet st st'"
  by (auto simp: setStatus_def bindE_Inr_iff simp del: step_rows.simps split: option.split_asm if_split_asm
      dest!: quiet_steps quiet_follow intro: quiet_trans)

lemma quiet_end_and_restore: "end_and_restore businessDate item event st = Inr st' \<Longrightarrow> quiet st st'"
  by (auto simp: end_and_restore_def end_line_def bindE_Inr_iff Let_def simp del: end_rows.simps split: if_split_asm
      dest!: quiet_ended quiet_slip quiet_restore_each intro: quiet_trans)

lemma quiet_cancel: "cancel businessDate ownOnly staffId orderItemId st = Inr st' \<Longrightarrow> quiet st st'"
  by (auto simp: cancel_def bindE_Inr_iff split: option.split_asm dest: quiet_end_and_restore)

lemma quiet_void: "void businessDate orderItemId st = Inr st' \<Longrightarrow> quiet st st'"
  by (auto simp: void_def bindE_Inr_iff split: option.split_asm if_split_asm dest: quiet_end_and_restore)

lemma quiet_change_stock: "change_stock item q st = Inr st' \<Longrightarrow> quiet st st'"
  by (auto simp: change_stock_def bindE_Inr_iff split: if_split_asm dest: quiet_decrement quiet_restore)

lemma quiet_modify: "modify businessDate maxLength orderItemId newQuantity newInstructions st = Inr st' \<Longrightarrow> quiet st st'"
  by (auto simp: modify_def bindE_Inr_iff Let_def split: option.split_asm if_split_asm
      dest!: quiet_slip quiet_change_stock intro: quiet_trans quiet_trans [OF quiet_trans [OF _ quiet_update_item]])

lemma quiet_fire_lines: "fire_lines ownOnly staffId ids inputs partIds st = Inr (inputs', partIds', st') \<Longrightarrow> quiet st st'"
proof (induction ids arbitrary: inputs partIds st)
  case (Cons i ids)
  then show ?case
    by (auto simp: bindE_Inr_iff Let_def simp del: step_rows.simps filter.simps split: option.split_asm
        dest!: quiet_steps intro: quiet_trans)
qed simp

lemma quiet_fire: "fire businessDate sendKots menu ownOnly staffId orderId orderItemIds st = Inr st' \<Longrightarrow> quiet st st'"
  by (auto simp: fire_def bindE_Inr_iff Let_def split: if_split_asm dest!: quiet_fire_lines quiet_sent intro: quiet_trans)

lemma quiet_update_order:
  assumes "\<And>order. or_id order = i \<Longrightarrow> order \<in> set (st_orders st) \<Longrightarrow>
    or_businessDate (f order) = or_businessDate order \<and> or_orderNumber (f order) = or_orderNumber order"
  shows "quiet st (update_order i f st)"
  using assms by (auto simp: quiet_def numbers_of_def update_order_def)

lemma quiet_reject: "reject approver orderId st = Inr st' \<Longrightarrow> quiet st st'"
proof -
  assume run: "reject approver orderId st = Inr st'"
  then obtain waiting mid where "step_rows REJECT (with_parts (st_items st) waiting) st = Inr mid" "st' = closeIfEnded orderId mid"
    by (auto simp: reject_def waitingLines_def bindE_Inr_iff reject_lines_steps split: if_split_asm)
  moreover have "quiet mid (closeIfEnded orderId mid)"
    by (simp add: closeIfEnded_def Let_def quiet_update_order)
  ultimately show ?thesis using quiet_trans quiet_steps by blast
qed

lemma quiet_open:
  assumes "open_if_needed newId responsibleWaiter approverId order st = Inr (order', st')"
  shows "quiet st st'"
  using assms
  by (auto simp: open_if_needed_def openTableForOrder_def fresh_def bindE_Inr_iff Let_def
      split: option.split_asm if_split_asm prod.split_asm intro!: quiet_trans [OF _ quiet_update_order])
    (simp_all add: quiet_def numbers_of_def)

lemma quiet_part_quantities: "quiet st (set_part_quantities line q parts st)"
  unfolding set_part_quantities_def
proof (induction parts arbitrary: st)
  case (Cons p parts)
  show ?case using quiet_trans [OF quiet_update_item Cons.IH] by simp
qed simp

lemma quiet_changes: "applyChanges loaded waiting changes removed st = Inr (removed', st') \<Longrightarrow> quiet st st'"
proof (induction changes arbitrary: removed st)
  case (Cons c changes)
  then show ?case
    by (auto simp: bindE_Inr_iff reject_line_def simp del: step_rows.simps split: option.split_asm if_split_asm
        dest!: quiet_steps intro: quiet_trans quiet_trans [OF quiet_trans [OF quiet_update_item quiet_part_quantities]])
qed simp

lemma quiet_bill: "addToBill order st = Inr st' \<Longrightarrow> quiet st st'"
  by (auto simp: addToBill_def bindE_Inr_iff quiet_def numbers_of_def split: option.split_asm if_split_asm)

lemma quiet_approve:
  assumes "approve newId responsibleWaiter localeCompare businessDate sendKots menu approver orderId changes st = Inr st'"
  shows "quiet st st'"
proof -
  obtain order order' loaded waiting removed mid lines where
      "open_if_needed newId responsibleWaiter (ap_staffId approver) order st = Inr (order', loaded)"
      "applyChanges loaded waiting changes [] loaded = Inr (removed, mid)"
      "send_approved localeCompare businessDate menu order' lines mid = Inr st'"
    using assms by (auto simp: approve_def bindE_Inr_iff Let_def split: if_split_asm)
  moreover have "quiet mid st'" if run: "send_approved localeCompare businessDate menu order' lines mid = Inr st'"
  proof -
    obtain partIds stepped told paid where "approve_rows lines [] mid = Inr (partIds, stepped)"
        "sendToKitchen businessDate (or_id order') (map approved_input lines) partIds menu stepped = Inr told"
        "decrement_each (need_pairs (concat (map approved_needs lines))) told = Inr paid" "addToBill order' paid = Inr st'"
      using run by (auto simp: send_approved_def bindE_Inr_iff)
    then show ?thesis using approve_rows_steps quiet_steps quiet_sent quiet_decrement_each quiet_bill quiet_trans by meson
  qed
  ultimately show ?thesis using quiet_open quiet_changes quiet_trans by meson
qed

lemma order_step_quiet:
  assumes "order_step newId a st st'"
  shows "quiet st st' \<or> (\<exists>z cx requestHash request response. submit newId z cx requestHash request st = Inr (response, st')) \<or>
    (\<exists>now days. a = Purging now days \<and> st' = purge_keys (operationalBefore now days) st)"
  using assms
proof (cases rule: order_step.cases)
  case (stock_set isKitchen kitchenMayManage itemId request)
  from setAvailability_effect [OF stock_set(2)] show ?thesis by (simp add: quiet_def numbers_of_def)
qed (auto dest: quiet_setStatus quiet_fire quiet_cancel quiet_void quiet_modify quiet_approve quiet_reject)

section \<open>What a submission changes\<close>

lemma quiet_create_lines:
  "create_lines newId menu itemState orderId lines inputs partIds st = (inputs', partIds', st') \<Longrightarrow> quiet st st'"
proof (induction lines arbitrary: inputs partIds st)
  case (Cons line lines)
  let ?l = "parent_row menu itemState orderId (newId (st_issued st)) line"
  let ?st1 = "add_item ?l (st\<lparr>st_issued := Suc (st_issued st)\<rparr>)"
  obtain inputs1 partIds1 where "create_lines newId menu itemState orderId lines inputs1 partIds1
      (snd (create_parts newId ?l (rl_components line) partIds ?st1)) = (inputs', partIds', st')"
    using Cons.prems by (auto simp: fresh_def Let_def split: prod.splits)
  moreover have "quiet st (snd (create_parts newId ?l (rl_components line) partIds ?st1))"
    by (simp add: create_parts_rows add_item_def quiet_def numbers_of_def)
  ultimately show ?case using Cons.IH quiet_trans by blast
qed simp

lemma prepareTable_quiet: "prepareTable request itemState tableId st = Inr (tableId', st') \<Longrightarrow> quiet st st'"
  by (auto simp: prepareTable_def bindE_Inr_iff quiet_def numbers_of_def split: option.split_asm if_split_asm)

definition numbered :: "Store \<Rightarrow> IsoDate \<Rightarrow> int \<Rightarrow> Store \<Rightarrow> bool" where
  "numbered st date n st' \<longleftrightarrow> numbers_of st' = numbers_of st @ [(date, n)] \<and> n = st_counters st (date, ORDER_NUMBER) + 1 \<and>
     (\<forall>d. st_counters st' (d, ORDER_NUMBER) = (if d = date then n else st_counters st (d, ORDER_NUMBER)))"

lemma numbered_quiet: "quiet st mid \<Longrightarrow> numbered mid date n st' \<Longrightarrow> numbered st date n st'"
  "numbered st date n mid \<Longrightarrow> quiet mid st' \<Longrightarrow> numbered st date n st'"
  by (simp_all add: quiet_def numbered_def)

lemma create_order_numbered:
  assumes "create_order newId cx request itemState tableId lines st = Inr (response, st')"
  shows "ac_replayed response = False \<and> st_keys st' = st_keys st \<and> (\<exists>n. numbered st (cx_businessDate cx) n st')"
proof -
  obtain orderId n st1 where eq: "create_order newId cx request itemState tableId lines st =
     (case create_lines newId (cx_menu cx) itemState orderId lines [] [] st1 of (kotInputs, partIds, st2) \<Rightarrow>
        bindE (if itemState = SENT then
            bindE (if length kotInputs > 0 then sendToKitchen (cx_businessDate cx) orderId kotInputs partIds (cx_menu cx) st2 else Inr st2)
              (decrement_each (order_needs lines))
          else Inr st2) (\<lambda>st.
        Inr (\<lparr>ac_orderId = orderId, ac_orderNumber = n,
              ac_itemState = (if itemState = SENT \<and> length kotInputs = 0 then HELD else itemState), ac_replayed = False\<rparr>, st)))"
    and st1: "st_keys st1 = st_keys st" "numbered st (cx_businessDate cx) n st1"
    using create_order_split [of newId cx request itemState tableId lines st] unfolding numbered_def by blast
  obtain kotInputs partIds st2 where lines: "create_lines newId (cx_menu cx) itemState orderId lines [] [] st1 = (kotInputs, partIds, st2)"
    using prod_cases3 by blast
  have tail: "(if itemState = SENT then
        bindE (if length kotInputs > 0 then sendToKitchen (cx_businessDate cx) orderId kotInputs partIds (cx_menu cx) st2 else Inr st2)
          (decrement_each (order_needs lines))
      else Inr st2) = Inr st'"
    and response: "ac_replayed response = False"
    using assms unfolding eq lines prod.case bindE_Inr_iff by auto
  have "quiet st2 st'"
    using tail by (auto simp: bindE_Inr_iff split: if_split_asm dest!: quiet_sent quiet_decrement_each intro: quiet_trans)
  then have "quiet st1 st'" using quiet_trans quiet_create_lines [OF lines] by blast
  then show ?thesis using response st1(1) numbered_quiet(2) [OF st1(2)] by (auto simp: quiet_def)
qed

text \<open>A submission is the order of its key, or its answer again, or a list of lines that cannot be taken.\<close>

lemma submit_effect:
  assumes "submit newId z cx requestHash request st = Inr (response, st')"
  shows "(st' = st \<and> (\<forall>a. response = ACCEPTED a \<longrightarrow>
      (\<exists>r. st_keys st (so_idempotencyKey request) = Some r \<and> ke_requestHash r = requestHash \<and>
        a = (ke_response r)\<lparr>ac_replayed := True\<rparr>))) \<or>
    (\<exists>a n. response = ACCEPTED a \<and> \<not> ac_replayed a \<and> st_keys st (so_idempotencyKey request) = None \<and>
      st_keys st' = (st_keys st)(so_idempotencyKey request \<mapsto>
        \<lparr>ke_requestHash = requestHash, ke_response = a, ke_expiresAt = expires_at cx\<rparr>) \<and> numbered st (cx_businessDate cx) n st')"
proof (cases "st_keys st (so_idempotencyKey request)")
  case (Some r)
  then show ?thesis using assms
    by (auto simp: submit_def split: option.split_asm if_split_asm)
next
  case None
  show ?thesis
  proof (cases "\<exists>rejected. response = PARTIALLY_REJECTED rejected")
    case True
    then show ?thesis using assms None
      by (auto simp: submit_def accept_order_def bindE_Inr_iff Let_def split: option.split_asm if_split_asm prod.split_asm)
  next
    case False
    then obtain lines where "accept_order newId cx requestHash request lines st = Inr (response, st')"
      using assms None by (auto simp: submit_def bindE_Inr_iff Let_def split: option.split_asm if_split_asm prod.split_asm)
    then obtain tableId mid a after where prepared: "prepareTable request (initialOrderItemState (so_source request)) (cx_tableId cx) st = Inr (tableId, mid)"
      and created: "create_order newId cx request (initialOrderItemState (so_source request)) tableId lines mid = Inr (a, after)"
      and st': "response = ACCEPTED a" "st' = after\<lparr>st_keys := (st_keys after)(so_idempotencyKey request \<mapsto>
        \<lparr>ke_requestHash = requestHash, ke_response = a, ke_expiresAt = expires_at cx\<rparr>)\<rparr>"
      by (auto simp: accept_order_def bindE_Inr_iff Let_def)
    have first: "quiet st mid" using prepareTable_quiet [OF prepared] .
    obtain n where "numbered st (cx_businessDate cx) n after" and keys: "st_keys after = st_keys st" "\<not> ac_replayed a"
      using create_order_numbered [OF created] numbered_quiet(1) [OF first] first by (auto simp: quiet_def)
    then have "numbered st (cx_businessDate cx) n st'" by (simp add: numbered_def numbers_of_def st')
    then show ?thesis using None keys st' by auto
  qed
qed

text \<open>A key keeps its answer until its time is over, and numbers stay within those counted.\<close>

fun leaves :: "IdempotencyRecord \<Rightarrow> OrderAction \<Rightarrow> bool" where
  "leaves r (Purging now days) = (\<not> expired (operationalBefore now days) r)"
| "leaves r a = True"

definition remembers :: "string \<Rightarrow> IdempotencyRecord \<Rightarrow> Store \<Rightarrow> Store \<Rightarrow> bool" where
  "remembers key r st st' \<longleftrightarrow> (st_keys st key = Some r \<longrightarrow> st_keys st' key = Some r)"

definition numbers_ok :: "Store \<Rightarrow> bool" where
  "numbers_ok st \<longleftrightarrow> distinct (numbers_of st) \<and> (\<forall>(d, n) \<in> set (numbers_of st). n \<le> st_counters st (d, ORDER_NUMBER))"

lemma order_step_numbers:
  assumes "order_step newId a st st'" "numbers_ok st"
  shows "numbers_ok st'"
proof -
  consider "quiet st st'" | d n where "numbered st d n st'" | before where "st' = purge_keys before st"
    using order_step_quiet [OF assms(1)] submit_effect by (metis quiet_refl)
  then show ?thesis
  proof cases
    case 1
    then show ?thesis using assms(2) by (simp add: quiet_def numbers_ok_def)
  next
    case 2
    then show ?thesis using assms(2) by (fastforce simp: numbered_def numbers_ok_def)
  next
    case 3
    then show ?thesis using assms(2) by (simp add: numbers_ok_def numbers_of_def)
  qed
qed

interpretation number_runs: transactions "order_step newId" "\<lambda>_. True" numbers_ok "\<lambda>_ _. True"
  by unfold_locales (auto dest: order_step_numbers)

lemma order_step_remembers:
  assumes "order_step newId a st st'" "leaves r a"
  shows "remembers key r st st'"
proof -
  consider "quiet st st'" | k e where "st_keys st k = None" "st_keys st' = (st_keys st)(k \<mapsto> e)"
    | now days where "a = Purging now days" "st' = purge_keys (operationalBefore now days) st"
    using order_step_quiet [OF assms(1)] submit_effect by (metis quiet_refl)
  then show ?thesis using assms(2) by cases (auto simp: quiet_def remembers_def purge_keys_def)
qed

interpretation key_runs: transactions "order_step newId" "leaves r" "\<lambda>_. True" "remembers key r"
  by unfold_locales (auto dest: order_step_remembers simp: remembers_def)

lemma keys_stay:
  assumes "order_trace newId actions st st'" "st_keys st key = Some r" "\<forall>a \<in> set actions. leaves r a"
  shows "st_keys st' key = Some r"
  using key_runs.trace_kept [of newId actions st st' r key] assms by (auto simp: order_trace_def remembers_def)

lemma numbers_kept: "order_run newId st st' \<Longrightarrow> numbers_ok st \<Longrightarrow> numbers_ok st'"
  using number_runs.trace_kept [of newId _ st st'] by (auto simp: order_run_def order_trace_def)

section \<open>The state shown\<close>

lemma view_place_simps [simp]:
  "view_place PENDING_APPROVAL = 0" "view_place SENT = 1" "view_place PREPARING = 2" "view_place READY = 3"
  "view_place PICKED_UP = 4" "view_place SERVED = 5"
  by (simp_all add: view_place_def)

lemma view_progress: "PROGRESS s \<noteq> None \<Longrightarrow> VIEW_PROGRESS s \<noteq> None \<and> view_place s = Suc (place s)"
  by (cases s) simp_all

lemma order_parts:
  assumes "rows_ok rows" "l \<in> set rows"
  shows "filter (\<lambda>p. ir_parentOrderItemId p = Some (ir_id l) \<and> P p) (filter (\<lambda>r. ir_orderId r = ir_orderId l) rows) =
    filter P (parts_in rows (ir_id l))"
  unfolding parts_in_def filter_filter
proof (rule filter_cong [OF refl])
  fix p assume p: "p \<in> set rows"
  show "(ir_orderId p = ir_orderId l \<and> ir_parentOrderItemId p = Some (ir_id l) \<and> P p) =
      (ir_parentOrderItemId p = Some (ir_id l) \<and> P p)"
    using rows_okD(5) [OF assms(1) p] rows_okD(4) [OF assms(1) _ assms(2)] by metis
qed

lemma displayed:
  assumes rok: "rows_ok rows" and l: "l \<in> set rows"
  shows "displayState l (filter (\<lambda>r. ir_orderId r = ir_orderId l) rows) = ir_state l"
proof (cases "ir_parentOrderItemId l")
  case (Some i)
  then show ?thesis using part_has_no_parts [OF rok l Some] unfolding displayState_def order_parts [OF rok l] by simp
next
  case None
  let ?ps = "parts_in rows (ir_id l)"
  let ?live = "filter (\<lambda>p. VIEW_PROGRESS (ir_state p) \<noteq> None) ?ps"
  show ?thesis
  proof (cases "?live = [] \<or> VIEW_PROGRESS (ir_state l) = None")
    case True
    then show ?thesis unfolding displayState_def order_parts [OF rok l] Let_def by (simp only: if_True)
  next
    case False
    obtain first rest where live: "?live = first # rest" using False by (cases ?live) auto
    let ?least = "foldl (\<lambda>first part. if view_place (ir_state part) < view_place (ir_state first) then part else first) first rest"
    have least: "?least \<in> set ?live" "\<forall>q \<in> set ?live. view_place (ir_state ?least) \<le> view_place (ir_state q)"
      using least_part [of first rest "\<lambda>p. view_place (ir_state p)"] unfolding live by blast+
    have shown: "displayState l (filter (\<lambda>r. ir_orderId r = ir_orderId l) rows) =
        (if list_ex (\<lambda>p. view_place (ir_state p) > 1) ?live \<and> view_place (ir_state ?least) < 2 then PREPARING else ir_state ?least)"
      using False unfolding displayState_def order_parts [OF rok l] Let_def live by (simp only: if_False list.sel view_place_simps)
    have step: "in_step (ir_state l) (map ir_state ?ps)" using rows_okD(6) [OF rok l None] .
    have ne: "map ir_state ?ps \<noteq> []" using False by auto
    consider "ir_state l = PENDING_APPROVAL" "\<forall>p \<in> set ?ps. ir_state p = PENDING_APPROVAL"
      | "PROGRESS (ir_state l) \<noteq> None" "\<forall>p \<in> set ?ps. PROGRESS (ir_state p) \<noteq> None"
        "ir_state l = follow_target (map place (map ir_state ?ps))"
      using step ne False by (auto simp: in_step_def image_subset_iff)
    then show ?thesis
    proof cases
      case 1
      then show ?thesis using least(1) unfolding shown by (auto simp: list_ex_iff)
    next
      case 2
      then have all: "?live = ?ps" using view_progress by (auto simp: filter_id_conv)
      let ?S = "set (map place (map ir_state ?ps))"
      have lp: "?least \<in> set ?ps" "\<forall>q \<in> set ?ps. place (ir_state ?least) \<le> place (ir_state q)"
        using least 2(2) view_progress unfolding all by auto
      have min: "Min ?S = place (ir_state ?least)" using lp by (intro Min_eqI) auto
      have fin: "finite ?S" "?S \<noteq> {}" using ne by auto
      have max: "Max ?S > 0 \<longleftrightarrow> (\<exists>q \<in> set ?ps. 0 < place (ir_state q))"
        unfolding Max_gr_iff [OF fin] by simp
      have "place (ir_state l) = max (place (ir_state ?least)) (if \<exists>q \<in> set ?ps. 0 < place (ir_state q) then 1 else 0)"
        using place_follow_target(1) [of "map place (map ir_state ?ps)"] ne place_bound unfolding 2(3) [symmetric] min max by auto
      moreover have "list_ex (\<lambda>p. view_place (ir_state p) > 1) ?live \<longleftrightarrow> (\<exists>q \<in> set ?ps. 0 < place (ir_state q))"
        using 2(2) view_progress unfolding all by (auto simp: list_ex_iff)
      moreover have "PROGRESS (ir_state ?least) \<noteq> None" "view_place (ir_state ?least) = Suc (place (ir_state ?least))"
        using lp(1) 2(2) view_progress by auto
      ultimately show ?thesis unfolding shown
        using place_inj [OF 2(1), of PREPARING] place_inj [OF 2(1), of "ir_state ?least"] by (auto simp: max_def split: if_splits)
    qed
  qed
qed

end
