(* ===== verification/Order_Engine.thy ===== *)
theory Order_Engine
  imports Order_Runs
begin

text \<open>
  What the order engine promises, with a small restaurant in which it can be seen at work.
\<close>

section \<open>A small restaurant\<close>

definition dish :: "string \<Rightarrow> Paise \<Rightarrow> MenuItem" where
  "dish i price =
     \<lparr>mi_id = i, mi_name = i, mi_basePrice = price, mi_taxGroupId = ''gst5'', mi_stationId = ''kitchen'', mi_timeWindow = None,
      mi_available = True, mi_stockCount = None, mi_channels = [CH_POS], mi_variants = [], mi_modifierGroupIds = [],
      mi_archived = False\<rparr>"

definition small_menu :: MenuSnapshot where
  "small_menu =
     \<lparr>ms_items = [dish ''meal'' 20000, dish ''rice'' 6000, dish ''roti'' 1500], ms_modifierGroups = [],
      ms_combos = [\<lparr>co_itemId = ''meal'', co_components = [FIXED ''rice'' 1, FIXED ''roti'' 2], co_activeFrom = None,
        co_activeUntil = None, co_timeWindow = None\<rparr>],
      ms_taxGroups = [], ms_stations = []\<rparr>"

definition meal_request :: OrderLineRequest where
  "meal_request =
     \<lparr>ol_clientLineId = ''l1'', ol_itemId = ''meal'', ol_quantity = 2, ol_variantId = None, ol_modifiers = [],
      ol_comboChoices = None, ol_instructions = None, ol_hold = None\<rparr>"

definition meal_order :: SubmitOrderRequest where
  "meal_order =
     \<lparr>so_idempotencyKey = ''key'', so_source = POS, so_orderType = TAKEAWAY, so_tableSessionId = None,
      so_lines = [meal_request], so_orderNote = None\<rparr>"

definition small_context :: SubmitContext where
  "small_context =
     \<lparr>cx_staffId = Some ''asha'', cx_tableId = None, cx_menu = small_menu, cx_maxLength = 140, cx_holdAndFire = True,
      cx_createOrders = True, cx_timeZone = ''UTC'', cx_now = Some 0, cx_businessDate = ''2025-01-31''\<rparr>"

definition stocked :: "int \<Rightarrow> StockRow" where
  "stocked n = \<lparr>sk_available = True, sk_trackStock = True, sk_stockLevel = Some n\<rparr>"

definition morning :: Store where
  "morning =
     \<lparr>st_issued = 0, st_orders = [], st_items = [], st_kots = [], st_stock = [''rice'' \<mapsto> stocked 5, ''roti'' \<mapsto> stocked 9],
      st_counters = (\<lambda>_. 0), st_keys = (\<lambda>_. None), st_tables = (\<lambda>_. None), st_sessions = [],
      st_stations = [''kitchen'' \<mapsto> SCREEN]\<rparr>"

definition ids :: "nat \<Rightarrow> string" where
  "ids n = replicate n CHR ''x''"

lemma inj_ids: "inj ids"
  by (rule injI) (metis ids_def length_replicate)

definition meal_line :: ResolvedOrderLine where
  "meal_line =
     \<lparr>rl_request = meal_request, rl_item = dish ''meal'' 20000, rl_variantName = None, rl_modifiers = [], rl_unitPrice = 20000,
      rl_components = [(dish ''rice'' 6000, 1), (dish ''roti'' 1500, 2)]\<rparr>"

lemma meal_found: "map_of (items_by_id small_menu) ''meal'' = Some (dish ''meal'' 20000)"
  by code_simp

lemma meal_no_problem: "item_problem (\<lambda>_ _. []) (line_context small_context POS) (dish ''meal'' 20000) meal_request = Inr None"
  by code_simp

lemma meal_valid: "validateSelection (selectable small_menu (dish ''meal'' 20000)) (line_selection meal_request) = []"
  by code_simp

lemma meal_combo: "resolve_combo (\<lambda>_ _. []) (line_context small_context POS) small_menu (dish ''meal'' 20000) meal_request =
    Inr (Inr (rl_components meal_line))"
  by code_simp

lemma meal_price: "unitPriceOf (selectable small_menu (dish ''meal'' 20000)) (line_selection meal_request) = Inr 20000"
  by code_simp

lemma meal_modifiers: "line_modifiers (groups_of small_menu (dish ''meal'' 20000)) meal_request = []"
  by code_simp

lemma meal_variant: "variant_name (dish ''meal'' 20000) meal_request = None"
  by code_simp

lemma meal_resolves: "resolveOrderLine (\<lambda>_ _. []) small_menu meal_request (line_context small_context POS) = Inr (RESOLVED meal_line)"
proof -
  have i: "ol_itemId meal_request = ''meal''" by (simp add: meal_request_def)
  show ?thesis
    unfolding resolveOrderLine_def i meal_found option.case bindE.simps Let_def meal_no_problem
    by (simp add: meal_valid meal_combo meal_price meal_modifiers meal_variant) (simp add: meal_line_def)
qed

lemma meal_stock: "checkStock [meal_line] morning = Inr []"
  by code_simp

definition noon :: Store where
  "noon = (case accept_order ids small_context ''hash'' meal_order [meal_line] morning of Inl _ \<Rightarrow> morning | Inr (_, st) \<Rightarrow> st)"

definition meal_accepted :: Accepted where
  "meal_accepted = \<lparr>ac_orderId = ids 0, ac_orderNumber = 1, ac_itemState = SENT, ac_replayed = False\<rparr>"

lemma meal_created: "(case accept_order ids small_context ''hash'' meal_order [meal_line] morning of
    Inr (ACCEPTED a, st) \<Rightarrow> a = meal_accepted \<and> map ir_state (st_items st) = [SENT, SENT, SENT] | _ \<Rightarrow> False)"
  by code_simp

lemma meal_done: "accept_order ids small_context ''hash'' meal_order [meal_line] morning = Inr (ACCEPTED meal_accepted, noon)"
proof -
  obtain r st where accepted: "accept_order ids small_context ''hash'' meal_order [meal_line] morning = Inr (r, st)"
    using meal_created by (cases "accept_order ids small_context ''hash'' meal_order [meal_line] morning") auto
  then have "r = ACCEPTED meal_accepted" using meal_created by (cases r) simp_all
  then show ?thesis using accepted by (simp add: noon_def)
qed

lemma meal_submitted: "submit ids (\<lambda>_ _. []) small_context ''hash'' meal_order morning = Inr (ACCEPTED meal_accepted, noon)"
proof -
  have parts: "submit_problem small_context meal_order = None" "st_keys morning (so_idempotencyKey meal_order) = None"
    "cx_createOrders small_context" "cx_menu small_context = small_menu" "so_source meal_order = POS" "so_lines meal_order = [meal_request]"
    by (code_simp, simp_all add: morning_def small_context_def meal_order_def)
  have none: "stock_rejections [] [meal_line] = []" by code_simp
  show ?thesis
    unfolding submit_def parts option.case
    by (simp add: parts meal_resolves meal_stock none meal_done)
qed

lemma small_menu_valid: "menu_valid (cx_menu small_context)"
  by (simp add: menu_valid_def small_context_def small_menu_def)

lemma noon_step: "order_step ids (Submitting meal_order) morning noon"
proof (rule submitted [OF meal_submitted small_menu_valid])
  show "\<forall>line \<in> set (so_lines meal_order). 0 < ol_quantity line" by (simp add: meal_order_def meal_request_def)
qed

text \<open>In the afternoon the rotis of the meal are ready.\<close>

definition all_allowed :: PermissionMatrix where
  "all_allowed = (\<lambda>capability role. ALLOW)"

definition cook :: StepActor where
  "cook = \<lparr>sa_actor = \<lparr>actor_role = MANAGER, actor_extraCapabilities = None\<rparr>, sa_staffId = None, sa_stationId = None\<rparr>"

definition afternoon :: Store where
  "afternoon = (case setStatus all_allowed cook ''xxx'' MARK_READY noon of Inl _ \<Rightarrow> noon | Inr st \<Rightarrow> st)"

lemma rotis_ready: "(case setStatus all_allowed cook ''xxx'' MARK_READY noon of
    Inr st \<Rightarrow> map (\<lambda>r. (ir_id r, ir_parentOrderItemId r, ir_state r)) (st_items st) =
      [(''x'', None, PREPARING), (''xx'', Some ''x'', SENT), (''xxx'', Some ''x'', READY)] | Inl _ \<Rightarrow> False)"
  by code_simp

lemma afternoon_made: "setStatus all_allowed cook ''xxx'' MARK_READY noon = Inr afternoon"
  using rotis_ready unfolding afternoon_def by (cases "setStatus all_allowed cook ''xxx'' MARK_READY noon") auto

lemma afternoon_rows:
  "\<exists>line rice roti. st_items afternoon = [line, rice, roti] \<and> ir_id line = ''x'' \<and> ir_parentOrderItemId line = None \<and>
     ir_state line = PREPARING \<and> ir_parentOrderItemId roti = Some ''x'' \<and> ir_state roti = READY"
  using rotis_ready by (auto simp: afternoon_made map_eq_Cons_conv)

lemma afternoon_step: "order_step ids (Stepping cook ''xxx'' MARK_READY) noon afternoon"
  by (rule stepped) (rule afternoon_made)

lemma afternoon_trace: "order_trace ids [Submitting meal_order, Stepping cook ''xxx'' MARK_READY] morning afternoon"
  by (intro order_trace_Cons [OF noon_step] order_trace_Cons [OF afternoon_step] order_trace_Nil)

lemma afternoon_reached: "order_run ids morning afternoon"
  by (rule order_trace_run [OF afternoon_trace])

section \<open>Stock\<close>

text \<open>
  C5: No stock is lost and none is sold twice. Start without orders, let any transactions run, and from some time on any sequence of
  submissions, approvals with changes, rejections, cancellations, voids, quantity changes, firings, steps, settings of other
  items' stock and clean-ups, one transaction at a time. A counted item then stays counted, with nothing below zero left of it; and if none of these approvals
  changes the same line twice, what is left and what the order items took (lines without parts, and parts, that
  were sent or held and not cancelled before cooking) are together what they were. The condition is needed: the contract lets an approval through that
  names a line twice, and that breaks the balance (\<open>twice_changed_line_breaks_balance\<close> below). A person who
  sets the stock of the item says what it is from then on.
\<close>

theorem stock_is_never_lost_or_sold_twice:
  assumes "inj newId" "st_items st0 = []" "order_trace newId earlier st0 st" "order_trace newId actions st st'"
    and "counted st i = Some n" "0 \<le> n" "SettingStock i \<notin> set actions"
  shows "\<exists>left. counted st' i = Some left \<and> 0 \<le> left \<and>
    ((\<forall>orderId changes. Approving orderId changes \<in> set actions \<longrightarrow> distinct (map ch_orderItemId changes)) \<longrightarrow>
      left + taken st' i = n + taken st i)"
proof -
  have ok: "store_ok newId st" by (rule order_run_kept [OF order_trace_run [OF assms(3)] assms(1) no_items_ok [OF assms(2)]])
  obtain left where left: "counted st' i = Some left" "0 \<le> left"
    using order_trace_counted [OF assms(4,1) ok assms(7)] assms(5,6) unfolding stays_counted_def by blast
  have "left + taken st' i = n + taken st i"
    if once: "\<forall>orderId changes. Approving orderId changes \<in> set actions \<longrightarrow> distinct (map ch_orderItemId changes)"
  proof -
    have "keeps_balance i a" if "a \<in> set actions" for a
      using assms(7) once that by (cases a) auto
    then have "conserves_at i st st'" using order_trace_balance [OF assms(4,1) ok] by blast
    then show ?thesis using assms(5) left(1) by (auto simp: conserves_at_def)
  qed
  with left show ?thesis by blast
qed

theorem stock_is_never_lost_or_sold_twice_witness:
  "\<exists>left. counted afternoon ''roti'' = Some left \<and> 0 \<le> left \<and> left + taken afternoon ''roti'' = 9"
proof -
  have "st_items morning = []" "counted morning ''roti'' = Some 9" "taken morning ''roti'' = 0"
    by (simp_all add: morning_def counted_def stock_count_def stocked_def taken_def)
  then show ?thesis
    using stock_is_never_lost_or_sold_twice [OF inj_ids _ order_trace_Nil afternoon_trace, of "''roti''" 9] by simp
qed

section \<open>Combo lines and their parts\<close>

lemma reached_rows:
  assumes "inj newId" "st_items st = []" "order_run newId st st'"
  shows "rows_ok (st_items st')"
  using order_run_kept [OF assms(3,1) no_items_ok [OF assms(2)]] by (simp add: store_ok_def)

text \<open>
  C6: The server and the ordering apps agree where a line is. Whatever transactions ran, the state that the
  app computes for a line from the states of its parts is the state that the server keeps for the line itself.
\<close>

theorem shown_state_is_kept_state:
  assumes "inj newId" "st_items st = []" "order_run newId st st'" "l \<in> set (st_items st')"
  shows "displayState l (filter (\<lambda>r. ir_orderId r = ir_orderId l) (st_items st')) = ir_state l"
  by (rule displayed [OF reached_rows [OF assms(1-3)] assms(4)])

lemma afternoon_line: "st_items afternoon ! 0 \<in> set (st_items afternoon)"
  using afternoon_rows by auto

theorem shown_state_is_kept_state_witness:
  "displayState (st_items afternoon ! 0) (filter (\<lambda>r. ir_orderId r = ir_orderId (st_items afternoon ! 0)) (st_items afternoon)) =
     ir_state (st_items afternoon ! 0)"
  by (rule shown_state_is_kept_state [OF inj_ids _ afternoon_reached afternoon_line]) (simp add: morning_def)

definition ended :: "OrderItemState \<Rightarrow> bool" where
  "ended s \<longleftrightarrow> s = REJECTED \<or> s = CANCELLED \<or> s = VOIDED"

lemma part_in_step:
  assumes "in_step s ps" "p \<in> set ps"
  shows "(p = PENDING_APPROVAL \<longleftrightarrow> s = PENDING_APPROVAL) \<and> (p = HELD \<longleftrightarrow> s = HELD) \<and> (ended p \<longleftrightarrow> ended s)"
proof -
  consider "s \<in> {PENDING_APPROVAL, HELD, REJECTED, CANCELLED}" "p = s" | "s = VOIDED" "p \<in> {VOIDED, CANCELLED}"
    | "PROGRESS s \<noteq> None" "PROGRESS p \<noteq> None"
    using assms unfolding in_step_def by (cases ps) auto
  then show ?thesis
  proof cases
    case 3
    then have "s \<in> {SENT, PREPARING, READY, PICKED_UP, SERVED}" "p \<in> {SENT, PREPARING, READY, PICKED_UP, SERVED}"
      unfolding PROGRESS_some .
    then show ?thesis by (auto simp: ended_def)
  qed (auto simp: ended_def)
qed

text \<open>
  C11: A line and its parts wait, are held and end together: a line waits for approval exactly when each of its parts
  does, is held exactly when each part is, and when it was rejected, cancelled or voided, so was each part; so the kitchen
  has no part of a line that is over or not yet sent.
\<close>

theorem parts_wait_and_end_with_their_line:
  assumes "inj newId" "st_items st = []" "order_run newId st st'"
    and "l \<in> set (st_items st')" "p \<in> set (st_items st')" "ir_parentOrderItemId p = Some (ir_id l)"
  shows "(ir_state p = PENDING_APPROVAL \<longleftrightarrow> ir_state l = PENDING_APPROVAL) \<and>
    (ir_state p = HELD \<longleftrightarrow> ir_state l = HELD) \<and> (ended (ir_state p) \<longleftrightarrow> ended (ir_state l))"
proof -
  have rok: "rows_ok (st_items st')" by (rule reached_rows [OF assms(1-3)])
  have "ir_parentOrderItemId l = None"
    using rows_okD(5) [OF rok assms(5,6)] rows_okD(4) [OF rok _ assms(4)] by metis
  from rows_okD(6) [OF rok assms(4) this]
  have "in_step (ir_state l) (map ir_state (parts_in (st_items st') (ir_id l)))" .
  moreover have "ir_state p \<in> set (map ir_state (parts_in (st_items st') (ir_id l)))"
    using assms(5,6) by (simp add: parts_in_member)
  ultimately show ?thesis by (rule part_in_step)
qed

lemma afternoon_part:
  "st_items afternoon ! 2 \<in> set (st_items afternoon)" "ir_parentOrderItemId (st_items afternoon ! 2) = Some (ir_id (st_items afternoon ! 0))"
  using afternoon_rows by auto

theorem parts_wait_and_end_with_their_line_witness:
  "(ir_state (st_items afternoon ! 2) = PENDING_APPROVAL \<longleftrightarrow> ir_state (st_items afternoon ! 0) = PENDING_APPROVAL) \<and>
   (ir_state (st_items afternoon ! 2) = HELD \<longleftrightarrow> ir_state (st_items afternoon ! 0) = HELD) \<and>
   (ended (ir_state (st_items afternoon ! 2)) \<longleftrightarrow> ended (ir_state (st_items afternoon ! 0)))"
  by (rule parts_wait_and_end_with_their_line [OF inj_ids _ afternoon_reached afternoon_line afternoon_part]) (simp add: morning_def)

section \<open>Keys and numbers\<close>




lemma key_is_forgotten:
  assumes "st_keys st key = Some r" "ke_expiresAt r = Some t" "t + days * 86400000 < now"
  shows "st_keys (purge_keys (operationalBefore now days) st) key = None"
  using assms by (simp add: purge_keys_def expired_def operationalBefore_def)

text \<open>
  C15: The orders of a day have different numbers, whatever transactions ran and in whatever order, also where a day is
  numbered further after another one began.
\<close>

theorem order_numbers_differ:
  assumes "st_orders st = []" "order_run newId st st'"
  shows "distinct (numbers_of st')"
proof -
  have "numbers_ok st" using assms(1) by (simp add: numbers_ok_def numbers_of_def)
  then show ?thesis using numbers_kept [OF assms(2)] by (simp add: numbers_ok_def)
qed

theorem order_numbers_differ_witness: "distinct (numbers_of afternoon)"
  by (rule order_numbers_differ [OF _ afternoon_reached]) (simp add: morning_def)

section \<open>Serving\<close>

lemma step_rows_can: "\<forall>r \<in> set rows. can e r \<Longrightarrow> \<exists>st'. step_rows e rows st = Inr st'"
proof (induction rows arbitrary: st)
  case (Cons r rows)
  then have "step e r = Inr (set_state (next_state e (ir_state r)) r)" by (simp add: step_Inr)
  then show ?case using Cons by simp
qed simp

lemma line_moves:
  assumes rok: "rows_ok (st_items st)" and l: "l \<in> set (st_items st)" "ir_parentOrderItemId l = None"
    and e: "can e l" "may_step matrix who e" "sa_stationId who = None"
  shows "\<exists>st' l'. setStatus matrix who (ir_id l) e st = Inr st' \<and> l' \<in> set (st_items st') \<and> ir_id l' = ir_id l \<and>
    ir_parentOrderItemId l' = None \<and> ir_state l' = event_target e"
proof -
  let ?parts = "filter (can e) (parts_of st (ir_id l))"
  obtain st1 where st1: "step_rows e [l] st = Inr st1" using step_rows_can [of "[l]" e st] e(1) by auto
  obtain st2 where st2: "step_rows e ?parts st1 = Inr st2" using step_rows_can [of ?parts e st1] by auto
  have "setStatus matrix who (ir_id l) e st = Inr st2"
    using find_item_id [OF rok l(1)] e(2,3) l(2) st1 st2 by (simp add: setStatus_def del: step_rows.simps)
  moreover have first: "st1 = on_items (assigned [(ir_id l, event_target e)]) st"
    using step_rows_effect [OF st1] e(1) by (simp add: new_states_def next_event can_row)
  define f where "f = assigned (rev (new_states (map (\<lambda>r. (r, e)) ?parts)))"
  have second: "st2 = on_items f st1" using step_rows_effect [OF st2] by (simp add: f_def)
  let ?l = "f (assigned [(ir_id l, event_target e)] l)"
  have "ir_id l \<notin> ir_id ` fst ` set (map (\<lambda>r. (r, e)) ?parts)"
    using group_ids(2) [OF rok l] by (simp add: parts_of_parts_in image_iff) metis
  then have "?l = assigned [(ir_id l, event_target e)] l" unfolding f_def by (intro assigned_not_ended) simp
  then have "ir_state ?l = event_target e" "ir_id ?l = ir_id l" "ir_parentOrderItemId ?l = None"
    using l(2) by (simp_all add: assigned_state)
  moreover have "?l \<in> set (st_items st2)" using l(1) by (simp add: first second)
  ultimately show ?thesis by blast
qed

lemma served_with_parts:
  assumes rok: "rows_ok (st_items st)" and k: "k \<in> set (st_items st)" "ir_parentOrderItemId k = None" "ir_state k = SERVED"
  shows "list_all (\<lambda>p. ir_state p = SERVED) (parts_of st (ir_id k))"
proof -
  let ?ps = "map ir_state (parts_in (st_items st) (ir_id k))"
  have step: "in_step SERVED ?ps" using rows_okD(6) [OF rok k(1,2)] k(3) by simp
  have "s = SERVED" if "s \<in> set ?ps" for s
  proof -
    have ne: "?ps \<noteq> []" using that by auto
    then have "PROGRESS s \<noteq> None" "SERVED = follow_target (map place ?ps)" using in_step_progress [OF _ ne] step that by auto
    then show ?thesis using follow_places(5) [OF ne] that place_inj [of s SERVED] by auto
  qed
  then show ?thesis by (simp add: list_all_iff parts_of_parts_in)
qed

text \<open>
  C16: What was sent can be served. In any store reached, a line in the hands of the kitchen or the floor that is not yet served can be
  brought there, by somebody who may mark items ready and served, in at most two steps that this person takes on the line itself,
  marking it ready and served, and then each of its parts is served too.
\<close>

theorem sent_line_can_be_served:
  assumes "inj newId" "st_items st = []" "order_run newId st st'"
    and "l \<in> set (st_items st')" "ir_parentOrderItemId l = None" "PROGRESS (ir_state l) \<noteq> None"
    and "may_step matrix who MARK_READY" "may_step matrix who SERVE" "sa_stationId who = None"
  shows "\<exists>events st'' l'. length events \<le> 2 \<and> set events \<subseteq> {MARK_READY, SERVE} \<and>
    order_trace newId (map (Stepping who (ir_id l)) events) st' st'' \<and>
    l' \<in> set (st_items st'') \<and> ir_id l' = ir_id l \<and> ir_state l' = SERVED \<and>
    list_all (\<lambda>p. ir_state p = SERVED) (parts_of st'' (ir_id l))"
proof -
  have finish: "\<exists>events final k. length events \<le> 1 \<and> set events \<subseteq> {SERVE} \<and>
      order_trace newId (map (Stepping who (ir_id l)) events) mid final \<and> k \<in> set (st_items final) \<and> ir_id k = ir_id l \<and>
      ir_state k = SERVED \<and> list_all (\<lambda>p. ir_state p = SERVED) (parts_of final (ir_id l))"
    if run: "order_run newId st mid" and m: "m \<in> set (st_items mid)" "ir_id m = ir_id l" "ir_parentOrderItemId m = None"
      "ir_state m \<in> {READY, PICKED_UP, SERVED}" for mid m
  proof -
    have rok: "rows_ok (st_items mid)" by (rule reached_rows [OF assms(1,2) run])
    show ?thesis
    proof (cases "ir_state m = SERVED")
      case True
      from served_with_parts [OF rok m(1,3) this] have "list_all (\<lambda>p. ir_state p = SERVED) (parts_of mid (ir_id l))" by (simp add: m(2))
      then show ?thesis using m True order_trace_Nil [of newId mid] by (intro exI [of _ "[]"] exI [of _ mid] exI [of _ m]) simp
    next
      case False
      then have "can SERVE m" using m(4) by (auto simp: can_row)
      from line_moves [OF rok m(1,3) this assms(8,9)] obtain final k where made: "setStatus matrix who (ir_id m) SERVE mid = Inr final"
        and k: "k \<in> set (st_items final)" "ir_id k = ir_id m" "ir_parentOrderItemId k = None" "ir_state k = SERVED" by auto
      note serve = stepped [OF made, of newId]
      have "rows_ok (st_items final)" by (rule reached_rows [OF assms(1,2) run_step [OF run serve]])
      from served_with_parts [OF this k(1,3,4)] have "list_all (\<lambda>p. ir_state p = SERVED) (parts_of final (ir_id l))" by (simp add: k(2) m(2))
      then show ?thesis using order_trace_Cons [OF serve order_trace_Nil] k m(2)
        by (intro exI [of _ "[SERVE]"] exI [of _ final] exI [of _ k]) simp
    qed
  qed
  have rok: "rows_ok (st_items st')" by (rule reached_rows [OF assms(1-3)])
  have "ir_state l \<in> {SENT, PREPARING, READY, PICKED_UP, SERVED}" using assms(6) unfolding PROGRESS_some .
  then consider "ir_state l \<in> {READY, PICKED_UP, SERVED}" | "can MARK_READY l" by (auto simp: can_row)
  then show ?thesis
  proof cases
    case 1
    from finish [OF assms(3,4) refl assms(5) this] obtain events final k where fin: "length events \<le> 1" "set events \<subseteq> {SERVE}"
      "order_trace newId (map (Stepping who (ir_id l)) events) st' final" "k \<in> set (st_items final)" "ir_id k = ir_id l"
      "ir_state k = SERVED" "list_all (\<lambda>p. ir_state p = SERVED) (parts_of final (ir_id l))" by blast
    moreover have "length events \<le> 2" "set events \<subseteq> {MARK_READY, SERVE}" using fin(1,2) by auto
    ultimately show ?thesis by blast
  next
    case 2
    from line_moves [OF rok assms(4,5) 2 assms(7,9)] obtain mid m where made: "setStatus matrix who (ir_id l) MARK_READY st' = Inr mid"
      and m: "m \<in> set (st_items mid)" "ir_id m = ir_id l" "ir_parentOrderItemId m = None" "ir_state m = READY" by auto
    note ready = stepped [OF made, of newId]
    from finish [OF run_step [OF assms(3) ready] m(1-3)] m(4) obtain events final k where fin: "length events \<le> 1" "set events \<subseteq> {SERVE}"
      "order_trace newId (map (Stepping who (ir_id l)) events) mid final" "k \<in> set (st_items final)" "ir_id k = ir_id l"
      "ir_state k = SERVED" "list_all (\<lambda>p. ir_state p = SERVED) (parts_of final (ir_id l))" by blast
    have "order_trace newId (map (Stepping who (ir_id l)) (MARK_READY # events)) st' final"
      using order_trace_Cons [OF ready fin(3)] by simp
    moreover have "length (MARK_READY # events) \<le> 2" "set (MARK_READY # events) \<subseteq> {MARK_READY, SERVE}" using fin(1,2) by auto
    ultimately show ?thesis using fin(4-7) by blast
  qed
qed

theorem sent_line_can_be_served_witness:
  "\<exists>events st'' l'. length events \<le> 2 \<and> set events \<subseteq> {MARK_READY, SERVE} \<and>
    order_trace ids (map (Stepping cook (ir_id (st_items afternoon ! 0))) events) afternoon st'' \<and>
    l' \<in> set (st_items st'') \<and> ir_id l' = ir_id (st_items afternoon ! 0) \<and> ir_state l' = SERVED \<and>
    list_all (\<lambda>p. ir_state p = SERVED) (parts_of st'' (ir_id (st_items afternoon ! 0)))"
proof (rule sent_line_can_be_served [OF inj_ids _ afternoon_reached afternoon_line])
  show "st_items morning = []" by (simp add: morning_def)
  show "ir_parentOrderItemId (st_items afternoon ! 0) = None" "PROGRESS (ir_state (st_items afternoon ! 0)) \<noteq> None"
    using afternoon_rows by auto
  show "may_step all_allowed cook MARK_READY" "may_step all_allowed cook SERVE" "sa_stationId cook = None" by code_simp+
qed

section \<open>Where the code slips\<close>

text \<open>
  Two parts of a combo with the same dish share one key, so the tickets name the row of the last part only.
\<close>

lemma same_dish_parts_share_a_key:
  "ir_itemId a = ir_itemId b \<Longrightarrow>
     part_ids_of line [a, b] [] = [(part_key (ir_id line) (ir_itemId a), ir_id b)]"
  by (simp add: part_ids_of_def)

text \<open>
  Two changes of one line of which the later restores what was ordered: the row keeps the first, while the tickets and
  the stock go by the second.
\<close>

lemma restored_quantity_is_not_restored:
  assumes "find (\<lambda>candidate. ir_id candidate = i) waiting = Some line" "0 < q" "q \<noteq> ir_quantity line" "0 < ir_quantity line"
  defines "changes \<equiv> [\<lparr>ch_orderItemId = i, ch_quantity = q\<rparr>, \<lparr>ch_orderItemId = i, ch_quantity = ir_quantity line\<rparr>]"
  shows "applyChanges loaded waiting changes [] st =
      Inr ([], set_part_quantities line q (parts_of loaded (ir_id line)) (update_item (ir_id line) (set_quantity q) st))"
    and "al_quantity (withQuantity loaded (approved_quantities changes) line) = ir_quantity line"
proof -
  have i: "ir_id line = i" using assms(1) by (auto simp: find_Some_iff)
  show "applyChanges loaded waiting changes [] st =
      Inr ([], set_part_quantities line q (parts_of loaded (ir_id line)) (update_item (ir_id line) (set_quantity q) st))"
    using assms(2-4) by (simp add: changes_def assms(1) cong: if_cong)
  show "al_quantity (withQuantity loaded (approved_quantities changes) line) = ir_quantity line"
    using assms(2,4) by (simp add: changes_def withQuantity_def approved_quantities_def i)
qed

text \<open>
  So the balance of C5 is broken: of five portions a diner ordered two, the approval says three and then two again; two are taken
  from the stock, and the row says three.
\<close>

definition waiting_row :: OrderItemRow where
  "waiting_row =
     \<lparr>ir_id = ''x'', ir_orderId = ''o'', ir_itemId = ''rice'', ir_parentOrderItemId = None, ir_name = ''rice'', ir_variantId = None,
      ir_variantName = None, ir_modifiers = [], ir_quantity = 2, ir_unitPrice = 6000, ir_lineTotal = 12000, ir_taxGroupId = ''gst5'',
      ir_taxRates = [], ir_stationId = ''kitchen'', ir_state = PENDING_APPROVAL, ir_instructions = None\<rparr>"

definition evening :: Store where
  "evening = morning\<lparr>st_issued := 2, st_items := [waiting_row],
     st_orders := [\<lparr>or_id = ''o'', or_businessDate = ''2025-01-31'', or_orderNumber = 1, or_orderType = TAKEAWAY, or_source = QR,
       or_tableSessionId = None, or_tableId = None, or_takeawayToken = Some 1, or_createdById = None, or_cancelled = False\<rparr>]\<rparr>"

definition twice_changed :: "ApprovalChange list" where
  "twice_changed = [\<lparr>ch_orderItemId = ''x'', ch_quantity = 3\<rparr>, \<lparr>ch_orderItemId = ''x'', ch_quantity = 2\<rparr>]"

lemma twice_approved:
  "(case approve ids (\<lambda>_. None) text_order ''2025-01-31'' True small_menu
      \<lparr>ap_staffId = ''asha'', ap_ownOnly = False, ap_looksAfter = []\<rparr> ''o'' twice_changed evening of
     Inr st \<Rightarrow> counted st ''rice'' = Some 3 \<and> taken st ''rice'' = 3 | Inl _ \<Rightarrow> False)"
  by code_simp

lemma twice_changed_line_breaks_balance:
  "\<exists>st. order_step ids (Approving ''o'' twice_changed) evening st \<and> counted evening ''rice'' = Some 5 \<and> taken evening ''rice'' = 0 \<and>
     counted st ''rice'' = Some 3 \<and> taken st ''rice'' = 3"
proof -
  let ?run = "approve ids (\<lambda>_. None) text_order ''2025-01-31'' True small_menu
      \<lparr>ap_staffId = ''asha'', ap_ownOnly = False, ap_looksAfter = []\<rparr> ''o'' twice_changed evening"
  obtain st where st: "?run = Inr st" "counted st ''rice'' = Some 3" "taken st ''rice'' = 3"
    using twice_approved by (cases ?run) auto
  have "order_step ids (Approving ''o'' twice_changed) evening st" by (rule approved [OF st(1)]) (simp add: twice_changed_def)
  moreover have "counted evening ''rice'' = Some 5" "taken evening ''rice'' = 0" by code_simp+
  ultimately show ?thesis using st(2,3) by blast
qed

text \<open>
  A dish that was taken off the menu after it was ordered cannot be cancelled: giving its stock back looks for the item among those
  that are not archived, also where the item is not counted, and the transaction fails.
\<close>

lemma archived_item_cannot_be_cancelled:
  assumes found: "find_item st i = Some item" and line: "ir_parentOrderItemId item = None" "parts_of st i = []"
    and sent: "ir_state item = SENT" and station: "st_stations st (ir_stationId item) = Some mode" and archived: "st_stock st (ir_itemId item) = None"
  shows "cancel businessDate False staffId i st = Inl ITEM_NOT_FOUND"
proof -
  have i: "ir_id item = i" by (rule find_item_Some(2) [OF found])
  let ?mid = "update_item i (set_state CANCELLED) st"
  have step: "step CANCEL item = Inr (set_state CANCELLED item)"
    using sent by (simp add: step_Inr can_row next_event)
  have ended: "ended_parts CANCEL [] = []" by (simp add: ended_parts_def)
  have slips: "end_slips item [] [(item, CANCEL)] = [\<lparr>sl_stationId = ir_stationId item, sl_orderItemId = i, sl_quantity = ir_quantity item\<rparr>]"
    using sent i by (simp add: end_slips_def AT_STATION_def)
  have "st_stations ?mid (ir_stationId item) = Some mode" using station by (simp add: update_item_def)
  then have slip: "slip businessDate (ir_orderId item) CANCELLED_TICKET
      [\<lparr>sl_stationId = ir_stationId item, sl_orderItemId = i, sl_quantity = ir_quantity item\<rparr>] ?mid =
      Inr (add_ticket businessDate (ir_orderId item) CANCELLED_TICKET (ir_stationId item) mode [(i, ir_quantity item)] ?mid)"
    by (simp add: slip_def by_station_of_def)
  have gone: "st_stock (add_ticket businessDate (ir_orderId item) CANCELLED_TICKET (ir_stationId item) mode [(i, ir_quantity item)] ?mid) (ir_itemId item) = None"
    using archived by (simp add: add_ticket_def allocateDailyNumber_def update_item_def Let_def)
  have restore: "uncooked item [] [(item, CANCEL)] = [(ir_itemId item, ir_quantity item)]" by (simp add: uncooked_def)
  show ?thesis
    using found line step i by (simp add: cancel_def assertLine_def assertOwn_def throw_if_def end_and_restore_def end_line_def
      ended slips slip restore restoreStock_def lockAvailability_def gone)
qed

end
