(* ===== verification/Bill_Pricing.thy ===== *)
theory Bill_Pricing
  imports Bill_Split_Totals Invoice_Number Tally
begin

text \<open>
  \<open>apps/server/src/billing/bill-calculation.ts\<close>: a bill priced from the items as they were ordered. Each item
  brings its own price and the tax rates stored when it was ordered; items of one tax group with different stored
  rates are taxed apart; the service charge follows the rates that carry the most value. The lemmas show that every
  line is taxed with its own stored rates.
\<close>

section \<open>What a bill is priced from\<close>

record BillableItem =
  bb_id :: string
  bb_itemId :: string
  bb_name :: string
  bb_variantName :: "string option"
  bb_modifiers :: "(string \<times> int) list"
  bb_quantity :: number
  bb_unitPrice :: Paise
  bb_taxGroupId :: string
  bb_taxRates :: "TaxComponent list"

datatype DiscountKind = PERCENT_OFF | FLAT_OFF

record ActiveDiscount =
  ad_id :: string
  ad_orderItemId :: "string option"
  ad_kind :: DiscountKind
  ad_rateBp :: "BasisPoints option"
  ad_amount :: Paise

record BillSettings =
  bt_priceMode :: PriceMode
  bt_roundingUnitPaise :: Paise
  bt_serviceChargeRateBp :: "BasisPoints option"

record CalculatedBill =
  cb_result :: BillResult
  cb_groupIdOf :: "(string \<times> string) list"
  cb_itemDiscountOf :: "(string \<times> ActiveDiscount) list"
  cb_billDiscount :: "ActiveDiscount option"

section \<open>Descriptions and discounts\<close>

text \<open>``Paneer Tikka (Half) + Extra cheese x2''.\<close>

definition describeItem :: "BillableItem \<Rightarrow> string" where
  "describeItem item =
     (let name = (case bb_variantName item of None \<Rightarrow> bb_name item | Some v \<Rightarrow> bb_name item @ '' ('' @ v @ '')'');
          modifiers = map (\<lambda>(m, q). if q = 1 then m else m @ '' x'' @ num_text q) (bb_modifiers item)
      in if modifiers = [] then name else name @ '' + '' @ join_with '', '' modifiers)"

definition discountValueOf :: "ActiveDiscount \<Rightarrow> DiscountValue" where
  "discountValueOf discount =
     (case ad_kind discount of
        PERCENT_OFF \<Rightarrow> PERCENT (case ad_rateBp discount of None \<Rightarrow> 0 | Some r \<Rightarrow> r)
      | FLAT_OFF \<Rightarrow> FLAT (ad_amount discount))"

definition isComplimentary :: "ActiveDiscount option \<Rightarrow> bool" where
  "isComplimentary discount \<longleftrightarrow>
     (case discount of None \<Rightarrow> False | Some d \<Rightarrow> ad_kind d = PERCENT_OFF \<and> ad_rateBp d = Some BASIS_POINTS_PER_WHOLE)"

definition item_discounts :: "ActiveDiscount list \<Rightarrow> (string \<times> ActiveDiscount) list" where
  "item_discounts discounts =
     foldl (\<lambda>m d. case ad_orderItemId d of None \<Rightarrow> m | Some i \<Rightarrow> map_set i d m) [] discounts"

definition bill_discount :: "ActiveDiscount list \<Rightarrow> ActiveDiscount option" where
  "bill_discount discounts = foldl (\<lambda>b d. if ad_orderItemId d = None then Some d else b) None discounts"

section \<open>Tax groups by stored rates\<close>

definition rate_text :: "TaxComponent \<Rightarrow> string" where
  "rate_text rate = tc_code rate @ '':'' @ num_text (tc_rateBp rate)"

definition keyOf :: "BillableItem \<Rightarrow> string" where
  "keyOf item = bb_taxGroupId item @ ''|'' @ join_with '','' (map rate_text (bb_taxRates item))"

definition stored_group :: "(string \<rightharpoonup> string) \<Rightarrow> BillableItem \<Rightarrow> TaxGroup" where
  "stored_group taxGroupNames item =
     \<lparr>tg_id = keyOf item, tg_name = (case taxGroupNames (bb_taxGroupId item) of None \<Rightarrow> ''Tax'' | Some n \<Rightarrow> n),
      tg_components = bb_taxRates item\<rparr>"

text \<open>The groups and their real ids, both set when a key is first seen.\<close>

definition bill_groups :: "(string \<rightharpoonup> string) \<Rightarrow> BillableItem list \<Rightarrow> (string \<times> TaxGroup \<times> string) list" where
  "bill_groups taxGroupNames items =
     foldl (\<lambda>m item.
       if map_of m (keyOf item) = None
       then map_set (keyOf item) (stored_group taxGroupNames item, bb_taxGroupId item) m else m) [] items"

definition bill_line :: "(string \<times> ActiveDiscount) list \<Rightarrow> BillableItem \<Rightarrow> BillLineInput" where
  "bill_line itemDiscountOf item =
     (let discount = map_of itemDiscountOf (bb_id item)
      in \<lparr>bli_id = bb_id item, bli_unitPrice = bb_unitPrice item, bli_quantity = bb_quantity item,
          bli_taxGroupId = keyOf item,
          bli_discount = (if isComplimentary discount then None else map_option discountValueOf discount),
          bli_complimentary = (if isComplimentary discount then Some True else None)\<rparr>)"

definition value_by_group :: "BillLineInput list \<Rightarrow> (string \<times> number) list" where
  "value_by_group lines =
     foldl (\<lambda>m line. map_set (bli_taxGroupId line)
       (js_add (case map_of m (bli_taxGroupId line) of None \<Rightarrow> 0 | Some v \<Rightarrow> v)
         (js_mul (bli_unitPrice line) (bli_quantity line))) m) [] lines"

definition bill_charge :: "BillSettings \<Rightarrow> BillLineInput list \<Rightarrow> ServiceChargeInput option" where
  "bill_charge settings lines =
     (case bt_serviceChargeRateBp settings of
        None \<Rightarrow> None
      | Some rate \<Rightarrow>
          (case js_sort (\<lambda>a b. js_sub (snd b) (snd a)) (value_by_group lines) of
             [] \<Rightarrow> None
           | largest # _ \<Rightarrow> Some \<lparr>sc_rateBp = rate, sc_taxGroupId = fst largest\<rparr>))"

definition bill_input ::
  "BillableItem list \<Rightarrow> ActiveDiscount list \<Rightarrow> (string \<rightharpoonup> string) \<Rightarrow> BillSettings \<Rightarrow> BillInput" where
  "bill_input items discounts taxGroupNames settings =
     (let lines = map (bill_line (item_discounts discounts)) items
      in \<lparr>bi_priceMode = bt_priceMode settings, bi_lines = lines,
          bi_taxGroups = map (\<lambda>e. fst (snd e)) (bill_groups taxGroupNames items),
          bi_billDiscount = map_option discountValueOf (bill_discount discounts),
          bi_serviceCharge = bill_charge settings lines,
          bi_roundOff = (if bt_roundingUnitPaise settings = 0 then NO_ROUND_OFF else NEAREST (bt_roundingUnitPaise settings) None),
          bi_rounding = None\<rparr>)"

definition calculateBill ::
  "BillableItem list \<Rightarrow> ActiveDiscount list \<Rightarrow> (string \<rightharpoonup> string) \<Rightarrow> BillSettings \<Rightarrow> CalculatedBill result" where
  "calculateBill items discounts taxGroupNames settings =
     bindE (computeBill (bill_input items discounts taxGroupNames settings)) (\<lambda>result.
     Inr \<lparr>cb_result = result, cb_groupIdOf = map (\<lambda>(k, g, i). (k, i)) (bill_groups taxGroupNames items),
          cb_itemDiscountOf = item_discounts discounts, cb_billDiscount = bill_discount discounts\<rparr>)"

section \<open>Keys name the rates\<close>

text \<open>Codes and ids as the contracts have them: none of the marks that the key is put together with.\<close>

definition clean_rates :: "BillableItem \<Rightarrow> bool" where
  "clean_rates item \<longleftrightarrow> CHR ''|'' \<notin> set (bb_taxGroupId item) \<and>
     (\<forall>rate \<in> set (bb_taxRates item). CHR '':'' \<notin> set (tc_code rate) \<and> CHR '','' \<notin> set (tc_code rate))"

lemma split_join: "ws \<noteq> [] \<Longrightarrow> \<forall>w \<in> set ws. c \<notin> set w \<Longrightarrow> split_on c (join_with [c] ws) = ws"
proof (induction "[c]" ws rule: join_with.induct)
  case (3 p q ps)
  then have "split_on c (join_with [c] (q # ps)) = q # ps" by simp
  then show ?case using 3(3) by (simp add: split_on_append)
qed (simp_all add: split_on_none)

lemma join_nonempty: "ws \<noteq> [] \<Longrightarrow> \<forall>w \<in> set ws. w \<noteq> [] \<Longrightarrow> join_with sep ws \<noteq> []"
  by (cases "(sep, ws)" rule: join_with.cases) auto

lemma rate_text_clean:
  assumes "CHR '':'' \<notin> set (tc_code a)" "CHR '':'' \<notin> set (tc_code b)" "rate_text a = rate_text b"
  shows "a = b"
proof -
  have "tc_code a @ CHR '':'' # num_text (tc_rateBp a) = tc_code b @ CHR '':'' # num_text (tc_rateBp b)"
    using assms(3) by (simp add: rate_text_def)
  then have "tc_code a = tc_code b" "num_text (tc_rateBp a) = num_text (tc_rateBp b)"
    using split_on_append [OF assms(1), of "num_text (tc_rateBp a)"] split_on_append [OF assms(2), of "num_text (tc_rateBp b)"]
    by (metis list.inject, metis append_same_eq list.inject same_append_eq split_on_append assms(1,2))
  then show ?thesis using num_text_inj by (cases a; cases b) auto
qed

lemma rates_of_key:
  assumes "clean_rates a" "clean_rates b" "keyOf a = keyOf b"
  shows "bb_taxGroupId a = bb_taxGroupId b" "bb_taxRates a = bb_taxRates b"
proof -
  let ?bar = "CHR ''|''" and ?comma = "CHR '',''"
  let ?ra = "map rate_text (bb_taxRates a)" and ?rb = "map rate_text (bb_taxRates b)"
  have bar: "?bar \<notin> set (bb_taxGroupId a)" "?bar \<notin> set (bb_taxGroupId b)" using assms by (auto simp: clean_rates_def)
  have key: "bb_taxGroupId a @ ?bar # join_with [?comma] ?ra = bb_taxGroupId b @ ?bar # join_with [?comma] ?rb"
    using assms(3) by (simp add: keyOf_def)
  show group: "bb_taxGroupId a = bb_taxGroupId b"
    using arg_cong [OF key, of "\<lambda>s. hd (split_on ?bar s)"] by (simp add: split_on_append bar)
  then have join: "join_with [?comma] ?ra = join_with [?comma] ?rb" using key by simp
  have no_comma: "?comma \<notin> set (num_text n)" for n using num_text_chars [of ?comma n] by (auto simp: is_digit_char_def)
  have comma: "\<forall>w \<in> set (map rate_text (bb_taxRates i)). ?comma \<notin> set w" if "clean_rates i" for i
    using that no_comma by (auto simp: clean_rates_def rate_text_def)
  have some: "\<exists>w. w \<noteq> [] \<and> join_with [?comma] (map rate_text (bb_taxRates i)) = w" if "bb_taxRates i \<noteq> []" for i
    using join_nonempty [of "map rate_text (bb_taxRates i)" "[?comma]"] that by (simp add: rate_text_def)
  have texts: "?ra = ?rb"
  proof (cases "?ra = [] \<or> ?rb = []")
    case True
    then show ?thesis using join some [of a] some [of b] by fastforce
  next
    case False
    then have "split_on ?comma (join_with [?comma] ?ra) = ?ra" by (intro split_join comma [OF assms(1)]) simp
    moreover have "split_on ?comma (join_with [?comma] ?rb) = ?rb" using False by (intro split_join comma [OF assms(2)]) simp
    ultimately show ?thesis unfolding join by (rule trans [OF sym])
  qed
  have "inj_on rate_text (set (bb_taxRates a) \<union> set (bb_taxRates b))"
  proof (rule inj_onI)
    fix x y
    assume "x \<in> set (bb_taxRates a) \<union> set (bb_taxRates b)" "y \<in> set (bb_taxRates a) \<union> set (bb_taxRates b)" "rate_text x = rate_text y"
    moreover from this have "CHR '':'' \<notin> set (tc_code x)" "CHR '':'' \<notin> set (tc_code y)"
      using assms(1,2) unfolding clean_rates_def by blast+
    ultimately show "x = y" using rate_text_clean by blast
  qed
  then show "bb_taxRates a = bb_taxRates b" by (rule map_inj_on [OF texts])
qed


section \<open>Every line is taxed at its own rates\<close>

lemma find_snoc: "find P (xs @ [x]) = (case find P xs of None \<Rightarrow> if P x then Some x else None | Some y \<Rightarrow> Some y)"
  by (induction xs) auto

lemma bill_groups_lookup:
  "map_of (bill_groups names items) k =
     map_option (\<lambda>item. (stored_group names item, bb_taxGroupId item)) (find (\<lambda>item. keyOf item = k) items)"
proof (induction items rule: rev_induct)
  case Nil
  then show ?case by (simp add: bill_groups_def)
next
  case (snoc item items)
  have step: "bill_groups names (items @ [item]) =
      (if map_of (bill_groups names items) (keyOf item) = None
       then map_set (keyOf item) (stored_group names item, bb_taxGroupId item) (bill_groups names items)
       else bill_groups names items)"
    by (simp add: bill_groups_def)
  have None: "map_of (bill_groups names items) k = None \<longleftrightarrow> find (\<lambda>item. keyOf item = k) items = None"
    unfolding snoc.IH by simp
  show ?case
  proof (cases "keyOf item = k")
    case True
    then show ?thesis using None snoc.IH unfolding step find_snoc by (cases "find (\<lambda>item. keyOf item = k) items") auto
  next
    case False
    then show ?thesis using snoc.IH unfolding step find_snoc by (cases "find (\<lambda>item. keyOf item = k) items") auto
  qed
qed

lemma bill_groups_keys: "distinct (map fst (bill_groups names items)) \<and> (\<forall>(k, g, i) \<in> set (bill_groups names items). tg_id g = k)"
proof (induction items rule: rev_induct)
  case Nil
  then show ?case by (simp add: bill_groups_def)
next
  case (snoc item items)
  let ?m = "bill_groups names items"
  have step: "bill_groups names (items @ [item]) =
      (if map_of ?m (keyOf item) = None then map_set (keyOf item) (stored_group names item, bb_taxGroupId item) ?m else ?m)"
    by (simp add: bill_groups_def)
  have "tg_id (fst (snd p)) = fst p" if "p \<in> set (map_set (keyOf item) (stored_group names item, bb_taxGroupId item) ?m)" for p
    using set_map_set [OF that] snoc by (auto simp: stored_group_def)
  then have "\<forall>(k, g, i) \<in> set (map_set (keyOf item) (stored_group names item, bb_taxGroupId item) ?m). tg_id g = k" by fastforce
  then show ?case using snoc distinct_map_set [of ?m] unfolding step by simp
qed

lemma group_map_of_groups:
  assumes "distinct (map fst m)" "\<forall>(k, g, i) \<in> set m. tg_id g = k"
  shows "map_of (group_map (map (\<lambda>e. fst (snd e)) m)) k = map_option fst (map_of m k)"
  using assms
proof (induction m rule: rev_induct)
  case Nil
  then show ?case by (simp add: group_map_def)
next
  case (snoc p m)
  obtain k' g i where p: "p = (k', g, i)" by (cases p)
  have "tg_id g = k'" using snoc.prems(2) p by auto
  then have "map_of (group_map (map (\<lambda>e. fst (snd e)) (m @ [p]))) k = (if k = k' then Some g else map_of (group_map (map (\<lambda>e. fst (snd e)) m)) k)"
    by (simp add: group_map_def p)
  moreover have "map_of (m @ [p]) k = (if k = k' then Some (g, i) else map_of m k)"
  proof (cases "k = k'")
    case True
    then have "map_of m k = None" using snoc.prems(1) p by (auto simp: map_of_eq_None_iff)
    then show ?thesis using True p by (simp add: map_add_def)
  qed (simp add: p map_add_def split: option.split)
  moreover have "map_of (group_map (map (\<lambda>e. fst (snd e)) m)) k = map_option fst (map_of m k)" using snoc by simp
  ultimately show ?case by simp
qed

lemma calculateBill_Inr:
  "calculateBill items discounts names settings = Inr c \<longleftrightarrow>
     computeBill (bill_input items discounts names settings) = Inr (cb_result c) \<and>
     c = \<lparr>cb_result = cb_result c, cb_groupIdOf = map (\<lambda>(k, g, i). (k, i)) (bill_groups names items),
          cb_itemDiscountOf = item_discounts discounts, cb_billDiscount = bill_discount discounts\<rparr>"
  by (cases c) (auto simp: calculateBill_def bindE_Inr_iff)

lemma map_of_ids: "map_of (map (\<lambda>(k, g, i). (k, i)) m) k = map_option snd (map_of m k)"
  by (induction m) auto

lemma stored_rates:
  assumes "item \<in> set items" "\<forall>i \<in> set items. clean_rates i"
  shows "\<exists>g. map_of (bill_groups names items) (keyOf item) = Some (g, bb_taxGroupId item) \<and> tg_id g = keyOf item \<and>
    tg_components g = bb_taxRates item"
proof -
  obtain first where first: "find (\<lambda>i. keyOf i = keyOf item) items = Some first"
    using assms(1) by (cases "find (\<lambda>i. keyOf i = keyOf item) items") (auto simp: find_None_iff)
  then have "first \<in> set items" "keyOf first = keyOf item" by (auto simp: find_Some_iff)
  then show ?thesis
    using rates_of_key [of first item] assms first by (simp add: bill_groups_lookup stored_group_def)
qed


lemma group_tax_rates:
  assumes "computeGroupTax a g pm mode = Inr t"
  shows "map (\<lambda>x. (tca_code x, tca_rateBp x)) (gt_components t) = map (\<lambda>r. (tc_code r, tc_rateBp r)) (tg_components g)"
proof -
  note c = computeGroupTax_Inr [OF assms]
  show ?thesis
  proof (cases pm)
    case TAX_EXCLUSIVE
    then show ?thesis using exclusive_tax_Inr(1) [OF c(4)] by (simp add: component_amount_def o_def)
  next
    case TAX_INCLUSIVE
    note i = inclusive_tax_Inr(7,8) [OF c(5) [OF TAX_INCLUSIVE] c(1) c(3) c(2)]
    have "zip (map tca_code (gt_components t)) (map tca_rateBp (gt_components t)) =
        zip (map tc_code (tg_components g)) (map tc_rateBp (tg_components g))"
      unfolding i by simp
    then show ?thesis by (simp only: zip_map_map zip_same_conv_map map_map o_def case_prod_conv)
  qed
qed

lemma list_all2_member:
  "list_all2 (\<lambda>(a, b) (c, d). P a b c d) xs ys \<Longrightarrow> (a, b) \<in> set xs \<Longrightarrow> \<exists>c d. (c, d) \<in> set ys \<and> P a b c d"
  by (induction xs ys rule: list_all2_induct) auto

lemma line_tax_result:
  assumes "computeBill input = Inr b" "isSafeInteger (br_totalBeforeRoundOff b)" "i < length (bi_lines input)"
  shows "\<exists>t \<in> set (br_taxLines b). \<exists>g. tl_source t = ITEMS \<and> tl_taxGroupId t = bl_taxGroupId (br_lines b ! i) \<and>
    map_of (group_map (bi_taxGroups input)) (bl_taxGroupId (br_lines b ! i)) = Some g \<and>
    map (\<lambda>x. (tca_code x, tca_rateBp x)) (tl_components t) = map (\<lambda>r. (tc_code r, tc_rateBp r)) (tg_components g)"
proof -
  let ?order = "group_lines 0 (bi_lines input) []"
  obtain s rs cs where d: "discount_steps input b s" and t: "tax_steps input b s" and r: "tax_results input b rs cs"
    and post: "loop_post (bi_priceMode input) (bill_rounding input) (group_map (bi_taxGroups input)) (bs_net s)
      ?order (initial_state input) (bs_state s) rs"
    using computeBill_tax_results [OF assms(1,2)] by blast
  have line: "bl_taxGroupId (br_lines b ! i) = bli_taxGroupId (bi_lines input ! i)"
    by (rule result_line(4) [OF d assms(3) length_lineTaxable [OF d t]])
  have "i \<in> set (concat (map snd ?order))" using group_lines_indexes(2) [of "bi_lines input"] assms(3) by simp
  then obtain k "is" where k: "(k, is) \<in> set ?order" "i \<in> set is" by fastforce
  then have key: "bli_taxGroupId (bi_lines input ! i) = k"
    using group_lines_group [of "[]" "[]" k "is" "bi_lines input" i] by simp
  have "list_all2 (\<lambda>(gid, is) (g, r). map_of (group_map (bi_taxGroups input)) gid = Some g \<and>
      computeGroupTax (sum_list (map (\<lambda>i. nth_or (bs_net s) i 0) is)) g (bi_priceMode input) (bill_rounding input) = Inr r) ?order rs"
    using post by (simp add: loop_post_def group_results_def)
  from list_all2_member [OF this k(1)] obtain g r where g: "(g, r) \<in> set rs" "map_of (group_map (bi_taxGroups input)) k = Some g"
      "\<exists>a. computeGroupTax a g (bi_priceMode input) (bill_rounding input) = Inr r"
    by blast
  have "tax_line g ITEMS r \<in> set (br_taxLines b)"
    using \<open>tax_results input b rs cs\<close> g(1) by (force simp: tax_results_def)
  moreover have "tg_id g = k" using group_map_id [OF g(2)] by simp
  moreover have "map (\<lambda>x. (tca_code x, tca_rateBp x)) (gt_components r) = map (\<lambda>r. (tc_code r, tc_rateBp r)) (tg_components g)"
    using g(3) group_tax_rates by blast
  ultimately show ?thesis using g(2) line key by (intro bexI [of _ "tax_line g ITEMS r"] exI [of _ g]) (simp_all add: tax_line_def)
qed

text \<open>
  C3: Each item is taxed as it was ordered. On a priced bill, line by line, the amount is the item's own
  price times its quantity, and its group's tax line has exactly the rates stored on the item, whatever other items
  of the same tax group carry; the group shown is the item's own.
\<close>

theorem taxed_as_ordered:
  assumes "calculateBill items discounts names settings = Inr c" "isSafeInteger (br_totalBeforeRoundOff (cb_result c))"
    and "\<forall>item \<in> set items. clean_rates item" "i < length items"
  shows "bl_id (br_lines (cb_result c) ! i) = bb_id (items ! i) \<and>
    bl_grossAmount (br_lines (cb_result c) ! i) = bb_unitPrice (items ! i) * bb_quantity (items ! i) \<and>
    map_of (cb_groupIdOf c) (bl_taxGroupId (br_lines (cb_result c) ! i)) = Some (bb_taxGroupId (items ! i)) \<and>
    (\<exists>t \<in> set (br_taxLines (cb_result c)). tl_source t = ITEMS \<and> tl_taxGroupId t = bl_taxGroupId (br_lines (cb_result c) ! i) \<and>
       map (\<lambda>x. (tca_code x, tca_rateBp x)) (tl_components t) = map (\<lambda>r. (tc_code r, tc_rateBp r)) (bb_taxRates (items ! i)))"
proof -
  let ?input = "bill_input items discounts names settings" and ?b = "cb_result c" and ?m = "bill_groups names items"
  have run: "computeBill ?input = Inr ?b" and ids: "cb_groupIdOf c = map (\<lambda>(k, g, i). (k, i)) ?m"
    using assms(1) unfolding calculateBill_Inr by (blast, metis CalculatedBill.select_convs(2))
  have lines: "bi_lines ?input = map (bill_line (item_discounts discounts)) items" by (simp add: bill_input_def Let_def)
  then have i: "i < length (bi_lines ?input)" using assms(4) by simp
  obtain t g where t: "t \<in> set (br_taxLines ?b)" "tl_source t = ITEMS" "tl_taxGroupId t = bl_taxGroupId (br_lines ?b ! i)"
      "map_of (group_map (bi_taxGroups ?input)) (bl_taxGroupId (br_lines ?b ! i)) = Some g"
      "map (\<lambda>x. (tca_code x, tca_rateBp x)) (tl_components t) = map (\<lambda>r. (tc_code r, tc_rateBp r)) (tg_components g)"
    using line_tax_result [OF run assms(2) i] by blast
  have line: "bl_id (br_lines ?b ! i) = bli_id (bi_lines ?input ! i)" "bl_taxGroupId (br_lines ?b ! i) = bli_taxGroupId (bi_lines ?input ! i)"
      "bl_grossAmount (br_lines ?b ! i) = bli_unitPrice (bi_lines ?input ! i) * bli_quantity (bi_lines ?input ! i)"
    using computed_discounts [OF run] i by (auto simp: list_all2_conv_all_nth)
  have key: "bl_taxGroupId (br_lines ?b ! i) = keyOf (items ! i)" using line(2) assms(4) by (simp add: lines bill_line_def Let_def)
  obtain h where h: "map_of ?m (keyOf (items ! i)) = Some (h, bb_taxGroupId (items ! i))" "tg_components h = bb_taxRates (items ! i)"
    using stored_rates [of "items ! i" items names] assms(3,4) by auto
  have "map_of (group_map (bi_taxGroups ?input)) (keyOf (items ! i)) = Some h"
    using group_map_of_groups [of ?m] bill_groups_keys [of names items] h(1) by (simp add: bill_input_def Let_def)
  then have g: "tg_components g = bb_taxRates (items ! i)" using t(4) h(2) unfolding key by simp
  have "map_of (cb_groupIdOf c) (keyOf (items ! i)) = Some (bb_taxGroupId (items ! i))"
    using h(1) unfolding ids map_of_ids by simp
  moreover have "bli_id (bi_lines ?input ! i) = bb_id (items ! i)" "bli_unitPrice (bi_lines ?input ! i) = bb_unitPrice (items ! i)"
    "bli_quantity (bi_lines ?input ! i) = bb_quantity (items ! i)"
    using assms(4) by (simp_all add: lines bill_line_def Let_def)
  ultimately show ?thesis using t(1,2,3,5) line(1,3) unfolding g key by metis
qed

text \<open>A coffee ordered before the rates of its group went up, and one ordered after.\<close>

definition coffee :: "string \<Rightarrow> BasisPoints \<Rightarrow> BillableItem" where
  "coffee i rate =
     \<lparr>bb_id = i, bb_itemId = ''coffee'', bb_name = ''Coffee'', bb_variantName = None, bb_modifiers = [], bb_quantity = 2,
      bb_unitPrice = 10000, bb_taxGroupId = ''drinks'',
      bb_taxRates = [\<lparr>tc_code = ''CGST'', tc_rateBp = rate\<rparr>, \<lparr>tc_code = ''SGST'', tc_rateBp = rate\<rparr>]\<rparr>"

definition coffee_settings :: BillSettings where
  "coffee_settings = \<lparr>bt_priceMode = TAX_EXCLUSIVE, bt_roundingUnitPaise = 100, bt_serviceChargeRateBp = Some 500\<rparr>"

lemma coffees_priced:
  "(case calculateBill [coffee ''a'' 250, coffee ''b'' 900] [] [''drinks'' \<mapsto> ''Drinks''] coffee_settings of
      Inl e \<Rightarrow> False
    | Inr c \<Rightarrow> br_totalBeforeRoundOff (cb_result c) = 46700 \<and> br_grandTotal (cb_result c) = 46700)"
  by code_simp

theorem taxed_as_ordered_witness:
  "\<exists>c. calculateBill [coffee ''a'' 250, coffee ''b'' 900] [] [''drinks'' \<mapsto> ''Drinks''] coffee_settings = Inr c \<and>
     (\<exists>t \<in> set (br_taxLines (cb_result c)). map tca_rateBp (tl_components t) = [900, 900]) \<and>
     map_of (cb_groupIdOf c) (bl_taxGroupId (br_lines (cb_result c) ! 1)) = Some ''drinks''"
proof -
  let ?items = "[coffee ''a'' 250, coffee ''b'' 900]"
  obtain c where c: "calculateBill ?items [] [''drinks'' \<mapsto> ''Drinks''] coffee_settings = Inr c"
      and "br_totalBeforeRoundOff (cb_result c) = 46700"
    using coffees_priced by (cases "calculateBill ?items [] [''drinks'' \<mapsto> ''Drinks''] coffee_settings") auto
  then have safe: "isSafeInteger (br_totalBeforeRoundOff (cb_result c))" by simp
  have clean: "\<forall>item \<in> set ?items. clean_rates item" by (simp add: clean_rates_def coffee_def)
  obtain t where t: "t \<in> set (br_taxLines (cb_result c))"
      "map (\<lambda>x. (tca_code x, tca_rateBp x)) (tl_components t) = [(''CGST'', 900), (''SGST'', 900)]"
    and group: "map_of (cb_groupIdOf c) (bl_taxGroupId (br_lines (cb_result c) ! 1)) = Some ''drinks''"
    using taxed_as_ordered [OF c safe clean, of 1] by (auto simp: coffee_def)
  have "map tca_rateBp (tl_components t) = map snd (map (\<lambda>x. (tca_code x, tca_rateBp x)) (tl_components t))" by simp
  then have "map tca_rateBp (tl_components t) = [900, 900]" unfolding t(2) by simp
  then show ?thesis by (intro exI [of _ c] conjI bexI [OF _ t(1)] c group)
qed

end
