(* ===== verification/Spec2Isabelle.thy ===== *)
theory Spec2Isabelle
  imports Rupee_Text Staff Bill_Split_Totals Payments Reports Table_Machine Order_Item Service_Request Notification_Rules Subscription_Billing Invoice_Number Kot Menu_Selection Lockout Gstin Order_Feed Pager Software_Update Client_Api Rate_Limits Connection_Gate Packet_Sizes Order_Outbox Audit_Chain Licence_Agent Line_Check Order_Engine Bill_Pricing
begin

text \<open>
  A model of the rules of a restaurant's point of sale: the pure TypeScript packages that every
  device and the server share, and the parts of the server and of the apps that keep state by
  themselves. The sources are under \<open>src/\<close>; file names below are relative to it.

  The program. A restaurant runs one server on a PC (\<open>apps/server\<close>, with a database), to which
  consoles, waiters' phones, table tablets, kitchen screens and wrist pagers connect; a vendor runs
  a control plane (\<open>apps/control-plane\<close>) that bills restaurants and offers updates. What is true of
  money, orders, tables, days, permissions, alerts and versions is decided by functions without
  effects in \<open>packages/domain\<close>, which server and apps call alike: an order becomes items that move
  through a state machine, kitchen tickets are cut from it, its items become a bill with discounts
  and taxes, the bill is split and paid, invoices are numbered by financial year, and a day's
  invoices add up to a report at the business day's end. Around this, service requests and alerts
  follow their own machines and clocks, and the licence of the restaurant decides what it may start.

  How the code is modelled. A number the code adds up is an integer with the double's rounding
  written out (\<open>JsNumber\<close>): sums and products are rounded to 53 bits, so a result is exact
  only where the lemmas prove it. A \<open>throw\<close> is \<^term>\<open>Inl\<close> of the error's code, an object a record, a
  union of names a datatype, a \<open>Map\<close> an association list in insertion order, an optional property an
  option, a loop a recursion. What is not under \<open>src/\<close> is an argument: the clock of a time zone
  (\<open>Intl.DateTimeFormat\<close>), \<open>localeCompare\<close>, and the answers of a server to a client. No fuel is used
  anywhere: loops that may run on are either proved to end or return an option, and then the lemmas
  say exactly when they return.

  The theories, in the order the code builds on itself.

  \<^item> \<open>Prelude\<close>, \<open>JsNumber\<close>, \<open>Text\<close>, \<open>Tally\<close>: errors and results, doubles, strings, insertion-ordered
    maps and tallies, with the lemmas the others share.
  \<^item> \<open>Money\<close>, \<open>Allocation\<close>, \<open>Rupee_Text\<close> (\<open>packages/domain/src/money.ts\<close>): rounding, exact
    proportional allocation, and reading back the amounts that are printed.
  \<^item> \<open>Discount\<close>, \<open>Tax\<close>, \<open>Bill\<close>, \<open>Bill_Totals\<close>, \<open>Bill_Taxes\<close> (\<open>discount.ts\<close>, \<open>tax.ts\<close>, \<open>bill.ts\<close>):
    the bill, whose discounts, taxable values, taxes, total and round-off are tied to its lines.
  \<^item> \<open>Bill_Split\<close>, \<open>Bill_Split_Totals\<close>, \<open>Payments\<close>, \<open>Reports\<close> (\<open>bill-split.ts\<close>, \<open>payments.ts\<close>,
    \<open>z-report.ts\<close>, \<open>reports.ts\<close>): parts add up to the bill, steps of payment to one payment, and
    reports lose nothing.
  \<^item> \<open>Permissions\<close>, \<open>Staff\<close>, \<open>Lockout\<close> (\<open>permissions.ts\<close>, \<open>staff.ts\<close>, \<open>lockout.ts\<close>): who may do what,
    what no sequence of staff changes can do, and how many secrets can be guessed.
  \<^item> \<open>State_Machine\<close> with \<open>Order_Item\<close>, \<open>Table_Machine\<close>, \<open>Service_Request\<close>, \<open>License\<close>
    (\<open>state-machine.ts\<close>, \<open>machines/\<close>): the table-driven machines, their runs as an inductive
    relation, and what holds in every run.
  \<^item> \<open>Menu_Selection\<close>, \<open>Kot\<close>, \<open>Order_Feed\<close> (\<open>menu-selection.ts\<close>, \<open>kot.ts\<close>, \<open>order-feed.ts\<close>): what may be
    ordered at which price, where it is cooked, and what is late.
  \<^item> \<open>Calendar\<close>, \<open>Business_Date\<close>, \<open>Date_Rules\<close>, \<open>Business_Day_Rules\<close>, \<open>Invoice_Number\<close>,
    \<open>Subscription_Billing\<close> (\<open>business-date.ts\<close>, \<open>invoice-number.ts\<close>, \<open>subscription-billing.ts\<close>): days as
    numbers, business days as a partition of time, invoice numbers, and billing as a refinement of the licence
    machine.
  \<^item> \<open>Notifications\<close>, \<open>Notification_Rules\<close>, \<open>Pager\<close> (\<open>notifications.ts\<close>, \<open>pager.ts\<close>): who is alerted, how
    often, and what a pager shows and may say.
  \<^item> \<open>Semver\<close>, \<open>Rollout\<close>, \<open>Software_Update\<close>, \<open>Client_Api\<close>, \<open>Gstin\<close> (files of the same names): versions as
    a total preorder (a locale, interpreted for identifiers, versions and version texts), which
    release is offered and installed, which apps are served, and a checksum.
  \<^item> \<open>Rate_Limits\<close>, \<open>Connection_Gate\<close>, \<open>Packet_Sizes\<close> (\<open>apps/server/src/common/flood-limits.ts\<close>,
    \<open>apps/server/src/pagers/broker-limits.ts\<close>): what a flooding host can get through, by a credit
    argument (a locale, interpreted for one bucket and for the buckets of every key), the
    connection gate's counts, and the scanner of packet sizes.
  \<^item> \<open>Outbox\<close>, \<open>Order_Outbox\<close> (\<open>packages/mobile-core/src/outbox.ts\<close>, \<open>order-outbox.ts\<close>): what a phone keeps
    to send later: sending as one pass over the list, each operation one step; then the same operations taken apart at every
    \<open>await\<close>, with failed writes and closings, what they keep as long as none saves between another's load and save, and what
    is lost otherwise.
  \<^item> \<open>Canonical_Json\<close>, \<open>Audit_Log\<close>, \<open>Audit_Chain\<close> (\<open>canonical-json.ts\<close>,
    \<open>apps/server/src/audit/audit.service.ts\<close>, \<open>audit-hash.ts\<close>): the canonical text of a value, the chain of
    hashes written by it, its check in batches, and what cannot be changed behind it; what the database makes of JSON is an argument, and
    the theorems are of entries that it takes unchanged.
  \<^item> \<open>Line_Check\<close> (\<open>packages/ordering/src/line-check.ts\<close>): exactly which order lines are taken from a menu and as what, by rules
    stated apart from the code, and that what is charged is what is recorded.
  \<^item> \<open>Bill_Pricing\<close> (\<open>apps/server/src/billing/bill-calculation.ts\<close>): a bill priced on the server from the items as ordered, each
    line taxed at the rates stored on its own item.
  \<^item> \<open>Order_Store\<close>, \<open>Order_Submit\<close>, \<open>Order_Changes\<close>, \<open>Order_Approvals\<close>
    (\<open>apps/server/src/orders/orders.service.ts\<close>, \<open>order-items.service.ts\<close>, \<open>order-approvals.service.ts\<close>,
    \<open>floor/open-for-order.ts\<close>, the stock functions of \<open>menu/menu-publish.service.ts\<close>, \<open>database/numbering.ts\<close>): the order
    engine of the server, every operation a function from the store to an error or the new store, as its transaction is,
    with the setting of stock by staff and the clean-up of keys (\<open>lifecycle/retention.service.ts\<close>).
    The tables are lists of rows and maps by id. That transactions take effect one after the other is an assumption: an
    approval and a change of one of its lines lock different rows and may overlap in the database.
  \<^item> \<open>Order_Rows\<close>, \<open>Order_Stock\<close>, \<open>Order_Invariant\<close>, \<open>Order_Kept\<close>, \<open>Order_Ends\<close>, \<open>Order_Sends\<close>, \<open>Order_Approved\<close>,
    \<open>Order_Created\<close>: each operation as one change of the rows, and the invariant and the balance of the stock that it keeps.
  \<^item> \<open>Order_View\<close> (\<open>packages/ordering/src/order-state.ts\<close>), \<open>Order_Runs\<close>, \<open>Order_Engine\<close>: traces of transactions in any order (a
    locale lifts what each transaction keeps, interpreted for rows, stock, numbers and keys), and what the engine promises: no
    stock lost or sold twice while no approval changes a line twice, lines where their parts are, one answer per key until the key is cleaned up,
    different numbers, and a way to serve everything sent in two steps. The last section shows slips of the code.
  \<^item> \<open>Reactivation\<close>, \<open>Licence_Check\<close>, \<open>Licence_Agent\<close> (\<open>packages/licensing/src/\<close>,
    \<open>apps/server/src/licensing/licence-agent.service.ts\<close>): the codes the vendor reads out, the judgement of a
    licence file, and the agent's sealed record over checks, codes, heartbeats and restarts, and
    how two overlapping tries take one code twice.

  Bounds. Amounts are whole paise within the safe integers, which every operation checks as the code
  does; dates have years 0 to 9999 as their texts have four digits. Where a theorem needs a narrower
  range it says so.

  What is not modelled. Texts for people (the messages of errors and problems, translations in
  \<open>packages/i18n\<close>, labels of reports) are dropped. Of \<open>apps/server\<close> the order engine, the audit log, the licence agent and
  the flood limits are modelled; its other services over the database (sign-in, the floor, the transactions of billing, printing, devices) and \<open>apps/control-plane\<close>
  are not, because they are mostly queries around the modelled rules; HTTP controllers, sockets, printing, encryption and files are left out, and so are the
  consoles and the apps' screens (\<open>.tsx\<close>), the schemas of \<open>packages/contracts\<close>, generated code,
  native code, installers, end-to-end tests and tools; what these call of the modelled packages is
  covered by the theorems about it.
\<close>

end
